(* ===== verification/Prelude.thy ===== *)
theory Prelude
  imports Main "HOL-Library.Word"
begin

text \<open>
  Shared vocabulary of the development: bytes and byte strings, the integer
  operators of JavaScript that the driver relies on, big- and little-endian
  integer encodings, JavaScript string and array helpers, and results with
  errors as values.

  A JavaScript number that holds an integer is an \<open>int\<close>; the 32-bit operators
  (\<open>v | 0\<close>, \<open>v >>> 0\<close>, \<open>& ~3\<close>) are written out as wrap-around on \<open>int\<close>.
  A Buffer is a list of 8-bit words. A JavaScript string is a HOL \<open>string\<close>, its
  UTF-8 bytes as characters, so that \<open>Buffer.from(s, 'utf8')\<close> and
  \<open>toString('utf8')\<close> are \<open>str_bytes\<close> and \<open>bytes_str\<close>. Every character the lexers
  distinguish is ASCII; white space and letter case are those of ASCII, and an index
  into a string is the JavaScript index when the text before it is ASCII.
\<close>

type_synonym byte = "8 word"
type_synonym bytes = "byte list"

named_theorems js_int "facts about the 32-bit integer operators"
named_theorems endian "facts about integer encodings"

subsection \<open>JavaScript integer operators\<close>

text \<open>\<open>v | 0\<close>: the value modulo \<open>2 ^ 32\<close>, read as two's complement.\<close>

definition to_int32 :: "int \<Rightarrow> int" where
  "to_int32 v = (v + 2147483648) mod 4294967296 - 2147483648"

text \<open>\<open>v >>> 0\<close>: the value modulo \<open>2 ^ 32\<close>, read as unsigned.\<close>

definition to_uint32 :: "int \<Rightarrow> int" where
  "to_uint32 v = v mod 4294967296"

text \<open>\<open>(v + 3) & ~3\<close>: the next multiple of four, computed on 32 bits.\<close>

definition pad4 :: "int \<Rightarrow> int" where
  "pad4 v = (let u = to_int32 (v + 3) in u - u mod 4)"

text \<open>The same on a length, which never leaves the 32-bit range.\<close>

definition pad4n :: "nat \<Rightarrow> nat" where
  "pad4n n = 4 * ((n + 3) div 4)"

abbreviation int32_range :: "int \<Rightarrow> bool" where
  "int32_range v \<equiv> - 2147483648 \<le> v \<and> v \<le> 2147483647"

abbreviation uint32_range :: "int \<Rightarrow> bool" where
  "uint32_range v \<equiv> 0 \<le> v \<and> v < 4294967296"

lemma to_int32_id [js_int, simp]: "int32_range v \<Longrightarrow> to_int32 v = v"
  by (simp add: to_int32_def)

lemma to_int32_range [js_int]: "int32_range (to_int32 v)"
  by (simp add: to_int32_def)

lemma to_uint32_id [js_int, simp]: "uint32_range v \<Longrightarrow> to_uint32 v = v"
  by (simp add: to_uint32_def)

lemma to_uint32_range [js_int]: "uint32_range (to_uint32 v)"
  by (simp add: to_uint32_def)

lemma to_int32_mod [js_int, simp]: "to_int32 (v mod 4294967296) = to_int32 v"
  by (simp add: to_int32_def mod_simps)

lemma to_int32_uint32 [js_int, simp]: "to_int32 (to_uint32 v) = to_int32 v"
  by (simp add: to_uint32_def)

lemma to_int32_idem [js_int, simp]: "to_int32 (to_int32 v) = to_int32 v"
  using to_int32_range [of v] by simp

lemma to_uint32_idem [js_int, simp]: "to_uint32 (to_uint32 v) = to_uint32 v"
  by (simp add: to_uint32_def)

lemma to_uint32_int32 [js_int, simp]: "to_uint32 (to_int32 v) = to_uint32 v"
  unfolding to_uint32_def to_int32_def by (simp add: mod_simps)

lemma pad4_small: "v < 2147483645 \<Longrightarrow> 0 \<le> v \<Longrightarrow> pad4 v = 4 * ((v + 3) div 4)"
  by (simp add: pad4_def Let_def minus_mod_eq_mult_div)

lemma pad4_nat: "int n < 2147483645 \<Longrightarrow> pad4 (int n) = int (pad4n n)"
  by (simp add: pad4_small pad4n_def zdiv_int)

lemma pad4n_bounds: "n \<le> pad4n n \<and> pad4n n < n + 4"
  unfolding pad4n_def by arith

lemma pad4n_ge [simp]: "n \<le> pad4n n"
  using pad4n_bounds by simp

lemma pad4n_dvd [simp]: "4 dvd pad4n n"
  by (simp add: pad4n_def)

lemma pad4n_mod [simp]: "pad4n n mod 4 = 0"
  by (simp add: pad4n_def)

lemma pad4n_0 [simp]: "pad4n 0 = 0"
  by (simp add: pad4n_def)

subsection \<open>Integer encodings\<close>

text \<open>
  \<open>le_bytes n v\<close> and \<open>be_bytes n v\<close> are the \<open>n\<close> bytes of \<open>v\<close> modulo \<open>256 ^ n\<close>,
  lowest byte first and highest byte first: what \<open>writeInt32BE\<close>,
  \<open>writeUInt16LE\<close>, \<open>writeBigInt64BE\<close> and the shift-and-mask sequences of the code
  store. \<open>le_val\<close>, \<open>be_val\<close> read them back as unsigned values and \<open>signed n\<close> is the
  two's complement reading of an \<open>n\<close>-byte value.
\<close>

fun le_bytes :: "nat \<Rightarrow> int \<Rightarrow> bytes" where
  "le_bytes 0 v = []"
| "le_bytes (Suc n) v = word_of_int v # le_bytes n (v div 256)"

definition be_bytes :: "nat \<Rightarrow> int \<Rightarrow> bytes" where
  "be_bytes n v = rev (le_bytes n v)"

fun le_val :: "bytes \<Rightarrow> int" where
  "le_val [] = 0"
| "le_val (b # bs) = uint b + 256 * le_val bs"

definition be_val :: "bytes \<Rightarrow> int" where
  "be_val bs = le_val (rev bs)"

definition signed_val :: "nat \<Rightarrow> int \<Rightarrow> int" where
  "signed_val n u = (u + 2 ^ (8 * n - 1)) mod 2 ^ (8 * n) - 2 ^ (8 * n - 1)"

lemma length_le_bytes [simp]: "length (le_bytes n v) = n"
  by (induction n arbitrary: v) auto

lemma length_be_bytes [simp]: "length (be_bytes n v) = n"
  by (simp add: be_bytes_def)

lemma uint_byte_of_int: "uint (word_of_int v :: byte) = v mod 256"
  by (simp add: uint_word_of_int)

lemma uint_byte_bounds [simp]: "0 \<le> uint (b :: byte)" "uint (b :: byte) < 256"
  using uint_bounded [of b] by simp_all

lemma mod_256_Suc: "(v::int) mod 256 + 256 * (v div 256 mod 256 ^ n) = v mod 256 ^ Suc n"
  using mod_mult2_eq' [of v 256 "256 ^ n"] by (simp add: zmod_zmult2_eq algebra_simps)

lemma le_val_le_bytes [endian]: "le_val (le_bytes n v) = v mod 256 ^ n"
  by (induction n arbitrary: v) (simp_all only: le_bytes.simps le_val.simps uint_byte_of_int
      mod_256_Suc, simp)

lemma be_val_be_bytes [endian]: "be_val (be_bytes n v) = v mod 256 ^ n"
  by (simp add: be_val_def be_bytes_def le_val_le_bytes)

lemma le_val_bounds: "0 \<le> le_val bs \<and> le_val bs < 256 ^ length bs"
proof (induction bs)
  case (Cons b bs)
  then show ?case
    using uint_byte_bounds [of b] by (simp only: le_val.simps length_Cons power_Suc) linarith
qed simp

lemma be_val_bounds: "0 \<le> be_val bs \<and> be_val bs < 256 ^ length bs"
  using le_val_bounds [of "rev bs"] by (simp add: be_val_def)

lemma le_bytes_le_val [endian]: "le_bytes (length bs) (le_val bs) = bs"
proof (induction bs)
  case (Cons b bs)
  have div: "(uint b + 256 * le_val bs) div 256 = le_val bs"
    using uint_byte_bounds [of b] by simp
  have "word_of_int (uint b + 256 * le_val bs) = (word_of_int (uint b) :: byte)"
    by (simp only: word_uint_eq_iff uint_byte_of_int) (simp add: mod_simps)
  with Cons div show ?case by simp
qed simp

lemma be_bytes_be_val [endian]: "be_bytes (length bs) (be_val bs) = bs"
  using le_bytes_le_val [of "rev bs"] by (simp add: be_val_def be_bytes_def)

lemma signed_val_mod [endian]:
  assumes "0 < n" and "- (2 ^ (8 * n - 1)) \<le> v" and "v < 2 ^ (8 * n - 1)"
  shows "signed_val n (v mod 2 ^ (8 * n)) = v"
proof -
  have two: "(2::int) ^ (8 * n) = 2 * 2 ^ (8 * n - 1)"
    using assms(1) by (simp flip: power_Suc)
  have "(v + 2 ^ (8 * n - 1)) mod 2 ^ (8 * n) = v + 2 ^ (8 * n - 1)"
    using assms two by simp
  then show ?thesis
    by (simp add: signed_val_def mod_simps)
qed

lemma pow256: "(256::int) ^ n = 2 ^ (8 * n)"
  by (simp add: power_mult)

subsection \<open>Arrays and strings\<close>

text \<open>
  \<open>at xs i\<close> is \<open>xs[i]\<close>: \<open>None\<close> is \<open>undefined\<close>, out of range. \<open>js_slice a b xs\<close> is
  \<open>xs.slice(a, b)\<close> (and \<open>subarray\<close>) for indices that are not negative: both ends
  are clamped to the length.
\<close>

named_theorems slices "facts about indexing and slices"

definition at :: "'a list \<Rightarrow> nat \<Rightarrow> 'a option" where
  "at xs i = (if i < length xs then Some (xs ! i) else None)"

definition js_slice :: "nat \<Rightarrow> nat \<Rightarrow> 'a list \<Rightarrow> 'a list" where
  "js_slice a b xs = drop a (take b xs)"

text \<open>\<open>xs.startsWith(p, i)\<close>.\<close>

definition starts_at :: "'a list \<Rightarrow> nat \<Rightarrow> 'a list \<Rightarrow> bool" where
  "starts_at xs i p = (take (length p) (drop i xs) = p)"

lemma at_Some [slices]: "at xs i = Some x \<longleftrightarrow> i < length xs \<and> xs ! i = x"
  by (auto simp: at_def)

lemma at_None [slices]: "at xs i = None \<longleftrightarrow> length xs \<le> i"
  by (auto simp: at_def)

lemma at_0_Cons [simp]: "at (x # xs) 0 = Some x"
  by (simp add: at_def)

lemma at_Suc_Cons [simp]: "at (x # xs) (Suc i) = at xs i"
  by (simp add: at_def)

lemma at_Nil [simp]: "at [] i = None"
  by (simp add: at_def)

lemma length_slice [slices, simp]: "length (js_slice a b xs) = min b (length xs) - a"
  by (simp add: js_slice_def)

lemma slice_split [slices]: "a \<le> b \<Longrightarrow> b \<le> c \<Longrightarrow> js_slice a b xs @ js_slice b c xs = js_slice a c xs"
proof -
  assume ab: "a \<le> b" and bc: "b \<le> c"
  have "take c xs = take b xs @ drop b (take c xs)"
    using bc by (metis append_take_drop_id min_absorb1 take_take)
  moreover have "a \<le> length (take b xs) \<or> drop b (take c xs) = []"
    using ab by auto
  ultimately show ?thesis
    unfolding js_slice_def using ab
    by (metis append.right_neutral append_Nil drop_all drop_append diff_is_0_eq drop_0 nat_le_linear)
qed

lemma slice_full [slices, simp]: "length xs \<le> b \<Longrightarrow> js_slice 0 b xs = xs"
  by (simp add: js_slice_def)

lemma slice_empty [slices, simp]: "b \<le> a \<Longrightarrow> js_slice a b xs = []"
  by (simp add: js_slice_def)

lemma starts_at_bound: "starts_at xs i p \<Longrightarrow> p \<noteq> [] \<Longrightarrow> i + length p \<le> length xs"
proof -
  assume "starts_at xs i p" and ne: "p \<noteq> []"
  then have "length (take (length p) (drop i xs)) = length p"
    by (simp add: starts_at_def)
  with ne show ?thesis by (simp add: min_def split: if_splits) (cases p; simp)
qed

text \<open>Strings and their bytes.\<close>

definition str_bytes :: "string \<Rightarrow> bytes" where
  "str_bytes s = map (\<lambda>c. word_of_nat (of_char c)) s"

definition bytes_str :: "bytes \<Rightarrow> string" where
  "bytes_str bs = map (\<lambda>b. char_of (unat b)) bs"

lemma of_char_less: "(of_char c :: nat) < 256"
  by (metis of_char_mod_256 mod_less_divisor zero_less_numeral)

lemma bytes_str_bytes [simp]: "bytes_str (str_bytes s) = s"
  by (simp add: str_bytes_def bytes_str_def comp_def unat_of_nat of_char_less map_idI)

lemma str_bytes_str [simp]: "str_bytes (bytes_str bs) = bs"
proof -
  have "word_of_nat (of_char (char_of (unat b) :: char)) = b" for b :: byte
    using unsigned_less [where 'a = nat, of b] by simp
  then show ?thesis
    by (simp add: str_bytes_def bytes_str_def comp_def)
qed

lemma length_str_bytes [simp]: "length (str_bytes s) = length s"
  by (simp add: str_bytes_def)

text \<open>Characters: the \<open>\s\<close>, \<open>\d\<close>, \<open>[A-Za-z]\<close> classes and ASCII letter case.\<close>

abbreviation code :: "char \<Rightarrow> nat" where
  "code c \<equiv> of_char c"

abbreviation newline :: char where "newline \<equiv> CHR 0x0A"
abbreviation return_char :: char where "return_char \<equiv> CHR 0x0D"
abbreviation quote :: char where "quote \<equiv> CHR 0x27"
abbreviation dquote :: char where "dquote \<equiv> CHR 0x22"

definition is_ws :: "char \<Rightarrow> bool" where
  "is_ws c = (9 \<le> code c \<and> code c \<le> 13 \<or> code c = 32)"

definition is_digit :: "char \<Rightarrow> bool" where
  "is_digit c = (48 \<le> code c \<and> code c \<le> 57)"

definition is_upper :: "char \<Rightarrow> bool" where
  "is_upper c = (65 \<le> code c \<and> code c \<le> 90)"

definition is_lower :: "char \<Rightarrow> bool" where
  "is_lower c = (97 \<le> code c \<and> code c \<le> 122)"

definition lower_char :: "char \<Rightarrow> char" where
  "lower_char c = (if is_upper c then char_of (code c + 32) else c)"

definition upper_char :: "char \<Rightarrow> char" where
  "upper_char c = (if is_lower c then char_of (code c - 32) else c)"

abbreviation to_lower :: "string \<Rightarrow> string" where "to_lower \<equiv> map lower_char"
abbreviation to_upper :: "string \<Rightarrow> string" where "to_upper \<equiv> map upper_char"

text \<open>The same on the bits of a character, for evaluation.\<close>

lemma is_ws_code [code]:
  "is_ws (Char b0 b1 b2 b3 b4 b5 b6 b7) =
     (\<not> b7 \<and> \<not> b6 \<and> \<not> b4 \<and> (if b5 then \<not> b3 \<and> \<not> b2 \<and> \<not> b1 \<and> \<not> b0
        else b3 \<and> (if b2 then \<not> b1 else b1 \<or> b0)))"
  by (cases b0; cases b1; cases b2; cases b3; cases b4; cases b5; cases b6; cases b7; simp add: is_ws_def)

lemma is_digit_code [code]:
  "is_digit (Char b0 b1 b2 b3 b4 b5 b6 b7) = (\<not> b7 \<and> \<not> b6 \<and> b5 \<and> b4 \<and> (b3 \<longrightarrow> \<not> b2 \<and> \<not> b1))"
  by (cases b0; cases b1; cases b2; cases b3; cases b4; cases b5; cases b6; cases b7; simp add: is_digit_def)

lemma is_upper_code [code]:
  "is_upper (Char b0 b1 b2 b3 b4 b5 b6 b7) =
     (\<not> b7 \<and> b6 \<and> \<not> b5 \<and> (b0 \<or> b1 \<or> b2 \<or> b3 \<or> b4) \<and> \<not> (b4 \<and> b3 \<and> (b2 \<or> b1 \<and> b0)))"
  by (cases b0; cases b1; cases b2; cases b3; cases b4; cases b5; cases b6; cases b7; simp add: is_upper_def)

lemma is_lower_code [code]:
  "is_lower (Char b0 b1 b2 b3 b4 b5 b6 b7) =
     (\<not> b7 \<and> b6 \<and> b5 \<and> (b0 \<or> b1 \<or> b2 \<or> b3 \<or> b4) \<and> \<not> (b4 \<and> b3 \<and> (b2 \<or> b1 \<and> b0)))"
  by (cases b0; cases b1; cases b2; cases b3; cases b4; cases b5; cases b6; cases b7; simp add: is_lower_def)

lemma char_of_code_32:
  "\<not> b5 \<Longrightarrow> char_of (code (Char b0 b1 b2 b3 b4 b5 b6 b7) + 32) = Char b0 b1 b2 b3 b4 True b6 b7"
  by (cases b0; cases b1; cases b2; cases b3; cases b4; cases b6; cases b7; simp add: char_of_def bit_iff_odd)

lemma char_of_code_minus_32:
  "b5 \<Longrightarrow> char_of (code (Char b0 b1 b2 b3 b4 b5 b6 b7) - 32) = Char b0 b1 b2 b3 b4 False b6 b7"
  by (cases b0; cases b1; cases b2; cases b3; cases b4; cases b6; cases b7; simp add: char_of_def bit_iff_odd)

lemma lower_char_code [code]:
  "lower_char (Char b0 b1 b2 b3 b4 b5 b6 b7) =
     (if is_upper (Char b0 b1 b2 b3 b4 b5 b6 b7) then Char b0 b1 b2 b3 b4 True b6 b7
      else Char b0 b1 b2 b3 b4 b5 b6 b7)"
  using char_of_code_32 [of b5 b0 b1 b2 b3 b4 b6 b7]
  by (auto simp: lower_char_def is_upper_code simp del: of_char_Char)

lemma upper_char_code [code]:
  "upper_char (Char b0 b1 b2 b3 b4 b5 b6 b7) =
     (if is_lower (Char b0 b1 b2 b3 b4 b5 b6 b7) then Char b0 b1 b2 b3 b4 False b6 b7
      else Char b0 b1 b2 b3 b4 b5 b6 b7)"
  using char_of_code_minus_32 [of b5 b0 b1 b2 b3 b4 b6 b7]
  by (auto simp: upper_char_def is_lower_code simp del: of_char_Char)

lemma lower_char_idem [simp]: "lower_char (lower_char c) = lower_char c"
  by (cases c) (simp add: lower_char_code is_upper_code)

lemma upper_char_idem [simp]: "upper_char (upper_char c) = upper_char c"
  by (cases c) (simp add: upper_char_code is_lower_code)

text \<open>\<open>s.trim()\<close>.\<close>

definition trim :: "string \<Rightarrow> string" where
  "trim s = rev (dropWhile is_ws (rev (dropWhile is_ws s)))"

text \<open>\<open>String(n)\<close> for a natural number and for an integer; reading decimal digits.\<close>

definition digit_char :: "nat \<Rightarrow> char" where
  "digit_char d = char_of (48 + d)"

definition digit_val :: "char \<Rightarrow> nat" where
  "digit_val c = code c - 48"

fun dec_nat :: "nat \<Rightarrow> string" where
  "dec_nat n = (if n < 10 then [digit_char n] else dec_nat (n div 10) @ [digit_char (n mod 10)])"

declare dec_nat.simps [simp del]

definition dec_int :: "int \<Rightarrow> string" where
  "dec_int v = (if v < 0 then CHR ''-'' # dec_nat (nat (- v)) else dec_nat (nat v))"

definition digits_val :: "string \<Rightarrow> nat" where
  "digits_val s = foldl (\<lambda>a c. 10 * a + digit_val c) 0 s"

lemma code_digit_char [simp]: "d < 208 \<Longrightarrow> code (digit_char d) = 48 + d"
  by (simp add: digit_char_def)

lemma digit_val_char [simp]: "d < 10 \<Longrightarrow> digit_val (digit_char d) = d"
  by (simp add: digit_val_def)

lemma is_digit_char [simp]: "d < 10 \<Longrightarrow> is_digit (digit_char d)"
  by (simp add: is_digit_def)

lemma digit_char_val [simp]: "is_digit c \<Longrightarrow> digit_char (digit_val c) = c"
  by (simp add: digit_char_def digit_val_def is_digit_def)

lemma digit_val_less [simp]: "is_digit c \<Longrightarrow> digit_val c < 10"
  unfolding digit_val_def is_digit_def by linarith

lemma digits_val_Nil [simp]: "digits_val [] = 0"
  by (simp add: digits_val_def)

lemma digits_val_snoc [simp]: "digits_val (s @ [c]) = 10 * digits_val s + digit_val c"
  by (simp add: digits_val_def)

lemma digits_val_append: "digits_val (s @ t) = digits_val s * 10 ^ length t + digits_val t"
proof (induction t rule: rev_induct)
  case (snoc c t)
  show ?case
    unfolding append_assoc [symmetric] digits_val_snoc snoc by (simp add: algebra_simps)
qed simp

lemma digits_val_dec_nat [simp]: "digits_val (dec_nat n) = n"
proof (induction n rule: dec_nat.induct)
  case (1 n)
  then show ?case
    by (subst dec_nat.simps) (auto simp: digits_val_def)
qed

lemma dec_nat_digits: "c \<in> set (dec_nat n) \<Longrightarrow> is_digit c"
proof (induction n rule: dec_nat.induct)
  case (1 n)
  then show ?case
    by (subst (asm) dec_nat.simps) (auto split: if_splits)
qed

lemma dec_nat_nonempty [simp]: "dec_nat n \<noteq> []"
  by (subst dec_nat.simps) simp

lemma digits_val_less: "\<forall>c \<in> set s. is_digit c \<Longrightarrow> digits_val s < 10 ^ length s"
proof (induction s rule: rev_induct)
  case (snoc c s)
  then have "digits_val s + 1 \<le> 10 ^ length s" "digit_val c < 10" by auto
  then show ?case by simp
qed simp

subsection \<open>Results\<close>

text \<open>
  \<open>Inl\<close> is a thrown error, \<open>Inr\<close> a returned value; \<open>rthen\<close> runs the rest of a
  function on the value and lets an error pass.
\<close>

definition rthen :: "'e + 'a \<Rightarrow> ('a \<Rightarrow> 'e + 'b) \<Rightarrow> 'e + 'b" where
  "rthen r f = (case r of Inl e \<Rightarrow> Inl e | Inr x \<Rightarrow> f x)"

lemma rthen_Inl [simp]: "rthen (Inl e) f = Inl e"
  by (simp add: rthen_def)

lemma rthen_Inr [simp]: "rthen (Inr x) f = f x"
  by (simp add: rthen_def)

lemma rthen_eq_Inr: "rthen r f = Inr y \<longleftrightarrow> (\<exists>x. r = Inr x \<and> f x = Inr y)"
  by (cases r) auto

end
