(* ===== verification/Errors.thy ===== *)
theory Errors
  imports Prelude
begin

text \<open>
  The driver's error values: the classes of \<open>api/errors.ts\<close> (and the parameter
  error of \<open>api/named-params.ts\<close>) and the entries of a decoded status vector they
  carry. \<open>Inl\<close> of a result is one of these, or an error that Node.js itself raises.
\<close>

datatype status_arg =
    ArgGds int
  | ArgString string
  | ArgNumber int
  | ArgInterpreted string
  | ArgSqlState string

datatype error_class =
    FirebirdError
  | FirebirdConnectionError
  | FirebirdAuthError
  | FirebirdProtocolError
  | FirebirdBlobError
  | FirebirdParamError
  | FirebirdBatchError

text \<open>
  \<open>FbError cls message gdsCode sqlState statusVector\<close> is an instance of one of the
  driver's classes; \<open>JsError\<close> a plain \<open>Error\<close>; \<open>RangeErr\<close> the out-of-range error of
  a Buffer read or write; \<open>TypeErr\<close> the use of \<open>null\<close> or \<open>undefined\<close>;
  \<open>ClosedErr\<close> a read past the last byte a peer sends before it closes.
\<close>

datatype err =
    FbError error_class string "int option" "string option" "status_arg list"
  | JsError string
  | RangeErr
  | TypeErr
  | ClosedErr

type_synonym 'a res = "err + 'a"

abbreviation fb_error :: "string \<Rightarrow> err" where
  "fb_error msg \<equiv> FbError FirebirdError msg None None []"

abbreviation protocol_error :: "string \<Rightarrow> err" where
  "protocol_error msg \<equiv> FbError FirebirdProtocolError msg None None []"

text \<open>The UTF-8 bytes of a dash that some messages have.\<close>

definition em_dash :: string where
  "em_dash = [CHR 0xE2, CHR 0x80, CHR 0x94]"

text \<open>\<open>xs.join(sep)\<close>, and \<open>map\<close> with a function that may throw.\<close>

fun join :: "string \<Rightarrow> string list \<Rightarrow> string" where
  "join sep [] = []"
| "join sep [x] = x"
| "join sep (x # y # xs) = x @ sep @ join sep (y # xs)"

fun res_map :: "('a \<Rightarrow> 'b res) \<Rightarrow> 'a list \<Rightarrow> 'b list res" where
  "res_map f [] = Inr []"
| "res_map f (x # xs) = rthen (f x) (\<lambda>y. rthen (res_map f xs) (\<lambda>ys. Inr (y # ys)))"

lemma res_map_eq: "res_map f xs = Inr ys \<Longrightarrow> ys = map (projr \<circ> f) xs"
  by (induction xs arbitrary: ys) (auto simp: rthen_eq_Inr)

end
