(* ===== verification/Param_Buffer.thy ===== *)
theory Param_Buffer
  imports Errors
begin

text \<open>
  \<open>protocol/buffers.ts\<close> and the database parameter buffer of
  \<open>protocol/attach.ts\<close>: the builder of tagged parameter buffers and the reading of
  such a buffer as the server does it (a version byte, then clumplets
  \<open>tag len data\<close>).
\<close>

subsection \<open>The builder\<close>

text \<open>\<open>parts\<close> is an array of numbers; \<open>Buffer.from\<close> keeps the low byte of each.\<close>

type_synonym param_buffer = "int list"

definition pb_new :: "int option \<Rightarrow> param_buffer" where
  "pb_new version = (case version of None \<Rightarrow> [] | Some v \<Rightarrow> [v])"

definition pb_tag :: "int \<Rightarrow> param_buffer \<Rightarrow> param_buffer" where
  "pb_tag tag pb = pb @ [tag]"

definition too_long :: "nat \<Rightarrow> err" where
  "too_long n = JsError (''Parameter buffer item too long: '' @ dec_nat n)"

definition pb_bytes :: "int \<Rightarrow> bytes \<Rightarrow> param_buffer \<Rightarrow> param_buffer res" where
  "pb_bytes tag data pb =
     (if 255 < length data then Inl (too_long (length data))
      else Inr (pb @ [tag, int (length data)] @ map uint data))"

definition pb_string :: "int \<Rightarrow> string \<Rightarrow> param_buffer \<Rightarrow> param_buffer res" where
  "pb_string tag s pb = pb_bytes tag (str_bytes s) pb"

definition pb_string2 :: "int \<Rightarrow> string \<Rightarrow> param_buffer \<Rightarrow> param_buffer res" where
  "pb_string2 tag s pb =
     (let data = str_bytes s in
      if 65535 < length data then Inl (too_long (length data))
      else Inr (pb @ [tag, int (length data) mod 256, int (length data) div 256 mod 256] @ map uint data))"

definition pb_byte :: "int \<Rightarrow> int \<Rightarrow> param_buffer \<Rightarrow> param_buffer" where
  "pb_byte tag v pb = pb @ [tag, 1, v mod 256]"

text \<open>\<open>value & 0xff, (value >> 8) & 0xff, \<dots>\<close> on the 32-bit value.\<close>

definition le_parts :: "int \<Rightarrow> int list" where
  "le_parts v = [v mod 256, v div 256 mod 256, v div 65536 mod 256, v div 16777216 mod 256]"

definition pb_int32 :: "int \<Rightarrow> int \<Rightarrow> param_buffer \<Rightarrow> param_buffer" where
  "pb_int32 tag v pb = pb @ [tag, 4] @ le_parts (to_int32 v)"

definition pb_raw_int32 :: "int \<Rightarrow> int \<Rightarrow> param_buffer \<Rightarrow> param_buffer" where
  "pb_raw_int32 tag v pb = pb @ [tag] @ le_parts (to_int32 v)"

definition pb_length :: "param_buffer \<Rightarrow> nat" where
  "pb_length pb = length pb"

definition pb_to_buffer :: "param_buffer \<Rightarrow> bytes" where
  "pb_to_buffer pb = map word_of_int pb"

lemma pb_to_buffer_append [simp]: "pb_to_buffer (a @ b) = pb_to_buffer a @ pb_to_buffer b"
  by (simp add: pb_to_buffer_def)

lemma pb_to_buffer_uint [simp]: "pb_to_buffer (map uint d) = d"
  by (simp add: pb_to_buffer_def comp_def map_idI)

lemma pb_to_buffer_Nil [simp]: "pb_to_buffer [] = []"
  by (simp add: pb_to_buffer_def)

lemma pb_to_buffer_Cons [simp]: "pb_to_buffer (x # xs) = word_of_int x # pb_to_buffer xs"
  by (simp add: pb_to_buffer_def)

lemma word_of_int_mod_256 [simp]: "(word_of_int (v mod 256) :: byte) = word_of_int v"
  by (simp only: word_uint_eq_iff uint_byte_of_int) (simp add: mod_simps)

lemma pb_to_buffer_le_parts [simp]: "pb_to_buffer (le_parts v) = le_bytes 4 v"
  by (simp add: le_parts_def numeral_eq_Suc zdiv_zmult2_eq [symmetric])

lemma le_bytes_to_int32 [simp]: "le_bytes 4 (to_int32 v) = le_bytes 4 v"
proof -
  have "le_val (le_bytes 4 (to_int32 v)) = le_val (le_bytes 4 v)"
    using to_uint32_int32 [of v] by (simp add: endian to_uint32_def)
  then show ?thesis
    by (metis le_bytes_le_val length_le_bytes)
qed

subsection \<open>Reading clumplets\<close>

text \<open>
  \<open>tag len data\<close> repeated to the end; \<open>None\<close> if the buffer ends inside a clumplet.
\<close>

fun parse_clumplets :: "bytes \<Rightarrow> (byte \<times> bytes) list option" where
  "parse_clumplets [] = Some []"
| "parse_clumplets [_] = None"
| "parse_clumplets (t # n # bs) =
     (if length bs < unat n then None
      else map_option ((#) (t, take (unat n) bs)) (parse_clumplets (drop (unat n) bs)))"

definition enc_clumplet :: "byte \<times> bytes \<Rightarrow> bytes" where
  "enc_clumplet c = fst c # word_of_nat (length (snd c)) # snd c"

lemma parse_clumplets_enc:
  assumes "list_all (\<lambda>c. length (snd c) \<le> 255) cs"
  shows "parse_clumplets (concat (map enc_clumplet cs)) = Some cs"
  using assms
proof (induction cs)
  case (Cons c cs)
  then show ?case
    by (simp add: enc_clumplet_def unat_of_nat)
qed simp

lemma pb_bytes_clumplet:
  "pb_bytes tag d pb = Inr pb' \<longleftrightarrow>
     length d \<le> 255 \<and> pb' = pb @ [tag, int (length d)] @ map uint d"
  by (auto simp: pb_bytes_def)

lemma enc_clumplet_parts:
  "pb_to_buffer ([tag, int (length d)] @ map uint d) = enc_clumplet (word_of_int tag, d)"
  by (simp add: enc_clumplet_def)

subsection \<open>The database parameter buffer\<close>

text \<open>The connection options \<open>buildDpb\<close> reads; \<open>None\<close> is \<open>undefined\<close>.\<close>

record dpb_options =
  o_charset :: string
  o_user :: string
  o_role :: "string option"
  o_search_path :: "string option"
  o_page_size :: int
  o_owner :: "string option"

text \<open>A string that an \<open>if\<close> takes as true.\<close>

definition truthy :: "string option \<Rightarrow> bool" where
  "truthy s = (s \<noteq> None \<and> s \<noteq> Some [])"

definition pb_string_if :: "int \<Rightarrow> string option \<Rightarrow> param_buffer \<Rightarrow> param_buffer res" where
  "pb_string_if tag s pb = (if truthy s then pb_string tag (the s) pb else Inr pb)"

text \<open>\<open>s.slice(-250)\<close>.\<close>

definition last_chars :: "nat \<Rightarrow> string \<Rightarrow> string" where
  "last_chars n s = drop (length s - n) s"

text \<open>
  \<open>pid\<close> and \<open>title\<close> are \<open>process.pid\<close> and \<open>process.title || 'node'\<close>.
\<close>

definition dpb_parts ::
  "int \<Rightarrow> string \<Rightarrow> dpb_options \<Rightarrow> string option \<Rightarrow> bool \<Rightarrow> param_buffer res" where
  "dpb_parts pid title opts auth_data for_create =
     rthen (pb_string 48 (o_charset opts) (pb_new (Some 1))) (\<lambda>pb.
     rthen (pb_bytes 77 [] pb) (\<lambda>pb.
     rthen (pb_string 28 (o_user opts) pb) (\<lambda>pb.
     rthen (pb_string_if 84 auth_data pb) (\<lambda>pb.
     rthen (pb_string_if 60 (o_role opts) pb) (\<lambda>pb.
     rthen (pb_string_if 105 (o_search_path opts) pb) (\<lambda>pb.
     rthen (pb_string 74 (last_chars 250 title) (pb_int32 71 pid pb)) (\<lambda>pb.
     if for_create
     then rthen (pb_string 68 (if o_charset opts = ''NONE'' then ''NONE'' else o_charset opts)
                  (pb_byte 54 0 (pb_byte 24 1 (pb_byte 63 3 (pb_int32 4 (o_page_size opts) pb)))))
            (pb_string_if 102 (o_owner opts))
     else Inr pb)))))))"

definition build_dpb ::
  "int \<Rightarrow> string \<Rightarrow> dpb_options \<Rightarrow> string option \<Rightarrow> bool \<Rightarrow> bytes res" where
  "build_dpb pid title opts auth_data for_create =
     rthen (dpb_parts pid title opts auth_data for_create) (\<lambda>pb. Inr (pb_to_buffer pb))"

text \<open>The items the buffer is meant to carry, in order.\<close>

definition opt_item :: "byte \<Rightarrow> string option \<Rightarrow> (byte \<times> bytes) list" where
  "opt_item tag s = (if truthy s then [(tag, str_bytes (the s))] else [])"

definition dpb_items :: "int \<Rightarrow> string \<Rightarrow> dpb_options \<Rightarrow> string option \<Rightarrow> bool \<Rightarrow> (byte \<times> bytes) list" where
  "dpb_items pid title opts auth_data for_create =
     [(48, str_bytes (o_charset opts))] @ [(77, [])] @ [(28, str_bytes (o_user opts))]
     @ opt_item 84 auth_data @ opt_item 60 (o_role opts) @ opt_item 105 (o_search_path opts)
     @ [(71, le_bytes 4 pid), (74, str_bytes (last_chars 250 title))]
     @ (if for_create
        then [(4, le_bytes 4 (o_page_size opts)), (63, [3]), (24, [1]), (54, [0]),
              (68, str_bytes (o_charset opts))] @ opt_item 102 (o_owner opts)
        else [])"

text \<open>
  \<open>pb_carries pb cs\<close>: the parts built so far, version byte included, are the
  encodings of \<open>cs\<close>, each within the one-byte length.
\<close>

definition pb_carries :: "param_buffer \<Rightarrow> (byte \<times> bytes) list \<Rightarrow> bool" where
  "pb_carries pb cs = (pb_to_buffer pb = 1 # concat (map enc_clumplet cs)
     \<and> list_all (\<lambda>c. length (snd c) \<le> 255) cs)"

lemma pb_carries_string:
  "pb_carries pb cs \<Longrightarrow> pb_string tag s pb = Inr pb' \<Longrightarrow> pb_carries pb' (cs @ [(word_of_int tag, str_bytes s)])"
  by (auto simp: pb_carries_def pb_string_def pb_bytes_def enc_clumplet_def split: if_splits)

lemma pb_carries_string_if:
  "pb_carries pb cs \<Longrightarrow> pb_string_if tag s pb = Inr pb' \<Longrightarrow> pb_carries pb' (cs @ opt_item (word_of_int tag) s)"
  using pb_carries_string [of pb cs tag "the s" pb']
  by (auto simp: pb_string_if_def opt_item_def split: if_splits)

lemma pb_carries_int32:
  "pb_carries pb cs \<Longrightarrow> pb_carries (pb_int32 tag v pb) (cs @ [(word_of_int tag, le_bytes 4 v)])"
  by (simp add: pb_carries_def pb_int32_def enc_clumplet_def)

lemma pb_carries_byte:
  "pb_carries pb cs \<Longrightarrow> pb_carries (pb_byte tag v pb) (cs @ [(word_of_int tag, [word_of_int v])])"
  by (simp add: pb_carries_def pb_byte_def enc_clumplet_def)

text \<open>A text item either fits and is carried, or is reported with its length.\<close>

lemma pb_string_total:
  "length s \<le> 255 \<Longrightarrow> \<exists>pb'. pb_string tag s pb = Inr pb'"
  "255 < length s \<Longrightarrow> pb_string tag s pb = Inl (too_long (length s))"
  by (simp_all add: pb_string_def pb_bytes_def)

definition items_fit :: "(byte \<times> bytes) list \<Rightarrow> bool" where
  "items_fit cs = list_all (\<lambda>c. length (snd c) \<le> 255) cs"

text \<open>
  One building step: it either carries the items on, all fitting, or fails on an item
  that does not fit.
\<close>

definition pb_step :: "param_buffer res \<Rightarrow> (byte \<times> bytes) list \<Rightarrow> bool" where
  "pb_step r cs = (case r of
       Inr pb \<Rightarrow> pb_carries pb cs
     | Inl e \<Rightarrow> \<exists>n > 255. e = too_long n \<and> n \<in> (length \<circ> snd) ` set cs)"

lemma pb_step_string:
  assumes "pb_carries pb cs"
  shows "pb_step (pb_string tag s pb) (cs @ [(word_of_int tag, str_bytes s)])"
proof (cases "length s \<le> 255")
  case True
  then obtain pb' where "pb_string tag s pb = Inr pb'"
    using pb_string_total(1) by blast
  with pb_carries_string [OF assms] show ?thesis
    by (simp add: pb_step_def)
next
  case False
  then have r: "pb_string tag s pb = Inl (too_long (length s))"
    by (simp add: pb_string_total(2))
  have "length s \<in> (length \<circ> snd) ` set (cs @ [(word_of_int tag, str_bytes s)])"
    by (intro image_eqI [of _ _ "(word_of_int tag, str_bytes s)"]) simp_all
  then have "\<exists>n > 255. too_long (length s) = too_long n
      \<and> n \<in> (length \<circ> snd) ` set (cs @ [(word_of_int tag, str_bytes s)])"
    using False by (intro exI [of _ "length s"] conjI) (linarith, rule refl, assumption)
  then show ?thesis
    by (simp add: pb_step_def r)
qed

lemma pb_step_Inr: "pb_carries pb cs \<Longrightarrow> pb_step (Inr pb) (cs @ [])"
  by (simp add: pb_step_def)

lemma pb_step_string_if:
  "pb_carries pb cs \<Longrightarrow> pb_step (pb_string_if tag s pb) (cs @ opt_item (word_of_int tag) s)"
  using pb_step_string [of pb cs tag "the s"] pb_step_Inr [of pb cs]
  by (auto simp: pb_string_if_def opt_item_def)

lemma pb_step_bytes0: "pb_carries pb cs \<Longrightarrow> pb_step (pb_bytes tag [] pb) (cs @ [(word_of_int tag, [])])"
  by (auto simp: pb_step_def pb_bytes_def pb_carries_def enc_clumplet_def)

lemma pb_step_then:
  assumes "pb_step r (cs @ ds)"
    and "\<And>pb. pb_carries pb (cs @ ds) \<Longrightarrow> pb_step (f pb) ((cs @ ds) @ es)"
  shows "pb_step (rthen r f) (cs @ (ds @ es))"
proof (cases r)
  case (Inl e)
  then obtain n where "n > 255" "e = too_long n" "n \<in> (length \<circ> snd) ` set (cs @ ds)"
    using assms(1) by (auto simp: pb_step_def)
  with Inl show ?thesis by (auto simp: pb_step_def)
next
  case (Inr pb)
  with assms show ?thesis by (simp add: pb_step_def)
qed

lemma pb_step_create:
  assumes "pb_carries pb cs"
  shows "pb_step
    (if for_create
     then rthen (pb_string 68 (if o_charset opts = ''NONE'' then ''NONE'' else o_charset opts)
                  (pb_byte 54 0 (pb_byte 24 1 (pb_byte 63 3 (pb_int32 4 (o_page_size opts) pb)))))
            (pb_string_if 102 (o_owner opts))
     else Inr pb)
    (cs @ (if for_create
        then [(4, le_bytes 4 (o_page_size opts)), (63, [3]), (24, [1]), (54, [0]),
              (68, str_bytes (o_charset opts))] @ opt_item 102 (o_owner opts)
        else []))"
proof (cases for_create)
  case True
  let ?cs = "cs @ [(4, le_bytes 4 (o_page_size opts)), (63, [3]), (24, [1]), (54, [0])]"
  have "pb_carries (pb_byte 54 0 (pb_byte 24 1 (pb_byte 63 3 (pb_int32 4 (o_page_size opts) pb)))) ?cs"
    using pb_carries_byte [OF pb_carries_byte [OF pb_carries_byte [OF pb_carries_int32 [OF assms]]],
        of 54 0 24 1 63 3 4 "o_page_size opts"] by simp
  from pb_step_then [OF pb_step_string [OF this, of 68 "o_charset opts"]
      pb_step_string_if [where tag = 102 and s = "o_owner opts"]]
  have "pb_step (rthen (pb_string 68 (o_charset opts)
        (pb_byte 54 0 (pb_byte 24 1 (pb_byte 63 3 (pb_int32 4 (o_page_size opts) pb)))))
      (pb_string_if 102 (o_owner opts)))
      (?cs @ ([(68, str_bytes (o_charset opts))] @ opt_item 102 (o_owner opts)))"
    by simp
  with True show ?thesis by (cases "o_charset opts = ''NONE''") simp_all
next
  case False
  with pb_step_Inr [OF assms] show ?thesis by simp
qed

lemma pb_carries_new: "pb_carries (pb_new (Some 1)) []"
  by (simp add: pb_new_def pb_carries_def)

lemma pb_step_proc:
  "pb_carries pb cs \<Longrightarrow> pb_step (pb_string 74 s (pb_int32 71 pid pb))
     (cs @ [(71, le_bytes 4 pid), (74, str_bytes s)])"
  using pb_step_string [OF pb_carries_int32, of pb cs 74 s 71 pid] by simp

lemma dpb_parts_step:
  "pb_step (dpb_parts pid title opts auth_data for_create)
     ([] @ dpb_items pid title opts auth_data for_create)"
  unfolding dpb_parts_def dpb_items_def
  by (intro pb_step_then pb_step_create pb_step_proc pb_step_string [of _ _ 48, simplified]
      pb_step_bytes0 [of _ _ 77, simplified] pb_step_string [of _ _ 28, simplified]
      pb_step_string_if [of _ _ 84, simplified] pb_step_string_if [of _ _ 60, simplified]
      pb_step_string_if [of _ _ 105, simplified] pb_carries_new)

text \<open>
  The database parameter buffer: when every item fits the one-byte length, the
  buffer is the version byte and clumplets that a server reads back as exactly the
  items of the options, in order and with optional items left out when unset; when some
  item does not fit, building fails with its length and nothing is sent.
\<close>

theorem build_dpb_read_back:
  "case build_dpb pid title opts auth_data for_create of
     Inr buf \<Rightarrow> (\<exists>rest. buf = 1 # rest \<and> items_fit (dpb_items pid title opts auth_data for_create)
        \<and> parse_clumplets rest = Some (dpb_items pid title opts auth_data for_create))
   | Inl e \<Rightarrow> \<not> items_fit (dpb_items pid title opts auth_data for_create)
        \<and> (\<exists>n > 255. e = too_long n)"
proof (cases "dpb_parts pid title opts auth_data for_create")
  case (Inl e)
  with dpb_parts_step [of pid title opts auth_data for_create]
  obtain n where n: "n > 255" "e = too_long n"
      "n \<in> (length \<circ> snd) ` set (dpb_items pid title opts auth_data for_create)"
    by (auto simp: pb_step_def)
  then have "\<not> items_fit (dpb_items pid title opts auth_data for_create)"
    by (force simp: items_fit_def list_all_iff)
  with n Inl show ?thesis by (auto simp: build_dpb_def)
next
  case (Inr pb)
  with dpb_parts_step [of pid title opts auth_data for_create] show ?thesis
    by (auto simp: build_dpb_def pb_step_def pb_carries_def items_fit_def parse_clumplets_enc)
qed

end
