(* ===== verification/Constants.thy ===== *)
theory Constants
  imports Main
begin

text \<open>
  \<open>protocol/constants.ts\<close>: the operation codes, parameter-buffer tags, info items,
  statement and column types, BLR and status-vector codes of the wire protocol. Each
  enumeration is a datatype with its code function, a simplification rule per member.
\<close>

subsection \<open>Operation codes\<close>

definition op_void :: int where [simp]: "op_void = 0"
definition op_connect :: int where [simp]: "op_connect = 1"
definition op_exit :: int where [simp]: "op_exit = 2"
definition op_accept :: int where [simp]: "op_accept = 3"
definition op_reject :: int where [simp]: "op_reject = 4"
definition op_disconnect :: int where [simp]: "op_disconnect = 6"
definition op_response :: int where [simp]: "op_response = 9"
definition op_attach :: int where [simp]: "op_attach = 19"
definition op_create :: int where [simp]: "op_create = 20"
definition op_detach :: int where [simp]: "op_detach = 21"
definition op_transaction :: int where [simp]: "op_transaction = 29"
definition op_commit :: int where [simp]: "op_commit = 30"
definition op_rollback :: int where [simp]: "op_rollback = 31"
definition op_create_blob :: int where [simp]: "op_create_blob = 34"
definition op_open_blob :: int where [simp]: "op_open_blob = 35"
definition op_get_segment :: int where [simp]: "op_get_segment = 36"
definition op_put_segment :: int where [simp]: "op_put_segment = 37"
definition op_cancel_blob :: int where [simp]: "op_cancel_blob = 38"
definition op_close_blob :: int where [simp]: "op_close_blob = 39"
definition op_info_database :: int where [simp]: "op_info_database = 40"
definition op_info_transaction :: int where [simp]: "op_info_transaction = 42"
definition op_info_blob :: int where [simp]: "op_info_blob = 43"
definition op_batch_segments :: int where [simp]: "op_batch_segments = 44"
definition op_que_events :: int where [simp]: "op_que_events = 48"
definition op_cancel_events :: int where [simp]: "op_cancel_events = 49"
definition op_commit_retaining :: int where [simp]: "op_commit_retaining = 50"
definition op_event :: int where [simp]: "op_event = 52"
definition op_connect_request :: int where [simp]: "op_connect_request = 53"
definition op_open_blob2 :: int where [simp]: "op_open_blob2 = 56"
definition op_create_blob2 :: int where [simp]: "op_create_blob2 = 57"
definition op_allocate_statement :: int where [simp]: "op_allocate_statement = 62"
definition op_execute :: int where [simp]: "op_execute = 63"
definition op_exec_immediate :: int where [simp]: "op_exec_immediate = 64"
definition op_fetch :: int where [simp]: "op_fetch = 65"
definition op_fetch_response :: int where [simp]: "op_fetch_response = 66"
definition op_free_statement :: int where [simp]: "op_free_statement = 67"
definition op_prepare_statement :: int where [simp]: "op_prepare_statement = 68"
definition op_set_cursor :: int where [simp]: "op_set_cursor = 69"
definition op_info_sql :: int where [simp]: "op_info_sql = 70"
definition op_dummy :: int where [simp]: "op_dummy = 71"
definition op_response_piggyback :: int where [simp]: "op_response_piggyback = 72"
definition op_execute2 :: int where [simp]: "op_execute2 = 76"
definition op_sql_response :: int where [simp]: "op_sql_response = 78"
definition op_drop_database :: int where [simp]: "op_drop_database = 81"
definition op_service_attach :: int where [simp]: "op_service_attach = 82"
definition op_service_detach :: int where [simp]: "op_service_detach = 83"
definition op_service_info :: int where [simp]: "op_service_info = 84"
definition op_service_start :: int where [simp]: "op_service_start = 85"
definition op_rollback_retaining :: int where [simp]: "op_rollback_retaining = 86"
definition op_partial :: int where [simp]: "op_partial = 89"
definition op_trusted_auth :: int where [simp]: "op_trusted_auth = 90"
definition op_cancel :: int where [simp]: "op_cancel = 91"
definition op_cont_auth :: int where [simp]: "op_cont_auth = 92"
definition op_ping :: int where [simp]: "op_ping = 93"
definition op_accept_data :: int where [simp]: "op_accept_data = 94"
definition op_abort_aux_connection :: int where [simp]: "op_abort_aux_connection = 95"
definition op_crypt :: int where [simp]: "op_crypt = 96"
definition op_crypt_key_callback :: int where [simp]: "op_crypt_key_callback = 97"
definition op_cond_accept :: int where [simp]: "op_cond_accept = 98"
definition op_batch_create :: int where [simp]: "op_batch_create = 99"
definition op_batch_msg :: int where [simp]: "op_batch_msg = 100"
definition op_batch_exec :: int where [simp]: "op_batch_exec = 101"
definition op_batch_rls :: int where [simp]: "op_batch_rls = 102"
definition op_batch_cs :: int where [simp]: "op_batch_cs = 103"
definition op_batch_regblob :: int where [simp]: "op_batch_regblob = 104"
definition op_batch_blob_stream :: int where [simp]: "op_batch_blob_stream = 105"
definition op_batch_set_bpb :: int where [simp]: "op_batch_set_bpb = 106"
definition op_batch_cancel :: int where [simp]: "op_batch_cancel = 109"
definition op_batch_sync :: int where [simp]: "op_batch_sync = 110"
definition op_fetch_scroll :: int where [simp]: "op_fetch_scroll = 112"
definition op_info_cursor :: int where [simp]: "op_info_cursor = 113"
definition op_inline_blob :: int where [simp]: "op_inline_blob = 114"

subsection \<open>Enumerations\<close>

datatype free_statement =
    Free_DSQL_close
  | Free_DSQL_drop
  | Free_DSQL_unprepare

fun free_statement_code :: "free_statement \<Rightarrow> int" where
  "free_statement_code Free_DSQL_close = 1"
| "free_statement_code Free_DSQL_drop = 2"
| "free_statement_code Free_DSQL_unprepare = 4"

datatype dpb =
    Dpb_version1
  | Dpb_page_size
  | Dpb_force_write
  | Dpb_user_name
  | Dpb_password
  | Dpb_password_enc
  | Dpb_lc_ctype
  | Dpb_overwrite
  | Dpb_connect_timeout
  | Dpb_sql_role_name
  | Dpb_sql_dialect
  | Dpb_set_db_charset
  | Dpb_process_id
  | Dpb_process_name
  | Dpb_utf8_filename
  | Dpb_client_version
  | Dpb_specific_auth_data
  | Dpb_auth_plugin_list
  | Dpb_auth_plugin_name
  | Dpb_session_time_zone
  | Dpb_owner
  | Dpb_search_path

fun dpb_code :: "dpb \<Rightarrow> int" where
  "dpb_code Dpb_version1 = 1"
| "dpb_code Dpb_page_size = 4"
| "dpb_code Dpb_force_write = 24"
| "dpb_code Dpb_user_name = 28"
| "dpb_code Dpb_password = 29"
| "dpb_code Dpb_password_enc = 30"
| "dpb_code Dpb_lc_ctype = 48"
| "dpb_code Dpb_overwrite = 54"
| "dpb_code Dpb_connect_timeout = 57"
| "dpb_code Dpb_sql_role_name = 60"
| "dpb_code Dpb_sql_dialect = 63"
| "dpb_code Dpb_set_db_charset = 68"
| "dpb_code Dpb_process_id = 71"
| "dpb_code Dpb_process_name = 74"
| "dpb_code Dpb_utf8_filename = 77"
| "dpb_code Dpb_client_version = 80"
| "dpb_code Dpb_specific_auth_data = 84"
| "dpb_code Dpb_auth_plugin_list = 85"
| "dpb_code Dpb_auth_plugin_name = 86"
| "dpb_code Dpb_session_time_zone = 91"
| "dpb_code Dpb_owner = 102"
| "dpb_code Dpb_search_path = 105"

datatype tpb =
    Tpb_version3
  | Tpb_consistency
  | Tpb_concurrency
  | Tpb_wait
  | Tpb_nowait
  | Tpb_read
  | Tpb_write
  | Tpb_ignore_limbo
  | Tpb_read_committed
  | Tpb_autocommit
  | Tpb_rec_version
  | Tpb_no_rec_version
  | Tpb_no_auto_undo
  | Tpb_lock_timeout

fun tpb_code :: "tpb \<Rightarrow> int" where
  "tpb_code Tpb_version3 = 3"
| "tpb_code Tpb_consistency = 1"
| "tpb_code Tpb_concurrency = 2"
| "tpb_code Tpb_wait = 6"
| "tpb_code Tpb_nowait = 7"
| "tpb_code Tpb_read = 8"
| "tpb_code Tpb_write = 9"
| "tpb_code Tpb_ignore_limbo = 14"
| "tpb_code Tpb_read_committed = 15"
| "tpb_code Tpb_autocommit = 16"
| "tpb_code Tpb_rec_version = 17"
| "tpb_code Tpb_no_rec_version = 18"
| "tpb_code Tpb_no_auto_undo = 20"
| "tpb_code Tpb_lock_timeout = 21"

datatype sql_info =
    Info_end
  | Info_truncated
  | Info_error
  | Info_select
  | Info_bind
  | Info_num_variables
  | Info_describe_vars
  | Info_describe_end
  | Info_sqlda_seq
  | Info_message_seq
  | Info_type
  | Info_sub_type
  | Info_scale
  | Info_length
  | Info_null_ind
  | Info_field
  | Info_relation
  | Info_owner
  | Info_alias
  | Info_sqlda_start
  | Info_stmt_type
  | Info_get_plan
  | Info_records
  | Info_batch_fetch
  | Info_relation_alias

fun sql_info_code :: "sql_info \<Rightarrow> int" where
  "sql_info_code Info_end = 1"
| "sql_info_code Info_truncated = 2"
| "sql_info_code Info_error = 3"
| "sql_info_code Info_select = 4"
| "sql_info_code Info_bind = 5"
| "sql_info_code Info_num_variables = 6"
| "sql_info_code Info_describe_vars = 7"
| "sql_info_code Info_describe_end = 8"
| "sql_info_code Info_sqlda_seq = 9"
| "sql_info_code Info_message_seq = 10"
| "sql_info_code Info_type = 11"
| "sql_info_code Info_sub_type = 12"
| "sql_info_code Info_scale = 13"
| "sql_info_code Info_length = 14"
| "sql_info_code Info_null_ind = 15"
| "sql_info_code Info_field = 16"
| "sql_info_code Info_relation = 17"
| "sql_info_code Info_owner = 18"
| "sql_info_code Info_alias = 19"
| "sql_info_code Info_sqlda_start = 20"
| "sql_info_code Info_stmt_type = 21"
| "sql_info_code Info_get_plan = 22"
| "sql_info_code Info_records = 23"
| "sql_info_code Info_batch_fetch = 24"
| "sql_info_code Info_relation_alias = 25"

datatype stmt_type =
    Stmt_select
  | Stmt_insert
  | Stmt_update
  | Stmt_delete
  | Stmt_ddl
  | Stmt_get_segment
  | Stmt_put_segment
  | Stmt_exec_procedure
  | Stmt_start_trans
  | Stmt_commit
  | Stmt_rollback
  | Stmt_select_for_upd
  | Stmt_set_generator
  | Stmt_savepoint

fun stmt_type_code :: "stmt_type \<Rightarrow> int" where
  "stmt_type_code Stmt_select = 1"
| "stmt_type_code Stmt_insert = 2"
| "stmt_type_code Stmt_update = 3"
| "stmt_type_code Stmt_delete = 4"
| "stmt_type_code Stmt_ddl = 5"
| "stmt_type_code Stmt_get_segment = 6"
| "stmt_type_code Stmt_put_segment = 7"
| "stmt_type_code Stmt_exec_procedure = 8"
| "stmt_type_code Stmt_start_trans = 9"
| "stmt_type_code Stmt_commit = 10"
| "stmt_type_code Stmt_rollback = 11"
| "stmt_type_code Stmt_select_for_upd = 12"
| "stmt_type_code Stmt_set_generator = 13"
| "stmt_type_code Stmt_savepoint = 14"

datatype sql_type =
    SQL_TEXT
  | SQL_VARYING
  | SQL_SHORT
  | SQL_LONG
  | SQL_FLOAT
  | SQL_DOUBLE
  | SQL_D_FLOAT
  | SQL_TIMESTAMP
  | SQL_BLOB
  | SQL_ARRAY
  | SQL_QUAD
  | SQL_TYPE_TIME
  | SQL_TYPE_DATE
  | SQL_INT64
  | SQL_INT128
  | SQL_TIMESTAMP_TZ_EX
  | SQL_TIME_TZ_EX
  | SQL_TIMESTAMP_TZ
  | SQL_TIME_TZ
  | SQL_DEC16
  | SQL_DEC34
  | SQL_BOOLEAN
  | SQL_NULL

fun sql_type_code :: "sql_type \<Rightarrow> int" where
  "sql_type_code SQL_TEXT = 452"
| "sql_type_code SQL_VARYING = 448"
| "sql_type_code SQL_SHORT = 500"
| "sql_type_code SQL_LONG = 496"
| "sql_type_code SQL_FLOAT = 482"
| "sql_type_code SQL_DOUBLE = 480"
| "sql_type_code SQL_D_FLOAT = 530"
| "sql_type_code SQL_TIMESTAMP = 510"
| "sql_type_code SQL_BLOB = 520"
| "sql_type_code SQL_ARRAY = 540"
| "sql_type_code SQL_QUAD = 550"
| "sql_type_code SQL_TYPE_TIME = 560"
| "sql_type_code SQL_TYPE_DATE = 570"
| "sql_type_code SQL_INT64 = 580"
| "sql_type_code SQL_INT128 = 32752"
| "sql_type_code SQL_TIMESTAMP_TZ_EX = 32748"
| "sql_type_code SQL_TIME_TZ_EX = 32750"
| "sql_type_code SQL_TIMESTAMP_TZ = 32754"
| "sql_type_code SQL_TIME_TZ = 32756"
| "sql_type_code SQL_DEC16 = 32760"
| "sql_type_code SQL_DEC34 = 32762"
| "sql_type_code SQL_BOOLEAN = 32764"
| "sql_type_code SQL_NULL = 32766"

datatype blr =
    Blr_version5
  | Blr_begin
  | Blr_message
  | Blr_text
  | Blr_varying
  | Blr_short
  | Blr_long
  | Blr_int64
  | Blr_int128
  | Blr_quad
  | Blr_float
  | Blr_double
  | Blr_d_float
  | Blr_sql_date
  | Blr_sql_time
  | Blr_timestamp
  | Blr_blob
  | Blr_blob2
  | Blr_bool
  | Blr_dec64
  | Blr_dec128
  | Blr_sql_time_tz
  | Blr_timestamp_tz
  | Blr_ex_time_tz
  | Blr_ex_timestamp_tz
  | Blr_end
  | Blr_eoc

fun blr_code :: "blr \<Rightarrow> int" where
  "blr_code Blr_version5 = 5"
| "blr_code Blr_begin = 2"
| "blr_code Blr_message = 4"
| "blr_code Blr_text = 14"
| "blr_code Blr_varying = 37"
| "blr_code Blr_short = 7"
| "blr_code Blr_long = 8"
| "blr_code Blr_int64 = 16"
| "blr_code Blr_int128 = 26"
| "blr_code Blr_quad = 9"
| "blr_code Blr_float = 10"
| "blr_code Blr_double = 27"
| "blr_code Blr_d_float = 11"
| "blr_code Blr_sql_date = 12"
| "blr_code Blr_sql_time = 13"
| "blr_code Blr_timestamp = 35"
| "blr_code Blr_blob = 261"
| "blr_code Blr_blob2 = 17"
| "blr_code Blr_bool = 23"
| "blr_code Blr_dec64 = 24"
| "blr_code Blr_dec128 = 25"
| "blr_code Blr_sql_time_tz = 28"
| "blr_code Blr_timestamp_tz = 29"
| "blr_code Blr_ex_time_tz = 30"
| "blr_code Blr_ex_timestamp_tz = 31"
| "blr_code Blr_end = 255"
| "blr_code Blr_eoc = 76"

datatype isc_arg =
    Isc_end
  | Isc_gds
  | Isc_string
  | Isc_cstring
  | Isc_number
  | Isc_interpreted
  | Isc_unix
  | Isc_warning
  | Isc_sql_state

fun isc_arg_code :: "isc_arg \<Rightarrow> int" where
  "isc_arg_code Isc_end = 0"
| "isc_arg_code Isc_gds = 1"
| "isc_arg_code Isc_string = 2"
| "isc_arg_code Isc_cstring = 3"
| "isc_arg_code Isc_number = 4"
| "isc_arg_code Isc_interpreted = 5"
| "isc_arg_code Isc_unix = 7"
| "isc_arg_code Isc_warning = 18"
| "isc_arg_code Isc_sql_state = 19"

datatype spb =
    Spb_current_version
  | Spb_version3
  | Spb_user_name
  | Spb_password
  | Spb_specific_auth_data
  | Spb_auth_plugin_name
  | Spb_auth_plugin_list
  | Spb_utf8_filename
  | Spb_dbname
  | Spb_expected_db
  | Spb_bkp_file
  | Spb_res_page_size
  | Spb_verbose
  | Spb_options
  | Spb_nbk_level
  | Spb_nbk_file
  | Spb_nbk_direct
  | Spb_nbk_guid

fun spb_code :: "spb \<Rightarrow> int" where
  "spb_code Spb_current_version = 2"
| "spb_code Spb_version3 = 3"
| "spb_code Spb_user_name = 28"
| "spb_code Spb_password = 29"
| "spb_code Spb_specific_auth_data = 111"
| "spb_code Spb_auth_plugin_name = 116"
| "spb_code Spb_auth_plugin_list = 117"
| "spb_code Spb_utf8_filename = 118"
| "spb_code Spb_dbname = 106"
| "spb_code Spb_expected_db = 124"
| "spb_code Spb_bkp_file = 5"
| "spb_code Spb_res_page_size = 10"
| "spb_code Spb_verbose = 107"
| "spb_code Spb_options = 108"
| "spb_code Spb_nbk_level = 5"
| "spb_code Spb_nbk_file = 6"
| "spb_code Spb_nbk_direct = 7"
| "spb_code Spb_nbk_guid = 8"

datatype svc_info =
    SvcInfo_svr_db_info
  | SvcInfo_get_config
  | SvcInfo_version
  | SvcInfo_server_version
  | SvcInfo_implementation
  | SvcInfo_capabilities
  | SvcInfo_user_dbpath
  | SvcInfo_get_env
  | SvcInfo_get_env_lock
  | SvcInfo_get_env_msg
  | SvcInfo_line
  | SvcInfo_to_eof
  | SvcInfo_timeout
  | SvcInfo_stdin

fun svc_info_code :: "svc_info \<Rightarrow> int" where
  "svc_info_code SvcInfo_svr_db_info = 50"
| "svc_info_code SvcInfo_get_config = 53"
| "svc_info_code SvcInfo_version = 54"
| "svc_info_code SvcInfo_server_version = 55"
| "svc_info_code SvcInfo_implementation = 56"
| "svc_info_code SvcInfo_capabilities = 57"
| "svc_info_code SvcInfo_user_dbpath = 58"
| "svc_info_code SvcInfo_get_env = 59"
| "svc_info_code SvcInfo_get_env_lock = 60"
| "svc_info_code SvcInfo_get_env_msg = 61"
| "svc_info_code SvcInfo_line = 62"
| "svc_info_code SvcInfo_to_eof = 63"
| "svc_info_code SvcInfo_timeout = 64"
| "svc_info_code SvcInfo_stdin = 78"

datatype svc_action =
    Svc_backup
  | Svc_restore
  | Svc_db_stats
  | Svc_nbackup
  | Svc_nrestore

fun svc_action_code :: "svc_action \<Rightarrow> int" where
  "svc_action_code Svc_backup = 1"
| "svc_action_code Svc_restore = 2"
| "svc_action_code Svc_db_stats = 11"
| "svc_action_code Svc_nbackup = 20"
| "svc_action_code Svc_nrestore = 21"

datatype batch_pb =
    Pb_version1
  | Pb_tag_multierror
  | Pb_tag_record_counts
  | Pb_tag_buffer_bytes_size
  | Pb_tag_blob_policy
  | Pb_tag_detailed_errors

fun batch_pb_code :: "batch_pb \<Rightarrow> int" where
  "batch_pb_code Pb_version1 = 1"
| "batch_pb_code Pb_tag_multierror = 1"
| "batch_pb_code Pb_tag_record_counts = 2"
| "batch_pb_code Pb_tag_buffer_bytes_size = 3"
| "batch_pb_code Pb_tag_blob_policy = 4"
| "batch_pb_code Pb_tag_detailed_errors = 5"

datatype blob_policy =
    Policy_none
  | Policy_id_engine
  | Policy_id_user
  | Policy_stream

fun blob_policy_code :: "blob_policy \<Rightarrow> int" where
  "blob_policy_code Policy_none = 0"
| "blob_policy_code Policy_id_engine = 1"
| "blob_policy_code Policy_id_user = 2"
| "blob_policy_code Policy_stream = 3"

datatype cnct =
    Cnct_user
  | Cnct_passwd
  | Cnct_host
  | Cnct_group
  | Cnct_user_verification
  | Cnct_specific_data
  | Cnct_plugin_name
  | Cnct_login
  | Cnct_plugin_list
  | Cnct_client_crypt

fun cnct_code :: "cnct \<Rightarrow> int" where
  "cnct_code Cnct_user = 1"
| "cnct_code Cnct_passwd = 2"
| "cnct_code Cnct_host = 4"
| "cnct_code Cnct_group = 5"
| "cnct_code Cnct_user_verification = 6"
| "cnct_code Cnct_specific_data = 7"
| "cnct_code Cnct_plugin_name = 8"
| "cnct_code Cnct_login = 9"
| "cnct_code Cnct_plugin_list = 10"
| "cnct_code Cnct_client_crypt = 11"

datatype ptype =
    Ptype_rpc
  | Ptype_batch_send
  | Ptype_out_of_band
  | Ptype_lazy_send
  | Ptype_mask

fun ptype_code :: "ptype \<Rightarrow> int" where
  "ptype_code Ptype_rpc = 2"
| "ptype_code Ptype_batch_send = 3"
| "ptype_code Ptype_out_of_band = 4"
| "ptype_code Ptype_lazy_send = 5"
| "ptype_code Ptype_mask = 255"

datatype wire_crypt_level =
    Crypt_disabled
  | Crypt_enabled
  | Crypt_required

fun wire_crypt_level_code :: "wire_crypt_level \<Rightarrow> int" where
  "wire_crypt_level_code Crypt_disabled = 0"
| "wire_crypt_level_code Crypt_enabled = 1"
| "wire_crypt_level_code Crypt_required = 2"

subsection \<open>Reading a code\<close>

text \<open>
  A \<open>switch\<close> on a code read from the wire distinguishes the members; \<open>None\<close> is the
  default branch.
\<close>

definition all_sql_types :: "sql_type list" where
  "all_sql_types =
     [SQL_TEXT, SQL_VARYING, SQL_SHORT, SQL_LONG, SQL_FLOAT, SQL_DOUBLE, SQL_D_FLOAT,
      SQL_TIMESTAMP, SQL_BLOB, SQL_ARRAY, SQL_QUAD, SQL_TYPE_TIME, SQL_TYPE_DATE,
      SQL_INT64, SQL_INT128, SQL_TIMESTAMP_TZ_EX, SQL_TIME_TZ_EX, SQL_TIMESTAMP_TZ,
      SQL_TIME_TZ, SQL_DEC16, SQL_DEC34, SQL_BOOLEAN, SQL_NULL]"

definition sql_type_of :: "int \<Rightarrow> sql_type option" where
  "sql_type_of c = List.find (\<lambda>s. sql_type_code s = c) all_sql_types"

lemma sql_type_of_code [simp]: "sql_type_of (sql_type_code s) = Some s"
  by (cases s) (simp_all add: sql_type_of_def all_sql_types_def)

lemma sql_type_of_Some: "sql_type_of c = Some s \<Longrightarrow> sql_type_code s = c"
  by (auto simp: sql_type_of_def find_Some_iff)

definition all_sql_infos :: "sql_info list" where
  "all_sql_infos =
     [Info_end, Info_truncated, Info_error, Info_select, Info_bind, Info_num_variables,
      Info_describe_vars, Info_describe_end, Info_sqlda_seq, Info_message_seq,
      Info_type, Info_sub_type, Info_scale, Info_length, Info_null_ind, Info_field,
      Info_relation, Info_owner, Info_alias, Info_sqlda_start, Info_stmt_type,
      Info_get_plan, Info_records, Info_batch_fetch, Info_relation_alias]"

definition sql_info_of :: "int \<Rightarrow> sql_info option" where
  "sql_info_of c = List.find (\<lambda>s. sql_info_code s = c) all_sql_infos"

lemma sql_info_of_code [simp]: "sql_info_of (sql_info_code s) = Some s"
  by (cases s) (simp_all add: sql_info_of_def all_sql_infos_def)

lemma sql_info_of_Some: "sql_info_of c = Some s \<Longrightarrow> sql_info_code s = c"
  by (auto simp: sql_info_of_def find_Some_iff)

definition all_stmt_types :: "stmt_type list" where
  "all_stmt_types =
     [Stmt_select, Stmt_insert, Stmt_update, Stmt_delete, Stmt_ddl, Stmt_get_segment,
      Stmt_put_segment, Stmt_exec_procedure, Stmt_start_trans, Stmt_commit,
      Stmt_rollback, Stmt_select_for_upd, Stmt_set_generator, Stmt_savepoint]"

definition stmt_type_of :: "int \<Rightarrow> stmt_type option" where
  "stmt_type_of c = List.find (\<lambda>s. stmt_type_code s = c) all_stmt_types"

lemma stmt_type_of_code [simp]: "stmt_type_of (stmt_type_code s) = Some s"
  by (cases s) (simp_all add: stmt_type_of_def all_stmt_types_def)

lemma stmt_type_of_Some: "stmt_type_of c = Some s \<Longrightarrow> stmt_type_code s = c"
  by (auto simp: stmt_type_of_def find_Some_iff)

lemma sql_type_code_even: "even (sql_type_code t)"
  by (cases t) simp_all

lemma sql_type_code_range: "0 < sql_type_code t \<and> sql_type_code t < 32768"
  by (cases t) simp_all

subsection \<open>Plain constants\<close>

definition MAX_SEGMENT_SIZE :: int where
  "MAX_SEGMENT_SIZE = 65535"

definition DEFAULT_FETCH_SIZE :: int where
  "DEFAULT_FETCH_SIZE = 400"

definition BLOB_SEGSTR_EOF_HANDLE :: int where
  "BLOB_SEGSTR_EOF_HANDLE = 2"

end
