(* ===== verification/Xdr.thy ===== *)
theory Xdr
  imports Errors
begin

text \<open>
  \<open>protocol/xdr.ts\<close>: the growable big-endian writer and the reader over a buffered
  region. The writer is modelled twice: as the code has it (an allocated buffer, a
  position, growth by doubling) and as the bytes it stands for (\<open>xw_contents\<close>); the
  refinement lemmas say that every operation appends the XDR encoding of its
  argument. The other theories build packets from the encodings.
\<close>

subsection \<open>XDR encodings\<close>

definition enc_int32 :: "int \<Rightarrow> bytes" where
  "enc_int32 v = be_bytes 4 (to_int32 v)"

definition enc_uint32 :: "int \<Rightarrow> bytes" where
  "enc_uint32 v = be_bytes 4 (to_uint32 v)"

definition enc_int64 :: "int \<Rightarrow> bytes" where
  "enc_int64 v = be_bytes 8 v"

definition enc_opaque_fixed :: "bytes \<Rightarrow> bytes" where
  "enc_opaque_fixed d = d @ replicate (pad4n (length d) - length d) 0"

definition enc_opaque :: "bytes \<Rightarrow> bytes" where
  "enc_opaque d = enc_uint32 (int (length d)) @ enc_opaque_fixed d"

definition enc_string :: "string \<Rightarrow> bytes" where
  "enc_string s = enc_opaque (str_bytes s)"

text \<open>\<open>opaqueSize\<close>: what \<open>opaque\<close> occupies on the wire.\<close>

definition opaque_size :: "int \<Rightarrow> int" where
  "opaque_size len = 4 + pad4 len"

lemma length_enc_int32 [simp]: "length (enc_int32 v) = 4"
  by (simp add: enc_int32_def)

lemma length_enc_uint32 [simp]: "length (enc_uint32 v) = 4"
  by (simp add: enc_uint32_def)

lemma length_enc_int64 [simp]: "length (enc_int64 v) = 8"
  by (simp add: enc_int64_def)

lemma length_enc_opaque_fixed [simp]: "length (enc_opaque_fixed d) = pad4n (length d)"
  by (simp add: enc_opaque_fixed_def)

lemma length_enc_opaque [simp]: "length (enc_opaque d) = 4 + pad4n (length d)"
  by (simp add: enc_opaque_def)

lemma be_val_enc_int32 [endian, simp]: "to_int32 (be_val (enc_int32 v)) = to_int32 v"
  by (simp add: enc_int32_def endian)

lemma be_val_enc_uint32 [endian, simp]: "be_val (enc_uint32 v) = to_uint32 v"
  by (simp add: enc_uint32_def to_uint32_def endian)

lemma enc_int32_uint32: "enc_int32 v = enc_uint32 v"
proof -
  have "be_val (enc_int32 v) = be_val (enc_uint32 v)"
    by (simp add: enc_int32_def endian)
       (metis to_uint32_def to_uint32_int32 mod_mod_trivial)
  then show ?thesis
    by (metis be_bytes_be_val length_enc_int32 length_enc_uint32)
qed

subsection \<open>The writer\<close>

record xdr_writer =
  xw_buf :: bytes
  xw_pos :: nat

text \<open>
  \<open>Buffer.allocUnsafe(n)\<close>: \<open>n\<close> bytes of arbitrary contents; \<open>junk\<close> is what memory
  happens to hold.
\<close>

definition alloc_unsafe :: "(nat \<Rightarrow> byte) \<Rightarrow> nat \<Rightarrow> bytes" where
  "alloc_unsafe junk n = map junk [0..<n]"

definition xw_new :: "(nat \<Rightarrow> byte) \<Rightarrow> nat \<Rightarrow> xdr_writer" where
  "xw_new junk initial_size = \<lparr>xw_buf = alloc_unsafe junk initial_size, xw_pos = 0\<rparr>"

text \<open>
  \<open>while (size < this.pos + n) size *= 2\<close>. A size of 0 never grows: the loop does
  not end, which is \<open>None\<close>.
\<close>

partial_function (option) xw_grow :: "nat \<Rightarrow> nat \<Rightarrow> nat option" where
  "xw_grow sz need = (if sz < need then xw_grow (sz * 2) need else Some sz)"

text \<open>\<open>src.copy(dst, at)\<close> for data that fits.\<close>

definition blit :: "bytes \<Rightarrow> nat \<Rightarrow> bytes \<Rightarrow> bytes" where
  "blit dst pos src = take pos dst @ src @ drop (pos + length src) dst"

definition xw_ensure :: "(nat \<Rightarrow> byte) \<Rightarrow> xdr_writer \<Rightarrow> nat \<Rightarrow> xdr_writer option" where
  "xw_ensure junk w n =
     (if xw_pos w + n \<le> length (xw_buf w) then Some w
      else map_option
             (\<lambda>sz. w\<lparr>xw_buf := blit (alloc_unsafe junk sz) 0 (take (xw_pos w) (xw_buf w))\<rparr>)
             (xw_grow (length (xw_buf w) * 2) (xw_pos w + n)))"

definition xw_int32 :: "(nat \<Rightarrow> byte) \<Rightarrow> xdr_writer \<Rightarrow> int \<Rightarrow> xdr_writer option" where
  "xw_int32 junk w v =
     map_option (\<lambda>w. w\<lparr>xw_buf := blit (xw_buf w) (xw_pos w) (be_bytes 4 (to_int32 v)),
                       xw_pos := xw_pos w + 4\<rparr>)
       (xw_ensure junk w 4)"

definition xw_uint32 :: "(nat \<Rightarrow> byte) \<Rightarrow> xdr_writer \<Rightarrow> int \<Rightarrow> xdr_writer option" where
  "xw_uint32 junk w v =
     map_option (\<lambda>w. w\<lparr>xw_buf := blit (xw_buf w) (xw_pos w) (be_bytes 4 (to_uint32 v)),
                       xw_pos := xw_pos w + 4\<rparr>)
       (xw_ensure junk w 4)"

text \<open>\<open>writeBigInt64BE\<close> raises when the value does not fit; the position stays.\<close>

definition xw_big_int64 :: "(nat \<Rightarrow> byte) \<Rightarrow> xdr_writer \<Rightarrow> int \<Rightarrow> xdr_writer res option" where
  "xw_big_int64 junk w v =
     map_option (\<lambda>w. if - (2 ^ 63) \<le> v \<and> v < 2 ^ 63
                      then Inr (w\<lparr>xw_buf := blit (xw_buf w) (xw_pos w) (be_bytes 8 v),
                                  xw_pos := xw_pos w + 8\<rparr>)
                      else Inl RangeErr)
       (xw_ensure junk w 8)"

definition xw_opaque_fixed :: "(nat \<Rightarrow> byte) \<Rightarrow> xdr_writer \<Rightarrow> bytes \<Rightarrow> xdr_writer option" where
  "xw_opaque_fixed junk w d =
     (let padded = pad4n (length d) in
      map_option
        (\<lambda>w. let buf = blit (xw_buf w) (xw_pos w) d;
                 buf' = (if length d < padded
                         then blit buf (xw_pos w + length d) (take (padded - length d) [0, 0, 0, 0])
                         else buf)
             in w\<lparr>xw_buf := buf', xw_pos := xw_pos w + padded\<rparr>)
        (xw_ensure junk w padded))"

definition xw_opaque :: "(nat \<Rightarrow> byte) \<Rightarrow> xdr_writer \<Rightarrow> bytes \<Rightarrow> xdr_writer option" where
  "xw_opaque junk w d =
     Option.bind (xw_uint32 junk w (int (length d))) (\<lambda>w. xw_opaque_fixed junk w d)"

definition xw_string :: "(nat \<Rightarrow> byte) \<Rightarrow> xdr_writer \<Rightarrow> string \<Rightarrow> xdr_writer option" where
  "xw_string junk w s = xw_opaque junk w (str_bytes s)"

definition xw_raw :: "(nat \<Rightarrow> byte) \<Rightarrow> xdr_writer \<Rightarrow> bytes \<Rightarrow> xdr_writer option" where
  "xw_raw junk w d =
     map_option (\<lambda>w. w\<lparr>xw_buf := blit (xw_buf w) (xw_pos w) d, xw_pos := xw_pos w + length d\<rparr>)
       (xw_ensure junk w (length d))"

definition xw_finish :: "xdr_writer \<Rightarrow> bytes \<times> xdr_writer" where
  "xw_finish w = (take (xw_pos w) (xw_buf w), w\<lparr>xw_pos := 0\<rparr>)"

text \<open>The abstraction: the bytes written since the last \<open>finish\<close>.\<close>

definition xw_contents :: "xdr_writer \<Rightarrow> bytes" where
  "xw_contents w = take (xw_pos w) (xw_buf w)"

definition xw_inv :: "xdr_writer \<Rightarrow> bool" where
  "xw_inv w = (xw_buf w \<noteq> [] \<and> xw_pos w \<le> length (xw_buf w))"

subsection \<open>Growth\<close>

lemma xw_grow_Some: "0 < sz \<Longrightarrow> \<exists>k. xw_grow sz need = Some (sz * 2 ^ k) \<and> need \<le> sz * 2 ^ k"
proof (induction "need - sz" arbitrary: sz rule: less_induct)
  case less
  show ?case
  proof (cases "sz < need")
    case True
    with less.prems have "need - sz * 2 < need - sz" by linarith
    with less.prems obtain k where "xw_grow (sz * 2) need = Some (sz * 2 * 2 ^ k)"
        "need \<le> sz * 2 * 2 ^ k"
      using less.hyps [of "sz * 2"] by auto
    with True show ?thesis
      by (subst xw_grow.simps) (auto intro!: exI [of _ "Suc k"] simp: mult.assoc)
  next
    case False
    then show ?thesis
      by (subst xw_grow.simps) (auto intro: exI [of _ 0])
  qed
qed

lemma length_alloc_unsafe [simp]: "length (alloc_unsafe junk n) = n"
  by (simp add: alloc_unsafe_def)

lemma length_blit [simp]: "pos + length d \<le> length buf \<Longrightarrow> length (blit buf pos d) = length buf"
  by (simp add: blit_def)

lemma take_blit: "pos + length d \<le> length buf \<Longrightarrow> take (pos + length d) (blit buf pos d) = take pos buf @ d"
  by (simp add: blit_def)

lemma blit_blit:
  "pos + length d + length e \<le> length buf \<Longrightarrow> blit (blit buf pos d) (pos + length d) e = blit buf pos (d @ e)"
  by (simp add: blit_def ac_simps)

lemma blit_eq_Nil: "blit buf pos d = [] \<Longrightarrow> pos + length d \<le> length buf \<Longrightarrow> buf = []"
  by (metis length_blit length_0_conv)

lemma xw_ensure_ok:
  assumes "xw_inv w"
  shows "\<exists>w'. xw_ensure junk w n = Some w' \<and> xw_inv w' \<and> xw_pos w' = xw_pos w
    \<and> xw_contents w' = xw_contents w \<and> xw_pos w' + n \<le> length (xw_buf w')"
proof (cases "xw_pos w + n \<le> length (xw_buf w)")
  case True
  with assms show ?thesis by (simp add: xw_ensure_def)
next
  case False
  let ?need = "xw_pos w + n"
  obtain k where k: "xw_grow (length (xw_buf w) * 2) ?need = Some (length (xw_buf w) * 2 * 2 ^ k)"
      "?need \<le> length (xw_buf w) * 2 * 2 ^ k"
    using xw_grow_Some [of "length (xw_buf w) * 2" ?need] assms by (auto simp: xw_inv_def)
  let ?buf = "blit (alloc_unsafe junk (length (xw_buf w) * 2 * 2 ^ k)) 0 (take (xw_pos w) (xw_buf w))"
  have pos: "xw_pos w \<le> length (xw_buf w)" and ne: "xw_buf w \<noteq> []"
    using assms by (simp_all add: xw_inv_def)
  then have len: "length ?buf = length (xw_buf w) * 2 * 2 ^ k"
    using k(2) by (simp add: blit_def min_def)
  have "?buf \<noteq> []"
    using len ne by (metis length_0_conv mult_eq_0_iff power_not_zero zero_neq_numeral)
  moreover have "take (xw_pos w) ?buf = take (xw_pos w) (xw_buf w)"
    using pos by (simp add: blit_def)
  moreover have "xw_ensure junk w n = Some (w\<lparr>xw_buf := ?buf\<rparr>)"
    using False k by (simp add: xw_ensure_def)
  ultimately show ?thesis
    using k(2) by (simp add: xw_inv_def xw_contents_def len del: length_blit)
qed

text \<open>
  What one write does, given the room: it puts its bytes at the position and moves the
  position past them. \<open>xw_appends r w d\<close>: \<open>r\<close> succeeds, keeps the invariant and
  appends \<open>d\<close>.
\<close>

definition xw_appends :: "xdr_writer option \<Rightarrow> xdr_writer \<Rightarrow> bytes \<Rightarrow> bool" where
  "xw_appends r w d = (\<exists>w'. r = Some w' \<and> xw_inv w' \<and> xw_contents w' = xw_contents w @ d)"

lemma xw_put_appends:
  assumes "xw_inv w" and "xw_pos w + length d \<le> length (xw_buf w)"
  shows "xw_inv (w\<lparr>xw_buf := blit (xw_buf w) (xw_pos w) d, xw_pos := xw_pos w + length d\<rparr>)"
    and "xw_contents (w\<lparr>xw_buf := blit (xw_buf w) (xw_pos w) d, xw_pos := xw_pos w + length d\<rparr>)
      = xw_contents w @ d"
  using assms blit_eq_Nil [of "xw_buf w" "xw_pos w" d]
  by (auto simp: xw_inv_def xw_contents_def take_blit)

lemma xw_write_appends:
  assumes "xw_inv w"
    and f: "\<And>w'. xw_pos w' + length d \<le> length (xw_buf w') \<Longrightarrow>
      f w' = w'\<lparr>xw_buf := blit (xw_buf w') (xw_pos w') d, xw_pos := xw_pos w' + length d\<rparr>"
  shows "xw_appends (map_option f (xw_ensure junk w (length d))) w d"
proof -
  obtain w' where w': "xw_ensure junk w (length d) = Some w'" "xw_inv w'"
      "xw_contents w' = xw_contents w" "xw_pos w' + length d \<le> length (xw_buf w')"
    using xw_ensure_ok [OF assms(1)] by blast
  with xw_put_appends [OF w'(2,4)] f [OF w'(4)] show ?thesis
    by (simp add: xw_appends_def)
qed

lemma xw_int32_appends: "xw_inv w \<Longrightarrow> xw_appends (xw_int32 junk w v) w (enc_int32 v)"
  unfolding xw_int32_def enc_int32_def
  by (rule xw_write_appends [where d = "be_bytes 4 (to_int32 v)", simplified]) auto

lemma xw_uint32_appends: "xw_inv w \<Longrightarrow> xw_appends (xw_uint32 junk w v) w (enc_uint32 v)"
  unfolding xw_uint32_def enc_uint32_def
  by (rule xw_write_appends [where d = "be_bytes 4 (to_uint32 v)", simplified]) auto

lemma xw_raw_appends: "xw_inv w \<Longrightarrow> xw_appends (xw_raw junk w d) w d"
  unfolding xw_raw_def by (rule xw_write_appends) auto

lemma take_zeros: "n \<le> 4 \<Longrightarrow> take n [0, 0, 0, 0 :: byte] = replicate n 0"
  by (auto simp: numeral_eq_Suc le_Suc_eq)

lemma xw_opaque_fixed_appends:
  assumes "xw_inv w"
  shows "xw_appends (xw_opaque_fixed junk w d) w (enc_opaque_fixed d)"
proof -
  let ?p = "pad4n (length d)"
  have pad: "?p - length d \<le> 4" "length d \<le> ?p"
    using pad4n_bounds [of "length d"] by auto
  have *: "xw_opaque_fixed junk w d = map_option
    (\<lambda>w. w\<lparr>xw_buf := (if length d < ?p
        then blit (blit (xw_buf w) (xw_pos w) d) (xw_pos w + length d) (replicate (?p - length d) 0)
        else blit (xw_buf w) (xw_pos w) d),
      xw_pos := xw_pos w + length (enc_opaque_fixed d)\<rparr>)
    (xw_ensure junk w (length (enc_opaque_fixed d)))"
    unfolding xw_opaque_fixed_def Let_def take_zeros [OF pad(1)] by simp
  show ?thesis
    unfolding * using assms pad
    by (intro xw_write_appends) (auto simp: enc_opaque_fixed_def blit_blit)
qed

lemma xw_appends_bind:
  assumes "xw_appends r w d" and "\<And>w'. xw_inv w' \<Longrightarrow> xw_appends (f w') w' e"
  shows "xw_appends (Option.bind r f) w (d @ e)"
proof -
  obtain w' where w': "r = Some w'" "xw_inv w'" "xw_contents w' = xw_contents w @ d"
    using assms(1) by (auto simp: xw_appends_def)
  with assms(2) [OF w'(2)] show ?thesis by (auto simp: xw_appends_def)
qed

lemma xw_opaque_appends: "xw_inv w \<Longrightarrow> xw_appends (xw_opaque junk w d) w (enc_opaque d)"
  unfolding xw_opaque_def enc_opaque_def
  by (intro xw_appends_bind xw_uint32_appends xw_opaque_fixed_appends)

lemma xw_string_appends: "xw_inv w \<Longrightarrow> xw_appends (xw_string junk w s) w (enc_string s)"
  unfolding xw_string_def enc_string_def by (rule xw_opaque_appends)

lemma xw_big_int64_appends:
  assumes "xw_inv w"
  shows "if - (2 ^ 63) \<le> v \<and> v < 2 ^ 63
    then \<exists>w'. xw_big_int64 junk w v = Some (Inr w') \<and> xw_inv w' \<and> xw_contents w' = xw_contents w @ enc_int64 v
    else xw_big_int64 junk w v = Some (Inl RangeErr)"
proof -
  obtain w' where w': "xw_ensure junk w 8 = Some w'" "xw_inv w'"
      "xw_contents w' = xw_contents w" "xw_pos w' + 8 \<le> length (xw_buf w')"
    using xw_ensure_ok [OF assms] by blast
  then show ?thesis
    using xw_put_appends [OF w'(2), of "be_bytes 8 v"]
    by (auto simp: xw_big_int64_def enc_int64_def)
qed

lemma xw_new_inv: "0 < n \<Longrightarrow> xw_inv (xw_new junk n) \<and> xw_contents (xw_new junk n) = []"
  by (auto simp: xw_new_def xw_inv_def xw_contents_def alloc_unsafe_def)

lemma xw_finish_contents: "fst (xw_finish w) = xw_contents w"
  by (simp add: xw_finish_def xw_contents_def)

lemma xw_finish_empty: "xw_inv w \<Longrightarrow> xw_inv (snd (xw_finish w)) \<and> xw_contents (snd (xw_finish w)) = []"
  by (auto simp: xw_finish_def xw_contents_def xw_inv_def)

subsection \<open>The reader\<close>

record xdr_reader =
  xr_buf :: bytes
  xr_pos :: int

text \<open>
  \<open>buf.subarray(a, b)\<close>: a negative index counts from the end, and both ends are clamped.
\<close>

definition rel_index :: "nat \<Rightarrow> int \<Rightarrow> nat" where
  "rel_index n i = (if i < 0 then nat (int n + i) else min (nat i) n)"

definition subarray :: "int \<Rightarrow> int \<Rightarrow> bytes \<Rightarrow> bytes" where
  "subarray a b xs = js_slice (rel_index (length xs) a) (rel_index (length xs) b) xs"

text \<open>A fixed-width Buffer read at an offset; outside the buffer Node.js raises.\<close>

definition read_be :: "nat \<Rightarrow> bytes \<Rightarrow> int \<Rightarrow> int res" where
  "read_be n buf pos =
     (if 0 \<le> pos \<and> pos + int n \<le> int (length buf)
      then Inr (be_val (js_slice (nat pos) (nat pos + n) buf)) else Inl RangeErr)"

definition xr_remaining :: "xdr_reader \<Rightarrow> int" where
  "xr_remaining r = int (length (xr_buf r)) - xr_pos r"

definition xr_int32 :: "xdr_reader \<Rightarrow> (int \<times> xdr_reader) res" where
  "xr_int32 r = rthen (read_be 4 (xr_buf r) (xr_pos r))
     (\<lambda>v. Inr (to_int32 v, r\<lparr>xr_pos := xr_pos r + 4\<rparr>))"

definition xr_uint32 :: "xdr_reader \<Rightarrow> (int \<times> xdr_reader) res" where
  "xr_uint32 r = rthen (read_be 4 (xr_buf r) (xr_pos r))
     (\<lambda>v. Inr (v, r\<lparr>xr_pos := xr_pos r + 4\<rparr>))"

definition xr_big_int64 :: "xdr_reader \<Rightarrow> (int \<times> xdr_reader) res" where
  "xr_big_int64 r = rthen (read_be 8 (xr_buf r) (xr_pos r))
     (\<lambda>v. Inr (signed_val 8 v, r\<lparr>xr_pos := xr_pos r + 8\<rparr>))"

definition xr_opaque_fixed :: "xdr_reader \<Rightarrow> int \<Rightarrow> bytes \<times> xdr_reader" where
  "xr_opaque_fixed r len =
     (subarray (xr_pos r) (xr_pos r + len) (xr_buf r), r\<lparr>xr_pos := xr_pos r + pad4 len\<rparr>)"

definition xr_opaque :: "xdr_reader \<Rightarrow> (bytes \<times> xdr_reader) res" where
  "xr_opaque r = rthen (xr_uint32 r) (\<lambda>(len, r). Inr (xr_opaque_fixed r len))"

definition xr_string :: "xdr_reader \<Rightarrow> (string \<times> xdr_reader) res" where
  "xr_string r = rthen (xr_opaque r) (\<lambda>(d, r). Inr (bytes_str d, r))"

definition xr_skip :: "xdr_reader \<Rightarrow> int \<Rightarrow> xdr_reader" where
  "xr_skip r n = r\<lparr>xr_pos := xr_pos r + n\<rparr>"

subsection \<open>Writing and reading back\<close>

text \<open>The items a packet is made of, each with the operation that writes and reads it.\<close>

datatype xdr_item =
    XInt32 int
  | XUint32 int
  | XInt64 int
  | XOpaque bytes
  | XString string

fun xdr_item_ok :: "xdr_item \<Rightarrow> bool" where
  "xdr_item_ok (XInt32 v) = int32_range v"
| "xdr_item_ok (XUint32 v) = uint32_range v"
| "xdr_item_ok (XInt64 v) = (- (2 ^ 63) \<le> v \<and> v < 2 ^ 63)"
| "xdr_item_ok (XOpaque d) = (length d < 2147483645)"
| "xdr_item_ok (XString s) = (length s < 2147483645)"

fun enc_item :: "xdr_item \<Rightarrow> bytes" where
  "enc_item (XInt32 v) = enc_int32 v"
| "enc_item (XUint32 v) = enc_uint32 v"
| "enc_item (XInt64 v) = enc_int64 v"
| "enc_item (XOpaque d) = enc_opaque d"
| "enc_item (XString s) = enc_string s"

fun xw_item :: "(nat \<Rightarrow> byte) \<Rightarrow> xdr_writer \<Rightarrow> xdr_item \<Rightarrow> xdr_writer res option" where
  "xw_item junk w (XInt32 v) = map_option Inr (xw_int32 junk w v)"
| "xw_item junk w (XUint32 v) = map_option Inr (xw_uint32 junk w v)"
| "xw_item junk w (XInt64 v) = xw_big_int64 junk w v"
| "xw_item junk w (XOpaque d) = map_option Inr (xw_opaque junk w d)"
| "xw_item junk w (XString s) = map_option Inr (xw_string junk w s)"

fun xw_items :: "(nat \<Rightarrow> byte) \<Rightarrow> xdr_writer \<Rightarrow> xdr_item list \<Rightarrow> xdr_writer res option" where
  "xw_items junk w [] = Some (Inr w)"
| "xw_items junk w (x # xs) =
     (case xw_item junk w x of
        None \<Rightarrow> None
      | Some (Inl e) \<Rightarrow> Some (Inl e)
      | Some (Inr w') \<Rightarrow> xw_items junk w' xs)"

text \<open>Reading one item of the kind of a given item, and a list of them.\<close>

fun xr_item :: "xdr_reader \<Rightarrow> xdr_item \<Rightarrow> (xdr_item \<times> xdr_reader) res" where
  "xr_item r (XInt32 _) = rthen (xr_int32 r) (\<lambda>(v, r). Inr (XInt32 v, r))"
| "xr_item r (XUint32 _) = rthen (xr_uint32 r) (\<lambda>(v, r). Inr (XUint32 v, r))"
| "xr_item r (XInt64 _) = rthen (xr_big_int64 r) (\<lambda>(v, r). Inr (XInt64 v, r))"
| "xr_item r (XOpaque _) = rthen (xr_opaque r) (\<lambda>(d, r). Inr (XOpaque d, r))"
| "xr_item r (XString _) = rthen (xr_string r) (\<lambda>(s, r). Inr (XString s, r))"

fun xr_items :: "xdr_reader \<Rightarrow> xdr_item list \<Rightarrow> (xdr_item list \<times> xdr_reader) res" where
  "xr_items r [] = Inr ([], r)"
| "xr_items r (x # xs) =
     rthen (xr_item r x) (\<lambda>(y, r). rthen (xr_items r xs) (\<lambda>(ys, r). Inr (y # ys, r)))"

lemma xw_items_appends:
  assumes "xw_inv w" and "list_all xdr_item_ok xs"
  shows "\<exists>w'. xw_items junk w xs = Some (Inr w') \<and> xw_inv w'
    \<and> xw_contents w' = xw_contents w @ concat (map enc_item xs)"
  using assms
proof (induction xs arbitrary: w)
  case (Cons x xs)
  then have "\<exists>w'. xw_item junk w x = Some (Inr w') \<and> xw_inv w' \<and> xw_contents w' = xw_contents w @ enc_item x"
    using xw_int32_appends [of w] xw_uint32_appends [of w] xw_opaque_appends [of w]
      xw_string_appends [of w] xw_big_int64_appends [of w]
    by (cases x) (fastforce simp: xw_appends_def)+
  then obtain w' where "xw_item junk w x = Some (Inr w')" "xw_inv w'"
      "xw_contents w' = xw_contents w @ enc_item x" by blast
  with Cons.IH [of w'] Cons.prems show ?case by simp
qed simp

text \<open>A reader at the start of an encoded item, with anything before and after it.\<close>

definition xr_at :: "bytes \<Rightarrow> bytes \<Rightarrow> xdr_reader" where
  "xr_at pre post = \<lparr>xr_buf = pre @ post, xr_pos = int (length pre)\<rparr>"

lemma js_slice_append: "js_slice (length pre) (length pre + n) (pre @ post) = take n post"
  by (simp add: js_slice_def)

lemma read_be_at: "length d = n \<Longrightarrow> read_be n (xr_buf (xr_at pre (d @ post))) (xr_pos (xr_at pre (d @ post))) = Inr (be_val d)"
  by (auto simp: read_be_def xr_at_def js_slice_append)

lemma xr_at_advance: "length d = n \<Longrightarrow> (xr_at pre (d @ post))\<lparr>xr_pos := int (length pre) + int n\<rparr> = xr_at (pre @ d) post"
  by (simp add: xr_at_def)

lemma xr_pos_at [simp]: "xr_pos (xr_at pre post) = int (length pre)"
  by (simp add: xr_at_def)

lemma xr_uint32_at: "xr_uint32 (xr_at pre (enc_uint32 v @ post)) = Inr (to_uint32 v, xr_at (pre @ enc_uint32 v) post)"
  using read_be_at [of "enc_uint32 v" 4 pre post] xr_at_advance [of "enc_uint32 v" 4 pre post]
  by (simp add: xr_uint32_def)

lemma xr_int32_at: "xr_int32 (xr_at pre (enc_int32 v @ post)) = Inr (to_int32 v, xr_at (pre @ enc_int32 v) post)"
  using read_be_at [of "enc_int32 v" 4 pre post] xr_at_advance [of "enc_int32 v" 4 pre post]
  by (simp add: xr_int32_def)

lemma xr_big_int64_at:
  assumes "- (2 ^ 63) \<le> v" and "v < 2 ^ 63"
  shows "xr_big_int64 (xr_at pre (enc_int64 v @ post)) = Inr (v, xr_at (pre @ enc_int64 v) post)"
  using read_be_at [of "enc_int64 v" 8 pre post] xr_at_advance [of "enc_int64 v" 8 pre post]
    signed_val_mod [of 8 v] assms
  by (simp add: xr_big_int64_def enc_int64_def endian)

lemma xr_opaque_at:
  assumes "length d < 2147483645"
  shows "xr_opaque (xr_at pre (enc_opaque d @ post)) = Inr (d, xr_at (pre @ enc_opaque d) post)"
proof -
  have len: "to_uint32 (int (length d)) = int (length d)" "int (length d) < 2147483645"
    using assms by simp_all
  let ?pre = "pre @ enc_uint32 (int (length d))"
  have "xr_opaque_fixed (xr_at ?pre (enc_opaque_fixed d @ post)) (int (length d))
      = (d, xr_at (?pre @ enc_opaque_fixed d) post)"
    using len(2)
    by (simp add: xr_opaque_fixed_def pad4_nat xr_at_def subarray_def rel_index_def
        enc_opaque_fixed_def js_slice_def pad4n_bounds)
  then show ?thesis
    using len xr_uint32_at [of pre "int (length d)" "enc_opaque_fixed d @ post"]
    by (simp add: xr_opaque_def enc_opaque_def)
qed

lemma xr_items_at:
  "list_all xdr_item_ok xs \<Longrightarrow> xr_items (xr_at pre (concat (map enc_item xs) @ post)) xs
     = Inr (xs, xr_at (pre @ concat (map enc_item xs)) post)"
proof (induction xs arbitrary: pre)
  case (Cons x xs)
  let ?rest = "concat (map enc_item xs) @ post"
  have "xr_item (xr_at pre (enc_item x @ ?rest)) x = Inr (x, xr_at (pre @ enc_item x) ?rest)"
    using Cons.prems
    by (cases x) (simp_all add: xr_int32_at xr_uint32_at xr_big_int64_at xr_opaque_at
        xr_string_def enc_string_def)
  with Cons.IH [of "pre @ enc_item x"] Cons.prems show ?case
    by (simp add: rthen_def)
qed simp

text \<open>
  Round trip through the XDR layer: any sequence of items (32-bit and 64-bit
  integers, opaques, strings) written with the growable writer, whatever its initial
  size and whatever the freshly allocated memory holds, and then read back from the
  finished packet with the reader, comes back unchanged and uses up the whole packet.
  In particular every growth loop ends.
\<close>

theorem xdr_roundtrip:
  assumes "0 < initial_size" and "list_all xdr_item_ok xs"
  shows "\<exists>w. xw_items junk (xw_new junk initial_size) xs = Some (Inr w)
    \<and> (let packet = fst (xw_finish w) in
        length packet mod 4 = 0
        \<and> xr_items \<lparr>xr_buf = packet, xr_pos = 0\<rparr> xs
            = Inr (xs, \<lparr>xr_buf = packet, xr_pos = int (length packet)\<rparr>))"
proof -
  let ?d = "concat (map enc_item xs)"
  have new: "xw_inv (xw_new junk initial_size)" "xw_contents (xw_new junk initial_size) = []"
    using xw_new_inv assms(1) by auto
  obtain w where w: "xw_items junk (xw_new junk initial_size) xs = Some (Inr w)"
      "xw_contents w = ?d"
    using xw_items_appends [OF new(1) assms(2)] new(2) by auto
  have "4 dvd length (enc_item x)" for x
    by (cases x) (simp_all add: enc_string_def)
  then have "4 dvd length ?d"
    by (induction xs) auto
  moreover have "xr_items \<lparr>xr_buf = ?d, xr_pos = 0\<rparr> xs
      = Inr (xs, \<lparr>xr_buf = ?d, xr_pos = int (length ?d)\<rparr>)"
    using xr_items_at [OF assms(2), of "[]" "[]"] unfolding xr_at_def by simp
  ultimately have "let packet = fst (xw_finish w) in length packet mod 4 = 0
        \<and> xr_items \<lparr>xr_buf = packet, xr_pos = 0\<rparr> xs
            = Inr (xs, \<lparr>xr_buf = packet, xr_pos = int (length packet)\<rparr>)"
    unfolding Let_def xw_finish_contents w(2) dvd_eq_mod_eq_0 by blast
  with w(1) show ?thesis by blast
qed

theorem xdr_roundtrip_witness:
  "\<exists>w. xw_items (\<lambda>_. 7) (xw_new (\<lambda>_. 7) 1) [XInt32 (- 5), XOpaque [1, 2], XInt64 77] = Some (Inr w)
    \<and> (let packet = fst (xw_finish w) in
        length packet mod 4 = 0
        \<and> xr_items \<lparr>xr_buf = packet, xr_pos = 0\<rparr> [XInt32 (- 5), XOpaque [1, 2], XInt64 77]
            = Inr ([XInt32 (- 5), XOpaque [1, 2], XInt64 77], \<lparr>xr_buf = packet, xr_pos = int (length packet)\<rparr>))"
  by (rule xdr_roundtrip) simp_all

end
