(* ===== verification/Wire.thy ===== *)
theory Wire
  imports Constants Xdr
begin

text \<open>
  \<open>protocol/wire.ts\<close>: the connection's packet writer and the incremental reads over
  the transport. The state holds the bytes the peer will still send (a read past them
  fails as a closed connection does), the bytes written and not flushed, the flushed
  packets, and the counters of the code. A read is a function from the state to a
  result and the state after it, which an error keeps too.
\<close>

subsection \<open>State\<close>

text \<open>
  \<open>w_messages\<close> is the table of \<open>messages.json\<close>: a message text and an optional
  SQLSTATE per code. \<open>w_inlined\<close> records the calls of \<open>onInlineBlob\<close>, latest last.
\<close>

record wire =
  w_in :: bytes
  w_out :: bytes
  w_sent :: "bytes list"
  w_flush_count :: nat
  w_deferred :: nat
  w_version :: int
  w_inline_size :: int
  w_inlined :: "(int \<times> bytes \<times> bytes \<times> bytes) list"
  w_messages :: "int \<Rightarrow> (string \<times> string option) option"

type_synonym 'a rd = "wire \<Rightarrow> 'a res \<times> wire"

definition rd_return :: "'a \<Rightarrow> 'a rd" where
  "rd_return x = (\<lambda>w. (Inr x, w))"

definition rd_fail :: "err \<Rightarrow> 'a rd" where
  "rd_fail e = (\<lambda>w. (Inl e, w))"

definition rd_bind :: "'a rd \<Rightarrow> ('a \<Rightarrow> 'b rd) \<Rightarrow> 'b rd" where
  "rd_bind m f = (\<lambda>w. case m w of (Inl e, w') \<Rightarrow> (Inl e, w') | (Inr x, w') \<Rightarrow> f x w')"

text \<open>An update of the state that cannot fail, such as a write.\<close>

definition rd_do :: "(wire \<Rightarrow> wire) \<Rightarrow> unit rd" where
  "rd_do f = (\<lambda>w. (Inr (), f w))"

text \<open>\<open>p.catch(() => undefined)\<close>.\<close>

definition rd_swallow :: "'a rd \<Rightarrow> unit rd" where
  "rd_swallow m = (\<lambda>w. (Inr (), snd (m w)))"

fun rd_times :: "nat \<Rightarrow> 'a rd \<Rightarrow> 'a list rd" where
  "rd_times 0 m = rd_return []"
| "rd_times (Suc n) m = rd_bind m (\<lambda>x. rd_bind (rd_times n m) (\<lambda>xs. rd_return (x # xs)))"

named_theorems wire_simps "evaluation rules of the reads and writes"

lemma rd_return_app [wire_simps, simp]: "rd_return x w = (Inr x, w)"
  by (simp add: rd_return_def)

lemma rd_fail_app [wire_simps, simp]: "rd_fail e w = (Inl e, w)"
  by (simp add: rd_fail_def)

lemma rd_do_app [wire_simps, simp]: "rd_do f w = (Inr (), f w)"
  by (simp add: rd_do_def)

lemma rd_bind_Inr [wire_simps]: "m w = (Inr x, w') \<Longrightarrow> rd_bind m f w = f x w'"
  by (simp add: rd_bind_def)

lemma rd_bind_Inl [wire_simps]: "m w = (Inl e, w') \<Longrightarrow> rd_bind m f w = (Inl e, w')"
  by (simp add: rd_bind_def)

lemma rd_bind_assoc: "rd_bind (rd_bind m f) g = rd_bind m (\<lambda>x. rd_bind (f x) g)"
  by (auto simp: rd_bind_def fun_eq_iff split: prod.splits sum.splits)

subsection \<open>Writing\<close>

definition put :: "bytes \<Rightarrow> wire \<Rightarrow> wire" where
  "put d w = w\<lparr>w_out := w_out w @ d\<rparr>"

definition flush :: "wire \<Rightarrow> wire" where
  "flush w = (if w_out w = [] then w
     else w\<lparr>w_flush_count := Suc (w_flush_count w), w_sent := w_sent w @ [w_out w], w_out := []\<rparr>)"

definition mark_deferred :: "wire \<Rightarrow> wire" where
  "mark_deferred w = w\<lparr>w_deferred := Suc (w_deferred w)\<rparr>"

lemma put_put [simp]: "put b (put a w) = put (a @ b) w"
  by (simp add: put_def)

lemma put_fields [simp]:
  "w_in (put d w) = w_in w" "w_out (put d w) = w_out w @ d" "w_sent (put d w) = w_sent w"
  "w_flush_count (put d w) = w_flush_count w" "w_deferred (put d w) = w_deferred w"
  "w_version (put d w) = w_version w" "w_inline_size (put d w) = w_inline_size w"
  "w_inlined (put d w) = w_inlined w" "w_messages (put d w) = w_messages w"
  by (simp_all add: put_def)

lemma flush_fields [simp]:
  "w_in (flush w) = w_in w" "w_out (flush w) = []" "w_deferred (flush w) = w_deferred w"
  "w_version (flush w) = w_version w" "w_inline_size (flush w) = w_inline_size w"
  "w_inlined (flush w) = w_inlined w" "w_messages (flush w) = w_messages w"
  by (simp_all add: flush_def)

text \<open>Flushing never loses or reorders a byte.\<close>

lemma flush_bytes: "concat (w_sent (flush w)) @ w_out (flush w) = concat (w_sent w) @ w_out w"
  by (simp add: flush_def)

lemma flush_count: "length (w_sent (flush w)) + w_flush_count w = w_flush_count (flush w) + length (w_sent w)"
  by (simp add: flush_def)

subsection \<open>Incremental reads\<close>

text \<open>
  \<open>transport.read(n)\<close>. A negative count only arises from a length of \<open>2 ^ 31 - 3\<close> or
  more in an opaque; the code then slices backwards from an empty queue, which the
  model reports as \<open>TypeErr\<close>.
\<close>

definition read_bytes :: "int \<Rightarrow> bytes rd" where
  "read_bytes n = (\<lambda>w.
     if n < 0 then (Inl TypeErr, w)
     else if int (length (w_in w)) < n then (Inl ClosedErr, w)
     else (Inr (take (nat n) (w_in w)), w\<lparr>w_in := drop (nat n) (w_in w)\<rparr>))"

definition read_int32 :: "int rd" where
  "read_int32 = rd_bind (read_bytes 4) (\<lambda>b. rd_return (to_int32 (be_val b)))"

definition read_opaque :: "bytes rd" where
  "read_opaque = rd_bind (read_bytes 4) (\<lambda>b.
     let len = be_val b in
     if len = 0 then rd_return []
     else rd_bind (read_bytes (pad4 len)) (\<lambda>data. rd_return (take (nat len) data)))"

definition read_string :: "string rd" where
  "read_string = rd_bind read_opaque (\<lambda>d. rd_return (bytes_str d))"

text \<open>The bytes to come, put in front of the input: how the lemmas describe a peer.\<close>

definition feed :: "bytes \<Rightarrow> wire \<Rightarrow> wire" where
  "feed d w = w\<lparr>w_in := d @ w_in w\<rparr>"

lemma feed_append [simp]: "feed (a @ b) w = feed a (feed b w)"
  by (simp add: feed_def)

lemma feed_Nil [simp]: "feed [] w = w"
  by (simp add: feed_def)

lemma feed_fields [simp]:
  "w_in (feed d w) = d @ w_in w" "w_out (feed d w) = w_out w" "w_sent (feed d w) = w_sent w"
  "w_flush_count (feed d w) = w_flush_count w" "w_deferred (feed d w) = w_deferred w"
  "w_version (feed d w) = w_version w" "w_inline_size (feed d w) = w_inline_size w"
  "w_inlined (feed d w) = w_inlined w" "w_messages (feed d w) = w_messages w"
  by (simp_all add: feed_def)

lemma feed_updates:
  "(feed d w)\<lparr>w_deferred := n\<rparr> = feed d (w\<lparr>w_deferred := n\<rparr>)"
  "(feed d w)\<lparr>w_inlined := l\<rparr> = feed d (w\<lparr>w_inlined := l\<rparr>)"
  by (simp_all add: feed_def)

lemma read_bytes_feed [wire_simps]: "int (length d) = n \<Longrightarrow> read_bytes n (feed d w) = (Inr d, w)"
  by (auto simp: read_bytes_def feed_def)

lemma read_int32_feed [wire_simps]: "read_int32 (feed (enc_int32 v) w) = (Inr (to_int32 v), w)"
  by (simp add: read_int32_def rd_bind_def read_bytes_feed)

lemma read_int32_feed_id [wire_simps]: "int32_range v \<Longrightarrow> read_int32 (feed (enc_int32 v) w) = (Inr v, w)"
  by (simp add: read_int32_feed)

lemma read_opaque_feed [wire_simps]:
  assumes "length d < 2147483645"
  shows "read_opaque (feed (enc_opaque d) w) = (Inr d, w)"
proof -
  have "to_uint32 (int (length d)) = int (length d)" "pad4 (int (length d)) = int (pad4n (length d))"
    using assms by (simp_all add: pad4_nat)
  moreover have "read_bytes 4 (feed (enc_opaque d) w) = (Inr (enc_uint32 (int (length d))), feed (enc_opaque_fixed d) w)"
    unfolding enc_opaque_def feed_append by (rule read_bytes_feed) simp
  moreover have "read_bytes (int (pad4n (length d))) (feed (enc_opaque_fixed d) w) = (Inr (enc_opaque_fixed d), w)"
    by (rule read_bytes_feed) simp
  moreover have "take (length d) (enc_opaque_fixed d) = d" "d = [] \<Longrightarrow> enc_opaque_fixed d = []"
    by (simp_all add: enc_opaque_fixed_def)
  ultimately show ?thesis
    by (auto simp: read_opaque_def rd_bind_def Let_def)
qed

lemma read_string_feed [wire_simps]:
  "length s < 2147483645 \<Longrightarrow> read_string (feed (enc_string s) w) = (Inr s, w)"
  by (simp add: read_string_def enc_string_def rd_bind_def read_opaque_feed)

subsection \<open>The interface of a codec\<close>

text \<open>
  A codec for values of a type: the encoding a peer sends and the read that takes it
  off the connection. The one law is the round trip; what clients need, reading back
  a sequence and the unambiguity of the encoding, follows from it.
\<close>

locale wire_codec =
  fixes enc :: "'a \<Rightarrow> bytes" and rd :: "'a rd" and ok :: "'a \<Rightarrow> bool"
  assumes read_back: "ok x \<Longrightarrow> rd (feed (enc x) w) = (Inr x, w)"
begin

lemma read_back_list:
  "list_all ok xs \<Longrightarrow> rd_times (length xs) rd (feed (concat (map enc xs)) w) = (Inr xs, w)"
  by (induction xs) (simp_all add: rd_bind_def read_back)

lemma unambiguous:
  assumes "ok x" and "ok y" and "enc x @ a = enc y @ b"
  shows "x = y \<and> a = b"
proof -
  define w :: wire where "w = undefined"
  have "rd (feed (enc x) (w\<lparr>w_in := a\<rparr>)) = rd (feed (enc y) (w\<lparr>w_in := b\<rparr>))"
    using assms(3) by (simp add: feed_def)
  then have "(Inr x, w\<lparr>w_in := a\<rparr>) = (Inr y :: 'a res, w\<lparr>w_in := b\<rparr>)"
    using assms(1,2) read_back by metis
  then have "x = y" "w_in (w\<lparr>w_in := a\<rparr>) = w_in (w\<lparr>w_in := b\<rparr>)" by auto
  then show ?thesis by simp
qed

end

text \<open>A codec whose encodings keep the stream on four-byte boundaries.\<close>

locale aligned_codec = wire_codec +
  assumes aligned: "4 dvd length (enc x)"
begin

lemma aligned_list: "4 dvd length (concat (map enc xs))"
  by (induction xs) (auto simp: aligned)

end

interpretation int32: aligned_codec enc_int32 read_int32 int32_range
  by unfold_locales (simp_all add: wire_simps)

interpretation opq: aligned_codec enc_opaque read_opaque "\<lambda>d. length d < 2147483645"
  by unfold_locales (simp_all add: wire_simps)

interpretation str: aligned_codec enc_string read_string "\<lambda>s. length s < 2147483645"
  by unfold_locales (simp add: wire_simps, simp add: enc_string_def)

end
