(* ===== verification/Response.thy ===== *)
theory Response
  imports Wire
begin

text \<open>
  The rest of \<open>protocol/wire.ts\<close>: operation codes with the keep-alives, deferred
  responses and inline blobs that may precede them, response bodies, and the status
  vector with the error it stands for.
\<close>

subsection \<open>Messages\<close>

text \<open>
  \<open>m.replace(/@(\d+)/g, (_, n) => params[Number(n) - 1] ?? `@${n}`)\<close>.
\<close>

lemma length_dropWhile_digits [termination_simp]: "length (dropWhile is_digit cs) < Suc (length cs)"
  by (simp add: length_dropWhile_le less_Suc_eq_le)

fun subst_params :: "string list \<Rightarrow> string \<Rightarrow> string" where
  "subst_params ps [] = []"
| "subst_params ps (c # cs) =
     (if c = CHR ''@'' \<and> takeWhile is_digit cs \<noteq> []
      then (let ds = takeWhile is_digit cs; n = digits_val ds
            in (if n = 0 then c # ds
                else case at ps (n - 1) of Some p \<Rightarrow> p | None \<Rightarrow> c # ds)
               @ subst_params ps (dropWhile is_digit cs))
      else c # subst_params ps cs)"

definition format_gds_message ::
  "(int \<Rightarrow> (string \<times> string option) option) \<Rightarrow> int \<Rightarrow> string list \<Rightarrow> string \<times> string option" where
  "format_gds_message messages c params =
     (case messages c of
        None \<Rightarrow> (''Firebird error '' @ dec_int c
                 @ (if params = [] then [] else '' ('' @ join '', '' params @ '')''), None)
      | Some (m, s) \<Rightarrow> (subst_params params m, s))"

subsection \<open>The status vector\<close>

record cluster =
  c_code :: int
  c_warning :: bool
  c_params :: "string list"
  c_interpreted :: "string option"

text \<open>
  The loop's variables. \<open>current\<close> is \<open>null\<close> before the first cluster and the last
  cluster after it.
\<close>

record sv =
  sv_args :: "status_arg list"
  sv_clusters :: "cluster list"
  sv_sql_state :: "string option"

definition sv_init :: sv where
  "sv_init = \<lparr>sv_args = [], sv_clusters = [], sv_sql_state = None\<rparr>"

definition on_current :: "(cluster \<Rightarrow> cluster) \<Rightarrow> cluster list \<Rightarrow> cluster list" where
  "on_current f cs = (if cs = [] then [] else butlast cs @ [f (last cs)])"

text \<open>What each kind of argument does to the variables.\<close>

definition sv_gds :: "bool \<Rightarrow> int \<Rightarrow> sv \<Rightarrow> sv" where
  "sv_gds warning c s =
     (if c = 0 then s
      else s\<lparr>sv_args := sv_args s @ [ArgGds c],
             sv_clusters := sv_clusters s
               @ [\<lparr>c_code = c, c_warning = warning, c_params = [], c_interpreted = None\<rparr>]\<rparr>)"

definition sv_string :: "string \<Rightarrow> sv \<Rightarrow> sv" where
  "sv_string t s = s\<lparr>sv_args := sv_args s @ [ArgString t],
     sv_clusters := on_current (\<lambda>c. c\<lparr>c_params := c_params c @ [t]\<rparr>) (sv_clusters s)\<rparr>"

definition sv_interpreted :: "string \<Rightarrow> sv \<Rightarrow> sv" where
  "sv_interpreted t s = s\<lparr>sv_args := sv_args s @ [ArgInterpreted t],
     sv_clusters := on_current (\<lambda>c. c\<lparr>c_interpreted := Some t\<rparr>) (sv_clusters s)\<rparr>"

definition sv_state :: "string \<Rightarrow> sv \<Rightarrow> sv" where
  "sv_state t s = s\<lparr>sv_args := sv_args s @ [ArgSqlState t], sv_sql_state := Some t\<rparr>"

definition sv_number :: "int \<Rightarrow> sv \<Rightarrow> sv" where
  "sv_number n s = s\<lparr>sv_args := sv_args s @ [ArgNumber n],
     sv_clusters := on_current (\<lambda>c. c\<lparr>c_params := c_params c @ [dec_int n]\<rparr>) (sv_clusters s)\<rparr>"

definition sv_step :: "int \<Rightarrow> sv \<Rightarrow> sv rd" where
  "sv_step arg s =
     (if arg = isc_arg_code Isc_gds \<or> arg = isc_arg_code Isc_warning
      then rd_bind read_int32 (\<lambda>c. rd_return (sv_gds (arg = isc_arg_code Isc_warning) c s))
      else if arg = isc_arg_code Isc_string \<or> arg = isc_arg_code Isc_cstring
      then rd_bind read_string (\<lambda>t. rd_return (sv_string t s))
      else if arg = isc_arg_code Isc_interpreted
      then rd_bind read_string (\<lambda>t. rd_return (sv_interpreted t s))
      else if arg = isc_arg_code Isc_sql_state
      then rd_bind read_string (\<lambda>t. rd_return (sv_state t s))
      else if arg = isc_arg_code Isc_number
      then rd_bind read_int32 (\<lambda>n. rd_return (sv_number n s))
      else rd_fail (fb_error (''Unexpected status vector argument type '' @ dec_int arg)))"

text \<open>
  The loop, with fuel: each turn reads at least four bytes, so the bytes to come bound
  the turns (\<open>read_sv_enough\<close>).
\<close>

fun read_sv_fuel :: "nat \<Rightarrow> sv \<Rightarrow> sv rd" where
  "read_sv_fuel 0 s = rd_fail ClosedErr"
| "read_sv_fuel (Suc n) s = rd_bind read_int32 (\<lambda>arg.
     if arg = isc_arg_code Isc_end then rd_return s
     else rd_bind (sv_step arg s) (read_sv_fuel n))"

definition read_sv :: "sv rd" where
  "read_sv = (\<lambda>w. read_sv_fuel (Suc (length (w_in w))) sv_init w)"

fun first_some :: "'a option list \<Rightarrow> 'a option" where
  "first_some [] = None"
| "first_some (None # xs) = first_some xs"
| "first_some (Some x # xs) = Some x"

text \<open>The error of the clusters that are not warnings, if there is one.\<close>

definition sv_result ::
  "(int \<Rightarrow> (string \<times> string option) option) \<Rightarrow> sv \<Rightarrow> err option \<times> status_arg list" where
  "sv_result messages s =
     (case filter (\<lambda>c. \<not> c_warning c) (sv_clusters s) of
        [] \<Rightarrow> (None, sv_args s)
      | c # cs \<Rightarrow>
          (let formatted = map (\<lambda>c. format_gds_message messages (c_code c) (c_params c)) (c # cs);
               lines = map2 (\<lambda>c (text, _). case c_interpreted c of Some t \<Rightarrow> t | None \<Rightarrow> text) (c # cs) formatted;
               state = (case sv_sql_state s of Some t \<Rightarrow> Some t | None \<Rightarrow> first_some (map snd formatted))
           in (Some (FbError FirebirdError (join [newline] lines) (Some (c_code c)) state (sv_args s)), [])))"

definition read_status_vector :: "(err option \<times> status_arg list) rd" where
  "read_status_vector = (\<lambda>w. rd_bind read_sv (\<lambda>s. rd_return (sv_result (w_messages w) s)) w)"

subsection \<open>Responses\<close>

record generic_response =
  gr_handle :: int
  gr_oid :: bytes
  gr_data :: bytes
  gr_warnings :: "status_arg list"

definition parse_response_body :: "generic_response rd" where
  "parse_response_body =
     rd_bind read_int32 (\<lambda>handle.
     rd_bind (read_bytes 8) (\<lambda>oid.
     rd_bind read_opaque (\<lambda>data.
     rd_bind read_status_vector (\<lambda>(error, warnings).
     case error of
       Some e \<Rightarrow> rd_fail e
     | None \<Rightarrow> rd_return \<lparr>gr_handle = handle, gr_oid = oid, gr_data = data, gr_warnings = warnings\<rparr>))))"

definition inline_blob :: "int \<Rightarrow> bytes \<Rightarrow> bytes \<Rightarrow> bytes \<Rightarrow> wire \<Rightarrow> wire" where
  "inline_blob tx bid info data w = w\<lparr>w_inlined := w_inlined w @ [(tx, bid, info, data)]\<rparr>"

text \<open>\<open>readOp\<close>, with the same kind of fuel.\<close>

fun read_op_fuel :: "nat \<Rightarrow> int rd" where
  "read_op_fuel 0 = rd_fail ClosedErr"
| "read_op_fuel (Suc n) = rd_bind read_int32 (\<lambda>op w.
     if op = op_dummy then read_op_fuel n w
     else if op = op_response \<and> 0 < w_deferred w
     then rd_bind parse_response_body (\<lambda>_. read_op_fuel n) (w\<lparr>w_deferred := w_deferred w - 1\<rparr>)
     else if op = op_inline_blob
     then rd_bind read_int32 (\<lambda>tx. rd_bind (read_bytes 8) (\<lambda>bid. rd_bind read_opaque (\<lambda>info.
            rd_bind read_opaque (\<lambda>data. rd_bind (rd_do (inline_blob tx bid info data))
              (\<lambda>_. read_op_fuel n))))) w
     else (Inr op, w))"

definition read_op :: "int rd" where
  "read_op = (\<lambda>w. read_op_fuel (Suc (length (w_in w))) w)"

definition read_response :: "generic_response rd" where
  "read_response = rd_bind read_op (\<lambda>op.
     if op \<noteq> op_response
     then rd_fail (fb_error (''Protocol error: expected op_response(9), got op '' @ dec_int op))
     else parse_response_body)"

subsection \<open>Reads never put bytes back\<close>

definition consumes :: "nat \<Rightarrow> 'a rd \<Rightarrow> bool" where
  "consumes k m = (\<forall>w. case m w of
       (Inr x, w') \<Rightarrow> length (w_in w') + k \<le> length (w_in w)
     | (Inl e, w') \<Rightarrow> length (w_in w') \<le> length (w_in w))"

lemma consumes_Inr: "consumes k m \<Longrightarrow> m w = (Inr x, w') \<Longrightarrow> length (w_in w') + k \<le> length (w_in w)"
  by (auto simp: consumes_def dest: spec [of _ w])

lemma consumes_Inl: "consumes k m \<Longrightarrow> m w = (Inl e, w') \<Longrightarrow> length (w_in w') \<le> length (w_in w)"
  by (auto simp: consumes_def dest: spec [of _ w])

lemma consumes_mono: "consumes k m \<Longrightarrow> j \<le> k \<Longrightarrow> consumes j m"
  by (fastforce simp: consumes_def split: prod.splits sum.splits)

lemma consumes_bind:
  assumes "consumes k m" and "\<And>x. consumes j (f x)"
  shows "consumes (k + j) (rd_bind m f)"
  unfolding consumes_def
proof
  fix w
  show "case rd_bind m f w of (Inr x, w') \<Rightarrow> length (w_in w') + (k + j) \<le> length (w_in w)
     | (Inl e, w') \<Rightarrow> length (w_in w') \<le> length (w_in w)"
  proof (cases "m w")
    case (Pair r w')
    show ?thesis
    proof (cases r)
      case (Inl e)
      with Pair consumes_Inl [OF assms(1), of w e w'] show ?thesis by (simp add: rd_bind_def)
    next
      case (Inr x)
      with Pair consumes_Inr [OF assms(1), of w x w'] have k: "length (w_in w') + k \<le> length (w_in w)"
        by simp
      show ?thesis
        using Pair Inr k consumes_Inr [OF assms(2), of x w'] consumes_Inl [OF assms(2), of x w']
        by (fastforce simp: rd_bind_def split: prod.splits sum.splits)
    qed
  qed
qed

lemma consumes_return [simp]: "consumes 0 (rd_return x)"
  by (simp add: consumes_def)

lemma consumes_fail [simp]: "consumes k (rd_fail e)"
  by (simp add: consumes_def)

lemma consumes_read_bytes: "consumes (nat n) (read_bytes n)"
  by (auto simp: consumes_def read_bytes_def)

lemma consumes_int32: "consumes 4 read_int32"
  unfolding read_int32_def
  using consumes_bind [OF consumes_read_bytes [of 4] consumes_return] by simp

lemma consumes_opaque: "consumes 0 read_opaque"
  unfolding read_opaque_def Let_def
  by (rule consumes_mono [OF consumes_bind [OF consumes_read_bytes [of 4], of 0]])
     (auto intro: consumes_mono [OF consumes_bind [OF consumes_read_bytes, of 0]])

lemma consumes_string: "consumes 0 read_string"
  unfolding read_string_def
  using consumes_bind [OF consumes_opaque consumes_return] by simp

lemma consumes_sv_step: "consumes 0 (sv_step arg s)"
  unfolding sv_step_def
  by (auto intro: consumes_mono [OF consumes_bind [OF consumes_int32, of 0]]
      consumes_mono [OF consumes_bind [OF consumes_string, of 0]])

lemma consumes_sv_fuel: "consumes 0 (read_sv_fuel n s)"
proof (induction n arbitrary: s)
  case (Suc n)
  then show ?case
    by (auto intro!: consumes_mono [OF consumes_bind [OF consumes_int32, of 0]]
        consumes_mono [OF consumes_bind [OF consumes_sv_step, of 0]])
qed simp

lemma consumes_status_vector: "consumes 0 read_status_vector"
  unfolding consumes_def
proof
  fix w :: wire
  have "consumes (0 + 0) (rd_bind (read_sv_fuel (Suc (length (w_in w))) sv_init)
      (\<lambda>s. rd_return (sv_result (w_messages w) s)))"
    by (rule consumes_bind [OF consumes_sv_fuel consumes_return])
  then have "case rd_bind (read_sv_fuel (Suc (length (w_in w))) sv_init)
      (\<lambda>s. rd_return (sv_result (w_messages w) s)) w of
      (Inr x, w') \<Rightarrow> length (w_in w') + 0 \<le> length (w_in w)
    | (Inl e, w') \<Rightarrow> length (w_in w') \<le> length (w_in w)"
    unfolding consumes_def add_0 by (rule spec)
  then show "case read_status_vector w of
      (Inr x, w') \<Rightarrow> length (w_in w') + 0 \<le> length (w_in w)
    | (Inl e, w') \<Rightarrow> length (w_in w') \<le> length (w_in w)"
    unfolding read_status_vector_def read_sv_def rd_bind_def .
qed

lemma consumes_response_body: "consumes 0 parse_response_body"
  unfolding parse_response_body_def
  by (intro consumes_mono [OF consumes_bind [OF consumes_int32, of 0]]
      consumes_mono [OF consumes_bind [OF consumes_read_bytes, of 0]]
      consumes_mono [OF consumes_bind [OF consumes_opaque, of 0]]
      consumes_mono [OF consumes_bind [OF consumes_status_vector, of 0]])
     (auto split: option.splits)

subsection \<open>The fuel is enough\<close>

lemma rd_bind_cong:
  "(\<And>x w'. m w = (Inr x, w') \<Longrightarrow> f x w' = g x w') \<Longrightarrow> rd_bind m f w = rd_bind m g w"
  by (auto simp: rd_bind_def split: prod.splits sum.splits)

lemma read_sv_fuel_enough:
  "length (w_in w) < n \<Longrightarrow> length (w_in w) < k \<Longrightarrow> read_sv_fuel n s w = read_sv_fuel k s w"
proof (induction n arbitrary: k s w)
  case (Suc n)
  then obtain j where k: "k = Suc j" by (cases k) auto
  show ?case
    unfolding k read_sv_fuel.simps
  proof (rule rd_bind_cong)
    fix arg w1
    assume "read_int32 w = (Inr arg, w1)"
    then have w1: "length (w_in w1) + 4 \<le> length (w_in w)"
      using consumes_Inr [OF consumes_int32] by blast
    have "rd_bind (sv_step arg s) (read_sv_fuel n) w1 = rd_bind (sv_step arg s) (read_sv_fuel j) w1"
    proof (rule rd_bind_cong)
      fix s' w2
      assume "sv_step arg s w1 = (Inr s', w2)"
      then have "length (w_in w2) \<le> length (w_in w1)"
        using consumes_Inr [OF consumes_sv_step] by fastforce
      with w1 Suc.prems k show "read_sv_fuel n s' w2 = read_sv_fuel j s' w2"
        by (intro Suc.IH) auto
    qed
    then show "(if arg = isc_arg_code Isc_end then rd_return s
        else rd_bind (sv_step arg s) (read_sv_fuel n)) w1 =
      (if arg = isc_arg_code Isc_end then rd_return s
        else rd_bind (sv_step arg s) (read_sv_fuel j)) w1" by simp
  qed
qed simp

lemma read_sv_unfold:
  "length (w_in w) < n \<Longrightarrow> read_sv_fuel n s w = read_sv_fuel (Suc (length (w_in w))) s w"
  by (rule read_sv_fuel_enough) auto

lemma read_op_fuel_enough:
  "length (w_in w) < n \<Longrightarrow> length (w_in w) < k \<Longrightarrow> read_op_fuel n w = read_op_fuel k w"
proof (induction n arbitrary: k w)
  case (Suc n)
  then obtain j where k: "k = Suc j" by (cases k) auto
  have IH: "length (w_in w') < length (w_in w) \<Longrightarrow> read_op_fuel n w' = read_op_fuel j w'" for w'
    using Suc.prems k by (intro Suc.IH) auto
  show ?case
    unfolding k read_op_fuel.simps
  proof (rule rd_bind_cong)
    fix op w1
    assume "read_int32 w = (Inr op, w1)"
    then have w1: "length (w_in w1) + 4 \<le> length (w_in w)"
      using consumes_Inr [OF consumes_int32] by blast
    have resp: "rd_bind parse_response_body (\<lambda>_. read_op_fuel n) (w1\<lparr>w_deferred := d\<rparr>)
        = rd_bind parse_response_body (\<lambda>_. read_op_fuel j) (w1\<lparr>w_deferred := d\<rparr>)" for d
    proof (rule rd_bind_cong)
      fix r w2
      assume "parse_response_body (w1\<lparr>w_deferred := d\<rparr>) = (Inr r, w2)"
      then have "length (w_in w2) \<le> length (w_in w1)"
        using consumes_Inr [OF consumes_response_body] by fastforce
      with w1 show "read_op_fuel n w2 = read_op_fuel j w2" by (intro IH) auto
    qed
    have inl: "rd_bind read_int32 (\<lambda>tx. rd_bind (read_bytes 8) (\<lambda>bid. rd_bind read_opaque (\<lambda>info.
            rd_bind read_opaque (\<lambda>data. rd_bind (rd_do (inline_blob tx bid info data))
              (\<lambda>_. read_op_fuel n))))) w1
      = rd_bind read_int32 (\<lambda>tx. rd_bind (read_bytes 8) (\<lambda>bid. rd_bind read_opaque (\<lambda>info.
            rd_bind read_opaque (\<lambda>data. rd_bind (rd_do (inline_blob tx bid info data))
              (\<lambda>_. read_op_fuel j))))) w1"
    proof (intro rd_bind_cong)
      fix tx w2 bid w3 info w4 data w5 u w6
      assume a: "read_int32 w1 = (Inr tx, w2)" "read_bytes 8 w2 = (Inr bid, w3)"
        "read_opaque w3 = (Inr info, w4)" "read_opaque w4 = (Inr data, w5)"
        "rd_do (inline_blob tx bid info data) w5 = (Inr u, w6)"
      have "length (w_in w6) \<le> length (w_in w1)"
        using a consumes_Inr [OF consumes_int32, of w1] consumes_Inr [OF consumes_read_bytes, of 8 w2]
          consumes_Inr [OF consumes_opaque, of w3] consumes_Inr [OF consumes_opaque, of w4]
        by (fastforce simp: inline_blob_def)
      with w1 show "read_op_fuel n w6 = read_op_fuel j w6" by (intro IH) auto
    qed
    have "read_op_fuel n w1 = read_op_fuel j w1"
      using w1 by (intro IH) auto
    then show "(if op = op_dummy then read_op_fuel n w1
     else if op = op_response \<and> 0 < w_deferred w1
     then rd_bind parse_response_body (\<lambda>_. read_op_fuel n) (w1\<lparr>w_deferred := w_deferred w1 - 1\<rparr>)
     else if op = op_inline_blob
     then rd_bind read_int32 (\<lambda>tx. rd_bind (read_bytes 8) (\<lambda>bid. rd_bind read_opaque (\<lambda>info.
            rd_bind read_opaque (\<lambda>data. rd_bind (rd_do (inline_blob tx bid info data))
              (\<lambda>_. read_op_fuel n))))) w1
     else (Inr op, w1)) =
     (if op = op_dummy then read_op_fuel j w1
     else if op = op_response \<and> 0 < w_deferred w1
     then rd_bind parse_response_body (\<lambda>_. read_op_fuel j) (w1\<lparr>w_deferred := w_deferred w1 - 1\<rparr>)
     else if op = op_inline_blob
     then rd_bind read_int32 (\<lambda>tx. rd_bind (read_bytes 8) (\<lambda>bid. rd_bind read_opaque (\<lambda>info.
            rd_bind read_opaque (\<lambda>data. rd_bind (rd_do (inline_blob tx bid info data))
              (\<lambda>_. read_op_fuel j))))) w1
     else (Inr op, w1))"
      by (simp only: resp inl)
  qed
qed simp

text \<open>\<open>readOp\<close> as the loop it is: one turn, then the loop again.\<close>

lemma read_op_eq:
  assumes "length (w_in w) < n"
  shows "read_op_fuel n w = read_op w"
  unfolding read_op_def by (rule read_op_fuel_enough) (use assms in auto)

lemma read_op_turn:
  assumes "read_int32 w = (Inr op, w1)" and "length (w_in w1) < length (w_in w)"
  shows "read_op w =
    (if op = op_dummy then read_op w1
     else if op = op_response \<and> 0 < w_deferred w1
     then rd_bind parse_response_body (\<lambda>_. read_op_fuel (length (w_in w))) (w1\<lparr>w_deferred := w_deferred w1 - 1\<rparr>)
     else if op = op_inline_blob
     then rd_bind read_int32 (\<lambda>tx. rd_bind (read_bytes 8) (\<lambda>bid. rd_bind read_opaque (\<lambda>info.
            rd_bind read_opaque (\<lambda>data. rd_bind (rd_do (inline_blob tx bid info data))
              (\<lambda>_. read_op_fuel (length (w_in w))))))) w1
     else (Inr op, w1))"
proof -
  have "read_op w = read_op_fuel (Suc (length (w_in w))) w"
    by (simp only: read_op_def)
  then show ?thesis
    unfolding read_op_fuel.simps rd_bind_Inr [where m = read_int32 and w = w and x = op and w' = w1, OF assms(1)] read_op_eq [OF assms(2)] .
qed

subsection \<open>What a server sends\<close>

datatype wire_arg =
    WGds int
  | WWarning int
  | WString string
  | WInterpreted string
  | WState string
  | WNumber int

fun arg_ok :: "wire_arg \<Rightarrow> bool" where
  "arg_ok (WGds c) = int32_range c"
| "arg_ok (WWarning c) = int32_range c"
| "arg_ok (WNumber n) = int32_range n"
| "arg_ok (WString t) = (length t < 2147483645)"
| "arg_ok (WInterpreted t) = (length t < 2147483645)"
| "arg_ok (WState t) = (length t < 2147483645)"

fun enc_arg :: "wire_arg \<Rightarrow> bytes" where
  "enc_arg (WGds c) = enc_int32 1 @ enc_int32 c"
| "enc_arg (WWarning c) = enc_int32 18 @ enc_int32 c"
| "enc_arg (WString t) = enc_int32 2 @ enc_string t"
| "enc_arg (WInterpreted t) = enc_int32 5 @ enc_string t"
| "enc_arg (WState t) = enc_int32 19 @ enc_string t"
| "enc_arg (WNumber n) = enc_int32 4 @ enc_int32 n"

fun apply_arg :: "wire_arg \<Rightarrow> sv \<Rightarrow> sv" where
  "apply_arg (WGds c) s = sv_gds False c s"
| "apply_arg (WWarning c) s = sv_gds True c s"
| "apply_arg (WString t) s = sv_string t s"
| "apply_arg (WInterpreted t) s = sv_interpreted t s"
| "apply_arg (WState t) s = sv_state t s"
| "apply_arg (WNumber n) s = sv_number n s"

definition enc_status :: "wire_arg list \<Rightarrow> bytes" where
  "enc_status args = concat (map enc_arg args) @ enc_int32 0"

definition status_of :: "(int \<Rightarrow> (string \<times> string option) option) \<Rightarrow> wire_arg list \<Rightarrow> err option \<times> status_arg list" where
  "status_of messages args = sv_result messages (fold apply_arg args sv_init)"

lemma sv_turn:
  assumes "arg_ok a"
  shows "read_sv_fuel (Suc n) s (feed (enc_arg a) w) = read_sv_fuel n (apply_arg a s) w"
  using assms
  by (cases a) (simp_all add: rd_bind_def read_int32_feed_id read_string_feed sv_step_def)

lemma read_sv_fuel_feed:
  "list_all arg_ok args \<Longrightarrow> length args < n \<Longrightarrow>
     read_sv_fuel n s (feed (enc_status args) w) = (Inr (fold apply_arg args s), w)"
proof (induction args arbitrary: n s)
  case Nil
  then show ?case
    by (cases n) (simp_all add: enc_status_def rd_bind_def read_int32_feed_id)
next
  case (Cons a args)
  then obtain m where "n = Suc m" by (cases n) auto
  with Cons show ?case
    by (simp add: enc_status_def sv_turn del: read_sv_fuel.simps)
qed

lemma length_enc_arg: "4 \<le> length (enc_arg a)"
  by (cases a) simp_all

lemma length_enc_args: "length args \<le> length (concat (map enc_arg args))"
proof (induction args)
  case (Cons a args)
  then show ?case using length_enc_arg [of a] by simp
qed simp

lemma read_status_vector_feed:
  assumes "list_all arg_ok args"
  shows "read_status_vector (feed (enc_status args) w) = (Inr (status_of (w_messages w) args), w)"
proof -
  have "read_sv (feed (enc_status args) w) = (Inr (fold apply_arg args sv_init), w)"
    unfolding read_sv_def
    by (rule read_sv_fuel_feed [OF assms])
       (use length_enc_args [of args] in \<open>simp add: enc_status_def\<close>)
  then show ?thesis
    by (simp add: read_status_vector_def rd_bind_def status_of_def)
qed

text \<open>A response: handle, object id, data and status vector.\<close>

record response =
  r_handle :: int
  r_oid :: bytes
  r_data :: bytes
  r_status :: "wire_arg list"

definition response_ok :: "response \<Rightarrow> bool" where
  "response_ok r = (int32_range (r_handle r) \<and> length (r_oid r) = 8
     \<and> length (r_data r) < 2147483645 \<and> list_all arg_ok (r_status r))"

definition enc_body :: "response \<Rightarrow> bytes" where
  "enc_body r = enc_int32 (r_handle r) @ r_oid r @ enc_opaque (r_data r) @ enc_status (r_status r)"

definition enc_response :: "response \<Rightarrow> bytes" where
  "enc_response r = enc_int32 9 @ enc_body r"

definition body_result :: "(int \<Rightarrow> (string \<times> string option) option) \<Rightarrow> response \<Rightarrow> generic_response res" where
  "body_result messages r =
     (case status_of messages (r_status r) of
        (Some e, _) \<Rightarrow> Inl e
      | (None, ws) \<Rightarrow> Inr \<lparr>gr_handle = r_handle r, gr_oid = r_oid r, gr_data = r_data r, gr_warnings = ws\<rparr>)"

lemma parse_response_body_feed:
  assumes "response_ok r"
  shows "parse_response_body (feed (enc_body r) w) = (body_result (w_messages w) r, w)"
  using assms
  by (auto simp: parse_response_body_def enc_body_def response_ok_def rd_bind_def body_result_def
      read_int32_feed_id read_bytes_feed read_opaque_feed read_status_vector_feed
      split: option.splits prod.splits)

text \<open>What may come before the operation a read waits for.\<close>

datatype noise =
    NDummy
  | NInline int bytes bytes bytes
  | NDeferred response

fun noise_ok :: "noise \<Rightarrow> bool" where
  "noise_ok NDummy = True"
| "noise_ok (NInline tx bid info data) = (int32_range tx \<and> length bid = 8
     \<and> length info < 2147483645 \<and> length data < 2147483645)"
| "noise_ok (NDeferred r) = response_ok r"

fun enc_noise :: "noise \<Rightarrow> bytes" where
  "enc_noise NDummy = enc_int32 71"
| "enc_noise (NInline tx bid info data) =
     enc_int32 114 @ enc_int32 tx @ bid @ enc_opaque info @ enc_opaque data"
| "enc_noise (NDeferred r) = enc_response r"

fun noise_deferred :: "noise list \<Rightarrow> nat" where
  "noise_deferred [] = 0"
| "noise_deferred (NDeferred r # ns) = Suc (noise_deferred ns)"
| "noise_deferred (_ # ns) = noise_deferred ns"

fun noise_inlined :: "noise list \<Rightarrow> (int \<times> bytes \<times> bytes \<times> bytes) list" where
  "noise_inlined [] = []"
| "noise_inlined (NInline tx bid info data # ns) = (tx, bid, info, data) # noise_inlined ns"
| "noise_inlined (_ # ns) = noise_inlined ns"

text \<open>A deferred response without an error.\<close>

fun noise_clean :: "(int \<Rightarrow> (string \<times> string option) option) \<Rightarrow> noise \<Rightarrow> bool" where
  "noise_clean messages (NDeferred r) = (fst (status_of messages (r_status r)) = None)"
| "noise_clean messages _ = True"

lemma read_op_dummy: "read_op (feed (enc_int32 71) w) = read_op w"
  by (subst read_op_turn [OF read_int32_feed_id]) simp_all

lemma read_op_other:
  "int32_range op \<Longrightarrow> op \<noteq> 71 \<Longrightarrow> op \<noteq> 114 \<Longrightarrow> op \<noteq> 9 \<or> w_deferred w = 0 \<Longrightarrow>
     read_op (feed (enc_int32 op) w) = (Inr op, w)"
  by (subst read_op_turn [OF read_int32_feed_id]) auto

lemma read_op_inline:
  assumes "noise_ok (NInline tx bid info data)"
  shows "read_op (feed (enc_noise (NInline tx bid info data)) w) = read_op (inline_blob tx bid info data w)"
proof -
  let ?w = "feed (enc_noise (NInline tx bid info data)) w"
  have "length (w_in w) < length (w_in ?w)" by simp
  then have "read_op_fuel (length (w_in ?w)) (inline_blob tx bid info data w)
      = read_op (inline_blob tx bid info data w)"
    by (intro read_op_eq) (simp add: inline_blob_def)
  with assms show ?thesis
    by (subst read_op_turn [where op = 114 and ?w1.0 = "feed (enc_int32 tx @ bid @ enc_opaque info @ enc_opaque data) w"])
       (simp_all add: rd_bind_def read_int32_feed_id read_bytes_feed read_opaque_feed)
qed

lemma read_op_deferred:
  assumes "response_ok r" and "0 < w_deferred w"
  shows "read_op (feed (enc_response r) w) =
    (case body_result (w_messages w) r of
       Inl e \<Rightarrow> (Inl e, w\<lparr>w_deferred := w_deferred w - 1\<rparr>)
     | Inr _ \<Rightarrow> read_op (w\<lparr>w_deferred := w_deferred w - 1\<rparr>))"
proof -
  let ?w = "feed (enc_response r) w" and ?w' = "w\<lparr>w_deferred := w_deferred w - 1\<rparr>"
  have "length (w_in ?w') < length (w_in ?w)"
    by (simp add: enc_response_def)
  then have eq: "read_op_fuel (length (w_in ?w)) ?w' = read_op ?w'"
    by (rule read_op_eq)
  have body: "parse_response_body (feed (enc_body r) ?w') = (body_result (w_messages w) r, ?w')"
    using parse_response_body_feed [OF assms(1), of ?w'] by simp
  have "read_op ?w = rd_bind parse_response_body (\<lambda>_. read_op_fuel (length (w_in ?w)))
      ((feed (enc_body r) w)\<lparr>w_deferred := w_deferred (feed (enc_body r) w) - 1\<rparr>)"
    by (subst read_op_turn [where op = 9 and ?w1.0 = "feed (enc_body r) w"])
       (use assms(2) in \<open>simp_all add: enc_response_def read_int32_feed_id\<close>)
  also have "(feed (enc_body r) w)\<lparr>w_deferred := w_deferred (feed (enc_body r) w) - 1\<rparr> = feed (enc_body r) ?w'"
    by (simp add: feed_updates)
  also have "rd_bind parse_response_body (\<lambda>_. read_op_fuel (length (w_in ?w))) (feed (enc_body r) ?w')
      = (case body_result (w_messages w) r of Inl e \<Rightarrow> (Inl e, ?w') | Inr _ \<Rightarrow> read_op ?w')"
    unfolding rd_bind_def body prod.case eq by (cases "body_result (w_messages w) r") simp_all
  finally show ?thesis .
qed

lemma noise_clean_result: "noise_clean m (NDeferred r) \<Longrightarrow> \<exists>x. body_result m r = Inr x"
  by (auto simp: body_result_def split: prod.splits)

lemma read_op_skips:
  assumes "list_all noise_ok ns" and "list_all (noise_clean (w_messages w)) ns"
    and "noise_deferred ns \<le> w_deferred w"
  shows "read_op (feed (concat (map enc_noise ns)) w)
    = read_op (w\<lparr>w_deferred := w_deferred w - noise_deferred ns, w_inlined := w_inlined w @ noise_inlined ns\<rparr>)"
  using assms
proof (induction ns arbitrary: w)
  case (Cons n ns)
  show ?case
  proof (cases n)
    case NDummy
    with Cons show ?thesis by (simp add: read_op_dummy)
  next
    case (NInline tx bid info data)
    let ?w = "inline_blob tx bid info data (feed (concat (map enc_noise ns)) w)"
    have w: "?w = feed (concat (map enc_noise ns)) (inline_blob tx bid info data w)"
      by (simp add: inline_blob_def feed_def)
    have "read_op (feed (concat (map enc_noise (n # ns))) w) = read_op ?w"
      using NInline Cons.prems(1) read_op_inline [of tx bid info data] by simp
    with Cons.IH [of "inline_blob tx bid info data w"] Cons.prems NInline w show ?thesis
      by (simp add: inline_blob_def feed_updates)
  next
    case (NDeferred r)
    then obtain x where "body_result (w_messages w) r = Inr x"
      using Cons.prems(2) noise_clean_result by fastforce
    then have "read_op (feed (concat (map enc_noise (n # ns))) w)
        = read_op (feed (concat (map enc_noise ns)) (w\<lparr>w_deferred := w_deferred w - 1\<rparr>))"
      using NDeferred Cons.prems(1,3) read_op_deferred [of r "feed (concat (map enc_noise ns)) w"]
      by (simp add: feed_updates)
    with Cons.IH [of "w\<lparr>w_deferred := w_deferred w - 1\<rparr>"] Cons.prems NDeferred show ?thesis
      by simp
  qed
qed simp

lemma read_response_feed:
  assumes "response_ok r" and "w_deferred w = 0"
  shows "read_response (feed (enc_response r) w) = (body_result (w_messages w) r, w)"
  using assms read_op_other [of 9 "feed (enc_body r) w"]
  by (simp add: read_response_def enc_response_def rd_bind_def parse_response_body_feed)

subsection \<open>A request and its response\<close>

text \<open>
  The code's usual exchange: a message written, the writer flushed, the response
  awaited.
\<close>

definition send :: "bytes \<Rightarrow> wire \<Rightarrow> wire" where
  "send msg w = flush (put msg w)"

definition request :: "bytes \<Rightarrow> generic_response rd" where
  "request msg = rd_bind (rd_do (send msg)) (\<lambda>_. read_response)"

lemma send_fields [simp]:
  "w_in (send m w) = w_in w" "w_out (send m w) = []" "w_deferred (send m w) = w_deferred w"
  "w_version (send m w) = w_version w" "w_inline_size (send m w) = w_inline_size w"
  "w_inlined (send m w) = w_inlined w" "w_messages (send m w) = w_messages w"
  by (simp_all add: send_def)

lemma send_feed [simp]: "send m (feed d w) = feed d (send m w)"
  by (simp add: send_def flush_def put_def feed_def)

lemma put_feed [simp]: "put m (feed d w) = feed d (put m w)"
  by (simp add: put_def feed_def)

lemma send_sent: "m \<noteq> [] \<Longrightarrow> w_sent (send m w) = w_sent w @ [w_out w @ m]"
  by (simp add: send_def flush_def)

lemma send_flush_count: "m \<noteq> [] \<Longrightarrow> w_flush_count (send m w) = Suc (w_flush_count w)"
  by (simp add: send_def flush_def)

text \<open>The peer's side: what precedes the response, and the state a client is left in.\<close>

definition noise_fits :: "noise list \<Rightarrow> wire \<Rightarrow> bool" where
  "noise_fits ns w = (list_all noise_ok ns \<and> list_all (noise_clean (w_messages w)) ns
     \<and> noise_deferred ns = w_deferred w)"

definition settled :: "noise list \<Rightarrow> wire \<Rightarrow> wire" where
  "settled ns w = w\<lparr>w_deferred := 0, w_inlined := w_inlined w @ noise_inlined ns\<rparr>"

definition reply :: "noise list \<Rightarrow> response \<Rightarrow> bytes" where
  "reply ns r = concat (map enc_noise ns) @ enc_response r"

lemma settled_fields [simp]:
  "w_in (settled ns w) = w_in w" "w_out (settled ns w) = w_out w" "w_deferred (settled ns w) = 0"
  "w_sent (settled ns w) = w_sent w" "w_flush_count (settled ns w) = w_flush_count w"
  "w_version (settled ns w) = w_version w" "w_inline_size (settled ns w) = w_inline_size w"
  "w_messages (settled ns w) = w_messages w"
  by (simp_all add: settled_def)

lemma noise_fits_send [simp]: "noise_fits ns (send m w) = noise_fits ns w"
  by (simp add: noise_fits_def)

lemma noise_fits_put [simp]: "noise_fits ns (put m w) = noise_fits ns w"
  by (simp add: noise_fits_def)

lemma read_op_settles:
  "noise_fits ns w \<Longrightarrow> read_op (feed (concat (map enc_noise ns)) w) = read_op (settled ns w)"
  using read_op_skips [of ns w] by (simp add: noise_fits_def settled_def)

lemma settled_feed: "settled ns (feed d w) = feed d (settled ns w)"
  by (simp add: settled_def feed_updates)

lemma noise_fits_feed [simp]: "noise_fits ns (feed d w) = noise_fits ns w"
  by (simp add: noise_fits_def)

lemma read_response_reply:
  assumes "noise_fits ns w" and "response_ok r"
  shows "read_response (feed (reply ns r) w) = (body_result (w_messages w) r, settled ns w)"
proof -
  have "read_response (feed (reply ns r) w) = read_response (feed (enc_response r) (settled ns w))"
    using read_op_settles [of ns "feed (enc_response r) w"] assms(1)
    by (simp add: read_response_def rd_bind_def reply_def settled_feed)
  then show ?thesis
    using read_response_feed [OF assms(2), of "settled ns w"] by simp
qed

lemma request_reply:
  assumes "noise_fits ns w" and "response_ok r"
  shows "request m (feed (reply ns r) w) = (body_result (w_messages w) r, settled ns (send m w))"
  using read_response_reply [of ns "send m w" r] assms
  by (simp add: request_def rd_bind_def)

subsection \<open>Properties\<close>

text \<open>
  C1. A response is found behind whatever the server sends before it: after any mix of
  keep-alives, inline blobs and error-free deferred responses (all those that are
  pending), \<open>readResponse\<close> hands the inline blobs over in order, counts the deferred
  responses down to zero, returns the response's handle, object id, data and warnings,
  or the error of its status vector, and leaves the stream exactly behind the response.
\<close>

theorem read_response_in_sync:
  assumes "list_all noise_ok ns" and "list_all (noise_clean (w_messages w)) ns"
    and "noise_deferred ns = w_deferred w" and "response_ok r"
  shows "read_response (feed (concat (map enc_noise ns) @ enc_response r) w)
    = (body_result (w_messages w) r, w\<lparr>w_deferred := 0, w_inlined := w_inlined w @ noise_inlined ns\<rparr>)"
proof -
  let ?w = "feed (enc_response r) w" and ?w' = "w\<lparr>w_deferred := 0, w_inlined := w_inlined w @ noise_inlined ns\<rparr>"
  have "read_op (feed (concat (map enc_noise ns)) ?w) = read_op (feed (enc_response r) ?w')"
    using read_op_skips [of ns ?w] assms by (simp add: feed_updates)
  then show ?thesis
    using read_response_feed [OF assms(4), of ?w'] by (simp add: read_response_def rd_bind_def)
qed

theorem read_response_in_sync_witness:
  "read_response (feed (concat (map enc_noise
        [NDummy, NDeferred \<lparr>r_handle = 0, r_oid = replicate 8 0, r_data = [], r_status = [WGds 0]\<rparr>,
         NInline 3 (replicate 8 1) [] [7, 7]])
      @ enc_response \<lparr>r_handle = 5, r_oid = replicate 8 0, r_data = [1], r_status = [WGds 0]\<rparr>)
    \<lparr>w_in = [], w_out = [], w_sent = [], w_flush_count = 0, w_deferred = 1, w_version = 13,
     w_inline_size = 0, w_inlined = [], w_messages = (\<lambda>_. None)\<rparr>)
   = (body_result (\<lambda>_. None) \<lparr>r_handle = 5, r_oid = replicate 8 0, r_data = [1], r_status = [WGds 0]\<rparr>,
    \<lparr>w_in = [], w_out = [], w_sent = [], w_flush_count = 0, w_deferred = 0, w_version = 13,
     w_inline_size = 0, w_inlined = [(3, replicate 8 1, [], [7, 7])], w_messages = (\<lambda>_. None)\<rparr>)"
  using read_response_in_sync [where r = "\<lparr>r_handle = 5, r_oid = replicate 8 0, r_data = [1], r_status = [WGds 0]\<rparr>"
    and ns = "[NDummy, NDeferred \<lparr>r_handle = 0, r_oid = replicate 8 0, r_data = [], r_status = [WGds 0]\<rparr>,
         NInline 3 (replicate 8 1) [] [7, 7]]"
    and w = "\<lparr>w_in = [], w_out = [], w_sent = [], w_flush_count = 0, w_deferred = 1, w_version = 13,
     w_inline_size = 0, w_inlined = [], w_messages = (\<lambda>_. None)\<rparr>"]
  by (simp add: response_ok_def status_of_def sv_result_def sv_init_def sv_gds_def)

text \<open>
  C2. A deferred response that carries an error is not dropped: its error is thrown to
  whoever reads next, and the response that reader waits for stays unread on the
  stream.
\<close>

theorem deferred_error_surfaces:
  assumes "0 < w_deferred w" and "response_ok d"
    and "status_of (w_messages w) (r_status d) = (Some e, ws)"
  shows "read_response (feed (enc_response d @ enc_response r) w)
    = (Inl e, feed (enc_response r) (w\<lparr>w_deferred := w_deferred w - 1\<rparr>))"
  using assms read_op_deferred [OF assms(2), of "feed (enc_response r) w"]
  by (simp add: read_response_def rd_bind_def body_result_def feed_updates)

theorem deferred_error_surfaces_witness:
  "read_response (feed
      (enc_response \<lparr>r_handle = 0, r_oid = replicate 8 0, r_data = [], r_status = [WGds 7]\<rparr>
       @ enc_response \<lparr>r_handle = 5, r_oid = replicate 8 0, r_data = [1], r_status = [WGds 0]\<rparr>)
    \<lparr>w_in = [], w_out = [], w_sent = [], w_flush_count = 0, w_deferred = 1, w_version = 13,
     w_inline_size = 0, w_inlined = [], w_messages = (\<lambda>_. None)\<rparr>)
   = (Inl (FbError FirebirdError ''Firebird error 7'' (Some 7) None [ArgGds 7]),
      feed (enc_response \<lparr>r_handle = 5, r_oid = replicate 8 0, r_data = [1], r_status = [WGds 0]\<rparr>)
    \<lparr>w_in = [], w_out = [], w_sent = [], w_flush_count = 0, w_deferred = 0, w_version = 13,
     w_inline_size = 0, w_inlined = [], w_messages = (\<lambda>_. None)\<rparr>)"
proof -
  have dec: "dec_int 7 = ''7''"
    by (simp add: dec_int_def dec_nat.simps digit_char_def) code_simp
  show ?thesis
    using deferred_error_surfaces [where d = "\<lparr>r_handle = 0, r_oid = replicate 8 0, r_data = [], r_status = [WGds 7]\<rparr>"
      and r = "\<lparr>r_handle = 5, r_oid = replicate 8 0, r_data = [1], r_status = [WGds 0]\<rparr>"
      and w = "\<lparr>w_in = [], w_out = [], w_sent = [], w_flush_count = 0, w_deferred = 1, w_version = 13,
     w_inline_size = 0, w_inlined = [], w_messages = (\<lambda>_. None)\<rparr>"
      and e = "FbError FirebirdError ''Firebird error 7'' (Some 7) None [ArgGds 7]"
      and ws = "[]"]
    by (simp add: response_ok_def status_of_def sv_result_def sv_init_def sv_gds_def
        format_gds_message_def dec)
qed

end
