(* ===== verification/Tx_Proto.thy ===== *)
theory Tx_Proto
  imports Response Param_Buffer
begin

text \<open>
  \<open>protocol/transaction.ts\<close>: transaction options, the transaction parameter buffer,
  and the start, commit and rollback messages.
\<close>

subsection \<open>Options\<close>

datatype isolation_level = Snapshot | Serializable | ReadCommitted | ReadCommittedNoRecVersion

text \<open>\<open>wait\<close> is \<open>false\<close>, \<open>true\<close> or a number of seconds.\<close>

datatype wait_option = WaitFalse | WaitTrue | WaitSeconds int

record transaction_options =
  to_isolation :: "isolation_level option"
  to_read_only :: "bool option"
  to_wait :: "wait_option option"
  to_auto_commit :: "bool option"
  to_auto_upgrade :: "bool option"

definition no_options :: transaction_options where
  "no_options = \<lparr>to_isolation = None, to_read_only = None, to_wait = None,
     to_auto_commit = None, to_auto_upgrade = None\<rparr>"

definition DEFAULT_LOCK_TIMEOUT_SECONDS :: int where
  "DEFAULT_LOCK_TIMEOUT_SECONDS = 10"

definition over :: "'a option \<Rightarrow> 'a option \<Rightarrow> 'a option" where
  "over d v = (case v of Some x \<Rightarrow> Some x | None \<Rightarrow> d)"

definition merge_transaction_options ::
  "transaction_options \<Rightarrow> transaction_options option \<Rightarrow> transaction_options" where
  "merge_transaction_options d overrides = (case overrides of None \<Rightarrow> d | Some v \<Rightarrow>
     \<lparr>to_isolation = over (to_isolation d) (to_isolation v),
      to_read_only = over (to_read_only d) (to_read_only v),
      to_wait = over (to_wait d) (to_wait v),
      to_auto_commit = over (to_auto_commit d) (to_auto_commit v),
      to_auto_upgrade = over (to_auto_upgrade d) (to_auto_upgrade v)\<rparr>)"

subsection \<open>The parameter buffer\<close>

definition build_tpb :: "transaction_options \<Rightarrow> bytes" where
  "build_tpb opts =
     (let pb = pb_new (Some (tpb_code Tpb_version3));
          isolation = (case to_isolation opts of None \<Rightarrow> Snapshot | Some i \<Rightarrow> i);
          pb = (case isolation of
              Snapshot \<Rightarrow> pb_tag (tpb_code Tpb_concurrency) pb
            | Serializable \<Rightarrow> pb_tag (tpb_code Tpb_consistency) pb
            | ReadCommitted \<Rightarrow>
                pb_tag (tpb_code Tpb_rec_version) (pb_tag (tpb_code Tpb_read_committed) pb)
            | ReadCommittedNoRecVersion \<Rightarrow>
                pb_tag (tpb_code Tpb_no_rec_version) (pb_tag (tpb_code Tpb_read_committed) pb));
          pb = pb_tag (if to_read_only opts = Some True then tpb_code Tpb_read else tpb_code Tpb_write) pb;
          wait = (case to_wait opts of None \<Rightarrow> WaitSeconds DEFAULT_LOCK_TIMEOUT_SECONDS | Some v \<Rightarrow> v);
          pb = (case wait of
              WaitFalse \<Rightarrow> pb_tag (tpb_code Tpb_nowait) pb
            | WaitTrue \<Rightarrow> pb_tag (tpb_code Tpb_wait) pb
            | WaitSeconds n \<Rightarrow>
                pb_int32 (tpb_code Tpb_lock_timeout) n (pb_tag (tpb_code Tpb_wait) pb));
          pb = (if to_auto_commit opts = Some True then pb_tag (tpb_code Tpb_autocommit) pb else pb)
      in pb_to_buffer pb)"

subsection \<open>The buffer as the server reads it\<close>

text \<open>
  The specification side: a version byte, then tags of which only the lock time-out
  carries data. \<open>tpb_reading\<close> is what a server makes of such a buffer.
\<close>

record tpb_reading =
  tr_isolation :: isolation_level
  tr_read_only :: bool
  tr_waits :: bool
  tr_timeout :: "int option"
  tr_auto_commit :: bool

definition tpb_start :: tpb_reading where
  "tpb_start = \<lparr>tr_isolation = Snapshot, tr_read_only = False, tr_waits = True, tr_timeout = None,
     tr_auto_commit = False\<rparr>"

fun tpb_items :: "bytes \<Rightarrow> tpb_reading \<Rightarrow> tpb_reading option" where
  "tpb_items [] t = Some t"
| "tpb_items (b # bs) t =
     (let v = uint b in
      if v = 1 then tpb_items bs (t\<lparr>tr_isolation := Serializable\<rparr>)
      else if v = 2 then tpb_items bs (t\<lparr>tr_isolation := Snapshot\<rparr>)
      else if v = 15 then tpb_items bs (t\<lparr>tr_isolation := ReadCommittedNoRecVersion\<rparr>)
      else if v = 17 then tpb_items bs (t\<lparr>tr_isolation := ReadCommitted\<rparr>)
      else if v = 18 then tpb_items bs (t\<lparr>tr_isolation := ReadCommittedNoRecVersion\<rparr>)
      else if v = 8 then tpb_items bs (t\<lparr>tr_read_only := True\<rparr>)
      else if v = 9 then tpb_items bs (t\<lparr>tr_read_only := False\<rparr>)
      else if v = 6 then tpb_items bs (t\<lparr>tr_waits := True\<rparr>)
      else if v = 7 then tpb_items bs (t\<lparr>tr_waits := False\<rparr>)
      else if v = 16 then tpb_items bs (t\<lparr>tr_auto_commit := True\<rparr>)
      else if v = 21 then
        (case bs of
           n # d0 # d1 # d2 # d3 # rest \<Rightarrow>
             if n = 4 then tpb_items rest (t\<lparr>tr_timeout := Some (to_int32 (le_val [d0, d1, d2, d3]))\<rparr>)
             else None
         | _ \<Rightarrow> None)
      else None)"

definition parse_tpb :: "bytes \<Rightarrow> tpb_reading option" where
  "parse_tpb bs = (case bs of v # rest \<Rightarrow> if v = 3 then tpb_items rest tpb_start else None | [] \<Rightarrow> None)"

definition requested :: "transaction_options \<Rightarrow> tpb_reading" where
  "requested opts =
     \<lparr>tr_isolation = (case to_isolation opts of None \<Rightarrow> Snapshot | Some i \<Rightarrow> i),
      tr_read_only = (to_read_only opts = Some True),
      tr_waits = (to_wait opts \<noteq> Some WaitFalse),
      tr_timeout = (case to_wait opts of None \<Rightarrow> Some 10 | Some (WaitSeconds n) \<Rightarrow> Some (to_int32 n)
        | Some WaitTrue \<Rightarrow> None | Some WaitFalse \<Rightarrow> None),
      tr_auto_commit = (to_auto_commit opts = Some True)\<rparr>"

lemma le_parts_val:
  "le_val (map word_of_int (le_parts (to_int32 v))) = to_uint32 v"
proof -
  have "map word_of_int (le_parts v) = (le_bytes 4 v :: bytes)" for v
    by (simp add: le_parts_def numeral_eq_Suc word_uint_eq_iff uint_byte_of_int div_mult2_eq [symmetric] zdiv_zmult2_eq [symmetric])
  then show ?thesis
    by (simp add: le_val_le_bytes to_uint32_def [symmetric])
qed

text \<open>The four groups of tags, and what the server makes of each.\<close>

definition iso_tags :: "isolation_level \<Rightarrow> int list" where
  "iso_tags i = (case i of Snapshot \<Rightarrow> [2] | Serializable \<Rightarrow> [1] | ReadCommitted \<Rightarrow> [15, 17]
     | ReadCommittedNoRecVersion \<Rightarrow> [15, 18])"

definition wait_tags :: "wait_option \<Rightarrow> int list" where
  "wait_tags v = (case v of WaitFalse \<Rightarrow> [7] | WaitTrue \<Rightarrow> [6]
     | WaitSeconds n \<Rightarrow> [6, 21, 4] @ le_parts (to_int32 n))"

lemma build_tpb_tags:
  "build_tpb opts = map word_of_int ([3]
     @ iso_tags (case to_isolation opts of None \<Rightarrow> Snapshot | Some i \<Rightarrow> i)
     @ [if to_read_only opts = Some True then 8 else 9]
     @ wait_tags (case to_wait opts of None \<Rightarrow> WaitSeconds 10 | Some v \<Rightarrow> v)
     @ (if to_auto_commit opts = Some True then [16] else []))"
  unfolding build_tpb_def Let_def pb_to_buffer_def DEFAULT_LOCK_TIMEOUT_SECONDS_def
  by (simp add: iso_tags_def wait_tags_def pb_new_def pb_tag_def pb_int32_def
      split: isolation_level.split wait_option.split option.split)

lemma tpb_iso:
  "tpb_items (map word_of_int (iso_tags i) @ bs) t = tpb_items bs (t\<lparr>tr_isolation := i\<rparr>)"
  by (simp add: iso_tags_def split: isolation_level.split)

lemma tpb_timeout:
  "tpb_items (map word_of_int ([21, 4] @ le_parts (to_int32 n)) @ bs) t
     = tpb_items bs (t\<lparr>tr_timeout := Some (to_int32 n)\<rparr>)"
proof -
  obtain a b c d where abcd: "map word_of_int (le_parts (to_int32 n)) = [a, b, c, d :: byte]"
    unfolding le_parts_def list.map by blast
  have "le_val [a, b, c, d] = to_uint32 n"
    using le_parts_val [of n] by (simp only: abcd)
  then show ?thesis
    by (simp add: abcd del: le_val.simps)
qed

lemma tpb_wait:
  assumes "tr_waits t" and "tr_timeout t = None"
  shows "tpb_items (map word_of_int (wait_tags v) @ bs) t
     = tpb_items bs (t\<lparr>tr_waits := (v \<noteq> WaitFalse),
         tr_timeout := (case v of WaitSeconds n \<Rightarrow> Some (to_int32 n) | _ \<Rightarrow> None)\<rparr>)"
proof (cases v)
  case (WaitSeconds n)
  have "tpb_items (map word_of_int (wait_tags v) @ bs) t
      = tpb_items (map word_of_int ([21, 4] @ le_parts (to_int32 n)) @ bs) (t\<lparr>tr_waits := True\<rparr>)"
    by (simp add: WaitSeconds wait_tags_def)
  then show ?thesis
    by (simp only: tpb_timeout) (simp add: WaitSeconds)
qed (use assms in \<open>cases t; simp add: wait_tags_def\<close>)+

lemmas tpb_groups = tpb_iso tpb_wait tpb_wait [where bs = "[]", simplified]

subsection \<open>Messages\<close>

definition start_transaction :: "int \<Rightarrow> transaction_options option \<Rightarrow> int rd" where
  "start_transaction db opts =
     rd_bind (request (enc_int32 op_transaction @ enc_int32 db
         @ enc_opaque (build_tpb (case opts of None \<Rightarrow> no_options | Some v \<Rightarrow> v))))
       (\<lambda>r. rd_return (gr_handle r))"

definition commit_transaction :: "int \<Rightarrow> bool \<Rightarrow> unit rd" where
  "commit_transaction tx retain =
     rd_bind (request (enc_int32 (if retain then op_commit_retaining else op_commit) @ enc_int32 tx))
       (\<lambda>_. rd_return ())"

definition rollback_transaction :: "int \<Rightarrow> bool \<Rightarrow> unit rd" where
  "rollback_transaction tx retain =
     rd_bind (request (enc_int32 (if retain then op_rollback_retaining else op_rollback) @ enc_int32 tx))
       (\<lambda>_. rd_return ())"

lemma start_transaction_exchange:
  assumes "noise_fits ns w" and "response_ok r" and "body_result (w_messages w) r = Inr g"
  shows "start_transaction db opts (feed (reply ns r) w) = (Inr (gr_handle g),
    settled ns (send (enc_int32 op_transaction @ enc_int32 db
      @ enc_opaque (build_tpb (case opts of None \<Rightarrow> no_options | Some v \<Rightarrow> v))) w))"
  using assms by (simp add: start_transaction_def rd_bind_def request_reply)

lemma commit_transaction_exchange:
  assumes "noise_fits ns w" and "response_ok r" and "body_result (w_messages w) r = Inr g"
  shows "commit_transaction tx retain (feed (reply ns r) w) = (Inr (),
    settled ns (send (enc_int32 (if retain then op_commit_retaining else op_commit) @ enc_int32 tx) w))"
  using assms by (simp add: commit_transaction_def rd_bind_def request_reply)

lemma rollback_transaction_exchange:
  assumes "noise_fits ns w" and "response_ok r" and "body_result (w_messages w) r = Inr g"
  shows "rollback_transaction tx retain (feed (reply ns r) w) = (Inr (),
    settled ns (send (enc_int32 (if retain then op_rollback_retaining else op_rollback) @ enc_int32 tx) w))"
  using assms by (simp add: rollback_transaction_def rd_bind_def request_reply)

text \<open>Merging is the pointwise override: later options win, and merging associates.\<close>

lemma over_None [simp]: "over None v = v" "over d None = d"
  by (simp_all add: over_def split: option.split)

lemma over_assoc: "over (over a b) c = over a (over b c)"
  by (simp add: over_def split: option.split)

lemma merge_no_options [simp]: "merge_transaction_options d (Some no_options) = d"
  by (simp add: merge_transaction_options_def no_options_def)

lemma merge_assoc:
  "merge_transaction_options (merge_transaction_options a (Some b)) (Some c)
     = merge_transaction_options a (Some (merge_transaction_options b (Some c)))"
  by (simp add: merge_transaction_options_def over_assoc)

subsection \<open>Properties\<close>

text \<open>
  A server that reads the transaction parameter buffer finds exactly what the
  options ask for: the isolation level (snapshot when unset), read-only only on
  request, no wait only for \<open>wait: false\<close>, an unbounded wait only for
  \<open>wait: true\<close>, the given number of seconds (modulo \<open>2 ^ 32\<close>) otherwise and ten when
  nothing is said, and auto-commit only on request.
\<close>

theorem tpb_says_what_is_asked: "parse_tpb (build_tpb opts) = Some (requested opts)"
proof -
  have parts: "parse_tpb (build_tpb opts) = tpb_items
        (if to_auto_commit opts = Some True then [16] else [])
      (tpb_start\<lparr>tr_isolation := (case to_isolation opts of None \<Rightarrow> Snapshot | Some i \<Rightarrow> i),
        tr_read_only := (to_read_only opts = Some True),
        tr_waits := ((case to_wait opts of None \<Rightarrow> WaitSeconds 10 | Some v \<Rightarrow> v) \<noteq> WaitFalse),
        tr_timeout := (case (case to_wait opts of None \<Rightarrow> WaitSeconds 10 | Some v \<Rightarrow> v) of
          WaitSeconds n \<Rightarrow> Some (to_int32 n) | _ \<Rightarrow> None)\<rparr>)"
    by (simp add: build_tpb_tags parse_tpb_def tpb_groups tpb_start_def)
  then show ?thesis
    by (simp add: requested_def tpb_start_def split: option.splits wait_option.splits)
qed

end
