(* ===== verification/Info.thy ===== *)
theory Info
  imports Constants Errors
begin

text \<open>
  \<open>protocol/info.ts\<close>: the reader of info-response clumplets, the statement
  description of a prepare, and the record counts of an execute. The specification
  side is the encoding a server sends; parsing it gives the description back.
\<close>

subsection \<open>The clumplet reader\<close>

record clumplet_reader =
  cr_buf :: bytes
  cr_pos :: nat

definition cr_new :: "bytes \<Rightarrow> clumplet_reader" where
  "cr_new buf = \<lparr>cr_buf = buf, cr_pos = 0\<rparr>"

definition cr_done :: "clumplet_reader \<Rightarrow> bool" where
  "cr_done r = (length (cr_buf r) \<le> cr_pos r
     \<or> uint (cr_buf r ! cr_pos r) = sql_info_code Info_end)"

definition cr_peek_item :: "clumplet_reader \<Rightarrow> int option" where
  "cr_peek_item r = map_option uint (at (cr_buf r) (cr_pos r))"

definition cr_skip :: "nat \<Rightarrow> clumplet_reader \<Rightarrow> clumplet_reader" where
  "cr_skip n r = r\<lparr>cr_pos := cr_pos r + n\<rparr>"

definition cr_next_item :: "clumplet_reader \<Rightarrow> int option \<times> clumplet_reader" where
  "cr_next_item r = (cr_peek_item r, cr_skip 1 r)"

text \<open>A little-endian read of \<open>n\<close> bytes at the position; out of range it throws.\<close>

definition cr_le :: "nat \<Rightarrow> clumplet_reader \<Rightarrow> int res" where
  "cr_le n r = (if cr_pos r + n \<le> length (cr_buf r)
     then Inr (le_val (js_slice (cr_pos r) (cr_pos r + n) (cr_buf r))) else Inl RangeErr)"

definition cr_read_int :: "clumplet_reader \<Rightarrow> (int \<times> clumplet_reader) res" where
  "cr_read_int r =
     rthen (cr_le 2 r) (\<lambda>len.
       let r2 = cr_skip 2 r in
       if len = 0 then Inr (0, r2)
       else if len = 1 then rthen (cr_le 1 r2) (\<lambda>v. Inr (signed_val 1 v, cr_skip 1 r2))
       else if len = 2 then rthen (cr_le 2 r2) (\<lambda>v. Inr (signed_val 2 v, cr_skip 2 r2))
       else if len = 4 then rthen (cr_le 4 r2) (\<lambda>v. Inr (signed_val 4 v, cr_skip 4 r2))
       else Inl (protocol_error (''Unexpected info integer length '' @ dec_int len)))"

definition cr_read_string :: "clumplet_reader \<Rightarrow> (string \<times> clumplet_reader) res" where
  "cr_read_string r =
     rthen (cr_le 2 r) (\<lambda>len.
       let p = cr_pos r + 2 in
       Inr (bytes_str (js_slice p (p + nat len) (cr_buf r)), cr_skip (2 + nat len) r))"

definition cr_skip_cluster :: "clumplet_reader \<Rightarrow> clumplet_reader res" where
  "cr_skip_cluster r = rthen (cr_le 2 r) (\<lambda>len. Inr (cr_skip (2 + nat len) r))"

text \<open>No read moves backwards, and the buffer never changes.\<close>

definition cr_forward :: "clumplet_reader \<Rightarrow> clumplet_reader \<Rightarrow> bool" where
  "cr_forward r r' = (cr_buf r' = cr_buf r \<and> cr_pos r \<le> cr_pos r')"

lemma cr_skip_fields [simp]: "cr_buf (cr_skip n r) = cr_buf r" "cr_pos (cr_skip n r) = cr_pos r + n"
  by (simp_all add: cr_skip_def)

lemma cr_skip_skip [simp]: "cr_skip m (cr_skip n r) = cr_skip (n + m) r"
  by (simp add: cr_skip_def add_ac)

lemma cr_forward_refl [simp]: "cr_forward r r"
  by (simp add: cr_forward_def)

lemma cr_forward_skip [simp]: "cr_forward r (cr_skip n r)"
  by (simp add: cr_forward_def)

lemma cr_forward_trans: "cr_forward a b \<Longrightarrow> cr_forward b c \<Longrightarrow> cr_forward a c"
  by (auto simp: cr_forward_def)

lemma cr_read_int_forward: "cr_read_int r = Inr (v, r') \<Longrightarrow> cr_forward r r'"
  by (auto simp: cr_read_int_def Let_def rthen_eq_Inr split: if_splits)

lemma cr_read_string_forward: "cr_read_string r = Inr (v, r') \<Longrightarrow> cr_forward r r'"
  by (auto simp: cr_read_string_def Let_def rthen_eq_Inr)

lemma cr_skip_cluster_forward: "cr_skip_cluster r = Inr r' \<Longrightarrow> cr_forward r r'"
  by (auto simp: cr_skip_cluster_def rthen_eq_Inr)

subsection \<open>Statement descriptions\<close>

record sql_var_desc =
  v_type :: int
  v_nullable :: bool
  v_sub_type :: int
  v_scale :: int
  v_length :: int
  v_field :: "string option"
  v_relation :: "string option"
  v_owner :: "string option"
  v_alias :: "string option"
  v_relation_alias :: "string option"

text \<open>
  An array may have holes when the server skips a sequence number; \<open>None\<close> is a hole.
\<close>

record statement_description =
  d_stmt_type :: int
  d_inputs :: "sql_var_desc option list"
  d_outputs :: "sql_var_desc option list"

definition new_var :: sql_var_desc where
  "new_var = \<lparr>v_type = 0, v_nullable = False, v_sub_type = 0, v_scale = 0, v_length = 0,
     v_field = None, v_relation = None, v_owner = None, v_alias = None, v_relation_alias = None\<rparr>"

text \<open>
  \<open>vars\<close> points at one of the two arrays; \<open>current\<close> is \<open>null\<close>, the object at an
  index of an array, or an object of a negative index, which is no element.
\<close>

datatype side = Outputs | Inputs

datatype current = NoVar | VarAt side nat | Detached

record describe_state =
  ds_desc :: statement_description
  ds_vars :: side
  ds_current :: current

definition set_at :: "nat \<Rightarrow> 'a \<Rightarrow> 'a option list \<Rightarrow> 'a option list" where
  "set_at i x xs = (if i < length xs then xs[i := Some x]
     else xs @ replicate (i - length xs) None @ [Some x])"

definition upd_at :: "nat \<Rightarrow> ('a \<Rightarrow> 'a) \<Rightarrow> 'a option list \<Rightarrow> 'a option list" where
  "upd_at i f xs = (if i < length xs then xs[i := map_option f (xs ! i)] else xs)"

definition on_side :: "side \<Rightarrow> (sql_var_desc option list \<Rightarrow> sql_var_desc option list)
    \<Rightarrow> statement_description \<Rightarrow> statement_description" where
  "on_side s f d = (case s of
     Outputs \<Rightarrow> d\<lparr>d_outputs := f (d_outputs d)\<rparr> | Inputs \<Rightarrow> d\<lparr>d_inputs := f (d_inputs d)\<rparr>)"

definition ds_begin_var :: "int \<Rightarrow> describe_state \<Rightarrow> describe_state" where
  "ds_begin_var sn s =
     (if sn < 1 then s\<lparr>ds_current := Detached\<rparr>
      else s\<lparr>ds_desc := on_side (ds_vars s) (set_at (nat (sn - 1)) new_var) (ds_desc s),
             ds_current := VarAt (ds_vars s) (nat (sn - 1))\<rparr>)"

text \<open>\<open>current!.f = v\<close>, which throws on \<open>null\<close>.\<close>

definition ds_set :: "(sql_var_desc \<Rightarrow> sql_var_desc) \<Rightarrow> describe_state \<Rightarrow> describe_state res" where
  "ds_set f s = (case ds_current s of
     NoVar \<Rightarrow> Inl TypeErr
   | Detached \<Rightarrow> Inr s
   | VarAt sd i \<Rightarrow> Inr (s\<lparr>ds_desc := on_side sd (upd_at i f) (ds_desc s)\<rparr>))"

definition set_int :: "clumplet_reader \<Rightarrow> describe_state \<Rightarrow> (int \<Rightarrow> sql_var_desc \<Rightarrow> sql_var_desc)
    \<Rightarrow> (clumplet_reader \<times> describe_state) res" where
  "set_int r s f = rthen (cr_read_int r) (\<lambda>(v, r'). rthen (ds_set (f v) s) (\<lambda>s'. Inr (r', s')))"

definition set_str :: "clumplet_reader \<Rightarrow> describe_state \<Rightarrow> (string \<Rightarrow> sql_var_desc \<Rightarrow> sql_var_desc)
    \<Rightarrow> (clumplet_reader \<times> describe_state) res" where
  "set_str r s f = rthen (cr_read_string r) (\<lambda>(v, r'). rthen (ds_set (f v) s) (\<lambda>s'. Inr (r', s')))"

text \<open>
  The body of the \<open>switch\<close>; \<open>None\<close> is the defensive stop at an unknown item.
\<close>

definition describe_item ::
  "int \<Rightarrow> clumplet_reader \<Rightarrow> describe_state \<Rightarrow> (clumplet_reader \<times> describe_state) option res" where
  "describe_item item r s =
     (if item = sql_info_code Info_stmt_type then
        rthen (cr_read_int r) (\<lambda>(v, r'). Inr (Some (r', s\<lparr>ds_desc := (ds_desc s)\<lparr>d_stmt_type := v\<rparr>\<rparr>)))
      else if item = sql_info_code Info_select then Inr (Some (r, s\<lparr>ds_vars := Outputs\<rparr>))
      else if item = sql_info_code Info_bind then Inr (Some (r, s\<lparr>ds_vars := Inputs\<rparr>))
      else if item = sql_info_code Info_describe_vars then rthen (cr_read_int r) (\<lambda>(v, r'). Inr (Some (r', s)))
      else if item = sql_info_code Info_describe_end then Inr (Some (r, s\<lparr>ds_current := NoVar\<rparr>))
      else if item = sql_info_code Info_sqlda_seq then
        rthen (cr_read_int r) (\<lambda>(v, r'). Inr (Some (r', ds_begin_var v s)))
      else if item = sql_info_code Info_type then
        rthen (set_int r s (\<lambda>t v. v\<lparr>v_type := t - t mod 2, v_nullable := (t mod 2 = 1)\<rparr>)) (\<lambda>p. Inr (Some p))
      else if item = sql_info_code Info_sub_type then
        rthen (set_int r s (\<lambda>t v. v\<lparr>v_sub_type := t\<rparr>)) (\<lambda>p. Inr (Some p))
      else if item = sql_info_code Info_scale then
        rthen (set_int r s (\<lambda>t v. v\<lparr>v_scale := t\<rparr>)) (\<lambda>p. Inr (Some p))
      else if item = sql_info_code Info_length then
        rthen (set_int r s (\<lambda>t v. v\<lparr>v_length := t\<rparr>)) (\<lambda>p. Inr (Some p))
      else if item = sql_info_code Info_null_ind then
        rthen (set_int r s (\<lambda>t v. v\<lparr>v_nullable := (t \<noteq> 0)\<rparr>)) (\<lambda>p. Inr (Some p))
      else if item = sql_info_code Info_field then
        rthen (set_str r s (\<lambda>t v. v\<lparr>v_field := Some t\<rparr>)) (\<lambda>p. Inr (Some p))
      else if item = sql_info_code Info_relation then
        rthen (set_str r s (\<lambda>t v. v\<lparr>v_relation := Some t\<rparr>)) (\<lambda>p. Inr (Some p))
      else if item = sql_info_code Info_relation_alias then
        rthen (set_str r s (\<lambda>t v. v\<lparr>v_relation_alias := Some t\<rparr>)) (\<lambda>p. Inr (Some p))
      else if item = sql_info_code Info_owner then
        rthen (set_str r s (\<lambda>t v. v\<lparr>v_owner := Some t\<rparr>)) (\<lambda>p. Inr (Some p))
      else if item = sql_info_code Info_alias then
        rthen (set_str r s (\<lambda>t v. v\<lparr>v_alias := Some t\<rparr>)) (\<lambda>p. Inr (Some p))
      else if item = sql_info_code Info_truncated then
        Inl (protocol_error ''Statement describe info truncated (too many columns)'')
      else Inr None)"

lemma set_int_forward: "set_int r s f = Inr (r', s') \<Longrightarrow> cr_forward r r'"
  by (auto simp: set_int_def rthen_eq_Inr split: prod.splits dest: cr_read_int_forward)

lemma set_str_forward: "set_str r s f = Inr (r', s') \<Longrightarrow> cr_forward r r'"
  by (auto simp: set_str_def rthen_eq_Inr split: prod.splits dest: cr_read_string_forward)

lemma describe_item_forward: "describe_item item r s = Inr (Some (r', s')) \<Longrightarrow> cr_forward r r'"
  unfolding describe_item_def
  by (auto simp: rthen_eq_Inr split: if_splits prod.splits
      dest: cr_read_int_forward set_int_forward set_str_forward)

text \<open>The loop ends: every turn takes an item byte and no read goes back.\<close>

function describe_loop :: "clumplet_reader \<Rightarrow> describe_state \<Rightarrow> statement_description res" where
  "describe_loop r s =
     (if cr_done r then Inr (ds_desc s)
      else case cr_next_item r of
        (None, r1) \<Rightarrow> Inr (ds_desc s)
      | (Some item, r1) \<Rightarrow>
          (case describe_item item r1 s of
             Inl e \<Rightarrow> Inl e
           | Inr None \<Rightarrow> Inr (ds_desc s)
           | Inr (Some (r2, s2)) \<Rightarrow> describe_loop r2 s2))"
  by pat_completeness auto
termination
proof (relation "measure (\<lambda>(r, s). length (cr_buf r) - cr_pos r)", goal_cases)
  case (2 r s x y x2 b x2a xa ya)
  then have "cr_pos r < length (cr_buf r)" "cr_forward (cr_skip 1 r) xa"
    by (auto simp: cr_done_def cr_next_item_def dest: describe_item_forward)
  then show ?case
    by (auto simp: cr_forward_def)
qed simp

declare describe_loop.simps [simp del]

definition parse_describe :: "bytes \<Rightarrow> statement_description res" where
  "parse_describe buf = describe_loop (cr_new buf)
     \<lparr>ds_desc = \<lparr>d_stmt_type = 0, d_inputs = [], d_outputs = []\<rparr>, ds_vars = Outputs, ds_current = NoVar\<rparr>"

subsection \<open>Record counts\<close>

record record_counts =
  rc_selected :: int
  rc_inserted :: int
  rc_updated :: int
  rc_deleted :: int

definition no_counts :: record_counts where
  "no_counts = \<lparr>rc_selected = 0, rc_inserted = 0, rc_updated = 0, rc_deleted = 0\<rparr>"

definition set_count :: "int \<Rightarrow> int \<Rightarrow> record_counts \<Rightarrow> record_counts" where
  "set_count sub v c =
     (if sub = 13 then c\<lparr>rc_selected := v\<rparr>
      else if sub = 14 then c\<lparr>rc_inserted := v\<rparr>
      else if sub = 15 then c\<lparr>rc_updated := v\<rparr>
      else if sub = 16 then c\<lparr>rc_deleted := v\<rparr>
      else c)"

text \<open>The inner loop, up to \<open>stop\<close>; past the end of the buffer the read throws.\<close>

function counts_loop :: "nat \<Rightarrow> clumplet_reader \<Rightarrow> record_counts \<Rightarrow> record_counts res" where
  "counts_loop stop r c =
     (if cr_pos r < stop \<and> cr_peek_item r \<noteq> Some (sql_info_code Info_end) then
        (case cr_next_item r of (sub, r1) \<Rightarrow>
           (case cr_read_int r1 of
              Inl e \<Rightarrow> Inl e
            | Inr (v, r2) \<Rightarrow>
                counts_loop stop r2 (case sub of None \<Rightarrow> c | Some k \<Rightarrow> set_count k v c)))
      else Inr c)"
  by pat_completeness auto
termination
proof (relation "measure (\<lambda>(stop, r, c). stop - cr_pos r)", goal_cases)
  case (2 stop r c x y b v r2)
  then have "cr_forward (cr_skip 1 r) r2"
    by (auto simp: cr_next_item_def dest: cr_read_int_forward)
  with 2 show ?case by (auto simp: cr_forward_def)
qed simp

declare counts_loop.simps [simp del]

function records_loop :: "clumplet_reader \<Rightarrow> record_counts res" where
  "records_loop r =
     (if cr_done r then Inr no_counts
      else case cr_next_item r of (item, r1) \<Rightarrow>
        (if item \<noteq> Some (sql_info_code Info_records) then
           (case cr_skip_cluster r1 of Inl e \<Rightarrow> Inl e | Inr r2 \<Rightarrow> records_loop r2)
         else rthen (cr_le 2 r1) (\<lambda>len.
           let r2 = cr_skip 2 r1 in counts_loop (cr_pos r2 + nat len) r2 no_counts)))"
  by pat_completeness auto
termination
proof (relation "measure (\<lambda>r. length (cr_buf r) - cr_pos r)", goal_cases)
  case (2 r x y r2)
  then have "cr_pos r < length (cr_buf r)" "cr_forward (cr_skip 1 r) r2"
    by (auto simp: cr_done_def cr_next_item_def dest: cr_skip_cluster_forward)
  then show ?case by (auto simp: cr_forward_def)
qed simp

declare records_loop.simps [simp del]

definition parse_record_counts :: "bytes \<Rightarrow> record_counts res" where
  "parse_record_counts buf = records_loop (cr_new buf)"

subsection \<open>Reading what a server wrote\<close>

definition cr_rest :: "clumplet_reader \<Rightarrow> bytes" where
  "cr_rest r = drop (cr_pos r) (cr_buf r)"

lemma cr_rest_new [simp]: "cr_rest (cr_new buf) = buf"
  by (simp add: cr_rest_def cr_new_def)

lemma cr_rest_skip [simp]: "cr_rest (cr_skip n r) = drop n (cr_rest r)"
  by (simp add: cr_rest_def add.commute)

lemma cr_rest_Cons: "cr_rest r = b # bs \<Longrightarrow> cr_pos r < length (cr_buf r) \<and> cr_buf r ! cr_pos r = b"
proof -
  assume r: "cr_rest r = b # bs"
  then have "cr_pos r < length (cr_buf r)"
    unfolding cr_rest_def by (metis drop_all linorder_not_less list.distinct(1))
  with r show ?thesis
    unfolding cr_rest_def by (simp add: Cons_nth_drop_Suc [symmetric])
qed

lemma cr_rest_Nil: "cr_rest r = [] \<longleftrightarrow> length (cr_buf r) \<le> cr_pos r"
  by (simp add: cr_rest_def)

lemma cr_done_rest: "cr_done r = (case cr_rest r of [] \<Rightarrow> True | b # _ \<Rightarrow> uint b = 1)"
proof (cases "cr_rest r")
  case Nil
  then have "length (cr_buf r) \<le> cr_pos r" by (simp add: cr_rest_Nil)
  with Nil show ?thesis by (simp add: cr_done_def)
next
  case (Cons b bs)
  with cr_rest_Cons [OF Cons] show ?thesis by (simp add: cr_done_def)
qed

lemma cr_next_rest: "cr_rest r = b # bs \<Longrightarrow> cr_next_item r = (Some (uint b), cr_skip 1 r)"
  using cr_rest_Cons [of r b bs] by (simp add: cr_next_item_def cr_peek_item_def at_def)

lemma cr_le_rest: "0 < n \<Longrightarrow> cr_rest r = d @ bs \<Longrightarrow> length d = n \<Longrightarrow> cr_le n r = Inr (le_val d)"
proof -
  assume n: "0 < n" and r: "cr_rest r = d @ bs" and d: "length d = n"
  from r have "length (cr_buf r) - cr_pos r = n + length bs"
    using d by (metis cr_rest_def length_append length_drop)
  with n have "cr_pos r + n \<le> length (cr_buf r)" by simp
  moreover have "js_slice (cr_pos r) (cr_pos r + n) (cr_buf r) = take n (cr_rest r)"
    by (simp add: js_slice_def cr_rest_def take_drop add.commute)
  ultimately show ?thesis
    using r d by (simp add: cr_le_def)
qed

definition enc_info_int :: "int \<Rightarrow> int \<Rightarrow> bytes" where
  "enc_info_int item v = word_of_int item # le_bytes 2 4 @ le_bytes 4 v"

definition enc_info_str :: "int \<Rightarrow> string \<Rightarrow> bytes" where
  "enc_info_str item s = word_of_int item # le_bytes 2 (int (length s)) @ str_bytes s"

lemma signed_int32: "int32_range v \<Longrightarrow> signed_val 4 (v mod 4294967296) = v"
  using signed_val_mod [of 4 v] by simp

lemma cr_read_int_rest:
  assumes "cr_rest r = le_bytes 2 4 @ le_bytes 4 v @ bs" and "int32_range v"
  shows "cr_read_int r = Inr (v, cr_skip 6 r)"
proof -
  have "cr_le 2 r = Inr 4"
    using cr_le_rest [OF _ assms(1)] by (simp add: le_val_le_bytes del: le_bytes.simps le_val.simps)
  moreover have "cr_rest (cr_skip 2 r) = le_bytes 4 v @ bs"
    by (simp add: assms(1) del: le_bytes.simps)
  then have "cr_le 4 (cr_skip 2 r) = Inr (le_val (le_bytes 4 v))"
    by (intro cr_le_rest length_le_bytes) simp_all
  ultimately show ?thesis
    using signed_int32 [OF assms(2)]
    by (simp add: cr_read_int_def Let_def le_val_le_bytes del: le_bytes.simps le_val.simps)
qed

lemma cr_read_string_rest:
  assumes "cr_rest r = le_bytes 2 (int (length s)) @ str_bytes s @ bs" and "length s < 65536"
  shows "cr_read_string r = Inr (s, cr_skip (2 + length s) r)"
proof -
  have "cr_le 2 r = Inr (int (length s))"
    using cr_le_rest [OF _ assms(1)] assms(2)
    by (simp add: le_val_le_bytes del: le_bytes.simps le_val.simps)
  moreover have "js_slice (cr_pos r + 2) (cr_pos r + 2 + length s) (cr_buf r)
      = take (length s) (cr_rest (cr_skip 2 r))"
    by (simp add: js_slice_def cr_rest_def take_drop ac_simps)
  moreover have "cr_rest (cr_skip 2 r) = str_bytes s @ bs"
    by (simp add: assms(1) del: le_bytes.simps)
  ultimately show ?thesis
    by (simp add: cr_read_string_def Let_def)
qed

text \<open>
  \<open>describes bs s s'\<close>: over the bytes \<open>bs\<close> the loop takes state \<open>s\<close> to \<open>s'\<close>, whatever
  follows.
\<close>

definition describes :: "bytes \<Rightarrow> describe_state \<Rightarrow> describe_state \<Rightarrow> bool" where
  "describes bs s s' = (\<forall>r rest. cr_rest r = bs @ rest \<longrightarrow>
     (\<exists>r'. cr_rest r' = rest \<and> describe_loop r s = describe_loop r' s'))"

lemma describes_Nil [simp]: "describes [] s s"
  by (auto simp: describes_def)

lemma describes_append: "describes a s s1 \<Longrightarrow> describes b s1 s2 \<Longrightarrow> describes (a @ b) s s2"
  unfolding describes_def by (metis append_assoc)

lemma describe_loop_turn:
  assumes "cr_rest r = b # bs" and "uint b \<noteq> 1"
    and "describe_item (uint b) (cr_skip 1 r) s = Inr (Some (r', s'))"
  shows "describe_loop r s = describe_loop r' s'"
  using assms cr_next_rest [OF assms(1)]
  by (subst describe_loop.simps) (simp add: cr_done_rest)

lemma describes_bare:
  assumes "uint b \<noteq> 1" and "\<And>r. describe_item (uint b) r s = Inr (Some (r, s'))"
  shows "describes [b] s s'"
  unfolding describes_def
proof (intro allI impI)
  fix r rest
  assume r: "cr_rest r = [b] @ rest"
  then have "describe_loop r s = describe_loop (cr_skip 1 r) s'"
    using assms by (intro describe_loop_turn [of r b rest]) simp_all
  with r show "\<exists>r'. cr_rest r' = rest \<and> describe_loop r s = describe_loop r' s'"
    by (intro exI [of _ "cr_skip 1 r"]) simp
qed

lemma describes_int:
  assumes item: "0 \<le> item" "item < 256" "item \<noteq> 1" and v: "int32_range v"
    and step: "\<And>r. describe_item item r s = rthen (cr_read_int r) (\<lambda>(x, r'). g x r')"
    and res: "\<And>r'. g v r' = Inr (Some (r', s'))"
  shows "describes (enc_info_int item v) s s'"
  unfolding describes_def
proof (intro allI impI)
  fix r rest
  assume r: "cr_rest r = enc_info_int item v @ rest"
  have u: "uint (word_of_int item :: byte) = item"
    using item by (simp add: uint_byte_of_int)
  have "cr_rest (cr_skip 1 r) = le_bytes 2 4 @ le_bytes 4 v @ rest"
    using r by (simp add: enc_info_int_def del: le_bytes.simps)
  then have "cr_read_int (cr_skip 1 r) = Inr (v, cr_skip 6 (cr_skip 1 r))"
    using v by (rule cr_read_int_rest)
  then have "describe_loop r s = describe_loop (cr_skip 7 r) s'"
    using r item u
    by (intro describe_loop_turn) (auto simp: enc_info_int_def step res)
  with r show "\<exists>r'. cr_rest r' = rest \<and> describe_loop r s = describe_loop r' s'"
    by (intro exI [of _ "cr_skip 7 r"]) (simp add: enc_info_int_def)
qed

lemma describes_str:
  assumes item: "0 \<le> item" "item < 256" "item \<noteq> 1" and v: "length v < 65536"
    and step: "\<And>r. describe_item item r s = rthen (cr_read_string r) (\<lambda>(x, r'). g x r')"
    and res: "\<And>r'. g v r' = Inr (Some (r', s'))"
  shows "describes (enc_info_str item v) s s'"
  unfolding describes_def
proof (intro allI impI)
  fix r rest
  assume r: "cr_rest r = enc_info_str item v @ rest"
  have u: "uint (word_of_int item :: byte) = item"
    using item by (simp add: uint_byte_of_int)
  have "cr_rest (cr_skip 1 r) = le_bytes 2 (int (length v)) @ str_bytes v @ rest"
    using r by (simp add: enc_info_str_def del: le_bytes.simps)
  then have "cr_read_string (cr_skip 1 r) = Inr (v, cr_skip (2 + length v) (cr_skip 1 r))"
    using v by (rule cr_read_string_rest)
  then have "describe_loop r s = describe_loop (cr_skip (3 + length v) r) s'"
    using r item u
    by (intro describe_loop_turn) (auto simp: enc_info_str_def step res)
  with r show "\<exists>r'. cr_rest r' = rest \<and> describe_loop r s = describe_loop r' s'"
    by (intro exI [of _ "cr_skip (3 + length v) r"]) (simp add: enc_info_str_def numeral_3_eq_3)
qed

text \<open>A variable being described is the last element of its side.\<close>

definition with_side :: "side \<Rightarrow> sql_var_desc option list \<Rightarrow> statement_description \<Rightarrow> statement_description" where
  "with_side sd xs d = on_side sd (\<lambda>_. xs) d"

definition var_state :: "side \<Rightarrow> statement_description \<Rightarrow> sql_var_desc option list \<Rightarrow> current \<Rightarrow> describe_state" where
  "var_state sd d xs c = \<lparr>ds_desc = with_side sd xs d, ds_vars = sd, ds_current = c\<rparr>"

definition open_var :: "side \<Rightarrow> statement_description \<Rightarrow> sql_var_desc option list \<Rightarrow> sql_var_desc \<Rightarrow> describe_state" where
  "open_var sd d xs v = var_state sd d (xs @ [Some v]) (VarAt sd (length xs))"

lemma on_side_with [simp]: "on_side sd f (with_side sd xs d) = with_side sd (f xs) d"
  by (cases sd) (simp_all add: on_side_def with_side_def)

lemma ds_set_open: "ds_set f (open_var sd d xs v) = Inr (open_var sd d xs (f v))"
  by (simp add: ds_set_def open_var_def var_state_def upd_at_def)

lemma ds_begin_open: "ds_begin_var (int (length xs) + 1) (var_state sd d xs c) = open_var sd d xs new_var"
  by (simp add: ds_begin_var_def var_state_def open_var_def set_at_def)

definition opt_info_str :: "int \<Rightarrow> string option \<Rightarrow> bytes" where
  "opt_info_str item t = (case t of None \<Rightarrow> [] | Some s \<Rightarrow> enc_info_str item s)"

definition enc_var :: "nat \<Rightarrow> sql_var_desc \<Rightarrow> bytes" where
  "enc_var i v =
     enc_info_int 9 (int i + 1)
     @ enc_info_int 11 (v_type v + of_bool (v_nullable v))
     @ enc_info_int 12 (v_sub_type v)
     @ enc_info_int 13 (v_scale v)
     @ enc_info_int 14 (v_length v)
     @ opt_info_str 16 (v_field v)
     @ opt_info_str 17 (v_relation v)
     @ opt_info_str 25 (v_relation_alias v)
     @ opt_info_str 18 (v_owner v)
     @ opt_info_str 19 (v_alias v)
     @ [8]"

definition short_text :: "string option \<Rightarrow> bool" where
  "short_text t = (case t of None \<Rightarrow> True | Some s \<Rightarrow> length s < 65536)"

definition var_ok :: "sql_var_desc \<Rightarrow> bool" where
  "var_ok v = (even (v_type v) \<and> - 2147483648 \<le> v_type v \<and> v_type v < 2147483647
     \<and> int32_range (v_sub_type v) \<and> int32_range (v_scale v) \<and> int32_range (v_length v)
     \<and> list_all short_text [v_field v, v_relation v, v_relation_alias v, v_owner v, v_alias v])"

lemma describes_opt_str:
  assumes "0 \<le> item" "item < 256" "item \<noteq> 1" and "short_text t"
    and "\<And>r s. describe_item item r s = rthen (set_str r s (\<lambda>t. f (Some t))) (\<lambda>p. Inr (Some p))"
    and "t = None \<Longrightarrow> f None v = v"
  shows "describes (opt_info_str item t) (open_var sd d xs v) (open_var sd d xs (f t v))"
proof (cases t)
  case None
  with assms(6) show ?thesis by (simp add: opt_info_str_def)
next
  case (Some s)
  have "describes (enc_info_str item s) (open_var sd d xs v) (open_var sd d xs (f (Some s) v))"
    by (rule describes_str [OF assms(1-3), where g = "\<lambda>t r'. rthen (ds_set (f (Some t)) (open_var sd d xs v))
          (\<lambda>s'. Inr (Some (r', s')))"])
       (use assms(4,5) Some in \<open>auto simp: short_text_def set_str_def rthen_def ds_set_open split: sum.split prod.split\<close>)
  with Some show ?thesis by (simp add: opt_info_str_def)
qed

lemma describes_set_int:
  assumes "0 \<le> item" "item < 256" "item \<noteq> 1" and "int32_range x"
    and "\<And>r s. describe_item item r s = rthen (set_int r s f) (\<lambda>p. Inr (Some p))"
  shows "describes (enc_info_int item x) (open_var sd d xs v) (open_var sd d xs (f x v))"
  by (rule describes_int [OF assms(1-4), where g = "\<lambda>t r'. rthen (ds_set (f t) (open_var sd d xs v))
          (\<lambda>s'. Inr (Some (r', s')))"])
     (auto simp: assms(5) set_int_def rthen_def ds_set_open split: sum.split prod.split)

lemma describe_items:
  "describe_item 11 r s = rthen (set_int r s (\<lambda>t v. v\<lparr>v_type := t - t mod 2, v_nullable := (t mod 2 = 1)\<rparr>)) (\<lambda>p. Inr (Some p))"
  "describe_item 12 r s = rthen (set_int r s (\<lambda>t v. v\<lparr>v_sub_type := t\<rparr>)) (\<lambda>p. Inr (Some p))"
  "describe_item 13 r s = rthen (set_int r s (\<lambda>t v. v\<lparr>v_scale := t\<rparr>)) (\<lambda>p. Inr (Some p))"
  "describe_item 14 r s = rthen (set_int r s (\<lambda>t v. v\<lparr>v_length := t\<rparr>)) (\<lambda>p. Inr (Some p))"
  "describe_item 16 r s = rthen (set_str r s (\<lambda>t v. v\<lparr>v_field := Some t\<rparr>)) (\<lambda>p. Inr (Some p))"
  "describe_item 17 r s = rthen (set_str r s (\<lambda>t v. v\<lparr>v_relation := Some t\<rparr>)) (\<lambda>p. Inr (Some p))"
  "describe_item 25 r s = rthen (set_str r s (\<lambda>t v. v\<lparr>v_relation_alias := Some t\<rparr>)) (\<lambda>p. Inr (Some p))"
  "describe_item 18 r s = rthen (set_str r s (\<lambda>t v. v\<lparr>v_owner := Some t\<rparr>)) (\<lambda>p. Inr (Some p))"
  "describe_item 19 r s = rthen (set_str r s (\<lambda>t v. v\<lparr>v_alias := Some t\<rparr>)) (\<lambda>p. Inr (Some p))"
  "describe_item 9 r s = rthen (cr_read_int r) (\<lambda>(v, r'). Inr (Some (r', ds_begin_var v s)))"
  "describe_item 7 r s = rthen (cr_read_int r) (\<lambda>(v, r'). Inr (Some (r', s)))"
  "describe_item 21 r s = rthen (cr_read_int r) (\<lambda>(v, r'). Inr (Some (r', s\<lparr>ds_desc := (ds_desc s)\<lparr>d_stmt_type := v\<rparr>\<rparr>)))"
  "describe_item 8 r s = Inr (Some (r, s\<lparr>ds_current := NoVar\<rparr>))"
  "describe_item 4 r s = Inr (Some (r, s\<lparr>ds_vars := Outputs\<rparr>))"
  "describe_item 5 r s = Inr (Some (r, s\<lparr>ds_vars := Inputs\<rparr>))"
  by (simp_all add: describe_item_def)

lemma describes_begin:
  assumes "length xs < 2147483647"
  shows "describes (enc_info_int 9 (int (length xs) + 1)) (var_state sd d xs c) (open_var sd d xs new_var)"
  by (rule describes_int [where g = "\<lambda>x r'. Inr (Some (r', ds_begin_var x (var_state sd d xs c)))"])
     (use assms in \<open>auto simp: describe_items ds_begin_open\<close>)

lemma describes_type:
  assumes "var_ok u"
  shows "describes (enc_info_int 11 (v_type u + of_bool (v_nullable u))) (open_var sd d xs v)
    (open_var sd d xs (v\<lparr>v_type := v_type u, v_nullable := v_nullable u\<rparr>))"
proof -
  have "v_type u mod 2 = 0" using assms by (auto simp: var_ok_def elim!: evenE)
  then have "(v_type u + of_bool (v_nullable u)) mod 2 = of_bool (v_nullable u)"
    by (simp add: mod_add_left_eq [symmetric])
  then show ?thesis
    using describes_set_int [where item = 11 and x = "v_type u + of_bool (v_nullable u)" and v = v and sd = sd and d = d and xs = xs, OF _ _ _ _ describe_items(1)]
      assms by (auto simp: var_ok_def split: if_splits)
qed

lemma describes_end:
  "describes [8] (open_var sd d xs v) (var_state sd d (xs @ [Some v]) NoVar)"
  by (rule describes_bare) (simp_all add: describe_items open_var_def var_state_def)

lemma describes_var:
  assumes "var_ok v" and "length xs < 2147483647"
  shows "describes (enc_var (length xs) v) (var_state sd d xs c) (var_state sd d (xs @ [Some v]) NoVar)"
proof -
  note int = describes_set_int [where sd = sd and d = d and xs = xs]
  note str = describes_opt_str [where sd = sd and d = d and xs = xs]
  have ok: "int32_range (v_sub_type v)" "int32_range (v_scale v)" "int32_range (v_length v)"
    "short_text (v_field v)" "short_text (v_relation v)" "short_text (v_relation_alias v)"
    "short_text (v_owner v)" "short_text (v_alias v)"
    using assms(1) by (simp_all add: var_ok_def)
  let ?v2 = "new_var\<lparr>v_type := v_type v, v_nullable := v_nullable v\<rparr>"
  let ?v3 = "?v2\<lparr>v_sub_type := v_sub_type v\<rparr>" let ?v4 = "?v3\<lparr>v_scale := v_scale v\<rparr>"
  let ?v5 = "?v4\<lparr>v_length := v_length v\<rparr>" let ?v6 = "?v5\<lparr>v_field := v_field v\<rparr>"
  let ?v7 = "?v6\<lparr>v_relation := v_relation v\<rparr>" let ?v8 = "?v7\<lparr>v_relation_alias := v_relation_alias v\<rparr>"
  let ?v9 = "?v8\<lparr>v_owner := v_owner v\<rparr>"
  have s3: "describes (enc_info_int 12 (v_sub_type v)) (open_var sd d xs ?v2) (open_var sd d xs ?v3)"
    by (rule int) (simp_all add: ok describe_items)
  have s4: "describes (enc_info_int 13 (v_scale v)) (open_var sd d xs ?v3) (open_var sd d xs ?v4)"
    by (rule int) (simp_all add: ok describe_items)
  have s5: "describes (enc_info_int 14 (v_length v)) (open_var sd d xs ?v4) (open_var sd d xs ?v5)"
    by (rule int) (simp_all add: ok describe_items)
  have s6: "describes (opt_info_str 16 (v_field v)) (open_var sd d xs ?v5) (open_var sd d xs ?v6)"
    by (rule str) (simp_all add: ok describe_items new_var_def)
  have s7: "describes (opt_info_str 17 (v_relation v)) (open_var sd d xs ?v6) (open_var sd d xs ?v7)"
    by (rule str) (simp_all add: ok describe_items new_var_def)
  have s8: "describes (opt_info_str 25 (v_relation_alias v)) (open_var sd d xs ?v7) (open_var sd d xs ?v8)"
    by (rule str) (simp_all add: ok describe_items new_var_def)
  have s9: "describes (opt_info_str 18 (v_owner v)) (open_var sd d xs ?v8) (open_var sd d xs ?v9)"
    by (rule str) (simp_all add: ok describe_items new_var_def)
  have "?v9\<lparr>v_alias := v_alias v\<rparr> = v"
    by (cases v) (simp add: new_var_def)
  moreover have "describes (opt_info_str 19 (v_alias v)) (open_var sd d xs ?v9)
      (open_var sd d xs (?v9\<lparr>v_alias := v_alias v\<rparr>))"
    by (rule str) (simp_all add: ok describe_items new_var_def)
  ultimately have s10: "describes (opt_info_str 19 (v_alias v)) (open_var sd d xs ?v9) (open_var sd d xs v)"
    by (simp only:)
  show ?thesis
    unfolding enc_var_def
    by (intro describes_append [OF describes_begin [OF assms(2)]] describes_append [OF describes_type [OF assms(1)]]
        describes_append [OF s3] describes_append [OF s4] describes_append [OF s5] describes_append [OF s6]
        describes_append [OF s7] describes_append [OF s8] describes_append [OF s9] describes_append [OF s10]
        describes_end)
qed

fun enc_vars :: "nat \<Rightarrow> sql_var_desc list \<Rightarrow> bytes" where
  "enc_vars i [] = []"
| "enc_vars i (v # vs) = enc_var i v @ enc_vars (Suc i) vs"

lemma describes_vars:
  "list_all var_ok vs \<Longrightarrow> length xs + length vs < 2147483647 \<Longrightarrow>
   \<exists>c'. describes (enc_vars (length xs) vs) (var_state sd d xs c) (var_state sd d (xs @ map Some vs) c')"
proof (induction vs arbitrary: xs c)
  case Nil
  then show ?case by (intro exI [of _ c]) simp
next
  case (Cons v vs)
  then have "describes (enc_var (length xs) v) (var_state sd d xs c) (var_state sd d (xs @ [Some v]) NoVar)"
    by (intro describes_var) simp_all
  moreover obtain c' where "describes (enc_vars (length (xs @ [Some v])) vs) (var_state sd d (xs @ [Some v]) NoVar)
      (var_state sd d ((xs @ [Some v]) @ map Some vs) c')"
    using Cons.IH [of "xs @ [Some v]" NoVar] Cons.prems by auto
  ultimately show ?case
    using describes_append by fastforce
qed

text \<open>The whole response: statement kind, output columns, input parameters.\<close>

definition enc_describe :: "int \<Rightarrow> sql_var_desc list \<Rightarrow> sql_var_desc list \<Rightarrow> bytes" where
  "enc_describe stmt outs ins =
     enc_info_int 21 stmt
     @ [4] @ enc_info_int 7 (int (length outs)) @ enc_vars 0 outs
     @ [5] @ enc_info_int 7 (int (length ins)) @ enc_vars 0 ins
     @ [1]"

lemma describes_count:
  "length xs < 2147483647 \<Longrightarrow> describes (enc_info_int 7 (int (length xs))) s s"
  by (rule describes_int [where g = "\<lambda>x r'. Inr (Some (r', s))"]) (auto simp: describe_items)

lemma describe_loop_end: "cr_rest r = 1 # bs \<Longrightarrow> describe_loop r s = Inr (ds_desc s)"
  by (subst describe_loop.simps) (simp add: cr_done_rest)

subsection \<open>Record counts a server wrote\<close>

definition enc_count :: "int \<times> int \<Rightarrow> bytes" where
  "enc_count kv = enc_info_int (fst kv) (snd kv)"

definition count_ok :: "int \<times> int \<Rightarrow> bool" where
  "count_ok kv = (2 \<le> fst kv \<and> fst kv < 256 \<and> int32_range (snd kv))"

definition enc_other :: "int \<times> bytes \<Rightarrow> bytes" where
  "enc_other kd = word_of_int (fst kd) # le_bytes 2 (int (length (snd kd))) @ snd kd"

definition other_ok :: "int \<times> bytes \<Rightarrow> bool" where
  "other_ok kd = (2 \<le> fst kd \<and> fst kd < 256 \<and> fst kd \<noteq> 23 \<and> length (snd kd) < 65536)"

definition enc_records :: "(int \<times> bytes) list \<Rightarrow> (int \<times> int) list \<Rightarrow> bytes \<Rightarrow> bytes" where
  "enc_records others counts rest =
     concat (map enc_other others)
     @ 23 # le_bytes 2 (int (7 * length counts + 1)) @ concat (map enc_count counts) @ 1 # rest"

lemma length_enc_count [simp]: "length (enc_count kv) = 7"
  by (simp add: enc_count_def enc_info_int_def)

lemma length_enc_other [simp]: "length (enc_other kd) = 3 + length (snd kd)"
  by (simp add: enc_other_def)

lemma counts_loop_turn:
  assumes "cr_rest r = enc_count kv @ rest" and "count_ok kv" and "cr_pos r < stop"
  shows "counts_loop stop r c = counts_loop stop (cr_skip 7 r) (set_count (fst kv) (snd kv) c)"
proof -
  have u: "uint (word_of_int (fst kv) :: byte) = fst kv"
    using assms(2) by (simp add: uint_byte_of_int count_ok_def)
  have r: "cr_rest r = word_of_int (fst kv) # le_bytes 2 4 @ le_bytes 4 (snd kv) @ rest"
    using assms(1) by (simp add: enc_count_def enc_info_int_def del: le_bytes.simps)
  have nxt: "cr_next_item r = (Some (fst kv), cr_skip 1 r)"
    using cr_next_rest [OF r] u by simp
  then have peek: "cr_peek_item r = Some (fst kv)"
    by (simp add: cr_next_item_def)
  have "cr_rest (cr_skip 1 r) = le_bytes 2 4 @ le_bytes 4 (snd kv) @ rest"
    using r by (simp del: le_bytes.simps)
  then have "cr_read_int (cr_skip 1 r) = Inr (snd kv, cr_skip 6 (cr_skip 1 r))"
    using assms(2) by (intro cr_read_int_rest) (auto simp: count_ok_def)
  then show ?thesis
    using assms(2,3) peek nxt by (subst counts_loop.simps) (simp add: count_ok_def)
qed

lemma counts_loop_end:
  assumes "cr_rest r = 1 # rest"
  shows "counts_loop stop r c = Inr c"
proof -
  have "cr_peek_item r = Some 1"
    using cr_next_rest [OF assms] by (simp add: cr_next_item_def)
  then show ?thesis by (subst counts_loop.simps) simp
qed

lemma counts_loop_all:
  "list_all count_ok kvs \<Longrightarrow> cr_rest r = concat (map enc_count kvs) @ 1 # rest \<Longrightarrow>
   cr_pos r + 7 * length kvs < stop \<Longrightarrow>
   counts_loop stop r c = Inr (fold (\<lambda>kv. set_count (fst kv) (snd kv)) kvs c)"
proof (induction kvs arbitrary: r c)
  case Nil
  then show ?case by (simp add: counts_loop_end)
next
  case (Cons kv kvs)
  have "counts_loop stop r c = counts_loop stop (cr_skip 7 r) (set_count (fst kv) (snd kv) c)"
    using Cons.prems by (intro counts_loop_turn [of r kv "concat (map enc_count kvs) @ 1 # rest"]) auto
  moreover have "cr_rest (cr_skip 7 r) = concat (map enc_count kvs) @ 1 # rest"
    using Cons.prems(2) by simp
  ultimately show ?case
    using Cons.IH [of "cr_skip 7 r" "set_count (fst kv) (snd kv) c"] Cons.prems by simp
qed

lemma records_loop_skip:
  assumes "cr_rest r = enc_other kd @ rest" and "other_ok kd"
  shows "records_loop r = records_loop (cr_skip (3 + length (snd kd)) r)"
proof -
  have u: "uint (word_of_int (fst kd) :: byte) = fst kd"
    using assms(2) by (simp add: uint_byte_of_int other_ok_def)
  have r: "cr_rest r = word_of_int (fst kd) # le_bytes 2 (int (length (snd kd))) @ snd kd @ rest"
    using assms(1) by (simp add: enc_other_def del: le_bytes.simps)
  have r1: "cr_rest (cr_skip 1 r) = le_bytes 2 (int (length (snd kd))) @ snd kd @ rest"
    using r by (simp del: le_bytes.simps)
  have "cr_le 2 (cr_skip 1 r) = Inr (int (length (snd kd)))"
    using cr_le_rest [OF _ r1] assms(2)
    by (simp add: le_val_le_bytes other_ok_def del: le_bytes.simps le_val.simps)
  then have "cr_skip_cluster (cr_skip 1 r) = Inr (cr_skip (3 + length (snd kd)) r)"
    by (simp add: cr_skip_cluster_def eval_nat_numeral)
  then show ?thesis
    using assms(2) cr_next_rest [OF r] u
    by (subst records_loop.simps) (simp add: cr_done_rest r other_ok_def del: le_bytes.simps)
qed

lemma records_loop_all:
  "list_all other_ok others \<Longrightarrow> cr_rest r = concat (map enc_other others) @ rest \<Longrightarrow>
   \<exists>r'. cr_rest r' = rest \<and> records_loop r = records_loop r'"
proof (induction others arbitrary: r)
  case (Cons kd others)
  then have "records_loop r = records_loop (cr_skip (3 + length (snd kd)) r)"
    by (intro records_loop_skip [of r kd "concat (map enc_other others) @ rest"]) auto
  moreover have "cr_rest (cr_skip (3 + length (snd kd)) r) = concat (map enc_other others) @ rest"
    using Cons.prems(2) by simp
  ultimately show ?case
    using Cons by auto
qed auto

lemma records_loop_counts:
  assumes "cr_rest r = 23 # le_bytes 2 (int (7 * length kvs + 1)) @ concat (map enc_count kvs) @ 1 # rest"
    and "list_all count_ok kvs" and "7 * length kvs + 1 < 65536"
  shows "records_loop r = Inr (fold (\<lambda>kv. set_count (fst kv) (snd kv)) kvs no_counts)"
proof -
  have r1: "cr_rest (cr_skip 1 r) = le_bytes 2 (int (7 * length kvs + 1)) @ concat (map enc_count kvs) @ 1 # rest"
    using assms(1) by (simp del: le_bytes.simps)
  have "cr_le 2 (cr_skip 1 r) = Inr (int (7 * length kvs + 1))"
    using cr_le_rest [OF _ r1] assms(3)
    by (simp add: le_val_le_bytes del: le_bytes.simps le_val.simps of_nat_mult of_nat_Suc of_nat_add)
  moreover have "cr_rest (cr_skip 2 (cr_skip 1 r)) = concat (map enc_count kvs) @ 1 # rest"
    unfolding cr_rest_skip [of 2] r1 by (simp del: le_bytes.simps)
  then have "counts_loop (cr_pos (cr_skip 2 (cr_skip 1 r)) + (7 * length kvs + 1)) (cr_skip 2 (cr_skip 1 r)) no_counts
      = Inr (fold (\<lambda>kv. set_count (fst kv) (snd kv)) kvs no_counts)"
    using assms(2) by (intro counts_loop_all) auto
  ultimately show ?thesis
    using cr_next_rest [OF assms(1)]
    by (subst records_loop.simps) (simp add: cr_done_rest assms(1) nat_add_distrib nat_mult_distrib del: le_bytes.simps)
qed

subsection \<open>Properties\<close>

text \<open>
  Parsing the description a server sends for a prepared statement gives it back:
  the statement kind, and for every output column and input parameter, in order, its
  type without the nullable bit, its nullability, sub-type, scale, length and names,
  each name present exactly when the server sent it.
\<close>

theorem parse_describe_reads_back:
  assumes "list_all var_ok outs" and "list_all var_ok ins" and "int32_range stmt"
    and "length outs < 2147483647" and "length ins < 2147483647"
  shows "parse_describe (enc_describe stmt outs ins)
    = Inr \<lparr>d_stmt_type = stmt, d_inputs = map Some ins, d_outputs = map Some outs\<rparr>"
proof -
  let ?d0 = "\<lparr>d_stmt_type = 0, d_inputs = [], d_outputs = []\<rparr>"
  let ?d1 = "\<lparr>d_stmt_type = stmt, d_inputs = [], d_outputs = []\<rparr>"
  let ?d2 = "\<lparr>d_stmt_type = stmt, d_inputs = [], d_outputs = map Some outs\<rparr>"
  let ?s0 = "\<lparr>ds_desc = ?d0, ds_vars = Outputs, ds_current = NoVar\<rparr>"
  have s1: "describes (enc_info_int 21 stmt) ?s0 (var_state Outputs ?d1 [] NoVar)"
    by (rule describes_int [where g = "\<lambda>x r'. Inr (Some (r', ?s0\<lparr>ds_desc := ?d0\<lparr>d_stmt_type := x\<rparr>\<rparr>))"])
       (use assms in \<open>auto simp: describe_items var_state_def with_side_def on_side_def\<close>)
  have s2: "describes [4] (var_state Outputs ?d1 [] NoVar) (var_state Outputs ?d1 [] NoVar)"
    by (rule describes_bare) (simp_all add: describe_items var_state_def)
  obtain c where s3: "describes (enc_vars 0 outs) (var_state Outputs ?d1 [] NoVar)
      (var_state Outputs ?d1 (map Some outs) c)"
    using describes_vars [of outs "[]", where sd = Outputs and d = ?d1 and c = NoVar] assms by auto
  have s4: "describes [5] (var_state Outputs ?d1 (map Some outs) c) (var_state Inputs ?d2 [] c)"
    by (rule describes_bare) (simp_all add: describe_items var_state_def with_side_def on_side_def)
  obtain c' where s5: "describes (enc_vars 0 ins) (var_state Inputs ?d2 [] c)
      (var_state Inputs ?d2 (map Some ins) c')"
    using describes_vars [of ins "[]", where sd = Inputs and d = ?d2 and c = c] assms by auto
  have all: "describes (enc_info_int 21 stmt @ [4] @ enc_info_int 7 (int (length outs)) @ enc_vars 0 outs
      @ [5] @ enc_info_int 7 (int (length ins)) @ enc_vars 0 ins) ?s0 (var_state Inputs ?d2 (map Some ins) c')"
    by (intro describes_append [OF s1] describes_append [OF s2] describes_append [OF s3]
        describes_append [OF s4] describes_append [OF describes_count] s5 assms)
  moreover have "cr_rest (cr_new (enc_describe stmt outs ins)) = (enc_info_int 21 stmt @ [4]
      @ enc_info_int 7 (int (length outs)) @ enc_vars 0 outs
      @ [5] @ enc_info_int 7 (int (length ins)) @ enc_vars 0 ins) @ [1]"
    by (simp add: enc_describe_def)
  ultimately obtain r' where "cr_rest r' = [1]"
    "describe_loop (cr_new (enc_describe stmt outs ins)) ?s0 = describe_loop r' (var_state Inputs ?d2 (map Some ins) c')"
    unfolding describes_def by blast
  then show ?thesis
    using describe_loop_end [of r' "[]"]
    by (simp add: parse_describe_def var_state_def with_side_def on_side_def)
qed

theorem parse_describe_reads_back_witness:
  "parse_describe (enc_describe 1
      [\<lparr>v_type = 496, v_nullable = True, v_sub_type = 0, v_scale = - 2, v_length = 4,
        v_field = Some ''ID'', v_relation = Some ''T'', v_owner = None, v_alias = Some ''ID'', v_relation_alias = None\<rparr>] [])
   = Inr \<lparr>d_stmt_type = 1, d_inputs = [], d_outputs =
      [Some \<lparr>v_type = 496, v_nullable = True, v_sub_type = 0, v_scale = - 2, v_length = 4,
        v_field = Some ''ID'', v_relation = Some ''T'', v_owner = None, v_alias = Some ''ID'', v_relation_alias = None\<rparr>]\<rparr>"
  using parse_describe_reads_back [of "[\<lparr>v_type = 496, v_nullable = True, v_sub_type = 0, v_scale = - 2, v_length = 4,
        v_field = Some ''ID'', v_relation = Some ''T'', v_owner = None, v_alias = Some ''ID'', v_relation_alias = None\<rparr>]" "[]" 1]
  by (simp add: var_ok_def short_text_def)

text \<open>
  The record counts of an execute are found behind any other clumplets, and each
  count the server reports, in any order, ends up in its own field; a count that is not
  reported stays zero.
\<close>

theorem parse_record_counts_reads_back:
  assumes "list_all other_ok others" and "list_all count_ok counts" and "7 * length counts + 1 < 65536"
  shows "parse_record_counts (enc_records others counts rest)
    = Inr (fold (\<lambda>kv. set_count (fst kv) (snd kv)) counts no_counts)"
proof -
  obtain r' where "records_loop (cr_new (enc_records others counts rest)) = records_loop r'"
    "cr_rest r' = 23 # le_bytes 2 (int (7 * length counts + 1)) @ concat (map enc_count counts) @ 1 # rest"
    using records_loop_all [OF assms(1), of "cr_new (enc_records others counts rest)"
        "23 # le_bytes 2 (int (7 * length counts + 1)) @ concat (map enc_count counts) @ 1 # rest"]
    by (auto simp: enc_records_def)
  then show ?thesis
    using records_loop_counts assms by (simp add: parse_record_counts_def)
qed

theorem parse_record_counts_reads_back_witness:
  "parse_record_counts (enc_records [(21, [7])] [(15, 3), (14, 2)] [])
   = Inr \<lparr>rc_selected = 0, rc_inserted = 2, rc_updated = 3, rc_deleted = 0\<rparr>"
  using parse_record_counts_reads_back [of "[(21, [7])]" "[(15, 3), (14, 2)]" "[]"]
  by (simp add: other_ok_def count_ok_def set_count_def no_counts_def)

end
