(* ===== verification/Date_Time.thy ===== *)
theory Date_Time
  imports Prelude
begin

text \<open>
  \<open>types/datetime.ts\<close>: the wire form of dates, times and timestamps. A JavaScript
  \<open>Date\<close> is its time value, an integer of milliseconds since 1970, and \<open>None\<close> an
  invalid date. The calendar functions are those of the language standard; the host's
  time zone is a parameter (\<open>local_zone\<close>).
\<close>

subsection \<open>The calendar of the language standard\<close>

definition leap :: "int \<Rightarrow> bool" where
  "leap y = (y mod 4 = 0 \<and> (y mod 100 \<noteq> 0 \<or> y mod 400 = 0))"

definition day_from_year :: "int \<Rightarrow> int" where
  "day_from_year y = 365 * (y - 1970) + (y - 1969) div 4 - (y - 1901) div 100 + (y - 1601) div 400"

definition year_from_day :: "int \<Rightarrow> int" where
  "year_from_day d =
     (let y = 1970 + (400 * d) div 146097 in
      if d < day_from_year y then y - 1 else if day_from_year (y + 1) \<le> d then y + 1 else y)"

definition month_starts :: "bool \<Rightarrow> int list" where
  "month_starts l = (let k = of_bool l in
     [0, 31, 59 + k, 90 + k, 120 + k, 151 + k, 181 + k, 212 + k, 243 + k, 273 + k, 304 + k, 334 + k])"

definition month_from_day :: "int \<Rightarrow> int" where
  "month_from_day d = (let y = year_from_day d in
     int (length (filter (\<lambda>s. s \<le> d - day_from_year y) (month_starts (leap y)))) - 1)"

definition date_from_day :: "int \<Rightarrow> int" where
  "date_from_day d = (let y = year_from_day d in
     d - day_from_year y - month_starts (leap y) ! nat (month_from_day d) + 1)"

text \<open>\<open>MakeDay\<close>, with a month counted from zero.\<close>

definition make_day :: "int \<Rightarrow> int \<Rightarrow> int \<Rightarrow> int" where
  "make_day y m d = (let ym = y + m div 12; mn = m mod 12 in
     day_from_year ym + month_starts (leap ym) ! nat mn + d - 1)"

lemma div_Suc_int:
  assumes "0 < (k::int)"
  shows "(x + 1) div k = x div k + of_bool ((x + 1) mod k = 0)"
proof (cases "x mod k = k - 1")
  case True
  have "x + 1 = (k * (x div k) + x mod k) + 1" by simp
  also have "\<dots> = k * (x div k + 1) + 0"
    by (simp only: True) (simp add: algebra_simps)
  finally have "x + 1 = k * (x div k + 1) + 0" .
  then have "(x + 1) div k = x div k + 1" "(x + 1) mod k = 0"
    using assms by (auto intro: int_div_pos_eq int_mod_pos_eq)
  then show ?thesis by simp
next
  case False
  have e: "x + 1 = k * (x div k) + (x mod k + 1)"
    using mult_div_mod_eq [of k x] by simp
  have "x mod k < k" using assms by simp
  with False have "x mod k + 1 < k" by linarith
  moreover have "0 \<le> x mod k" using assms by simp
  ultimately have "(x + 1) div k = x div k" "(x + 1) mod k = x mod k + 1"
    using int_div_pos_eq [OF e] int_mod_pos_eq [OF e] by simp_all
  with \<open>0 \<le> x mod k\<close> show ?thesis by simp
qed

lemma day_from_year_Suc: "day_from_year (y + 1) = day_from_year y + 365 + of_bool (leap y)"
proof -
  have eqs: "y + 1 - 1969 = (y - 1969) + 1" "y + 1 - 1901 = (y - 1901) + 1" "y + 1 - 1601 = (y - 1601) + 1"
    by simp_all
  have shift: "((y - 1969) + 1) mod 4 = y mod 4" "((y - 1901) + 1) mod 100 = y mod 100"
    "((y - 1601) + 1) mod 400 = y mod 400"
    using mod_mult_self2 [of y 4 "- 492"] mod_mult_self2 [of y 100 "- 19"] mod_mult_self2 [of y 400 "- 4"]
    by simp_all
  have "day_from_year (y + 1) = 365 * (y + 1 - 1970) + ((y - 1969) div 4 + of_bool (y mod 4 = 0))
      - ((y - 1901) div 100 + of_bool (y mod 100 = 0)) + ((y - 1601) div 400 + of_bool (y mod 400 = 0))"
    unfolding day_from_year_def eqs using div_Suc_int [of 4 "y - 1969"] div_Suc_int [of 100 "y - 1901"] div_Suc_int [of 400 "y - 1601"]
    by (simp only: shift rel_simps simp_thms)
  also have "\<dots> = day_from_year y + 365 + (of_bool (y mod 4 = 0) - of_bool (y mod 100 = 0) + of_bool (y mod 400 = 0))"
    unfolding day_from_year_def by (simp only: ring_distribs)
  also have "of_bool (y mod 4 = 0) - of_bool (y mod 100 = 0) + of_bool (y mod 400 = 0) = (of_bool (leap y) :: int)"
    using mod_mod_cancel [of 100 400 y] mod_mod_cancel [of 4 100 y] by (auto simp: leap_def)
  finally show ?thesis .
qed

lemma div_bounds: "0 < k \<Longrightarrow> k * (x div k) \<le> x \<and> x < k * (x div k) + (k::int)"
  by (metis add.commute add_le_cancel_left le_add_same_cancel1 mod_mult_div_eq mult_div_mod_eq
      pos_mod_bound pos_mod_sign add_less_cancel_left)

lemma year_from_day:
  "day_from_year (year_from_day d) \<le> d \<and> d < day_from_year (year_from_day d + 1)"
proof -
  define q where "q = (400 * d) div 146097"
  have q: "146097 * q \<le> 400 * d" "400 * d < 146097 * q + 146097"
    using div_bounds [of 146097 "400 * d"] by (simp_all add: q_def)
  have low: "400 * day_from_year (1970 + k) \<le> 146097 * k + 589" for k
    using div_bounds [of 4 "k + 1"] div_bounds [of 100 "k + 69"] div_bounds [of 400 "k + 369"]
    unfolding day_from_year_def by (simp add: algebra_simps)
  have high: "146097 * k - 506 \<le> 400 * day_from_year (1970 + k)" for k
    using div_bounds [of 4 "k + 1"] div_bounds [of 100 "k + 69"] div_bounds [of 400 "k + 369"]
    unfolding day_from_year_def by (simp add: algebra_simps)
  have "day_from_year (1970 + (q - 1)) \<le> d" "d < day_from_year (1970 + (q + 2))"
    using low [of "q - 1"] high [of "q + 2"] q by auto
  then show ?thesis
    unfolding year_from_day_def Let_def q_def [symmetric] by (auto simp: algebra_simps)
qed

lemma month_starts_cases:
  assumes "0 \<le> x" and "x < 365 + of_bool l"
  defines "n \<equiv> length (filter (\<lambda>s. s \<le> x) (month_starts l))"
  shows "1 \<le> n \<and> n \<le> 12 \<and> month_starts l ! (n - 1) \<le> x"
  using assms by (cases l) (auto simp: month_starts_def)

lemma civil_day: "make_day (year_from_day d) (month_from_day d) (date_from_day d) = d"
proof -
  let ?y = "year_from_day d" and ?x = "d - day_from_year (year_from_day d)"
  have "0 \<le> ?x" "?x < 365 + of_bool (leap ?y)"
    using year_from_day [of d] day_from_year_Suc [of ?y] by auto
  then have n: "0 \<le> month_from_day d" "month_from_day d < 12"
    using month_starts_cases [of ?x "leap ?y"] by (auto simp: month_from_day_def Let_def)
  then show ?thesis
    by (simp add: make_day_def date_from_day_def Let_def)
qed

subsection \<open>Dates\<close>

definition MS_PER_DAY :: int where "MS_PER_DAY = 86400000"
definition EPOCH_DIFF_DAYS :: int where "EPOCH_DIFF_DAYS = 40587"
definition FRAC_PER_MS :: int where "FRAC_PER_MS = 10"

text \<open>
  The host's zone: \<open>lz_offset t\<close> is what local time adds to the time value \<open>t\<close>, and
  \<open>lz_utc\<close> takes a local time to a time value.
\<close>

record local_zone =
  lz_offset :: "int \<Rightarrow> int"
  lz_utc :: "int \<Rightarrow> int"

definition local_time :: "local_zone \<Rightarrow> int \<Rightarrow> int" where
  "local_time z t = t + lz_offset z t"

text \<open>A time value out of the range of \<open>Date\<close> makes an invalid date.\<close>

definition time_clip :: "int \<Rightarrow> int option" where
  "time_clip t = (if \<bar>t\<bar> \<le> 8640000000000000 then Some t else None)"

text \<open>
  \<open>new Date(x)\<close> for a number of tenths of a millisecond drops the fraction towards
  zero.
\<close>

definition tenths :: "int \<Rightarrow> int" where
  "tenths x = (if x < 0 then - ((- x) div 10) else x div 10)"

text \<open>The two-digit years of the \<open>Date\<close> constructor and of \<open>Date.UTC\<close>.\<close>

definition full_year :: "int \<Rightarrow> int" where
  "full_year y = (if 0 \<le> y \<and> y \<le> 99 then 1900 + y else y)"

definition date_utc :: "int \<Rightarrow> int \<Rightarrow> int \<Rightarrow> int" where
  "date_utc y m d = MS_PER_DAY * make_day (full_year y) m d"

definition new_date_local :: "local_zone \<Rightarrow> int \<Rightarrow> int \<Rightarrow> int \<Rightarrow> int option" where
  "new_date_local z y m d = time_clip (lz_utc z (MS_PER_DAY * make_day (full_year y) m d))"

definition decode_date :: "int \<Rightarrow> int option" where
  "decode_date days = time_clip ((days - EPOCH_DIFF_DAYS) * MS_PER_DAY)"

definition date_to_days :: "int \<Rightarrow> int \<Rightarrow> int \<Rightarrow> int" where
  "date_to_days year month day = date_utc year (month - 1) day div MS_PER_DAY + EPOCH_DIFF_DAYS"

text \<open>The local midnight of the calendar day that a time value has in UTC.\<close>

definition local_midnight :: "local_zone \<Rightarrow> int \<Rightarrow> int option" where
  "local_midnight z t = (let d = t div MS_PER_DAY in
     new_date_local z (year_from_day d) (month_from_day d) (date_from_day d))"

definition decode_timestamp :: "local_zone \<Rightarrow> int \<Rightarrow> int \<Rightarrow> int option" where
  "decode_timestamp z days fractions =
     (case time_clip ((days - EPOCH_DIFF_DAYS) * MS_PER_DAY) of None \<Rightarrow> None
      | Some utc_midnight \<Rightarrow>
          (case local_midnight z utc_midnight of None \<Rightarrow> None
           | Some m \<Rightarrow> time_clip (tenths (FRAC_PER_MS * m + fractions))))"

definition hours :: "int \<Rightarrow> int" where "hours t = t div 3600000 mod 24"
definition minutes :: "int \<Rightarrow> int" where "minutes t = t div 60000 mod 60"
definition seconds :: "int \<Rightarrow> int" where "seconds t = t div 1000 mod 60"
definition milliseconds :: "int \<Rightarrow> int" where "milliseconds t = t mod 1000"

definition encode_timestamp :: "local_zone \<Rightarrow> int \<Rightarrow> int \<times> int" where
  "encode_timestamp z t =
     (let l = local_time z t; d = l div MS_PER_DAY;
          days = date_to_days (year_from_day d) (month_from_day d + 1) (date_from_day d);
          ms = hours l * 3600000 + minutes l * 60000 + seconds l * 1000 + milliseconds l
      in (days, ms * FRAC_PER_MS))"

definition encode_date_only :: "local_zone \<Rightarrow> int \<Rightarrow> int" where
  "encode_date_only z t =
     (let d = local_time z t div MS_PER_DAY in
      date_to_days (year_from_day d) (month_from_day d + 1) (date_from_day d))"

definition encode_timestamp_utc :: "int \<Rightarrow> int \<times> int" where
  "encode_timestamp_utc t =
     (let i = t div 86400000 in (i + 40587, (t - i * 86400000) * 10))"

text \<open>The readers of the DATE, TIME and TIME ZONE columns.\<close>

definition read_date_cell :: "local_zone \<Rightarrow> int \<Rightarrow> int option" where
  "read_date_cell z days = (case decode_date days of None \<Rightarrow> None | Some t \<Rightarrow> local_midnight z t)"

definition read_time_cell :: "local_zone \<Rightarrow> int \<Rightarrow> int option" where
  "read_time_cell z fractions = (case new_date_local z 1970 0 1 of None \<Rightarrow> None
     | Some m \<Rightarrow> time_clip (tenths (FRAC_PER_MS * m + fractions)))"

definition read_timestamp_tz_cell :: "int \<Rightarrow> int \<Rightarrow> int option" where
  "read_timestamp_tz_cell days fractions =
     time_clip (tenths (10 * ((days - 40587) * 86400000) + fractions))"

definition read_time_tz_cell :: "int \<Rightarrow> int option" where
  "read_time_tz_cell fractions = time_clip (tenths fractions)"

subsection \<open>Lemmas\<close>

lemmas date_consts = MS_PER_DAY_def EPOCH_DIFF_DAYS_def FRAC_PER_MS_def

lemma time_parts:
  "hours l * 3600000 + minutes l * 60000 + seconds l * 1000 + milliseconds l = l mod MS_PER_DAY"
proof -
  have split: "l mod (b * c) = b * (l div b mod c) + l mod b" if "0 \<le> c" for b c
    using that by (rule zmod_zmult2_eq)
  have "l mod 86400000 = 3600000 * hours l + l mod 3600000"
    unfolding hours_def using split [of 24 3600000] by (simp only: arith_simps rel_simps simp_thms)
  also have "l mod 3600000 = 60000 * minutes l + l mod 60000"
    unfolding minutes_def using split [of 60 60000] by (simp only: arith_simps rel_simps simp_thms)
  also have "l mod 60000 = 1000 * seconds l + milliseconds l"
    unfolding seconds_def milliseconds_def
    using split [of 60 1000] by (simp only: arith_simps rel_simps simp_thms)
  finally show ?thesis
    by (simp only: MS_PER_DAY_def mult.commute add.assoc)
qed

lemma tenths_whole [simp]: "tenths (10 * t + 10 * f) = t + f"
proof -
  have "tenths (10 * x) = x" for x
    using nonzero_mult_div_cancel_left [of 10 x] nonzero_mult_div_cancel_left [of 10 "- x"]
    by (simp add: tenths_def)
  then show ?thesis by (simp only: distrib_left [symmetric])
qed

lemma date_to_days_civil:
  "date_to_days (year_from_day d) (month_from_day d + 1) (date_from_day d)
     = make_day (full_year (year_from_day d)) (month_from_day d) (date_from_day d) + 40587"
  by (simp add: date_to_days_def date_utc_def date_consts)

lemma full_year_id: "\<not> (0 \<le> y \<and> y \<le> 99) \<Longrightarrow> full_year y = y"
  by (simp add: full_year_def)

lemma date_to_days_id:
  "\<not> (0 \<le> year_from_day d \<and> year_from_day d \<le> 99) \<Longrightarrow>
   date_to_days (year_from_day d) (month_from_day d + 1) (date_from_day d) = d + 40587"
  by (simp add: date_to_days_civil full_year_id civil_day)

lemma local_midnight_id:
  "\<not> (0 \<le> year_from_day d \<and> year_from_day d \<le> 99) \<Longrightarrow>
   local_midnight z (d * MS_PER_DAY) = time_clip (lz_utc z (d * MS_PER_DAY))"
  by (simp add: local_midnight_def new_date_local_def Let_def full_year_id civil_day date_consts mult.commute)

lemma day_from_year_mono: "y \<le> z \<Longrightarrow> day_from_year y \<le> day_from_year z"
proof -
  assume "y \<le> z"
  have "day_from_year y \<le> day_from_year (y + int n)" for n
  proof (induction n)
    case (Suc n)
    then show ?case
      using day_from_year_Suc [of "y + int n"] by (simp add: ac_simps)
  qed simp
  from this [of "nat (z - y)"] \<open>y \<le> z\<close> show ?thesis by simp
qed

lemma year_from_day_le: "d < day_from_year (y + 1) \<Longrightarrow> year_from_day d \<le> y"
  using year_from_day [of d] day_from_year_mono [of "y + 1" "year_from_day d"] by linarith

lemma year_from_day_ge: "day_from_year y \<le> d \<Longrightarrow> y \<le> year_from_day d"
  using year_from_day [of d] day_from_year_mono [of "year_from_day d + 1" y] by linarith

lemma civil_bounds: "0 \<le> month_from_day d" "month_from_day d < 12" "1 \<le> date_from_day d"
proof -
  let ?y = "year_from_day d" and ?x = "d - day_from_year (year_from_day d)"
  have "0 \<le> ?x" "?x < 365 + of_bool (leap ?y)"
    using year_from_day [of d] day_from_year_Suc [of ?y] by auto
  from month_starts_cases [OF this]
  show "0 \<le> month_from_day d" "month_from_day d < 12" "1 \<le> date_from_day d"
    by (auto simp: month_from_day_def date_from_day_def Let_def nat_diff_distrib)
qed

lemma month_starts_nonneg: "n < 12 \<Longrightarrow> 0 \<le> month_starts l ! n"
  by (auto simp: month_starts_def Let_def less_Suc_eq numeral_eq_Suc)

lemma make_day_ge: "0 \<le> m \<Longrightarrow> m < 12 \<Longrightarrow> 1 \<le> d \<Longrightarrow> day_from_year y \<le> make_day y m d"
  using month_starts_nonneg [of "nat m" "leap y"] by (simp add: make_day_def Let_def nat_less_iff)

lemma encode_at:
  assumes "local_time z t = l * MS_PER_DAY + f" and "0 \<le> f" and "f < MS_PER_DAY"
    and "\<not> (0 \<le> year_from_day l \<and> year_from_day l \<le> 99)"
  shows "encode_timestamp z t = (l + 40587, 10 * f)"
proof -
  have "(l * MS_PER_DAY + f) div MS_PER_DAY = l" "(l * MS_PER_DAY + f) mod MS_PER_DAY = f"
    using assms(2,3) by (simp_all add: MS_PER_DAY_def)
  then show ?thesis
    using assms(4) unfolding encode_timestamp_def Let_def assms(1) time_parts
    by (simp add: date_to_days_id FRAC_PER_MS_def)
qed

lemma clip_Some: "\<bar>t\<bar> \<le> 8640000000000000 \<Longrightarrow> time_clip t = Some t"
  by (simp add: time_clip_def)

text \<open>
  What a decoded timestamp is: the local midnight of the day plus the milliseconds of
  the time of day.
\<close>

lemma decode_timestamp_value:
  assumes "\<bar>d * MS_PER_DAY\<bar> \<le> 8640000000000000"
    and "m = lz_utc z (make_day (full_year (year_from_day d)) (month_from_day d) (date_from_day d) * MS_PER_DAY)"
    and "\<bar>m\<bar> \<le> 8640000000000000" and "\<bar>m + f\<bar> \<le> 8640000000000000"
  shows "decode_timestamp z (d + 40587) (10 * f) = Some (m + f)"
proof -
  have "local_midnight z (d * MS_PER_DAY) = Some m"
    using assms(2,3)
    by (simp add: local_midnight_def new_date_local_def Let_def clip_Some MS_PER_DAY_def mult.commute)
  then show ?thesis
    using assms(1,4) by (simp add: decode_timestamp_def EPOCH_DIFF_DAYS_def FRAC_PER_MS_def clip_Some)
qed

subsection \<open>Properties\<close>

text \<open>
  A wire timestamp decoded to a \<open>Date\<close> and encoded again keeps its day, and its
  time of day moves by exactly the change of the host's offset between that day's local
  midnight and the decoded instant: the value survives on every day without a change of
  offset, and is off by that change on the days of a clock change. (Days of the years 0
  to 99 are excluded, see below.)
\<close>

theorem timestamp_roundtrip:
  assumes "\<not> (0 \<le> year_from_day d \<and> year_from_day d \<le> 99)"
    and "\<bar>d * MS_PER_DAY\<bar> \<le> 8640000000000000"
    and "m = lz_utc z (d * MS_PER_DAY)" and "local_time z m = d * MS_PER_DAY"
    and "\<bar>m\<bar> \<le> 8640000000000000" and "\<bar>m + f\<bar> \<le> 8640000000000000"
    and "delta = lz_offset z (m + f) - lz_offset z m" and "0 \<le> f + delta" and "f + delta < MS_PER_DAY"
  shows "decode_timestamp z (d + 40587) (10 * f) = Some (m + f)
    \<and> encode_timestamp z (m + f) = (d + 40587, 10 * f + 10 * delta)"
proof
  show "decode_timestamp z (d + 40587) (10 * f) = Some (m + f)"
    using assms by (intro decode_timestamp_value) (simp_all add: full_year_id civil_day)
  have "local_time z (m + f) = d * MS_PER_DAY + (f + delta)"
    using assms(4,7) by (simp add: local_time_def)
  then show "encode_timestamp z (m + f) = (d + 40587, 10 * f + 10 * delta)"
    using encode_at [of z "m + f" d "f + delta"] assms(1,8,9) by simp
qed

text \<open>
  The witness is 31 March 2024 in a zone that moves its clocks forward at one o'clock:
  ten in the morning comes back as eleven.
\<close>

theorem timestamp_roundtrip_witness:
  "let z = \<lparr>lz_offset = (\<lambda>t. if t < 1711846800000 then 0 else 3600000),
            lz_utc = (\<lambda>l. if l < 1711846800000 then l else l - 3600000)\<rparr>
   in decode_timestamp z (19813 + 40587) (10 * 36000000) = Some (1711843200000 + 36000000)
    \<and> encode_timestamp z (1711843200000 + 36000000) = (19813 + 40587, 10 * 36000000 + 10 * 3600000)"
proof -
  have year: "year_from_day 19813 = 2024"
    by (simp add: year_from_day_def day_from_year_def Let_def)
  show ?thesis
    unfolding Let_def
    by (rule timestamp_roundtrip) (simp_all add: year MS_PER_DAY_def local_time_def)
qed

text \<open>
  A date of the years 0 to 99 does not survive: the two-digit years of the
  \<open>Date\<close> constructor move it to the same day of the twentieth century, and it is
  encoded as that later day.
\<close>

theorem early_years_move:
  assumes "0 \<le> year_from_day d" and "year_from_day d \<le> 99"
    and "l = make_day (1900 + year_from_day d) (month_from_day d) (date_from_day d)"
    and "m = lz_utc z (l * MS_PER_DAY)" and "local_time z m = l * MS_PER_DAY"
    and "lz_offset z (m + f) = lz_offset z m" and "0 \<le> f" and "f < MS_PER_DAY"
    and "\<bar>d * MS_PER_DAY\<bar> \<le> 8640000000000000"
    and "\<bar>m\<bar> \<le> 8640000000000000" and "\<bar>m + f\<bar> \<le> 8640000000000000"
  shows "decode_timestamp z (d + 40587) (10 * f) = Some (m + f)
    \<and> encode_timestamp z (m + f) = (l + 40587, 10 * f) \<and> d < l"
proof (intro conjI)
  have full: "full_year (year_from_day d) = 1900 + year_from_day d"
    using assms(1,2) by (simp add: full_year_def)
  then show "decode_timestamp z (d + 40587) (10 * f) = Some (m + f)"
    using assms by (intro decode_timestamp_value) simp_all
  have "day_from_year 1900 \<le> l"
    using day_from_year_mono [of 1900 "1900 + year_from_day d"] assms(1,3)
      make_day_ge [OF civil_bounds [of d], of "1900 + year_from_day d"] by simp
  moreover have "d < day_from_year 100"
    using year_from_day [of d] day_from_year_mono [of "year_from_day d + 1" 100] assms(2) by simp
  moreover have "day_from_year 100 \<le> day_from_year 1900"
    by (rule day_from_year_mono) simp
  ultimately show "d < l" by linarith
  have "1900 \<le> year_from_day l"
    using \<open>day_from_year 1900 \<le> l\<close> by (rule year_from_day_ge)
  then show "encode_timestamp z (m + f) = (l + 40587, 10 * f)"
    using assms(5-8) by (intro encode_at) (simp_all add: local_time_def)
qed

text \<open>15 March of the year 44, at noon, in UTC.\<close>

theorem early_years_move_witness:
  "decode_timestamp \<lparr>lz_offset = (\<lambda>_. 0), lz_utc = (\<lambda>l. l)\<rparr> (- 703383 + 40587) (10 * 43200000)
      = Some (- 9423 * 86400000 + 43200000)
    \<and> encode_timestamp \<lparr>lz_offset = (\<lambda>_. 0), lz_utc = (\<lambda>l. l)\<rparr> (- 9423 * 86400000 + 43200000)
      = (- 9423 + 40587, 10 * 43200000) \<and> - 703383 < (- 9423 :: int)"
proof -
  have y: "year_from_day (- 703383) = 44"
    by (simp add: year_from_day_def day_from_year_def Let_def)
  have m: "month_from_day (- 703383) = 2"
    by (simp add: month_from_day_def y day_from_year_def month_starts_def Let_def leap_def)
  have d: "date_from_day (- 703383) = 15"
    by (simp add: date_from_day_def y m day_from_year_def month_starts_def Let_def leap_def)
  show ?thesis
    by (rule early_years_move)
       (simp_all add: y m d make_day_def day_from_year_def month_starts_def leap_def Let_def
          MS_PER_DAY_def local_time_def)
qed

text \<open>
  An instant encoded for a column with a time zone is read back exactly, for every
  valid \<open>Date\<close>, before 1970 as well as after, whatever the host's zone.
\<close>

theorem instant_roundtrip:
  assumes "\<bar>t\<bar> \<le> 8640000000000000" and "encode_timestamp_utc t = (days, fractions)"
  shows "read_timestamp_tz_cell days fractions = Some t \<and> 0 \<le> fractions \<and> fractions < 864000000"
proof -
  have days: "days = t div 86400000 + 40587" and fr: "fractions = (t - t div 86400000 * 86400000) * 10"
    using assms(2) by (simp_all add: encode_timestamp_utc_def Let_def)
  have fr': "fractions = 10 * (t mod 86400000)"
    by (simp add: fr minus_div_mult_eq_mod)
  have "10 * ((days - 40587) * 86400000) + fractions = 10 * (t div 86400000 * 86400000) + 10 * (t mod 86400000)"
    by (simp only: days fr') simp
  then have "tenths (10 * ((days - 40587) * 86400000) + fractions) = t"
    by (simp only: tenths_whole div_mult_mod_eq)
  moreover have "0 \<le> t mod 86400000" "t mod 86400000 < 86400000" by simp_all
  ultimately show ?thesis
    using assms(1) by (simp only: read_timestamp_tz_cell_def clip_Some fr') simp
qed

theorem instant_roundtrip_witness:
  "read_timestamp_tz_cell 40586 863999990 = Some (- 1) \<and> 0 \<le> (863999990 :: int) \<and> (863999990 :: int) < 864000000"
  by (rule instant_roundtrip) (simp_all add: encode_timestamp_utc_def Let_def)

end
