(* ===== verification/Timezones.thy ===== *)
theory Timezones
  imports Prelude
begin

text \<open>
  \<open>types/timezones.ts\<close>: the generated table of time zone names, in its order; index
  \<open>i\<close> is the zone of id \<open>TZ_MAX_ID - i\<close>. The table is cut into pieces for the
  checker's sake.
\<close>

definition tz_names_0 :: "string list" where
  "tz_names_0 = [
    ''GMT'', ''ACT'', ''AET'', ''AGT'', ''ART'', ''AST'', ''Africa/Abidjan'', ''Africa/Accra'',
    ''Africa/Addis_Ababa'', ''Africa/Algiers'', ''Africa/Asmara'', ''Africa/Asmera'',
    ''Africa/Bamako'', ''Africa/Bangui'', ''Africa/Banjul'', ''Africa/Bissau'',
    ''Africa/Blantyre'', ''Africa/Brazzaville'', ''Africa/Bujumbura'', ''Africa/Cairo'',
    ''Africa/Casablanca'', ''Africa/Ceuta'', ''Africa/Conakry'', ''Africa/Dakar'',
    ''Africa/Dar_es_Salaam'', ''Africa/Djibouti'', ''Africa/Douala'', ''Africa/El_Aaiun'',
    ''Africa/Freetown'', ''Africa/Gaborone'', ''Africa/Harare'', ''Africa/Johannesburg'',
    ''Africa/Juba'', ''Africa/Kampala'', ''Africa/Khartoum'', ''Africa/Kigali'',
    ''Africa/Kinshasa'', ''Africa/Lagos'', ''Africa/Libreville'', ''Africa/Lome'',
    ''Africa/Luanda'', ''Africa/Lubumbashi'', ''Africa/Lusaka'', ''Africa/Malabo'',
    ''Africa/Maputo'', ''Africa/Maseru'', ''Africa/Mbabane'', ''Africa/Mogadishu'',
    ''Africa/Monrovia'', ''Africa/Nairobi'', ''Africa/Ndjamena'', ''Africa/Niamey'',
    ''Africa/Nouakchott'', ''Africa/Ouagadougou'', ''Africa/Porto-Novo'', ''Africa/Sao_Tome'',
    ''Africa/Timbuktu'', ''Africa/Tripoli'', ''Africa/Tunis'', ''Africa/Windhoek'',
    ''America/Adak'', ''America/Anchorage'', ''America/Anguilla'', ''America/Antigua'',
    ''America/Araguaina'', ''America/Argentina/Buenos_Aires'', ''America/Argentina/Catamarca'',
    ''America/Argentina/ComodRivadavia'', ''America/Argentina/Cordoba'',
    ''America/Argentina/Jujuy'', ''America/Argentina/La_Rioja'', ''America/Argentina/Mendoza'',
    ''America/Argentina/Rio_Gallegos'', ''America/Argentina/Salta'',
    ''America/Argentina/San_Juan'', ''America/Argentina/San_Luis'', ''America/Argentina/Tucuman'',
    ''America/Argentina/Ushuaia'', ''America/Aruba'', ''America/Asuncion'', ''America/Atikokan'',
    ''America/Atka'', ''America/Bahia'', ''America/Bahia_Banderas'', ''America/Barbados'',
    ''America/Belem'', ''America/Belize'', ''America/Blanc-Sablon'', ''America/Boa_Vista'',
    ''America/Bogota'', ''America/Boise'', ''America/Buenos_Aires'', ''America/Cambridge_Bay'',
    ''America/Campo_Grande'', ''America/Cancun'', ''America/Caracas'', ''America/Catamarca'',
    ''America/Cayenne'', ''America/Cayman'', ''America/Chicago'']"

definition tz_names_1 :: "string list" where
  "tz_names_1 = [
    ''America/Chihuahua'', ''America/Coral_Harbour'', ''America/Cordoba'', ''America/Costa_Rica'',
    ''America/Creston'', ''America/Cuiaba'', ''America/Curacao'', ''America/Danmarkshavn'',
    ''America/Dawson'', ''America/Dawson_Creek'', ''America/Denver'', ''America/Detroit'',
    ''America/Dominica'', ''America/Edmonton'', ''America/Eirunepe'', ''America/El_Salvador'',
    ''America/Ensenada'', ''America/Fort_Nelson'', ''America/Fort_Wayne'', ''America/Fortaleza'',
    ''America/Glace_Bay'', ''America/Godthab'', ''America/Goose_Bay'', ''America/Grand_Turk'',
    ''America/Grenada'', ''America/Guadeloupe'', ''America/Guatemala'', ''America/Guayaquil'',
    ''America/Guyana'', ''America/Halifax'', ''America/Havana'', ''America/Hermosillo'',
    ''America/Indiana/Indianapolis'', ''America/Indiana/Knox'', ''America/Indiana/Marengo'',
    ''America/Indiana/Petersburg'', ''America/Indiana/Tell_City'', ''America/Indiana/Vevay'',
    ''America/Indiana/Vincennes'', ''America/Indiana/Winamac'', ''America/Indianapolis'',
    ''America/Inuvik'', ''America/Iqaluit'', ''America/Jamaica'', ''America/Jujuy'',
    ''America/Juneau'', ''America/Kentucky/Louisville'', ''America/Kentucky/Monticello'',
    ''America/Knox_IN'', ''America/Kralendijk'', ''America/La_Paz'', ''America/Lima'',
    ''America/Los_Angeles'', ''America/Louisville'', ''America/Lower_Princes'', ''America/Maceio'',
    ''America/Managua'', ''America/Manaus'', ''America/Marigot'', ''America/Martinique'',
    ''America/Matamoros'', ''America/Mazatlan'', ''America/Mendoza'', ''America/Menominee'',
    ''America/Merida'', ''America/Metlakatla'', ''America/Mexico_City'', ''America/Miquelon'',
    ''America/Moncton'', ''America/Monterrey'', ''America/Montevideo'', ''America/Montreal'',
    ''America/Montserrat'', ''America/Nassau'', ''America/New_York'', ''America/Nipigon'',
    ''America/Nome'', ''America/Noronha'', ''America/North_Dakota/Beulah'',
    ''America/North_Dakota/Center'', ''America/North_Dakota/New_Salem'', ''America/Ojinaga'',
    ''America/Panama'', ''America/Pangnirtung'', ''America/Paramaribo'', ''America/Phoenix'',
    ''America/Port-au-Prince'', ''America/Port_of_Spain'', ''America/Porto_Acre'',
    ''America/Porto_Velho'', ''America/Puerto_Rico'', ''America/Punta_Arenas'',
    ''America/Rainy_River'', ''America/Rankin_Inlet'', ''America/Recife'', ''America/Regina'',
    ''America/Resolute'', ''America/Rio_Branco'', ''America/Rosario'', ''America/Santa_Isabel'']"

definition tz_names_2 :: "string list" where
  "tz_names_2 = [
    ''America/Santarem'', ''America/Santiago'', ''America/Santo_Domingo'', ''America/Sao_Paulo'',
    ''America/Scoresbysund'', ''America/Shiprock'', ''America/Sitka'', ''America/St_Barthelemy'',
    ''America/St_Johns'', ''America/St_Kitts'', ''America/St_Lucia'', ''America/St_Thomas'',
    ''America/St_Vincent'', ''America/Swift_Current'', ''America/Tegucigalpa'', ''America/Thule'',
    ''America/Thunder_Bay'', ''America/Tijuana'', ''America/Toronto'', ''America/Tortola'',
    ''America/Vancouver'', ''America/Virgin'', ''America/Whitehorse'', ''America/Winnipeg'',
    ''America/Yakutat'', ''America/Yellowknife'', ''Antarctica/Casey'', ''Antarctica/Davis'',
    ''Antarctica/DumontDUrville'', ''Antarctica/Macquarie'', ''Antarctica/Mawson'',
    ''Antarctica/McMurdo'', ''Antarctica/Palmer'', ''Antarctica/Rothera'',
    ''Antarctica/South_Pole'', ''Antarctica/Syowa'', ''Antarctica/Troll'', ''Antarctica/Vostok'',
    ''Arctic/Longyearbyen'', ''Asia/Aden'', ''Asia/Almaty'', ''Asia/Amman'', ''Asia/Anadyr'',
    ''Asia/Aqtau'', ''Asia/Aqtobe'', ''Asia/Ashgabat'', ''Asia/Ashkhabad'', ''Asia/Atyrau'',
    ''Asia/Baghdad'', ''Asia/Bahrain'', ''Asia/Baku'', ''Asia/Bangkok'', ''Asia/Barnaul'',
    ''Asia/Beirut'', ''Asia/Bishkek'', ''Asia/Brunei'', ''Asia/Calcutta'', ''Asia/Chita'',
    ''Asia/Choibalsan'', ''Asia/Chongqing'', ''Asia/Chungking'', ''Asia/Colombo'', ''Asia/Dacca'',
    ''Asia/Damascus'', ''Asia/Dhaka'', ''Asia/Dili'', ''Asia/Dubai'', ''Asia/Dushanbe'',
    ''Asia/Famagusta'', ''Asia/Gaza'', ''Asia/Harbin'', ''Asia/Hebron'', ''Asia/Ho_Chi_Minh'',
    ''Asia/Hong_Kong'', ''Asia/Hovd'', ''Asia/Irkutsk'', ''Asia/Istanbul'', ''Asia/Jakarta'',
    ''Asia/Jayapura'', ''Asia/Jerusalem'', ''Asia/Kabul'', ''Asia/Kamchatka'', ''Asia/Karachi'',
    ''Asia/Kashgar'', ''Asia/Kathmandu'', ''Asia/Katmandu'', ''Asia/Khandyga'', ''Asia/Kolkata'',
    ''Asia/Krasnoyarsk'', ''Asia/Kuala_Lumpur'', ''Asia/Kuching'', ''Asia/Kuwait'', ''Asia/Macao'',
    ''Asia/Macau'', ''Asia/Magadan'', ''Asia/Makassar'', ''Asia/Manila'', ''Asia/Muscat'',
    ''Asia/Nicosia'', ''Asia/Novokuznetsk'']"

definition tz_names_3 :: "string list" where
  "tz_names_3 = [
    ''Asia/Novosibirsk'', ''Asia/Omsk'', ''Asia/Oral'', ''Asia/Phnom_Penh'', ''Asia/Pontianak'',
    ''Asia/Pyongyang'', ''Asia/Qatar'', ''Asia/Qyzylorda'', ''Asia/Rangoon'', ''Asia/Riyadh'',
    ''Asia/Saigon'', ''Asia/Sakhalin'', ''Asia/Samarkand'', ''Asia/Seoul'', ''Asia/Shanghai'',
    ''Asia/Singapore'', ''Asia/Srednekolymsk'', ''Asia/Taipei'', ''Asia/Tashkent'',
    ''Asia/Tbilisi'', ''Asia/Tehran'', ''Asia/Tel_Aviv'', ''Asia/Thimbu'', ''Asia/Thimphu'',
    ''Asia/Tokyo'', ''Asia/Tomsk'', ''Asia/Ujung_Pandang'', ''Asia/Ulaanbaatar'',
    ''Asia/Ulan_Bator'', ''Asia/Urumqi'', ''Asia/Ust-Nera'', ''Asia/Vientiane'',
    ''Asia/Vladivostok'', ''Asia/Yakutsk'', ''Asia/Yangon'', ''Asia/Yekaterinburg'',
    ''Asia/Yerevan'', ''Atlantic/Azores'', ''Atlantic/Bermuda'', ''Atlantic/Canary'',
    ''Atlantic/Cape_Verde'', ''Atlantic/Faeroe'', ''Atlantic/Faroe'', ''Atlantic/Jan_Mayen'',
    ''Atlantic/Madeira'', ''Atlantic/Reykjavik'', ''Atlantic/South_Georgia'',
    ''Atlantic/St_Helena'', ''Atlantic/Stanley'', ''Australia/ACT'', ''Australia/Adelaide'',
    ''Australia/Brisbane'', ''Australia/Broken_Hill'', ''Australia/Canberra'',
    ''Australia/Currie'', ''Australia/Darwin'', ''Australia/Eucla'', ''Australia/Hobart'',
    ''Australia/LHI'', ''Australia/Lindeman'', ''Australia/Lord_Howe'', ''Australia/Melbourne'',
    ''Australia/NSW'', ''Australia/North'', ''Australia/Perth'', ''Australia/Queensland'',
    ''Australia/South'', ''Australia/Sydney'', ''Australia/Tasmania'', ''Australia/Victoria'',
    ''Australia/West'', ''Australia/Yancowinna'', ''BET'', ''BST'', ''Brazil/Acre'',
    ''Brazil/DeNoronha'', ''Brazil/East'', ''Brazil/West'', ''CAT'', ''CET'', ''CNT'', ''CST'',
    ''CST6CDT'', ''CTT'', ''Canada/Atlantic'', ''Canada/Central'', ''Canada/East-Saskatchewan'',
    ''Canada/Eastern'', ''Canada/Mountain'', ''Canada/Newfoundland'', ''Canada/Pacific'',
    ''Canada/Saskatchewan'', ''Canada/Yukon'', ''Chile/Continental'', ''Chile/EasterIsland'',
    ''Cuba'', ''EAT'', ''ECT'', ''EET'', ''EST'']"

definition tz_names_4 :: "string list" where
  "tz_names_4 = [
    ''EST5EDT'', ''Egypt'', ''Eire'', ''Etc/GMT'', ''Etc/GMT+0'', ''Etc/GMT+1'', ''Etc/GMT+10'',
    ''Etc/GMT+11'', ''Etc/GMT+12'', ''Etc/GMT+2'', ''Etc/GMT+3'', ''Etc/GMT+4'', ''Etc/GMT+5'',
    ''Etc/GMT+6'', ''Etc/GMT+7'', ''Etc/GMT+8'', ''Etc/GMT+9'', ''Etc/GMT-0'', ''Etc/GMT-1'',
    ''Etc/GMT-10'', ''Etc/GMT-11'', ''Etc/GMT-12'', ''Etc/GMT-13'', ''Etc/GMT-14'', ''Etc/GMT-2'',
    ''Etc/GMT-3'', ''Etc/GMT-4'', ''Etc/GMT-5'', ''Etc/GMT-6'', ''Etc/GMT-7'', ''Etc/GMT-8'',
    ''Etc/GMT-9'', ''Etc/GMT0'', ''Etc/Greenwich'', ''Etc/UCT'', ''Etc/UTC'', ''Etc/Universal'',
    ''Etc/Zulu'', ''Europe/Amsterdam'', ''Europe/Andorra'', ''Europe/Astrakhan'',
    ''Europe/Athens'', ''Europe/Belfast'', ''Europe/Belgrade'', ''Europe/Berlin'',
    ''Europe/Bratislava'', ''Europe/Brussels'', ''Europe/Bucharest'', ''Europe/Budapest'',
    ''Europe/Busingen'', ''Europe/Chisinau'', ''Europe/Copenhagen'', ''Europe/Dublin'',
    ''Europe/Gibraltar'', ''Europe/Guernsey'', ''Europe/Helsinki'', ''Europe/Isle_of_Man'',
    ''Europe/Istanbul'', ''Europe/Jersey'', ''Europe/Kaliningrad'', ''Europe/Kiev'',
    ''Europe/Kirov'', ''Europe/Lisbon'', ''Europe/Ljubljana'', ''Europe/London'',
    ''Europe/Luxembourg'', ''Europe/Madrid'', ''Europe/Malta'', ''Europe/Mariehamn'',
    ''Europe/Minsk'', ''Europe/Monaco'', ''Europe/Moscow'', ''Europe/Nicosia'', ''Europe/Oslo'',
    ''Europe/Paris'', ''Europe/Podgorica'', ''Europe/Prague'', ''Europe/Riga'', ''Europe/Rome'',
    ''Europe/Samara'', ''Europe/San_Marino'', ''Europe/Sarajevo'', ''Europe/Saratov'',
    ''Europe/Simferopol'', ''Europe/Skopje'', ''Europe/Sofia'', ''Europe/Stockholm'',
    ''Europe/Tallinn'', ''Europe/Tirane'', ''Europe/Tiraspol'', ''Europe/Ulyanovsk'',
    ''Europe/Uzhgorod'', ''Europe/Vaduz'', ''Europe/Vatican'', ''Europe/Vienna'',
    ''Europe/Vilnius'', ''Europe/Volgograd'', ''Europe/Warsaw'', ''Europe/Zagreb'',
    ''Europe/Zaporozhye'']"

definition tz_names_5 :: "string list" where
  "tz_names_5 = [
    ''Europe/Zurich'', ''Factory'', ''GB'', ''GB-Eire'', ''GMT+0'', ''GMT-0'', ''GMT0'',
    ''Greenwich'', ''HST'', ''Hongkong'', ''IET'', ''IST'', ''Iceland'', ''Indian/Antananarivo'',
    ''Indian/Chagos'', ''Indian/Christmas'', ''Indian/Cocos'', ''Indian/Comoro'',
    ''Indian/Kerguelen'', ''Indian/Mahe'', ''Indian/Maldives'', ''Indian/Mauritius'',
    ''Indian/Mayotte'', ''Indian/Reunion'', ''Iran'', ''Israel'', ''JST'', ''Jamaica'', ''Japan'',
    ''Kwajalein'', ''Libya'', ''MET'', ''MIT'', ''MST'', ''MST7MDT'', ''Mexico/BajaNorte'',
    ''Mexico/BajaSur'', ''Mexico/General'', ''NET'', ''NST'', ''NZ'', ''NZ-CHAT'', ''Navajo'',
    ''PLT'', ''PNT'', ''PRC'', ''PRT'', ''PST'', ''PST8PDT'', ''Pacific/Apia'',
    ''Pacific/Auckland'', ''Pacific/Bougainville'', ''Pacific/Chatham'', ''Pacific/Chuuk'',
    ''Pacific/Easter'', ''Pacific/Efate'', ''Pacific/Enderbury'', ''Pacific/Fakaofo'',
    ''Pacific/Fiji'', ''Pacific/Funafuti'', ''Pacific/Galapagos'', ''Pacific/Gambier'',
    ''Pacific/Guadalcanal'', ''Pacific/Guam'', ''Pacific/Honolulu'', ''Pacific/Johnston'',
    ''Pacific/Kiritimati'', ''Pacific/Kosrae'', ''Pacific/Kwajalein'', ''Pacific/Majuro'',
    ''Pacific/Marquesas'', ''Pacific/Midway'', ''Pacific/Nauru'', ''Pacific/Niue'',
    ''Pacific/Norfolk'', ''Pacific/Noumea'', ''Pacific/Pago_Pago'', ''Pacific/Palau'',
    ''Pacific/Pitcairn'', ''Pacific/Pohnpei'', ''Pacific/Ponape'', ''Pacific/Port_Moresby'',
    ''Pacific/Rarotonga'', ''Pacific/Saipan'', ''Pacific/Samoa'', ''Pacific/Tahiti'',
    ''Pacific/Tarawa'', ''Pacific/Tongatapu'', ''Pacific/Truk'', ''Pacific/Wake'',
    ''Pacific/Wallis'', ''Pacific/Yap'', ''Poland'', ''Portugal'', ''ROC'', ''ROK'', ''SST'',
    ''Singapore'', ''SystemV/AST4'', ''SystemV/AST4ADT'']"

definition tz_names_6 :: "string list" where
  "tz_names_6 = [
    ''SystemV/CST6'', ''SystemV/CST6CDT'', ''SystemV/EST5'', ''SystemV/EST5EDT'',
    ''SystemV/HST10'', ''SystemV/MST7'', ''SystemV/MST7MDT'', ''SystemV/PST8'',
    ''SystemV/PST8PDT'', ''SystemV/YST9'', ''SystemV/YST9YDT'', ''Turkey'', ''UCT'', ''US/Alaska'',
    ''US/Aleutian'', ''US/Arizona'', ''US/Central'', ''US/East-Indiana'', ''US/Eastern'',
    ''US/Hawaii'', ''US/Indiana-Starke'', ''US/Michigan'', ''US/Mountain'', ''US/Pacific'',
    ''US/Pacific-New'', ''US/Samoa'', ''UTC'', ''Universal'', ''VST'', ''W-SU'', ''WET'', ''Zulu'',
    ''America/Nuuk'', ''Asia/Qostanay'', ''Pacific/Kanton'', ''Europe/Kyiv'',
    ''America/Ciudad_Juarez'']"

definition TZ_NAMES :: "string list" where
  "TZ_NAMES = tz_names_0 @ tz_names_1 @ tz_names_2 @ tz_names_3 @ tz_names_4 @ tz_names_5 @ tz_names_6"

definition TZ_MAX_ID :: int where
  "TZ_MAX_ID = 65535"

lemmas tz_parts = tz_names_0_def tz_names_1_def tz_names_2_def tz_names_3_def tz_names_4_def tz_names_5_def tz_names_6_def

text \<open>
  What the id functions rely on: no two names agree when letter case is ignored, no
  name looks like an offset, and none is a marker of an unknown id.
\<close>

fun tz_key :: "nat \<Rightarrow> string \<Rightarrow> nat" where
  "tz_key a [] = a"
| "tz_key a (c # s) = tz_key ((a * 10 + code (lower_char c)) mod 65536) s"

lemma tz_key_lower: "tz_key a (to_lower s) = tz_key a s"
  by (induction s arbitrary: a) (simp_all add: lower_char_idem)

definition tz_keys_0 :: "nat list" where
  "tz_keys_0 = [
    11506, 10806, 10826, 10846, 10956, 10966, 12752, 32105, 57497, 14387, 30865, 31265, 16345,
    18039, 18342, 38515, 41405, 23925, 13641, 50719, 55007, 55925, 17697, 60752, 54059, 38269,
    36661, 3036, 16512, 23373, 31581, 35375, 27081, 2477, 31675, 7309, 34483, 9421, 39413,
    28595, 25913, 63437, 42683, 1143, 7323, 8709, 2421, 51385, 15691, 16665, 14905, 40311,
    30824, 23359, 10311, 54835, 59729, 47053, 44525, 20409, 3581, 54607, 30881, 61975, 53129,
    34245, 39071, 1115, 11249, 25019, 30153, 58593, 7821, 29649, 38508, 40593, 45476, 42375,
    51817, 63168, 41836, 5271, 43587, 60045, 29281, 47959, 21469, 54644, 637, 51469, 57791,
    50629, 40659, 28397, 17292, 12497, 8351, 22177, 29092, 34529]"

definition tz_keys_1 :: "nat list" where
  "tz_keys_1 = [
    18699, 49264, 40433, 19875, 29468, 15281, 46413, 34366, 62296, 32689, 27964, 8986, 58211,
    36948, 24889, 40032, 49165, 18784, 30125, 51721, 63507, 49100, 50451, 38691, 24749, 4721,
    27093, 34322, 38185, 45602, 721, 22479, 22773, 40782, 20853, 12047, 7341, 50659, 6205,
    28777, 39157, 35173, 49810, 16283, 12859, 65331, 21493, 41263, 64596, 51123, 51436, 15191,
    56845, 37877, 65297, 23333, 11607, 34057, 59566, 44227, 8665, 17560, 22241, 12711, 13133,
    33569, 61005, 28204, 38604, 40979, 47385, 28730, 42566, 9587, 6003, 4552, 17795, 41345,
    30778, 59092, 44871, 55819, 6279, 22855, 24071, 56194, 5443, 20348, 4541, 60343, 29169, 445,
    17764, 25654, 39405, 43481, 38801, 16589, 40073, 12702]"

definition tz_keys_2 :: "nat list" where
  "tz_keys_2 = [
    6799, 13121, 52293, 20195, 4780, 60949, 26199, 38751, 52855, 58115, 12751, 23593, 22636,
    27140, 20777, 35313, 43235, 57689, 12167, 17173, 61780, 35492, 32803, 47777, 9638, 9445,
    43407, 53741, 17109, 26399, 63224, 13655, 23848, 43561, 17385, 30555, 33456, 50745, 32500,
    56744, 60749, 52932, 3556, 57639, 53413, 31774, 318, 23183, 59534, 13788, 57511, 63845,
    44370, 22918, 62777, 33275, 54449, 2173, 38164, 51727, 16415, 27087, 4403, 38233, 11283,
    60309, 24291, 47289, 2221, 62641, 368, 26028, 59536, 3671, 65004, 32497, 51398, 33193,
    26361, 14791, 8958, 21479, 53005, 4808, 34189, 62285, 64587, 26661, 40521, 3740, 10119,
    46522, 28861, 28867, 42496, 55312, 38333, 46034, 48591, 25505]"

definition tz_keys_3 :: "nat list" where
  "tz_keys_3 = [
    51097, 6245, 6566, 21368, 19237, 20911, 5028, 30409, 7928, 38636, 43352, 10176, 62732,
    28722, 46379, 37925, 7557, 13075, 6092, 30747, 52240, 62016, 17221, 42525, 48365, 48501,
    22839, 46532, 50816, 32751, 59529, 22141, 57, 45649, 58528, 38111, 40920, 4357, 18693,
    17329, 45149, 47835, 12587, 38844, 49409, 43973, 1111, 28945, 64283, 7678, 13465, 38837,
    47448, 58245, 7623, 39204, 38845, 36812, 8817, 35732, 3095, 5617, 9141, 58896, 3360, 52260,
    43660, 60339, 8011, 15867, 33550, 27229, 10926, 11066, 29, 36737, 3854, 22254, 10986, 11026,
    11116, 11166, 51672, 11176, 38029, 18718, 44060, 29190, 7884, 46132, 44749, 11292, 13000,
    38790, 41796, 46241, 11186, 11206, 11226, 11366]"

definition tz_keys_4 :: "nat list" where
  "tz_keys_4 = [
    19256, 12224, 47205, 9082, 56710, 56711, 42870, 42871, 42872, 56712, 56713, 56714, 56715,
    56716, 56717, 56718, 56719, 56730, 56731, 43070, 43071, 43072, 43073, 43074, 56732, 56733,
    56734, 56735, 56736, 56737, 56738, 56739, 25332, 17762, 10382, 10535, 50114, 45121, 58535,
    31413, 60064, 59539, 4134, 945, 20184, 59921, 63271, 27398, 694, 5884, 33711, 51972, 36504,
    44988, 3847, 16807, 24036, 64710, 34423, 24462, 52724, 4300, 11668, 51937, 1332, 43687,
    18198, 15729, 12228, 23929, 35377, 40705, 4047, 57787, 46237, 4451, 25467, 59723, 60387,
    35761, 3583, 6559, 14852, 43354, 8113, 23483, 41617, 47230, 24117, 59722, 52569, 32586,
    39428, 26348, 15805, 31257, 16862, 49197, 10436, 51263]"

definition tz_keys_5 :: "nat list" where
  "tz_keys_5 = [
    23914, 30905, 1128, 50997, 36966, 36986, 49572, 37730, 11666, 16375, 11626, 11766, 30180,
    28527, 54797, 25921, 32413, 6551, 45000, 57745, 61477, 3257, 4037, 53480, 51944, 43874,
    11866, 47899, 55168, 30700, 16459, 12026, 12066, 12166, 26664, 16269, 15128, 19334, 12126,
    12266, 1222, 11558, 40247, 12396, 12416, 12439, 12456, 12466, 13308, 21811, 37572, 27349,
    23879, 35009, 19292, 50993, 11953, 46335, 26129, 46629, 60429, 18152, 11270, 28243, 36785,
    35052, 26349, 38143, 8684, 24087, 161, 32591, 6917, 34235, 18671, 11999, 34409, 25847,
    55742, 26155, 7305, 58113, 22167, 32592, 56067, 5, 9227, 15945, 41141, 42335, 42061, 43750,
    42596, 11706, 12609, 12617, 12766, 8741, 10752, 14912]"

definition tz_keys_6 :: "nat list" where
  "tz_keys_6 = [
    12754, 51032, 14753, 18616, 46466, 22755, 26024, 25756, 12668, 34757, 36136, 50775, 12806,
    50179, 9292, 9769, 33054, 11897, 43526, 5007, 41187, 14012, 20172, 59085, 34553, 30979,
    12959, 4546, 13066, 59231, 13026, 3825, 18481, 42115, 24564, 54364, 31020]"

definition tz_keys :: "nat list" where
  "tz_keys = tz_keys_0 @ tz_keys_1 @ tz_keys_2 @ tz_keys_3 @ tz_keys_4 @ tz_keys_5 @ tz_keys_6"

lemmas tz_key_parts = tz_keys_def tz_keys_0_def tz_keys_1_def tz_keys_2_def tz_keys_3_def tz_keys_4_def tz_keys_5_def tz_keys_6_def


lemma keys_0: "map (tz_key 0) tz_names_0 = tz_keys_0"
  by (simp add: tz_names_0_def tz_keys_0_def lower_char_code is_upper_code)

lemma keys_1: "map (tz_key 0) tz_names_1 = tz_keys_1"
  by (simp add: tz_names_1_def tz_keys_1_def lower_char_code is_upper_code)

lemma keys_2: "map (tz_key 0) tz_names_2 = tz_keys_2"
  by (simp add: tz_names_2_def tz_keys_2_def lower_char_code is_upper_code)

lemma keys_3: "map (tz_key 0) tz_names_3 = tz_keys_3"
  by (simp add: tz_names_3_def tz_keys_3_def lower_char_code is_upper_code)

lemma keys_4: "map (tz_key 0) tz_names_4 = tz_keys_4"
  by (simp add: tz_names_4_def tz_keys_4_def lower_char_code is_upper_code)

lemma keys_5: "map (tz_key 0) tz_names_5 = tz_keys_5"
  by (simp add: tz_names_5_def tz_keys_5_def lower_char_code is_upper_code)

lemma keys_6: "map (tz_key 0) tz_names_6 = tz_keys_6"
  by (simp add: tz_names_6_def tz_keys_6_def lower_char_code is_upper_code)

lemma distinct_tz_keys: "distinct tz_keys"
  by (simp add: tz_key_parts)

lemma distinct_TZ_NAMES: "distinct (map to_lower TZ_NAMES)"
proof (rule distinct_map [THEN iffD1, THEN conjunct1])
  have "map (tz_key 0) (map to_lower TZ_NAMES) = tz_keys"
    by (simp only: map_map comp_def tz_key_lower TZ_NAMES_def tz_keys_def map_append keys_0 keys_1 keys_2 keys_3 keys_4 keys_5 keys_6)
  then show "distinct (map (tz_key 0) (map to_lower TZ_NAMES))"
    by (simp only: distinct_tz_keys)
qed


lemma length_TZ_NAMES [simp]: "length TZ_NAMES = 637"
  by (simp add: TZ_NAMES_def tz_parts)


lemma TZ_NAMES_letters:
  "list_all (\<lambda>s. s \<noteq> [] \<and> hd s \<noteq> CHR ''+'' \<and> hd s \<noteq> CHR ''-'' \<and> hd s \<noteq> CHR ''t'') TZ_NAMES"
  by (simp add: TZ_NAMES_def tz_parts)

end
