(* ===== verification/Zoned_Date.thy ===== *)
theory Zoned_Date
  imports Timezones Errors
begin

text \<open>
  \<open>types/zoned-date.ts\<close>: time zone ids as the wire carries them and the zone strings
  the driver shows, in both directions.
\<close>

definition ONE_DAY_MINUTES :: int where
  "ONE_DAY_MINUTES = 1439"

record zoned_date =
  zd_date :: int
  zd_zone :: string

text \<open>\<open>String(n).padStart(2, '0')\<close>.\<close>

definition pad_start :: "nat \<Rightarrow> char \<Rightarrow> string \<Rightarrow> string" where
  "pad_start n c s = replicate (n - length s) c @ s"

definition tz_id_to_zone :: "int \<Rightarrow> string" where
  "tz_id_to_zone i =
     (if i \<le> 2 * ONE_DAY_MINUTES then
        (let disp = i - ONE_DAY_MINUTES; a = \<bar>disp\<bar>;
             hh = pad_start 2 (CHR ''0'') (dec_int (a div 60));
             mm = pad_start 2 (CHR ''0'') (dec_int (a mod 60))
         in (if disp < 0 then CHR ''-'' else CHR ''+'') # hh @ CHR '':'' # mm)
      else if TZ_MAX_ID < i then ''tz#'' @ dec_int i
      else case at TZ_NAMES (nat (TZ_MAX_ID - i)) of Some n \<Rightarrow> n | None \<Rightarrow> ''tz#'' @ dec_int i)"

text \<open>\<open>/^([+-])(\d{1,2}):?(\d{2})$/\<close>: the sign and the two numbers.\<close>

definition all_digits :: "string \<Rightarrow> bool" where
  "all_digits s = list_all is_digit s"

definition match_offset :: "string \<Rightarrow> (char \<times> nat \<times> nat) option" where
  "match_offset s =
     (case s of [] \<Rightarrow> None | sg # r \<Rightarrow>
        if sg \<noteq> CHR ''+'' \<and> sg \<noteq> CHR ''-'' then None
        else (case r of
            [a, b, c, d, e] \<Rightarrow> if c = CHR '':'' \<and> all_digits [a, b, d, e]
                then Some (sg, digits_val [a, b], digits_val [d, e]) else None
          | [a, b, c, d] \<Rightarrow> if all_digits [a, b, c, d] then Some (sg, digits_val [a, b], digits_val [c, d])
                else if b = CHR '':'' \<and> all_digits [a, c, d] then Some (sg, digits_val [a], digits_val [c, d])
                else None
          | [a, b, c] \<Rightarrow> if all_digits [a, b, c] then Some (sg, digits_val [a], digits_val [b, c]) else None
          | _ \<Rightarrow> None))"

text \<open>\<open>/^tz#(\d+)$/\<close>.\<close>

definition match_marker :: "string \<Rightarrow> nat option" where
  "match_marker s = (if starts_at s 0 ''tz#'' \<and> drop 3 s \<noteq> [] \<and> all_digits (drop 3 s)
     then Some (digits_val (drop 3 s)) else None)"

text \<open>The lazily built map of lower-case names; a later entry replaces an earlier one.\<close>

definition name_to_id :: "string \<Rightarrow> int option" where
  "name_to_id = map_of (rev (map2 (\<lambda>n i. (to_lower n, TZ_MAX_ID - int i)) TZ_NAMES [0..<length TZ_NAMES]))"

definition zone_to_tz_id :: "string \<Rightarrow> int res" where
  "zone_to_tz_id zone =
     (case match_offset zone of
        Some (sg, h, m) \<Rightarrow>
          (let disp = (if sg = CHR ''-'' then - 1 else 1) * (int h * 60 + int m) in
           if ONE_DAY_MINUTES < \<bar>disp\<bar>
           then Inl (fb_error (''Time zone offset out of range: '' @ [quote] @ zone @ [quote]))
           else Inr (disp + ONE_DAY_MINUTES))
      | None \<Rightarrow>
          (case match_marker zone of
             Some n \<Rightarrow> Inr (int n)
           | None \<Rightarrow>
               (case name_to_id (to_lower zone) of
                  Some i \<Rightarrow> Inr i
                | None \<Rightarrow> Inl (fb_error (''Unknown time zone: '' @ [quote] @ zone @ [quote]
                    @ '' (expected an IANA name like '' @ [quote] @ ''Europe/Lisbon'' @ [quote]
                    @ '' or an offset like '' @ [quote] @ ''+02:00'' @ [quote] @ '')'')))))"

subsection \<open>Lemmas\<close>

lemma dec_nat_small: "n < 10 \<Longrightarrow> dec_nat n = [digit_char n]"
  by (subst dec_nat.simps) simp

lemma dec_nat_two: "10 \<le> n \<Longrightarrow> n < 100 \<Longrightarrow> dec_nat n = [digit_char (n div 10), digit_char (n mod 10)]"
  by (subst dec_nat.simps) (simp add: dec_nat_small)

lemma digit_char_0: "digit_char 0 = CHR ''0''"
  by code_simp

lemma pad_two:
  assumes "0 \<le> v" and "v < 100"
  shows "pad_start 2 (CHR ''0'') (dec_int v) = [digit_char (nat v div 10), digit_char (nat v mod 10)]"
proof (cases "nat v < 10")
  case True
  then show ?thesis
    using assms by (simp add: pad_start_def dec_int_def dec_nat_small digit_char_0)
next
  case False
  then show ?thesis
    using assms by (simp add: pad_start_def dec_int_def dec_nat_two nat_less_iff)
qed

lemma digits_two: "n < 100 \<Longrightarrow> digits_val [digit_char (n div 10), digit_char (n mod 10)] = n"
  by (simp add: digits_val_def)

lemma offset_zone:
  assumes "0 \<le> i" and "i \<le> 2878"
  shows "zone_to_tz_id (tz_id_to_zone i) = Inr i"
proof -
  define a where "a = nat \<bar>i - 1439\<bar>"
  have a: "a < 1440" "\<bar>i - 1439\<bar> = int a"
    using assms by (auto simp: a_def)
  define h where "h = a div 60" define m where "m = a mod 60"
  have "h * 60 + m = a" by (simp add: h_def m_def)
  then have "int h * 60 + int m = int a" by linarith
  moreover have "h < 24" "m < 60"
    using a(1) by (simp_all add: h_def m_def less_mult_imp_div_less)
  ultimately have hm: "h < 24" "m < 60" "int h * 60 + int m = int a" by simp_all
  have ia: "int a div 60 = int h" "int a mod 60 = int m"
    by (simp_all add: h_def m_def zdiv_int zmod_int)
  let ?sg = "if i - 1439 < 0 then CHR ''-'' else CHR ''+''"
  have "pad_start 2 (CHR ''0'') (dec_int (\<bar>i - 1439\<bar> div 60)) = [digit_char (h div 10), digit_char (h mod 10)]"
    "pad_start 2 (CHR ''0'') (dec_int (\<bar>i - 1439\<bar> mod 60)) = [digit_char (m div 10), digit_char (m mod 10)]"
    using pad_two [of "int h"] pad_two [of "int m"] hm(1,2) by (simp_all add: a(2) ia)
  then have z: "tz_id_to_zone i = [?sg, digit_char (h div 10), digit_char (h mod 10), CHR '':'',
      digit_char (m div 10), digit_char (m mod 10)]"
    using assms by (simp add: tz_id_to_zone_def ONE_DAY_MINUTES_def Let_def)
  have "match_offset (tz_id_to_zone i) = Some (?sg, h, m)"
    using hm(1,2) by (simp add: z match_offset_def all_digits_def digits_two less_mult_imp_div_less)
  then show ?thesis
    using hm(3) a assms by (auto simp: zone_to_tz_id_def Let_def ONE_DAY_MINUTES_def)
qed

lemma marker_zone:
  assumes "0 \<le> i"
  shows "zone_to_tz_id (''tz#'' @ dec_int i) = Inr i"
proof -
  have "match_offset (''tz#'' @ dec_int i) = None"
    by (simp add: match_offset_def)
  moreover have "all_digits (dec_int i)"
    using assms dec_nat_digits by (auto simp: all_digits_def dec_int_def list_all_iff)
  then have "match_marker (''tz#'' @ dec_int i) = Some (nat i)"
    using assms by (simp add: match_marker_def starts_at_def dec_int_def)
  ultimately show ?thesis
    using assms by (simp add: zone_to_tz_id_def)
qed

lemma name_to_id_nth:
  assumes "k < length TZ_NAMES"
  shows "name_to_id (to_lower (TZ_NAMES ! k)) = Some (TZ_MAX_ID - int k)"
proof -
  let ?ps = "map2 (\<lambda>n i. (to_lower n, TZ_MAX_ID - int i)) TZ_NAMES [0..<length TZ_NAMES]"
  have "map fst ?ps = map to_lower TZ_NAMES"
    by (intro nth_equalityI) simp_all
  then have "distinct (map fst (rev ?ps))"
    using distinct_TZ_NAMES by (simp add: rev_map [symmetric])
  moreover have "(to_lower (TZ_NAMES ! k), TZ_MAX_ID - int k) \<in> set (rev ?ps)"
    using assms by (force simp: in_set_conv_nth)
  ultimately show ?thesis
    unfolding name_to_id_def by (rule map_of_is_SomeI)
qed

lemma named_zone:
  assumes "k < length TZ_NAMES"
  shows "zone_to_tz_id (TZ_NAMES ! k) = Inr (TZ_MAX_ID - int k)"
proof -
  let ?s = "TZ_NAMES ! k"
  have "?s \<noteq> [] \<and> hd ?s \<noteq> CHR ''+'' \<and> hd ?s \<noteq> CHR ''-'' \<and> hd ?s \<noteq> CHR ''t''"
    using TZ_NAMES_letters assms by (simp add: list_all_length)
  then obtain c cs where s: "?s = c # cs" "c \<noteq> CHR ''+''" "c \<noteq> CHR ''-''" "c \<noteq> CHR ''t''"
    by (cases ?s) auto
  then have "match_offset ?s = None" "match_marker ?s = None"
    by (simp_all add: match_offset_def match_marker_def starts_at_def)
  then show ?thesis
    using name_to_id_nth [OF assms] by (simp add: zone_to_tz_id_def)
qed

subsection \<open>Properties\<close>

text \<open>
  Every time zone id the wire can carry survives the trip through its zone string:
  the offsets, all the named zones of the table, and ids this driver does not know.
\<close>

theorem tz_id_roundtrip:
  assumes "0 \<le> i" and "i \<le> 65535"
  shows "zone_to_tz_id (tz_id_to_zone i) = Inr i"
proof (cases "i \<le> 2878")
  case True
  with assms offset_zone show ?thesis by simp
next
  case False
  let ?k = "nat (TZ_MAX_ID - i)"
  have z: "tz_id_to_zone i = (case at TZ_NAMES ?k of Some n \<Rightarrow> n | None \<Rightarrow> ''tz#'' @ dec_int i)"
    using False assms by (simp add: tz_id_to_zone_def ONE_DAY_MINUTES_def TZ_MAX_ID_def)
  show ?thesis
  proof (cases "?k < length TZ_NAMES")
    case True
    then have "tz_id_to_zone i = TZ_NAMES ! ?k"
      by (simp add: z at_def)
    with named_zone [OF True] assms show ?thesis by (simp add: TZ_MAX_ID_def)
  next
    case False
    then have "tz_id_to_zone i = ''tz#'' @ dec_int i"
      by (simp add: z at_def)
    with marker_zone assms show ?thesis by simp
  qed
qed

theorem tz_id_roundtrip_witness: "zone_to_tz_id (tz_id_to_zone 65535) = Inr 65535"
  by (rule tz_id_roundtrip) simp_all

end
