(* ===== verification/Dec_Float.thy ===== *)
theory Dec_Float
  imports Errors
begin

text \<open>
  \<open>types/decfloat.ts\<close>: decimal floating point values between decimal strings and the
  64- and 128-bit formats with densely packed decimal digits. A \<open>bigint\<close> is an \<open>int\<close>;
  a number that may be \<open>NaN\<close> is an \<open>int option\<close>.
\<close>

unbundle bit_operations_syntax

subsection \<open>Declets\<close>

text \<open>The bits of three decimal digits and the ten bits that pack them.\<close>

definition declet_bits ::
  "bool \<times> bool \<times> bool \<times> bool \<Rightarrow> bool \<times> bool \<times> bool \<times> bool \<Rightarrow> bool \<times> bool \<times> bool \<times> bool \<Rightarrow> bool list" where
  "declet_bits = (\<lambda>(a, b, c, d) (e, f, g, h) (i, j, k, m).
     if \<not> a \<and> \<not> e \<and> \<not> i then [b, c, d, f, g, h, False, j, k, m]
     else if \<not> a \<and> \<not> e \<and> i then [b, c, d, f, g, h, True, False, False, m]
     else if \<not> a \<and> e \<and> \<not> i then [b, c, d, j, k, h, True, False, True, m]
     else if \<not> a \<and> e \<and> i then [b, c, d, True, False, h, True, True, True, m]
     else if a \<and> \<not> e \<and> \<not> i then [j, k, d, f, g, h, True, True, False, m]
     else if a \<and> \<not> e \<and> i then [f, g, d, False, True, h, True, True, True, m]
     else if a \<and> e \<and> \<not> i then [j, k, d, False, False, h, True, True, True, m]
     else [False, False, d, True, True, h, True, True, True, m])"

definition nibble :: "nat \<Rightarrow> bool \<times> bool \<times> bool \<times> bool" where
  "nibble d = (odd (d div 8), odd (d div 4), odd (d div 2), odd d)"

definition bits_val :: "bool list \<Rightarrow> nat" where
  "bits_val bs = foldl (\<lambda>acc b. 2 * acc + of_bool b) 0 bs"

definition encode_declet :: "nat \<Rightarrow> nat \<Rightarrow> nat \<Rightarrow> nat" where
  "encode_declet d2 d1 d0 = bits_val (declet_bits (nibble d2) (nibble d1) (nibble d0))"

text \<open>
  The table of \<open>buildDpdTable\<close>: 1024 zeros, overwritten in the order of the loops.
\<close>

definition dpd_writes :: "(nat \<times> nat) list" where
  "dpd_writes = [(encode_declet d2 d1 d0, d2 * 100 + d1 * 10 + d0).
     d2 \<leftarrow> [0..<10], d1 \<leftarrow> [0..<10], d0 \<leftarrow> [0..<10]]"

definition DPD_TO_INT :: "nat \<Rightarrow> nat" where
  "DPD_TO_INT declet = (case map_of (rev dpd_writes) declet of Some v \<Rightarrow> v | None \<Rightarrow> 0)"

subsection \<open>Formats\<close>

record decimal_format =
  df_width :: nat
  df_bias :: int
  df_exp_cont_bits :: nat
  df_declets :: nat

definition DEC64 :: decimal_format where
  "DEC64 = \<lparr>df_width = 8, df_bias = 398, df_exp_cont_bits = 8, df_declets = 5\<rparr>"

definition DEC128 :: decimal_format where
  "DEC128 = \<lparr>df_width = 16, df_bias = 6176, df_exp_cont_bits = 12, df_declets = 11\<rparr>"

definition format_of :: "nat \<Rightarrow> decimal_format" where
  "format_of width = (if width = 8 then DEC64 else DEC128)"

subsection \<open>Decoding\<close>

text \<open>\<open>s.replace(/^0+(?=\d)/, '')\<close> on a string of digits.\<close>

fun strip_zeros :: "string \<Rightarrow> string" where
  "strip_zeros (c # d # s) = (if c = CHR ''0'' \<and> is_digit d then strip_zeros (d # s) else c # d # s)"
| "strip_zeros s = s"

definition pad_zeros :: "nat \<Rightarrow> string \<Rightarrow> string" where
  "pad_zeros n s = replicate (n - length s) (CHR ''0'') @ s"

definition dec_format :: "bool \<Rightarrow> string \<Rightarrow> int \<Rightarrow> string" where
  "dec_format neg digits e =
     (let s = (if neg then ''-'' else '''') in
      if digits = ''0'' then (if neg then ''-0'' else ''0'')
      else if e = 0 then s @ digits
      else if 0 < e then s @ digits @ replicate (nat e) (CHR ''0'')
      else (let point = int (length digits) + e in
        if 0 < point then s @ take (nat point) digits @ ''.'' @ drop (nat point) digits
        else s @ ''0.'' @ replicate (nat (- point)) (CHR ''0'') @ digits))"

text \<open>The field of \<open>n\<close> bits at position \<open>k\<close>: \<open>(v >> k) & ((1 << n) - 1)\<close>.\<close>

definition field :: "nat \<Rightarrow> nat \<Rightarrow> int \<Rightarrow> int" where
  "field k n v = v div 2 ^ k mod 2 ^ n"

definition declet_digits :: "int \<Rightarrow> nat \<Rightarrow> string" where
  "declet_digits coeff d = pad_zeros 3 (dec_nat (DPD_TO_INT (nat (field (10 * d) 10 coeff))))"

definition decode_dec_float :: "bytes \<Rightarrow> string" where
  "decode_dec_float buf =
     (let fmt = format_of (length buf);
          total = 8 * df_width fmt;
          v = be_val buf;
          neg = (field (total - 1) 1 v = 1);
          combo = field (total - 6) 5 v;
          exp_cont = field (total - 6 - df_exp_cont_bits fmt) (df_exp_cont_bits fmt) v;
          coeff = field 0 (10 * df_declets fmt) v
      in if 30 \<le> combo then (if combo = 30 then (if neg then ''-Infinity'' else ''Infinity'') else ''NaN'')
         else (let (exp_msb, msd) = (if combo div 8 = 3 then (combo div 2 mod 4, 8 + combo mod 2)
                                     else (combo div 8 mod 4, combo mod 8));
                   biased = exp_msb * 2 ^ df_exp_cont_bits fmt + exp_cont;
                   e = biased - df_bias fmt;
                   digits = dec_int msd @ concat (map (declet_digits coeff) (rev [0..<df_declets fmt]))
               in dec_format neg (strip_zeros digits) e))"

subsection \<open>Parsing a literal\<close>

text \<open>\<open>parseInt(s, 10)\<close>: white space, a sign, the leading digits; \<open>None\<close> is \<open>NaN\<close>.\<close>

definition parse_int :: "string \<Rightarrow> int option" where
  "parse_int s =
     (let t = dropWhile is_ws s;
          neg = (t \<noteq> [] \<and> hd t = CHR ''-'');
          u = (if t \<noteq> [] \<and> (hd t = CHR ''-'' \<or> hd t = CHR ''+'') then tl t else t);
          ds = takeWhile is_digit u
      in if ds = [] then None else Some ((if neg then - 1 else 1) * int (digits_val ds)))"

definition is_exp_char :: "char \<Rightarrow> bool" where
  "is_exp_char c = (c = CHR ''e'' \<or> c = CHR ''E'')"

definition invalid_literal :: "string \<Rightarrow> err" where
  "invalid_literal input = JsError (''Invalid decimal literal: '' @ input)"

definition parse_decimal :: "string \<Rightarrow> (bool \<times> string \<times> int option) res" where
  "parse_decimal input =
     (let s = trim input;
          neg = (s \<noteq> [] \<and> hd s = CHR ''-'');
          s = (if s \<noteq> [] \<and> (hd s = CHR ''+'' \<or> hd s = CHR ''-'') then tl s else s);
          mant = takeWhile (\<lambda>c. \<not> is_exp_char c) s;
          e = (if length mant < length s then parse_int (drop (Suc (length mant)) s) else Some 0);
          whole = takeWhile (\<lambda>c. c \<noteq> CHR ''.'') mant;
          frac = drop (Suc (length whole)) mant;
          (ds, e) = (if length whole < length mant
            then (whole @ frac, map_option (\<lambda>x. x - int (length frac)) e) else (mant, e))
      in if ds = [] \<or> \<not> list_all is_digit ds then Inl (invalid_literal input)
         else Inr (neg, strip_zeros ds, e))"

subsection \<open>Encoding\<close>

definition max_digits :: "decimal_format \<Rightarrow> nat" where
  "max_digits fmt = 3 * df_declets fmt + 1"

text \<open>The rounding step: more digits than fit are rounded half up.\<close>

definition fit_digits :: "nat \<Rightarrow> string \<Rightarrow> int option \<Rightarrow> string \<times> int option" where
  "fit_digits mx digits e =
     (if mx < length digits then
        (let dropped = length digits - mx;
             coeff = digits_val (take mx digits) + (if 5 \<le> digit_val (digits ! mx) then 1 else 0);
             e' = map_option (\<lambda>x. x + int dropped) e;
             ds = dec_nat coeff
         in if mx < length ds then (take mx ds, map_option (\<lambda>x. x + 1) e') else (ds, e'))
      else (digits, e))"

text \<open>
  The exponent bits are 32-bit operations on a number that may be \<open>NaN\<close>, which counts
  as zero.
\<close>

definition exp_bits :: "nat \<Rightarrow> int option \<Rightarrow> int \<times> int" where
  "exp_bits n biased = (let b = (case biased of None \<Rightarrow> 0 | Some v \<Rightarrow> to_int32 v) in (b div 2 ^ n, b mod 2 ^ n))"

definition combination :: "int \<Rightarrow> int \<Rightarrow> int" where
  "combination exp_msb msd = (if msd \<le> 7 then push_bit 3 exp_msb OR msd
     else 24 OR push_bit 1 exp_msb OR (msd - 8))"

fun pack_declets :: "nat \<Rightarrow> int \<Rightarrow> string \<Rightarrow> int" where
  "pack_declets (Suc n) v (d2 # d1 # d0 # rest) =
     pack_declets n (push_bit 10 v OR int (encode_declet (digit_val d2) (digit_val d1) (digit_val d0))) rest"
| "pack_declets n v rest = v"

text \<open>
  The part of \<open>encodeDecFloat\<close> after the special values, on a parsed literal.
\<close>

definition encode_parsed :: "string \<Rightarrow> nat \<Rightarrow> bool \<Rightarrow> string \<Rightarrow> int option \<Rightarrow> bytes res" where
  "encode_parsed input width neg digits e =
     (let fmt = format_of width;
          mx = max_digits fmt;
          (digits, e) = fit_digits mx digits e;
          digits = pad_zeros mx digits;
          msd = int (digit_val (hd digits));
          biased = map_option (\<lambda>x. x + df_bias fmt) e;
          (exp_msb, exp_cont) = exp_bits (df_exp_cont_bits fmt) biased
      in if (case biased of None \<Rightarrow> False | Some b \<Rightarrow> b < 0) \<or> 3 < exp_msb
         then Inl (JsError (''DECFLOAT exponent out of range for '' @ input))
         else (let v = (if neg then 1 else 0);
                   v = push_bit 5 v OR combination exp_msb msd;
                   v = push_bit (df_exp_cont_bits fmt) v OR exp_cont
               in Inr (be_bytes (df_width fmt) (pack_declets (df_declets fmt) v (tl digits)))))"

definition special_dec_float :: "bool \<Rightarrow> int \<Rightarrow> nat \<Rightarrow> bytes" where
  "special_dec_float neg combo width =
     word_of_int ((if neg then 128 else 0) OR push_bit 2 combo) # replicate (width - 1) 0"

definition drop_sign :: "string \<Rightarrow> string" where
  "drop_sign s = (if s \<noteq> [] \<and> (hd s = CHR ''+'' \<or> hd s = CHR ''-'') then tl s else s)"

definition encode_dec_float :: "string \<Rightarrow> nat \<Rightarrow> bytes res" where
  "encode_dec_float value width =
     (let special = to_lower (trim value) in
      if drop_sign special = ''inf'' \<or> drop_sign special = ''infinity''
      then Inr (special_dec_float (hd special = CHR ''-'') 30 width)
      else if drop_sign special = ''nan'' then Inr (special_dec_float False 31 width)
      else rthen (parse_decimal value) (\<lambda>(neg, digits, e). encode_parsed value width neg digits e))"

subsection \<open>Declets are a bijection\<close>

text \<open>The unpacking of a declet (Cowlishaw), which the table inverts.\<close>

definition undeclet :: "bool list \<Rightarrow> (bool \<times> bool \<times> bool \<times> bool) list" where
  "undeclet bs = (case bs of [p, q, r, s, t, u, v, w, x, y] \<Rightarrow>
     if \<not> v then [(False, p, q, r), (False, s, t, u), (False, w, x, y)]
     else if \<not> w \<and> \<not> x then [(False, p, q, r), (False, s, t, u), (True, False, False, y)]
     else if \<not> w \<and> x then [(False, p, q, r), (True, False, False, u), (False, s, t, y)]
     else if w \<and> \<not> x then [(True, False, False, r), (False, s, t, u), (False, p, q, y)]
     else if s \<and> \<not> t then [(False, p, q, r), (True, False, False, u), (True, False, False, y)]
     else if \<not> s \<and> t then [(True, False, False, r), (False, p, q, u), (True, False, False, y)]
     else if \<not> s \<and> \<not> t then [(True, False, False, r), (True, False, False, u), (False, p, q, y)]
     else [(True, False, False, r), (True, False, False, u), (True, False, False, y)]
   | _ \<Rightarrow> [])"

lemma undeclet_bits:
  assumes "a \<longrightarrow> \<not> b \<and> \<not> c" and "e \<longrightarrow> \<not> f \<and> \<not> g" and "i \<longrightarrow> \<not> j \<and> \<not> k"
  shows "undeclet (declet_bits (a, b, c, d) (e, f, g, h) (i, j, k, m)) = [(a, b, c, d), (e, f, g, h), (i, j, k, m)]"
  using assms by (cases a; cases e; cases i) (simp_all add: declet_bits_def undeclet_def)

lemma digits_upto: "d < 10 \<Longrightarrow> d \<in> set [0, 1, 2, 3, 4, 5, 6, 7, 8, 9 :: nat]"
  by simp arith

lemma nibble_digits:
  "list_all (\<lambda>d. case nibble d of (a, b, c, x) \<Rightarrow>
     (a \<longrightarrow> \<not> b \<and> \<not> c) \<and> d = 8 * of_bool a + 4 * of_bool b + 2 * of_bool c + of_bool x)
     [0, 1, 2, 3, 4, 5, 6, 7, 8, 9]"
  by (simp add: nibble_def)

lemma nibble_digit:
  assumes "d < 10"
  shows "case nibble d of (a, b, c, x) \<Rightarrow>
     (a \<longrightarrow> \<not> b \<and> \<not> c) \<and> d = 8 * of_bool a + 4 * of_bool b + 2 * of_bool c + of_bool x"
  using nibble_digits [unfolded list_all_iff] digits_upto [OF assms] by (rule bspec)

lemma nibble_inj:
  assumes "d < 10" and "d' < 10" and "nibble d = nibble d'"
  shows "d = d'"
  using nibble_digit [OF assms(1)] nibble_digit [OF assms(2)] assms(3) by (auto split: prod.splits)

lemma length_declet_bits: "length (declet_bits x y z) = 10"
  by (cases x; cases y; cases z) (simp add: declet_bits_def)

lemma bits_val_snoc [simp]: "bits_val (bs @ [b]) = 2 * bits_val bs + of_bool b"
  by (simp add: bits_val_def)

lemma bits_val_less: "bits_val bs < 2 ^ length bs"
proof (induction bs rule: rev_induct)
  case (snoc b bs)
  then show ?case by (cases b) simp_all
qed (simp add: bits_val_def)

lemma bits_val_inj: "length bs = length cs \<Longrightarrow> bits_val bs = bits_val cs \<Longrightarrow> bs = cs"
proof (induction bs arbitrary: cs rule: rev_induct)
  case (snoc b bs)
  then obtain c cs' where cs: "cs = cs' @ [c]"
    by (cases cs rule: rev_cases) auto
  with snoc.prems have "2 * bits_val bs + of_bool b = 2 * bits_val cs' + of_bool c" by simp
  then have "bits_val bs = bits_val cs' \<and> b = c"
    by (cases b; cases c) (simp_all, presburger+)
  with snoc cs show ?case by simp
qed simp

lemma encode_declet_less: "encode_declet d2 d1 d0 < 1024"
  using bits_val_less [of "declet_bits (nibble d2) (nibble d1) (nibble d0)"]
  by (simp add: encode_declet_def length_declet_bits)

lemma encode_declet_inj:
  assumes "d2 < 10" "d1 < 10" "d0 < 10" "c2 < 10" "c1 < 10" "c0 < 10"
    and "encode_declet d2 d1 d0 = encode_declet c2 c1 c0"
  shows "d2 = c2 \<and> d1 = c1 \<and> d0 = c0"
proof -
  have "declet_bits (nibble d2) (nibble d1) (nibble d0) = declet_bits (nibble c2) (nibble c1) (nibble c0)"
    using assms(7) by (intro bits_val_inj) (simp_all add: length_declet_bits encode_declet_def)
  moreover have "undeclet (declet_bits (nibble x) (nibble y) (nibble z)) = [nibble x, nibble y, nibble z]"
    if "x < 10" "y < 10" "z < 10" for x y z
    using nibble_digit [OF that(1)] nibble_digit [OF that(2)] nibble_digit [OF that(3)]
    by (auto split: prod.splits intro!: undeclet_bits)
  ultimately have "[nibble d2, nibble d1, nibble d0] = [nibble c2, nibble c1, nibble c0]"
    using assms(1-6) by metis
  then show ?thesis using assms(1-6) nibble_inj by simp
qed

lemma map_of_only: "(k, v) \<in> set xs \<Longrightarrow> (\<And>v'. (k, v') \<in> set xs \<Longrightarrow> v' = v) \<Longrightarrow> map_of xs k = Some v"
  by (metis map_of_SomeD weak_map_of_SomeI)

lemma dpd_write_iff: "(k, v) \<in> set dpd_writes \<longleftrightarrow>
   (\<exists>d2 < 10. \<exists>d1 < 10. \<exists>d0 < 10. k = encode_declet d2 d1 d0 \<and> v = d2 * 100 + d1 * 10 + d0)"
  unfolding dpd_writes_def by (simp add: image_iff Bex_def atLeast0LessThan) blast

lemma DPD_TO_INT_encode:
  assumes "d2 < 10" "d1 < 10" "d0 < 10"
  shows "DPD_TO_INT (encode_declet d2 d1 d0) = d2 * 100 + d1 * 10 + d0"
proof -
  have "map_of (rev dpd_writes) (encode_declet d2 d1 d0) = Some (d2 * 100 + d1 * 10 + d0)"
  proof (rule map_of_only)
    show "(encode_declet d2 d1 d0, d2 * 100 + d1 * 10 + d0) \<in> set (rev dpd_writes)"
      unfolding set_rev dpd_write_iff using assms by blast
    fix v' assume "(encode_declet d2 d1 d0, v') \<in> set (rev dpd_writes)"
    then obtain c2 c1 c0 where c: "c2 < 10" "c1 < 10" "c0 < 10"
        "encode_declet d2 d1 d0 = encode_declet c2 c1 c0" "v' = c2 * 100 + c1 * 10 + c0"
      unfolding set_rev dpd_write_iff by blast
    then show "v' = d2 * 100 + d1 * 10 + d0"
      using encode_declet_inj [OF assms c(1-4)] by simp
  qed
  then show ?thesis by (simp add: DPD_TO_INT_def)
qed

lemma pad_three:
  assumes "is_digit c2" "is_digit c1" "is_digit c0"
  shows "pad_zeros 3 (dec_nat (digit_val c2 * 100 + digit_val c1 * 10 + digit_val c0)) = [c2, c1, c0]"
proof -
  have one: "dec_nat n = [digit_char n]" if "n < 10" for n
    using that by (subst dec_nat.simps) simp
  have zero: "digit_char 0 = CHR ''0''" by code_simp
  let ?a = "digit_val c2" and ?b = "digit_val c1" and ?c = "digit_val c0"
  have d: "?a < 10" "?b < 10" "?c < 10" using assms by simp_all
  have z: "c = CHR ''0''" if "digit_val c = 0" "is_digit c" for c
    using digit_char_val [OF that(2)] that(1) zero by simp
  consider "?a = 0" "?b = 0" | "?a = 0" "?b \<noteq> 0" | "?a \<noteq> 0" by blast
  then show ?thesis
  proof cases
    case 1
    then show ?thesis using assms d z [of c2] z [of c1] by (simp add: one pad_zeros_def numeral_3_eq_3)
  next
    case 2
    then have "dec_nat (?b * 10 + ?c) = [c1, c0]"
      using assms d by (subst dec_nat.simps) (simp add: one)
    with 2 show ?thesis using assms z [of c2] by (simp add: pad_zeros_def numeral_3_eq_3)
  next
    case 3
    have "?a * 100 + ?b * 10 + ?c = ?c + 10 * (?a * 10 + ?b)" by simp
    then have q: "(?a * 100 + ?b * 10 + ?c) div 10 = ?a * 10 + ?b" "(?a * 100 + ?b * 10 + ?c) mod 10 = ?c"
      using d by (simp_all only: mod_mult_self2 div_mult_self2 mod_less div_less rel_simps)
    have "dec_nat (?a * 10 + ?b) = [c2, c1]"
      using 3 assms d by (subst dec_nat.simps) (simp add: one)
    then have "dec_nat (?a * 100 + ?b * 10 + ?c) = [c2, c1, c0]"
      using 3 assms d q by (subst dec_nat.simps) (simp del: div_mult_self1 div_mult_self2)
    then show ?thesis by (simp add: pad_zeros_def)
  qed
qed

subsection \<open>Fields of the packed number\<close>

lemma field_take_drop: "field k n v = take_bit n (drop_bit k v)"
  by (simp add: field_def take_bit_eq_mod drop_bit_eq_div)

lemma or_shift: "0 \<le> x \<Longrightarrow> x < 2 ^ n \<Longrightarrow> push_bit n v OR x = v * 2 ^ n + (x::int)"
  using concat_bit_eq [of n x v]
  by (simp add: concat_bit_def take_bit_int_eq_self push_bit_eq_mult or.commute add.commute)

lemma shifted_div: "0 \<le> x \<Longrightarrow> x < 2 ^ n \<Longrightarrow> (v * 2 ^ n + x) div 2 ^ n = (v::int)"
  by simp

lemma field_shift: "field (j + k) n v = field k n (v div 2 ^ j)"
  by (simp add: field_def power_add div_mult2_eq zdiv_zmult2_eq)

lemma field_mod: "k + n \<le> m \<Longrightarrow> field k n (v mod 2 ^ m) = field k n v"
proof -
  assume "k + n \<le> m"
  then have "min n (m - k) = n" by simp
  then show ?thesis
    unfolding field_take_drop take_bit_eq_mod [symmetric] by (simp only: drop_bit_take_bit take_bit_take_bit)
qed

lemma pack_unpack:
  assumes "list_all is_digit ds" and "length ds = 3 * n"
  shows "pack_declets n v ds div 2 ^ (10 * n) = v
    \<and> concat (map (declet_digits (pack_declets n v ds)) (rev [0..<n])) = ds"
  using assms
proof (induction n arbitrary: v ds)
  case (Suc n)
  then obtain d2 d1 d0 rest where ds: "ds = d2 # d1 # d0 # rest"
    by (cases ds; cases "tl ds"; cases "tl (tl ds)") auto
  let ?e = "encode_declet (digit_val d2) (digit_val d1) (digit_val d0)"
  let ?v = "v * 1024 + int ?e"
  have dg: "is_digit d2" "is_digit d1" "is_digit d0" using Suc.prems ds by simp_all
  have less: "int ?e < 1024"
    using encode_declet_less [of "digit_val d2" "digit_val d1" "digit_val d0"] by linarith
  have "push_bit 10 v OR int ?e = ?v"
    using or_shift [of "int ?e" 10 v] less by simp
  then have r: "pack_declets (Suc n) v ds = pack_declets n ?v rest"
    by (simp add: ds)
  have IH: "pack_declets n ?v rest div 2 ^ (10 * n) = ?v"
      "concat (map (declet_digits (pack_declets n ?v rest)) (rev [0..<n])) = rest"
    using Suc.IH [of rest ?v] Suc.prems ds by simp_all
  have "(2::int) ^ (10 * Suc n) = 2 ^ (10 * n) * 1024"
    by (simp add: power_add)
  then have "pack_declets n ?v rest div 2 ^ (10 * Suc n) = pack_declets n ?v rest div 2 ^ (10 * n) div 1024"
    by (simp only: zdiv_zmult2_eq zero_le_numeral)
  also have "\<dots> = v" using less by (simp add: IH(1))
  finally have top: "pack_declets n ?v rest div 2 ^ (10 * Suc n) = v" .
  have "field (10 * n) 10 (pack_declets n ?v rest) = int ?e"
    using less by (simp add: field_def IH(1))
  then have "declet_digits (pack_declets n ?v rest) n = [d2, d1, d0]"
    using dg DPD_TO_INT_encode by (simp add: declet_digits_def pad_three)
  with top IH(2) show ?case unfolding r by (simp add: ds)
qed simp

lemma strip_zeros_pad:
  "list_all is_digit ds \<Longrightarrow> ds \<noteq> [] \<Longrightarrow> strip_zeros (replicate k (CHR ''0'') @ ds) = strip_zeros ds"
proof (induction k)
  case (Suc k)
  obtain c s where cs: "replicate k (CHR ''0'') @ ds = c # s"
    using Suc.prems(2) by (cases "replicate k (CHR ''0'') @ ds") auto
  have "is_digit (CHR ''0'')" by code_simp
  then have "is_digit c"
    using cs Suc.prems(1) by (cases k) (auto simp: Cons_eq_append_conv list_all_iff)
  then show ?case
    using Suc cs by simp
qed simp

lemma pad_zeros_digits: "list_all is_digit ds \<Longrightarrow> list_all is_digit (pad_zeros n ds)"
proof -
  have "is_digit (CHR ''0'')" by code_simp
  then show "list_all is_digit ds \<Longrightarrow> list_all is_digit (pad_zeros n ds)"
    by (auto simp: pad_zeros_def list_all_iff)
qed

lemma field_low: "v div 2 ^ j = w \<Longrightarrow> k + n \<le> m \<Longrightarrow> field (j + k) n (v mod 2 ^ (j + m)) = field k n w"
  by (subst field_mod) (simp_all add: field_shift)

lemma declet_digits_mod: "d < n \<Longrightarrow> declet_digits (v mod 2 ^ (10 * n)) d = declet_digits v d"
  unfolding declet_digits_def by (subst field_mod) simp_all

text \<open>What the decoder reads from the number the encoder builds.\<close>

lemma decode_packed:
  assumes fmt: "w = 8 \<or> w = 16" and ds: "list_all is_digit ds" "length ds = 3 * df_declets (format_of w)"
    and ranges: "0 \<le> sign" "sign < 2" "0 \<le> combo" "combo < 32"
      "0 \<le> cont" "cont < 2 ^ df_exp_cont_bits (format_of w)"
  defines "r \<equiv> pack_declets (df_declets (format_of w)) ((sign * 32 + combo) * 2 ^ df_exp_cont_bits (format_of w) + cont) ds"
  shows "decode_dec_float (be_bytes (df_width (format_of w)) r) =
    (if 30 \<le> combo then (if combo = 30 then (if sign = 1 then ''-Infinity'' else ''Infinity'') else ''NaN'')
     else (let (exp_msb, msd) = (if combo div 8 = 3 then (combo div 2 mod 4, 8 + combo mod 2)
                                     else (combo div 8 mod 4, combo mod 8))
           in dec_format (sign = 1) (strip_zeros (dec_int msd @ ds))
             (exp_msb * 2 ^ df_exp_cont_bits (format_of w) + cont - df_bias (format_of w))))"
proof -
  let ?f = "format_of w" let ?n = "df_declets ?f" let ?k = "df_exp_cont_bits ?f"
  define top where "top = (sign * 32 + combo) * 2 ^ ?k + cont"
  have widths: "8 * df_width ?f = 10 * ?n + (?k + 6)" "df_width ?f = w"
    using fmt by (auto simp: format_of_def DEC64_def DEC128_def)
  have r: "r div 2 ^ (10 * ?n) = top" "concat (map (declet_digits r) (rev [0..<?n])) = ds"
    using pack_unpack [OF ds, of top] by (simp_all add: r_def top_def)
  have v: "be_val (be_bytes (df_width ?f) r) = r mod 2 ^ (10 * ?n + (?k + 6))"
    by (simp add: be_val_be_bytes pow256 widths(1))
  have top_div: "top div 2 ^ ?k = sign * 32 + combo"
    using ranges by (simp add: top_def)
  have sg: "field (10 * ?n + (?k + 5)) 1 (r mod 2 ^ (10 * ?n + (?k + 6))) = sign"
    using ranges by (subst field_low [OF r(1)]) (simp_all add: field_shift top_div, simp add: field_def)
  have cm: "field (10 * ?n + (?k + 0)) 5 (r mod 2 ^ (10 * ?n + (?k + 6))) = combo"
    using ranges by (subst field_low [OF r(1)]) (simp_all add: field_shift [of ?k 0, simplified] top_div, simp add: field_def)
  have ec: "field (10 * ?n + 0) ?k (r mod 2 ^ (10 * ?n + (?k + 6))) = cont"
    using ranges by (subst field_low [OF r(1)]) (simp_all add: field_def top_def)
  have cf: "field 0 (10 * ?n) (r mod 2 ^ (10 * ?n + (?k + 6))) = r mod 2 ^ (10 * ?n)"
    by (subst field_mod) (simp_all add: field_def)
  have dd: "concat (map (declet_digits (r mod 2 ^ (10 * ?n))) (rev [0..<?n])) = ds"
  proof -
    have "map (declet_digits (r mod 2 ^ (10 * ?n))) (rev [0..<?n]) = map (declet_digits r) (rev [0..<?n])"
      by (rule map_cong) (simp_all add: declet_digits_mod)
    with r(2) show ?thesis by (simp only:)
  qed
  have pos: "8 * df_width ?f - 1 = 10 * ?n + (?k + 5)" "8 * df_width ?f - 6 = 10 * ?n + (?k + 0)"
    "10 * ?n + (?k + 0) - ?k = 10 * ?n + 0"
    using widths by simp_all
  have len: "format_of (length (be_bytes (df_width ?f) r)) = ?f"
    by (simp add: widths(2))
  show ?thesis
    unfolding decode_dec_float_def Let_def len v pos sg cm ec cf dd
    by (simp split: if_splits)
qed

subsection \<open>Encoding a literal that fits\<close>

lemma combination_low: "0 \<le> m \<Longrightarrow> 0 \<le> d \<Longrightarrow> d \<le> 7 \<Longrightarrow> combination m d = 8 * m + d"
  using or_shift [of d 3 m] by (simp add: combination_def)

lemma combination_high:
  assumes "0 \<le> m" "m \<le> 3" "d = 8 \<or> d = 9"
  shows "combination m d = 24 + 2 * m + (d - 8)"
proof -
  have "m = 0 \<or> m = 1 \<or> m = 2 \<or> m = 3" using assms by arith
  with assms(3) show ?thesis by (elim disjE) (simp_all add: combination_def push_bit_eq_mult)
qed

lemma div_less_of_less: "0 < n \<Longrightarrow> b < c * n \<Longrightarrow> b div n < (c::int)"
proof (rule ccontr)
  assume n: "0 < n" "b < c * n" and "\<not> b div n < c"
  then have "c * n \<le> b div n * n" by (simp add: mult_right_mono)
  also have "\<dots> \<le> b" using n div_mult_mod_eq [of b n] pos_mod_sign [OF n(1), of b] by linarith
  finally show False using n by simp
qed

lemma encode_parsed_packs:
  assumes w: "w = 8 \<or> w = 16" and ds: "ds \<noteq> []" "list_all is_digit ds" "length ds \<le> max_digits (format_of w)"
    and e: "0 \<le> e + df_bias (format_of w)" "e + df_bias (format_of w) < 4 * 2 ^ df_exp_cont_bits (format_of w)"
    and pad: "pad_zeros (max_digits (format_of w)) ds = c # rest"
  defines "b \<equiv> e + df_bias (format_of w)" and "k \<equiv> df_exp_cont_bits (format_of w)"
  shows "encode_parsed input w neg ds (Some e) = Inr (be_bytes (df_width (format_of w))
    (pack_declets (df_declets (format_of w))
       (((if neg then 1 else 0) * 32 + combination (b div 2 ^ k) (int (digit_val c))) * 2 ^ k + b mod 2 ^ k) rest))"
proof -
  have k: "k = 8 \<or> k = 12" using w by (auto simp: k_def format_of_def DEC64_def DEC128_def)
  then have b: "to_int32 b = b" and m: "0 \<le> b div 2 ^ k" "b div 2 ^ k \<le> 3"
    using e div_less_of_less [of "2 ^ k" b 4]
    by (auto simp: b_def [symmetric] k_def [symmetric] pos_imp_zdiv_nonneg_iff)
  have c: "is_digit c"
    using pad_zeros_digits [OF ds(2), of "max_digits (format_of w)"] by (simp add: pad)
  then have d: "digit_val c < 10" by simp
  define cb where "cb = combination (b div 2 ^ k) (int (digit_val c))"
  have cb: "0 \<le> cb \<and> cb < 32"
  proof (cases "digit_val c \<le> 7")
    case True
    then show ?thesis using m by (simp add: cb_def combination_low)
  next
    case False
    then have "int (digit_val c) = 8 \<or> int (digit_val c) = 9" using d by linarith
    with combination_high [OF m this] m show ?thesis by (auto simp: cb_def)
  qed
  have fit: "fit_digits (max_digits (format_of w)) ds (Some e) = (ds, Some e)"
    using ds(3) by (simp add: fit_digits_def)
  have "push_bit 5 (if neg then 1 else 0) OR cb = (if neg then 1 else 0) * 32 + cb"
    using or_shift [of cb 5] cb by simp
  moreover have "push_bit k v OR (b mod 2 ^ k) = v * 2 ^ k + b mod 2 ^ k" for v
    by (rule or_shift) simp_all
  moreover have "\<not> b < 0" "\<not> 3 < b div 2 ^ k"
    using e m by (simp_all add: b_def)
  ultimately show ?thesis
    unfolding encode_parsed_def Let_def fit pad prod.case list.sel
    by (simp add: exp_bits_def b b_def [symmetric] k_def [symmetric] cb_def [symmetric])
qed

lemma padded_parts:
  assumes "ds \<noteq> []" and "list_all is_digit ds" and "length ds \<le> 3 * n + 1" and "pad_zeros (3 * n + 1) ds = c # rest"
  shows "is_digit c" "list_all is_digit rest" "length rest = 3 * n" "dec_nat (digit_val c) = [c]"
    "strip_zeros (c # rest) = strip_zeros ds"
proof -
  have "length (c # rest) = 3 * n + 1"
    using assms(3) by (simp add: pad_zeros_def flip: assms(4))
  then show "length rest = 3 * n" by simp
  have "list_all is_digit (c # rest)"
    using pad_zeros_digits [OF assms(2), of "3 * n + 1"] unfolding assms(4) .
  then show "is_digit c" "list_all is_digit rest" by simp_all
  then show "dec_nat (digit_val c) = [c]" by (subst dec_nat.simps) simp
  show "strip_zeros (c # rest) = strip_zeros ds"
    using strip_zeros_pad [OF assms(2,1)] by (simp add: pad_zeros_def flip: assms(4))
qed

lemma encode_decode_parsed:
  assumes w: "w = 8 \<or> w = 16" and ds: "ds \<noteq> []" "list_all is_digit ds" "length ds \<le> max_digits (format_of w)"
    and e: "0 \<le> e + df_bias (format_of w)" "e + df_bias (format_of w) < 3 * 2 ^ df_exp_cont_bits (format_of w)"
  shows "\<exists>buf. encode_parsed input w neg ds (Some e) = Inr buf \<and> length buf = w
    \<and> decode_dec_float buf = dec_format neg (strip_zeros ds) e"
proof -
  define b where "b = e + df_bias (format_of w)"
  define k where "k = df_exp_cont_bits (format_of w)"
  obtain c rest where pad: "pad_zeros (max_digits (format_of w)) ds = c # rest"
    using ds by (cases "pad_zeros (max_digits (format_of w)) ds") (auto simp: pad_zeros_def)
  note parts = padded_parts [OF ds(1,2) ds(3) [unfolded max_digits_def] pad [unfolded max_digits_def]]
  have m: "0 \<le> b div 2 ^ k" "b div 2 ^ k \<le> 2"
    using e div_less_of_less [of "2 ^ k" b 3]
    by (simp_all add: b_def [symmetric] k_def [symmetric] pos_imp_zdiv_nonneg_iff)
  have back_e: "b div 2 ^ k * 2 ^ k + b mod 2 ^ k - df_bias (format_of w) = e"
    using div_mult_mod_eq [of b "2 ^ k"] unfolding b_def by linarith
  have d: "digit_val c < 10" using parts(1) by simp
  let ?cb = "combination (b div 2 ^ k) (int (digit_val c))"
  have cb: "0 \<le> ?cb" "?cb < 30"
    "(if ?cb div 8 = 3 then (?cb div 2 mod 4, 8 + ?cb mod 2) else (?cb div 8 mod 4, ?cb mod 8))
       = (b div 2 ^ k, int (digit_val c))"
  proof -
    have "0 \<le> ?cb \<and> ?cb < 30 \<and> (if ?cb div 8 = 3 then (?cb div 2 mod 4, 8 + ?cb mod 2) else (?cb div 8 mod 4, ?cb mod 8))
       = (b div 2 ^ k, int (digit_val c))"
    proof (cases "digit_val c \<le> 7")
      case True
      then have "?cb = 8 * (b div 2 ^ k) + int (digit_val c)"
        using m by (intro combination_low) simp_all
      moreover have "(8 * (b div 2 ^ k) + int (digit_val c)) div 8 = b div 2 ^ k"
        "(8 * (b div 2 ^ k) + int (digit_val c)) mod 8 = int (digit_val c)"
        using True by simp_all
      ultimately show ?thesis using m True by simp
    next
      case False
      then have d89: "int (digit_val c) = 8 \<or> int (digit_val c) = 9" using d by linarith
      have "b div 2 ^ k = 0 \<or> b div 2 ^ k = 1 \<or> b div 2 ^ k = 2" using m by linarith
      with combination_high [OF m(1) _ d89] d89 show ?thesis by (elim disjE) simp_all
    qed
    then show "0 \<le> ?cb" "?cb < 30"
      "(if ?cb div 8 = 3 then (?cb div 2 mod 4, 8 + ?cb mod 2) else (?cb div 8 mod 4, ?cb mod 8))
       = (b div 2 ^ k, int (digit_val c))" by blast+
  qed
  let ?r = "pack_declets (df_declets (format_of w))
       (((if neg then 1 else 0) * 32 + ?cb) * 2 ^ k + b mod 2 ^ k) rest"
  have enc: "encode_parsed input w neg ds (Some e) = Inr (be_bytes (df_width (format_of w)) ?r)"
    using encode_parsed_packs [OF w ds e(1) less_le_trans [OF e(2)] pad, of input neg]
    unfolding b_def k_def by simp
  have "decode_dec_float (be_bytes (df_width (format_of w)) ?r)
      = dec_format neg (strip_zeros (dec_int (int (digit_val c)) @ rest)) e"
    using decode_packed [OF w parts(2,3), of "if neg then 1 else 0" ?cb "b mod 2 ^ k"] cb
    by (simp add: k_def [symmetric] back_e split: if_splits)
  also have "dec_int (int (digit_val c)) @ rest = c # rest"
    using parts(4) by (simp add: dec_int_def)
  also note parts(5)
  finally show ?thesis
    using enc w by (auto simp: format_of_def DEC64_def DEC128_def)
qed

subsection \<open>Reading a plain literal\<close>

definition canonical_digits :: "string \<Rightarrow> bool" where
  "canonical_digits ds = (ds \<noteq> [] \<and> list_all is_digit ds \<and> strip_zeros ds = ds)"

lemma digit_not: "is_digit c \<Longrightarrow> \<not> is_ws c \<and> \<not> is_exp_char c \<and> c \<noteq> CHR ''.'' \<and> c \<noteq> CHR ''+'' \<and> c \<noteq> CHR ''-''"
  by (auto simp: is_digit_def is_ws_def is_exp_char_def)

lemma trim_id: "s \<noteq> [] \<Longrightarrow> \<not> is_ws (hd s) \<Longrightarrow> \<not> is_ws (last s) \<Longrightarrow> trim s = s"
proof -
  assume "s \<noteq> []" "\<not> is_ws (hd s)" "\<not> is_ws (last s)"
  then have "dropWhile is_ws s = s" "dropWhile is_ws (rev s) = rev s"
    by (simp_all add: dropWhile_eq_self_iff hd_rev)
  then show "trim s = s" by (simp only: trim_def rev_rev_ident)
qed

text \<open>
  A literal with a sign, digits and perhaps a fraction, and what parsing makes of it.
\<close>

lemma parse_decimal_literal:
  assumes whole: "whole \<noteq> []" "list_all is_digit whole" and frac: "list_all is_digit frac"
    and point: "pt \<longleftrightarrow> frac \<noteq> []"
  shows "parse_decimal ((if neg then ''-'' else '''') @ whole @ (if pt then ''.'' @ frac else ''''))
    = Inr (neg, strip_zeros (whole @ frac), Some (- int (length frac)))"
proof -
  let ?b = "whole @ (if pt then ''.'' @ frac else '''')"
  let ?s = "(if neg then ''-'' else '''') @ ?b"
  obtain c cs where wc: "whole = c # cs" "is_digit c" using whole by (cases whole) auto
  have "last ?s = last (whole @ frac)"
    using point whole(1) by (auto simp: last_append)
  moreover have "list_all is_digit (whole @ frac)" using whole frac by simp
  ultimately have "is_digit (last ?s)"
    using whole(1) by (metis append_is_Nil_conv last_in_set list_all_iff)
  moreover have minus: "\<not> is_ws (CHR ''-'')" by code_simp
  ultimately have "trim ?s = ?s"
    using wc digit_not minus by (intro trim_id) auto
  moreover obtain b where b: "b = ?b" by simp
  moreover have "b \<noteq> []" "hd b = c" using wc b by simp_all
  moreover have "takeWhile (\<lambda>x. \<not> is_exp_char x) b = b"
    using whole(2) frac digit_not b by (intro takeWhile_eq_all_conv [THEN iffD2])
      (auto simp: list_all_iff is_exp_char_def)
  moreover have "takeWhile (\<lambda>x. x \<noteq> CHR ''.'') b = whole"
    using whole(2) digit_not b by (auto simp: list_all_iff takeWhile_append1 takeWhile_append2)
  moreover have "length whole < length b \<longleftrightarrow> pt" "pt \<Longrightarrow> drop (Suc (length whole)) b = frac"
    "\<not> pt \<Longrightarrow> b = whole" using b by auto
  moreover have "list_all is_digit (whole @ frac)" "whole @ frac \<noteq> []" using whole frac by simp_all
  ultimately show ?thesis
    using digit_not [OF wc(2)] point
    unfolding b [symmetric] parse_decimal_def Let_def
    by (cases neg; cases pt) (simp_all del: takeWhile_eq_all_conv)
qed

lemma strip_zeros_zero: "canonical_digits ds \<Longrightarrow> strip_zeros (CHR ''0'' # replicate n (CHR ''0'') @ ds) = ds"
  using strip_zeros_pad [of ds "Suc n"] by (simp add: canonical_digits_def)

lemma parse_format:
  assumes "canonical_digits ds" and "e \<le> 0" and "ds = ''0'' \<Longrightarrow> e = 0"
  shows "parse_decimal (dec_format neg ds e) = Inr (neg, ds, Some e)"
proof -
  have ds: "ds \<noteq> []" "list_all is_digit ds" "strip_zeros ds = ds"
    using assms(1) by (simp_all add: canonical_digits_def)
  have z: "is_digit (CHR ''0'')" by code_simp
  consider "ds = ''0''" | "ds \<noteq> ''0''" "e = 0" | "ds \<noteq> ''0''" "e < 0" "0 < int (length ds) + e"
    | "ds \<noteq> ''0''" "e < 0" "int (length ds) + e \<le> 0"
    using assms(2) by linarith
  then show ?thesis
  proof cases
    case 1
    then show ?thesis
      using parse_decimal_literal [of "''0''" "[]" False neg] assms(3) z
      by (cases neg) (simp_all add: dec_format_def)
  next
    case 2
    then show ?thesis
      using parse_decimal_literal [of ds "[]" False neg] ds by (simp add: dec_format_def Let_def)
  next
    case 3
    let ?p = "nat (int (length ds) + e)"
    have p: "0 < ?p" "?p < length ds" using 3 by auto
    then have "take ?p ds \<noteq> []" "drop ?p ds \<noteq> []" by auto
    moreover have "list_all is_digit (take ?p ds)" "list_all is_digit (drop ?p ds)"
      using ds(2) by (auto simp: list_all_iff dest: in_set_takeD in_set_dropD)
    ultimately show ?thesis
      using 3 ds p parse_decimal_literal [of "take ?p ds" "drop ?p ds" True neg]
      by (simp add: dec_format_def Let_def)
  next
    case 4
    let ?z = "replicate (nat (- (int (length ds) + e))) (CHR ''0'')"
    have "parse_decimal ((if neg then ''-'' else '''') @ ''0'' @ (if True then ''.'' @ ?z @ ds else ''''))
        = Inr (neg, strip_zeros (''0'' @ ?z @ ds), Some (- int (length (?z @ ds))))"
      using ds z by (intro parse_decimal_literal) (auto simp: list_all_iff)
    then show ?thesis
      using 4 strip_zeros_zero [OF assms(1)] by (simp add: dec_format_def Let_def)
  qed
qed

text \<open>A whole number with an exponent.\<close>

lemma takeWhile_digits: "list_all is_digit s \<Longrightarrow> takeWhile is_digit s = s"
  by (simp add: takeWhile_eq_all_conv list_all_iff)

lemma dec_nat_list_all: "list_all is_digit (dec_nat n)"
  using dec_nat_digits by (auto simp: list_all_iff)

lemma parse_int_dec: "parse_int (dec_nat n) = Some (int n)"
proof -
  obtain c cs where c: "dec_nat n = c # cs" "is_digit c"
    using dec_nat_list_all [of n] by (cases "dec_nat n") auto
  have "digits_val (c # cs) = n" using digits_val_dec_nat [of n] unfolding c(1) .
  moreover have "takeWhile is_digit (c # cs) = c # cs"
    using takeWhile_digits [OF dec_nat_list_all [of n]] unfolding c(1) .
  ultimately show ?thesis
    using digit_not [OF c(2)] by (simp add: parse_int_def c(1) Let_def del: takeWhile.simps takeWhile_eq_all_conv)
qed

lemma parse_scientific:
  assumes "canonical_digits ds"
  shows "parse_decimal (ds @ ''E'' @ dec_nat n) = Inr (False, ds, Some (int n))"
proof -
  have ds: "ds \<noteq> []" "list_all is_digit ds" "strip_zeros ds = ds"
    using assms by (simp_all add: canonical_digits_def)
  obtain c cs where wc: "ds = c # cs" "is_digit c" using ds by (cases ds) auto
  obtain b where b: "b = ds @ ''E'' @ dec_nat n" by simp
  have "is_digit (last b)"
    using dec_nat_list_all [of n] by (simp add: b list_all_iff)
  then have "trim b = b" "b \<noteq> []" "hd b = c"
    using wc digit_not by (auto intro!: trim_id simp: b)
  moreover have "takeWhile (\<lambda>x. \<not> is_exp_char x) b = ds"
    using ds(2) digit_not by (auto simp: b list_all_iff takeWhile_append is_exp_char_def)
  moreover have "takeWhile (\<lambda>x. x \<noteq> CHR ''.'') ds = ds"
    using ds(2) digit_not by (auto simp: list_all_iff)
  moreover have "length ds < length b" "drop (Suc (length ds)) b = dec_nat n" by (simp_all add: b)
  ultimately show ?thesis
    using digit_not [OF wc(2)] ds
    unfolding b [symmetric] parse_decimal_def Let_def
    by (simp add: parse_int_dec del: takeWhile_eq_all_conv)
qed

text \<open>A literal that starts with a digit is none of the special values.\<close>

lemma lower_digit: "is_digit c \<Longrightarrow> lower_char c = c"
  by (simp add: lower_char_def is_upper_def is_digit_def)

lemma encode_numeric:
  assumes "trim s = (if neg then ''-'' else '''') @ c # cs" and "is_digit c"
  shows "encode_dec_float s w = rthen (parse_decimal s) (\<lambda>(neg, digits, e). encode_parsed s w neg digits e)"
proof -
  have m: "lower_char (CHR ''-'') = CHR ''-''" by code_simp
  have "drop_sign (to_lower (trim s)) = c # to_lower cs"
    using digit_not [OF assms(2)] lower_digit [OF assms(2)] unfolding assms(1)
    by (cases neg) (simp_all add: drop_sign_def m)
  moreover have "c \<noteq> CHR ''i''" "c \<noteq> CHR ''n''"
    using assms(2) by (auto simp: is_digit_def)
  ultimately show ?thesis
    by (simp add: encode_dec_float_def Let_def)
qed

lemma dec_format_start:
  assumes "canonical_digits ds"
  shows "\<exists>c cs. dec_format neg ds e = (if neg then ''-'' else '''') @ c # cs \<and> is_digit c"
proof -
  obtain d dt where ds: "ds = d # dt" "is_digit d"
    using assms by (cases ds) (auto simp: canonical_digits_def)
  have z: "is_digit (CHR ''0'')" by code_simp
  have p: "0 < p \<Longrightarrow> \<exists>t. take (nat p) ds = d # t" for p
    using ds(1) by (cases "nat p") auto
  show ?thesis
    using ds z p [of "int (length ds) + e"]
    by (auto simp: dec_format_def Let_def)
qed

lemma trim_format:
  assumes "canonical_digits ds" and "e \<le> 0"
  shows "trim (dec_format neg ds e) = dec_format neg ds e"
proof -
  obtain c cs where s: "dec_format neg ds e = (if neg then ''-'' else '''') @ c # cs" "is_digit c"
    using dec_format_start [OF assms(1)] by blast
  have m: "\<not> is_ws (CHR ''-'')" by code_simp
  have "is_digit (last (dec_format neg ds e))"
  proof -
    have ds: "ds \<noteq> []" "list_all is_digit ds" using assms(1) by (simp_all add: canonical_digits_def)
    then have l: "is_digit (last ds)" by (simp add: list_all_iff)
    have z: "is_digit (CHR ''0'')" by code_simp
    have "nat (int (length ds) + e) < length ds" if "e < 0" using that ds(1) by (cases ds) auto
    then have "last (drop (nat (int (length ds) + e)) ds) = last ds" "drop (nat (int (length ds) + e)) ds \<noteq> []"
      if "e < 0" using that by (auto simp: last_drop)
    then show ?thesis
      using assms(2) l z ds(1) by (auto simp: dec_format_def Let_def last_append)
  qed
  then show ?thesis
    using s digit_not m by (intro trim_id) auto
qed

subsection \<open>Rounding\<close>

lemma length_dec_nat: "n < 10 ^ k \<Longrightarrow> 0 < k \<Longrightarrow> length (dec_nat n) \<le> k"
proof (induction k arbitrary: n)
  case (Suc k)
  show ?case
  proof (cases "n < 10")
    case True
    then show ?thesis by (subst dec_nat.simps) simp
  next
    case False
    then have "0 < k" using Suc.prems by (cases k) auto
    moreover have "n div 10 < 10 ^ k"
      using Suc.prems by (simp add: less_mult_imp_div_less mult.commute)
    ultimately have "length (dec_nat (n div 10)) \<le> k" by (intro Suc.IH)
    with False show ?thesis by (subst dec_nat.simps) simp
  qed
qed simp

lemma dec_nat_power: "dec_nat (10 ^ k) = CHR ''1'' # replicate k (CHR ''0'')"
proof (induction k)
  case 0
  have "digit_char 1 = CHR ''1''" by code_simp
  then show ?case by (subst dec_nat.simps) simp
next
  case (Suc k)
  have "digit_char 0 = CHR ''0''" by code_simp
  moreover have "\<not> (10::nat) ^ Suc k < 10" by simp
  ultimately show ?case
    using Suc by (subst dec_nat.simps) (simp add: replicate_append_same)
qed

lemma digits_val_zeros: "digits_val (CHR ''1'' # replicate k (CHR ''0'')) = 10 ^ k"
  using digits_val_dec_nat [of "10 ^ k"] by (simp only: dec_nat_power)

text \<open>
  Rounding keeps at most \<open>mx\<close> digits, raises the exponent by what it drops, and the
  new coefficient is the nearest one, a tie going up.
\<close>

lemma fit_digits_rounds:
  assumes "list_all is_digit ds" and "mx < length ds" and "0 < mx"
  shows "\<exists>ds' x. fit_digits mx ds (Some e) = (ds', Some (e + int x)) \<and> length ds' \<le> mx
    \<and> list_all is_digit ds' \<and> ds' \<noteq> []
    \<and> 2 * digits_val ds < 2 * digits_val ds' * 10 ^ x + 10 ^ x
    \<and> 2 * digits_val ds' * 10 ^ x \<le> 2 * digits_val ds + 10 ^ x"
proof -
  define d where "d = length ds - mx"
  define A where "A = digits_val (take mx ds)"
  define B where "B = digits_val (drop mx ds)"
  define c where "c = digit_val (ds ! mx)"
  define up where "up = (if 5 \<le> c then 1 else 0 :: nat)"
  have dig: "list_all is_digit (take mx ds)" "list_all is_digit (drop mx ds)"
    using assms(1) by (auto simp: list_all_iff dest: in_set_takeD in_set_dropD)
  have N: "digits_val ds = A * 10 ^ d + B"
    using digits_val_append [of "take mx ds" "drop mx ds"] by (simp add: A_def B_def d_def)
  have dr: "drop mx ds = ds ! mx # drop (Suc mx) ds"
    using assms(2) by (rule Cons_nth_drop_Suc [symmetric])
  have c10: "c < 10" using dig(2) by (simp add: dr c_def)
  have d0: "0 < d" using assms(2) by (simp add: d_def)
  define R where "R = digits_val (drop (Suc mx) ds)"
  have B: "B = c * 10 ^ (d - 1) + R"
    using digits_val_append [of "[ds ! mx]" "drop (Suc mx) ds"]
    by (simp add: B_def dr c_def R_def d_def digits_val_def)
  have R: "R < 10 ^ (d - 1)"
    using digits_val_less [of "drop (Suc mx) ds"] dig(2) by (simp add: R_def dr d_def list_all_iff)
  have pow: "(10::nat) ^ d = 10 * 10 ^ (d - 1)" using d0 by (cases d) simp_all
  define P :: nat where "P = 10 ^ (d - 1)"
  define Q where "Q = c * P"
  have Q9: "Q \<le> 9 * P" using c10 by (simp add: Q_def)
  have val: "2 * digits_val ds < 2 * (A + up) * 10 ^ d + 10 ^ d
    \<and> 2 * (A + up) * 10 ^ d \<le> 2 * digits_val ds + 10 ^ d"
  proof (cases "5 \<le> c")
    case True
    then have "5 * P \<le> Q" by (simp add: Q_def)
    moreover have "2 * (A + 1) * (10 * P) = 20 * (A * P) + 20 * P" "A * (10 * P) = 10 * (A * P)" by simp_all
    ultimately show ?thesis
      using Q9 R True unfolding N B pow P_def [symmetric] Q_def [symmetric] up_def by simp
  next
    case False
    then have "Q \<le> 4 * P" by (simp add: Q_def)
    moreover have "2 * (A + 0) * (10 * P) = 20 * (A * P)" "A * (10 * P) = 10 * (A * P)" by simp_all
    ultimately show ?thesis
      using R False unfolding N B pow P_def [symmetric] Q_def [symmetric] up_def by simp
  qed
  have A: "A < 10 ^ mx"
    using digits_val_less [of "take mx ds"] dig(1) assms(2) by (simp add: A_def list_all_iff)
  show ?thesis
  proof (cases "A + up < 10 ^ mx")
    case True
    then have "length (dec_nat (A + up)) \<le> mx" using assms(3) by (rule length_dec_nat)
    then have "fit_digits mx ds (Some e) = (dec_nat (A + up), Some (e + int d))"
      using assms(2) by (simp add: fit_digits_def Let_def A_def up_def c_def d_def)
    with \<open>length (dec_nat (A + up)) \<le> mx\<close> val show ?thesis
      using dec_nat_list_all [of "A + up"] by (intro exI [of _ "dec_nat (A + up)"] exI [of _ d]) simp
  next
    case False
    with A have full: "A + up = 10 ^ mx" by (auto simp: up_def split: if_splits)
    have "fit_digits mx ds (Some e) = (take mx (dec_nat (10 ^ mx)), Some (e + int d + 1))"
      using assms(2) full by (simp add: fit_digits_def Let_def A_def up_def c_def d_def dec_nat_power)
    moreover obtain m where m: "mx = Suc m" using assms(3) by (cases mx) auto
    moreover have t: "take mx (dec_nat (10 ^ mx)) = CHR ''1'' # replicate m (CHR ''0'')"
      by (simp add: dec_nat_power m replicate_append_same [symmetric] del: power_Suc)
    moreover have "is_digit (CHR ''1'')" "is_digit (CHR ''0'')" by code_simp+
    moreover have e: "2 * digits_val (CHR ''1'' # replicate m (CHR ''0'')) * 10 ^ Suc d = 2 * (A + up) * 10 ^ d"
      unfolding digits_val_zeros full m by simp
    have "2 * digits_val ds < 2 * digits_val (CHR ''1'' # replicate m (CHR ''0'')) * 10 ^ Suc d + 10 ^ Suc d
        \<and> 2 * digits_val (CHR ''1'' # replicate m (CHR ''0'')) * 10 ^ Suc d \<le> 2 * digits_val ds + 10 ^ Suc d"
      using val unfolding e by simp
    ultimately show ?thesis
      by (intro exI [of _ "CHR ''1'' # replicate m (CHR ''0'')"] exI [of _ "Suc d"])
        (simp add: list_all_iff del: power_Suc)
  qed
qed

subsection \<open>Properties\<close>



text \<open>
  A coefficient with more digits than the format holds is rounded to the nearest
  one that fits, a tie away from zero, with the exponent raised by the digits dropped,
  including the carry that makes 9.99 into 10.
\<close>

theorem decfloat_rounding:
  assumes "list_all is_digit ds" and "max_digits fmt < length ds"
  shows "\<exists>ds' x. fit_digits (max_digits fmt) ds (Some e) = (ds', Some (e + int x))
    \<and> ds' \<noteq> [] \<and> list_all is_digit ds' \<and> length ds' \<le> max_digits fmt
    \<and> 2 * digits_val ds < 2 * digits_val ds' * 10 ^ x + 10 ^ x
    \<and> 2 * digits_val ds' * 10 ^ x \<le> 2 * digits_val ds + 10 ^ x"
  using fit_digits_rounds [OF assms, of e] by (auto simp: max_digits_def)

theorem decfloat_rounding_witness:
  "\<exists>ds' x. fit_digits (max_digits DEC64) ''99999999999999995'' (Some 3) = (ds', Some (3 + int x))
    \<and> ds' \<noteq> [] \<and> list_all is_digit ds' \<and> length ds' \<le> max_digits DEC64
    \<and> 2 * digits_val ''99999999999999995'' < 2 * digits_val ds' * 10 ^ x + 10 ^ x
    \<and> 2 * digits_val ds' * 10 ^ x \<le> 2 * digits_val ''99999999999999995'' + 10 ^ x"
  by (rule decfloat_rounding) (simp_all add: is_digit_code max_digits_def DEC64_def)

text \<open>
  C4. The range check on the exponent lets through a quarter of the exponents it should
  refuse: from 370 (or 6112) on, a short coefficient is encoded without an error into
  bytes that decode to another number, with a leading eight and an exponent 768 (or
  12288) lower.
\<close>

theorem high_exponent_corrupts:
  assumes "w = 8 \<or> w = 16" and "canonical_digits ds" and "length ds < max_digits (format_of w)"
    and "3 * 2 ^ df_exp_cont_bits (format_of w) \<le> int n + df_bias (format_of w)"
    and "int n + df_bias (format_of w) < 4 * 2 ^ df_exp_cont_bits (format_of w)"
  shows "\<exists>buf. encode_dec_float (ds @ ''E'' @ dec_nat n) w = Inr buf
    \<and> decode_dec_float buf = dec_format False (CHR ''8'' # pad_zeros (max_digits (format_of w) - 1) ds)
        (int n - 3 * 2 ^ df_exp_cont_bits (format_of w))"
proof -
  let ?f = "format_of w" let ?k = "df_exp_cont_bits ?f" let ?b = "int n + df_bias ?f"
  let ?rest = "pad_zeros (max_digits ?f - 1) ds"
  have ds: "ds \<noteq> []" "list_all is_digit ds" "strip_zeros ds = ds"
    using assms(2) by (simp_all add: canonical_digits_def)
  have pad: "pad_zeros (max_digits ?f) ds = CHR ''0'' # ?rest"
    using assms(3) by (cases "max_digits ?f - length ds") (auto simp: pad_zeros_def Suc_diff_le)
  have "\<exists>c cs. trim (ds @ ''E'' @ dec_nat n) = c # cs \<and> is_digit c"
  proof -
    obtain c cs where wc: "ds = c # cs" "is_digit c" using ds by (cases ds) auto
    have "is_digit (last (ds @ ''E'' @ dec_nat n))"
      using dec_nat_list_all [of n] by (simp add: list_all_iff)
    then have "trim (ds @ ''E'' @ dec_nat n) = ds @ ''E'' @ dec_nat n"
      using wc digit_not by (intro trim_id) auto
    with wc show ?thesis by simp
  qed
  then have num: "encode_dec_float (ds @ ''E'' @ dec_nat n) w
      = encode_parsed (ds @ ''E'' @ dec_nat n) w False ds (Some (int n))"
    using encode_numeric [of "ds @ ''E'' @ dec_nat n" False] parse_scientific [OF assms(2)] by auto
  have q: "?b div 2 ^ ?k = 3"
    using assms(4,5) by (intro int_div_pos_eq [where r = "?b - 3 * 2 ^ ?k"]) simp_all
  then have m: "?b mod 2 ^ ?k = ?b - 3 * 2 ^ ?k"
    by (simp add: minus_div_mult_eq_mod [symmetric])
  have len: "length ?rest = 3 * df_declets ?f"
    using assms(3) by (simp add: pad_zeros_def max_digits_def)
  have v0: "digit_val (CHR ''0'') = 0" by code_simp
  let ?r = "pack_declets (df_declets ?f) (combination 3 0 * 2 ^ ?k + ?b mod 2 ^ ?k) ?rest"
  have enc: "encode_parsed (ds @ ''E'' @ dec_nat n) w False ds (Some (int n)) = Inr (be_bytes (df_width ?f) ?r)"
    using encode_parsed_packs [OF assms(1) ds(1,2) _ _ assms(5) pad, of "ds @ ''E'' @ dec_nat n" False] assms(3,4) q v0
    by (simp add: order_trans [of 0 "3 * 2 ^ ?k"])
  have "combination 3 0 = 24" by (simp add: combination_def push_bit_eq_mult)
  moreover have "dec_int 8 = ''8''"
    by (simp add: dec_int_def dec_nat.simps digit_char_def) code_simp
  moreover have "strip_zeros (CHR ''8'' # ?rest) = CHR ''8'' # ?rest"
    by (cases ?rest) auto
  ultimately have "decode_dec_float (be_bytes (df_width ?f) ?r)
      = dec_format False (CHR ''8'' # ?rest) (?b mod 2 ^ ?k - df_bias ?f)"
    using decode_packed [OF assms(1) pad_zeros_digits [OF ds(2)] len, of 0 24 "?b mod 2 ^ ?k"] by simp
  then show ?thesis
    using num enc m by simp
qed

theorem high_exponent_corrupts_witness:
  "\<exists>buf. encode_dec_float (''1'' @ ''E'' @ dec_nat 370) 8 = Inr buf
    \<and> decode_dec_float buf = dec_format False (CHR ''8'' # pad_zeros (max_digits (format_of 8) - 1) ''1'')
        (int 370 - 3 * 2 ^ df_exp_cont_bits (format_of 8))"
proof -
  have c: "canonical_digits ''1''"
    by (simp add: canonical_digits_def is_digit_code)
  show ?thesis
    by (rule high_exponent_corrupts) (use c in \<open>simp_all add: max_digits_def format_of_def DEC64_def\<close>)
qed

end
