(* ===== verification/Column_Reader.thy ===== *)
theory Column_Reader
  imports Response Info Date_Time Zoned_Date Dec_Float
begin

text \<open>
  The reading half of \<open>protocol/msgcodec.ts\<close>: cells, the reader of a column chosen by
  its description, and rows with their null bitmap. A floating point value is its IEEE
  bytes; a number the code computes from a scaled integer is the pair of the integer and
  its scale, before the rounding of the division.
\<close>

subsection \<open>Cells\<close>

datatype cell =
    CNull
  | CText string
  | CBytes bytes
  | CNumber int int
  | CBigInt int
  | CFloat bytes
  | CBool bool
  | CDate "int option"
  | CZoned "int option" string
  | CBlobRef bytes int

text \<open>A text codec is the caller's: decoding may throw, and OCTETS decode to a Buffer.\<close>

record text_codec =
  tc_decode :: "bytes \<Rightarrow> cell res"
  tc_encode :: "string \<Rightarrow> bytes res"

datatype int64_mode = Int64Auto | Int64BigInt | Int64Number
datatype tz_mode = TzInstant | TzZoned

definition MAX_SAFE_INTEGER :: int where
  "MAX_SAFE_INTEGER = 9007199254740991"

definition apply_scale :: "int \<Rightarrow> int \<Rightarrow> int64_mode \<Rightarrow> cell" where
  "apply_scale v scale mode =
     (if scale < 0 then CNumber v scale
      else if 0 < scale then CNumber v scale
      else if mode = Int64BigInt then CBigInt v
      else if mode = Int64Number then CNumber v 0
      else if - MAX_SAFE_INTEGER \<le> v \<and> v \<le> MAX_SAFE_INTEGER then CNumber v 0 else CBigInt v)"

definition read_padded :: "int \<Rightarrow> bytes rd" where
  "read_padded len = (if len = 0 then rd_return []
     else rd_bind (read_bytes (pad4 len)) (\<lambda>d. rd_return (take (nat len) d)))"

text \<open>\<open>v.replace(/ +$/, '')\<close>.\<close>

definition trim_blanks :: "string \<Rightarrow> string" where
  "trim_blanks s = rev (dropWhile (\<lambda>c. c = CHR '' '') (rev s))"

definition trim_cell :: "cell \<Rightarrow> cell" where
  "trim_cell c = (case c of CText s \<Rightarrow> CText (trim_blanks s) | _ \<Rightarrow> c)"

definition rd_lift :: "'a res \<Rightarrow> 'a rd" where
  "rd_lift r = (\<lambda>w. (r, w))"

subsection \<open>Column readers\<close>

definition make_column_reader ::
  "local_zone \<Rightarrow> sql_var_desc \<Rightarrow> text_codec option \<Rightarrow> int64_mode \<Rightarrow> tz_mode \<Rightarrow> cell rd res" where
  "make_column_reader z d codec int64_as tz =
     (let scale = v_scale d in
      case sql_type_of (v_type d) of
        None \<Rightarrow> Inl (fb_error (''Unsupported SQL type '' @ dec_int (v_type d) @ '' in result set''))
      | Some t \<Rightarrow>
       (case t of
          SQL_TEXT \<Rightarrow> Inr (case codec of
              Some c \<Rightarrow> rd_bind (read_padded (v_length d)) (\<lambda>raw.
                  rd_bind (rd_lift (tc_decode c raw)) (\<lambda>v. rd_return (trim_cell v)))
            | None \<Rightarrow> rd_bind (read_padded (v_length d)) (\<lambda>raw. rd_return (CBytes raw)))
        | SQL_VARYING \<Rightarrow> Inr (case codec of
              Some c \<Rightarrow> rd_bind read_opaque (\<lambda>raw. rd_lift (tc_decode c raw))
            | None \<Rightarrow> rd_bind read_opaque (\<lambda>raw. rd_return (CBytes raw)))
        | SQL_SHORT \<Rightarrow> Inr (rd_bind read_int32 (\<lambda>v.
              rd_return (apply_scale v scale (if scale = 0 then Int64Number else int64_as))))
        | SQL_LONG \<Rightarrow> Inr (rd_bind read_int32 (\<lambda>v.
              rd_return (apply_scale v scale (if scale = 0 then Int64Number else int64_as))))
        | SQL_INT64 \<Rightarrow> Inr (rd_bind (read_bytes 8) (\<lambda>b.
              rd_return (apply_scale (signed_val 8 (be_val b)) scale int64_as)))
        | SQL_INT128 \<Rightarrow> Inr (rd_bind (read_bytes 16) (\<lambda>b.
              rd_return (apply_scale (signed_val 8 (be_val (take 8 b)) * 2 ^ 64 + be_val (drop 8 b))
                scale Int64BigInt)))
        | SQL_FLOAT \<Rightarrow> Inr (rd_bind (read_bytes 4) (\<lambda>b. rd_return (CFloat b)))
        | SQL_DOUBLE \<Rightarrow> Inr (rd_bind (read_bytes 8) (\<lambda>b. rd_return (CFloat b)))
        | SQL_D_FLOAT \<Rightarrow> Inr (rd_bind (read_bytes 8) (\<lambda>b. rd_return (CFloat b)))
        | SQL_BOOLEAN \<Rightarrow> Inr (rd_bind read_int32 (\<lambda>v. rd_return (CBool (v \<noteq> 0))))
        | SQL_TYPE_DATE \<Rightarrow> Inr (rd_bind read_int32 (\<lambda>days. rd_return (CDate (read_date_cell z days))))
        | SQL_TYPE_TIME \<Rightarrow> Inr (rd_bind read_int32 (\<lambda>f. rd_return (CDate (read_time_cell z (to_uint32 f)))))
        | SQL_TIMESTAMP \<Rightarrow> Inr (rd_bind read_int32 (\<lambda>days. rd_bind read_int32 (\<lambda>f.
              rd_return (CDate (decode_timestamp z days (to_uint32 f))))))
        | SQL_TIMESTAMP_TZ \<Rightarrow> Inr (rd_bind read_int32 (\<lambda>days. rd_bind read_int32 (\<lambda>f. rd_bind read_int32 (\<lambda>i.
              let t = read_timestamp_tz_cell days (to_uint32 f) in
              rd_return (if tz = TzZoned then CZoned t (tz_id_to_zone (i mod 65536)) else CDate t)))))
        | SQL_TIMESTAMP_TZ_EX \<Rightarrow> Inr (rd_bind read_int32 (\<lambda>days. rd_bind read_int32 (\<lambda>f. rd_bind read_int32 (\<lambda>i.
              rd_bind (read_bytes 4) (\<lambda>_.
              let t = read_timestamp_tz_cell days (to_uint32 f) in
              rd_return (if tz = TzZoned then CZoned t (tz_id_to_zone (i mod 65536)) else CDate t))))))
        | SQL_TIME_TZ \<Rightarrow> Inr (rd_bind read_int32 (\<lambda>f. rd_bind read_int32 (\<lambda>i.
              let t = read_time_tz_cell (to_uint32 f) in
              rd_return (if tz = TzZoned then CZoned t (tz_id_to_zone (i mod 65536)) else CDate t))))
        | SQL_TIME_TZ_EX \<Rightarrow> Inr (rd_bind read_int32 (\<lambda>f. rd_bind read_int32 (\<lambda>i. rd_bind (read_bytes 4) (\<lambda>_.
              let t = read_time_tz_cell (to_uint32 f) in
              rd_return (if tz = TzZoned then CZoned t (tz_id_to_zone (i mod 65536)) else CDate t)))))
        | SQL_BLOB \<Rightarrow> Inr (rd_bind (read_bytes 8) (\<lambda>b. rd_return (CBlobRef b (v_sub_type d))))
        | SQL_QUAD \<Rightarrow> Inr (rd_bind (read_bytes 8) (\<lambda>b. rd_return (CBlobRef b (v_sub_type d))))
        | SQL_ARRAY \<Rightarrow> Inr (rd_bind (read_bytes 8) (\<lambda>b. rd_return (CBlobRef b (v_sub_type d))))
        | SQL_DEC16 \<Rightarrow> Inr (rd_bind (read_bytes 8) (\<lambda>b. rd_return (CText (decode_dec_float b))))
        | SQL_DEC34 \<Rightarrow> Inr (rd_bind (read_bytes 16) (\<lambda>b. rd_return (CText (decode_dec_float b))))
        | SQL_NULL \<Rightarrow> Inr (rd_return CNull)))"

subsection \<open>Rows\<close>

text \<open>\<open>(n + 7) >> 3\<close> and the bit of column \<open>i\<close>, lowest bit first.\<close>

definition bitmap_len :: "nat \<Rightarrow> nat" where
  "bitmap_len n = (n + 7) div 8"

definition null_bit :: "bytes \<Rightarrow> nat \<Rightarrow> bool" where
  "null_bit bm i = bit (bm ! (i div 8)) (i mod 8)"

fun read_cells :: "bytes \<Rightarrow> nat \<Rightarrow> cell rd list \<Rightarrow> cell list rd" where
  "read_cells bm i [] = rd_return []"
| "read_cells bm i (r # rs) =
     rd_bind (if null_bit bm i then rd_return CNull else r)
       (\<lambda>c. rd_bind (read_cells bm (Suc i) rs) (\<lambda>cs. rd_return (c # cs)))"

definition read_row :: "cell rd list \<Rightarrow> cell list rd" where
  "read_row readers = rd_bind (read_padded (int (bitmap_len (length readers))))
     (\<lambda>bm. read_cells bm 0 readers)"

subsection \<open>What a reader takes off the stream\<close>

text \<open>
  \<open>takes n m\<close>: \<open>m\<close> uses exactly the next \<open>n\<close> bytes, and its result depends on nothing
  else. \<open>gets n m\<close> says that it also never fails.
\<close>

definition takes :: "nat \<Rightarrow> 'a rd \<Rightarrow> bool" where
  "takes n m = (\<exists>f. \<forall>e w. length e = n \<longrightarrow> m (feed e w) = (f e, w))"

definition gets :: "nat \<Rightarrow> 'a rd \<Rightarrow> bool" where
  "gets n m = (\<exists>f. \<forall>e w. length e = n \<longrightarrow> m (feed e w) = (Inr (f e), w))"

lemma takes_bind:
  assumes "gets n m" and "\<And>x. takes k (g x)"
  shows "takes (n + k) (rd_bind m g)"
proof -
  obtain f where f: "length e = n \<Longrightarrow> m (feed e w) = (Inr (f e), w)" for e w
    using assms(1) by (auto simp: gets_def)
  obtain h where h: "length e = k \<Longrightarrow> g x (feed e w) = (h x e, w)" for x e w
    using assms(2) unfolding takes_def by metis
  have "rd_bind m g (feed e w) = (h (f (take n e)) (drop n e), w)" if "length e = n + k" for e w
  proof -
    have e: "feed e w = feed (take n e) (feed (drop n e) w)"
      by (metis append_take_drop_id feed_append)
    have "m (feed (take n e) (feed (drop n e) w)) = (Inr (f (take n e)), feed (drop n e) w)"
      using that by (intro f) simp
    then have "m (feed e w) = (Inr (f (take n e)), feed (drop n e) w)" by (simp only: e)
    then show ?thesis
      using h [of "drop n e" "f (take n e)" w] that by (simp add: rd_bind_def)
  qed
  then show ?thesis
    unfolding takes_def by (intro exI [of _ "\<lambda>e. h (f (take n e)) (drop n e)"]) blast
qed

lemma takes_return [simp]: "takes 0 (rd_return x)"
  by (auto simp: takes_def)

lemma takes_lift [simp]: "takes 0 (rd_lift r)"
  by (auto simp: takes_def rd_lift_def)

lemma gets_bytes [simp]: "int n = k \<Longrightarrow> gets n (read_bytes k)"
  unfolding gets_def by (intro exI [of _ id]) (auto simp: read_bytes_feed)

lemma gets_int32 [simp]: "gets 4 read_int32"
  unfolding gets_def read_int32_def
  by (intro exI [of _ "\<lambda>e. to_int32 (be_val e)"]) (simp add: rd_bind_def read_bytes_feed)

lemma gets_padded [simp]:
  assumes "n < 2147483645"
  shows "gets (pad4n n) (read_padded (int n))"
  unfolding gets_def read_padded_def
  using assms by (intro exI [of _ "take n"]) (auto simp: rd_bind_def read_bytes_feed pad4_nat)

lemma takes_last: "gets n m \<Longrightarrow> (\<And>x. takes 0 (g x)) \<Longrightarrow> takes n (rd_bind m g)"
  using takes_bind [of n m 0 g] by simp

text \<open>The bytes of a column's value in a row; \<open>None\<close> for the counted VARCHAR.\<close>

fun cell_width :: "sql_type \<Rightarrow> nat \<Rightarrow> nat option" where
  "cell_width SQL_TEXT n = Some (pad4n n)"
| "cell_width SQL_VARYING n = None"
| "cell_width SQL_SHORT n = Some 4"
| "cell_width SQL_LONG n = Some 4"
| "cell_width SQL_FLOAT n = Some 4"
| "cell_width SQL_DOUBLE n = Some 8"
| "cell_width SQL_D_FLOAT n = Some 8"
| "cell_width SQL_TIMESTAMP n = Some 8"
| "cell_width SQL_BLOB n = Some 8"
| "cell_width SQL_ARRAY n = Some 8"
| "cell_width SQL_QUAD n = Some 8"
| "cell_width SQL_TYPE_TIME n = Some 4"
| "cell_width SQL_TYPE_DATE n = Some 4"
| "cell_width SQL_INT64 n = Some 8"
| "cell_width SQL_INT128 n = Some 16"
| "cell_width SQL_TIMESTAMP_TZ_EX n = Some 16"
| "cell_width SQL_TIME_TZ_EX n = Some 12"
| "cell_width SQL_TIMESTAMP_TZ n = Some 12"
| "cell_width SQL_TIME_TZ n = Some 8"
| "cell_width SQL_DEC16 n = Some 8"
| "cell_width SQL_DEC34 n = Some 16"
| "cell_width SQL_BOOLEAN n = Some 4"
| "cell_width SQL_NULL n = Some 0"

lemma cell_width_aligned: "cell_width t n = Some k \<Longrightarrow> 4 dvd k"
  by (cases t) auto

lemma takes_2: "(\<And>x y. takes 0 (g x y)) \<Longrightarrow> takes 8 (rd_bind read_int32 (\<lambda>x. rd_bind read_int32 (g x)))"
proof -
  assume "\<And>x y. takes 0 (g x y)"
  then have "takes (4 + 4) (rd_bind read_int32 (\<lambda>x. rd_bind read_int32 (g x)))"
    by (intro takes_bind gets_int32 takes_last)
  then show ?thesis by simp
qed

lemma takes_3:
  assumes "gets 4 m" and "\<And>x y z. takes 0 (g x y z)"
  shows "takes 12 (rd_bind read_int32 (\<lambda>x. rd_bind read_int32 (\<lambda>y. rd_bind m (g x y))))"
proof -
  have "takes (4 + (4 + 4)) (rd_bind read_int32 (\<lambda>x. rd_bind read_int32 (\<lambda>y. rd_bind m (g x y))))"
    by (intro takes_bind gets_int32 takes_last assms)
  then show ?thesis by simp
qed

lemma takes_4:
  assumes "\<And>x y z u. takes 0 (g x y z u)"
  shows "takes 16 (rd_bind read_int32 (\<lambda>x. rd_bind read_int32 (\<lambda>y. rd_bind read_int32 (\<lambda>z.
    rd_bind (read_bytes 4) (g x y z)))))"
proof -
  have "takes (4 + (4 + (4 + 4))) (rd_bind read_int32 (\<lambda>x. rd_bind read_int32 (\<lambda>y. rd_bind read_int32 (\<lambda>z.
    rd_bind (read_bytes 4) (g x y z)))))"
    by (intro takes_bind gets_int32 takes_last gets_bytes assms) simp
  then show ?thesis by simp
qed

lemma reader_takes_width:
  assumes "make_column_reader z d codec m tz = Inr r" and "v_type d = sql_type_code t"
    and "v_length d = int n" and "n < 2147483645" and "cell_width t n = Some k"
  shows "takes k r"
proof -
  have t: "sql_type_of (v_type d) = Some t" using assms(2) by simp
  have lifted: "takes 0 (rd_bind (rd_lift x) (\<lambda>v. rd_return (g v)))" for x :: "cell res" and g :: "cell \<Rightarrow> cell"
    by (cases x) (auto simp: takes_def rd_bind_def rd_lift_def)
  have b4: "gets 4 (read_bytes 4)" by simp
  show ?thesis
    using assms(1,5) unfolding make_column_reader_def Let_def t
    by (cases t)
       (auto simp: assms(3) Let_def split: option.splits
          intro!: takes_2 takes_3 [OF gets_int32] takes_3 [OF b4] takes_4 takes_last gets_padded assms(4) lifted)
qed

subsection \<open>The null bitmap\<close>

text \<open>What a server puts in front of a row: one bit per column, lowest bit first.\<close>

definition bitmap_byte :: "bool list \<Rightarrow> nat \<Rightarrow> byte" where
  "bitmap_byte nulls j = word_of_nat (horner_sum of_bool 2 (take 8 (drop (8 * j) nulls)))"

definition enc_bitmap :: "bool list \<Rightarrow> bytes" where
  "enc_bitmap nulls = map (bitmap_byte nulls) [0..<bitmap_len (length nulls)]"

lemma null_bit_enc:
  assumes "i < length nulls"
  shows "null_bit (enc_bitmap nulls) i = nulls ! i"
proof -
  have j: "i div 8 < bitmap_len (length nulls)"
    using assms unfolding bitmap_len_def by linarith
  have m: "8 * (i div 8) + i mod 8 = i" by simp
  then have "i mod 8 < length (drop (8 * (i div 8)) nulls)"
    using assms by simp arith
  moreover have "drop (8 * (i div 8)) nulls ! (i mod 8) = nulls ! i"
    using assms m by (subst nth_drop) simp_all
  ultimately show ?thesis
    using j by (simp add: null_bit_def enc_bitmap_def bitmap_byte_def bit_of_nat_iff bit_horner_sum_bit_iff)
qed

lemma length_enc_bitmap [simp]: "length (enc_bitmap nulls) = bitmap_len (length nulls)"
  by (simp add: enc_bitmap_def)

text \<open>
  A row on the wire: the bitmap, padded with any bytes to a multiple of four, then the
  values that are not null. A column is its reader with the cell and its bytes, or null.
\<close>

type_synonym row_item = "cell rd \<times> (cell \<times> bytes) option"

definition item_ok :: "row_item \<Rightarrow> bool" where
  "item_ok it = (case snd it of None \<Rightarrow> True
     | Some (c, e) \<Rightarrow> (\<forall>w. fst it (feed e w) = (Inr c, w)))"

definition item_bytes :: "row_item \<Rightarrow> bytes" where
  "item_bytes it = (case snd it of None \<Rightarrow> [] | Some (c, e) \<Rightarrow> e)"

definition item_cell :: "row_item \<Rightarrow> cell" where
  "item_cell it = (case snd it of None \<Rightarrow> CNull | Some (c, e) \<Rightarrow> c)"

definition enc_row :: "bytes \<Rightarrow> row_item list \<Rightarrow> bytes" where
  "enc_row fill its = enc_bitmap (map (\<lambda>it. snd it = None) its) @ fill @ concat (map item_bytes its)"

lemma read_cells_items:
  assumes "\<forall>k < length its. null_bit bm (i + k) = (snd (its ! k) = None)" and "list_all item_ok its"
  shows "read_cells bm i (map fst its) (feed (concat (map item_bytes its)) w) = (Inr (map item_cell its), w)"
  using assms
proof (induction its arbitrary: i)
  case (Cons it its)
  have bit: "null_bit bm i = (snd it = None)"
    using Cons.prems(1) by (metis add_0_right length_greater_0_conv list.distinct(1) nth_Cons_0)
  have "read_cells bm (Suc i) (map fst its) (feed (concat (map item_bytes its)) w) = (Inr (map item_cell its), w)"
    using Cons.prems by (intro Cons.IH) (auto dest: spec [of _ "Suc _"])
  moreover have "(if null_bit bm i then rd_return CNull else fst it) (feed (item_bytes it) w') = (Inr (item_cell it), w')" for w'
    using Cons.prems(2) bit by (auto simp: item_ok_def item_bytes_def item_cell_def)
  ultimately show ?case by (simp add: rd_bind_def del: if_split)
qed simp

lemma read_padded_fill:
  assumes "length d < 2147483645" and "length fill = pad4n (length d) - length d"
  shows "read_padded (int (length d)) (feed (d @ fill) w) = (Inr d, w)"
proof -
  have "read_bytes (int (pad4n (length d))) (feed (d @ fill) w) = (Inr (d @ fill), w)"
    using assms by (intro read_bytes_feed) simp
  moreover have "d = [] \<Longrightarrow> fill = []" using assms(2) by simp
  ultimately show ?thesis
    using assms(1) by (auto simp: read_padded_def rd_bind_def pad4_nat)
qed

subsection \<open>Integers\<close>

lemma be_split: "be_bytes 16 v = be_bytes 8 (v div 2 ^ 64) @ be_bytes 8 v"
proof -
  have le: "le_bytes (m + n) v = le_bytes m v @ le_bytes n (v div 256 ^ m)" for m n v
    by (induction m arbitrary: v) (simp_all add: zdiv_zmult2_eq)
  from le [of 8 8 v] show ?thesis
    by (simp add: be_bytes_def del: le_bytes.simps)
qed

lemma read_int64_back:
  assumes "- (2 ^ 63) \<le> v" and "v < 2 ^ 63"
  shows "signed_val 8 (be_val (be_bytes 8 v)) = v"
  using signed_val_mod [of 8 v] assms by (simp add: be_val_be_bytes pow256)

lemma read_int128_back:
  assumes "- (2 ^ 127) \<le> v" and "v < 2 ^ 127"
  shows "signed_val 8 (be_val (take 8 (be_bytes 16 v))) * 2 ^ 64 + be_val (drop 8 (be_bytes 16 v)) = v"
proof -
  have "- (2 ^ 63) \<le> v div 2 ^ 64" "v div 2 ^ 64 < 2 ^ 63"
    using assms div_less_of_less [of "2 ^ 64" v "2 ^ 63"] zdiv_mono1 [OF assms(1), of "2 ^ 64"] by simp_all
  then have "signed_val 8 (be_val (be_bytes 8 (v div 2 ^ 64))) = v div 2 ^ 64" by (rule read_int64_back)
  moreover have "be_val (be_bytes 8 v) = v mod 2 ^ 64"
    by (simp add: be_val_be_bytes pow256)
  ultimately show ?thesis
    by (simp add: be_split)
qed

subsection \<open>A whole row\<close>

lemma read_row_items:
  assumes "list_all item_ok its" and "length its < 2147483645"
    and "length fill = pad4n (bitmap_len (length its)) - bitmap_len (length its)"
  shows "read_row (map fst its) (feed (enc_row fill its) w) = (Inr (map item_cell its), w)"
proof -
  let ?bm = "enc_bitmap (map (\<lambda>it. snd it = None) its)"
  have len: "length ?bm = bitmap_len (length its)" by simp
  have "bitmap_len (length its) \<le> length its" unfolding bitmap_len_def by (cases its) simp_all
  then have "read_padded (int (length ?bm)) (feed (?bm @ fill) (feed (concat (map item_bytes its)) w))
      = (Inr ?bm, feed (concat (map item_bytes its)) w)"
    using assms(2,3) by (intro read_padded_fill) (simp_all only: len)
  moreover have "read_cells ?bm 0 (map fst its) (feed (concat (map item_bytes its)) w) = (Inr (map item_cell its), w)"
    using assms(1) by (intro read_cells_items) (simp_all add: null_bit_enc)
  ultimately show ?thesis
    by (simp add: read_row_def rd_bind_def enc_row_def)
qed

subsection \<open>Properties\<close>

text \<open>
  The reader of every fixed-size column type takes exactly the bytes the protocol
  gives that type, a multiple of four, and its result, a value or the error of the text
  codec, depends on those bytes alone: a row never runs into the next one.
\<close>

theorem column_reader_width:
  assumes "make_column_reader z d codec m tz = Inr r" and "v_type d = sql_type_code t"
    and "v_length d = int n" and "n < 2147483645" and "cell_width t n = Some k"
  shows "4 dvd k \<and> (\<exists>f. \<forall>e w. length e = k \<longrightarrow> r (feed e w) = (f e, w))"
  using reader_takes_width [OF assms] cell_width_aligned [OF assms(5)] by (simp add: takes_def)

theorem column_reader_width_witness:
  "4 dvd (8::nat) \<and> (\<exists>f. \<forall>e w. length e = 8 \<longrightarrow>
     (rd_bind (read_bytes 8) (\<lambda>b. rd_return (CBlobRef b 1))) (feed e w) = (f e, w))"
  by (rule column_reader_width [where d = "\<lparr>v_type = 520, v_nullable = True, v_sub_type = 1, v_scale = 0, v_length = 8,
      v_field = None, v_relation = None, v_owner = None, v_alias = None, v_relation_alias = None\<rparr>"
      and t = SQL_BLOB and n = 8 and codec = None and m = Int64Auto and tz = TzInstant])
     (simp_all add: make_column_reader_def rd_return_def sql_type_of_code [of SQL_BLOB, simplified])

text \<open>
  C5. A row is read back as it was sent: nulls exactly where the bitmap has a bit, and
  every other cell from its own bytes, whatever fills the bitmap up to a multiple of
  four; the stream is left behind the row.
\<close>

theorem row_reads_back:
  assumes "list_all item_ok its" and "length its < 2147483645"
    and "length fill = pad4n (bitmap_len (length its)) - bitmap_len (length its)"
  shows "read_row (map fst its) (feed (enc_row fill its) w) = (Inr (map item_cell its), w)"
  using assms by (rule read_row_items)

theorem row_reads_back_witness:
  "\<forall>w. read_row (map fst [(rd_bind read_int32 (\<lambda>v. rd_return (CNumber v 0)), None),
        (rd_bind read_int32 (\<lambda>v. rd_return (CNumber v 0)), Some (CNumber 7 0, enc_int32 7))])
     (feed (enc_row [9, 9, 9] [(rd_bind read_int32 (\<lambda>v. rd_return (CNumber v 0)), None),
        (rd_bind read_int32 (\<lambda>v. rd_return (CNumber v 0)), Some (CNumber 7 0, enc_int32 7))]) w)
   = (Inr (map item_cell [(rd_bind read_int32 (\<lambda>v. rd_return (CNumber v 0)), None),
        (rd_bind read_int32 (\<lambda>v. rd_return (CNumber v 0)), Some (CNumber 7 0, enc_int32 7))]), w)"
  by (intro allI row_reads_back)
     (simp_all add: item_ok_def rd_bind_def read_int32_feed_id bitmap_len_def pad4n_def)

text \<open>
  Integer columns are exact: whatever 64- or 128-bit integer the server sends, the
  cell carries that integer with the column's scale, as a number only where a number
  holds it exactly.
\<close>

theorem integer_columns_exact:
  assumes "make_column_reader z d codec m tz = Inr r"
    and "v_type d = sql_type_code SQL_INT64 \<and> - (2 ^ 63) \<le> v \<and> v < 2 ^ 63 \<and> e = be_bytes 8 v \<and> mode = m
      \<or> v_type d = sql_type_code SQL_INT128 \<and> - (2 ^ 127) \<le> v \<and> v < 2 ^ 127 \<and> e = be_bytes 16 v \<and> mode = Int64BigInt"
  shows "r (feed e w) = (Inr (apply_scale v (v_scale d) mode), w)
    \<and> (v_scale d = 0 \<and> mode = Int64Auto \<longrightarrow>
       apply_scale v (v_scale d) mode = (if \<bar>v\<bar> \<le> MAX_SAFE_INTEGER then CNumber v 0 else CBigInt v))"
proof
  show "r (feed e w) = (Inr (apply_scale v (v_scale d) mode), w)"
    using assms(2)
  proof (elim disjE conjE)
    assume a: "v_type d = sql_type_code SQL_INT64" "- (2 ^ 63) \<le> v" "v < 2 ^ 63" "e = be_bytes 8 v" "mode = m"
    from a(1) have "sql_type_of (v_type d) = Some SQL_INT64" by (simp only: sql_type_of_code)
    with a assms(1) read_int64_back [OF a(2,3)] show ?thesis
      by (auto simp: make_column_reader_def rd_bind_def read_bytes_feed)
  next
    assume a: "v_type d = sql_type_code SQL_INT128" "- (2 ^ 127) \<le> v" "v < 2 ^ 127" "e = be_bytes 16 v" "mode = Int64BigInt"
    from a(1) have "sql_type_of (v_type d) = Some SQL_INT128" by (simp only: sql_type_of_code)
    with a assms(1) read_int128_back [OF a(2,3)] show ?thesis
      by (auto simp: make_column_reader_def rd_bind_def read_bytes_feed)
  qed
  show "v_scale d = 0 \<and> mode = Int64Auto \<longrightarrow>
      apply_scale v (v_scale d) mode = (if \<bar>v\<bar> \<le> MAX_SAFE_INTEGER then CNumber v 0 else CBigInt v)"
    by (auto simp: apply_scale_def)
qed

theorem integer_columns_exact_witness:
  "\<forall>w. rd_bind (read_bytes 8) (\<lambda>b. rd_return (apply_scale (signed_val 8 (be_val b)) 0 Int64Auto))
       (feed (be_bytes 8 9007199254740993) w) = (Inr (apply_scale 9007199254740993 0 Int64Auto), w)
    \<and> ((0::int) = 0 \<and> Int64Auto = Int64Auto \<longrightarrow>
       apply_scale 9007199254740993 0 Int64Auto
         = (if \<bar>9007199254740993\<bar> \<le> MAX_SAFE_INTEGER then CNumber 9007199254740993 0 else CBigInt 9007199254740993))"
proof -
  have t: "sql_type_of 580 = Some SQL_INT64" using sql_type_of_code [of SQL_INT64] by simp
  show ?thesis
    by (intro allI integer_columns_exact [where d = "\<lparr>v_type = 580, v_nullable = True, v_sub_type = 0, v_scale = 0, v_length = 8,
        v_field = None, v_relation = None, v_owner = None, v_alias = None, v_relation_alias = None\<rparr>"
        and codec = None and m = Int64Auto and tz = TzInstant and mode = Int64Auto, simplified sql_var_desc.select_convs])
       (simp_all add: make_column_reader_def rd_return_def t)
qed

end
