(* ===== verification/Param_Encoder.thy ===== *)
theory Param_Encoder
  imports Column_Reader Xdr
begin

text \<open>
  The writing half of \<open>protocol/msgcodec.ts\<close>: the BLR of a message, the BLR of the
  output columns, and the encoding of parameter values. The specification side is what
  a server makes of it: the list of fields a BLR declares, and the value of each field
  of a message.
\<close>

unbundle bit_operations_syntax

subsection \<open>BLR\<close>

definition blr_byte :: "int \<Rightarrow> bytes" where
  "blr_byte b = [word_of_int b]"

definition blr_word :: "int \<Rightarrow> bytes" where
  "blr_word w = le_bytes 2 w"

definition blr_header :: "nat \<Rightarrow> bytes" where
  "blr_header n = blr_byte (blr_code Blr_version5) @ blr_byte (blr_code Blr_begin)
     @ blr_byte (blr_code Blr_message) @ blr_byte 0 @ blr_word (int n * 2)"

definition blr_footer :: bytes where
  "blr_footer = blr_byte (blr_code Blr_end) @ blr_byte (blr_code Blr_eoc)"

definition null_slot :: bytes where
  "null_slot = blr_byte (blr_code Blr_short) @ blr_byte 0"

text \<open>A field as the BLR declares it: a tag with a length, with a scale, or bare.\<close>

datatype blr_field = FLen blr int | FScale blr int | FBare blr

fun enc_field :: "blr_field \<Rightarrow> bytes" where
  "enc_field (FLen t n) = blr_byte (blr_code t) @ blr_word n"
| "enc_field (FScale t s) = blr_byte (blr_code t) @ blr_byte s"
| "enc_field (FBare t) = blr_byte (blr_code t)"

text \<open>The cases of \<open>buildOutputBlr\<close>.\<close>

definition output_field :: "sql_var_desc \<Rightarrow> blr_field res" where
  "output_field d =
     (case sql_type_of (v_type d) of
        Some SQL_TEXT \<Rightarrow> Inr (FLen Blr_text (v_length d))
      | Some SQL_VARYING \<Rightarrow> Inr (FLen Blr_varying (v_length d))
      | Some SQL_SHORT \<Rightarrow> Inr (FScale Blr_short (v_scale d))
      | Some SQL_LONG \<Rightarrow> Inr (FScale Blr_long (v_scale d))
      | Some SQL_INT64 \<Rightarrow> Inr (FScale Blr_int64 (v_scale d))
      | Some SQL_INT128 \<Rightarrow> Inr (FScale Blr_int128 (v_scale d))
      | Some SQL_FLOAT \<Rightarrow> Inr (FBare Blr_float)
      | Some SQL_DOUBLE \<Rightarrow> Inr (FBare Blr_double)
      | Some SQL_D_FLOAT \<Rightarrow> Inr (FBare Blr_double)
      | Some SQL_TYPE_DATE \<Rightarrow> Inr (FBare Blr_sql_date)
      | Some SQL_TYPE_TIME \<Rightarrow> Inr (FBare Blr_sql_time)
      | Some SQL_TIMESTAMP \<Rightarrow> Inr (FBare Blr_timestamp)
      | Some SQL_BLOB \<Rightarrow> Inr (FScale Blr_quad 0)
      | Some SQL_QUAD \<Rightarrow> Inr (FScale Blr_quad 0)
      | Some SQL_ARRAY \<Rightarrow> Inr (FScale Blr_quad 0)
      | Some SQL_BOOLEAN \<Rightarrow> Inr (FBare Blr_bool)
      | Some SQL_DEC16 \<Rightarrow> Inr (FBare Blr_dec64)
      | Some SQL_DEC34 \<Rightarrow> Inr (FBare Blr_dec128)
      | Some SQL_TIME_TZ \<Rightarrow> Inr (FBare Blr_sql_time_tz)
      | Some SQL_TIMESTAMP_TZ \<Rightarrow> Inr (FBare Blr_timestamp_tz)
      | Some SQL_TIME_TZ_EX \<Rightarrow> Inr (FBare Blr_ex_time_tz)
      | Some SQL_TIMESTAMP_TZ_EX \<Rightarrow> Inr (FBare Blr_ex_timestamp_tz)
      | _ \<Rightarrow> Inl (fb_error (''Unsupported output SQL type '' @ dec_int (v_type d))))"

fun output_fields :: "sql_var_desc list \<Rightarrow> blr_field list res" where
  "output_fields [] = Inr []"
| "output_fields (d # ds) = rthen (output_field d) (\<lambda>f. rthen (output_fields ds) (\<lambda>fs. Inr (f # fs)))"

definition message_blr :: "blr_field list \<Rightarrow> bytes" where
  "message_blr fs = blr_header (length fs) @ concat (map (\<lambda>f. enc_field f @ null_slot) fs) @ blr_footer"

definition build_output_blr :: "sql_var_desc list \<Rightarrow> bytes res" where
  "build_output_blr descs = rthen (output_fields descs) (\<lambda>fs. Inr (message_blr fs))"

subsection \<open>The BLR as the server reads it\<close>

definition blr_of :: "int \<Rightarrow> blr option" where
  "blr_of v = List.find (\<lambda>b. blr_code b = v)
     [Blr_text, Blr_varying, Blr_short, Blr_long, Blr_int64, Blr_int128, Blr_quad, Blr_float, Blr_double,
      Blr_sql_date, Blr_sql_time, Blr_timestamp, Blr_bool, Blr_dec64, Blr_dec128, Blr_sql_time_tz,
      Blr_timestamp_tz, Blr_ex_time_tz, Blr_ex_timestamp_tz]"

definition with_length :: "blr \<Rightarrow> bool" where
  "with_length t = (t = Blr_text \<or> t = Blr_varying)"

definition with_scale :: "blr \<Rightarrow> bool" where
  "with_scale t = (t = Blr_short \<or> t = Blr_long \<or> t = Blr_int64 \<or> t = Blr_int128 \<or> t = Blr_quad)"

definition parse_field :: "bytes \<Rightarrow> (blr_field \<times> bytes) option" where
  "parse_field bs =
     (case bs of [] \<Rightarrow> None | b # r \<Rightarrow>
        (case blr_of (uint b) of None \<Rightarrow> None | Some t \<Rightarrow>
           if with_length t then
             (case r of l # h # r' \<Rightarrow> Some (FLen t (le_val [l, h]), r') | _ \<Rightarrow> None)
           else if with_scale t then
             (case r of s # r' \<Rightarrow> Some (FScale t (signed_val 1 (uint s)), r') | _ \<Rightarrow> None)
           else Some (FBare t, r)))"

text \<open>\<open>n\<close> fields, each with its null indicator, then the footer.\<close>

fun parse_fields :: "nat \<Rightarrow> bytes \<Rightarrow> blr_field list option" where
  "parse_fields 0 bs = (if bs = [255, 76] then Some [] else None)"
| "parse_fields (Suc n) bs =
     (case parse_field bs of
        Some (f, s0 # s1 # r) \<Rightarrow>
          if s0 = 7 \<and> s1 = 0 then map_option ((#) f) (parse_fields n r) else None
      | _ \<Rightarrow> None)"

definition parse_message_blr :: "bytes \<Rightarrow> blr_field list option" where
  "parse_message_blr bs =
     (case bs of a # b # c # d # l # h # r \<Rightarrow>
        if a = 5 \<and> b = 2 \<and> c = 4 \<and> d = 0 \<and> even (le_val [l, h])
        then parse_fields (nat (le_val [l, h]) div 2) r else None
      | _ \<Rightarrow> None)"

fun field_ok :: "blr_field \<Rightarrow> bool" where
  "field_ok (FLen t n) = (blr_of (blr_code t) = Some t \<and> with_length t \<and> 0 \<le> n \<and> n < 65536)"
| "field_ok (FScale t s) = (blr_of (blr_code t) = Some t \<and> with_scale t \<and> - 128 \<le> s \<and> s < 128)"
| "field_ok (FBare t) = (blr_of (blr_code t) = Some t \<and> \<not> with_length t \<and> \<not> with_scale t)"

lemma blr_code_byte: "blr_of (blr_code t) = Some t \<Longrightarrow> blr_code t mod 256 = blr_code t"
  by (cases t) (simp_all add: blr_of_def)

lemma parse_field_enc:
  assumes "field_ok f"
  shows "parse_field (enc_field f @ r) = Some (f, r)"
proof (cases f)
  case (FLen t n)
  have "le_val (le_bytes 2 n) = n" using assms FLen by (simp add: le_val_le_bytes del: le_bytes.simps le_val.simps)
  moreover obtain l h where "le_bytes 2 n = [l, h]" by (simp add: numeral_2_eq_2)
  ultimately show ?thesis
    using assms FLen blr_code_byte [of t]
    by (simp add: parse_field_def blr_byte_def blr_word_def uint_byte_of_int del: le_bytes.simps le_val.simps)
next
  case (FScale t s)
  then show ?thesis
    using assms blr_code_byte [of t] signed_val_mod [of 1 s]
    by (auto simp: parse_field_def blr_byte_def uint_byte_of_int with_length_def with_scale_def)
next
  case (FBare t)
  then show ?thesis
    using assms blr_code_byte [of t]
    by (simp add: parse_field_def blr_byte_def uint_byte_of_int)
qed

lemma parse_fields_enc:
  "list_all field_ok fs \<Longrightarrow> parse_fields (length fs) (concat (map (\<lambda>f. enc_field f @ null_slot) fs) @ blr_footer) = Some fs"
proof (induction fs)
  case Nil
  then show ?case by (simp add: blr_footer_def blr_byte_def)
next
  case (Cons f fs)
  then show ?case
    using parse_field_enc [of f] by (simp add: null_slot_def blr_byte_def)
qed

lemma parse_message_blr_enc:
  assumes "list_all field_ok fs" and "length fs < 32768"
  shows "parse_message_blr (message_blr fs) = Some fs"
proof -
  have "le_val (le_bytes 2 (int (length fs) * 2)) = int (length fs) * 2"
    using assms(2) by (simp add: le_val_le_bytes del: le_bytes.simps le_val.simps)
  moreover obtain l h where "le_bytes 2 (int (length fs) * 2) = [l, h]" by (simp add: numeral_2_eq_2)
  ultimately show ?thesis
    using parse_fields_enc [OF assms(1)]
    by (simp add: parse_message_blr_def message_blr_def blr_header_def blr_byte_def blr_word_def nat_mult_distrib
        del: le_bytes.simps le_val.simps)
qed

lemma output_field_ok:
  assumes "output_field d = Inr f" and "0 \<le> v_length d" "v_length d < 65536" and "- 128 \<le> v_scale d" "v_scale d < 128"
  shows "field_ok f"
  using assms by (auto simp: output_field_def blr_of_def with_length_def with_scale_def split: option.splits sql_type.splits)

subsection \<open>Parameter values\<close>

text \<open>
  A JavaScript number is \<open>PNumber\<close> when it is a safe integer and otherwise \<open>PDouble\<close>
  with its IEEE bytes. A \<open>Date\<close> is its time value. Anything else (a stream that was
  not uploaded) is \<open>POther\<close> with its \<open>typeof\<close>.
\<close>

datatype param_value =
    PNull
  | PString string
  | PBool bool
  | PNumber int
  | PDouble bytes
  | PBigInt int
  | PZoned int string
  | PDate int
  | PBlobRef bytes
  | PDecFloat bytes
  | PBuffer bytes
  | POther string

text \<open>The constructor of \<open>DecFloatVal\<close>.\<close>

definition dec_float_val :: "bytes \<Rightarrow> param_value res" where
  "dec_float_val b = (if length b \<noteq> 8 \<and> length b \<noteq> 16
     then Inl (fb_error ''DecFloatVal expects 8 or 16 bytes'') else Inr (PDecFloat b))"

text \<open>
  One turn of the loop for a value that is not null: the field it declares, and the
  write it queues, which may still throw when it runs.
\<close>

definition param_field ::
  "local_zone \<Rightarrow> (nat \<Rightarrow> string \<Rightarrow> bytes res) \<Rightarrow> nat \<Rightarrow> param_value \<Rightarrow> (blr_field \<times> bytes res) res" where
  "param_field z encode_text i v =
     (case v of
        PNull \<Rightarrow> Inr (FLen Blr_text 1, Inr [])
      | PString s \<Rightarrow> rthen (encode_text i s) (\<lambda>b.
          if 65535 < length b
          then Inl (fb_error ''String parameter longer than 65535 bytes; use a BLOB column'')
          else Inr (FLen Blr_text (int (length b)), Inr (enc_opaque_fixed b)))
      | PBool t \<Rightarrow> (let b = str_bytes (if t then ''true'' else ''false'') in
          Inr (FLen Blr_text (int (length b)), Inr (enc_opaque_fixed b)))
      | PNumber n \<Rightarrow> if int32_range n then Inr (FScale Blr_long 0, Inr (enc_int32 n))
          else Inr (FScale Blr_int64 0, Inr (enc_int64 n))
      | PDouble b \<Rightarrow> Inr (FBare Blr_double, Inr b)
      | PBigInt n \<Rightarrow> if - (2 ^ 63) \<le> n \<and> n \<le> 2 ^ 63 - 1
          then Inr (FScale Blr_int64 0, Inr (enc_int64 n))
          else Inr (FScale Blr_int128 0,
            if - (2 ^ 63) \<le> n div 2 ^ 64 \<and> n div 2 ^ 64 < 2 ^ 63
            then Inr (be_bytes 8 (n div 2 ^ 64) @ be_bytes 8 (n mod 2 ^ 64)) else Inl RangeErr)
      | PZoned t zone \<Rightarrow> (let (days, fractions) = encode_timestamp_utc t in
          rthen (zone_to_tz_id zone) (\<lambda>tz. Inr (FBare Blr_timestamp_tz,
            Inr (enc_int32 days @ enc_uint32 fractions @ enc_uint32 tz))))
      | PDate t \<Rightarrow> (let (days, fractions) = encode_timestamp z t in
          Inr (FBare Blr_timestamp, Inr (enc_int32 days @ enc_uint32 fractions)))
      | PBlobRef b \<Rightarrow> Inr (FScale Blr_quad 0, Inr b)
      | PDecFloat b \<Rightarrow> Inr (FBare (if length b = 8 then Blr_dec64 else Blr_dec128), Inr b)
      | PBuffer b \<Rightarrow> if 65535 < length b
          then Inl (fb_error ''Buffer parameter longer than 65535 bytes; use a BLOB column'')
          else Inr (FLen Blr_text (int (length b)), Inr (enc_opaque_fixed b))
      | POther t \<Rightarrow> Inl (fb_error (''Unsupported parameter value type: '' @ t)))"

definition set_null :: "nat \<Rightarrow> bytes \<Rightarrow> bytes" where
  "set_null i bm = bm[i div 8 := (bm ! (i div 8)) OR push_bit (i mod 8) 1]"

text \<open>The loop: the fields, the bitmap, and the queued writes.\<close>

fun encode_values ::
  "local_zone \<Rightarrow> (nat \<Rightarrow> string \<Rightarrow> bytes res) \<Rightarrow> nat \<Rightarrow> param_value list \<Rightarrow> bytes
     \<Rightarrow> (blr_field list \<times> bytes \<times> bytes res list) res" where
  "encode_values z enc i [] bm = Inr ([], bm, [])"
| "encode_values z enc i (v # vs) bm =
     rthen (param_field z enc i v) (\<lambda>(f, d).
     rthen (encode_values z enc (Suc i) vs (if v = PNull then set_null i bm else bm)) (\<lambda>(fs, bm', ds).
       Inr (f # fs, bm', if v = PNull then ds else d # ds)))"

fun run_writes :: "bytes res list \<Rightarrow> bytes res" where
  "run_writes [] = Inr []"
| "run_writes (d # ds) = rthen d (\<lambda>b. rthen (run_writes ds) (\<lambda>bs. Inr (b @ bs)))"

definition encode_params ::
  "local_zone \<Rightarrow> (nat \<Rightarrow> string \<Rightarrow> bytes res) \<Rightarrow> param_value list \<Rightarrow> (bytes \<times> bytes) res" where
  "encode_params z enc vs =
     (let n = length vs; bl = bitmap_len n in
      rthen (encode_values z enc 0 vs (replicate bl 0)) (\<lambda>(fs, bm, ds).
      rthen (run_writes ds) (\<lambda>data.
        Inr (message_blr fs, bm @ replicate (pad4n bl - bl) 255 @ data))))"

subsection \<open>The message as the server reads it\<close>

fun field_width :: "blr_field \<Rightarrow> nat" where
  "field_width (FLen t n) = nat n"
| "field_width (FScale t s) = (if t = Blr_int128 then 16 else if t = Blr_int64 \<or> t = Blr_quad then 8 else 4)"
| "field_width (FBare t) = (if t = Blr_dec128 then 16 else if t = Blr_timestamp_tz then 12 else 8)"

text \<open>The values that are not null, each in as many bytes as its field, padded to four.\<close>

fun read_values :: "bytes \<Rightarrow> nat \<Rightarrow> blr_field list \<Rightarrow> bytes \<Rightarrow> bytes option list option" where
  "read_values bm i [] bs = (if bs = [] then Some [] else None)"
| "read_values bm i (f # fs) bs =
     (if null_bit bm i then map_option ((#) None) (read_values bm (Suc i) fs bs)
      else if length bs < pad4n (field_width f) then None
      else map_option ((#) (Some (take (field_width f) bs)))
        (read_values bm (Suc i) fs (drop (pad4n (field_width f)) bs)))"

definition read_message :: "blr_field list \<Rightarrow> bytes \<Rightarrow> bytes option list option" where
  "read_message fs msg = (let bl = bitmap_len (length fs) in
     read_values (take bl msg) 0 fs (drop (pad4n bl) msg))"

text \<open>What each parameter stands for: its field, and its bytes without the padding.\<close>

definition param_image ::
  "local_zone \<Rightarrow> (nat \<Rightarrow> string \<Rightarrow> bytes res) \<Rightarrow> nat \<Rightarrow> param_value \<Rightarrow> bytes option" where
  "param_image z enc i v =
     (if v = PNull then None
      else case param_field z enc i v of Inr (f, Inr d) \<Rightarrow> Some (take (field_width f) d) | _ \<Rightarrow> None)"

fun param_ok :: "param_value \<Rightarrow> bool" where
  "param_ok (PDouble b) = (length b = 8)"
| "param_ok (PBlobRef b) = (length b = 8)"
| "param_ok (PDecFloat b) = (length b = 8 \<or> length b = 16)"
| "param_ok _ = True"

lemma param_field_ok:
  "param_field z enc i v = Inr (f, d) \<Longrightarrow> field_ok f"
  by (cases v) (auto simp: param_field_def rthen_eq_Inr Let_def blr_of_def with_length_def with_scale_def
      split: if_splits prod.splits)

lemma pad4n_pads [simp]: "pad4n 4 = 4" "pad4n 8 = 8" "pad4n 12 = 12" "pad4n 16 = 16"
  by (simp_all add: pad4n_def)

lemma param_field_width:
  assumes "param_field z enc i v = Inr (f, Inr d)" and "param_ok v" and "v \<noteq> PNull"
  shows "length d = pad4n (field_width f)"
proof (cases v)
  case (PBool t)
  then show ?thesis
    using assms by (cases t) (auto simp: param_field_def Let_def enc_opaque_fixed_def pad4n_def str_bytes_def)
qed (use assms in \<open>auto simp: param_field_def rthen_eq_Inr Let_def enc_int64_def split: if_splits prod.splits\<close>)

lemma null_bit_set:
  assumes "i div 8 < length bm" and "k div 8 < length bm"
  shows "null_bit (set_null i bm) k = (null_bit bm k \<or> k = i)"
proof (cases "k div 8 = i div 8")
  case True
  then have "k = i \<longleftrightarrow> k mod 8 = i mod 8" by (metis div_mult_mod_eq)
  moreover have "k mod 8 < 8" by simp
  ultimately show ?thesis
    using assms True by (auto simp: null_bit_def set_null_def bit_simps)
next
  case False
  then show ?thesis using assms by (auto simp: null_bit_def set_null_def)
qed

lemma null_bit_zero [simp]: "k div 8 < n \<Longrightarrow> \<not> null_bit (replicate n 0) k"
  by (simp add: null_bit_def)

lemma length_set_null [simp]: "length (set_null i bm) = length bm"
  by (simp add: set_null_def)

lemma encode_values_shape:
  assumes "encode_values z enc i vs bm = Inr (fs, bm', ds)"
  shows "length fs = length vs \<and> list_all field_ok fs \<and> length bm' = length bm"
  using assms
proof (induction z enc i vs bm arbitrary: fs bm' ds rule: encode_values.induct)
  case (2 z enc i v vs bm)
  then show ?case by (fastforce simp: rthen_eq_Inr dest: param_field_ok split: if_splits prod.splits)
qed simp

lemma encode_values_bitmap:
  assumes "encode_values z enc i vs bm = Inr (fs, bm', ds)" and "i + length vs \<le> 8 * length bm" and "k div 8 < length bm"
  shows "null_bit bm' k = (null_bit bm k \<or> (i \<le> k \<and> k < i + length vs \<and> vs ! (k - i) = PNull))"
  using assms
proof (induction z enc i vs bm arbitrary: fs bm' ds rule: encode_values.induct)
  case (2 z enc i v vs bm)
  let ?bm = "if v = PNull then set_null i bm else bm"
  obtain f d gs es where f: "param_field z enc i v = Inr (f, d)"
    and r: "encode_values z enc (Suc i) vs ?bm = Inr (gs, bm', es)"
    using 2(2) by (auto simp: rthen_eq_Inr split: prod.splits)
  have i: "i div 8 < length bm" using 2(3) by simp
  have "null_bit bm' k = (null_bit ?bm k \<or> (Suc i \<le> k \<and> k < Suc i + length vs \<and> vs ! (k - Suc i) = PNull))"
    using 2(1) [OF r] 2(3,4) by simp
  moreover have "null_bit ?bm k = (null_bit bm k \<or> v = PNull \<and> k = i)"
    using i 2(4) by (simp add: null_bit_set)
  moreover have "k = i \<or> Suc i \<le> k \<or> k < i" by arith
  ultimately show ?case by (auto simp: nth_Cons' Suc_le_eq)
qed auto

lemma map2_upt_Cons: "map2 g [i..<i + length (v # vs)] (v # vs) = g i v # map2 g [Suc i..<Suc i + length vs] vs"
  by (simp add: upt_conv_Cons del: upt_Suc)

lemma encode_values_read:
  assumes "encode_values z enc i vs bm = Inr (fs, bm', ds)" and "run_writes ds = Inr dat" and "list_all param_ok vs"
    and "\<forall>k < length vs. null_bit nb (i + k) = (vs ! k = PNull)"
  shows "read_values nb i fs dat = Some (map2 (param_image z enc) [i..<i + length vs] vs)"
  using assms
proof (induction z enc i vs bm arbitrary: fs bm' ds dat rule: encode_values.induct)
  case (2 z enc i v vs bm)
  obtain f d gs es where f: "param_field z enc i v = Inr (f, d)"
    and r: "encode_values z enc (Suc i) vs (if v = PNull then set_null i bm else bm) = Inr (gs, bm', es)"
    and fs: "fs = f # gs" and ds: "ds = (if v = PNull then es else d # es)"
    using 2(2) by (auto simp: rthen_eq_Inr split: prod.splits)
  have bit: "null_bit nb i = (v = PNull)" using 2(5) by (metis add_0_right length_greater_0_conv list.distinct(1) nth_Cons_0)
  have nb: "\<forall>k < length vs. null_bit nb (Suc i + k) = (vs ! k = PNull)"
    using 2(5) by (auto dest: spec [of _ "Suc _"])
  have IH: "run_writes es = Inr rest \<Longrightarrow> read_values nb (Suc i) gs rest
      = Some (map2 (param_image z enc) [Suc i..<Suc i + length vs] vs)" for rest
    using 2(4) 2(1) [OF r _ _ nb] by simp
  show ?case
  proof (cases "v = PNull")
    case True
    then show ?thesis
      using IH 2(3) bit unfolding fs map2_upt_Cons
      by (simp add: ds param_image_def [of z enc i PNull] del: upt_Suc)
  next
    case False
    then obtain b rest where b: "d = Inr b" "run_writes es = Inr rest" "dat = b @ rest"
      using 2(3) by (auto simp: ds rthen_eq_Inr)
    have "length b = pad4n (field_width f)"
      using f 2(4) False unfolding b(1) by (intro param_field_width) simp_all
    then show ?thesis
      using IH [OF b(2)] bit False f unfolding fs map2_upt_Cons
      by (simp add: b param_image_def [of z enc i v] del: upt_Suc)
  qed
qed simp

lemma bitmap_len_le: "n \<le> 8 * bitmap_len n"
  unfolding bitmap_len_def by simp

lemma output_fields_ok:
  assumes "output_fields ds = Inr fs"
    and "list_all (\<lambda>d. 0 \<le> v_length d \<and> v_length d < 65536 \<and> - 128 \<le> v_scale d \<and> v_scale d < 128) ds"
  shows "list_all field_ok fs \<and> length fs = length ds"
  using assms
  by (induction ds arbitrary: fs) (auto simp: rthen_eq_Inr dest: output_field_ok)

subsection \<open>Properties\<close>

text \<open>
  The BLR sent for the output columns, read the way the server reads a message BLR,
  declares exactly the types of the described columns, in their order, with their lengths
  and scales and a null indicator after each.
\<close>

theorem output_blr_read_back:
  assumes "build_output_blr ds = Inr b" and "length ds < 32768"
    and "list_all (\<lambda>d. 0 \<le> v_length d \<and> v_length d < 65536 \<and> - 128 \<le> v_scale d \<and> v_scale d < 128) ds"
  shows "\<exists>fs. parse_message_blr b = Some fs \<and> output_fields ds = Inr fs \<and> length fs = length ds"
proof -
  obtain fs where fs: "output_fields ds = Inr fs" "b = message_blr fs"
    using assms(1) by (auto simp: build_output_blr_def rthen_eq_Inr)
  then show ?thesis
    using parse_message_blr_enc [of fs] output_fields_ok [OF fs(1) assms(3)] assms(2) by auto
qed

theorem output_blr_read_back_witness:
  "\<exists>fs. parse_message_blr [5, 2, 4, 0, 2, 0, 14, 10, 0, 7, 0, 255, 76] = Some fs
     \<and> output_fields [\<lparr>v_type = 452, v_nullable = True, v_sub_type = 0, v_scale = 0, v_length = 10,
          v_field = None, v_relation = None, v_owner = None, v_alias = None, v_relation_alias = None\<rparr>] = Inr fs
     \<and> length fs = length [\<lparr>v_type = 452, v_nullable = True, v_sub_type = 0, v_scale = 0, v_length = 10,
          v_field = None, v_relation = None, v_owner = None, v_alias = None, v_relation_alias = None\<rparr>]"
proof (rule output_blr_read_back)
  have t: "sql_type_of 452 = Some SQL_TEXT" using sql_type_of_code [of SQL_TEXT] by simp
  show "build_output_blr [\<lparr>v_type = 452, v_nullable = True, v_sub_type = 0, v_scale = 0, v_length = 10,
      v_field = None, v_relation = None, v_owner = None, v_alias = None, v_relation_alias = None\<rparr>]
    = Inr [5, 2, 4, 0, 2, 0, 14, 10, 0, 7, 0, 255, 76]"
    by (simp add: build_output_blr_def output_field_def t message_blr_def blr_header_def blr_footer_def null_slot_def
        blr_byte_def blr_word_def numeral_2_eq_2)
qed simp_all

text \<open>
  C6. The parameters of a statement arrive: the BLR sent with them declares one field per
  value, and the message, read by that BLR, holds a null exactly for the values that are
  null and for every other value the bytes it was encoded to, each found where the widths
  of the fields before it put it.
\<close>

theorem params_arrive:
  assumes "encode_params z enc vs = Inr (blr, msg)" and "list_all param_ok vs" and "length vs < 32768"
  shows "\<exists>fs. parse_message_blr blr = Some fs \<and> length fs = length vs
    \<and> read_message fs msg = Some (map2 (param_image z enc) [0..<length vs] vs)"
proof -
  let ?bl = "bitmap_len (length vs)"
  obtain fs bm ds dat where e: "encode_values z enc 0 vs (replicate ?bl 0) = Inr (fs, bm, ds)"
    and w: "run_writes ds = Inr dat" and m: "msg = bm @ replicate (pad4n ?bl - ?bl) 255 @ dat" and b: "blr = message_blr fs"
    using assms(1) by (auto simp: encode_params_def Let_def rthen_eq_Inr split: prod.splits)
  have sh: "length fs = length vs" "list_all field_ok fs" "length bm = ?bl"
    using encode_values_shape [OF e] by simp_all
  have "\<forall>k < length vs. null_bit bm (0 + k) = (vs ! k = PNull)"
  proof (intro allI impI)
    fix k assume k: "k < length vs"
    then have kb: "k div 8 < ?bl" using bitmap_len_le [of "length vs"] by simp
    show "null_bit bm (0 + k) = (vs ! k = PNull)"
      using encode_values_bitmap [OF e, of k] bitmap_len_le [of "length vs"] k kb by simp
  qed
  then have "read_values bm 0 fs dat = Some (map2 (param_image z enc) [0..<0 + length vs] vs)"
    using e w assms(2) by (rule_tac encode_values_read)
  moreover have "parse_message_blr blr = Some fs"
    using sh assms(3) unfolding b by (intro parse_message_blr_enc) simp_all
  ultimately show ?thesis
    using sh by (auto simp: read_message_def Let_def m)
qed

theorem params_arrive_witness:
  "\<exists>fs. parse_message_blr [5, 2, 4, 0, 4, 0, 8, 0, 7, 0, 14, 1, 0, 7, 0, 255, 76] = Some fs
     \<and> length fs = length [PNumber 7, PNull]
     \<and> read_message fs [2, 255, 255, 255, 0, 0, 0, 7]
        = Some (map2 (param_image \<lparr>lz_offset = \<lambda>_. 0, lz_utc = id\<rparr> (\<lambda>_ s. Inr (str_bytes s))) [0..<length [PNumber 7, PNull]] [PNumber 7, PNull])"
proof (rule params_arrive)
  have d: "enc_int32 7 = [0, 0, 0, 7]"
    by (simp add: enc_int32_def be_bytes_def eval_nat_numeral)
  have l: "le_bytes 2 v = [word_of_int v, word_of_int (v div 256)]" for v
    by (simp add: numeral_2_eq_2)
  have s: "set_null (Suc 0) [0] = [2]"
    by (simp add: set_null_def)
  have p: "pad4n 1 = 4" "bitmap_len 2 = 1" by (simp_all add: pad4n_def bitmap_len_def)
  have r: "replicate 3 (255 :: byte) = [255, 255, 255]" by (simp add: numeral_3_eq_3)
  let ?z = "\<lparr>lz_offset = \<lambda>_. 0, lz_utc = id\<rparr>"
  have e: "encode_values ?z (\<lambda>_ s. Inr (str_bytes s)) 0 [PNumber 7, PNull] [0]
      = Inr ([FScale Blr_long 0, FLen Blr_text 1], [2], [Inr [0, 0, 0, 7]])"
    by (simp add: param_field_def d s)
  have m: "message_blr [FScale Blr_long 0, FLen Blr_text 1]
      = [5, 2, 4, 0, 4, 0, 8, 0, 7, 0, 14, 1, 0, 7, 0, 255, 76]"
    by (simp add: message_blr_def blr_header_def blr_footer_def null_slot_def blr_byte_def blr_word_def l del: le_bytes.simps)
  show "encode_params \<lparr>lz_offset = \<lambda>_. 0, lz_utc = id\<rparr> (\<lambda>_ s. Inr (str_bytes s)) [PNumber 7, PNull]
    = Inr ([5, 2, 4, 0, 4, 0, 8, 0, 7, 0, 14, 1, 0, 7, 0, 255, 76], [2, 255, 255, 255, 0, 0, 0, 7])"
    using e m p r by (simp add: encode_params_def numeral_2_eq_2)
qed simp_all

end
