(* ===== verification/Fetch_Plan.thy ===== *)
theory Fetch_Plan
  imports Column_Reader
begin

text \<open>
  \<open>protocol/fetch-plan.ts\<close>: how many rows the next \<open>op_fetch\<close> asks for, from the
  estimated width of a row and the count asked before. The lemmas compare the estimate
  with the bytes the column readers really take, and give the counts of a whole scan in
  closed form.
\<close>

definition TARGET_BATCH_BYTES :: int where
  "TARGET_BATCH_BYTES = 256 * 1024"

definition MIN_BATCH_ROWS :: int where
  "MIN_BATCH_ROWS = 10"

definition RAMP_START_ROWS :: int where
  "RAMP_START_ROWS = 40"

definition column_estimate :: "sql_var_desc \<Rightarrow> int" where
  "column_estimate d =
     (case sql_type_of (v_type d) of
        Some SQL_TEXT \<Rightarrow> 4 + v_length d
      | Some SQL_VARYING \<Rightarrow> 4 + v_length d
      | Some SQL_SHORT \<Rightarrow> 4
      | Some SQL_LONG \<Rightarrow> 4
      | Some SQL_FLOAT \<Rightarrow> 4
      | Some SQL_INT128 \<Rightarrow> 16
      | Some SQL_DEC34 \<Rightarrow> 16
      | _ \<Rightarrow> 8)"

definition estimate_row_width :: "sql_var_desc list \<Rightarrow> int" where
  "estimate_row_width descs =
     max (fold (\<lambda>d n. n + column_estimate d) descs (4 + int (bitmap_len (length descs)))) 16"

text \<open>\<open>Math.floor\<close> of the quotient, which a double holds to the unit for these operands.\<close>

definition next_fetch_count :: "int \<Rightarrow> int \<Rightarrow> int \<Rightarrow> int" where
  "next_fetch_count row_width max_rows prev =
     (let budget_rows = max MIN_BATCH_ROWS (TARGET_BATCH_BYTES div row_width);
          ceiling = min max_rows budget_rows
      in if prev \<le> 0 then min RAMP_START_ROWS ceiling else min (prev * 2) ceiling)"

subsection \<open>The estimate against the wire\<close>

text \<open>The most bytes a value of a column takes in a row, counted VARCHARs at their longest.\<close>

definition cell_bound :: "sql_var_desc \<Rightarrow> nat" where
  "cell_bound d = (case sql_type_of (v_type d) of None \<Rightarrow> 0 | Some t \<Rightarrow>
     (case cell_width t (nat (v_length d)) of Some k \<Rightarrow> k | None \<Rightarrow> 4 + pad4n (nat (v_length d))))"

definition row_bound :: "sql_var_desc list \<Rightarrow> nat" where
  "row_bound descs = pad4n (bitmap_len (length descs)) + sum_list (map cell_bound descs)"

lemma cell_bound_estimate:
  "0 \<le> v_length d \<Longrightarrow> int (cell_bound d) \<le> 2 * column_estimate d"
  using pad4n_bounds [of "nat (v_length d)"]
  by (auto simp: cell_bound_def column_estimate_def split: option.split sql_type.split)

lemma fold_estimate: "fold (\<lambda>d n. n + column_estimate d) ds k = k + sum_list (map column_estimate ds)"
  by (induction ds arbitrary: k) simp_all

lemma row_bound_estimate:
  assumes "list_all (\<lambda>d. 0 \<le> v_length d) ds"
  shows "int (row_bound ds) \<le> 2 * estimate_row_width ds"
proof -
  have "int (sum_list (map cell_bound ds)) \<le> 2 * sum_list (map column_estimate ds)"
    using assms by (induction ds) (use cell_bound_estimate in \<open>fastforce\<close>)+
  moreover have "int (pad4n n) \<le> 2 * (4 + int n)" for n
    using pad4n_bounds [of n] by simp
  from this [of "bitmap_len (length ds)"] have
    "int (pad4n (bitmap_len (length ds))) \<le> 2 * (4 + int (bitmap_len (length ds)))" .
  ultimately have "int (row_bound ds) \<le> 2 * (4 + int (bitmap_len (length ds)) + sum_list (map column_estimate ds))"
    by (simp add: row_bound_def)
  then show ?thesis
    by (simp add: estimate_row_width_def fold_estimate max_def)
qed

subsection \<open>The counts of a scan\<close>

text \<open>The counts of the fetches of one run: the first from 0, each next from the last.\<close>

fun fetch_count :: "int \<Rightarrow> int \<Rightarrow> nat \<Rightarrow> int" where
  "fetch_count w m 0 = next_fetch_count w m 0"
| "fetch_count w m (Suc k) = next_fetch_count w m (fetch_count w m k)"

definition fetch_ceiling :: "int \<Rightarrow> int \<Rightarrow> int" where
  "fetch_ceiling w m = min m (max MIN_BATCH_ROWS (TARGET_BATCH_BYTES div w))"

lemma fetch_count_closed:
  assumes "1 \<le> m"
  shows "fetch_count w m k = min (40 * 2 ^ k) (fetch_ceiling w m)"
proof (induction k)
  case 0
  then show ?case by (simp add: next_fetch_count_def fetch_ceiling_def RAMP_START_ROWS_def)
next
  case (Suc k)
  have c: "1 \<le> fetch_ceiling w m" using assms by (simp add: fetch_ceiling_def MIN_BATCH_ROWS_def)
  have "(1 :: int) \<le> 2 ^ k" by simp
  with c have "0 < min (40 * 2 ^ k) (fetch_ceiling w m)" by linarith
  then have "fetch_count w m (Suc k) = min (min (40 * 2 ^ k) (fetch_ceiling w m) * 2) (fetch_ceiling w m)"
    unfolding fetch_count.simps Suc next_fetch_count_def Let_def fetch_ceiling_def [symmetric]
    by (intro if_not_P) (simp only: not_le)
  also have "\<dots> = min (40 * 2 ^ Suc k) (fetch_ceiling w m)"
    using c by (simp add: min_def)
  finally show ?case .
qed

subsection \<open>Properties\<close>

text \<open>
  The fetches of a scan ask for 40 rows, then twice as many each time, up to a
  ceiling they keep to: the caller's limit, or what 256 KB hold at the estimated width,
  but ten rows at least. A fetch never asks for nothing, and the rows of one batch, at
  the longest the columns allow, take at most twice the budget (or twice ten estimated
  rows, when those are wider).
\<close>

theorem fetch_ramp:
  assumes "1 \<le> m" and "list_all (\<lambda>d. 0 \<le> v_length d) ds" and "n = fetch_count (estimate_row_width ds) m k"
  shows "n = min (40 * 2 ^ k) (min m (max 10 (262144 div estimate_row_width ds)))
    \<and> 1 \<le> n \<and> n * int (row_bound ds) \<le> 2 * max 262144 (10 * estimate_row_width ds)"
proof -
  let ?w = "estimate_row_width ds"
  have w: "16 \<le> ?w" by (simp add: estimate_row_width_def)
  have n: "n = min (40 * 2 ^ k) (min m (max 10 (262144 div ?w)))"
    using assms(3) fetch_count_closed [OF assms(1), of ?w k]
    by (simp add: fetch_ceiling_def MIN_BATCH_ROWS_def TARGET_BATCH_BYTES_def)
  have p: "(1 :: int) \<le> 2 ^ k" by simp
  with n assms(1) have n1: "1 \<le> n" by linarith
  have "n \<le> max 10 (262144 div ?w)" using n by linarith
  moreover have "262144 div ?w * ?w \<le> 262144" using w pos_mod_sign [of ?w 262144] div_mult_mod_eq [of 262144 ?w] by linarith
  then have "max 10 (262144 div ?w) * ?w \<le> max 262144 (10 * ?w)"
    by (cases "262144 div ?w \<le> 10") (auto simp: max_absorb1 max_absorb2 le_max_iff_disj)
  ultimately have "n * ?w \<le> max 262144 (10 * ?w)"
    using w mult_right_mono [of n "max 10 (262144 div ?w)" ?w] by linarith
  moreover have "n * int (row_bound ds) \<le> n * (2 * ?w)"
    using n1 row_bound_estimate [OF assms(2)] by (intro mult_left_mono) simp_all
  ultimately have "n * int (row_bound ds) \<le> 2 * max 262144 (10 * ?w)" by linarith
  with n n1 show ?thesis by blast
qed

theorem fetch_ramp_witness:
  "(160::int) = min (40 * 2 ^ 2) (min 400 (max 10 (262144 div estimate_row_width [new_var\<lparr>v_type := 496\<rparr>])))
    \<and> 1 \<le> (160::int) \<and> 160 * int (row_bound [new_var\<lparr>v_type := 496\<rparr>])
      \<le> 2 * max 262144 (10 * estimate_row_width [new_var\<lparr>v_type := 496\<rparr>])"
proof (rule fetch_ramp)
  have t: "sql_type_of 496 = Some SQL_LONG" using sql_type_of_code [of SQL_LONG] by simp
  show "160 = fetch_count (estimate_row_width [new_var\<lparr>v_type := 496\<rparr>]) 400 2"
    by (simp add: numeral_2_eq_2 next_fetch_count_def estimate_row_width_def column_estimate_def t bitmap_len_def
        MIN_BATCH_ROWS_def TARGET_BATCH_BYTES_def RAMP_START_ROWS_def)
qed (simp_all add: new_var_def)

end
