(* ===== verification/Statement.thy ===== *)
theory Statement
  imports Param_Encoder Fetch_Plan
begin

text \<open>
  \<open>protocol/statement.ts\<close>: preparing, executing with piggybacked requests, fetching and
  freeing a statement. The properties follow whole exchanges: what a client sends, what
  the server answers, and where the stream stands afterwards.
\<close>

subsection \<open>Preparing\<close>

definition SQL_DIALECT_CURRENT :: int where
  "SQL_DIALECT_CURRENT = 3"

definition STATEMENT_HANDLE_PLACEHOLDER :: int where
  "STATEMENT_HANDLE_PLACEHOLDER = 65535"

definition DESCRIBE_INFO_ITEMS :: bytes where
  "DESCRIBE_INFO_ITEMS = map (\<lambda>i. word_of_int (sql_info_code i))
     [Info_stmt_type,
      Info_select, Info_describe_vars, Info_sqlda_seq, Info_type, Info_sub_type, Info_scale, Info_length,
      Info_field, Info_relation, Info_relation_alias, Info_owner, Info_alias, Info_describe_end,
      Info_bind, Info_describe_vars, Info_sqlda_seq, Info_type, Info_sub_type, Info_scale, Info_length,
      Info_field, Info_relation, Info_relation_alias, Info_owner, Info_alias, Info_describe_end]"

record prepared_statement =
  ps_handle :: int
  ps_description :: statement_description
  ps_output_blr :: bytes
  ps_readers :: "cell rd list"
  ps_row_width :: int

text \<open>
  The columns of a description may have holes: \<open>map\<close> skips them, the loop of
  \<open>buildOutputBlr\<close> then trips over the first one.
\<close>

definition unless_hole :: "('a \<Rightarrow> 'b res) \<Rightarrow> 'a option \<Rightarrow> 'b res" where
  "unless_hole f d = (case d of None \<Rightarrow> Inl TypeErr | Some x \<Rightarrow> f x)"

definition describe_statement :: "local_zone \<Rightarrow> int64_mode \<Rightarrow> tz_mode \<Rightarrow> int \<Rightarrow> bytes \<Rightarrow> prepared_statement res" where
  "describe_statement z int64_as tz handle data =
     rthen (parse_describe data) (\<lambda>desc.
     rthen (res_map (\<lambda>d. make_column_reader z d None int64_as tz) (List.map_filter id (d_outputs desc))) (\<lambda>readers.
     rthen (if d_outputs desc = [] then Inr []
        else rthen (res_map (unless_hole output_field) (d_outputs desc)) (\<lambda>fs. Inr (message_blr fs))) (\<lambda>blr.
       Inr \<lparr>ps_handle = handle, ps_description = desc, ps_output_blr = blr, ps_readers = readers,
         ps_row_width = estimate_row_width (List.map_filter id (d_outputs desc))\<rparr>)))"

definition prepare_message :: "int \<Rightarrow> int \<Rightarrow> int \<Rightarrow> string \<Rightarrow> bytes" where
  "prepare_message version db tx sql =
     enc_int32 op_allocate_statement @ enc_int32 db
     @ enc_int32 op_prepare_statement @ enc_int32 tx @ enc_int32 STATEMENT_HANDLE_PLACEHOLDER
     @ enc_int32 SQL_DIALECT_CURRENT @ enc_string sql @ enc_opaque DESCRIBE_INFO_ITEMS @ enc_int32 65535
     @ (if 20 \<le> version then enc_int32 0 else [])"

definition allocate_and_prepare ::
  "local_zone \<Rightarrow> int64_mode \<Rightarrow> tz_mode \<Rightarrow> int \<Rightarrow> int \<Rightarrow> string \<Rightarrow> prepared_statement rd" where
  "allocate_and_prepare z int64_as tz db tx sql =
     rd_bind (rd_do (\<lambda>w. send (prepare_message (w_version w) db tx sql) w)) (\<lambda>_.
     rd_bind read_response (\<lambda>alloc.
     rd_bind read_response (\<lambda>prep.
       rd_lift (describe_statement z int64_as tz (gr_handle alloc) (gr_data prep)))))"

subsection \<open>Executing\<close>

definition uses_execute2 :: "statement_description \<Rightarrow> bool" where
  "uses_execute2 desc = (if d_outputs desc = [] then False
     else d_stmt_type desc = stmt_type_code Stmt_exec_procedure \<or> d_stmt_type desc = stmt_type_code Stmt_insert
       \<or> d_stmt_type desc = stmt_type_code Stmt_update \<or> d_stmt_type desc = stmt_type_code Stmt_delete)"

record execute_result =
  er_proc_row :: "cell list option"
  er_pending_fetch :: bool
  er_pending_info :: bool

definition fetch_message :: "prepared_statement \<Rightarrow> int \<Rightarrow> bytes" where
  "fetch_message st n = enc_int32 op_fetch @ enc_int32 (ps_handle st) @ enc_opaque (ps_output_blr st)
     @ enc_int32 0 @ enc_int32 n"

definition info_message :: "int \<Rightarrow> bytes" where
  "info_message handle = enc_int32 op_info_sql @ enc_int32 handle @ enc_int32 0
     @ enc_opaque [word_of_int (sql_info_code Info_records)] @ enc_int32 64"

definition execute_message ::
  "int \<Rightarrow> int \<Rightarrow> prepared_statement \<Rightarrow> int \<Rightarrow> (bytes \<times> bytes) option \<Rightarrow> bytes" where
  "execute_message version inline_size st tx encoded =
     (let execute2 = uses_execute2 (ps_description st) in
      enc_int32 (if execute2 then op_execute2 else op_execute) @ enc_int32 (ps_handle st) @ enc_int32 tx
      @ (case encoded of Some (blr, msg) \<Rightarrow> enc_opaque blr @ enc_int32 0 @ enc_int32 1 @ msg
         | None \<Rightarrow> enc_opaque [] @ enc_int32 0 @ enc_int32 0)
      @ (if execute2 then enc_opaque (ps_output_blr st) @ enc_int32 0 else [])
      @ (if 16 \<le> version then enc_int32 0 else [])
      @ (if 18 \<le> version then enc_int32 0 else [])
      @ (if 19 \<le> version then enc_int32 inline_size else []))"

text \<open>\<open>try m catch (err) { undo; throw err; }\<close>.\<close>

definition rd_on_error :: "(wire \<Rightarrow> wire) \<Rightarrow> 'a rd \<Rightarrow> 'a rd" where
  "rd_on_error f m = (\<lambda>w. case m w of (Inl e, w') \<Rightarrow> (Inl e, f w') | (Inr x, w') \<Rightarrow> (Inr x, w'))"

definition execute_response :: "prepared_statement \<Rightarrow> cell list option rd" where
  "execute_response st =
     (if uses_execute2 (ps_description st)
      then rd_bind read_op (\<lambda>op.
        if op = op_sql_response then
          rd_bind read_int32 (\<lambda>count.
          rd_bind (if 0 < count then rd_bind (read_row (ps_readers st)) (\<lambda>r. rd_return (Some r)) else rd_return None) (\<lambda>row.
          rd_bind read_response (\<lambda>_. rd_return row)))
        else if op = op_response then rd_bind parse_response_body (\<lambda>_. rd_return None)
        else rd_fail (protocol_error (''Unexpected op '' @ dec_int op @ '' after op_execute2'')))
      else rd_bind read_response (\<lambda>_. rd_return None))"

definition encode_optional :: "local_zone \<Rightarrow> (nat \<Rightarrow> string \<Rightarrow> bytes res) \<Rightarrow> param_value list \<Rightarrow> (bytes \<times> bytes) option res" where
  "encode_optional z encode_text vs =
     (if vs \<noteq> [] then rthen (encode_params z encode_text vs) (\<lambda>e. Inr (Some e)) else Inr None)"

definition execute_statement ::
  "local_zone \<Rightarrow> prepared_statement \<Rightarrow> int \<Rightarrow> param_value list \<Rightarrow> (nat \<Rightarrow> string \<Rightarrow> bytes res)
     \<Rightarrow> int option \<Rightarrow> bool \<Rightarrow> execute_result rd" where
  "execute_statement z st tx vs encode_text fetch_size record_counts =
     rd_bind (rd_lift (encode_optional z encode_text vs)) (\<lambda>encoded.
     let pending_fetch = (\<not> uses_execute2 (ps_description st) \<and> fetch_size \<noteq> None);
         pending_info = record_counts;
         tail = (if pending_fetch then fetch_message st (the fetch_size) else [])
           @ (if pending_info then info_message (ps_handle st) else [])
     in rd_bind (rd_do (\<lambda>w. send (execute_message (w_version w) (w_inline_size w) st tx encoded @ tail) w)) (\<lambda>_.
        rd_bind (rd_on_error ((if pending_info then mark_deferred else id) \<circ> (if pending_fetch then mark_deferred else id))
            (execute_response st)) (\<lambda>row.
        rd_return \<lparr>er_proc_row = row, er_pending_fetch = pending_fetch, er_pending_info = pending_info\<rparr>)))"

subsection \<open>Fetching\<close>

record fetch_batch =
  fb_rows :: "cell list list"
  fb_eof :: bool

text \<open>
  The loop, with fuel: each turn reads an operation code, so the bytes to come bound the
  turns (\<open>fetch_loop_enough\<close>).
\<close>

definition fetch_turn :: "(cell list list \<Rightarrow> fetch_batch rd) \<Rightarrow> cell rd list \<Rightarrow> cell list list \<Rightarrow> fetch_batch rd" where
  "fetch_turn again readers rows = rd_bind read_op (\<lambda>op.
     if op = op_fetch_response then
       rd_bind read_int32 (\<lambda>status. rd_bind read_int32 (\<lambda>count.
         if status = 100 then rd_return \<lparr>fb_rows = rows, fb_eof = True\<rparr>
         else if count = 0 then rd_return \<lparr>fb_rows = rows, fb_eof = False\<rparr>
         else rd_bind (read_row readers) (\<lambda>r. again (rows @ [r]))))
     else if op = op_response then
       rd_bind parse_response_body (\<lambda>_. rd_return \<lparr>fb_rows = rows, fb_eof = True\<rparr>)
     else rd_fail (protocol_error (''Unexpected op '' @ dec_int op @ '' in fetch stream'')))"

fun fetch_loop :: "nat \<Rightarrow> cell rd list \<Rightarrow> cell list list \<Rightarrow> fetch_batch rd" where
  "fetch_loop 0 readers = (\<lambda>rows. rd_fail ClosedErr)"
| "fetch_loop (Suc n) readers = fetch_turn (fetch_loop n readers) readers"

definition read_fetch_batch :: "prepared_statement \<Rightarrow> fetch_batch rd" where
  "read_fetch_batch st = (\<lambda>w. fetch_loop (Suc (length (w_in w))) (ps_readers st) [] w)"

definition fetch_rows :: "prepared_statement \<Rightarrow> int \<Rightarrow> fetch_batch rd" where
  "fetch_rows st n = rd_bind (rd_do (send (fetch_message st n))) (\<lambda>_. read_fetch_batch st)"

definition read_record_counts :: "record_counts rd" where
  "read_record_counts = rd_bind read_response (\<lambda>r. rd_lift (parse_record_counts (gr_data r)))"

definition fetch_affected_rows :: "int \<Rightarrow> record_counts rd" where
  "fetch_affected_rows handle = rd_bind (rd_do (send (info_message handle))) (\<lambda>_. read_record_counts)"

definition free_message :: "int \<Rightarrow> free_statement \<Rightarrow> bytes" where
  "free_message handle action = enc_int32 op_free_statement @ enc_int32 handle @ enc_int32 (free_statement_code action)"

definition free_statement_op :: "int \<Rightarrow> free_statement \<Rightarrow> bool \<Rightarrow> wire \<Rightarrow> wire" where
  "free_statement_op handle action immediate w =
     (let w = mark_deferred (put (free_message handle action) w) in if immediate then flush w else w)"

subsection \<open>The fetch loop ends\<close>

lemma consumes_lift [simp]: "consumes 0 (rd_lift r)"
  by (cases r) (simp_all add: consumes_def rd_lift_def)

lemma consumes_at:
  assumes "consumes k m" and "length (w_in v) \<le> length (w_in w)"
  shows "case m v of (Inr x, w') \<Rightarrow> length (w_in w') + k \<le> length (w_in w)
     | (Inl e, w') \<Rightarrow> length (w_in w') \<le> length (w_in w)"
  using assms(2) consumes_Inr [OF assms(1), of v] consumes_Inl [OF assms(1), of v]
  by (fastforce split: prod.splits sum.splits)

lemma consumes_op_fuel: "consumes 4 (read_op_fuel n)"
proof (induction n)
  case (Suc n)
  have op: "consumes 0 (read_op_fuel n)" using Suc by (rule consumes_mono) simp
  have "consumes 0 (rd_bind parse_response_body (\<lambda>_. read_op_fuel n))"
    using consumes_bind [OF consumes_response_body op] by simp
  then have resp: "case rd_bind parse_response_body (\<lambda>_. read_op_fuel n) (w\<lparr>w_deferred := d\<rparr>) of
      (Inr x, w') \<Rightarrow> length (w_in w') + 0 \<le> length (w_in w) | (Inl e, w') \<Rightarrow> length (w_in w') \<le> length (w_in w)" for w d
    by (rule consumes_at) simp
  have "consumes 0 (rd_do (inline_blob tx bid info data))" for tx bid info data
    by (simp add: consumes_def inline_blob_def)
  then have "consumes 0 (rd_bind read_int32 (\<lambda>tx. rd_bind (read_bytes 8) (\<lambda>bid. rd_bind read_opaque (\<lambda>info.
            rd_bind read_opaque (\<lambda>data. rd_bind (rd_do (inline_blob tx bid info data)) (\<lambda>_. read_op_fuel n))))))"
    by (intro consumes_mono [OF consumes_bind [OF consumes_int32, of 0]]
        consumes_mono [OF consumes_bind [OF consumes_read_bytes, of 0]]
        consumes_mono [OF consumes_bind [OF consumes_opaque, of 0]]
        consumes_mono [OF consumes_bind [OF _ op]]) auto
  then have "consumes 0 (\<lambda>w. if op = op_dummy then read_op_fuel n w
     else if op = op_response \<and> 0 < w_deferred w
     then rd_bind parse_response_body (\<lambda>_. read_op_fuel n) (w\<lparr>w_deferred := w_deferred w - 1\<rparr>)
     else if op = op_inline_blob
     then rd_bind read_int32 (\<lambda>tx. rd_bind (read_bytes 8) (\<lambda>bid. rd_bind read_opaque (\<lambda>info.
            rd_bind read_opaque (\<lambda>data. rd_bind (rd_do (inline_blob tx bid info data))
              (\<lambda>_. read_op_fuel n))))) w
     else (Inr op, w))" for op
    using op resp unfolding consumes_def by simp
  then show ?case
    unfolding read_op_fuel.simps by (intro consumes_mono [OF consumes_bind [OF consumes_int32, of 0]]) simp_all
qed (simp add: consumes_def)

lemma consumes_read_op: "consumes 4 read_op"
  unfolding consumes_def read_op_def by (intro allI consumes_at [OF consumes_op_fuel] le_refl)

lemma consumes_then: "consumes k m \<Longrightarrow> (\<And>x. consumes 0 (f x)) \<Longrightarrow> consumes 0 (rd_bind m f)"
  by (rule consumes_mono [OF consumes_bind]) simp_all

lemma consumes_padded: "consumes 0 (read_padded n)"
  by (auto simp: read_padded_def intro: consumes_then [OF consumes_read_bytes])

lemma consumes_response: "consumes 0 read_response"
  unfolding read_response_def
  by (rule consumes_then [OF consumes_read_op]) (auto intro: consumes_response_body)

lemma consumes_column_reader:
  "make_column_reader z d codec m tz = Inr r \<Longrightarrow> consumes 0 r"
  unfolding make_column_reader_def Let_def
  by (auto split: option.splits sql_type.splits
      intro!: consumes_then [OF consumes_int32] consumes_then [OF consumes_read_bytes]
        consumes_then [OF consumes_opaque] consumes_then [OF consumes_padded] consumes_then [OF consumes_lift])

lemma consumes_cells: "list_all (consumes 0) rs \<Longrightarrow> consumes 0 (read_cells bm i rs)"
proof (induction rs arbitrary: i)
  case (Cons r rs)
  have "consumes 0 (if null_bit bm i then rd_return CNull else r)" using Cons by simp
  moreover have "consumes 0 (rd_bind (read_cells bm (Suc i) rs) (\<lambda>cs. rd_return (c # cs)))" for c
    using Cons by (intro consumes_then [where k = 0]) simp_all
  ultimately show ?case
    unfolding read_cells.simps by (rule consumes_then)
qed simp

lemma consumes_row: "list_all (consumes 0) rs \<Longrightarrow> consumes 0 (read_row rs)"
  unfolding read_row_def by (intro consumes_then [OF consumes_padded] consumes_cells)

lemma rd_if_cong:
  "(b \<Longrightarrow> f w = g w) \<Longrightarrow> (\<not> b \<Longrightarrow> f' w = g' w) \<Longrightarrow> (if b then f else f') w = (if b then g else g') w"
  by simp

lemma fetch_turn_cong:
  assumes "list_all (consumes 0) readers"
    and "\<And>rs w'. length (w_in w') < length (w_in w) \<Longrightarrow> f rs w' = g rs w'"
  shows "fetch_turn f readers rows w = fetch_turn g readers rows w"
  unfolding fetch_turn_def
proof (intro rd_bind_cong rd_if_cong refl)
  fix op w1 status w2 count w3 r w4
  assume "read_op w = (Inr op, w1)" "read_int32 w1 = (Inr status, w2)" "read_int32 w2 = (Inr count, w3)"
    "read_row readers w3 = (Inr r, w4)"
  then have "length (w_in w4) < length (w_in w)"
    using consumes_Inr [OF consumes_read_op, of w] consumes_Inr [OF consumes_int32, of w1]
      consumes_Inr [OF consumes_int32, of w2] consumes_Inr [OF consumes_row [OF assms(1)], of w3] by fastforce
  then show "f (rows @ [r]) w4 = g (rows @ [r]) w4" by (rule assms(2))
qed

lemma fetch_loop_enough:
  assumes "list_all (consumes 0) readers"
  shows "length (w_in w) < n \<Longrightarrow> length (w_in w) < k \<Longrightarrow> fetch_loop n readers rows w = fetch_loop k readers rows w"
proof (induction n arbitrary: k w rows)
  case (Suc n)
  then obtain j where k: "k = Suc j" by (cases k) auto
  show ?case
    unfolding k fetch_loop.simps
  proof (rule fetch_turn_cong [OF assms])
    fix rs and w' :: wire
    assume "length (w_in w') < length (w_in w)"
    then show "fetch_loop n readers rs w' = fetch_loop j readers rs w'"
      using Suc.prems k by (intro Suc.IH) simp_all
  qed
qed simp

subsection \<open>The server's side of a fetch\<close>

definition quiet :: "noise list \<Rightarrow> bool" where
  "quiet ns = (list_all noise_ok ns \<and> noise_deferred ns = 0)"

lemma quiet_fits: "quiet ns \<Longrightarrow> w_deferred w = 0 \<Longrightarrow> noise_fits ns w"
proof -
  have "noise_deferred ns = 0 \<Longrightarrow> list_all (noise_clean m) ns" for m
    by (induction ns rule: noise_deferred.induct) auto
  then show "quiet ns \<Longrightarrow> w_deferred w = 0 \<Longrightarrow> noise_fits ns w"
    by (auto simp: quiet_def noise_fits_def)
qed

lemma noise_inlined_append: "noise_inlined (a @ b) = noise_inlined a @ noise_inlined b"
  by (induction a rule: noise_inlined.induct) simp_all

lemma settled_settled [simp]: "settled b (settled a w) = settled (a @ b) w"
  by (simp add: settled_def noise_inlined_append)

lemma read_op_at:
  assumes "noise_fits ns w" and "int32_range op" "op \<noteq> 71" "op \<noteq> 114"
  shows "read_op (feed (concat (map enc_noise ns)) (feed (enc_int32 op) w)) = (Inr op, settled ns w)"
proof -
  have "read_op (feed (concat (map enc_noise ns)) (feed (enc_int32 op) w)) = read_op (feed (enc_int32 op) (settled ns w))"
    using read_op_settles [of ns "feed (enc_int32 op) w"] assms(1) by (simp add: settled_feed)
  then show ?thesis using read_op_other [of op "settled ns w"] assms by simp
qed

text \<open>A fetched row: what precedes it, the fill of its bitmap, and its columns.\<close>

type_synonym fetched = "noise list \<times> bytes \<times> row_item list"

definition fetched_ok :: "cell rd list \<Rightarrow> fetched \<Rightarrow> bool" where
  "fetched_ok readers f = (case f of (ns, fill, its) \<Rightarrow>
     quiet ns \<and> map fst its = readers \<and> length its < 2147483645 \<and> list_all item_ok its
     \<and> length fill = pad4n (bitmap_len (length its)) - bitmap_len (length its))"

definition enc_fetched :: "fetched \<Rightarrow> bytes" where
  "enc_fetched f = (case f of (ns, fill, its) \<Rightarrow>
     concat (map enc_noise ns) @ enc_int32 66 @ enc_int32 0 @ enc_int32 1 @ enc_row fill its)"

definition fetched_cells :: "fetched \<Rightarrow> cell list" where
  "fetched_cells f = map item_cell (snd (snd f))"

definition enc_fetch_end :: "noise list \<Rightarrow> bool \<Rightarrow> bytes" where
  "enc_fetch_end ns eof = concat (map enc_noise ns) @ enc_int32 66 @ enc_int32 (if eof then 100 else 0) @ enc_int32 0"

definition enc_fetch :: "fetched list \<Rightarrow> noise list \<Rightarrow> bool \<Rightarrow> bytes" where
  "enc_fetch fs ns eof = concat (map enc_fetched fs) @ enc_fetch_end ns eof"

definition fetch_noise :: "fetched list \<Rightarrow> noise list" where
  "fetch_noise fs = concat (map fst fs)"

lemma fetch_turn_row:
  assumes "fetched_ok readers f" and "w_deferred w = 0"
  shows "fetch_turn again readers rows (feed (enc_fetched f) w)
    = again (rows @ [fetched_cells f]) (settled (fst f) w)"
proof -
  obtain ns fill its where f: "f = (ns, fill, its)" by (cases f)
  have ok: "quiet ns" "map fst its = readers" "length its < 2147483645" "list_all item_ok its"
    "length fill = pad4n (bitmap_len (length its)) - bitmap_len (length its)"
    using assms(1) by (simp_all add: fetched_ok_def f)
  have op: "read_op (feed (enc_fetched f) w) = (Inr 66, feed (enc_int32 0 @ enc_int32 1 @ enc_row fill its) (settled ns w))"
    using read_op_at [of ns "feed (enc_int32 0 @ enc_int32 1 @ enc_row fill its) w" 66] quiet_fits [OF ok(1)] assms(2)
    by (simp add: enc_fetched_def f settled_feed)
  have row: "read_row readers (feed (enc_row fill its) (settled ns w)) = (Inr (map item_cell its), settled ns w)"
    using read_row_items [OF ok(4,3,5)] ok(2) by simp
  show ?thesis
    unfolding fetch_turn_def rd_bind_Inr [where m = read_op, OF op]
    by (simp add: rd_bind_def read_int32_feed_id row f fetched_cells_def)
qed

lemma fetch_turn_end:
  assumes "quiet ns" and "w_deferred w = 0"
  shows "fetch_turn again readers rows (feed (enc_fetch_end ns eof) w) = (Inr \<lparr>fb_rows = rows, fb_eof = eof\<rparr>, settled ns w)"
proof -
  have op: "read_op (feed (enc_fetch_end ns eof) w) = (Inr 66, feed (enc_int32 (if eof then 100 else 0) @ enc_int32 0) (settled ns w))"
    using read_op_at [of ns "feed (enc_int32 (if eof then 100 else 0) @ enc_int32 0) w" 66] quiet_fits [OF assms(1)] assms(2)
    by (simp add: enc_fetch_end_def settled_feed)
  show ?thesis
    unfolding fetch_turn_def rd_bind_Inr [where m = read_op, OF op]
    by (simp add: rd_bind_def read_int32_feed_id)
qed

lemma fetch_loop_rows:
  assumes "list_all (fetched_ok readers) fs" and "quiet ns" and "w_deferred w = 0" and "length fs < n"
  shows "fetch_loop n readers rows (feed (enc_fetch fs ns eof) w)
    = (Inr \<lparr>fb_rows = rows @ map fetched_cells fs, fb_eof = eof\<rparr>, settled (fetch_noise fs @ ns) w)"
  using assms
proof (induction fs arbitrary: n rows w)
  case Nil
  then show ?case
    by (cases n) (simp_all add: enc_fetch_def fetch_noise_def fetch_turn_end)
next
  case (Cons f fs)
  then obtain m where n: "n = Suc m" by (cases n) auto
  have "fetch_loop n readers rows (feed (enc_fetch (f # fs) ns eof) w)
      = fetch_loop m readers (rows @ [fetched_cells f]) (feed (enc_fetch fs ns eof) (settled (fst f) w))"
    using fetch_turn_row [of readers f "feed (enc_fetch fs ns eof) w"] Cons.prems
    by (simp add: n enc_fetch_def settled_feed)
  with Cons.IH [of "settled (fst f) w" m] Cons.prems n show ?case
    by (simp add: fetch_noise_def)
qed

lemma length_enc_fetch: "length fs \<le> length (enc_fetch fs ns eof)"
proof -
  have "length fs \<le> length (concat (map enc_fetched fs))"
    by (induction fs) (auto simp: enc_fetched_def split: prod.split)
  then show ?thesis by (simp add: enc_fetch_def)
qed

lemma read_fetch_batch_feed:
  assumes "noise_fits ns0 w" and "list_all (fetched_ok (ps_readers st)) fs" and "quiet ns"
  shows "read_fetch_batch st (feed (concat (map enc_noise ns0)) (feed (enc_fetch fs ns eof) w))
    = (Inr \<lparr>fb_rows = map fetched_cells fs, fb_eof = eof\<rparr>, settled (ns0 @ fetch_noise fs @ ns) w)"
proof -
  let ?w = "feed (concat (map enc_noise ns0)) (feed (enc_fetch fs ns eof) w)"
  have len: "length fs < Suc (length (w_in ?w))" using length_enc_fetch [of fs ns eof] by simp
  have "read_op ?w = read_op (feed (enc_fetch fs ns eof) (settled ns0 w))"
    using read_op_settles [of ns0 "feed (enc_fetch fs ns eof) w"] assms(1) by (simp add: settled_feed)
  then have "fetch_loop (Suc k) readers rows ?w = fetch_loop (Suc k) readers rows (feed (enc_fetch fs ns eof) (settled ns0 w))"
    for k readers rows by (simp add: fetch_turn_def rd_bind_def)
  then show ?thesis
    using fetch_loop_rows [OF assms(2,3), of "settled ns0 w", OF _ len] by (simp add: read_fetch_batch_def)
qed

subsection \<open>Whole exchanges\<close>

lemma execute_statement_sent:
  assumes "\<not> uses_execute2 (ps_description st)" and "encode_optional z enc vs = Inr e"
  shows "execute_statement z st tx vs enc (Some n) False w
    = rd_bind (rd_on_error mark_deferred read_response)
        (\<lambda>_. rd_return \<lparr>er_proc_row = None, er_pending_fetch = True, er_pending_info = False\<rparr>)
        (send (execute_message (w_version w) (w_inline_size w) st tx e @ fetch_message st n) w)"
  using assms
  by (auto simp: execute_statement_def execute_response_def rd_bind_def rd_lift_def rd_on_error_def
      split: sum.split prod.split)

lemma reply_feed [simp]: "feed (reply ns r) w = feed (concat (map enc_noise ns)) (feed (enc_response r) w)"
  by (simp add: reply_def)

lemma read_response_at:
  assumes "noise_fits ns w" and "response_ok r"
  shows "read_response (feed (concat (map enc_noise ns)) (feed (enc_response r) w)) = (body_result (w_messages w) r, settled ns w)"
  using read_response_reply [OF assms] by simp

text \<open>Allocating and preparing: two responses to one packet.\<close>

lemma prepare_exchange:
  assumes "noise_fits ns w" and "response_ok r1" and "body_result (w_messages w) r1 = Inr g1"
    and "quiet ns'" and "response_ok r2" and "body_result (w_messages w) r2 = Inr g2"
  shows "allocate_and_prepare z m tz db tx sql (feed (reply ns r1 @ reply ns' r2) w)
    = (describe_statement z m tz (gr_handle g1) (gr_data g2),
       settled (ns @ ns') (send (prepare_message (w_version w) db tx sql) w))"
proof -
  let ?s = "send (prepare_message (w_version w) db tx sql) w"
  have "read_response (feed (concat (map enc_noise ns)) (feed (enc_response r1) (feed (concat (map enc_noise ns')) (feed (enc_response r2) ?s))))
      = (Inr g1, feed (concat (map enc_noise ns')) (feed (enc_response r2) (settled ns ?s)))"
    using read_response_at [of ns "feed (concat (map enc_noise ns')) (feed (enc_response r2) ?s)" r1] assms(1-3)
    by (simp add: settled_feed)
  moreover have "read_response (feed (concat (map enc_noise ns')) (feed (enc_response r2) (settled ns ?s))) = (Inr g2, settled (ns @ ns') ?s)"
    using read_response_at [of ns' "settled ns ?s" r2] quiet_fits [OF assms(4)] assms(5,6) by simp
  ultimately show ?thesis
    by (simp add: allocate_and_prepare_def rd_bind_def rd_lift_def)
qed

text \<open>
  When the prepare fails, the error is thrown with the handle of the allocate in hand:
  nothing is queued or sent that would free it.
\<close>

lemma failed_prepare_leaks:
  assumes "noise_fits ns w" and "response_ok r1" and "body_result (w_messages w) r1 = Inr g1"
    and "quiet ns'" and "response_ok r2" and "body_result (w_messages w) r2 = Inl e"
  shows "\<exists>w'. allocate_and_prepare z m tz db tx sql (feed (reply ns r1 @ reply ns' r2) w) = (Inl e, w')
    \<and> w_out w' = [] \<and> w_deferred w' = 0 \<and> w_sent w' = w_sent w @ [w_out w @ prepare_message (w_version w) db tx sql]"
proof -
  let ?m = "prepare_message (w_version w) db tx sql"
  let ?s = "send ?m w"
  have "0 < length ?m" by (simp add: prepare_message_def del: length_greater_0_conv)
  then have m: "?m \<noteq> []" unfolding length_greater_0_conv .
  have "read_response (feed (concat (map enc_noise ns)) (feed (enc_response r1) (feed (concat (map enc_noise ns')) (feed (enc_response r2) ?s))))
      = (Inr g1, feed (concat (map enc_noise ns')) (feed (enc_response r2) (settled ns ?s)))"
    using read_response_at [of ns "feed (concat (map enc_noise ns')) (feed (enc_response r2) ?s)" r1] assms(1-3)
    by (simp add: settled_feed)
  moreover have "read_response (feed (concat (map enc_noise ns')) (feed (enc_response r2) (settled ns ?s))) = (Inl e, settled (ns @ ns') ?s)"
    using read_response_at [of ns' "settled ns ?s" r2] quiet_fits [OF assms(4)] assms(5,6) by simp
  ultimately show ?thesis
    using send_sent [OF m, of w] by (simp add: allocate_and_prepare_def rd_bind_def)
qed

text \<open>A singleton row: \<open>op_sql_response\<close> with the row, then the response.\<close>

lemma execute2_row:
  assumes "uses_execute2 (ps_description st)" and "noise_fits ns w" and "map fst its = ps_readers st"
    and "length its < 2147483645" "list_all item_ok its" "length fill = pad4n (bitmap_len (length its)) - bitmap_len (length its)"
    and "quiet ns'" and "response_ok r" and "body_result (w_messages w) r = Inr g"
  shows "execute_response st (feed (concat (map enc_noise ns)) (feed (enc_int32 78) (feed (enc_int32 1) (feed (enc_row fill its) (feed (reply ns' r) w)))))
    = (Inr (Some (map item_cell its)), settled (ns @ ns') w)"
proof -
  let ?rest = "feed (enc_int32 1) (feed (enc_row fill its) (feed (reply ns' r) w))"
  have op: "read_op (feed (concat (map enc_noise ns)) (feed (enc_int32 78) ?rest)) = (Inr 78, settled ns ?rest)"
    using assms(2) by (intro read_op_at) simp_all
  have row: "read_row (ps_readers st) (feed (enc_row fill its) v) = (Inr (map item_cell its), v)" for v
    using read_row_items [OF assms(5,4,6)] assms(3) by simp
  have resp: "read_response (feed (reply ns' r) (settled ns w)) = (Inr g, settled (ns @ ns') w)"
    using read_response_reply [of ns' "settled ns w" r] quiet_fits [OF assms(7)] assms(8,9) by simp
  show ?thesis
    unfolding execute_response_def if_P [OF assms(1)] rd_bind_Inr [where m = read_op, OF op]
    by (simp add: rd_bind_def settled_feed read_int32_feed_id row resp del: reply_feed)
qed

text \<open>
  A small select costs one round trip: the execute and the first fetch leave in one
  packet, and from the answers, whatever keep-alives, inline blobs and pending
  responses they are mixed with, the client gets every row the server sent, in order,
  with the nulls where they were, knows whether the cursor is exhausted, and stands
  exactly behind the stream.
\<close>

theorem select_one_round_trip:
  assumes "\<not> uses_execute2 (ps_description st)" and "encode_optional z enc vs = Inr e"
    and "noise_fits ns w" and "response_ok r" and "body_result (w_messages w) r = Inr g"
    and "list_all (fetched_ok (ps_readers st)) fs" and "quiet ns'"
  shows "\<exists>w'. rd_bind (execute_statement z st tx vs enc (Some n) False) (\<lambda>_. read_fetch_batch st)
        (feed (reply ns r @ enc_fetch fs ns' eof) w) = (Inr \<lparr>fb_rows = map fetched_cells fs, fb_eof = eof\<rparr>, w')
    \<and> w_in w' = w_in w \<and> w_deferred w' = 0 \<and> w_flush_count w' = Suc (w_flush_count w)
    \<and> w_sent w' = w_sent w @ [w_out w @ execute_message (w_version w) (w_inline_size w) st tx e @ fetch_message st n]"
proof -
  let ?m = "execute_message (w_version w) (w_inline_size w) st tx e @ fetch_message st n"
  let ?s = "settled ns (send ?m w)"
  have "0 < length ?m" by (simp add: fetch_message_def del: length_greater_0_conv)
  then have m: "?m \<noteq> []" unfolding length_greater_0_conv .
  have "read_response (feed (concat (map enc_noise ns)) (feed (enc_response r) (feed (enc_fetch fs ns' eof) (send ?m w))))
      = (Inr g, feed (enc_fetch fs ns' eof) ?s)"
    using read_response_at [of ns "feed (enc_fetch fs ns' eof) (send ?m w)" r] assms(3-5) by (simp add: settled_feed)
  then have "execute_statement z st tx vs enc (Some n) False (feed (reply ns r @ enc_fetch fs ns' eof) w)
      = (Inr \<lparr>er_proc_row = None, er_pending_fetch = True, er_pending_info = False\<rparr>, feed (enc_fetch fs ns' eof) ?s)"
    by (simp add: execute_statement_sent [OF assms(1,2)] rd_bind_def rd_on_error_def)
  moreover have "read_fetch_batch st (feed (enc_fetch fs ns' eof) ?s)
      = (Inr \<lparr>fb_rows = map fetched_cells fs, fb_eof = eof\<rparr>, settled (fetch_noise fs @ ns') ?s)"
    using read_fetch_batch_feed [of "[]" ?s st fs ns' eof] assms(6,7) by (simp add: noise_fits_def)
  ultimately show ?thesis
    using send_sent [OF m, of w] send_flush_count [OF m, of w]
    by (intro exI [of _ "settled (fetch_noise fs @ ns') ?s"]) (simp add: rd_bind_def)
qed

theorem select_one_round_trip_witness:
  "\<exists>w'. rd_bind (execute_statement \<lparr>lz_offset = \<lambda>_. 0, lz_utc = id\<rparr> \<lparr>ps_handle = 1, ps_description = \<lparr>d_stmt_type = 1, d_inputs = [], d_outputs = []\<rparr>, ps_output_blr = [],
       ps_readers = [rd_bind read_int32 (\<lambda>v. rd_return (CNumber v 0))], ps_row_width = 16\<rparr>
          3 [] (\<lambda>_ s. Inr (str_bytes s)) (Some 40) False) (\<lambda>_. read_fetch_batch \<lparr>ps_handle = 1, ps_description = \<lparr>d_stmt_type = 1, d_inputs = [], d_outputs = []\<rparr>, ps_output_blr = [],
       ps_readers = [rd_bind read_int32 (\<lambda>v. rd_return (CNumber v 0))], ps_row_width = 16\<rparr>)
        (feed (reply [] \<lparr>r_handle = 0, r_oid = replicate 8 0, r_data = [], r_status = [WGds 0]\<rparr>
          @ enc_fetch [([], [9, 9, 9], [(rd_bind read_int32 (\<lambda>v. rd_return (CNumber v 0)), Some (CNumber 7 0, enc_int32 7))])] [] True) \<lparr>w_in = [], w_out = [], w_sent = [], w_flush_count = 0, w_deferred = 0, w_version = 13,
     w_inline_size = 0, w_inlined = [], w_messages = (\<lambda>_. None)\<rparr>)
      = (Inr \<lparr>fb_rows = map fetched_cells [([], [9, 9, 9], [(rd_bind read_int32 (\<lambda>v. rd_return (CNumber v 0)), Some (CNumber 7 0, enc_int32 7))])], fb_eof = True\<rparr>, w')
    \<and> w_in w' = w_in \<lparr>w_in = [], w_out = [], w_sent = [], w_flush_count = 0, w_deferred = 0, w_version = 13,
     w_inline_size = 0, w_inlined = [], w_messages = (\<lambda>_. None)\<rparr> \<and> w_deferred w' = 0 \<and> w_flush_count w' = Suc (w_flush_count \<lparr>w_in = [], w_out = [], w_sent = [], w_flush_count = 0, w_deferred = 0, w_version = 13,
     w_inline_size = 0, w_inlined = [], w_messages = (\<lambda>_. None)\<rparr>)
    \<and> w_sent w' = w_sent \<lparr>w_in = [], w_out = [], w_sent = [], w_flush_count = 0, w_deferred = 0, w_version = 13,
     w_inline_size = 0, w_inlined = [], w_messages = (\<lambda>_. None)\<rparr> @ [w_out \<lparr>w_in = [], w_out = [], w_sent = [], w_flush_count = 0, w_deferred = 0, w_version = 13,
     w_inline_size = 0, w_inlined = [], w_messages = (\<lambda>_. None)\<rparr>
      @ execute_message (w_version \<lparr>w_in = [], w_out = [], w_sent = [], w_flush_count = 0, w_deferred = 0, w_version = 13,
     w_inline_size = 0, w_inlined = [], w_messages = (\<lambda>_. None)\<rparr>) (w_inline_size \<lparr>w_in = [], w_out = [], w_sent = [], w_flush_count = 0, w_deferred = 0, w_version = 13,
     w_inline_size = 0, w_inlined = [], w_messages = (\<lambda>_. None)\<rparr>) \<lparr>ps_handle = 1, ps_description = \<lparr>d_stmt_type = 1, d_inputs = [], d_outputs = []\<rparr>, ps_output_blr = [],
       ps_readers = [rd_bind read_int32 (\<lambda>v. rd_return (CNumber v 0))], ps_row_width = 16\<rparr> 3 None @ fetch_message \<lparr>ps_handle = 1, ps_description = \<lparr>d_stmt_type = 1, d_inputs = [], d_outputs = []\<rparr>, ps_output_blr = [],
       ps_readers = [rd_bind read_int32 (\<lambda>v. rd_return (CNumber v 0))], ps_row_width = 16\<rparr> 40]"
  by (rule select_one_round_trip [where g = "\<lparr>gr_handle = 0, gr_oid = replicate 8 0, gr_data = [], gr_warnings = []\<rparr>"])
     (simp_all add: uses_execute2_def encode_optional_def noise_fits_def response_ok_def body_result_def status_of_def
        sv_result_def sv_init_def sv_gds_def fetched_ok_def quiet_def item_ok_def rd_bind_def read_int32_feed_id
        bitmap_len_def pad4n_def)

text \<open>
  C7. A failed execute poisons what follows it. The fetch that left in the same packet
  fails too; its error is thrown to the next request, whatever that was, whose own
  response stays on the stream, so that the request after that is answered with it.
\<close>

theorem failed_execute_poisons_next:
  assumes "\<not> uses_execute2 (ps_description st)" and "encode_optional z enc vs = Inr e"
    and "noise_fits ns w" and "response_ok r1" and "body_result (w_messages w) r1 = Inl e1"
    and "response_ok r2" and "body_result (w_messages w) r2 = Inl e2" and "response_ok r3"
  shows "\<exists>w1 w2 w3. execute_statement z st tx vs enc (Some n) False
        (feed (reply ns r1 @ enc_response r2 @ enc_response r3) w) = (Inl e1, w1)
    \<and> request m1 w1 = (Inl e2, w2) \<and> w_in w2 = enc_response r3 @ w_in w \<and> w_deferred w2 = 0
    \<and> request m2 w2 = (body_result (w_messages w) r3, w3)"
proof -
  let ?m = "execute_message (w_version w) (w_inline_size w) st tx e @ fetch_message st n"
  let ?s = "settled ns (send ?m w)"
  let ?s1 = "mark_deferred (feed (enc_response r2 @ enc_response r3) ?s)"
  let ?s2 = "feed (enc_response r3) (send m1 ?s)"
  have "read_response (feed (concat (map enc_noise ns)) (feed (enc_response r1) (feed (enc_response r2 @ enc_response r3) (send ?m w))))
      = (Inl e1, feed (enc_response r2 @ enc_response r3) ?s)"
    using read_response_at [of ns "feed (enc_response r2 @ enc_response r3) (send ?m w)" r1] assms(3-5)
    by (simp add: settled_feed)
  then have x: "execute_statement z st tx vs enc (Some n) False (feed (reply ns r1 @ enc_response r2 @ enc_response r3) w) = (Inl e1, ?s1)"
    by (simp add: execute_statement_sent [OF assms(1,2)] rd_bind_def rd_on_error_def)
  have s1: "send m1 ?s1 = feed (enc_response r2) ((feed (enc_response r3) (send m1 ?s))\<lparr>w_deferred := 1\<rparr>)"
    by (simp add: mark_deferred_def feed_def send_def flush_def put_def settled_def)
  have "read_response (send m1 ?s1) = (Inl e2, ?s2)"
    using read_op_deferred [OF assms(6), of "(feed (enc_response r3) (send m1 ?s))\<lparr>w_deferred := 1\<rparr>"] assms(7)
    unfolding s1 by (simp add: read_response_def rd_bind_def)
  then have y: "request m1 ?s1 = (Inl e2, ?s2)"
    by (simp add: request_def rd_bind_def)
  have z: "request m2 ?s2 = (body_result (w_messages w) r3, send m2 (send m1 ?s))"
    using read_response_feed [OF assms(8), of "send m2 (send m1 ?s)"] by (simp add: request_def rd_bind_def)
  show ?thesis
    using x y z by (intro exI [of _ ?s1] exI [of _ ?s2] exI [of _ "send m2 (send m1 ?s)"]) simp
qed

theorem failed_execute_poisons_next_witness:
  "\<exists>w1 w2 w3. execute_statement \<lparr>lz_offset = \<lambda>_. 0, lz_utc = id\<rparr> \<lparr>ps_handle = 1, ps_description = \<lparr>d_stmt_type = 1, d_inputs = [], d_outputs = []\<rparr>, ps_output_blr = [],
       ps_readers = [rd_bind read_int32 (\<lambda>v. rd_return (CNumber v 0))], ps_row_width = 16\<rparr>
          3 [] (\<lambda>_ s. Inr (str_bytes s)) (Some 40) False
        (feed (reply [] \<lparr>r_handle = 0, r_oid = replicate 8 0, r_data = [], r_status = [WGds 7]\<rparr> @ enc_response \<lparr>r_handle = 0, r_oid = replicate 8 0, r_data = [], r_status = [WGds 7]\<rparr> @ enc_response \<lparr>r_handle = 0, r_oid = replicate 8 0, r_data = [], r_status = [WGds 0]\<rparr>) \<lparr>w_in = [], w_out = [], w_sent = [], w_flush_count = 0, w_deferred = 0, w_version = 13,
     w_inline_size = 0, w_inlined = [], w_messages = (\<lambda>_. None)\<rparr>)
      = (Inl (FbError FirebirdError ''Firebird error 7'' (Some 7) None [ArgGds 7]), w1)
    \<and> request [1] w1 = (Inl (FbError FirebirdError ''Firebird error 7'' (Some 7) None [ArgGds 7]), w2)
    \<and> w_in w2 = enc_response \<lparr>r_handle = 0, r_oid = replicate 8 0, r_data = [], r_status = [WGds 0]\<rparr> @ w_in \<lparr>w_in = [], w_out = [], w_sent = [], w_flush_count = 0, w_deferred = 0, w_version = 13,
     w_inline_size = 0, w_inlined = [], w_messages = (\<lambda>_. None)\<rparr> \<and> w_deferred w2 = 0
    \<and> request [2] w2 = (body_result (w_messages \<lparr>w_in = [], w_out = [], w_sent = [], w_flush_count = 0, w_deferred = 0, w_version = 13,
     w_inline_size = 0, w_inlined = [], w_messages = (\<lambda>_. None)\<rparr>) \<lparr>r_handle = 0, r_oid = replicate 8 0, r_data = [], r_status = [WGds 0]\<rparr>, w3)"
proof -
  have dec: "dec_int 7 = ''7''"
    by (simp add: dec_int_def dec_nat.simps digit_char_def) code_simp
  show ?thesis
    by (rule failed_execute_poisons_next)
       (simp_all add: uses_execute2_def encode_optional_def noise_fits_def response_ok_def body_result_def status_of_def
          sv_result_def sv_init_def sv_gds_def format_gds_message_def dec)
qed



end
