(* ===== verification/Js_Map.thy ===== *)
theory Js_Map
  imports Prelude "HOL-Library.AList"
begin

text \<open>
  JavaScript's \<open>Map\<close>: entries in the order of their insertion, where \<open>set\<close> on a present
  key keeps its place. The interface its clients use is a locale; what they need of a
  touched key (deleted and set again) and of sums over the values is proved inside.
\<close>

type_synonym ('k, 'v) js_map = "('k \<times> 'v) list"

definition jm_get :: "('k, 'v) js_map \<Rightarrow> 'k \<Rightarrow> 'v option" where
  "jm_get m k = map_of m k"

definition jm_set :: "('k, 'v) js_map \<Rightarrow> 'k \<Rightarrow> 'v \<Rightarrow> ('k, 'v) js_map" where
  "jm_set m k v = AList.update k v m"

definition jm_delete :: "('k, 'v) js_map \<Rightarrow> 'k \<Rightarrow> ('k, 'v) js_map" where
  "jm_delete m k = AList.delete k m"

definition jm_keys :: "('k, 'v) js_map \<Rightarrow> 'k list" where
  "jm_keys m = map fst m"

definition jm_ok :: "('k, 'v) js_map \<Rightarrow> bool" where
  "jm_ok m = distinct (map fst m)"

locale keyed_store =
  fixes get :: "'m \<Rightarrow> 'k \<Rightarrow> 'v option" and put :: "'m \<Rightarrow> 'k \<Rightarrow> 'v \<Rightarrow> 'm" and del :: "'m \<Rightarrow> 'k \<Rightarrow> 'm"
    and keys :: "'m \<Rightarrow> 'k list" and invar :: "'m \<Rightarrow> bool"
  assumes get_put: "invar m \<Longrightarrow> get (put m k v) = (get m)(k \<mapsto> v)"
    and get_del: "invar m \<Longrightarrow> get (del m k) = (get m)(k := None)"
    and keys_get: "invar m \<Longrightarrow> k \<in> set (keys m) \<longleftrightarrow> get m k \<noteq> None"
    and keys_put: "invar m \<Longrightarrow> keys (put m k v) = (if k \<in> set (keys m) then keys m else keys m @ [k])"
    and keys_del: "invar m \<Longrightarrow> keys (del m k) = removeAll k (keys m)"
    and keys_distinct: "invar m \<Longrightarrow> distinct (keys m)"
    and invar_put: "invar m \<Longrightarrow> invar (put m k v)"
    and invar_del: "invar m \<Longrightarrow> invar (del m k)"
begin

lemma touch:
  assumes "invar m"
  shows "keys (put (del m k) k v) = removeAll k (keys m) @ [k]" and "get (put (del m k) k v) = (get m)(k \<mapsto> v)"
    and "invar (put (del m k) k v)"
  using assms by (auto simp: keys_put keys_del get_put get_del invar_del invar_put)

lemma total_put:
  assumes "invar m"
  shows "(\<Sum>x \<in> set (keys (put m k v)). f (the (get (put m k v) x)))
    = (\<Sum>x \<in> set (keys m). f (the (get m x))) - (case get m k of None \<Rightarrow> 0 | Some u \<Rightarrow> f u) + (f v :: int)"
proof -
  let ?K = "set (keys m)"
  have other: "(\<Sum>x \<in> ?K - {k}. f (the (get (put m k v) x))) = (\<Sum>x \<in> ?K - {k}. f (the (get m x)))"
    using assms by (intro sum.cong) (auto simp: get_put)
  show ?thesis
  proof (cases "k \<in> ?K")
    case True
    then obtain u where u: "get m k = Some u" using assms keys_get by blast
    have "(\<Sum>x \<in> ?K. f (the (get (put m k v) x))) = f v + (\<Sum>x \<in> ?K - {k}. f (the (get m x)))"
      using sum.remove [of ?K k "\<lambda>x. f (the (get (put m k v) x))"] True assms by (simp add: other get_put)
    moreover have "(\<Sum>x \<in> ?K. f (the (get m x))) = f u + (\<Sum>x \<in> ?K - {k}. f (the (get m x)))"
      using sum.remove [of ?K k "\<lambda>x. f (the (get m x))"] True u by simp
    ultimately show ?thesis
      using True assms u by (simp add: keys_put)
  next
    case False
    then have "get m k = None" "?K - {k} = ?K" using assms keys_get by auto
    with False assms other show ?thesis by (simp add: keys_put get_put)
  qed
qed

lemma total_del:
  assumes "invar m"
  shows "(\<Sum>x \<in> set (keys (del m k)). f (the (get (del m k) x)))
    = (\<Sum>x \<in> set (keys m). f (the (get m x))) - (case get m k of None \<Rightarrow> 0 | Some u \<Rightarrow> (f u :: int))"
proof -
  let ?K = "set (keys m)"
  have other: "(\<Sum>x \<in> ?K - {k}. f (the (get (del m k) x))) = (\<Sum>x \<in> ?K - {k}. f (the (get m x)))"
    using assms by (intro sum.cong) (auto simp: get_del)
  have keys: "set (keys (del m k)) = ?K - {k}" using assms by (auto simp: keys_del)
  show ?thesis
  proof (cases "k \<in> ?K")
    case True
    then obtain u where "get m k = Some u" using assms keys_get by blast
    then show ?thesis
      using sum.remove [of ?K k "\<lambda>x. f (the (get m x))"] True by (simp add: keys other)
  next
    case False
    then have "get m k = None" "?K - {k} = ?K" using assms keys_get by auto
    then show ?thesis by (simp add: keys other [simplified \<open>?K - {k} = ?K\<close>])
  qed
qed

end

interpretation js_map: keyed_store jm_get jm_set jm_delete jm_keys jm_ok
proof
  fix m :: "('a, 'b) js_map" and k v
  show "jm_get (jm_set m k v) = (jm_get m)(k \<mapsto> v)"
    by (simp add: fun_eq_iff jm_get_def jm_set_def AList.update_conv')
  show "jm_get (jm_delete m k) = (jm_get m)(k := None)"
    by (simp add: fun_eq_iff jm_get_def jm_delete_def AList.delete_conv')
  show "k \<in> set (jm_keys m) \<longleftrightarrow> jm_get m k \<noteq> None"
    by (auto simp: jm_keys_def jm_get_def map_of_eq_None_iff)
  show "jm_keys (jm_set m k v) = (if k \<in> set (jm_keys m) then jm_keys m else jm_keys m @ [k])"
    by (simp add: jm_keys_def jm_set_def AList.update_keys)
  show "jm_keys (jm_delete m k) = removeAll k (jm_keys m)"
    by (simp add: jm_keys_def jm_delete_def AList.delete_keys)
  assume ok: "jm_ok m"
  show "distinct (jm_keys m)" using ok by (simp add: jm_ok_def jm_keys_def)
  show "jm_ok (jm_set m k v)" using ok by (simp add: jm_ok_def jm_set_def AList.distinct_update)
  show "jm_ok (jm_delete m k)" using ok by (simp add: jm_ok_def jm_delete_def AList.distinct_delete)
qed

end
