(* ===== verification/Statement_Cache.thy ===== *)
theory Statement_Cache
  imports Statement Js_Map "HOL-Library.Multiset"
begin

text \<open>
  \<open>api/statement-cache.ts\<close>: the LRU cache of prepared statements. Statements are objects,
  compared by identity, so a cached value is a prepared statement with the identity of
  its object. Dropping a statement writes a deferred message to the connection.
\<close>

subsection \<open>The cache\<close>

record stmt_object =
  so_id :: nat
  so_info :: prepared_statement

definition so_handle :: "stmt_object \<Rightarrow> int" where
  "so_handle s = ps_handle (so_info s)"

record statement_cache =
  sc_map :: "(string, stmt_object) js_map"
  sc_capacity :: int

definition is_cacheable :: "int \<Rightarrow> bool" where
  "is_cacheable t =
     (case stmt_type_of t of
        Some Stmt_select \<Rightarrow> True
      | Some Stmt_select_for_upd \<Rightarrow> True
      | Some Stmt_insert \<Rightarrow> True
      | Some Stmt_update \<Rightarrow> True
      | Some Stmt_delete \<Rightarrow> True
      | Some Stmt_exec_procedure \<Rightarrow> True
      | _ \<Rightarrow> False)"

definition drop_statement :: "int \<Rightarrow> wire \<Rightarrow> wire" where
  "drop_statement h w = free_statement_op h Free_DSQL_drop False w"

definition sc_get :: "string \<Rightarrow> statement_cache \<Rightarrow> stmt_object option \<times> statement_cache" where
  "sc_get sql c =
     (case jm_get (sc_map c) sql of
        None \<Rightarrow> (None, c)
      | Some s \<Rightarrow> (Some s, c\<lparr>sc_map := jm_set (jm_delete (sc_map c) sql) sql s\<rparr>))"

text \<open>The loop that drops the oldest entry while there are too many.\<close>

fun evict :: "int \<Rightarrow> (string, stmt_object) js_map \<times> wire \<Rightarrow> (string, stmt_object) js_map \<times> wire" where
  "evict cap ([], w) = ([], w)"
| "evict cap ((k, s) # m, w) =
     (if cap < int (length ((k, s) # m)) then evict cap (m, drop_statement (so_handle s) w) else ((k, s) # m, w))"

definition sc_put :: "string \<Rightarrow> stmt_object \<Rightarrow> statement_cache \<times> wire \<Rightarrow> statement_cache \<times> wire" where
  "sc_put sql s = (\<lambda>(c, w).
     if sc_capacity c \<le> 0 then (c, w)
     else
       let w1 = (case jm_get (sc_map c) sql of
             Some e \<Rightarrow> if so_id e \<noteq> so_id s then drop_statement (so_handle e) w else w
           | None \<Rightarrow> w);
           (m2, w2) = evict (sc_capacity c) (jm_set (jm_delete (sc_map c) sql) sql s, w1)
       in (c\<lparr>sc_map := m2\<rparr>, w2))"

definition sc_remove :: "string \<Rightarrow> statement_cache \<times> wire \<Rightarrow> statement_cache \<times> wire" where
  "sc_remove sql = (\<lambda>(c, w).
     case jm_get (sc_map c) sql of
       None \<Rightarrow> (c, w)
     | Some s \<Rightarrow> (c\<lparr>sc_map := jm_delete (sc_map c) sql\<rparr>, drop_statement (so_handle s) w))"

definition sc_clear :: "statement_cache \<times> wire \<Rightarrow> statement_cache \<times> wire" where
  "sc_clear = (\<lambda>(c, w). (c\<lparr>sc_map := []\<rparr>, fold (\<lambda>(k, s). drop_statement (so_handle s)) (sc_map c) w))"

definition sc_size :: "statement_cache \<Rightarrow> nat" where
  "sc_size c = length (sc_map c)"

subsection \<open>Any sequence of operations\<close>

datatype cache_op = CGet string | CPut string stmt_object | CRemove string | CClear

fun cache_step :: "cache_op \<Rightarrow> statement_cache \<times> wire \<Rightarrow> statement_cache \<times> wire" where
  "cache_step (CGet sql) (c, w) = (snd (sc_get sql c), w)"
| "cache_step (CPut sql s) cw = sc_put sql s cw"
| "cache_step (CRemove sql) cw = sc_remove sql cw"
| "cache_step CClear cw = sc_clear cw"

definition cache_run :: "cache_op list \<Rightarrow> statement_cache \<times> wire \<Rightarrow> statement_cache \<times> wire" where
  "cache_run ops = fold cache_step ops"

text \<open>The handles an operation brings into the cache: that of an object put anew.\<close>

fun entered :: "cache_op \<Rightarrow> statement_cache \<Rightarrow> int list" where
  "entered (CPut sql s) c =
     (case jm_get (sc_map c) sql of Some e \<Rightarrow> if so_id e = so_id s then [] else [so_handle s] | None \<Rightarrow> [so_handle s])"
| "entered _ c = []"

fun all_entered :: "cache_op list \<Rightarrow> statement_cache \<times> wire \<Rightarrow> int list" where
  "all_entered [] cw = []"
| "all_entered (op # ops) cw = entered op (fst cw) @ all_entered ops (cache_step op cw)"

definition frees :: "int list \<Rightarrow> wire \<Rightarrow> wire" where
  "frees hs w = fold drop_statement hs w"

definition cached :: "statement_cache \<Rightarrow> int list" where
  "cached c = map (so_handle \<circ> snd) (sc_map c)"

definition cache_ok :: "statement_cache \<Rightarrow> bool" where
  "cache_ok c = (jm_ok (sc_map c) \<and> int (sc_size c) \<le> sc_capacity c)"

text \<open>Objects of one identity are one object.\<close>

fun op_objects :: "cache_op \<Rightarrow> stmt_object set" where
  "op_objects (CPut sql s) = {s}"
| "op_objects _ = {}"

definition one_object_per_id :: "stmt_object set \<Rightarrow> bool" where
  "one_object_per_id S = (\<forall>s \<in> S. \<forall>t \<in> S. so_id s = so_id t \<longrightarrow> s = t)"

lemma frees_simps [simp]: "frees [] w = w" "frees (h # hs) w = frees hs (drop_statement h w)"
  by (simp_all add: frees_def)

lemma frees_append: "frees (a @ b) w = frees b (frees a w)"
  by (simp add: frees_def)

text \<open>On the wire: one message and one deferred response per handle.\<close>

lemma frees_wire:
  "w_out (frees hs w) = w_out w @ concat (map (\<lambda>h. free_message h Free_DSQL_drop) hs)
   \<and> w_deferred (frees hs w) = w_deferred w + length hs"
  by (induction hs arbitrary: w) (simp_all add: drop_statement_def free_statement_op_def mark_deferred_def put_def)

lemma evict_drops:
  "\<exists>hs. evict cap (m, w) = (drop (length m - nat cap) m, frees hs w)
     \<and> hs = map (so_handle \<circ> snd) (take (length m - nat cap) m)" if "1 \<le> cap"
  using that
proof (induction cap "(m, w)" arbitrary: m w rule: evict.induct)
  case (2 cap k s m w)
  show ?case
  proof (cases "cap < int (length ((k, s) # m))")
    case True
    then have "length ((k, s) # m) - nat cap = Suc (length m - nat cap)" using 2(2) by simp
    with 2 True show ?thesis by simp
  next
    case False
    then have "length ((k, s) # m) - nat cap = 0" by simp
    with False show ?thesis by simp
  qed
qed simp

lemma update_absent: "k \<notin> fst ` set m \<Longrightarrow> AList.update k v m = m @ [(k, v)]"
  by (induction m) auto

lemma touch_eq: "jm_set (jm_delete m k) k v = jm_delete m k @ [(k, v)]"
  by (simp add: jm_set_def jm_delete_def update_absent AList.delete_notin_dom)

lemma delete_splits: "jm_ok m \<Longrightarrow> jm_get m k = Some v \<Longrightarrow> mset m = add_mset (k, v) (mset (jm_delete m k))"
proof (induction m)
  case (Cons kv m)
  then show ?case
    by (cases kv) (auto simp: jm_ok_def jm_get_def jm_delete_def split: if_splits dest: map_of_SomeD)
qed (simp add: jm_get_def)

lemma delete_absent: "jm_get m k = None \<Longrightarrow> jm_delete m k = m"
  by (auto simp: jm_get_def jm_delete_def map_of_eq_None_iff)

lemma cached_mset: "mset (map (so_handle \<circ> snd) m) = image_mset (so_handle \<circ> snd) (mset m)"
  by simp

lemma clear_frees: "fold (\<lambda>(k, s). drop_statement (so_handle s)) m w = frees (map (so_handle \<circ> snd) m) w"
  by (induction m arbitrary: w) auto

text \<open>What one operation does to the account of handles.\<close>

definition accounts :: "statement_cache \<times> wire \<Rightarrow> int list \<Rightarrow> stmt_object set \<Rightarrow> statement_cache \<times> wire \<Rightarrow> bool" where
  "accounts cw new S cw' = (\<exists>hs. snd cw' = frees hs (snd cw)
     \<and> mset (cached (fst cw')) + mset hs = mset (cached (fst cw)) + mset new
     \<and> cache_ok (fst cw') \<and> sc_capacity (fst cw') = sc_capacity (fst cw)
     \<and> snd ` set (sc_map (fst cw')) \<subseteq> snd ` set (sc_map (fst cw)) \<union> S)"

lemma get_accounts:
  assumes "cache_ok c"
  shows "accounts (c, w) [] {} (snd (sc_get sql c), w)"
proof (cases "jm_get (sc_map c) sql")
  case None
  with assms show ?thesis by (auto simp: accounts_def sc_get_def intro!: exI [of _ "[]"])
next
  case (Some s)
  have ok: "jm_ok (sc_map c)" using assms by (simp add: cache_ok_def)
  have m: "mset (sc_map c) = add_mset (sql, s) (mset (jm_delete (sc_map c) sql))"
    using delete_splits [OF ok Some] .
  have l: "length (sc_map c) = Suc (length (jm_delete (sc_map c) sql))" using arg_cong [OF m, of size] by simp
  have j: "jm_ok (jm_delete (sc_map c) sql @ [(sql, s)])"
    using js_map.touch(3) [OF ok, of sql s] by (simp only: touch_eq)
  have set: "set (sc_map c) = insert (sql, s) (set (jm_delete (sc_map c) sql))"
    using arg_cong [OF m, of set_mset] by simp
  show ?thesis
    unfolding accounts_def sc_get_def Some option.case fst_conv snd_conv touch_eq
  proof (intro exI [of _ "[]"] conjI)
    show "cache_ok (c\<lparr>sc_map := jm_delete (sc_map c) sql @ [(sql, s)]\<rparr>)"
      using assms j l by (simp add: cache_ok_def sc_size_def)
    show "mset (cached (c\<lparr>sc_map := jm_delete (sc_map c) sql @ [(sql, s)]\<rparr>)) + mset [] = mset (cached c) + mset []"
      by (simp add: cached_def m)
  qed (auto simp: set)
qed

lemma put_accounts:
  assumes "cache_ok c" and "1 \<le> sc_capacity c" and "one_object_per_id (insert s (snd ` set (sc_map c)))"
  shows "accounts (c, w) (entered (CPut sql s) c) {s} (sc_put sql s (c, w))"
proof -
  define h0 where "h0 = (case jm_get (sc_map c) sql of Some e \<Rightarrow> if so_id e \<noteq> so_id s then [so_handle e] else [] | None \<Rightarrow> [])"
  define t where "t = jm_delete (sc_map c) sql @ [(sql, s)]"
  define k where "k = length t - nat (sc_capacity c)"
  have ok: "jm_ok (sc_map c)" using assms(1) by (simp add: cache_ok_def)
  have h0w: "(case jm_get (sc_map c) sql of None \<Rightarrow> w
      | Some e \<Rightarrow> if so_id e \<noteq> so_id s then drop_statement (so_handle e) w else w) = frees h0 w"
    by (simp add: h0_def split: option.split)
  have ev: "evict (sc_capacity c) (t, frees h0 w) = (drop k t, frees (h0 @ map (so_handle \<circ> snd) (take k t)) w)"
    using evict_drops [OF assms(2), of t "frees h0 w"] by (simp add: frees_append k_def)
  have put: "sc_put sql s (c, w) = (c\<lparr>sc_map := drop k t\<rparr>, frees (h0 @ map (so_handle \<circ> snd) (take k t)) w)"
    using assms(2) by (simp add: sc_put_def touch_eq h0w t_def [symmetric] ev)
  have split: "mset t = mset (take k t) + mset (drop k t)"
    by (metis append_take_drop_id mset_append)
  have t: "image_mset (so_handle \<circ> snd) (mset t) + mset h0 = mset (cached c) + mset (entered (CPut sql s) c)"
  proof (cases "jm_get (sc_map c) sql")
    case None
    then show ?thesis by (simp add: h0_def cached_def delete_absent t_def)
  next
    case (Some e)
    then have "e \<in> snd ` set (sc_map c)" by (auto simp: jm_get_def dest!: map_of_SomeD intro: rev_image_eqI)
    then have "so_id e = so_id s \<Longrightarrow> e = s" using assms(3) by (auto simp: one_object_per_id_def)
    then show ?thesis using delete_splits [OF ok Some] by (auto simp: h0_def cached_def Some t_def)
  qed
  have jt: "jm_ok t" using js_map.touch(3) [OF ok, of sql s] by (simp only: touch_eq t_def)
  then have j: "jm_ok (drop k t)" unfolding jm_ok_def by (simp only: drop_map [symmetric] distinct_drop)
  have "set (jm_delete (sc_map c) sql) \<subseteq> set (sc_map c)" by (auto simp: jm_delete_def AList.delete_eq)
  then have "set (drop k t) \<subseteq> insert (sql, s) (set (sc_map c))"
    using set_drop_subset [of k t] unfolding t_def by (auto simp del: drop_append)
  then have "snd ` set (drop k t) \<subseteq> snd ` insert (sql, s) (set (sc_map c))" by (rule image_mono)
  then have sub: "snd ` set (drop k t) \<subseteq> snd ` set (sc_map c) \<union> {s}" by simp
  have len: "int (length (drop k t)) \<le> sc_capacity c" using assms(2) by (simp add: k_def)
  show ?thesis
    unfolding accounts_def put fst_conv snd_conv
  proof (intro exI [of _ "h0 @ map (so_handle \<circ> snd) (take k t)"] conjI refl)
    show "mset (cached (c\<lparr>sc_map := drop k t\<rparr>)) + mset (h0 @ map (so_handle \<circ> snd) (take k t))
        = mset (cached c) + mset (entered (CPut sql s) c)"
      unfolding t [symmetric] split by (simp add: cached_def union_ac)
    show "cache_ok (c\<lparr>sc_map := drop k t\<rparr>)" using j len by (simp add: cache_ok_def sc_size_def)
  qed (use sub in simp_all)
qed

lemma remove_accounts:
  assumes "cache_ok c"
  shows "accounts (c, w) [] {} (sc_remove sql (c, w))"
proof (cases "jm_get (sc_map c) sql")
  case None
  with assms show ?thesis by (auto simp: accounts_def sc_remove_def intro!: exI [of _ "[]"])
next
  case (Some s)
  have ok: "jm_ok (sc_map c)" using assms by (simp add: cache_ok_def)
  have m: "mset (sc_map c) = add_mset (sql, s) (mset (jm_delete (sc_map c) sql))"
    using delete_splits [OF ok Some] .
  have l: "length (sc_map c) = Suc (length (jm_delete (sc_map c) sql))" using arg_cong [OF m, of size] by simp
  have set: "set (sc_map c) = insert (sql, s) (set (jm_delete (sc_map c) sql))"
    using arg_cong [OF m, of set_mset] by simp
  show ?thesis
    unfolding accounts_def sc_remove_def Some option.case fst_conv snd_conv prod.case
  proof (intro exI [of _ "[so_handle s]"] conjI)
    show "cache_ok (c\<lparr>sc_map := jm_delete (sc_map c) sql\<rparr>)"
      using assms l js_map.invar_del [OF ok] by (simp add: cache_ok_def sc_size_def)
    show "mset (cached (c\<lparr>sc_map := jm_delete (sc_map c) sql\<rparr>)) + mset [so_handle s] = mset (cached c) + mset []"
      by (simp add: cached_def m)
  qed (auto simp: set)
qed

lemma clear_accounts:
  assumes "1 \<le> sc_capacity c"
  shows "accounts (c, w) [] {} (sc_clear (c, w))"
  using assms by (auto simp: accounts_def sc_clear_def clear_frees cached_def cache_ok_def jm_ok_def sc_size_def
      intro!: exI [of _ "map (so_handle \<circ> snd) (sc_map c)"])

lemma step_accounts:
  assumes "cache_ok c" and "1 \<le> sc_capacity c" and "one_object_per_id (op_objects op \<union> snd ` set (sc_map c))"
  shows "accounts (c, w) (entered op c) (op_objects op) (cache_step op (c, w))"
  using assms get_accounts put_accounts remove_accounts clear_accounts by (cases op) simp_all

lemma accounts_trans:
  "accounts cw a S cw1 \<Longrightarrow> accounts cw1 b T cw2 \<Longrightarrow> accounts cw (a @ b) (S \<union> T) cw2"
  unfolding accounts_def
  by (elim exE conjE, rule_tac x = "hs @ hsa" in exI) (auto simp: frees_append union_ac)

lemma one_object_mono: "one_object_per_id T \<Longrightarrow> S \<subseteq> T \<Longrightarrow> one_object_per_id S"
  by (auto simp: one_object_per_id_def)

lemma run_accounts:
  assumes "cache_ok (fst cw)" and "1 \<le> sc_capacity (fst cw)"
    and "one_object_per_id (\<Union> (op_objects ` set ops) \<union> snd ` set (sc_map (fst cw)))"
  shows "accounts cw (all_entered ops cw) (\<Union> (op_objects ` set ops)) (cache_run ops cw)"
  using assms
proof (induction ops arbitrary: cw)
  case Nil
  then show ?case by (auto simp: accounts_def cache_run_def intro!: exI [of _ "[]"])
next
  case (Cons op ops)
  let ?cw = "cache_step op cw"
  have "one_object_per_id (op_objects op \<union> snd ` set (sc_map (fst cw)))"
    by (rule one_object_mono [OF Cons.prems(3)]) auto
  then have step: "accounts cw (entered op (fst cw)) (op_objects op) ?cw"
    using Cons.prems(1,2) step_accounts [of "fst cw" op "snd cw"] by simp
  have ok: "cache_ok (fst ?cw)" and cap: "sc_capacity (fst ?cw) = sc_capacity (fst cw)"
    and sub: "snd ` set (sc_map (fst ?cw)) \<subseteq> snd ` set (sc_map (fst cw)) \<union> op_objects op"
    using step by (auto simp: accounts_def)
  have one: "one_object_per_id (\<Union> (op_objects ` set ops) \<union> snd ` set (sc_map (fst ?cw)))"
    by (rule one_object_mono [OF Cons.prems(3)]) (use sub in auto)
  have "accounts ?cw (all_entered ops ?cw) (\<Union> (op_objects ` set ops)) (cache_run ops ?cw)"
    using ok cap one Cons.prems(2) by (intro Cons.IH) simp_all
  with step have "accounts cw (entered op (fst cw) @ all_entered ops ?cw) (op_objects op \<union> \<Union> (op_objects ` set ops)) (cache_run ops ?cw)"
    by (rule accounts_trans)
  then show ?case by (simp add: cache_run_def)
qed

subsection \<open>The least recently used goes first\<close>

text \<open>
  The specification: a history of uses. The cache holds the last \<open>n\<close> distinct statements
  used, in the order of their last use; a \<open>get\<close> is a use exactly when it hits.
\<close>

definition last_n :: "nat \<Rightarrow> 'a list \<Rightarrow> 'a list" where
  "last_n n xs = drop (length xs - n) xs"

definition recent :: "nat \<Rightarrow> string list \<Rightarrow> string list" where
  "recent n h = last_n n (remdups h)"

fun spec_step :: "nat \<Rightarrow> cache_op \<Rightarrow> string list \<Rightarrow> string list" where
  "spec_step n (CGet sql) h = (if sql \<in> set (recent n h) then h @ [sql] else h)"
| "spec_step n (CPut sql s) h = h @ [sql]"
| "spec_step n (CRemove sql) h = h"
| "spec_step n CClear h = []"

fun no_remove :: "cache_op \<Rightarrow> bool" where
  "no_remove (CRemove sql) = False"
| "no_remove _ = True"

definition sc_keys :: "statement_cache \<Rightarrow> string list" where
  "sc_keys c = jm_keys (sc_map c)"

lemma remdups_snoc: "remdups (xs @ [x]) = removeAll x (remdups xs) @ [x]"
  by (induction xs) auto

lemma last_n_snoc: "last_n (Suc n) (xs @ [x]) = last_n n xs @ [x]"
  by (simp add: last_n_def)

text \<open>A use of \<open>x\<close>: the list of the last \<open>n + 1\<close>, without \<open>x\<close>, has the last \<open>n\<close> others.\<close>

lemma last_n_remove:
  assumes "distinct xs"
  shows "last_n n (removeAll x (last_n (Suc n) xs)) = last_n n (removeAll x xs)"
proof -
  let ?k = "length xs - Suc n"
  let ?a = "removeAll x (take ?k xs)" and ?b = "removeAll x (drop ?k xs)"
  have split: "removeAll x xs = ?a @ ?b"
    by (metis append_take_drop_id removeAll_append)
  show ?thesis
  proof (cases "Suc n \<le> length xs")
    case True
    have "length (drop ?k xs) = Suc n" using True by simp
    moreover have "distinct (drop ?k xs)" using assms by simp
    ultimately have "n \<le> length ?b"
      by (simp add: distinct_remove1_removeAll [symmetric] length_remove1)
    then show ?thesis
      unfolding split by (simp add: last_n_def)
  next
    case False
    then show ?thesis by (simp add: last_n_def)
  qed
qed

lemma recent_use:
  assumes "0 < n"
  shows "recent n (h @ [x]) = last_n n (removeAll x (recent n h) @ [x])"
proof -
  obtain m where n: "n = Suc m" using assms by (cases n) auto
  show ?thesis
    using last_n_remove [of "remdups h" m x] by (simp add: recent_def remdups_snoc n last_n_snoc)
qed

lemma last_n_short: "length xs \<le> n \<Longrightarrow> last_n n xs = xs"
  by (simp add: last_n_def)

lemma get_keys:
  assumes "jm_ok (sc_map c)"
  shows "sc_keys (snd (sc_get sql c)) = (if sql \<in> set (sc_keys c) then removeAll sql (sc_keys c) @ [sql] else sc_keys c)"
  using js_map.keys_get [OF assms, of sql] js_map.touch(1) [OF assms, of sql]
  by (auto simp: sc_get_def sc_keys_def split: option.split)

lemma put_keys:
  assumes "jm_ok (sc_map c)" and "1 \<le> sc_capacity c"
  shows "sc_keys (fst (sc_put sql s (c, w))) = last_n (nat (sc_capacity c)) (removeAll sql (sc_keys c) @ [sql])"
proof -
  have "fst (evict (sc_capacity c) (m, w')) = last_n (nat (sc_capacity c)) m" for m w'
    using evict_drops [OF assms(2), of m w'] by (auto simp: last_n_def)
  moreover have "jm_keys (last_n k m) = last_n k (jm_keys m)" for k and m :: "(string, stmt_object) js_map"
    by (simp add: jm_keys_def last_n_def drop_map)
  ultimately show ?thesis
    using assms(2) js_map.touch(1) [OF assms(1), of sql s] by (simp add: sc_put_def sc_keys_def split_beta Let_def)
qed

lemma step_recent:
  assumes "sc_keys c = recent n h" and "jm_ok (sc_map c)" and "sc_capacity c = int n" and "0 < n" and "no_remove op"
  shows "sc_keys (fst (cache_step op (c, w))) = recent n (spec_step n op h)"
proof (cases op)
  case (CGet sql)
  have "length (removeAll sql (recent n h) @ [sql]) \<le> n" if "sql \<in> set (recent n h)"
  proof -
    have "length (recent n h) \<le> n" by (simp add: recent_def last_n_def)
    then show ?thesis using that length_removeAll_less [of sql "recent n h"] by simp
  qed
  then show ?thesis
    using assms get_keys [OF assms(2), of sql] by (simp add: CGet recent_use last_n_short)
next
  case (CPut sql s)
  then show ?thesis using assms put_keys [OF assms(2), of sql s w] by (simp add: recent_use)
next
  case CClear
  then show ?thesis by (simp add: sc_clear_def sc_keys_def jm_keys_def recent_def last_n_def)
qed (use assms in simp)

lemma step_capacity [simp]: "sc_capacity (fst (cache_step op cw)) = sc_capacity (fst cw)"
  by (cases cw; cases op)
     (auto simp: sc_get_def sc_put_def sc_remove_def sc_clear_def Let_def split_beta split: option.split)

lemma step_jm_ok:
  assumes "jm_ok (sc_map c)" and "1 \<le> sc_capacity c"
  shows "jm_ok (sc_map (fst (cache_step op (c, w))))"
proof (cases op)
  case (CPut sql s)
  have "jm_ok (fst (evict (sc_capacity c) (m, w')))" if "jm_ok m" for m w'
    using that evict_drops [OF assms(2), of m w'] by (auto simp: jm_ok_def drop_map [symmetric])
  then show ?thesis
    using assms js_map.touch(3) [OF assms(1), of sql s] by (simp add: CPut sc_put_def split_beta Let_def)
qed (use assms js_map.touch(3) [OF assms(1)] js_map.invar_del [OF assms(1)] in
      \<open>auto simp: sc_get_def sc_remove_def sc_clear_def jm_ok_def [of "[]"] split: option.split\<close>)

lemma run_recent:
  assumes "sc_keys (fst cw) = recent n h" and "jm_ok (sc_map (fst cw))" and "sc_capacity (fst cw) = int n" and "0 < n"
    and "list_all no_remove ops"
  shows "sc_keys (fst (cache_run ops cw)) = recent n (fold (spec_step n) ops h)"
  using assms
proof (induction ops arbitrary: cw h)
  case (Cons op ops)
  obtain c w where cw: "cw = (c, w)" by (cases cw)
  have "sc_keys (fst (cache_run ops (cache_step op cw))) = recent n (fold (spec_step n) ops (spec_step n op h))"
  proof (rule Cons.IH)
    show "sc_keys (fst (cache_step op cw)) = recent n (spec_step n op h)"
      using step_recent [of c n h op w] Cons.prems by (simp add: cw)
    show "jm_ok (sc_map (fst (cache_step op cw)))"
      using step_jm_ok [of c op w] Cons.prems by (simp add: cw)
  qed (use Cons.prems in simp_all)
  then show ?case by (simp add: cache_run_def)
qed (simp add: cache_run_def)

text \<open>
  A statement can come back after its handle was dropped: whoever still runs it when it
  is evicted puts it in the cache again at the end.
\<close>

lemma dropped_statement_returns:
  assumes "so_id x \<noteq> so_id y" and "a \<noteq> b"
  shows "\<exists>c w'. cache_run [CPut a x, CPut b y, CPut a x] (\<lparr>sc_map = [], sc_capacity = 1\<rparr>, w) = (c, w')
    \<and> fst (sc_get a c) = Some x \<and> w' = frees [so_handle x, so_handle y] w"
  using assms by (auto simp: cache_run_def sc_put_def sc_get_def jm_get_def jm_set_def jm_delete_def)

subsection \<open>Properties\<close>



text \<open>
  C10. The cache is least-recently-used: after any sequence of gets, puts and clears it
  holds exactly the last statements used, as many distinct ones as its capacity, in the
  order of their last use, where a get counts as a use exactly when it hits.
\<close>

theorem cache_is_lru:
  assumes "0 < n" and "list_all no_remove ops"
  shows "sc_keys (fst (cache_run ops (\<lparr>sc_map = [], sc_capacity = int n\<rparr>, w))) = recent n (fold (spec_step n) ops [])"
  using run_recent [of "(\<lparr>sc_map = [], sc_capacity = int n\<rparr>, w)" n "[]" ops] assms
  by (simp add: sc_keys_def jm_keys_def recent_def last_n_def jm_ok_def)

theorem cache_is_lru_witness:
  "\<forall>w x y z. sc_keys (fst (cache_run [CPut ''a'' x, CPut ''b'' y, CGet ''a'', CPut ''c'' z]
       (\<lparr>sc_map = [], sc_capacity = int 2\<rparr>, w)))
   = recent 2 (fold (spec_step 2) [CPut ''a'' x, CPut ''b'' y, CGet ''a'', CPut ''c'' z] [])"
  by (intro allI cache_is_lru) simp_all

end
