(* ===== verification/Blob.thy ===== *)
theory Blob
  imports Statement
begin

text \<open>
  \<open>protocol/blob.ts\<close>: opening, reading, creating and writing a blob, with the requests
  pipelined: many are sent before the first response is awaited, and every path, errors
  included, has to consume exactly one response per request. The reading of many blobs
  at once is in \<open>Blob_Pipeline\<close>.
\<close>

subsection \<open>Segments\<close>

fun segment_frames :: "bytes \<Rightarrow> bytes list" where
  "segment_frames (a # b # r) = (let n = nat (le_val [a, b]) in take n r # segment_frames (drop n r))"
| "segment_frames _ = []"

definition parse_segment_frames :: "bytes \<Rightarrow> bytes" where
  "parse_segment_frames raw = concat (segment_frames raw)"

definition enc_frame :: "bytes \<Rightarrow> bytes" where
  "enc_frame d = le_bytes 2 (int (length d)) @ d"

lemma segment_frames_enc:
  assumes "length d < 65536"
  shows "segment_frames (enc_frame d @ r) = d # segment_frames r"
proof -
  obtain a b where ab: "le_bytes 2 (int (length d)) = [a, b]" by (simp add: numeral_2_eq_2)
  have "le_val [a, b] = int (length d)"
    using assms unfolding ab [symmetric] by (simp add: le_val_le_bytes del: le_bytes.simps le_val.simps)
  then show ?thesis by (simp add: enc_frame_def ab Let_def del: le_bytes.simps le_val.simps)
qed

lemma parse_segment_frames_enc:
  "list_all (\<lambda>d. length d < 65536) ds \<Longrightarrow> parse_segment_frames (concat (map enc_frame ds)) = concat ds"
  by (induction ds) (simp_all add: parse_segment_frames_def segment_frames_enc)

subsection \<open>Single operations\<close>

definition ISC_INFO_BLOB_TOTAL_LENGTH :: int where
  "ISC_INFO_BLOB_TOTAL_LENGTH = 6"

definition open_message :: "int \<Rightarrow> bytes \<Rightarrow> bytes" where
  "open_message tx bid = enc_int32 op_open_blob @ enc_int32 tx @ bid"

definition open_blob :: "int \<Rightarrow> bytes \<Rightarrow> int rd" where
  "open_blob tx bid = rd_bind (request (open_message tx bid)) (\<lambda>r. rd_return (gr_handle r))"

definition segment_buffer :: "int \<Rightarrow> int" where
  "segment_buffer chunk = min (max chunk 1 + 2) MAX_SEGMENT_SIZE"

definition segment_message :: "int \<Rightarrow> int \<Rightarrow> bytes" where
  "segment_message h chunk = enc_int32 op_get_segment @ enc_int32 h @ enc_int32 (segment_buffer chunk) @ enc_int32 0"

definition segment_of :: "generic_response \<Rightarrow> bytes \<times> bool" where
  "segment_of r = (parse_segment_frames (gr_data r), gr_handle r = BLOB_SEGSTR_EOF_HANDLE)"

definition get_blob_segment :: "int \<Rightarrow> int \<Rightarrow> (bytes \<times> bool) rd" where
  "get_blob_segment h chunk = rd_bind (request (segment_message h chunk)) (\<lambda>r. rd_return (segment_of r))"

definition read_segment_response :: "(bytes \<times> bool) rd" where
  "read_segment_response = rd_bind read_response (\<lambda>r. rd_return (segment_of r))"

definition close_message :: "int \<Rightarrow> bytes" where
  "close_message h = enc_int32 op_close_blob @ enc_int32 h"

definition close_blob_deferred :: "int \<Rightarrow> wire \<Rightarrow> wire" where
  "close_blob_deferred h w = mark_deferred (put (close_message h) w)"

text \<open>The sum of \<open>info[3 + k] * 2 ** (8 * k)\<close>; past the end it is \<open>NaN\<close>, here \<open>None\<close>.\<close>

definition total_length_of :: "bytes \<Rightarrow> int option" where
  "total_length_of info =
     (if length info < 3 \<or> uint (info ! 0) \<noteq> ISC_INFO_BLOB_TOTAL_LENGTH then Some 0
      else let len = nat (le_val [info ! 1, info ! 2]) in
        if 3 + len \<le> length info then Some (le_val (take len (drop 3 info))) else None)"

definition blob_total_length :: "int \<Rightarrow> int option rd" where
  "blob_total_length h = rd_bind (request (enc_int32 op_info_blob @ enc_int32 h @ enc_int32 0
       @ enc_opaque [word_of_int ISC_INFO_BLOB_TOTAL_LENGTH] @ enc_int32 32))
     (\<lambda>r. rd_return (total_length_of (gr_data r)))"

subsection \<open>Reading\<close>

definition PIPELINE_DEPTH :: nat where
  "PIPELINE_DEPTH = 32"

text \<open>\<open>readResponse().catch(() => undefined)\<close>, for each response still in flight.\<close>

fun drain :: "nat \<Rightarrow> wire \<Rightarrow> wire" where
  "drain 0 w = w"
| "drain (Suc k) w = drain k (snd (read_response w))"

definition rd_finally :: "(wire \<Rightarrow> wire) \<Rightarrow> 'a rd \<Rightarrow> 'a rd" where
  "rd_finally f m = (\<lambda>w. case m w of (r, w') \<Rightarrow> (r, f w'))"

text \<open>
  The loop, with fuel as for \<open>fetch_loop\<close>: every turn awaits a response. The arguments
  are \<open>inFlight\<close>, \<open>eof\<close> and \<open>parts\<close>.
\<close>

fun read_blob_loop :: "nat \<Rightarrow> bytes \<Rightarrow> nat \<Rightarrow> bool \<Rightarrow> bytes list \<Rightarrow> bytes list rd" where
  "read_blob_loop 0 msg k eof parts = rd_fail ClosedErr"
| "read_blob_loop (Suc n) msg k eof parts =
     (if k = 0 then rd_return parts
      else rd_bind (rd_on_error (drain (k - 1)) read_segment_response) (\<lambda>(data, last).
        if eof then read_blob_loop n msg (k - 1) eof parts
        else let parts = (if data \<noteq> [] then parts @ [data] else parts) in
          if last then read_blob_loop n msg (k - 1) True parts
          else rd_bind (rd_do (send msg)) (\<lambda>_. read_blob_loop n msg k False parts)))"

definition read_blob :: "int \<Rightarrow> bytes \<Rightarrow> int \<Rightarrow> bytes rd" where
  "read_blob tx bid chunk =
     rd_bind (open_blob tx bid) (\<lambda>h.
       let msg = segment_message h chunk in
       rd_bind (rd_do (send (concat (replicate PIPELINE_DEPTH msg)))) (\<lambda>_.
       rd_bind (rd_finally (close_blob_deferred h)
           (\<lambda>w. read_blob_loop (length (w_in w) + 2) msg PIPELINE_DEPTH False [] w)) (\<lambda>parts.
       rd_return (concat parts))))"

text \<open>One window of an open blob; the loop counts \<open>remaining\<close> down.\<close>

fun read_window_loop :: "nat \<Rightarrow> bool \<Rightarrow> bytes list \<Rightarrow> (bytes list \<times> bool) rd" where
  "read_window_loop 0 eof chunks = rd_return (chunks, eof)"
| "read_window_loop (Suc k) eof chunks =
     rd_bind (rd_on_error (drain k) read_segment_response) (\<lambda>(data, last).
       if eof then read_window_loop k eof chunks
       else read_window_loop k last (if data \<noteq> [] then chunks @ [data] else chunks))"

definition read_blob_window :: "int \<Rightarrow> int \<Rightarrow> nat \<Rightarrow> (bytes list \<times> bool) rd" where
  "read_blob_window h chunk count =
     rd_bind (rd_do (send (concat (replicate count (segment_message h chunk))))) (\<lambda>_.
       read_window_loop count False [])"

subsection \<open>Writing\<close>

definition create_message :: "int \<Rightarrow> bytes" where
  "create_message tx = enc_int32 op_create_blob2 @ enc_uint32 0 @ enc_int32 tx @ enc_int32 0 @ enc_int32 0"

definition segment_size :: "int \<Rightarrow> nat" where
  "segment_size chunk = nat (min (max chunk 1) (MAX_SEGMENT_SIZE - 2))"

definition batch_message :: "int \<Rightarrow> bytes \<Rightarrow> bytes" where
  "batch_message h c = (let framed = enc_frame c in
     enc_int32 op_batch_segments @ enc_int32 h @ enc_int32 (int (length framed)) @ enc_opaque framed)"

text \<open>
  One segment: written, and when the window is full flushed, the oldest response awaited.
  The result is \<open>inFlight\<close>. An error consumes what is in flight.
\<close>

definition send_segment :: "int \<Rightarrow> bytes \<Rightarrow> nat \<Rightarrow> nat rd" where
  "send_segment h c k =
     rd_bind (rd_do (put (batch_message h c))) (\<lambda>_.
       if PIPELINE_DEPTH \<le> Suc k
       then rd_bind (rd_do flush) (\<lambda>_. rd_bind (rd_on_error (drain k) read_response) (\<lambda>_. rd_return k))
       else rd_return (Suc k))"

function write_loop :: "int \<Rightarrow> nat \<Rightarrow> bytes \<Rightarrow> nat \<Rightarrow> nat rd" where
  "write_loop h seg rest k = rd_bind (send_segment h (take seg rest) k) (\<lambda>k'.
     if seg = 0 \<or> drop seg rest = [] then rd_return k' else write_loop h seg (drop seg rest) k')"
  by pat_completeness auto
termination
  by (relation "measure (\<lambda>(h, seg, rest, k). length rest)") auto

declare write_loop.simps [simp del]

text \<open>The responses at the end: segments and the close.\<close>

fun await_all :: "nat \<Rightarrow> unit rd" where
  "await_all 0 = rd_return ()"
| "await_all (Suc k) = rd_bind (rd_on_error (drain k) read_response) (\<lambda>_. await_all k)"

definition close_blob_now :: "int \<Rightarrow> nat \<Rightarrow> unit rd" where
  "close_blob_now h k = rd_bind (rd_do (send (close_message h))) (\<lambda>_. await_all (Suc k))"

definition write_blob :: "int \<Rightarrow> bytes \<Rightarrow> int \<Rightarrow> bytes rd" where
  "write_blob tx data chunk =
     rd_bind (request (create_message tx)) (\<lambda>created.
     let h = gr_handle created in
     rd_bind (rd_on_error (close_blob_deferred h) (write_loop h (segment_size chunk) data 0)) (\<lambda>k.
     rd_bind (close_blob_now h k) (\<lambda>_. rd_return (gr_oid created))))"

text \<open>
  What a stream yields: Buffers, strings, something else, or an error it throws. The
  pending chunks only matter as the bytes they concatenate to.
\<close>

datatype source_item = SBuffer bytes | SString string | SOther | SThrow err

text \<open>\<open>while (pendingBytes >= segSize)\<close>: full segments are sent, the rest is kept.\<close>

function send_full :: "int \<Rightarrow> nat \<Rightarrow> bytes \<Rightarrow> nat \<Rightarrow> (bytes \<times> nat) rd" where
  "send_full h seg pending k =
     (if seg = 0 \<or> length pending < seg then rd_return (pending, k)
      else rd_bind (send_segment h (take seg pending) k) (send_full h seg (drop seg pending)))"
  by pat_completeness auto
termination
  by (relation "measure (\<lambda>(h, seg, pending, k). length pending)") auto

declare send_full.simps [simp del]

text \<open>A throw of the source: what was written is flushed, then every response in flight consumed.\<close>

definition source_failed :: "err \<Rightarrow> nat \<Rightarrow> 'a rd" where
  "source_failed e k = (\<lambda>w. (Inl e, drain k (flush w)))"

fun stream_loop ::
  "(string \<Rightarrow> bytes res) \<Rightarrow> int \<Rightarrow> nat \<Rightarrow> source_item list \<Rightarrow> bytes \<Rightarrow> nat \<Rightarrow> (bytes \<times> nat) rd" where
  "stream_loop enc h seg [] pending k = rd_return (pending, k)"
| "stream_loop enc h seg (s # ss) pending k =
     (case s of
        SBuffer b \<Rightarrow> rd_bind (send_full h seg (pending @ b) k) (\<lambda>(p, k'). stream_loop enc h seg ss p k')
      | SString t \<Rightarrow>
          (case enc t of
             Inl e \<Rightarrow> source_failed e k
           | Inr b \<Rightarrow> rd_bind (send_full h seg (pending @ b) k) (\<lambda>(p, k'). stream_loop enc h seg ss p k'))
      | SOther \<Rightarrow> source_failed (fb_error ''Streaming blob source must yield Buffers or strings'') k
      | SThrow e \<Rightarrow> source_failed e k)"

definition write_blob_stream :: "(string \<Rightarrow> bytes res) \<Rightarrow> int \<Rightarrow> source_item list \<Rightarrow> int \<Rightarrow> bytes rd" where
  "write_blob_stream enc tx source chunk =
     rd_bind (request (create_message tx)) (\<lambda>created.
     let h = gr_handle created; seg = segment_size chunk in
     rd_bind (rd_on_error (close_blob_deferred h)
         (rd_bind (stream_loop enc h seg source [] 0) (\<lambda>(pending, k).
            if pending \<noteq> [] then send_segment h pending k else rd_return k))) (\<lambda>k.
     rd_bind (close_blob_now h k) (\<lambda>_. rd_return (gr_oid created))))"

subsection \<open>A sequence of answers\<close>

text \<open>
  The server's side: one reply per request, each preceded by any keep-alives and inline
  blobs. \<open>progress b ns w w'\<close> says what an exchange leaves behind: the input where it
  was, the bytes \<open>b\<close> sent, nothing unflushed, no response missing or left over.
\<close>

type_synonym answer = "noise list \<times> response"

definition answer_ok :: "answer \<Rightarrow> bool" where
  "answer_ok a = (quiet (fst a) \<and> response_ok (snd a))"

definition enc_answers :: "answer list \<Rightarrow> bytes" where
  "enc_answers as = concat (map (\<lambda>(ns, r). reply ns r) as)"

definition answers_noise :: "answer list \<Rightarrow> noise list" where
  "answers_noise as = concat (map fst as)"

definition progress :: "bytes \<Rightarrow> noise list \<Rightarrow> wire \<Rightarrow> wire \<Rightarrow> bool" where
  "progress b ns w w' = (w_in w' = w_in w \<and> w_out w = [] \<and> w_out w' = [] \<and> concat (w_sent w') = concat (w_sent w) @ b
     \<and> w_deferred w = 0 \<and> w_deferred w' = 0 \<and> w_messages w' = w_messages w
     \<and> w_inlined w' = w_inlined w @ noise_inlined ns)"

lemma enc_answers_simps [simp]:
  "enc_answers [] = []" "enc_answers (a # as) = reply (fst a) (snd a) @ enc_answers as"
  "enc_answers (as @ bs) = enc_answers as @ enc_answers bs"
  by (simp_all add: enc_answers_def split_beta)

lemma answers_noise_simps [simp]:
  "answers_noise [] = []" "answers_noise (a # as) = fst a @ answers_noise as"
  "answers_noise (as @ bs) = answers_noise as @ answers_noise bs"
  by (simp_all add: answers_noise_def)

lemma length_enc_answers: "length as \<le> length (enc_answers as)"
  by (induction as) (auto simp: reply_def enc_response_def)

lemma progress_refl [simp]: "progress [] [] w w \<longleftrightarrow> w_out w = [] \<and> w_deferred w = 0"
  by (auto simp: progress_def)

lemma progress_trans: "progress b ns w w1 \<Longrightarrow> progress c ms w1 w2 \<Longrightarrow> progress (b @ c) (ns @ ms) w w2"
  by (auto simp: progress_def noise_inlined_append)

lemma progress_settled: "w_out w = [] \<Longrightarrow> w_deferred w = 0 \<Longrightarrow> progress [] ns w (settled ns w)"
  by (simp add: progress_def) (simp add: settled_def)

lemma progress_send: "w_out w = [] \<Longrightarrow> w_deferred w = 0 \<Longrightarrow> progress m [] w (send m w)"
  by (auto simp: progress_def) (auto simp: send_def flush_def put_def)

lemma progress_send_settled: "w_out w = [] \<Longrightarrow> w_deferred w = 0 \<Longrightarrow> progress m ns w (send m (settled ns w))"
  using progress_trans [OF progress_settled [of w ns] progress_send [of "settled ns w" m]] by simp

lemma read_answer:
  assumes "answer_ok a" and "w_deferred w = 0"
  shows "read_response (feed (reply (fst a) (snd a)) w) = (body_result (w_messages w) (snd a), settled (fst a) w)"
  using read_response_reply [of "fst a" w "snd a"] quiet_fits [of "fst a" w] assms by (simp add: answer_ok_def del: reply_feed)

lemma drain_answers:
  "list_all answer_ok as \<Longrightarrow> w_out w = [] \<Longrightarrow> w_deferred w = 0 \<Longrightarrow>
     drain (length as) (feed (enc_answers as) w) = settled (answers_noise as) w"
proof (induction as arbitrary: w)
  case Nil
  then show ?case by (simp add: settled_def)
next
  case (Cons a as)
  then show ?case
    using read_answer [of a "feed (enc_answers as) w"] Cons.IH [of "settled (fst a) w"]
    by (simp add: settled_feed del: reply_feed)
qed

text \<open>An error: what is in flight is consumed, and the stream is in step.\<close>

lemma on_error_drains:
  assumes "answer_ok a" and "list_all answer_ok as" and "w_out w = []" "w_deferred w = 0"
    and "body_result (w_messages w) (snd a) = Inl e"
  shows "rd_on_error (drain (length as)) read_response (feed (enc_answers (a # as)) w) = (Inl e, settled (answers_noise (a # as)) w)"
  using assms read_answer [of a "feed (enc_answers as) w"] drain_answers [of as "settled (fst a) w"]
  by (simp add: rd_on_error_def settled_feed del: reply_feed)

lemma on_error_reads:
  assumes "answer_ok a" and "w_deferred w = 0" and "body_result (w_messages w) (snd a) = Inr g"
  shows "rd_on_error f read_response (feed (enc_answers (a # as)) w) = (Inr g, feed (enc_answers as) (settled (fst a) w))"
  using assms read_answer [of a "feed (enc_answers as) w"]
  by (simp add: rd_on_error_def settled_feed del: reply_feed)

lemma on_error_bind:
  "rd_on_error f (rd_bind m (\<lambda>x. rd_return (g x))) = rd_bind (rd_on_error f m) (\<lambda>x. rd_return (g x))"
  by (auto simp: fun_eq_iff rd_on_error_def rd_bind_def split: prod.split sum.split)

lemma on_error_segment: "rd_on_error f read_segment_response = rd_bind (rd_on_error f read_response) (\<lambda>r. rd_return (segment_of r))"
  by (simp add: read_segment_response_def on_error_bind)

subsection \<open>Reading a whole blob\<close>

text \<open>The data of an answer, and whether it is one with more to come.\<close>

definition answer_data :: "answer \<Rightarrow> bytes" where
  "answer_data a = parse_segment_frames (r_data (snd a))"

definition good :: "(int \<Rightarrow> (string \<times> string option) option) \<Rightarrow> answer \<Rightarrow> bool" where
  "good m a = (answer_ok a \<and> fst (status_of m (r_status (snd a))) = None)"

lemma good_result: "good m a \<Longrightarrow> \<exists>ws. body_result m (snd a) = Inr \<lparr>gr_handle = r_handle (snd a), gr_oid = r_oid (snd a),
    gr_data = r_data (snd a), gr_warnings = ws\<rparr>"
  by (auto simp: good_def body_result_def split: prod.split)

lemma segment_turn:
  assumes "good (w_messages w) a" and "w_deferred w = 0"
  shows "rd_on_error f read_segment_response (feed (enc_answers (a # as)) w)
    = (Inr (answer_data a, r_handle (snd a) = BLOB_SEGSTR_EOF_HANDLE), feed (enc_answers as) (settled (fst a) w))"
proof -
  obtain ws where "body_result (w_messages w) (snd a) = Inr \<lparr>gr_handle = r_handle (snd a), gr_oid = r_oid (snd a),
      gr_data = r_data (snd a), gr_warnings = ws\<rparr>" using good_result [OF assms(1)] by blast
  then show ?thesis
    using on_error_reads [of a w _ f as] assms
    unfolding on_error_segment by (simp add: rd_bind_def good_def segment_of_def answer_data_def del: enc_answers_simps)
qed

lemma read_blob_loop_over:
  "list_all (good (w_messages w)) as \<Longrightarrow> w_out w = [] \<Longrightarrow> w_deferred w = 0 \<Longrightarrow> length as < n \<Longrightarrow>
     read_blob_loop n msg (length as) True parts (feed (enc_answers as) w) = (Inr parts, settled (answers_noise as) w)"
proof (induction as arbitrary: w n)
  case Nil
  then show ?case by (cases n) (simp_all add: settled_def)
next
  case (Cons a as)
  then obtain m where n: "n = Suc m" by (cases n) auto
  show ?case
    using Cons.prems Cons.IH [of "settled (fst a) w" m] segment_turn [of w a "drain (length as)" as]
    by (simp add: n rd_bind_def del: enc_answers_simps)
qed

lemma read_blob_loop_whole:
  assumes "list_all (good (w_messages w)) (ds @ a # as)" and "list_all (\<lambda>d. r_handle (snd d) \<noteq> 2) ds" and "r_handle (snd a) = 2"
    and "w_out w = []" "w_deferred w = 0" and "length ds + length as + 1 < n"
  shows "\<exists>w' ps. read_blob_loop n msg (Suc (length as)) False parts (feed (enc_answers (ds @ a # as)) w) = (Inr ps, w')
    \<and> concat ps = concat parts @ concat (map answer_data ds) @ answer_data a
    \<and> progress (concat (replicate (length ds) msg)) (answers_noise (ds @ a # as)) w w'"
  using assms
proof (induction ds arbitrary: w n parts)
  case Nil
  then obtain m where n: "n = Suc m" by (cases n) auto
  let ?ps = "if answer_data a \<noteq> [] then parts @ [answer_data a] else parts"
  have "read_blob_loop n msg (Suc (length as)) False parts (feed (enc_answers (a # as)) w)
      = read_blob_loop m msg (length as) True ?ps (feed (enc_answers as) (settled (fst a) w))"
    using Nil segment_turn [of w a "drain (length as)" as]
    by (simp add: n rd_bind_def BLOB_SEGSTR_EOF_HANDLE_def del: enc_answers_simps)
  also have "\<dots> = (Inr ?ps, settled (answers_noise (a # as)) w)"
    using Nil n read_blob_loop_over [of "settled (fst a) w" as m] by simp
  finally show ?case
    using Nil progress_settled [of w "answers_noise (a # as)"] by (intro exI [of _ "settled (answers_noise (a # as)) w"] exI [of _ ?ps]) auto
next
  case (Cons d ds)
  then obtain m where n: "n = Suc m" by (cases n) auto
  let ?ps = "if answer_data d \<noteq> [] then parts @ [answer_data d] else parts"
  let ?w = "send msg (settled (fst d) w)"
  have turn: "read_blob_loop n msg (Suc (length as)) False parts (feed (enc_answers (d # ds @ a # as)) w)
      = read_blob_loop m msg (Suc (length as)) False ?ps (feed (enc_answers (ds @ a # as)) ?w)"
    using Cons.prems segment_turn [of w d "drain (length as)" "ds @ a # as"]
    by (simp add: n rd_bind_def BLOB_SEGSTR_EOF_HANDLE_def del: enc_answers_simps)
  have p: "progress msg (fst d) w ?w" using Cons.prems by (intro progress_send_settled) simp_all
  obtain w' ps where ih: "read_blob_loop m msg (Suc (length as)) False ?ps (feed (enc_answers (ds @ a # as)) ?w) = (Inr ps, w')"
    "concat ps = concat ?ps @ concat (map answer_data ds) @ answer_data a"
    "progress (concat (replicate (length ds) msg)) (answers_noise (ds @ a # as)) ?w w'"
    using Cons.IH [of ?w m ?ps] Cons.prems n by auto
  show ?case
    using turn ih(1,2) progress_trans [OF p ih(3)] by (intro exI [of _ w'] exI [of _ ps]) auto
qed

lemma read_blob_loop_error:
  assumes "list_all (good (w_messages w)) ds" and "list_all (\<lambda>d. r_handle (snd d) \<noteq> 2) ds"
    and "answer_ok a" "body_result (w_messages w) (snd a) = Inl e" "list_all answer_ok as"
    and "w_out w = []" "w_deferred w = 0" and "length ds < n"
  shows "\<exists>w'. read_blob_loop n msg (Suc (length as)) False parts (feed (enc_answers (ds @ a # as)) w) = (Inl e, w')
    \<and> progress (concat (replicate (length ds) msg)) (answers_noise (ds @ a # as)) w w'"
  using assms
proof (induction ds arbitrary: w n parts)
  case Nil
  then obtain m where n: "n = Suc m" by (cases n) auto
  have "read_blob_loop n msg (Suc (length as)) False parts (feed (enc_answers (a # as)) w) = (Inl e, settled (answers_noise (a # as)) w)"
    using Nil on_error_drains [of a as w e]
    by (simp add: n rd_bind_def on_error_segment del: enc_answers_simps)
  then show ?case
    using Nil progress_settled [of w "answers_noise (a # as)"] by auto
next
  case (Cons d ds)
  then obtain m where n: "n = Suc m" by (cases n) auto
  let ?ps = "if answer_data d \<noteq> [] then parts @ [answer_data d] else parts"
  let ?w = "send msg (settled (fst d) w)"
  have turn: "read_blob_loop n msg (Suc (length as)) False parts (feed (enc_answers (d # ds @ a # as)) w)
      = read_blob_loop m msg (Suc (length as)) False ?ps (feed (enc_answers (ds @ a # as)) ?w)"
    using Cons.prems segment_turn [of w d "drain (length as)" "ds @ a # as"]
    by (simp add: n rd_bind_def BLOB_SEGSTR_EOF_HANDLE_def del: enc_answers_simps)
  have p: "progress msg (fst d) w ?w" using Cons.prems by (intro progress_send_settled) simp_all
  obtain w' where ih: "read_blob_loop m msg (Suc (length as)) False ?ps (feed (enc_answers (ds @ a # as)) ?w) = (Inl e, w')"
    "progress (concat (replicate (length ds) msg)) (answers_noise (ds @ a # as)) ?w w'"
    using Cons.IH [of ?w m ?ps] Cons.prems n by auto
  show ?case
    using turn ih(1) progress_trans [OF p ih(2)] by (intro exI [of _ w']) auto
qed

lemma sent_send: "concat (w_sent (send m w)) = concat (w_sent w) @ w_out w @ m"
  using flush_bytes [of "put m w"] by (simp add: send_def put_def)

text \<open>What follows the opening: both cases share it.\<close>

lemma read_blob_opened:
  assumes "noise_fits ns w" and "response_ok r" and "body_result (w_messages w) r = Inr g"
  shows "read_blob tx bid chunk (feed (reply ns r @ d) w)
    = rd_bind (rd_finally (close_blob_deferred (gr_handle g))
           (\<lambda>w. read_blob_loop (length (w_in w) + 2) (segment_message (gr_handle g) chunk) 32 False [] w)) (\<lambda>parts. rd_return (concat parts))
        (feed d (send (concat (replicate 32 (segment_message (gr_handle g) chunk))) (settled ns (send (open_message tx bid) w))))"
  using request_reply [of ns "feed d w" r "open_message tx bid"] assms
  by (simp add: read_blob_def open_blob_def rd_bind_def Let_def PIPELINE_DEPTH_def settled_feed del: reply_feed)

subsection \<open>Writing a whole blob\<close>

function pieces :: "nat \<Rightarrow> bytes \<Rightarrow> bytes list" where
  "pieces seg rest = take seg rest # (if seg = 0 \<or> drop seg rest = [] then [] else pieces seg (drop seg rest))"
  by pat_completeness auto
termination
  by (relation "measure (\<lambda>(seg, rest). length rest)") auto

declare pieces.simps [simp del]

fun send_pieces :: "int \<Rightarrow> bytes list \<Rightarrow> nat \<Rightarrow> nat rd" where
  "send_pieces h [] k = rd_return k"
| "send_pieces h (p # ps) k = rd_bind (send_segment h p k) (send_pieces h ps)"

lemma rd_bind_return [simp]: "rd_bind m rd_return = m"
  by (auto simp: fun_eq_iff rd_bind_def split: prod.split sum.split)

lemma write_loop_pieces: "write_loop h seg rest k = send_pieces h (pieces seg rest) k"
proof (induction h seg rest k rule: write_loop.induct)
  case (1 h seg rest k)
  have e: "send_pieces h [] = rd_return" by (simp add: fun_eq_iff)
  show ?case
    by (subst write_loop.simps, subst pieces.simps) (auto simp: 1 e fun_eq_iff intro!: rd_bind_cong)
qed

lemma concat_pieces: "0 < seg \<Longrightarrow> concat (pieces seg d) = d"
proof (induction seg d rule: pieces.induct)
  case (1 seg d)
  then show ?case by (subst pieces.simps) auto
qed

lemma pieces_short: "p \<in> set (pieces seg d) \<Longrightarrow> length p \<le> seg"
proof (induction seg d rule: pieces.induct)
  case (1 seg d)
  from 1(2) show ?case by (subst (asm) pieces.simps) (use 1(1) in \<open>auto split: if_splits\<close>)
qed

lemma segment_size_bounds: "0 < segment_size c \<and> segment_size c \<le> 65533"
  by (simp add: segment_size_def MAX_SEGMENT_SIZE_def less_max_iff_disj nat_le_iff min_le_iff_disj)

definition written :: "bytes \<Rightarrow> noise list \<Rightarrow> wire \<Rightarrow> wire \<Rightarrow> bool" where
  "written b ns w w' = (w_in w' = w_in w \<and> concat (w_sent w') @ w_out w' = concat (w_sent w) @ w_out w @ b
     \<and> w_deferred w = 0 \<and> w_deferred w' = 0 \<and> w_messages w' = w_messages w
     \<and> w_inlined w' = w_inlined w @ noise_inlined ns)"

lemma written_trans: "written b ns w w1 \<Longrightarrow> written c ms w1 w2 \<Longrightarrow> written (b @ c) (ns @ ms) w w2"
  by (auto simp: written_def noise_inlined_append)

lemma written_put: "w_deferred w = 0 \<Longrightarrow> written m [] w (put m w)"
  by (simp add: written_def)

lemma written_flush_settled: "w_deferred w = 0 \<Longrightarrow> written m ns w (settled ns (flush (put m w)))"
  using flush_bytes [of "put m w"] by (auto simp: written_def) (simp add: settled_def)

lemma flush_feed [simp]: "flush (feed d w) = feed d (flush w)"
  by (simp add: flush_def feed_def)

lemma good_reads:
  "good (w_messages w) a \<Longrightarrow> w_deferred w = 0 \<Longrightarrow>
    \<exists>g. rd_on_error f read_response (feed (enc_answers (a # as)) w) = (Inr g, feed (enc_answers as) (settled (fst a) w))"
  using good_result [of "w_messages w" a] on_error_reads [of a w _ f as] by (auto simp: good_def)

lemma send_pieces_good:
  assumes "k < 32" and "w_deferred w = 0" and "list_all (good (w_messages w)) as" and "length ps \<le> length as"
  shows "\<exists>k' as1 as2 w'. as = as1 @ as2 \<and> length as1 + k' = k + length ps \<and> k' < 32
    \<and> send_pieces h ps k (feed (enc_answers as) w) = (Inr k', feed (enc_answers as2) w')
    \<and> written (concat (map (batch_message h) ps)) (answers_noise as1) w w'"
  using assms
proof (induction ps arbitrary: k w as)
  case Nil
  then show ?case by (intro exI [of _ k] exI [of _ "[]"] exI [of _ as] exI [of _ w]) (simp add: written_def)
next
  case (Cons p ps)
  let ?m = "batch_message h p"
  obtain a bs where as: "as = a # bs" using Cons.prems(4) by (cases as) auto
  show ?case
  proof (cases "Suc k < 32")
    case True
    then have step: "send_segment h p k (feed (enc_answers as) w) = (Inr (Suc k), feed (enc_answers as) (put ?m w))"
      by (simp add: send_segment_def rd_bind_def PIPELINE_DEPTH_def)
    obtain k' as1 as2 w' where ih: "as = as1 @ as2" "length as1 + k' = Suc k + length ps" "k' < 32"
      "send_pieces h ps (Suc k) (feed (enc_answers as) (put ?m w)) = (Inr k', feed (enc_answers as2) w')"
      "written (concat (map (batch_message h) ps)) (answers_noise as1) (put ?m w) w'"
      using Cons.IH [of "Suc k" "put ?m w" as] Cons.prems True by auto
    then show ?thesis
      using step written_trans [OF written_put ih(5)] Cons.prems(2)
      by (intro exI [of _ k'] exI [of _ as1] exI [of _ as2] exI [of _ w']) (simp add: rd_bind_def)
  next
    case False
    let ?w = "settled (fst a) (flush (put ?m w))"
    obtain g where "rd_on_error (drain k) read_response (feed (enc_answers (a # bs)) (flush (put ?m w))) = (Inr g, feed (enc_answers bs) ?w)"
      using good_reads [of "flush (put ?m w)" a "drain k" bs] Cons.prems(2,3) as by auto
    then have step: "send_segment h p k (feed (enc_answers as) w) = (Inr k, feed (enc_answers bs) ?w)"
      using False by (simp add: send_segment_def rd_bind_def PIPELINE_DEPTH_def as del: enc_answers_simps)
    obtain k' as1 as2 w' where ih: "bs = as1 @ as2" "length as1 + k' = k + length ps" "k' < 32"
      "send_pieces h ps k (feed (enc_answers bs) ?w) = (Inr k', feed (enc_answers as2) w')"
      "written (concat (map (batch_message h) ps)) (answers_noise as1) ?w w'"
      using Cons.IH [of k ?w bs] Cons.prems as by auto
    then show ?thesis
      using step written_trans [OF written_flush_settled ih(5)] Cons.prems(2) as
      by (intro exI [of _ k'] exI [of _ "a # as1"] exI [of _ as2] exI [of _ w']) (simp add: rd_bind_def)
  qed
qed

lemma await_all_good:
  "list_all (good (w_messages w)) as \<Longrightarrow> w_deferred w = 0 \<Longrightarrow>
     await_all (length as) (feed (enc_answers as) w) = (Inr (), settled (answers_noise as) w)"
proof (induction as arbitrary: w)
  case Nil
  then show ?case by (simp add: settled_def)
next
  case (Cons a as)
  obtain g where "rd_on_error (drain (length as)) read_response (feed (enc_answers (a # as)) w) = (Inr g, feed (enc_answers as) (settled (fst a) w))"
    using good_reads [of w a "drain (length as)" as] Cons.prems by auto
  with Cons.IH [of "settled (fst a) w"] Cons.prems show ?case
    by (simp add: rd_bind_def del: enc_answers_simps(2))
qed

subsection \<open>Streaming\<close>

text \<open>What streaming sends: full segments, then the remainder if there is one.\<close>

function chop :: "nat \<Rightarrow> bytes \<Rightarrow> bytes list" where
  "chop seg d = (if seg = 0 \<or> length d < seg then (if d = [] then [] else [d]) else take seg d # chop seg (drop seg d))"
  by pat_completeness auto
termination
  by (relation "measure (\<lambda>(seg, d). length d)") auto

declare chop.simps [simp del]

lemma chop_pieces: "0 < seg \<Longrightarrow> d \<noteq> [] \<Longrightarrow> chop seg d = pieces seg d"
proof (induction seg d rule: pieces.induct)
  case (1 seg d)
  show ?case
  proof (cases "length d < seg")
    case True
    with 1 show ?thesis by (subst chop.simps, subst pieces.simps) simp
  next
    case False
    show ?thesis
    proof (cases "drop seg d = []")
      case True
      with 1 False show ?thesis by (subst chop.simps, subst pieces.simps) (simp add: chop.simps [of seg "[]"])
    next
      case nonempty: False
      with 1 False show ?thesis by (subst chop.simps, subst pieces.simps) simp
    qed
  qed
qed

lemma send_full_chop:
  assumes "0 < seg"
  shows "rd_bind (send_full h seg p k) (\<lambda>(q, k'). send_pieces h (chop seg (q @ ys)) k') = send_pieces h (chop seg (p @ ys)) k"
  using assms
proof (induction h seg p k rule: send_full.induct)
  case (1 h seg p k)
  show ?case
  proof (cases "length p < seg")
    case True
    then show ?thesis by (subst send_full.simps) (simp add: fun_eq_iff rd_bind_def)
  next
    case False
    have ih: "rd_bind (send_full h seg (drop seg p) k') (\<lambda>(q, k'). send_pieces h (chop seg (q @ ys)) k')
        = send_pieces h (chop seg (drop seg p @ ys)) k'" for k'
      using 1 False by simp
    have "send_pieces h (chop seg (p @ ys)) k
        = rd_bind (send_segment h (take seg p) k) (\<lambda>k'. send_pieces h (chop seg (drop seg p @ ys)) k')"
      using 1(2) False by (subst chop.simps) simp
    then show ?thesis
      using 1(2) False by (subst send_full.simps) (simp add: rd_bind_assoc ih)
  qed
qed

lemma send_full_short: "0 < seg \<Longrightarrow> send_full h seg p k w = (Inr (q, k'), w') \<Longrightarrow> length q < seg"
proof (induction h seg p k arbitrary: w rule: send_full.induct)
  case (1 h seg p k)
  show ?case
    using 1(3) by (subst (asm) send_full.simps) (use 1(1,2) in \<open>auto simp: rd_bind_def split: if_splits prod.splits sum.splits\<close>)
qed

lemma stream_chop:
  assumes "0 < seg" and "length pending < seg"
  shows "rd_bind (stream_loop enc h seg (map SBuffer bs) pending k)
      (\<lambda>(p, k'). if p \<noteq> [] then send_segment h p k' else rd_return k')
    = send_pieces h (chop seg (pending @ concat bs)) k"
  using assms(2)
proof (induction bs arbitrary: pending k)
  case Nil
  with assms(1) show ?case
    by (subst chop.simps) (simp add: fun_eq_iff rd_bind_def rd_return_def split: prod.split sum.split)
next
  case (Cons b bs)
  have "rd_bind (stream_loop enc h seg (map SBuffer (b # bs)) pending k)
      (\<lambda>(p, k'). if p \<noteq> [] then send_segment h p k' else rd_return k')
    = rd_bind (send_full h seg (pending @ b) k) (\<lambda>(q, k'). send_pieces h (chop seg (q @ concat bs)) k')"
  proof -
    have "rd_bind (send_full h seg (pending @ b) k) (\<lambda>x. rd_bind (case x of (q, k') \<Rightarrow> stream_loop enc h seg (map SBuffer bs) q k')
        (\<lambda>(p, k'). if p \<noteq> [] then send_segment h p k' else rd_return k')) w
      = rd_bind (send_full h seg (pending @ b) k) (\<lambda>(q, k'). send_pieces h (chop seg (q @ concat bs)) k') w" for w
    proof (rule rd_bind_cong)
      fix x w'
      assume x: "send_full h seg (pending @ b) k w = (Inr x, w')"
      obtain q k' where q: "x = (q, k')" by (cases x)
      have "length q < seg" using send_full_short [OF assms(1)] x q by blast
      from Cons.IH [OF this, of k'] show "rd_bind (case x of (q, k') \<Rightarrow> stream_loop enc h seg (map SBuffer bs) q k')
          (\<lambda>(p, k'). if p \<noteq> [] then send_segment h p k' else rd_return k') w'
        = (case x of (q, k') \<Rightarrow> send_pieces h (chop seg (q @ concat bs)) k') w'"
        by (simp only: q prod.case)
    qed
    then show ?thesis by (simp add: fun_eq_iff rd_bind_assoc)
  qed
  then show ?case using send_full_chop [OF assms(1), of h "pending @ b" k "concat bs"] by simp
qed

subsection \<open>Properties\<close>

lemma blob_requests: "concat (replicate 32 m) @ concat (replicate n m) = concat (replicate (n + 32) m)"
  by (simp only: add.commute [of n 32] replicate_add concat_append)

text \<open>
  Reading a blob is exact and keeps the stream in step. However many segments it has,
  the result is their data in order; the over-reads past its end change nothing; every
  request sent has had its one response read, and the close is queued with its response
  noted as pending.
\<close>

theorem read_blob_whole:
  assumes "noise_fits ns w" and "response_ok r" and "body_result (w_messages w) r = Inr g"
    and "list_all (good (w_messages w)) (ds @ a # as)" and "list_all (\<lambda>d. r_handle (snd d) \<noteq> 2) ds"
    and "r_handle (snd a) = 2" and "length as = 31"
  shows "\<exists>w'. read_blob tx bid chunk (feed (reply ns r @ enc_answers (ds @ a # as)) w)
      = (Inr (concat (map answer_data (ds @ [a]))), w')
    \<and> w_in w' = w_in w \<and> w_deferred w' = 1 \<and> w_out w' = close_message (gr_handle g)
    \<and> concat (w_sent w') = concat (w_sent w) @ w_out w @ open_message tx bid
        @ concat (replicate (length ds + 32) (segment_message (gr_handle g) chunk))"
proof -
  let ?m = "segment_message (gr_handle g) chunk" and ?as = "ds @ a # as"
  let ?w = "send (concat (replicate 32 ?m)) (settled ns (send (open_message tx bid) w))"
  have n: "length ds + length as + 1 < length (w_in (feed (enc_answers ?as) ?w)) + 2"
    using length_enc_answers [of ?as] by (simp add: reply_def)
  obtain v ps where l: "read_blob_loop (length (w_in (feed (enc_answers ?as) ?w)) + 2) ?m (Suc (length as)) False []
        (feed (enc_answers ?as) ?w) = (Inr ps, v)"
    "concat ps = concat (map answer_data (ds @ [a]))" "progress (concat (replicate (length ds) ?m)) (answers_noise ?as) ?w v"
    using read_blob_loop_whole [of ?w ds a as _ ?m "[]", OF _ assms(5,6) _ _ n] assms(4) by auto
  have "read_blob tx bid chunk (feed (reply ns r @ enc_answers ?as) w)
      = (Inr (concat (map answer_data (ds @ [a]))), close_blob_deferred (gr_handle g) v)"
    using l(1,2) assms(7) unfolding read_blob_opened [OF assms(1-3)] by (simp add: rd_bind_def rd_finally_def del: enc_answers_simps read_blob_loop.simps)
  then show ?thesis
    using l(3) by (intro exI [of _ "close_blob_deferred (gr_handle g) v"])
      (auto simp: progress_def close_blob_deferred_def mark_deferred_def sent_send blob_requests [symmetric])
qed

theorem read_blob_whole_witness:
  "\<exists>w'. read_blob 3 (replicate 8 1) 100
      (feed (reply [] \<lparr>r_handle = 9, r_oid = replicate 8 0, r_data = [], r_status = []\<rparr>
        @ enc_answers ([([], \<lparr>r_handle = 1, r_oid = replicate 8 0, r_data = [2, 0, 5, 6], r_status = []\<rparr>)]
          @ ([], \<lparr>r_handle = 2, r_oid = replicate 8 0, r_data = [1, 0, 7], r_status = []\<rparr>)
          # replicate 31 ([], \<lparr>r_handle = 2, r_oid = replicate 8 0, r_data = [], r_status = []\<rparr>)))
        \<lparr>w_in = [], w_out = [], w_sent = [], w_flush_count = 0, w_deferred = 0, w_version = 13,
         w_inline_size = 0, w_inlined = [], w_messages = (\<lambda>_. None)\<rparr>)
    = (Inr (concat (map answer_data ([([], \<lparr>r_handle = 1, r_oid = replicate 8 0, r_data = [2, 0, 5, 6], r_status = []\<rparr>)]
          @ [([], \<lparr>r_handle = 2, r_oid = replicate 8 0, r_data = [1, 0, 7], r_status = []\<rparr>)]))), w')
    \<and> w_in w' = w_in \<lparr>w_in = [], w_out = [], w_sent = [], w_flush_count = 0, w_deferred = 0, w_version = 13,
         w_inline_size = 0, w_inlined = [], w_messages = (\<lambda>_. None)\<rparr>
    \<and> w_deferred w' = 1 \<and> w_out w' = close_message (gr_handle \<lparr>gr_handle = 9, gr_oid = replicate 8 0, gr_data = [], gr_warnings = []\<rparr>)
    \<and> concat (w_sent w') = concat (w_sent \<lparr>w_in = [], w_out = [], w_sent = [], w_flush_count = 0, w_deferred = 0, w_version = 13,
         w_inline_size = 0, w_inlined = [], w_messages = (\<lambda>_. None)\<rparr>)
        @ w_out \<lparr>w_in = [], w_out = [], w_sent = [], w_flush_count = 0, w_deferred = 0, w_version = 13,
         w_inline_size = 0, w_inlined = [], w_messages = (\<lambda>_. None)\<rparr> @ open_message 3 (replicate 8 1)
        @ concat (replicate (length [([], \<lparr>r_handle = 1, r_oid = replicate 8 0, r_data = [2, 0, 5, 6], r_status = []\<rparr>) :: answer] + 32)
            (segment_message (gr_handle \<lparr>gr_handle = 9, gr_oid = replicate 8 0, gr_data = [], gr_warnings = []\<rparr>) 100))"
  by (rule read_blob_whole)
     (simp_all add: noise_fits_def response_ok_def body_result_def status_of_def sv_result_def sv_init_def good_def
        answer_ok_def quiet_def list_all_iff)

text \<open>
  An error in the middle of a pipelined read leaves the connection usable: the error
  is the one the server sent, and still every request sent has had its one response
  read, whatever the rest of them said.
\<close>

theorem read_blob_error_in_sync:
  assumes "noise_fits ns w" and "response_ok r" and "body_result (w_messages w) r = Inr g"
    and "list_all (good (w_messages w)) ds" and "list_all (\<lambda>d. r_handle (snd d) \<noteq> 2) ds"
    and "answer_ok a" and "body_result (w_messages w) (snd a) = Inl e" and "list_all answer_ok as" and "length as = 31"
  shows "\<exists>w'. read_blob tx bid chunk (feed (reply ns r @ enc_answers (ds @ a # as)) w) = (Inl e, w')
    \<and> w_in w' = w_in w \<and> w_deferred w' = 1 \<and> w_out w' = close_message (gr_handle g)
    \<and> concat (w_sent w') = concat (w_sent w) @ w_out w @ open_message tx bid
        @ concat (replicate (length ds + 32) (segment_message (gr_handle g) chunk))"
proof -
  let ?m = "segment_message (gr_handle g) chunk" and ?as = "ds @ a # as"
  let ?w = "send (concat (replicate 32 ?m)) (settled ns (send (open_message tx bid) w))"
  have n: "length ds < length (w_in (feed (enc_answers ?as) ?w)) + 2"
    using length_enc_answers [of ?as] by (simp add: reply_def)
  obtain v where l: "read_blob_loop (length (w_in (feed (enc_answers ?as) ?w)) + 2) ?m (Suc (length as)) False []
        (feed (enc_answers ?as) ?w) = (Inl e, v)" "progress (concat (replicate (length ds) ?m)) (answers_noise ?as) ?w v"
    using read_blob_loop_error [of ?w ds a e as _ ?m "[]", OF _ assms(5,6) _ assms(8) _ _ n] assms(4,7) by auto
  have "read_blob tx bid chunk (feed (reply ns r @ enc_answers ?as) w) = (Inl e, close_blob_deferred (gr_handle g) v)"
    using l(1) assms(9) unfolding read_blob_opened [OF assms(1-3)] by (simp add: rd_bind_def rd_finally_def del: enc_answers_simps read_blob_loop.simps)
  then show ?thesis
    using l(2) by (intro exI [of _ "close_blob_deferred (gr_handle g) v"])
      (auto simp: progress_def close_blob_deferred_def mark_deferred_def sent_send blob_requests [symmetric])
qed

theorem read_blob_error_in_sync_witness:
  "\<exists>w'. read_blob 3 (replicate 8 1) 100
      (feed (reply [] \<lparr>r_handle = 9, r_oid = replicate 8 0, r_data = [], r_status = []\<rparr>
        @ enc_answers ([] @ ([], \<lparr>r_handle = 0, r_oid = replicate 8 0, r_data = [], r_status = [WGds 7, WInterpreted ''x'']\<rparr>)
          # replicate 31 ([], \<lparr>r_handle = 0, r_oid = replicate 8 0, r_data = [], r_status = [WGds 7]\<rparr>)))
        \<lparr>w_in = [], w_out = [], w_sent = [], w_flush_count = 0, w_deferred = 0, w_version = 13,
         w_inline_size = 0, w_inlined = [], w_messages = (\<lambda>_. None)\<rparr>)
    = (Inl (FbError FirebirdError ''x'' (Some 7) None [ArgGds 7, ArgInterpreted ''x'']), w')
    \<and> w_in w' = w_in \<lparr>w_in = [], w_out = [], w_sent = [], w_flush_count = 0, w_deferred = 0, w_version = 13,
         w_inline_size = 0, w_inlined = [], w_messages = (\<lambda>_. None)\<rparr>
    \<and> w_deferred w' = 1 \<and> w_out w' = close_message (gr_handle \<lparr>gr_handle = 9, gr_oid = replicate 8 0, gr_data = [], gr_warnings = []\<rparr>)
    \<and> concat (w_sent w') = concat (w_sent \<lparr>w_in = [], w_out = [], w_sent = [], w_flush_count = 0, w_deferred = 0, w_version = 13,
         w_inline_size = 0, w_inlined = [], w_messages = (\<lambda>_. None)\<rparr>)
        @ w_out \<lparr>w_in = [], w_out = [], w_sent = [], w_flush_count = 0, w_deferred = 0, w_version = 13,
         w_inline_size = 0, w_inlined = [], w_messages = (\<lambda>_. None)\<rparr> @ open_message 3 (replicate 8 1)
        @ concat (replicate (length ([] :: answer list) + 32)
            (segment_message (gr_handle \<lparr>gr_handle = 9, gr_oid = replicate 8 0, gr_data = [], gr_warnings = []\<rparr>) 100))"
  by (rule read_blob_error_in_sync)
     (simp_all add: noise_fits_def response_ok_def body_result_def status_of_def sv_result_def sv_init_def sv_gds_def
        sv_interpreted_def on_current_def format_gds_message_def answer_ok_def quiet_def list_all_iff)

text \<open>
  C12. Writing a blob sends its bytes whole: the segments that leave are, in order, pieces
  of the value that concatenate to it, none longer than the segment size, each framed so
  that a reader of frames gets it back, between the create and the close; the blob id is
  the server's, and every response is consumed.
\<close>

theorem write_blob_sends_all:
  assumes "noise_fits ns w" and "response_ok r" and "body_result (w_messages w) r = Inr g"
    and "list_all (good (w_messages w)) as" and "length as = length (pieces (segment_size chunk) data) + 1"
  shows "\<exists>w' ps. write_blob tx data chunk (feed (reply ns r @ enc_answers as) w) = (Inr (gr_oid g), w')
    \<and> concat ps = data \<and> (\<forall>p \<in> set ps. length p \<le> segment_size chunk \<and> segment_frames (enc_frame p) = [p])
    \<and> w_in w' = w_in w \<and> w_deferred w' = 0 \<and> w_out w' = []
    \<and> concat (w_sent w') = concat (w_sent w) @ w_out w @ create_message tx
        @ concat (map (batch_message (gr_handle g)) ps) @ close_message (gr_handle g)"
proof -
  let ?h = "gr_handle g" and ?ps = "pieces (segment_size chunk) data"
  let ?w = "settled ns (send (create_message tx) w)"
  obtain k as1 as2 v where s: "as = as1 @ as2" "length as1 + k = length ?ps" "k < 32"
    "write_loop ?h (segment_size chunk) data 0 (feed (enc_answers as) ?w) = (Inr k, feed (enc_answers as2) v)"
    "written (concat (map (batch_message ?h) ?ps)) (answers_noise as1) ?w v"
    using send_pieces_good [of 0 ?w as ?ps ?h] assms(4,5) by (auto simp: write_loop_pieces)
  have "length as2 = Suc k" using s(1,2) assms(5) by simp
  moreover have "list_all (good (w_messages (send (close_message ?h) v))) as2"
    using s(1,5) assms(4) by (simp add: written_def)
  ultimately have c: "close_blob_now ?h k (feed (enc_answers as2) v) = (Inr (), settled (answers_noise as2) (send (close_message ?h) v))"
    using await_all_good [of "send (close_message ?h) v" as2] s(5) by (simp add: close_blob_now_def rd_bind_def written_def)
  have "write_blob tx data chunk (feed (reply ns r @ enc_answers as) w) = (Inr (gr_oid g), settled (answers_noise as2) (send (close_message ?h) v))"
    using request_reply [of ns "feed (enc_answers as) w" r "create_message tx"] assms(1-3) s(4) c
    by (simp add: write_blob_def rd_bind_def Let_def rd_on_error_def settled_feed del: reply_feed)
  moreover have "concat ?ps = data" "\<forall>p \<in> set ?ps. length p \<le> segment_size chunk \<and> segment_frames (enc_frame p) = [p]"
    using segment_size_bounds [of chunk] concat_pieces [of "segment_size chunk" data] pieces_short [of _ "segment_size chunk" data]
      segment_frames_enc [of _ "[]"] by fastforce+
  ultimately show ?thesis
    using s(5) by (intro exI [of _ "settled (answers_noise as2) (send (close_message ?h) v)"] exI [of _ ?ps])
      (auto simp: written_def sent_send)
qed

theorem write_blob_sends_all_witness:
  "\<exists>w' ps. write_blob 3 [1, 2, 3] 2
      (feed (reply [] \<lparr>r_handle = 9, r_oid = replicate 8 4, r_data = [], r_status = []\<rparr>
        @ enc_answers (replicate 3 ([], \<lparr>r_handle = 0, r_oid = replicate 8 0, r_data = [], r_status = []\<rparr>)))
        \<lparr>w_in = [], w_out = [], w_sent = [], w_flush_count = 0, w_deferred = 0, w_version = 13,
         w_inline_size = 0, w_inlined = [], w_messages = (\<lambda>_. None)\<rparr>)
    = (Inr (gr_oid \<lparr>gr_handle = 9, gr_oid = replicate 8 4, gr_data = [], gr_warnings = []\<rparr>), w')
    \<and> concat ps = [1, 2, 3] \<and> (\<forall>p \<in> set ps. length p \<le> segment_size 2 \<and> segment_frames (enc_frame p) = [p])
    \<and> w_in w' = w_in \<lparr>w_in = [], w_out = [], w_sent = [], w_flush_count = 0, w_deferred = 0, w_version = 13,
         w_inline_size = 0, w_inlined = [], w_messages = (\<lambda>_. None)\<rparr> \<and> w_deferred w' = 0 \<and> w_out w' = []
    \<and> concat (w_sent w') = concat (w_sent \<lparr>w_in = [], w_out = [], w_sent = [], w_flush_count = 0, w_deferred = 0, w_version = 13,
         w_inline_size = 0, w_inlined = [], w_messages = (\<lambda>_. None)\<rparr>)
        @ w_out \<lparr>w_in = [], w_out = [], w_sent = [], w_flush_count = 0, w_deferred = 0, w_version = 13,
         w_inline_size = 0, w_inlined = [], w_messages = (\<lambda>_. None)\<rparr> @ create_message 3
        @ concat (map (batch_message (gr_handle \<lparr>gr_handle = 9, gr_oid = replicate 8 4, gr_data = [], gr_warnings = []\<rparr>)) ps)
        @ close_message (gr_handle \<lparr>gr_handle = 9, gr_oid = replicate 8 4, gr_data = [], gr_warnings = []\<rparr>)"
proof (rule write_blob_sends_all)
  have s: "segment_size 2 = 2" by (simp add: segment_size_def MAX_SEGMENT_SIZE_def)
  show "length (replicate 3 ([], \<lparr>r_handle = 0, r_oid = replicate 8 0, r_data = [], r_status = []\<rparr>) :: answer list)
      = length (pieces (segment_size 2) [1, 2, 3]) + 1"
    unfolding s by (subst pieces.simps, simp, subst pieces.simps, simp)
qed (simp_all add: noise_fits_def response_ok_def body_result_def status_of_def sv_result_def sv_init_def good_def
        answer_ok_def quiet_def list_all_iff)

text \<open>
  Streaming a value is the same as writing it whole: for every way of cutting a
  nonempty value into chunks, the streaming writer sends the same bytes in the same
  packets, awaits the same responses and has the same result and the same errors as
  the writer of the concatenated value.
\<close>

theorem streaming_is_writing:
  assumes "concat bs \<noteq> []"
  shows "write_blob_stream enc tx (map SBuffer bs) chunk = write_blob tx (concat bs) chunk"
proof -
  have s: "0 < segment_size chunk" using segment_size_bounds by blast
  have "rd_bind (stream_loop enc h (segment_size chunk) (map SBuffer bs) [] 0)
      (\<lambda>(p, k'). if p \<noteq> [] then send_segment h p k' else rd_return k') = write_loop h (segment_size chunk) (concat bs) 0" for h
    using stream_chop [OF s, of "[]" enc h bs 0] s chop_pieces [OF s assms] by (simp add: write_loop_pieces)
  then show ?thesis
    by (simp add: write_blob_stream_def write_blob_def Let_def)
qed

theorem streaming_is_writing_witness:
  "write_blob_stream (\<lambda>s. Inr (str_bytes s)) 3 (map SBuffer [[1], [], [2, 3]]) 2 = write_blob 3 (concat [[1], [], [2, 3]]) 2"
  by (rule streaming_is_writing) simp

end
