(* ===== verification/Inline_Cache.thy ===== *)
theory Inline_Cache
  imports Blob Js_Map
begin

text \<open>
  \<open>api/inline-cache.ts\<close>: the store of the blobs a server sends along with rows. Entries
  belong to a transaction and are given out once; the bytes held are counted.
\<close>

definition hex_digit :: "int \<Rightarrow> char" where
  "hex_digit d = char_of (nat (if d < 10 then 48 + d else 87 + d))"

definition hex_str :: "bytes \<Rightarrow> string" where
  "hex_str bs = concat (map (\<lambda>b. [hex_digit (uint b div 16), hex_digit (uint b mod 16)]) bs)"

record inline_cache =
  ic_by_tx :: "(int, (string, bytes) js_map) js_map"
  ic_used :: int
  ic_capacity :: int

definition ic_new :: "int \<Rightarrow> inline_cache" where
  "ic_new capacity = \<lparr>ic_by_tx = [], ic_used = 0, ic_capacity = capacity\<rparr>"

definition ic_store :: "int \<Rightarrow> bytes \<Rightarrow> bytes \<Rightarrow> inline_cache \<Rightarrow> inline_cache" where
  "ic_store tx bid data c =
     (if ic_capacity c < ic_used c + int (length data) then c
      else
        let key = hex_str bid;
            m = (case jm_get (ic_by_tx c) tx of Some m \<Rightarrow> m | None \<Rightarrow> []);
            used = (case jm_get m key of Some prev \<Rightarrow> ic_used c - int (length prev) | None \<Rightarrow> ic_used c)
        in c\<lparr>ic_by_tx := jm_set (ic_by_tx c) tx (jm_set m key data), ic_used := used + int (length data)\<rparr>)"

definition ic_take :: "int \<Rightarrow> string \<Rightarrow> inline_cache \<Rightarrow> bytes option \<times> inline_cache" where
  "ic_take tx key c =
     (case jm_get (ic_by_tx c) tx of
        None \<Rightarrow> (None, c)
      | Some m \<Rightarrow>
          (case jm_get m key of
             None \<Rightarrow> (None, c)
           | Some framed \<Rightarrow> (Some (parse_segment_frames framed),
               c\<lparr>ic_by_tx := jm_set (ic_by_tx c) tx (jm_delete m key), ic_used := ic_used c - int (length framed)\<rparr>)))"

definition ic_clear_tx :: "int \<Rightarrow> inline_cache \<Rightarrow> inline_cache" where
  "ic_clear_tx tx c =
     (case jm_get (ic_by_tx c) tx of
        None \<Rightarrow> c
      | Some m \<Rightarrow> c\<lparr>ic_by_tx := jm_delete (ic_by_tx c) tx,
          ic_used := fold (\<lambda>(k, d) n. n - int (length d)) m (ic_used c)\<rparr>)"

definition ic_clear :: "inline_cache \<Rightarrow> inline_cache" where
  "ic_clear c = c\<lparr>ic_by_tx := [], ic_used := 0\<rparr>"

subsection \<open>The account of bytes\<close>

definition bytes_of :: "(string, bytes) js_map \<Rightarrow> int" where
  "bytes_of m = (\<Sum>k \<in> set (jm_keys m). int (length (the (jm_get m k))))"

definition bytes_held :: "inline_cache \<Rightarrow> int" where
  "bytes_held c = (\<Sum>t \<in> set (jm_keys (ic_by_tx c)). bytes_of (the (jm_get (ic_by_tx c) t)))"

definition ic_ok :: "inline_cache \<Rightarrow> bool" where
  "ic_ok c = (jm_ok (ic_by_tx c) \<and> (\<forall>t m. jm_get (ic_by_tx c) t = Some m \<longrightarrow> jm_ok m)
     \<and> ic_used c = bytes_held c \<and> ic_used c \<le> ic_capacity c)"

lemma bytes_of_set:
  "jm_ok m \<Longrightarrow> bytes_of (jm_set m k d) = bytes_of m - (case jm_get m k of None \<Rightarrow> 0 | Some u \<Rightarrow> int (length u)) + int (length d)"
  unfolding bytes_of_def by (rule js_map.total_put)

lemma bytes_of_delete:
  "jm_ok m \<Longrightarrow> bytes_of (jm_delete m k) = bytes_of m - (case jm_get m k of None \<Rightarrow> 0 | Some u \<Rightarrow> int (length u))"
  unfolding bytes_of_def by (rule js_map.total_del)

lemma bytes_of_nonneg: "0 \<le> bytes_of m"
  unfolding bytes_of_def by (rule sum_nonneg) simp

lemma held_nonneg: "0 \<le> bytes_held c"
  unfolding bytes_held_def by (rule sum_nonneg) (simp add: bytes_of_nonneg)

lemma held_set:
  "jm_ok (ic_by_tx c) \<Longrightarrow> bytes_held (c\<lparr>ic_by_tx := jm_set (ic_by_tx c) t m, ic_used := u\<rparr>)
     = bytes_held c - (case jm_get (ic_by_tx c) t of None \<Rightarrow> 0 | Some m' \<Rightarrow> bytes_of m') + bytes_of m"
  using js_map.total_put [where f = bytes_of and m = "ic_by_tx c" and k = t and v = m] by (simp add: bytes_held_def)

lemma held_delete:
  "jm_ok (ic_by_tx c) \<Longrightarrow> bytes_held (c\<lparr>ic_by_tx := jm_delete (ic_by_tx c) t, ic_used := u\<rparr>)
     = bytes_held c - (case jm_get (ic_by_tx c) t of None \<Rightarrow> 0 | Some m' \<Rightarrow> bytes_of m')"
  using js_map.total_del [where f = bytes_of and m = "ic_by_tx c" and k = t] by (simp add: bytes_held_def)

text \<open>The loop of \<open>clearTx\<close> over the values subtracts their total.\<close>

lemma bytes_of_list: "jm_ok m \<Longrightarrow> bytes_of m = (\<Sum>(k, d) \<leftarrow> m. int (length d))"
proof (induction m)
  case (Cons kd m)
  obtain k d where kd: "kd = (k, d)" by (cases kd)
  have "k \<notin> fst ` set m" using Cons.prems by (simp add: jm_ok_def kd)
  then have "(\<Sum>x \<in> fst ` set m. int (length (the (if x = k then Some d else map_of m x)))) = bytes_of m"
    unfolding bytes_of_def by (intro sum.cong) (auto simp: jm_keys_def jm_get_def)
  with Cons \<open>k \<notin> fst ` set m\<close> show ?case
    by (simp add: jm_ok_def kd bytes_of_def jm_keys_def jm_get_def)
qed (simp add: bytes_of_def jm_keys_def)

lemma fold_subtract: "fold (\<lambda>(k, d) n. n - int (length d)) m u = u - (\<Sum>(k, d) \<leftarrow> m. int (length d))"
  by (induction m arbitrary: u) (auto simp: split_beta)

lemma inner_ok_set:
  assumes "ic_ok c" and "jm_ok m"
  shows "\<forall>t' m'. jm_get (jm_set (ic_by_tx c) t m) t' = Some m' \<longrightarrow> jm_ok m'"
  using assms js_map.get_put [of "ic_by_tx c" t m] by (auto simp: ic_ok_def split: if_splits)

lemma store_ok:
  assumes "ic_ok c"
  shows "ic_ok (ic_store tx bid data c)"
proof (cases "ic_capacity c < ic_used c + int (length data)")
  case True
  with assms show ?thesis by (simp add: ic_store_def)
next
  case False
  define m where "m = (case jm_get (ic_by_tx c) tx of Some m \<Rightarrow> m | None \<Rightarrow> [])"
  let ?m = "jm_set m (hex_str bid) data"
  let ?old = "case jm_get m (hex_str bid) of None \<Rightarrow> 0 | Some u \<Rightarrow> int (length u)"
  have okm: "jm_ok m"
    using assms by (auto simp: m_def ic_ok_def jm_ok_def [of "[]"] split: option.split)
  have ok: "jm_ok (ic_by_tx c)" using assms by (simp add: ic_ok_def)
  have used: "(case jm_get m (hex_str bid) of None \<Rightarrow> ic_used c | Some prev \<Rightarrow> ic_used c - int (length prev)) = ic_used c - ?old"
    by (simp split: option.split)
  have prior: "(case jm_get (ic_by_tx c) tx of None \<Rightarrow> 0 | Some m' \<Rightarrow> bytes_of m') = bytes_of m"
    by (simp add: m_def bytes_of_def jm_keys_def split: option.split)
  have st: "ic_store tx bid data c = c\<lparr>ic_by_tx := jm_set (ic_by_tx c) tx ?m, ic_used := ic_used c - ?old + int (length data)\<rparr>"
    using False by (simp add: ic_store_def Let_def m_def [symmetric] used)
  have "bytes_held (ic_store tx bid data c) = ic_used c - ?old + int (length data)"
    using assms unfolding st by (simp add: held_set [OF ok] prior bytes_of_set [OF okm] ic_ok_def)
  moreover have "0 \<le> ?old" by (simp split: option.split)
  ultimately show ?thesis
    using False js_map.invar_put [OF ok, of tx ?m] inner_ok_set [OF assms js_map.invar_put [OF okm]]
    unfolding ic_ok_def by (simp add: st)
qed

lemma take_ok:
  assumes "ic_ok c"
  shows "ic_ok (snd (ic_take tx key c))"
proof (cases "jm_get (ic_by_tx c) tx")
  case None
  with assms show ?thesis by (simp add: ic_take_def)
next
  case (Some m)
  note m = Some
  show ?thesis
  proof (cases "jm_get m key")
    case None
    with assms m show ?thesis by (simp add: ic_take_def)
  next
    case (Some d)
    have okm: "jm_ok m" and ok: "jm_ok (ic_by_tx c)" using assms m by (simp_all add: ic_ok_def)
    have st: "snd (ic_take tx key c) = c\<lparr>ic_by_tx := jm_set (ic_by_tx c) tx (jm_delete m key), ic_used := ic_used c - int (length d)\<rparr>"
      by (simp add: ic_take_def m Some)
    have "bytes_held (snd (ic_take tx key c)) = ic_used c - int (length d)"
      using assms unfolding st by (simp add: held_set [OF ok] m bytes_of_delete [OF okm] Some ic_ok_def)
    then show ?thesis
      using assms js_map.invar_put [OF ok, of tx "jm_delete m key"] inner_ok_set [OF assms js_map.invar_del [OF okm]]
      unfolding ic_ok_def [of "snd (ic_take tx key c)"] by (simp add: st ic_ok_def)
  qed
qed

lemma clear_tx_ok:
  assumes "ic_ok c"
  shows "ic_ok (ic_clear_tx tx c)"
proof (cases "jm_get (ic_by_tx c) tx")
  case None
  with assms show ?thesis by (simp add: ic_clear_tx_def)
next
  case (Some m)
  have okm: "jm_ok m" and ok: "jm_ok (ic_by_tx c)" using assms Some by (simp_all add: ic_ok_def)
  have st: "ic_clear_tx tx c = c\<lparr>ic_by_tx := jm_delete (ic_by_tx c) tx, ic_used := ic_used c - bytes_of m\<rparr>"
    by (simp add: ic_clear_tx_def Some fold_subtract bytes_of_list [OF okm])
  have "bytes_held (ic_clear_tx tx c) = ic_used c - bytes_of m"
    using assms unfolding st by (simp add: held_delete [OF ok] Some ic_ok_def)
  moreover have "\<forall>t m'. jm_get (jm_delete (ic_by_tx c) tx) t = Some m' \<longrightarrow> jm_ok m'"
    using assms js_map.get_del [OF ok, of tx] by (auto simp: ic_ok_def split: if_splits)
  ultimately show ?thesis
    using assms js_map.invar_del [OF ok, of tx] bytes_of_nonneg [of m] unfolding ic_ok_def [of "ic_clear_tx tx c"]
    by (simp add: st ic_ok_def)
qed

datatype inline_op = IStore int bytes bytes | ITake int string | IClearTx int | IClear

fun inline_step :: "inline_op \<Rightarrow> inline_cache \<Rightarrow> inline_cache" where
  "inline_step (IStore tx bid d) c = ic_store tx bid d c"
| "inline_step (ITake tx key) c = snd (ic_take tx key c)"
| "inline_step (IClearTx tx) c = ic_clear_tx tx c"
| "inline_step IClear c = ic_clear c"

lemma capacity_kept: "ic_capacity (inline_step op c) = ic_capacity c"
  by (cases op) (auto simp: ic_store_def ic_take_def ic_clear_tx_def ic_clear_def Let_def split: option.split)

lemma inline_step_ok: "ic_ok c \<Longrightarrow> 0 \<le> ic_capacity c \<Longrightarrow> ic_ok (inline_step op c)"
  by (cases op) (simp_all add: store_ok take_ok clear_tx_ok,
      simp add: ic_clear_def ic_ok_def jm_ok_def jm_get_def bytes_held_def jm_keys_def)

text \<open>A stored blob is given out once, without its framing.\<close>

lemma take_after_store:
  assumes "ic_ok c" and "ic_used c + int (length data) \<le> ic_capacity c"
  shows "fst (ic_take tx (hex_str bid) (ic_store tx bid data c)) = Some (parse_segment_frames data)"
    and "fst (ic_take tx (hex_str bid) (snd (ic_take tx (hex_str bid) (ic_store tx bid data c)))) = None"
proof -
  define m where "m = (case jm_get (ic_by_tx c) tx of Some m \<Rightarrow> m | None \<Rightarrow> [])"
  let ?m = "jm_set m (hex_str bid) data"
  have okm: "jm_ok m" and ok: "jm_ok (ic_by_tx c)"
    using assms(1) by (auto simp: m_def ic_ok_def jm_ok_def [of "[]"] split: option.split)
  have st: "ic_by_tx (ic_store tx bid data c) = jm_set (ic_by_tx c) tx ?m"
    using assms(2) by (simp add: ic_store_def Let_def m_def [symmetric])
  have g: "jm_get (ic_by_tx (ic_store tx bid data c)) tx = Some ?m" "jm_get ?m (hex_str bid) = Some data"
    using js_map.get_put [OF ok, of tx ?m] js_map.get_put [OF okm, of "hex_str bid" data] by (simp_all add: st)
  have t: "ic_take tx (hex_str bid) (ic_store tx bid data c) = (Some (parse_segment_frames data),
      (ic_store tx bid data c)\<lparr>ic_by_tx := jm_set (ic_by_tx (ic_store tx bid data c)) tx (jm_delete ?m (hex_str bid)),
        ic_used := ic_used (ic_store tx bid data c) - int (length data)\<rparr>)"
    by (simp add: ic_take_def g)
  then show "fst (ic_take tx (hex_str bid) (ic_store tx bid data c)) = Some (parse_segment_frames data)" by simp
  have "jm_ok (ic_by_tx (ic_store tx bid data c))" "jm_ok ?m"
    using store_ok [OF assms(1)] js_map.invar_put [OF okm] by (simp_all add: ic_ok_def)
  then show "fst (ic_take tx (hex_str bid) (snd (ic_take tx (hex_str bid) (ic_store tx bid data c)))) = None"
    unfolding t using js_map.get_put [of "ic_by_tx (ic_store tx bid data c)" tx] js_map.get_del [of ?m "hex_str bid"]
    by (simp add: ic_take_def [of tx "hex_str bid" "_\<lparr>ic_by_tx := _, ic_used := _\<rparr>"])
qed

subsection \<open>Properties\<close>

text \<open>
  C13. The count of the inline blob cache is always right: after any sequence of arrivals,
  claims and ends of transactions, \<open>usedBytes\<close> is the number of bytes held, never
  negative and never above the capacity.
\<close>

theorem inline_cache_counts:
  assumes "0 \<le> capacity"
  shows "let c = fold inline_step ops (ic_new capacity) in
    ic_used c = bytes_held c \<and> 0 \<le> ic_used c \<and> ic_used c \<le> capacity"
proof -
  have run: "ic_ok (fold inline_step ops c) \<and> ic_capacity (fold inline_step ops c) = ic_capacity c"
    if "ic_ok c" "0 \<le> ic_capacity c" for c
    using that by (induction ops arbitrary: c) (simp_all add: inline_step_ok capacity_kept)
  have "ic_ok (ic_new capacity)"
    using assms by (simp add: ic_new_def ic_ok_def jm_ok_def jm_get_def bytes_held_def jm_keys_def)
  from run [OF this] have "ic_ok (fold inline_step ops (ic_new capacity))"
    "ic_capacity (fold inline_step ops (ic_new capacity)) = capacity" using assms by (simp_all add: ic_new_def)
  then show ?thesis
    using held_nonneg [of "fold inline_step ops (ic_new capacity)"] by (simp add: Let_def ic_ok_def)
qed

theorem inline_cache_counts_witness:
  "let c = fold inline_step [IStore 1 [1] [2, 0, 7, 7], IStore 1 [1] [1, 0, 7], ITake 1 ''01''] (ic_new 100) in
    ic_used c = bytes_held c \<and> 0 \<le> ic_used c \<and> ic_used c \<le> 100"
  by (rule inline_cache_counts) simp

end
