(* ===== verification/Transitions.thy ===== *)
theory Transitions
  imports Prelude
begin

text \<open>
  Reachable states of a step relation, and the interface of an inductive invariant: what
  holds at the start and is kept by every step holds in every reachable state.
\<close>

inductive reach :: "('s \<Rightarrow> bool) \<Rightarrow> ('s \<Rightarrow> 's \<Rightarrow> bool) \<Rightarrow> 's \<Rightarrow> bool" for init step where
  reach_init: "init s \<Longrightarrow> reach init step s"
| reach_step: "reach init step s \<Longrightarrow> step s t \<Longrightarrow> reach init step t"

locale inductive_invariant =
  fixes init :: "'s \<Rightarrow> bool" and step :: "'s \<Rightarrow> 's \<Rightarrow> bool" and inv :: "'s \<Rightarrow> bool"
  assumes initially: "init s \<Longrightarrow> inv s"
    and kept: "inv s \<Longrightarrow> step s t \<Longrightarrow> inv t"
begin

lemma holds: "reach init step s \<Longrightarrow> inv s"
  by (induction rule: reach.induct) (auto intro: initially kept)

lemma strengthen:
  assumes "\<And>s. inv s \<Longrightarrow> P s" and "reach init step s"
  shows "P s"
  using assms holds by blast

end

end
