(* ===== verification/Pool.thy ===== *)
theory Pool
  imports Transitions Errors "HOL-Library.Multiset"
begin

text \<open>
  \<open>pool/pool.ts\<close>: the connection pool. The code between two awaits is one atomic
  function; a step relation interleaves these pieces with the answers of the server (a
  ping, a new connection), the callers that release, the timers and the close. A
  connection is a number, new ones are fresh; whether it is alive is the environment's.
\<close>

subsection \<open>The pool\<close>

record pool =
  p_idle :: "(nat \<times> int) list"
  p_in_use :: "nat list"
  p_waiters :: "nat list"
  p_creates :: nat
  p_closed :: bool
  p_sweeping :: bool
  p_min :: nat
  p_max :: nat
  p_idle_timeout :: int
  p_validate :: bool
  p_dropped :: "nat list"

text \<open>The constructor, with the defaults of the options; \<open>p_dropped\<close> logs the disconnects.\<close>

definition pool_new :: "int option \<Rightarrow> int option \<Rightarrow> int option \<Rightarrow> bool option \<Rightarrow> pool" where
  "pool_new mn mx idle_timeout validate =
     \<lparr>p_idle = [], p_in_use = [], p_waiters = [], p_creates = 0, p_closed = False, p_sweeping = False,
      p_min = nat (max 0 (case mn of None \<Rightarrow> 0 | Some v \<Rightarrow> v)),
      p_max = nat (max 1 (case mx of None \<Rightarrow> 10 | Some v \<Rightarrow> v)),
      p_idle_timeout = (case idle_timeout of None \<Rightarrow> 60000 | Some v \<Rightarrow> v),
      p_validate = (case validate of None \<Rightarrow> True | Some v \<Rightarrow> v), p_dropped = []\<rparr>"

definition pool_size :: "pool \<Rightarrow> nat" where
  "pool_size p = length (p_idle p) + length (p_in_use p) + p_creates p"

definition pool_stats :: "pool \<Rightarrow> nat \<times> nat \<times> nat \<times> nat" where
  "pool_stats p = (length (p_idle p) + length (p_in_use p), length (p_idle p), length (p_in_use p), length (p_waiters p))"

definition use_conn :: "nat \<Rightarrow> pool \<Rightarrow> pool" where
  "use_conn c p = (if c \<in> set (p_in_use p) then p else p\<lparr>p_in_use := p_in_use p @ [c]\<rparr>)"

definition unuse :: "nat \<Rightarrow> pool \<Rightarrow> pool" where
  "unuse c p = p\<lparr>p_in_use := removeAll c (p_in_use p)\<rparr>"

definition disconnect :: "nat \<Rightarrow> pool \<Rightarrow> pool" where
  "disconnect c p = p\<lparr>p_dropped := p_dropped p @ [c]\<rparr>"

definition ensure_sweep :: "pool \<Rightarrow> pool" where
  "ensure_sweep p = (if p_sweeping p \<or> p_idle_timeout p \<le> 0 then p else p\<lparr>p_sweeping := True\<rparr>)"

text \<open>The loop of \<open>sweepIdle\<close>, from the last entry to the first.\<close>

fun sweep_loop :: "nat \<Rightarrow> (nat \<Rightarrow> bool) \<Rightarrow> int \<Rightarrow> pool \<Rightarrow> pool" where
  "sweep_loop 0 alive now p = p"
| "sweep_loop (Suc i) alive now p =
     (if length (p_idle p) + length (p_in_use p) \<le> p_min p then p
      else case at (p_idle p) i of
        None \<Rightarrow> sweep_loop i alive now p
      | Some (c, since) \<Rightarrow>
          if p_idle_timeout p \<le> now - since \<or> \<not> alive c
          then sweep_loop i alive now (disconnect c (p\<lparr>p_idle := take i (p_idle p) @ drop (Suc i) (p_idle p)\<rparr>))
          else sweep_loop i alive now p)"

definition sweep_idle :: "(nat \<Rightarrow> bool) \<Rightarrow> int \<Rightarrow> pool \<Rightarrow> pool" where
  "sweep_idle alive now p =
     (let p = sweep_loop (length (p_idle p)) alive now p
      in if p_idle p = [] \<and> p_in_use p = [] \<and> p_sweeping p then p\<lparr>p_sweeping := False\<rparr> else p)"

text \<open>
  Where \<open>acquire\<close> goes: a connection is returned at once, or after a ping; a new one is
  being created; or the caller waits, or is refused.
\<close>

datatype acquired = Lend nat | Ping nat | Create | Wait | Refused

definition take_new :: "nat \<Rightarrow> pool \<Rightarrow> acquired \<times> pool" where
  "take_new w p = (if pool_size p < p_max p then (Create, p\<lparr>p_creates := Suc (p_creates p)\<rparr>)
     else (Wait, p\<lparr>p_waiters := p_waiters p @ [w]\<rparr>))"

text \<open>The loop that pops idle connections, the latest first.\<close>

function take_idle :: "(nat \<Rightarrow> bool) \<Rightarrow> nat \<Rightarrow> pool \<Rightarrow> acquired \<times> pool" where
  "take_idle alive w p =
     (if p_idle p = [] then take_new w p
      else let c = fst (last (p_idle p)); p = use_conn c (p\<lparr>p_idle := butlast (p_idle p)\<rparr>)
        in if \<not> alive c then take_idle alive w (disconnect c (unuse c p))
           else if p_validate p then (Ping c, p) else (Lend c, p))"
  by pat_completeness auto
termination
  by (relation "measure (\<lambda>(alive, w, p). length (p_idle p))") (auto simp: use_conn_def disconnect_def unuse_def)

declare take_idle.simps [simp del]

definition acquire :: "(nat \<Rightarrow> bool) \<Rightarrow> nat \<Rightarrow> pool \<Rightarrow> acquired \<times> pool" where
  "acquire alive w p = (if p_closed p then (Refused, p) else take_idle alive w (ensure_sweep p))"

text \<open>After the await of the ping: the connection is lent, or dropped and the loop goes on.\<close>

definition ping_failed :: "(nat \<Rightarrow> bool) \<Rightarrow> nat \<Rightarrow> nat \<Rightarrow> pool \<Rightarrow> acquired \<times> pool" where
  "ping_failed alive w c p = take_idle alive w (disconnect c (unuse c p))"

definition created :: "nat \<Rightarrow> pool \<Rightarrow> pool" where
  "created c p = (use_conn c p)\<lparr>p_creates := p_creates p - 1\<rparr>"

definition create_failed :: "pool \<Rightarrow> pool" where
  "create_failed p = p\<lparr>p_creates := p_creates p - 1\<rparr>"

definition timed_out :: "nat \<Rightarrow> pool \<Rightarrow> pool" where
  "timed_out w p = p\<lparr>p_waiters := remove1 w (p_waiters p)\<rparr>"

text \<open>The result says which waiter, if any, was given the connection.\<close>

definition release :: "(nat \<Rightarrow> bool) \<Rightarrow> int \<Rightarrow> nat \<Rightarrow> pool \<Rightarrow> nat option \<times> pool" where
  "release alive now c p =
     (if c \<notin> set (p_in_use p) then (None, p)
      else let p = unuse c p in
        if p_closed p \<or> \<not> alive c then (None, disconnect c p)
        else case p_waiters p of
          w # ws \<Rightarrow> (Some w, use_conn c (p\<lparr>p_waiters := ws\<rparr>))
        | [] \<Rightarrow> (None, p\<lparr>p_idle := p_idle p @ [(c, now)]\<rparr>))"

text \<open>Warming up starts as many creations as are missing; each ends in the idle list.\<close>

definition warmup :: "pool \<Rightarrow> nat \<times> pool" where
  "warmup p = (let need = p_min p - pool_size p in (need, p\<lparr>p_creates := p_creates p + need\<rparr>))"

definition warmed :: "nat \<Rightarrow> int \<Rightarrow> pool \<Rightarrow> pool" where
  "warmed c now p = p\<lparr>p_idle := p_idle p @ [(c, now)], p_creates := p_creates p - 1\<rparr>"

definition close_pool :: "pool \<Rightarrow> pool" where
  "close_pool p = p\<lparr>p_closed := True, p_sweeping := False, p_waiters := [], p_idle := [], p_in_use := [],
     p_dropped := p_dropped p @ map fst (p_idle p) @ p_in_use p\<rparr>"

subsection \<open>The pool among its callers\<close>

text \<open>
  \<open>w_lent\<close> are the connections callers hold, \<open>w_pinging\<close> those an acquire awaits a ping
  of, with the waiter number it would take, \<open>w_creating\<close> and \<open>w_warming\<close> count the creations
  awaited by acquires and by \<open>warmup\<close>, and \<open>w_seen\<close> is every connection so far.
\<close>

record pool_world =
  w_pool :: pool
  w_lent :: "nat list"
  w_pinging :: "nat list"
  w_creating :: nat
  w_warming :: nat
  w_seen :: "nat set"

fun continue_acquire :: "acquired \<Rightarrow> pool_world \<Rightarrow> pool_world" where
  "continue_acquire (Lend c) s = s\<lparr>w_lent := w_lent s @ [c]\<rparr>"
| "continue_acquire (Ping c) s = s\<lparr>w_pinging := w_pinging s @ [c]\<rparr>"
| "continue_acquire Create s = s\<lparr>w_creating := Suc (w_creating s)\<rparr>"
| "continue_acquire Wait s = s"
| "continue_acquire Refused s = s"

definition acquiring :: "acquired \<times> pool \<Rightarrow> pool_world \<Rightarrow> pool_world" where
  "acquiring ap s = continue_acquire (fst ap) (s\<lparr>w_pool := snd ap\<rparr>)"

inductive pool_step :: "pool_world \<Rightarrow> pool_world \<Rightarrow> bool" where
  step_acquire: "pool_step s (acquiring (acquire alive w (w_pool s)) s)"
| step_pinged: "c \<in> set (w_pinging s) \<Longrightarrow>
     pool_step s (s\<lparr>w_pinging := remove1 c (w_pinging s), w_lent := w_lent s @ [c]\<rparr>)"
| step_ping_failed: "c \<in> set (w_pinging s) \<Longrightarrow>
     pool_step s (acquiring (ping_failed alive w c (w_pool s)) (s\<lparr>w_pinging := remove1 c (w_pinging s)\<rparr>))"
| step_created: "0 < w_creating s \<Longrightarrow> c \<notin> w_seen s \<Longrightarrow>
     pool_step s (s\<lparr>w_pool := created c (w_pool s), w_creating := w_creating s - 1,
       w_lent := w_lent s @ [c], w_seen := insert c (w_seen s)\<rparr>)"
| step_create_failed: "0 < w_creating s \<Longrightarrow>
     pool_step s (s\<lparr>w_pool := create_failed (w_pool s), w_creating := w_creating s - 1\<rparr>)"
| step_warmup: "pool_step s (s\<lparr>w_pool := snd (warmup (w_pool s)), w_warming := w_warming s + fst (warmup (w_pool s))\<rparr>)"
| step_warmup_done: "pool_step s (s\<lparr>w_pool := ensure_sweep (w_pool s)\<rparr>)"
| step_warmed: "0 < w_warming s \<Longrightarrow> c \<notin> w_seen s \<Longrightarrow>
     pool_step s (s\<lparr>w_pool := warmed c now (w_pool s), w_warming := w_warming s - 1, w_seen := insert c (w_seen s)\<rparr>)"
| step_warm_failed: "0 < w_warming s \<Longrightarrow>
     pool_step s (s\<lparr>w_pool := create_failed (w_pool s), w_warming := w_warming s - 1\<rparr>)"
| step_release: "c \<in> set (w_lent s) \<Longrightarrow> release alive now c (w_pool s) = (to, p) \<Longrightarrow>
     pool_step s (s\<lparr>w_pool := p, w_lent := remove1 c (w_lent s) @ (if to = None then [] else [c])\<rparr>)"
| step_timeout: "pool_step s (s\<lparr>w_pool := timed_out w (w_pool s)\<rparr>)"
| step_sweep: "p_sweeping (w_pool s) \<Longrightarrow> pool_step s (s\<lparr>w_pool := sweep_idle alive now (w_pool s)\<rparr>)"
| step_close: "pool_step s (s\<lparr>w_pool := close_pool (w_pool s)\<rparr>)"

definition pool_start :: "nat \<Rightarrow> nat \<Rightarrow> pool_world \<Rightarrow> bool" where
  "pool_start mn mx s = (\<exists>timeout validate. s = \<lparr>w_pool = pool_new (Some (int mn)) (Some (int mx)) timeout validate,
     w_lent = [], w_pinging = [], w_creating = 0, w_warming = 0, w_seen = {}\<rparr>)"

subsection \<open>The invariant\<close>

text \<open>
  Every connection is in one place: idle, lent, or being pinged; those in use are the
  lent and the pinged ones (all of them until the pool is closed); the counter of
  creations is the number awaited; and the size keeps to the limits.
\<close>

definition conns :: "pool_world \<Rightarrow> nat list" where
  "conns s = map fst (p_idle (w_pool s)) @ w_lent s @ w_pinging s"

definition pool_inv :: "nat \<Rightarrow> pool_world \<Rightarrow> bool" where
  "pool_inv limit s = (let p = w_pool s in
     distinct (conns s) \<and> set (conns s) \<subseteq> w_seen s
     \<and> distinct (p_in_use p) \<and> set (p_in_use p) \<subseteq> set (w_lent s) \<union> set (w_pinging s)
     \<and> (\<not> p_closed p \<longrightarrow> set (w_lent s) \<union> set (w_pinging s) \<subseteq> set (p_in_use p))
     \<and> p_creates p = w_creating s + w_warming s
     \<and> pool_size p \<le> limit \<and> max (p_max p) (p_min p) = limit)"

lemma pool_size_le: "pool_inv L s \<Longrightarrow> p_idle p = p_idle (w_pool s) \<Longrightarrow> p_in_use p = p_in_use (w_pool s) \<Longrightarrow>
    p_creates p \<le> p_creates (w_pool s) \<Longrightarrow> pool_size p \<le> L"
  by (simp add: pool_inv_def Let_def pool_size_def)

lemma take_new_inv: "pool_inv L s \<Longrightarrow> pool_inv L (acquiring (take_new w (w_pool s)) s)"
  by (auto simp: acquiring_def take_new_def pool_inv_def Let_def conns_def pool_size_def)

text \<open>Taking the last idle connection out, for the three ways it can go.\<close>

lemma idle_last:
  assumes "pool_inv L s" and "p_idle (w_pool s) \<noteq> []" and "c = fst (last (p_idle (w_pool s)))"
  shows "c \<notin> set (p_in_use (w_pool s))" and "map fst (p_idle (w_pool s)) = map fst (butlast (p_idle (w_pool s))) @ [c]"
proof -
  show m: "map fst (p_idle (w_pool s)) = map fst (butlast (p_idle (w_pool s))) @ [c]"
    using assms(2,3) by (metis append_butlast_last_id list.simps(8,9) map_append)
  show "c \<notin> set (p_in_use (w_pool s))"
    using assms(1) unfolding pool_inv_def Let_def conns_def m by auto
qed

lemma idle_lent_inv:
  assumes "pool_inv L s" and "p_idle (w_pool s) \<noteq> []" and "c = fst (last (p_idle (w_pool s)))"
    and "p = use_conn c ((w_pool s)\<lparr>p_idle := butlast (p_idle (w_pool s))\<rparr>)"
  shows "pool_inv L (s\<lparr>w_pool := p, w_lent := w_lent s @ [c]\<rparr>)" and "pool_inv L (s\<lparr>w_pool := p, w_pinging := w_pinging s @ [c]\<rparr>)"
    and "pool_inv L (s\<lparr>w_pool := disconnect c (unuse c p)\<rparr>)"
proof -
  note c = idle_last [OF assms(1-3)]
  have len: "length (p_idle (w_pool s)) = Suc (length (butlast (p_idle (w_pool s))))" using assms(2) by simp
  note d = pool_inv_def Let_def conns_def pool_size_def use_conn_def c(1) len
  show "pool_inv L (s\<lparr>w_pool := p, w_lent := w_lent s @ [c]\<rparr>)"
    using assms(1) unfolding assms(4) by (auto simp: d c(2) simp del: length_butlast)
  show "pool_inv L (s\<lparr>w_pool := p, w_pinging := w_pinging s @ [c]\<rparr>)"
    using assms(1) unfolding assms(4) by (auto simp: d c(2) simp del: length_butlast)
  show "pool_inv L (s\<lparr>w_pool := disconnect c (unuse c p)\<rparr>)"
    using assms(1) unfolding assms(4) by (auto simp: d c(2) disconnect_def unuse_def simp del: length_butlast)
qed

lemma acquiring_again [simp]: "acquiring ap (s\<lparr>w_pool := p\<rparr>) = acquiring ap s"
  by (cases ap; cases "fst ap") (simp_all add: acquiring_def)

lemma acquiring_again_pinging [simp]:
    "acquiring ap (s\<lparr>w_pool := p, w_pinging := l\<rparr>) = acquiring ap (s\<lparr>w_pinging := l\<rparr>)"
  by (cases ap; cases "fst ap") (simp_all add: acquiring_def)

lemma take_idle_inv: "pool_inv L s \<Longrightarrow> w_pool s = q \<Longrightarrow> pool_inv L (acquiring (take_idle alive w q) s)"
proof (induction alive w q arbitrary: s rule: take_idle.induct)
  case (1 alive w q)
  note inv = 1(2)
  show ?case
  proof (cases "p_idle q = []")
    case True
    then have "take_idle alive w q = take_new w q" by (subst take_idle.simps) simp
    then show ?thesis using take_new_inv [OF inv, of w] 1(3) by simp
  next
    case False
    define c where "c = fst (last (p_idle q))"
    define p where "p = use_conn c (q\<lparr>p_idle := butlast (p_idle q)\<rparr>)"
    have i: "pool_inv L (s\<lparr>w_pool := p, w_lent := w_lent s @ [c]\<rparr>)" "pool_inv L (s\<lparr>w_pool := p, w_pinging := w_pinging s @ [c]\<rparr>)"
        "pool_inv L (s\<lparr>w_pool := disconnect c (unuse c p)\<rparr>)"
      using idle_lent_inv [OF inv, of c p] False unfolding c_def p_def 1(3) by blast+
    have e: "take_idle alive w q = (if \<not> alive c then take_idle alive w (disconnect c (unuse c p))
        else if p_validate p then (Ping c, p) else (Lend c, p))"
      using False by (subst take_idle.simps) (simp only: if_False Let_def c_def [symmetric] p_def [symmetric])
    show ?thesis
    proof (cases "alive c")
      case True
      with i(1,2) show ?thesis by (simp add: e acquiring_def)
    next
      case dead: False
      have "pool_inv L (acquiring (take_idle alive w (disconnect c (unuse c p))) (s\<lparr>w_pool := disconnect c (unuse c p)\<rparr>))"
        by (rule 1(1) [OF False c_def p_def dead i(3)]) simp
      with dead show ?thesis by (simp add: e)
    qed
  qed
qed

lemma drop_idle_inv:
  assumes "p_idle p = xs @ (c, since) # ys" and "pool_inv L (s\<lparr>w_pool := p\<rparr>)"
  shows "pool_inv L (s\<lparr>w_pool := disconnect c (p\<lparr>p_idle := xs @ ys\<rparr>)\<rparr>)"
  using assms(2) by (simp add: pool_inv_def Let_def conns_def pool_size_def assms(1) disconnect_def)

lemma sweep_loop_inv: "pool_inv L (s\<lparr>w_pool := p\<rparr>) \<Longrightarrow> pool_inv L (s\<lparr>w_pool := sweep_loop i alive now p\<rparr>)"
proof (induction i arbitrary: p)
  case (Suc i)
  show ?case
  proof (cases "at (p_idle p) i")
    case None
    with Suc show ?thesis by simp
  next
    case (Some e)
    obtain c since where e: "e = (c, since)" by (cases e)
    have "i < length (p_idle p)" "p_idle p ! i = (c, since)" using Some by (auto simp: at_def e split: if_splits)
    then have "p_idle p = take i (p_idle p) @ (c, since) # drop (Suc i) (p_idle p)"
      by (metis id_take_nth_drop)
    from drop_idle_inv [OF this Suc.prems] show ?thesis
      using Suc by (simp add: Some e del: take_append drop_append)
  qed
qed simp

lemma sweep_idle_inv:
  assumes "pool_inv L s"
  shows "pool_inv L (s\<lparr>w_pool := sweep_idle alive now (w_pool s)\<rparr>)"
proof -
  have "pool_inv L (s\<lparr>w_pool := sweep_loop (length (p_idle (w_pool s))) alive now (w_pool s)\<rparr>)"
    using assms by (intro sweep_loop_inv) simp
  then show ?thesis
    by (auto simp: sweep_idle_def Let_def pool_inv_def conns_def pool_size_def)
qed

lemma release_inv:
  assumes "pool_inv L s" and "c \<in> set (w_lent s)" and "release alive now c (w_pool s) = (to, p)"
  shows "pool_inv L (s\<lparr>w_pool := p, w_lent := remove1 c (w_lent s) @ (if to = None then [] else [c])\<rparr>)"
proof (cases "c \<in> set (p_in_use (w_pool s))")
  case False
  then have "p_closed (w_pool s)" using assms(1,2) by (auto simp: pool_inv_def Let_def)
  then show ?thesis
    using assms False by (auto simp: release_def pool_inv_def Let_def conns_def distinct_remove1 dest: notin_set_remove1)
next
  case True
  note use = True
  have d: "distinct (w_lent s)" "c \<notin> set (w_pinging s)" "c \<notin> set (map fst (p_idle (w_pool s)))"
    "distinct (p_in_use (w_pool s))"
    using assms(1,2) by (auto simp: pool_inv_def Let_def conns_def)
  have r: "remove1 c (w_lent s) = removeAll c (w_lent s)" using d(1) by (simp add: distinct_remove1_removeAll)
  have len: "Suc (length (removeAll c (p_in_use (w_pool s)))) = length (p_in_use (w_pool s))"
    using use d(4) Suc_pred [OF length_pos_if_in_set [OF use]] by (simp add: distinct_remove1_removeAll [symmetric] length_remove1)
  have size: "length (p_idle (w_pool s)) + length (p_in_use (w_pool s)) + p_creates (w_pool s) \<le> L"
    using assms(1) by (simp add: pool_inv_def Let_def pool_size_def)
  show ?thesis
  proof (cases "p_closed (w_pool s) \<or> \<not> alive c")
    case True
    then have "to = None" "p = disconnect c (unuse c (w_pool s))"
      using assms(3) use by (auto simp: release_def unuse_def)
    then show ?thesis
      using assms(1) d len size unfolding r
      by (auto simp: pool_inv_def Let_def conns_def pool_size_def disconnect_def unuse_def distinct_removeAll)
  next
    case False
    show ?thesis
    proof (cases "p_waiters (w_pool s)")
      case Nil
      then have "to = None" "p = (unuse c (w_pool s))\<lparr>p_idle := p_idle (w_pool s) @ [(c, now)]\<rparr>"
        using assms(3) use False by (auto simp: release_def unuse_def)
      then show ?thesis
        using assms(1,2) d len size unfolding r
        by (auto simp: pool_inv_def Let_def conns_def pool_size_def unuse_def distinct_removeAll)
    next
      case (Cons v ws)
      then have "to = Some v" "p = use_conn c ((unuse c (w_pool s))\<lparr>p_waiters := ws\<rparr>)"
        using assms(3) use False by (auto simp: release_def unuse_def)
      then show ?thesis
        using assms(1,2) d len size unfolding r
        by (auto simp: pool_inv_def Let_def conns_def pool_size_def unuse_def use_conn_def distinct_removeAll)
    qed
  qed
qed

lemma ping_failed_inv:
  assumes "pool_inv L s" and "c \<in> set (w_pinging s)"
  shows "pool_inv L (acquiring (ping_failed alive w c (w_pool s)) (s\<lparr>w_pinging := remove1 c (w_pinging s)\<rparr>))"
proof -
  let ?s = "s\<lparr>w_pool := disconnect c (unuse c (w_pool s)), w_pinging := remove1 c (w_pinging s)\<rparr>"
  have d: "distinct (w_pinging s)" "c \<notin> set (w_lent s)" "distinct (p_in_use (w_pool s))"
    using assms by (auto simp: pool_inv_def Let_def conns_def)
  have r: "remove1 c (w_pinging s) = removeAll c (w_pinging s)" using d(1) by (simp add: distinct_remove1_removeAll)
  have "length (removeAll c (p_in_use (w_pool s))) \<le> length (p_in_use (w_pool s))" by (rule length_removeAll_less_eq)
  then have "pool_size (disconnect c (unuse c (w_pool s))) \<le> pool_size (w_pool s)"
    by (simp add: pool_size_def disconnect_def unuse_def)
  also have "\<dots> \<le> L" using assms(1) by (simp add: pool_inv_def Let_def)
  finally have size: "pool_size (disconnect c (unuse c (w_pool s))) \<le> L" .
  have "pool_inv L ?s"
    using assms(1) d size unfolding r
    by (auto simp: pool_inv_def Let_def conns_def disconnect_def unuse_def distinct_removeAll)
  from take_idle_inv [OF this refl, of alive w] show ?thesis
    by (simp add: ping_failed_def)
qed

lemma created_inv:
  assumes "pool_inv L s" and "0 < w_creating s" and "c \<notin> w_seen s"
  shows "pool_inv L (s\<lparr>w_pool := created c (w_pool s), w_creating := w_creating s - 1,
       w_lent := w_lent s @ [c], w_seen := insert c (w_seen s)\<rparr>)"
proof -
  have "c \<notin> set (p_in_use (w_pool s))" using assms(1,3) by (auto simp: pool_inv_def Let_def conns_def)
  with assms show ?thesis
    by (auto simp: pool_inv_def Let_def conns_def pool_size_def created_def use_conn_def)
qed

lemma plain_step_inv:
  assumes "pool_inv L s"
  shows "pool_inv L (acquiring (acquire alive w (w_pool s)) s)"
    and "c \<in> set (w_pinging s) \<Longrightarrow> pool_inv L (s\<lparr>w_pinging := remove1 c (w_pinging s), w_lent := w_lent s @ [c]\<rparr>)"
    and "0 < w_creating s \<Longrightarrow> pool_inv L (s\<lparr>w_pool := create_failed (w_pool s), w_creating := w_creating s - 1\<rparr>)"
    and "pool_inv L (s\<lparr>w_pool := snd (warmup (w_pool s)), w_warming := w_warming s + fst (warmup (w_pool s))\<rparr>)"
    and "0 < w_warming s \<Longrightarrow> c \<notin> w_seen s \<Longrightarrow> pool_inv L
          (s\<lparr>w_pool := warmed c now (w_pool s), w_warming := w_warming s - 1, w_seen := insert c (w_seen s)\<rparr>)"
    and "0 < w_warming s \<Longrightarrow> pool_inv L (s\<lparr>w_pool := create_failed (w_pool s), w_warming := w_warming s - 1\<rparr>)"
    and "pool_inv L (s\<lparr>w_pool := ensure_sweep (w_pool s)\<rparr>)"
    and "pool_inv L (s\<lparr>w_pool := timed_out w (w_pool s)\<rparr>)"
    and "pool_inv L (s\<lparr>w_pool := close_pool (w_pool s)\<rparr>)"
proof -
  show sweep: "pool_inv L (s\<lparr>w_pool := ensure_sweep (w_pool s)\<rparr>)"
    using assms by (simp add: pool_inv_def Let_def conns_def pool_size_def ensure_sweep_def)
  from take_idle_inv [OF sweep refl, of alive w] assms
  show "pool_inv L (acquiring (acquire alive w (w_pool s)) s)"
    by (simp add: acquire_def) (simp add: acquiring_def)
  show "c \<in> set (w_pinging s) \<Longrightarrow> pool_inv L (s\<lparr>w_pinging := remove1 c (w_pinging s), w_lent := w_lent s @ [c]\<rparr>)"
    using assms by (auto simp: pool_inv_def Let_def conns_def distinct_remove1_removeAll distinct_removeAll)
  show "0 < w_creating s \<Longrightarrow> pool_inv L (s\<lparr>w_pool := create_failed (w_pool s), w_creating := w_creating s - 1\<rparr>)"
    "0 < w_warming s \<Longrightarrow> pool_inv L (s\<lparr>w_pool := create_failed (w_pool s), w_warming := w_warming s - 1\<rparr>)"
    using assms by (auto simp: pool_inv_def Let_def conns_def pool_size_def create_failed_def)
  show "pool_inv L (s\<lparr>w_pool := snd (warmup (w_pool s)), w_warming := w_warming s + fst (warmup (w_pool s))\<rparr>)"
    using assms by (auto simp: pool_inv_def Let_def conns_def pool_size_def warmup_def)
  show "0 < w_warming s \<Longrightarrow> c \<notin> w_seen s \<Longrightarrow> pool_inv L
      (s\<lparr>w_pool := warmed c now (w_pool s), w_warming := w_warming s - 1, w_seen := insert c (w_seen s)\<rparr>)"
    using assms by (auto simp: pool_inv_def Let_def conns_def pool_size_def warmed_def)
  show "pool_inv L (s\<lparr>w_pool := timed_out w (w_pool s)\<rparr>)" "pool_inv L (s\<lparr>w_pool := close_pool (w_pool s)\<rparr>)"
    using assms by (auto simp: pool_inv_def Let_def conns_def pool_size_def timed_out_def close_pool_def)
qed

lemma step_inv:
  assumes "pool_inv L s" and "pool_step s t"
  shows "pool_inv L t"
  using assms(2)
proof cases
  case step_created
  then show ?thesis using created_inv assms(1) by blast
next
  case step_warmed
  then show ?thesis using plain_step_inv(5) assms(1) by blast
next
  case step_release
  then show ?thesis using release_inv assms(1) by blast
qed (use assms(1) in \<open>simp_all only: plain_step_inv ping_failed_inv sweep_idle_inv\<close>)

interpretation pool_machine: inductive_invariant "pool_start mn mx" pool_step "pool_inv (max (max 1 mx) mn)"
proof
  fix s assume "pool_start mn mx s"
  then show "pool_inv (max (max 1 mx) mn) s"
    by (auto simp: pool_start_def pool_new_def pool_inv_def Let_def conns_def pool_size_def)
qed (rule step_inv)

subsection \<open>Running a function over items\<close>

text \<open>
  \<open>Pool.map\<close>: workers share a cursor; each takes the next index, runs the function on it
  and stores the result at that index. The workers' moves interleave freely; a worker whose
  call fails stops, and the whole call fails with it.
\<close>

record 'r map_run =
  mr_cursor :: nat
  mr_idle :: nat
  mr_busy :: "nat list"
  mr_results :: "'r option list"
  mr_failed :: bool

definition map_limit :: "int option \<Rightarrow> pool \<Rightarrow> nat" where
  "map_limit concurrency p =
     nat (max 1 (min (case concurrency of None \<Rightarrow> int (p_max p) | Some v \<Rightarrow> v) (int (p_max p))))"

definition map_start :: "'a list \<Rightarrow> nat \<Rightarrow> 'r map_run \<Rightarrow> bool" where
  "map_start items limit m = (m = \<lparr>mr_cursor = 0, mr_idle = min limit (length items), mr_busy = [],
     mr_results = replicate (length items) None, mr_failed = False\<rparr>)"

inductive map_step :: "'a list \<Rightarrow> (nat \<Rightarrow> 'a \<Rightarrow> 'r res) \<Rightarrow> 'r map_run \<Rightarrow> 'r map_run \<Rightarrow> bool" for items f where
  map_take: "0 < mr_idle m \<Longrightarrow> mr_cursor m < length items \<Longrightarrow> map_step items f m
     (m\<lparr>mr_cursor := Suc (mr_cursor m), mr_idle := mr_idle m - 1, mr_busy := mr_busy m @ [mr_cursor m]\<rparr>)"
| map_stop: "0 < mr_idle m \<Longrightarrow> length items \<le> mr_cursor m \<Longrightarrow> map_step items f m
     (m\<lparr>mr_cursor := Suc (mr_cursor m), mr_idle := mr_idle m - 1\<rparr>)"
| map_result: "i \<in> set (mr_busy m) \<Longrightarrow> f i (items ! i) = Inr v \<Longrightarrow> map_step items f m
     (m\<lparr>mr_busy := remove1 i (mr_busy m), mr_idle := Suc (mr_idle m), mr_results := (mr_results m)[i := Some v]\<rparr>)"
| map_error: "i \<in> set (mr_busy m) \<Longrightarrow> f i (items ! i) = Inl e \<Longrightarrow> map_step items f m
     (m\<lparr>mr_busy := remove1 i (mr_busy m), mr_failed := True\<rparr>)"

definition map_over :: "'r map_run \<Rightarrow> bool" where
  "map_over m = (mr_idle m = 0 \<and> mr_busy m = [])"

text \<open>
  Until something fails, what was taken is running or has its result, and a worker is
  never lost before the cursor has passed the end.
\<close>

definition map_inv :: "'a list \<Rightarrow> (nat \<Rightarrow> 'a \<Rightarrow> 'r res) \<Rightarrow> nat \<Rightarrow> 'r map_run \<Rightarrow> bool" where
  "map_inv items f limit m =
     (length (mr_results m) = length items \<and> distinct (mr_busy m)
      \<and> (\<forall>i\<in>set (mr_busy m). i < mr_cursor m \<and> i < length items)
      \<and> (\<forall>i<length items. \<forall>v. mr_results m ! i = Some v \<longrightarrow> f i (items ! i) = Inr v)
      \<and> mr_idle m + length (mr_busy m) \<le> limit
      \<and> (\<not> mr_failed m \<longrightarrow>
           (\<forall>i<length items. i < mr_cursor m \<longrightarrow> i \<notin> set (mr_busy m) \<longrightarrow> mr_results m ! i \<noteq> None)
         \<and> (mr_cursor m < length items \<longrightarrow> mr_idle m + length (mr_busy m) = min limit (length items))))"

lemma map_step_inv:
  assumes "map_step items f m m'" and "map_inv items f limit m"
  shows "map_inv items f limit m'"
  using assms
proof (induction rule: map_step.induct)
  case (map_take m)
  then show ?case by (auto simp: map_inv_def less_Suc_eq)
next
  case (map_stop m)
  then show ?case by (auto simp: map_inv_def)
next
  case (map_result i m v)
  have "length (mr_busy m) = Suc (length (remove1 i (mr_busy m)))"
    using map_result(1) Suc_pred [OF length_pos_if_in_set [OF map_result(1)]] by (simp add: length_remove1)
  then show ?case using map_result by (auto simp: map_inv_def nth_list_update)
next
  case (map_error i m e)
  have "length (remove1 i (mr_busy m)) \<le> length (mr_busy m)" by (simp add: length_remove1)
  then show ?case using map_error by (auto simp: map_inv_def)
qed

interpretation pool_map: inductive_invariant "map_start items limit" "map_step items f" "map_inv items f limit"
  for items :: "'a list" and limit and f :: "nat \<Rightarrow> 'a \<Rightarrow> 'r res"
proof
  fix m :: "'r map_run" assume "map_start items limit m"
  then show "map_inv items f limit m" by (auto simp: map_start_def map_inv_def)
qed (rule map_step_inv)

subsection \<open>Properties\<close>

text \<open>
  C14. The pool is safe: whatever the interleaving of acquires, pings, creations, releases,
  sweeps, timeouts and the close, no connection is lent twice or lent while it is idle, and
  the connections that are open or being created never exceed the larger of the two limits.
\<close>

theorem pool_safe:
  assumes "reach (pool_start mn mx) pool_step s"
  shows "distinct (w_lent s) \<and> set (w_lent s) \<inter> set (map fst (p_idle (w_pool s))) = {}
    \<and> set (w_lent s) \<inter> set (w_pinging s) = {} \<and> pool_size (w_pool s) \<le> max (max 1 mx) mn
    \<and> (\<not> p_closed (w_pool s) \<longrightarrow> set (p_in_use (w_pool s)) = set (w_lent s) \<union> set (w_pinging s))"
  using pool_machine.holds [OF assms] by (auto simp: pool_inv_def Let_def conns_def)

text \<open>
  A waiter can be left behind: when the connection it waits for is found dead at its
  release, the pool is empty, below its limit, and nothing is under way that would serve
  the waiter.
\<close>

theorem waiter_starves:
  "\<exists>s. reach (pool_start 0 1) pool_step s \<and> p_waiters (w_pool s) = [w] \<and> pool_size (w_pool s) < p_max (w_pool s)
     \<and> \<not> p_closed (w_pool s) \<and> w_lent s = [] \<and> w_pinging s = [] \<and> w_creating s = 0 \<and> w_warming s = 0"
proof -
  let ?p = "pool_new (Some 0) (Some 1) None None"
  let ?c = "ensure_sweep ?p"
  define s0 where "s0 = \<lparr>w_pool = ?p, w_lent = [], w_pinging = [], w_creating = 0, w_warming = 0, w_seen = {}\<rparr>"
  define s1 where "s1 = s0\<lparr>w_pool := ?c\<lparr>p_creates := 1\<rparr>, w_creating := 1\<rparr>"
  define s2 where "s2 = s1\<lparr>w_pool := ?c\<lparr>p_in_use := [0]\<rparr>, w_creating := 0, w_lent := [0], w_seen := {0}\<rparr>"
  define s3 where "s3 = s2\<lparr>w_pool := ?c\<lparr>p_in_use := [0], p_waiters := [w]\<rparr>\<rparr>"
  define s4 where "s4 = s3\<lparr>w_pool := ?c\<lparr>p_waiters := [w], p_dropped := [0]\<rparr>, w_lent := []\<rparr>"
  note d = s0_def s1_def s2_def s3_def s4_def pool_new_def acquire_def acquiring_def ensure_sweep_def
    take_idle.simps take_new_def pool_size_def created_def use_conn_def release_def unuse_def disconnect_def
  have "pool_start 0 1 s0" by (simp add: pool_start_def s0_def) blast
  moreover have "pool_step s0 s1" using step_acquire [of s0 "\<lambda>_. True" 0] by (simp add: d)
  moreover have "pool_step s1 s2" using step_created [of s1 0] by (simp add: d)
  moreover have "pool_step s2 s3" using step_acquire [of s2 "\<lambda>_. True" w] by (simp add: d)
  moreover have "pool_step s3 s4" using step_release [of 0 s3 "\<lambda>_. False" 0 None "w_pool s4"] by (simp add: d)
  ultimately have "reach (pool_start 0 1) pool_step s4" by (meson reach.intros)
  then show ?thesis by (intro exI [of _ s4]) (simp add: d)
qed

text \<open>
  \<open>Pool.map\<close> returns the results in the order of the items: however the workers
  interleave, when all have stopped and none failed, every item has a result, and the list
  of results is the function mapped over the items with their indexes.
\<close>

theorem pool_map_in_order:
  assumes "reach (map_start items limit) (map_step items f) m" and "map_over m" and "\<not> mr_failed m" and "0 < limit"
  shows "map2 f [0..<length items] items = map (Inr \<circ> the) (mr_results m) \<and> list_all (\<lambda>r. r \<noteq> None) (mr_results m)"
proof
  have inv: "map_inv items f limit m" by (rule pool_map.holds [OF assms(1)])
  have "length items \<le> mr_cursor m"
    using inv assms(2-4) by (cases "mr_cursor m < length items") (auto simp: map_inv_def map_over_def)
  then have r: "mr_results m ! i \<noteq> None" if "i < length items" for i
    using inv assms(2,3) that by (auto simp: map_inv_def map_over_def)
  have n: "length (mr_results m) = length items" using inv by (simp add: map_inv_def)
  show "list_all (\<lambda>r. r \<noteq> None) (mr_results m)" using r n by (auto simp: list_all_length)
  show "map2 f [0..<length items] items = map (Inr \<circ> the) (mr_results m)"
    using inv r n by (intro nth_equalityI) (auto simp: map_inv_def)
qed

theorem pool_safe_witness:
  "(let s = acquiring (acquire (\<lambda>_. True) 0 (pool_new (Some 0) (Some 2) None None))
        \<lparr>w_pool = pool_new (Some 0) (Some 2) None None, w_lent = [], w_pinging = [], w_creating = 0, w_warming = 0, w_seen = {}\<rparr>
    in distinct (w_lent s) \<and> set (w_lent s) \<inter> set (map fst (p_idle (w_pool s))) = {}
    \<and> set (w_lent s) \<inter> set (w_pinging s) = {} \<and> pool_size (w_pool s) \<le> max (max 1 2) 0
    \<and> (\<not> p_closed (w_pool s) \<longrightarrow> set (p_in_use (w_pool s)) = set (w_lent s) \<union> set (w_pinging s)))"
  unfolding Let_def
proof (rule pool_safe, rule reach_step)
  show "reach (pool_start 0 2) pool_step
     \<lparr>w_pool = pool_new (Some 0) (Some 2) None None, w_lent = [], w_pinging = [], w_creating = 0, w_warming = 0, w_seen = {}\<rparr>"
    by (rule reach_init) (auto simp: pool_start_def)
  show "pool_step \<lparr>w_pool = pool_new (Some 0) (Some 2) None None, w_lent = [], w_pinging = [], w_creating = 0, w_warming = 0, w_seen = {}\<rparr>
     (acquiring (acquire (\<lambda>_. True) 0 (pool_new (Some 0) (Some 2) None None))
        \<lparr>w_pool = pool_new (Some 0) (Some 2) None None, w_lent = [], w_pinging = [], w_creating = 0, w_warming = 0, w_seen = {}\<rparr>)"
    using step_acquire [of "\<lparr>w_pool = pool_new (Some 0) (Some 2) None None, w_lent = [], w_pinging = [], w_creating = 0, w_warming = 0, w_seen = {}\<rparr>"] by simp
qed

theorem pool_map_in_order_witness:
  "map2 (\<lambda>i x. Inr (int i + x) :: int res) [0..<length [5]] [5] = map (Inr \<circ> the) [Some (5::int)]
     \<and> list_all (\<lambda>r. r \<noteq> None) [Some (5::int)]"
proof -
  let ?f = "\<lambda>i x. Inr (int i + x) :: int res"
  let ?m = "\<lambda>c i b r. \<lparr>mr_cursor = c, mr_idle = i, mr_busy = b, mr_results = r, mr_failed = False\<rparr>"
  have "map_start [5] 2 (?m 0 1 [] [None])" by (simp add: map_start_def)
  moreover have "map_step [5] ?f (?m 0 1 [] [None]) (?m 1 0 [0] [None])"
    using map_take [of "?m 0 1 [] [None]" "[5]" ?f] by simp
  moreover have "map_step [5] ?f (?m 1 0 [0] [None]) (?m 1 1 [] [Some 5])"
    using map_result [of 0 "?m 1 0 [0] [None]" ?f "[5]" 5] by simp
  moreover have "map_step [5] ?f (?m 1 1 [] [Some 5]) (?m (Suc (Suc 0)) 0 [] [Some 5])"
    using map_stop [of "?m 1 1 [] [Some 5]" "[5]" ?f] by simp
  ultimately have "reach (map_start [5] 2) (map_step [5] ?f) (?m (Suc (Suc 0)) 0 [] [Some 5])" by (meson reach.intros)
  from pool_map_in_order [OF this] show ?thesis by (simp add: map_over_def)
qed

end
