(* ===== verification/Scanner.thy ===== *)
theory Scanner
  imports Prelude
begin

text \<open>
  \<open>script/scanner.ts\<close>: the regions of SQL text (comments, strings, quoted identifiers,
  q-literals) that the lexers skip. A region is looked for at an index; what follows it is
  the rest of the text. The scans \<open>line_len\<close>, \<open>find_pair\<close> and \<open>quoted_len\<close> are the loops of
  the code on that rest.
\<close>

datatype region_type = LineComment | BlockComment | StringLiteral | QuotedIdentifier | QLiteral

record region =
  rg_type :: region_type
  rg_start :: nat
  rg_end :: nat
  rg_terminated :: bool

text \<open>How far the line goes; where two characters stand next to each other; how far a quoted
  text goes, its closing quote included, a doubled quote standing for one.\<close>

fun line_len :: "string \<Rightarrow> nat" where
  "line_len [] = 0"
| "line_len (c # r) = (if c = newline \<or> c = return_char then 0 else Suc (line_len r))"

fun find_pair :: "char \<Rightarrow> char \<Rightarrow> string \<Rightarrow> nat option" where
  "find_pair a b (x # y # r) = (if x = a \<and> y = b then Some 0 else map_option Suc (find_pair a b (y # r)))"
| "find_pair a b _ = None"

fun quoted_len :: "char \<Rightarrow> string \<Rightarrow> nat option" where
  "quoted_len q [] = None"
| "quoted_len q [x] = (if x = q then Some 1 else None)"
| "quoted_len q (x # y # r) =
     (if x = q then if y = q then map_option (\<lambda>k. k + 2) (quoted_len q r) else Some 1
      else map_option Suc (quoted_len q (y # r)))"

definition q_closer :: "char \<Rightarrow> char" where
  "q_closer c = (if c = CHR ''{'' then CHR ''}'' else if c = CHR ''['' then CHR '']''
     else if c = CHR ''('' then CHR '')'' else if c = CHR ''<'' then CHR ''>'' else c)"

definition region_from :: "string \<Rightarrow> (region_type \<times> nat \<times> bool) option" where
  "region_from t = (case t of [] \<Rightarrow> None | c # r \<Rightarrow>
     if c = CHR ''-'' \<and> at r 0 = Some (CHR ''-'') then Some (LineComment, 2 + line_len (drop 2 t), True)
     else if c = CHR ''/'' \<and> at r 0 = Some (CHR ''*'') then
       (case find_pair (CHR ''*'') (CHR ''/'') (drop 2 t) of
          Some k \<Rightarrow> Some (BlockComment, 2 + k + 2, True)
        | None \<Rightarrow> Some (BlockComment, length t, False))
     else if (c = CHR ''q'' \<or> c = CHR ''Q'') \<and> at r 0 = Some quote then
       (case at t 2 of None \<Rightarrow> Some (QLiteral, length t, False)
        | Some opener \<Rightarrow> (case find_pair (q_closer opener) quote (drop 3 t) of
            Some k \<Rightarrow> Some (QLiteral, 3 + k + 2, True)
          | None \<Rightarrow> Some (QLiteral, length t, False)))
     else if c = quote \<or> c = dquote then
       (let ty = if c = quote then StringLiteral else QuotedIdentifier in
        case quoted_len c r of Some k \<Rightarrow> Some (ty, Suc k, True) | None \<Rightarrow> Some (ty, length t, False))
     else None)"

definition region_at :: "string \<Rightarrow> nat \<Rightarrow> region option" where
  "region_at text i = map_option (\<lambda>(ty, k, ok).
     \<lparr>rg_type = ty, rg_start = i, rg_end = i + k, rg_terminated = ok\<rparr>) (region_from (drop i text))"

definition unterminated_message :: "region_type \<Rightarrow> string" where
  "unterminated_message ty = (case ty of LineComment \<Rightarrow> [] | BlockComment \<Rightarrow> ''Unterminated block comment''
     | StringLiteral \<Rightarrow> ''Unterminated string'' | QuotedIdentifier \<Rightarrow> ''Unterminated quoted identifier''
     | QLiteral \<Rightarrow> ''Unterminated q-literal'')"

subsection \<open>The scans stay inside the text\<close>

named_theorems scans "bounds of the scanning loops"

lemma line_len_le [scans]: "line_len r \<le> length r"
  by (induction r) auto

lemma find_pair_le [scans]: "find_pair a b r = Some k \<Longrightarrow> k + 2 \<le> length r"
  by (induction a b r arbitrary: k rule: find_pair.induct) (fastforce split: if_splits)+

lemma quoted_len_le [scans]: "quoted_len q r = Some k \<Longrightarrow> 0 < k \<and> k \<le> length r"
  by (induction q r arbitrary: k rule: quoted_len.induct) (fastforce split: if_splits)+

lemma region_from_bounds [scans]: "region_from t = Some (ty, k, ok) \<Longrightarrow> 0 < k \<and> k \<le> length t"
proof (cases t)
  case (Cons c r)
  assume *: "region_from t = Some (ty, k, ok)"
  show ?thesis
    using * Cons line_len_le [of "drop 2 t"]
    by (cases r) (auto simp: region_from_def Let_def at_def split: if_splits option.splits dest!: find_pair_le quoted_len_le)
qed (simp add: region_from_def)

lemma region_at_bounds:
  "region_at text i = Some g \<Longrightarrow> rg_start g = i \<and> i < rg_end g \<and> rg_end g \<le> length text"
  by (auto simp: region_at_def dest!: region_from_bounds)

lemma at_drop [slices, simp]: "at (drop n xs) k = at xs (n + k)"
  by (auto simp: at_def)

text \<open>The same on the characters after the first.\<close>

lemma region_from_Cons: "region_from (c # r) =
     (if c = CHR ''-'' \<and> at r 0 = Some (CHR ''-'') then Some (LineComment, 2 + line_len (drop 1 r), True)
      else if c = CHR ''/'' \<and> at r 0 = Some (CHR ''*'') then
        (case find_pair (CHR ''*'') (CHR ''/'') (drop 1 r) of
           Some k \<Rightarrow> Some (BlockComment, 2 + k + 2, True)
         | None \<Rightarrow> Some (BlockComment, Suc (length r), False))
      else if (c = CHR ''q'' \<or> c = CHR ''Q'') \<and> at r 0 = Some quote then
        (case at r 1 of None \<Rightarrow> Some (QLiteral, Suc (length r), False)
         | Some opener \<Rightarrow> (case find_pair (q_closer opener) quote (drop 2 r) of
             Some k \<Rightarrow> Some (QLiteral, 3 + k + 2, True)
           | None \<Rightarrow> Some (QLiteral, Suc (length r), False)))
      else if c = quote \<or> c = dquote then
        (let ty = if c = quote then StringLiteral else QuotedIdentifier in
         case quoted_len c r of Some k \<Rightarrow> Some (ty, Suc k, True) | None \<Rightarrow> Some (ty, Suc (length r), False))
      else None)"
  by (simp add: region_from_def numeral_2_eq_2 numeral_3_eq_3 cong: option.case_cong)

lemma region_from_Nil [simp]: "region_from [] = None"
  by (simp add: region_from_def)

lemma region_line: "at r 0 = Some (CHR ''-'') \<Longrightarrow> region_from (CHR ''-'' # r) = Some (LineComment, 2 + line_len (drop 1 r), True)"
  by (simp add: region_from_Cons)

lemma region_block: "at r 0 = Some (CHR ''*'') \<Longrightarrow> region_from (CHR ''/'' # r) =
     (case find_pair (CHR ''*'') (CHR ''/'') (drop 1 r) of
        Some k \<Rightarrow> Some (BlockComment, 2 + k + 2, True) | None \<Rightarrow> Some (BlockComment, Suc (length r), False))"
  by (simp add: region_from_Cons)

lemma region_q: "c = CHR ''q'' \<or> c = CHR ''Q'' \<Longrightarrow> at r 0 = Some quote \<Longrightarrow> region_from (c # r) =
     (case at r 1 of None \<Rightarrow> Some (QLiteral, Suc (length r), False)
      | Some opener \<Rightarrow> (case find_pair (q_closer opener) quote (drop 2 r) of
          Some k \<Rightarrow> Some (QLiteral, 3 + k + 2, True) | None \<Rightarrow> Some (QLiteral, Suc (length r), False)))"
  by (auto simp: region_from_Cons)

lemma region_quoted: "c = quote \<or> c = dquote \<Longrightarrow> region_from (c # r) =
     (let ty = if c = quote then StringLiteral else QuotedIdentifier in
      case quoted_len c r of Some k \<Rightarrow> Some (ty, Suc k, True) | None \<Rightarrow> Some (ty, Suc (length r), False))"
  by (auto simp: region_from_Cons)

lemma region_noneI:
  assumes "\<not> (c = CHR ''-'' \<and> at r 0 = Some (CHR ''-''))" and "\<not> (c = CHR ''/'' \<and> at r 0 = Some (CHR ''*''))"
    and "\<not> ((c = CHR ''q'' \<or> c = CHR ''Q'') \<and> at r 0 = Some quote)" and "\<not> (c = quote \<or> c = dquote)"
  shows "region_from (c # r) = None"
  unfolding region_from_Cons using assms by (simp only: if_False)

end
