(* ===== verification/Named_Params.thy ===== *)
theory Named_Params
  imports Scanner Js_Map Param_Encoder Blob
begin

text \<open>
  \<open>api/named-params.ts\<close>: \<open>@name\<close> markers become positional ones. The loop carries the
  index, the start of the text not emitted yet, the text emitted and the names. Its
  reference is the text cut by the scanner of \<open>script/scanner.ts\<close>: a marker outside every
  region is replaced, everything else is kept.
\<close>

subsection \<open>The rewrite\<close>

definition ident_start :: "char \<Rightarrow> bool" where
  "ident_start c = (is_upper c \<or> is_lower c \<or> c = CHR ''_'')"

definition ident_part :: "char \<Rightarrow> bool" where
  "ident_part c = (is_upper c \<or> is_lower c \<or> is_digit c \<or> c = CHR ''_'' \<or> c = CHR ''$'')"

definition skip_line :: "string \<Rightarrow> nat \<Rightarrow> nat" where
  "skip_line sql i = i + line_len (drop i sql)"

definition skip_block :: "string \<Rightarrow> nat \<Rightarrow> nat" where
  "skip_block sql i = (case find_pair (CHR ''*'') (CHR ''/'') (drop i sql) of
     Some k \<Rightarrow> i + k + 2 | None \<Rightarrow> max i (length sql) + 2)"

definition skip_quoted :: "string \<Rightarrow> nat \<Rightarrow> char \<Rightarrow> nat" where
  "skip_quoted sql start q = (case quoted_len q (drop (Suc start) sql) of
     Some k \<Rightarrow> Suc start + k | None \<Rightarrow> length sql)"

definition skip_q_literal :: "string \<Rightarrow> nat \<Rightarrow> nat" where
  "skip_q_literal sql start = (case at sql (start + 2) of None \<Rightarrow> start + 2
     | Some opener \<Rightarrow> (case find_pair (q_closer opener) quote (drop (start + 3) sql) of
         Some k \<Rightarrow> start + 3 + k + 2 | None \<Rightarrow> length sql + 2))"

lemma skips_forward:
  "i \<le> skip_line sql i" "i + 2 \<le> skip_block sql i" "start < length sql \<Longrightarrow> start < skip_quoted sql start q"
  "start < skip_q_literal sql start"
  by (auto simp: skip_line_def skip_block_def skip_quoted_def skip_q_literal_def at_def dest: quoted_len_le split: option.split)

function rewrite_loop :: "string \<Rightarrow> nat \<Rightarrow> nat \<Rightarrow> string \<Rightarrow> string list \<Rightarrow> string \<times> string list" where
  "rewrite_loop sql i start out names =
     (if length sql \<le> i then (out @ drop start sql, names)
      else let c = sql ! i in
        if c = CHR ''-'' \<and> at sql (i + 1) = Some (CHR ''-'') then rewrite_loop sql (skip_line sql (i + 2)) start out names
        else if c = CHR ''/'' \<and> at sql (i + 1) = Some (CHR ''*'') then rewrite_loop sql (skip_block sql (i + 2)) start out names
        else if c = quote \<or> c = dquote then rewrite_loop sql (skip_quoted sql i c) start out names
        else if (c = CHR ''q'' \<or> c = CHR ''Q'') \<and> at sql (i + 1) = Some quote then
          rewrite_loop sql (skip_q_literal sql i) start out names
        else if c = CHR ''@'' \<and> i + 1 < length sql \<and> ident_start (sql ! (i + 1)) then
          (let j = i + 2 + length (takeWhile ident_part (drop (i + 2) sql)) in
           rewrite_loop sql j j (out @ js_slice start i sql @ ''?'') (names @ [js_slice (i + 1) j sql]))
        else rewrite_loop sql (i + 1) start out names)"
  by pat_completeness auto
termination
proof (relation "measure (\<lambda>(sql, i, _). length sql - i)", goal_cases)
  case (2 sql i) then show ?case using skips_forward(1) [of "i + 2" sql] by simp
next
  case (3 sql i) then show ?case using skips_forward(2) [of "i + 2" sql] by simp
next
  case (4 sql i) then show ?case using skips_forward(3) [of i sql] by (simp add: diff_less_mono2)
next
  case (5 sql i) then show ?case using skips_forward(4) [of i sql] by (simp add: diff_less_mono2)
qed (auto intro: diff_less_mono2)

declare rewrite_loop.simps [simp del]

definition rewrite_named_params :: "string \<Rightarrow> string \<times> string list" where
  "rewrite_named_params sql = rewrite_loop sql 0 0 [] []"

subsection \<open>The values\<close>

text \<open>
  What a caller may pass: a value that can be encoded, a lazy blob handle, or a stream.
  \<open>name in params\<close> also finds the members every object inherits, which are functions (and
  one object).
\<close>

datatype arg = AValue param_value | ALazyBlob | AStream "source_item list"

datatype query_params = Positional "arg list" | Named "(string, arg) js_map"

definition inherited :: "string \<Rightarrow> arg option" where
  "inherited name =
     (if name \<in> set [''constructor'', ''__defineGetter__'', ''__defineSetter__'', ''hasOwnProperty'', ''__lookupGetter__'',
        ''__lookupSetter__'', ''isPrototypeOf'', ''propertyIsEnumerable'', ''toString'', ''valueOf'', ''toLocaleString'']
      then Some (AValue (POther ''function''))
      else if name = ''__proto__'' then Some (AValue (POther ''object'')) else None)"

definition member :: "(string, arg) js_map \<Rightarrow> string \<Rightarrow> arg option" where
  "member params name = (case jm_get params name of Some v \<Rightarrow> Some v | None \<Rightarrow> inherited name)"

definition add_missing :: "(string, arg) js_map \<Rightarrow> string \<Rightarrow> string list \<Rightarrow> string list" where
  "add_missing params name missing =
     (if member params name = None \<and> name \<notin> set missing then missing @ [name] else missing)"

definition param_error :: "string \<Rightarrow> err" where
  "param_error msg = FbError FirebirdParamError msg None None []"

definition bind_named_params :: "string list \<Rightarrow> (string, arg) js_map \<Rightarrow> arg list res" where
  "bind_named_params names params =
     (let missing = fold (add_missing params) names [] in
      if missing \<noteq> [] then Inl (param_error (''named parameter'' @ (if 1 < length missing then ''s'' else [])
        @ '' missing from params object: '' @ join '', '' (map ((#) (CHR ''@'')) missing)))
      else Inr (map (\<lambda>n. the (member params n)) names))"

definition normalize_params :: "string \<Rightarrow> query_params \<Rightarrow> (string \<times> arg list) res" where
  "normalize_params sql params = (case params of
     Positional vs \<Rightarrow> Inr (sql, vs)
   | Named ps \<Rightarrow> (let (rewritten, names) = rewrite_named_params sql in
       if names = [] then Inl (param_error (''a named-parameter object was passed but the SQL has no @name markers '' @ em_dash
         @ '' use a positional array for `?` parameters, or add @name markers''))
       else rthen (bind_named_params names ps) (\<lambda>vs. Inr (rewritten, vs))))"

subsection \<open>The reference: the text cut by the scanner\<close>

datatype piece = Kept string | Marker string

definition marks :: "char \<Rightarrow> string \<Rightarrow> bool" where
  "marks c r = (c = CHR ''@'' \<and> (case r of [] \<Rightarrow> False | d # _ \<Rightarrow> ident_start d))"

function pieces_of :: "string \<Rightarrow> piece list" where
  "pieces_of [] = []"
| "pieces_of (c # r) = (case region_from (c # r) of
     Some (ty, k, ok) \<Rightarrow> Kept (take k (c # r)) # pieces_of (drop k (c # r))
   | None \<Rightarrow> if marks c r
       then (let name = hd r # takeWhile ident_part (tl r) in Marker name # pieces_of (drop (length name) r))
       else Kept [c] # pieces_of r)"
  by pat_completeness auto
termination
  by (relation "measure length") (auto dest: region_from_bounds)

declare pieces_of.simps(2) [simp del]

fun source_text :: "piece \<Rightarrow> string" where
  "source_text (Kept s) = s"
| "source_text (Marker n) = CHR ''@'' # n"

fun positional_text :: "piece \<Rightarrow> string" where
  "positional_text (Kept s) = s"
| "positional_text (Marker n) = ''?''"

fun marker_names :: "piece list \<Rightarrow> string list" where
  "marker_names [] = []"
| "marker_names (Kept s # ps) = marker_names ps"
| "marker_names (Marker n # ps) = n # marker_names ps"

lemma pieces_source: "concat (map source_text (pieces_of t)) = t"
proof (induction t rule: pieces_of.induct)
  case (2 c r)
  show ?case
  proof (cases "region_from (c # r)")
    case None
    show ?thesis
    proof (cases "marks c r")
      case True
      let ?n = "hd r # takeWhile ident_part (tl r)"
      have r: "r = ?n @ drop (length ?n) r"
        using True by (cases r) (simp_all add: marks_def dropWhile_eq_drop [symmetric])
      have "concat (map source_text (pieces_of (c # r))) = CHR ''@'' # ?n @ concat (map source_text (pieces_of (drop (length ?n) r)))"
        using None True by (simp add: pieces_of.simps(2) Let_def)
      also have "\<dots> = CHR ''@'' # ?n @ drop (length ?n) r"
        using 2(1) [OF None True] by simp
      finally show ?thesis using True r by (simp add: marks_def)
    next
      case False
      then show ?thesis using 2(2) [OF None False] None by (simp add: pieces_of.simps(2))
    qed
  next
    case (Some x)
    obtain ty k ok where x: "x = (ty, k, ok)" by (cases x)
    then show ?thesis using 2(3) [OF Some, of ty "(k, ok)" k ok] Some by (simp add: pieces_of.simps(2))
  qed
qed simp
abbreviation ptext :: "string \<Rightarrow> string" where
  "ptext t \<equiv> concat (map positional_text (pieces_of t))"

lemma take_drop_slice: "start \<le> i \<Longrightarrow> js_slice start i sql @ take k (drop i sql) = js_slice start (i + k) sql"
  using slice_split [of start i "i + k" sql] by (simp add: js_slice_def take_drop add.commute)

lemma slice_over: "length sql \<le> i \<Longrightarrow> js_slice start i sql = drop start sql"
  by (simp add: js_slice_def)

lemma skipped_region:
  assumes "region_from (drop i sql) = Some (ty, k, ok)" and "start \<le> i"
    and "i' = i + k \<or> i + k = length sql \<and> length sql \<le> i'"
  shows "js_slice start i sql @ ptext (drop i sql) = js_slice start i' sql @ ptext (drop i' sql)"
    and "marker_names (pieces_of (drop i sql)) = marker_names (pieces_of (drop i' sql))"
proof -
  have ne: "drop i sql \<noteq> []" using assms(1) by auto
  then obtain c r where cr: "drop i sql = c # r" by (cases "drop i sql") auto
  have "pieces_of (drop i sql) = Kept (take k (drop i sql)) # pieces_of (drop k (drop i sql))"
    using assms(1) unfolding cr by (simp add: pieces_of.simps(2))
  then have p: "pieces_of (drop i sql) = Kept (take k (drop i sql)) # pieces_of (drop (i + k) sql)"
    by (simp add: add.commute)
  have e: "drop (i + k) sql = drop i' sql" "js_slice start (i + k) sql = js_slice start i' sql"
    using assms(3) by (auto simp: slice_over)
  show "js_slice start i sql @ ptext (drop i sql) = js_slice start i' sql @ ptext (drop i' sql)"
    unfolding p using take_drop_slice [OF assms(2), of sql k] e by simp
  show "marker_names (pieces_of (drop i sql)) = marker_names (pieces_of (drop i' sql))"
    unfolding p using e by simp
qed

lemma skip_is_region:
  assumes "i < length sql" and "c = sql ! i"
  shows "c = CHR ''-'' \<Longrightarrow> at sql (i + 1) = Some (CHR ''-'') \<Longrightarrow>
      \<exists>ty k ok. region_from (drop i sql) = Some (ty, k, ok) \<and> skip_line sql (i + 2) = i + k"
    and "c = CHR ''/'' \<Longrightarrow> at sql (i + 1) = Some (CHR ''*'') \<Longrightarrow>
      \<exists>ty k ok. region_from (drop i sql) = Some (ty, k, ok)
        \<and> (skip_block sql (i + 2) = i + k \<or> i + k = length sql \<and> length sql \<le> skip_block sql (i + 2))"
    and "c = quote \<or> c = dquote \<Longrightarrow>
      \<exists>ty k ok. region_from (drop i sql) = Some (ty, k, ok) \<and> skip_quoted sql i c = i + k"
    and "c = CHR ''q'' \<or> c = CHR ''Q'' \<Longrightarrow> at sql (i + 1) = Some quote \<Longrightarrow>
      \<exists>ty k ok. region_from (drop i sql) = Some (ty, k, ok)
        \<and> (skip_q_literal sql i = i + k \<or> i + k = length sql \<and> length sql \<le> skip_q_literal sql i)"
proof -
  have d: "drop i sql = c # drop (Suc i) sql" using assms by (simp add: Cons_nth_drop_Suc)
  have a: "at (drop (Suc i) sql) 0 = at sql (i + 1)" "at (drop (Suc i) sql) 1 = at sql (i + 2)" by simp_all
  have n: "i + Suc (length (drop (Suc i) sql)) = length sql" using assms(1) by simp
  show "c = CHR ''-'' \<Longrightarrow> at sql (i + 1) = Some (CHR ''-'') \<Longrightarrow>
      \<exists>ty k ok. region_from (drop i sql) = Some (ty, k, ok) \<and> skip_line sql (i + 2) = i + k"
    using region_line [of "drop (Suc i) sql"] unfolding d a skip_line_def by (simp, blast)
  show "c = CHR ''/'' \<Longrightarrow> at sql (i + 1) = Some (CHR ''*'') \<Longrightarrow>
      \<exists>ty k ok. region_from (drop i sql) = Some (ty, k, ok)
        \<and> (skip_block sql (i + 2) = i + k \<or> i + k = length sql \<and> length sql \<le> skip_block sql (i + 2))"
    using region_block [of "drop (Suc i) sql"] n unfolding d a skip_block_def by (auto split: option.splits)
  show "c = quote \<or> c = dquote \<Longrightarrow>
      \<exists>ty k ok. region_from (drop i sql) = Some (ty, k, ok) \<and> skip_quoted sql i c = i + k"
    using region_quoted [of c "drop (Suc i) sql"] n unfolding d skip_quoted_def Let_def by (auto split: option.splits)
  show "c = CHR ''q'' \<or> c = CHR ''Q'' \<Longrightarrow> at sql (i + 1) = Some quote \<Longrightarrow>
      \<exists>ty k ok. region_from (drop i sql) = Some (ty, k, ok)
        \<and> (skip_q_literal sql i = i + k \<or> i + k = length sql \<and> length sql \<le> skip_q_literal sql i)"
    using region_q [of c "drop (Suc i) sql"] n unfolding d a skip_q_literal_def
    by (auto simp: at_def numeral_3_eq_3 numeral_2_eq_2 split: option.splits if_splits)
qed

lemma marks_at: "i < length sql \<Longrightarrow> marks c (drop (Suc i) sql) \<longleftrightarrow>
    c = CHR ''@'' \<and> i + 1 < length sql \<and> ident_start (sql ! (i + 1))"
  by (cases "drop (Suc i) sql") (auto simp: marks_def dest: nth_via_drop arg_cong [where f = length])

lemma plain_char:
  assumes "i < length sql" and "c = sql ! i" and "region_from (c # drop (Suc i) sql) = None" and "start \<le> i"
  shows "marks c (drop (Suc i) sql) \<Longrightarrow> j = i + 2 + length (takeWhile ident_part (drop (i + 2) sql)) \<Longrightarrow>
      ptext (drop i sql) = ''?'' @ ptext (drop j sql)
      \<and> marker_names (pieces_of (drop i sql)) = js_slice (i + 1) j sql # marker_names (pieces_of (drop j sql))"
    and "\<not> marks c (drop (Suc i) sql) \<Longrightarrow>
      js_slice start i sql @ ptext (drop i sql) = js_slice start (i + 1) sql @ ptext (drop (i + 1) sql)
      \<and> marker_names (pieces_of (drop i sql)) = marker_names (pieces_of (drop (i + 1) sql))"
proof -
  have d: "drop i sql = c # drop (Suc i) sql" using assms(1,2) by (simp add: Cons_nth_drop_Suc)
  show "marks c (drop (Suc i) sql) \<Longrightarrow> j = i + 2 + length (takeWhile ident_part (drop (i + 2) sql)) \<Longrightarrow>
      ptext (drop i sql) = ''?'' @ ptext (drop j sql)
      \<and> marker_names (pieces_of (drop i sql)) = js_slice (i + 1) j sql # marker_names (pieces_of (drop j sql))"
  proof -
    assume m: "marks c (drop (Suc i) sql)" and j: "j = i + 2 + length (takeWhile ident_part (drop (i + 2) sql))"
    define name where "name = hd (drop (Suc i) sql) # takeWhile ident_part (tl (drop (Suc i) sql))"
    have n1: "Suc i < length sql" using m marks_at [OF assms(1)] by simp
    then have h: "drop (Suc i) sql = sql ! Suc i # drop (i + 2) sql" by (simp add: Cons_nth_drop_Suc)
    then have "name = take (length name) (drop (Suc i) sql)"
      unfolding name_def using takeWhile_eq_take [of ident_part "drop (i + 2) sql"] by simp
    then have "name = js_slice (i + 1) j sql"
      unfolding j js_slice_def drop_take name_def by (simp add: h)
    moreover have "drop (length name) (drop (Suc i) sql) = drop j sql"
      unfolding name_def h j by (simp add: add.commute)
    moreover have "pieces_of (drop i sql) = Marker name # pieces_of (drop (length name) (drop (Suc i) sql))"
      unfolding d pieces_of.simps(2) assms(3) name_def Let_def using m by simp
    ultimately show ?thesis by simp
  qed
  show "\<not> marks c (drop (Suc i) sql) \<Longrightarrow>
      js_slice start i sql @ ptext (drop i sql) = js_slice start (i + 1) sql @ ptext (drop (i + 1) sql)
      \<and> marker_names (pieces_of (drop i sql)) = marker_names (pieces_of (drop (i + 1) sql))"
    using take_drop_slice [OF assms(4), of sql 1] assms(3) unfolding d by (simp add: pieces_of.simps(2))
qed

lemma rewrite_loop_pieces:
  "start \<le> i \<Longrightarrow> rewrite_loop sql i start out names =
     (out @ js_slice start i sql @ ptext (drop i sql), names @ marker_names (pieces_of (drop i sql)))"
proof (induction sql i start out names rule: rewrite_loop.induct)
  case (1 sql i start out names)
  show ?case
  proof (cases "length sql \<le> i")
    case True
    then show ?thesis by (subst rewrite_loop.simps) (simp add: slice_over)
  next
    case over: False
    then have i: "i < length sql" by simp
    define c where "c = sql ! i"
    define r where "r = drop (Suc i) sql"
    have d: "drop i sql = c # r" using i by (simp add: c_def r_def Cons_nth_drop_Suc)
    have at_r: "at r 0 = at sql (i + 1)" by (simp add: r_def)
    note IH = 1(1-6) [OF over c_def]
    note step = rewrite_loop.simps [of sql i start out names, folded c_def, unfolded Let_def]
    show ?thesis
    proof (cases "c = CHR ''-'' \<and> at sql (i + 1) = Some (CHR ''-'')")
      case True
      with skip_is_region(1) [OF i c_def] obtain ty k ok where
        g: "region_from (drop i sql) = Some (ty, k, ok)" "skip_line sql (i + 2) = i + k" by blast
      with IH(1) [OF True] skipped_region [OF g(1) 1(7), of "skip_line sql (i + 2)"] step i True 1(7)
      show ?thesis by simp
    next
      case no1: False
      show ?thesis
      proof (cases "c = CHR ''/'' \<and> at sql (i + 1) = Some (CHR ''*'')")
        case True
        with skip_is_region(2) [OF i c_def] obtain ty k ok where
          g: "region_from (drop i sql) = Some (ty, k, ok)"
            "skip_block sql (i + 2) = i + k \<or> i + k = length sql \<and> length sql \<le> skip_block sql (i + 2)" by blast
        with IH(2) [OF no1 True] skipped_region [OF g(1) 1(7) g(2)] step i True no1 1(7) skips_forward(2) [of "i + 2" sql]
        show ?thesis by simp
      next
        case no2: False
        show ?thesis
        proof (cases "c = quote \<or> c = dquote")
          case True
          with skip_is_region(3) [OF i c_def] obtain ty k ok where
            g: "region_from (drop i sql) = Some (ty, k, ok)" "skip_quoted sql i c = i + k" by blast
          with IH(3) [OF no1 no2 True] skipped_region [OF g(1) 1(7), of "skip_quoted sql i c"] step i True no1 no2 1(7)
          show ?thesis by auto
        next
          case no3: False
          show ?thesis
          proof (cases "(c = CHR ''q'' \<or> c = CHR ''Q'') \<and> at sql (i + 1) = Some quote")
            case True
            with skip_is_region(4) [OF i c_def] obtain ty k ok where
              g: "region_from (drop i sql) = Some (ty, k, ok)"
                "skip_q_literal sql i = i + k \<or> i + k = length sql \<and> length sql \<le> skip_q_literal sql i" by blast
            with IH(4) [OF no1 no2 no3 True] skipped_region [OF g(1) 1(7) g(2)] step i True no1 no2 no3 1(7)
              skips_forward(4) [of i sql]
            show ?thesis by auto
          next
            case no4: False
            have none: "region_from (c # r) = None"
              by (rule region_noneI) (use no1 no2 no3 no4 at_r in simp_all)
            note p = plain_char [OF i c_def none [unfolded r_def] 1(7)]
            show ?thesis
            proof (cases "c = CHR ''@'' \<and> i + 1 < length sql \<and> ident_start (sql ! (i + 1))")
              case True
              with IH(5) [OF no1 no2 no3 no4 True refl order_refl] p(1) [OF _ refl] step i no1 no2 no3 no4 marks_at [OF i, of c]
              show ?thesis by simp
            next
              case False
              have "rewrite_loop sql i start out names = rewrite_loop sql (i + 1) start out names"
                by (simp only: step over no1 no2 no3 no4 False if_False)
              with IH(6) [OF no1 no2 no3 no4 False] p(2) marks_at [OF i, of c] False 1(7) show ?thesis by simp
            qed
          qed
        qed
      qed
    qed
  qed
qed

lemma rewrite_pieces:
  "rewrite_named_params sql = (ptext sql, marker_names (pieces_of sql))"
  using rewrite_loop_pieces [of 0 0 sql "[]" "[]"] by (simp add: rewrite_named_params_def)

subsection \<open>Binding\<close>

lemma missing_grows: "set missing \<subseteq> set (add_missing ps n missing)"
  by (auto simp: add_missing_def)

lemma fold_missing:
  "set (fold (add_missing ps) names missing) = set missing \<union> {n \<in> set names. member ps n = None}"
  by (induction names arbitrary: missing) (auto simp: add_missing_def)

lemma bind_members:
  "bind_named_params names ps = Inr vs \<longleftrightarrow> map (member ps) names = map Some vs"
proof -
  have all: "fold (add_missing ps) names [] = [] \<longleftrightarrow> (\<forall>n \<in> set names. member ps n \<noteq> None)"
    using fold_missing [of ps names "[]"] by (metis (mono_tags, lifting) empty_Collect_eq set_empty sup_bot.left_neutral list.set(1))
  have bind: "bind_named_params names ps = Inr vs \<longleftrightarrow>
      (\<forall>n \<in> set names. member ps n \<noteq> None) \<and> vs = map (\<lambda>n. the (member ps n)) names"
    unfolding bind_named_params_def Let_def all by auto
  have "map (member ps) names = map Some vs \<longleftrightarrow>
      (\<forall>n \<in> set names. member ps n \<noteq> None) \<and> vs = map (\<lambda>n. the (member ps n)) names"
    by (induction names arbitrary: vs) (auto simp: Cons_eq_map_conv)
  with bind show ?thesis by simp
qed

text \<open>
  C15. Named parameters become positional ones: cutting the text with the scanner of the
  script parser, the \<open>@name\<close> markers that stand outside every comment and literal, and only
  these, become question marks, and the values are those of the markers in their order; the
  call is refused exactly when there is no marker or a name has no value.
\<close>

theorem named_params_positional:
  "concat (map source_text (pieces_of sql)) = sql
   \<and> (case normalize_params sql (Named ps) of
        Inr (sql', vs) \<Rightarrow> marker_names (pieces_of sql) \<noteq> [] \<and> sql' = concat (map positional_text (pieces_of sql))
          \<and> map Some vs = map (member ps) (marker_names (pieces_of sql))
      | Inl e \<Rightarrow> marker_names (pieces_of sql) = [] \<or> None \<in> set (map (member ps) (marker_names (pieces_of sql))))"
proof -
  let ?names = "marker_names (pieces_of sql)"
  have "None \<in> set (map (member ps) ?names)" if "bind_named_params ?names ps = Inl e" for e
  proof (rule ccontr)
    assume "None \<notin> set (map (member ps) ?names)"
    then have "map (member ps) ?names = map Some (map (\<lambda>n. the (member ps n)) ?names)" by (auto simp: image_iff)
    then have "bind_named_params ?names ps = Inr (map (\<lambda>n. the (member ps n)) ?names)" unfolding bind_members .
    then show False using that by simp
  qed
  then show ?thesis
    by (auto simp: pieces_source normalize_params_def rewrite_pieces rthen_def bind_members split: sum.split)
qed

end
