(* ===== verification/Expand_Star.thy ===== *)
theory Expand_Star
  imports Scanner Info Errors
begin

text \<open>
  \<open>api/expand-star.ts\<close>: the select list's stars become explicit columns. The text is cut
  into tokens, the select list into items, the described columns are dealt out to the
  items from left to right, and each star is replaced by its columns that are kept. The
  tokenizer looks only at ASCII characters and takes every other one as part of a name.
\<close>

subsection \<open>Tokens\<close>

record tok =
  tk_text :: string
  tk_lower :: string
  tk_start :: nat
  tk_end :: nat
  tk_depth :: int

definition id_start :: "char \<Rightarrow> bool" where
  "id_start c = (is_upper c \<or> is_lower c \<or> c = CHR ''_'' \<or> c = CHR ''$'' \<or> 128 \<le> code c)"

definition id_part :: "char \<Rightarrow> bool" where
  "id_part c = (id_start c \<or> is_digit c)"

fun index_char :: "char \<Rightarrow> string \<Rightarrow> nat option" where
  "index_char a [] = None"
| "index_char a (c # r) = (if c = a then Some 0 else map_option Suc (index_char a r))"

text \<open>Where a comment or a literal at an index ends, the text's end when it is not closed.\<close>

definition line_end :: "string \<Rightarrow> nat \<Rightarrow> nat" where
  "line_end sql i = (case index_char newline (drop i sql) of Some k \<Rightarrow> i + k + 1 | None \<Rightarrow> length sql)"

definition pair_end :: "char \<Rightarrow> char \<Rightarrow> string \<Rightarrow> nat \<Rightarrow> nat" where
  "pair_end a b sql i = (case find_pair a b (drop i sql) of Some k \<Rightarrow> i + k + 2 | None \<Rightarrow> length sql)"

definition quoted_end :: "string \<Rightarrow> nat \<Rightarrow> char \<Rightarrow> nat" where
  "quoted_end sql i q = (case quoted_len q (drop (i + 1) sql) of Some k \<Rightarrow> i + 1 + k | None \<Rightarrow> length sql)"

definition run_end :: "(char \<Rightarrow> bool) \<Rightarrow> string \<Rightarrow> nat \<Rightarrow> nat" where
  "run_end p sql i = i + 1 + length (takeWhile p (drop (i + 1) sql))"

definition tok_at :: "string \<Rightarrow> nat \<Rightarrow> nat \<Rightarrow> int \<Rightarrow> tok" where
  "tok_at sql i j depth = (let t = js_slice i j sql in
     \<lparr>tk_text = t, tk_lower = t, tk_start = i, tk_end = j, tk_depth = depth\<rparr>)"

text \<open>The ends are past the index; the \<open>max\<close> only says so where the code does not need to.\<close>

function tokenize_from :: "string \<Rightarrow> nat \<Rightarrow> int \<Rightarrow> tok list" where
  "tokenize_from sql i depth =
     (if length sql \<le> i then []
      else let c = sql ! i in
        if is_ws c then tokenize_from sql (i + 1) depth
        else if c = CHR ''-'' \<and> at sql (i + 1) = Some (CHR ''-'') then tokenize_from sql (max (i + 1) (line_end sql i)) depth
        else if c = CHR ''/'' \<and> at sql (i + 1) = Some (CHR ''*'') then
          tokenize_from sql (max (i + 1) (pair_end (CHR ''*'') (CHR ''/'') sql (i + 2))) depth
        else if c = quote then tokenize_from sql (max (i + 1) (quoted_end sql i c)) depth
        else if (c = CHR ''q'' \<or> c = CHR ''Q'') \<and> at sql (i + 1) = Some quote \<and> i + 2 < length sql then
          tokenize_from sql (max (i + 1) (pair_end (q_closer (sql ! (i + 2))) quote sql (i + 3))) depth
        else if c = dquote then
          (let j = max (i + 1) (quoted_end sql i c) in tok_at sql i j depth # tokenize_from sql j depth)
        else if c = CHR ''('' then tok_at sql i (i + 1) depth # tokenize_from sql (i + 1) (depth + 1)
        else if c = CHR '')'' then tok_at sql i (i + 1) (depth - 1) # tokenize_from sql (i + 1) (depth - 1)
        else if id_start c then
          (let j = run_end id_part sql i; t = tok_at sql i j depth in
           t\<lparr>tk_lower := to_lower (tk_text t)\<rparr> # tokenize_from sql j depth)
        else if is_digit c then
          (let j = run_end (\<lambda>d. is_digit d \<or> d = CHR ''.'') sql i in tok_at sql i j depth # tokenize_from sql j depth)
        else tok_at sql i (i + 1) depth # tokenize_from sql (i + 1) depth)"
  by pat_completeness auto
termination
  by (relation "measure (\<lambda>(sql, i, _). length sql - i)") (auto simp: run_end_def intro!: diff_less_mono2)

declare tokenize_from.simps [simp del]

definition tokenize :: "string \<Rightarrow> tok list" where
  "tokenize sql = tokenize_from sql 0 0"

subsection \<open>The select list\<close>

definition top :: "string \<Rightarrow> tok \<Rightarrow> bool" where
  "top word t = (tk_depth t = 0 \<and> tk_lower t = word)"

text \<open>The tokens between the first top-level \<open>select\<close> and the next top-level \<open>from\<close>.\<close>

definition select_list :: "tok list \<Rightarrow> tok list option" where
  "select_list toks = (case dropWhile (\<lambda>t. \<not> top ''select'' t) toks of
     [] \<Rightarrow> None
   | s # r \<Rightarrow> if list_all (\<lambda>t. \<not> top ''from'' t) r then None else Some (takeWhile (\<lambda>t. \<not> top ''from'' t) r))"

fun skip_parens :: "tok list \<Rightarrow> tok list" where
  "skip_parens [] = []"
| "skip_parens (t # r) = (if tk_lower t = '')'' \<and> tk_depth t = 0 then r else skip_parens r)"

lemma skip_parens_le: "length (skip_parens r) \<le> length r"
  by (induction r) auto

function skip_first :: "tok list \<Rightarrow> tok list" where
  "skip_first [] = []"
| "skip_first (t # r) =
     (if tk_lower t = ''first'' \<or> tk_lower t = ''skip'' then
        (case r of [] \<Rightarrow> [] | u # r' \<Rightarrow> if tk_lower u = ''('' then skip_first (skip_parens r') else skip_first r')
      else t # r)"
  by pat_completeness auto
termination
  by (relation "measure length") (auto simp: less_Suc_eq_le le_Suc_eq skip_parens_le intro: le_trans [OF skip_parens_le])

definition skip_distinct :: "tok list \<Rightarrow> tok list" where
  "skip_distinct l = (case l of t # r \<Rightarrow> if tk_lower t = ''distinct'' \<or> tk_lower t = ''all'' then r else l | [] \<Rightarrow> l)"

fun split_items :: "tok list \<Rightarrow> tok list \<Rightarrow> tok list list" where
  "split_items cur [] = [cur]"
| "split_items cur (t # r) = (if tk_lower t = '','' \<and> tk_depth t = 0 then cur # split_items [] r
     else split_items (cur @ [t]) r)"

fun undouble :: "string \<Rightarrow> string" where
  "undouble (a # b # r) = (if a = dquote \<and> b = dquote then dquote # undouble r else a # undouble (b # r))"
| "undouble s = s"

definition unquote :: "string \<Rightarrow> string" where
  "unquote ident = (if starts_at ident 0 [dquote] then undouble (js_slice 1 (length ident - 1) ident) else to_upper ident)"

fun double :: "string \<Rightarrow> string" where
  "double [] = []"
| "double (c # r) = (if c = dquote then dquote # dquote # double r else c # double r)"

definition quote_ident :: "string \<Rightarrow> string" where
  "quote_ident name = dquote # double name @ [dquote]"

record star =
  st_qualifier :: "string option"
  st_start :: nat
  st_end :: nat

definition classify :: "tok list \<Rightarrow> star option" where
  "classify it = (case it of
     [s] \<Rightarrow> if tk_text s = ''*'' then Some \<lparr>st_qualifier = None, st_start = tk_start s, st_end = tk_end s\<rparr> else None
   | [q, d, s] \<Rightarrow> if tk_text d = ''.'' \<and> tk_text s = ''*'' \<and> tk_text q \<noteq> '')''
       then Some \<lparr>st_qualifier = Some (tk_text q), st_start = tk_start q, st_end = tk_end s\<rparr> else None
   | _ \<Rightarrow> None)"

definition star_key :: "star \<Rightarrow> string option" where
  "star_key s = map_option unquote (st_qualifier s)"

definition select_items :: "tok list \<Rightarrow> star option list" where
  "select_items l = map classify (split_items [] (skip_distinct (skip_first l)))"

subsection \<open>Dealing out the described columns\<close>

definition star_error :: "string \<Rightarrow> err" where
  "star_error msg = fb_error (''expandStar: '' @ msg)"

definition output_at :: "sql_var_desc option list \<Rightarrow> int \<Rightarrow> sql_var_desc option" where
  "output_at outs c = (if 0 \<le> c \<and> c < int (length outs) then outs ! nat c else None)"

definition column_alias :: "sql_var_desc \<Rightarrow> string" where
  "column_alias d = (case v_relation_alias d of Some a \<Rightarrow> a | None \<Rightarrow> (case v_relation d of Some r \<Rightarrow> r | None \<Rightarrow> []))"

definition alias_matches :: "string \<Rightarrow> sql_var_desc option \<Rightarrow> bool" where
  "alias_matches key d = (case d of None \<Rightarrow> False | Some d \<Rightarrow> column_alias d = key)"

text \<open>The loop over the columns that match.\<close>

definition matching_run :: "sql_var_desc option list \<Rightarrow> string \<Rightarrow> int \<Rightarrow> int" where
  "matching_run outs key c = c + int (length (takeWhile (alias_matches key) (drop (nat c) outs)))"

text \<open>
  One turn of the mapping: the cursor before, the items left after this one, and the span
  of outputs the item takes. \<open>outputs.slice\<close> reads a negative end from the back.
\<close>

definition slice_to :: "'a list \<Rightarrow> nat \<Rightarrow> int \<Rightarrow> 'a list" where
  "slice_to xs a b = js_slice a (nat (if b < 0 then int (length xs) + b else b)) xs"

definition take_span :: "sql_var_desc option list \<Rightarrow> int \<Rightarrow> nat \<Rightarrow> star option \<Rightarrow> int \<Rightarrow> int res" where
  "take_span outs n_items remaining item c = (case item of
     None \<Rightarrow> Inr (c + 1)
   | Some s \<Rightarrow> (case star_key s of
       None \<Rightarrow> (let run = int (length outs) - (n_items - 1) in
         if run < 1 then Inl (star_error ''could not map * to the described columns'') else Inr (c + run))
     | Some key \<Rightarrow>
         if \<not> alias_matches key (output_at outs c)
         then Inl (star_error (quote # the (st_qualifier s) @ ''.*'' @ [quote]
           @ '' did not match the described columns (alias '' @ [quote] @ key @ [quote] @ '')''))
         else (let e = matching_run outs key c;
                   e = (if int (length outs) - e < int remaining then int (length outs) - int remaining else e)
           in if slice_to outs (nat c) e = [] then Inl (star_error (quote # the (st_qualifier s) @ ''.*'' @ [quote] @ '' matched no columns''))
              else Inr e)))"

fun map_items :: "sql_var_desc option list \<Rightarrow> int \<Rightarrow> star option list \<Rightarrow> int \<Rightarrow> ((int \<times> int) list \<times> int) res" where
  "map_items outs n_items [] c = Inr ([], c)"
| "map_items outs n_items (item # items) c =
     rthen (take_span outs n_items (length items) item c) (\<lambda>e.
     rthen (map_items outs n_items items e) (\<lambda>(spans, last). Inr ((c, e) # spans, last)))"

subsection \<open>The filter and the new text\<close>

definition column_kept :: "string list option \<Rightarrow> string list \<Rightarrow> sql_var_desc \<Rightarrow> string option \<Rightarrow> bool" where
  "column_kept only exclude d qual =
     (let field = to_upper (case v_field d of Some f \<Rightarrow> f | None \<Rightarrow> []);
          qualified = (case qual of None \<Rightarrow> field | Some q \<Rightarrow> if q = [] then field else to_upper q @ ''.'' @ field)
      in (case only of None \<Rightarrow> True | Some l \<Rightarrow> field \<in> set (map to_upper l) \<or> qualified \<in> set (map to_upper l))
         \<and> field \<notin> set (map to_upper exclude) \<and> qualified \<notin> set (map to_upper exclude))"

definition or_else :: "'a option \<Rightarrow> 'a option \<Rightarrow> 'a option" where
  "or_else a b = (case a of Some x \<Rightarrow> Some x | None \<Rightarrow> b)"

definition present :: "'a option list \<Rightarrow> 'a list" where
  "present xs = map the (filter (\<lambda>x. x \<noteq> None) xs)"

definition column_text :: "star \<Rightarrow> sql_var_desc \<Rightarrow> string res" where
  "column_text s d = (case v_field d of None \<Rightarrow> Inl TypeErr
     | Some f \<Rightarrow> Inr (case st_qualifier s of
         Some q \<Rightarrow> q @ ''.'' @ quote_ident f
       | None \<Rightarrow> (case v_relation_alias d of
           Some a \<Rightarrow> if a = [] then quote_ident f else quote_ident a @ ''.'' @ quote_ident f
         | None \<Rightarrow> quote_ident f)))"

definition star_columns :: "string list option \<Rightarrow> string list \<Rightarrow> star \<Rightarrow> sql_var_desc option list \<Rightarrow> sql_var_desc list" where
  "star_columns only exclude s outs =
     filter (\<lambda>d. column_kept only exclude d (or_else (star_key s) (v_relation_alias d))) (present outs)"

definition replacement :: "string list option \<Rightarrow> string list \<Rightarrow> star \<Rightarrow> sql_var_desc option list \<Rightarrow> (nat \<times> nat \<times> string) res" where
  "replacement only exclude s outs =
     (let cols = star_columns only exclude s outs in
      if cols = [] then Inl (star_error (''exclude/only removed every column of '' @ [quote]
        @ (case st_qualifier s of Some q \<Rightarrow> q | None \<Rightarrow> ''*'') @ [quote] @ '' '' @ em_dash @ '' nothing left to select''))
      else rthen (res_map (column_text s) cols) (\<lambda>ts. Inr (st_start s, st_end s, join '', '' ts)))"

fun splice :: "string \<Rightarrow> nat \<Rightarrow> (nat \<times> nat \<times> string) list \<Rightarrow> string" where
  "splice sql pos [] = drop pos sql"
| "splice sql pos ((a, b, t) # rs) = js_slice pos a sql @ t @ splice sql b rs"

definition star_runs :: "sql_var_desc option list \<Rightarrow> star option list \<Rightarrow> (int \<times> int) list \<Rightarrow> (star \<times> sql_var_desc option list) list" where
  "star_runs outs items spans = concat (map2 (\<lambda>item (a, b). case item of None \<Rightarrow> [] | Some s \<Rightarrow> [(s, slice_to outs (nat a) b)]) items spans)"

definition expand_star_sql ::
  "string \<Rightarrow> sql_var_desc option list \<Rightarrow> string list option \<Rightarrow> string list \<Rightarrow> string option res" where
  "expand_star_sql sql outs only exclude =
     (let toks = tokenize sql in
      case select_list toks of
        None \<Rightarrow> Inr None
      | Some l \<Rightarrow>
          (let items = select_items l; stars = present items in
           if stars = [] then Inr None
           else if 1 < length (filter (top ''select'') toks)
             then Inl (star_error (''top-level UNION queries are not supported '' @ em_dash @ '' list the columns explicitly''))
           else if 1 < length stars \<and> list_ex (\<lambda>s. star_key s = None) stars
             then Inl (star_error ''bare * cannot be combined with qualified star items'')
           else rthen (map_items outs (int (length items)) items 0) (\<lambda>(spans, cursor).
             if cursor \<noteq> int (length outs)
             then Inl (star_error (''described '' @ dec_nat (length outs) @ '' columns but the select list mapped ''
               @ dec_int cursor @ '' '' @ em_dash @ '' leaving the statement untouched would be unsafe''))
             else rthen (res_map (\<lambda>(s, run). replacement only exclude s run) (star_runs outs items spans)) (\<lambda>rs.
               Inr (Some (splice sql 0 (sort_key fst rs)))))))"

subsection \<open>The spans cover the columns\<close>

text \<open>What an item may take: one column, or for a star some columns, all of its alias.\<close>

definition run_ok :: "star option \<Rightarrow> sql_var_desc option list \<Rightarrow> bool" where
  "run_ok item run = (case item of None \<Rightarrow> length run = 1
     | Some s \<Rightarrow> run \<noteq> [] \<and> (case star_key s of None \<Rightarrow> True | Some k \<Rightarrow> list_all (alias_matches k) run))"

lemma slice_to_nat: "0 \<le> b \<Longrightarrow> slice_to xs a b = js_slice a (nat b) xs"
  by (simp add: slice_to_def)

lemma matching_run_matches:
  assumes "0 \<le> c" and "c \<le> e" and "e \<le> matching_run outs key c"
  shows "list_all (alias_matches key) (js_slice (nat c) (nat e) outs)"
proof -
  let ?m = "length (takeWhile (alias_matches key) (drop (nat c) outs))"
  have "js_slice (nat c) (nat e) outs = take (nat e - nat c) (drop (nat c) outs)" by (simp add: js_slice_def drop_take)
  moreover have "nat e - nat c \<le> ?m" using assms by (simp add: matching_run_def)
  then have "take (nat e - nat c) (drop (nat c) outs) = take (nat e - nat c) (takeWhile (alias_matches key) (drop (nat c) outs))"
    using takeWhile_eq_take [of "alias_matches key" "drop (nat c) outs"] by (metis min.absorb1 take_take)
  ultimately show ?thesis
    by (auto simp: list_all_iff dest!: in_set_takeD set_takeWhileD)
qed

lemma take_span_ok:
  assumes "take_span outs n_items rest item c = Inr e" and "0 \<le> c" and "rest < length outs"
  shows "c < e" and "e \<le> int (length outs) \<Longrightarrow> run_ok item (slice_to outs (nat c) e)"
proof -
  have *: "c < e \<and> (e \<le> int (length outs) \<longrightarrow> run_ok item (js_slice (nat c) (nat e) outs))"
  proof (cases item)
    case None
    then show ?thesis using assms by (auto simp: take_span_def run_ok_def nat_add_distrib)
  next
    case (Some s)
    show ?thesis
    proof (cases "star_key s")
      case None
      then have e: "e = c + (int (length outs) - (n_items - 1))" "1 \<le> int (length outs) - (n_items - 1)"
        using assms(1) Some by (auto simp: take_span_def Let_def split: if_splits)
      then have "js_slice (nat c) (nat e) outs \<noteq> []" if "e \<le> int (length outs)"
        using that assms(2) by (simp flip: length_greater_0_conv)
      then show ?thesis using e Some None by (simp add: run_ok_def)
    next
      case (Some key)
      define m where "m = matching_run outs key c"
      have e: "e = (if int (length outs) - m < int rest then int (length outs) - int rest else m)"
        and ne: "slice_to outs (nat c) e \<noteq> []"
        using assms(1) Some \<open>item = Some s\<close> by (auto simp: take_span_def Let_def m_def split: if_splits)
      have pos: "0 \<le> e" "e \<le> m" using e assms(2,3) by (auto simp: m_def matching_run_def)
      have ne: "js_slice (nat c) (nat e) outs \<noteq> []" using ne by (simp add: slice_to_nat [OF pos(1)])
      then have "nat c < nat e" using slice_empty not_le by blast
      then have "c < e" by simp
      moreover have "list_all (alias_matches key) (js_slice (nat c) (nat e) outs)"
        using matching_run_matches [of c e outs key] \<open>c < e\<close> assms(2) pos(2) by (simp add: m_def)
      ultimately show ?thesis using Some \<open>item = Some s\<close> ne by (simp add: run_ok_def)
    qed
  qed
  then show "c < e" by simp
  then show "e \<le> int (length outs) \<Longrightarrow> run_ok item (slice_to outs (nat c) e)"
    using * assms(2) by (simp add: slice_to_nat)
qed

lemma map_items_spans:
  assumes "map_items outs n_items items c = Inr (spans, e)" and "0 \<le> c" and "length items \<le> length outs"
  shows "c \<le> e \<and> length spans = length items \<and> (e \<le> int (length outs) \<longrightarrow>
      concat (map (\<lambda>(a, b). slice_to outs (nat a) b) spans) = js_slice (nat c) (nat e) outs
      \<and> list_all2 run_ok items (map (\<lambda>(a, b). slice_to outs (nat a) b) spans))"
  using assms
proof (induction items arbitrary: c spans)
  case Nil
  then show ?case by simp
next
  case (Cons item items)
  obtain d spans' where d: "take_span outs n_items (length items) item c = Inr d"
      and s: "map_items outs n_items items d = Inr (spans', e)" "spans = (c, d) # spans'"
    using Cons.prems(1) by (auto simp: rthen_eq_Inr)
  have cd: "c < d" using take_span_ok(1) [OF d] Cons.prems(2,3) by simp
  note IH = Cons.IH [OF s(1)]
  have "d \<le> e" "length spans' = length items" using IH cd Cons.prems(2,3) by simp_all
  then show ?case
    using IH take_span_ok(2) [OF d Cons.prems(2)] cd Cons.prems(2,3) slice_split [of "nat c" "nat d" "nat e" outs] s(2)
    by (auto simp: slice_to_nat)
qed

text \<open>What a star's run becomes.\<close>

definition star_texts :: "string list option \<Rightarrow> string list \<Rightarrow> star option \<Rightarrow> sql_var_desc option list \<Rightarrow> (nat \<times> nat \<times> string) list" where
  "star_texts only exclude item run = (case item of None \<Rightarrow> [] | Some s \<Rightarrow>
     [(st_start s, st_end s, join '', '' (map (projr \<circ> column_text s) (star_columns only exclude s run)))])"

definition star_has_columns :: "string list option \<Rightarrow> string list \<Rightarrow> star option \<Rightarrow> sql_var_desc option list \<Rightarrow> bool" where
  "star_has_columns only exclude item run =
     (case item of None \<Rightarrow> True | Some s \<Rightarrow> star_columns only exclude s run \<noteq> [])"

lemma replacement_text:
  assumes "replacement only exclude s run = Inr r"
  shows "star_texts only exclude (Some s) run = [r] \<and> star_has_columns only exclude (Some s) run"
  using assms by (auto simp: replacement_def star_texts_def star_has_columns_def Let_def rthen_eq_Inr
      dest!: res_map_eq split: if_splits)

lemma star_runs_texts:
  assumes "res_map (\<lambda>(s, run). replacement only exclude s run) (star_runs outs items spans) = Inr rs"
    and "length spans = length items"
  shows "rs = concat (map2 (star_texts only exclude) items (map (\<lambda>(a, b). slice_to outs (nat a) b) spans))
    \<and> list_all2 (star_has_columns only exclude) items (map (\<lambda>(a, b). slice_to outs (nat a) b) spans)"
  using assms
proof (induction items arbitrary: spans rs)
  case Nil
  then show ?case by (simp add: star_runs_def)
next
  case (Cons item items)
  obtain a b spans' where sp: "spans = (a, b) # spans'" "length spans' = length items"
    using Cons.prems(2) by (cases spans) auto
  show ?case
  proof (cases item)
    case None
    then show ?thesis
      using Cons.prems(1) Cons.IH [OF _ sp(2), of rs] sp(1) by (simp add: star_runs_def star_texts_def star_has_columns_def)
  next
    case (Some s)
    then obtain r rs' where r: "replacement only exclude s (slice_to outs (nat a) b) = Inr r" "rs = r # rs'"
        "res_map (\<lambda>(s, run). replacement only exclude s run) (star_runs outs items spans') = Inr rs'"
      using Cons.prems(1) sp(1) by (auto simp: star_runs_def rthen_eq_Inr)
    then show ?thesis
      using replacement_text [OF r(1)] Cons.IH [OF r(3) sp(2)] Some sp(1) by simp
  qed
qed

text \<open>
  Expanding a star neither loses nor repeats a column: when the select list is
  rewritten, the described columns are dealt out completely and in order, one to each
  expression and to each star a run of columns of its alias; and the new text is the old
  one with each star replaced by the columns of its run that \<open>only\<close> and \<open>exclude\<close> keep, at
  least one.
\<close>

theorem expand_star_covers:
  assumes "expand_star_sql sql outs only exclude = Inr (Some sql')" and "select_list (tokenize sql) = Some l"
    and "length (select_items l) \<le> length outs"
  shows "\<exists>runs. concat runs = outs \<and> list_all2 run_ok (select_items l) runs
    \<and> list_all2 (star_has_columns only exclude) (select_items l) runs
    \<and> sql' = splice sql 0 (sort_key fst (concat (map2 (star_texts only exclude) (select_items l) runs)))"
proof -
  let ?runs = "map (\<lambda>(a, b). slice_to outs (nat a) b)"
  obtain spans rs where m: "map_items outs (int (length (select_items l))) (select_items l) 0 = Inr (spans, int (length outs))"
      and rs: "res_map (\<lambda>(s, run). replacement only exclude s run) (star_runs outs (select_items l) spans) = Inr rs"
      and sql': "sql' = splice sql 0 (sort_key fst rs)"
    using assms(1,2) by (auto simp: expand_star_sql_def Let_def rthen_eq_Inr split: if_splits)
  from map_items_spans [OF m order_refl assms(3)] star_runs_texts [OF rs] show ?thesis
    unfolding sql' by (intro exI [of _ "?runs spans"]) simp
qed

theorem expand_star_covers_witness:
  "\<exists>runs. concat runs = [Some (new_var\<lparr>v_field := Some ''ID'', v_relation := Some ''A''\<rparr>)]
    \<and> list_all2 run_ok (select_items [tok_at ''select * from a'' 7 8 0]) runs
    \<and> list_all2 (star_has_columns None []) (select_items [tok_at ''select * from a'' 7 8 0]) runs
    \<and> ''select '' @ [dquote] @ ''ID'' @ [dquote] @ '' from a'' = splice ''select * from a'' 0
        (sort_key fst (concat (map2 (star_texts None []) (select_items [tok_at ''select * from a'' 7 8 0]) runs)))"
proof (rule expand_star_covers)
  show "expand_star_sql ''select * from a'' [Some (new_var\<lparr>v_field := Some ''ID'', v_relation := Some ''A''\<rparr>)] None [] =
    Inr (Some (''select '' @ [dquote] @ ''ID'' @ [dquote] @ '' from a''))" by code_simp
  show "select_list (tokenize ''select * from a'') = Some [tok_at ''select * from a'' 7 8 0]" by code_simp
  show "length (select_items [tok_at ''select * from a'' 7 8 0])
    \<le> length [Some (new_var\<lparr>v_field := Some ''ID'', v_relation := Some ''A''\<rparr>)]" by code_simp
qed

end
