(* ===== verification/Charsets.thy ===== *)
theory Charsets
  imports Column_Reader Js_Map Info
begin

text \<open>
  \<open>charset/charsets.ts\<close> and \<open>charset/decoder.ts\<close>: the table of Firebird character sets and
  the choice of a text codec for a column or parameter. The package iconv-lite is a
  parameter. Its strings, like all strings here, are their UTF-8 bytes, so Node's
  \<open>utf8\<close> is the identity on bytes and \<open>latin1\<close> is written out.
\<close>

subsection \<open>The table\<close>

datatype node_encoding = Latin1 | Utf8

record charset =
  cs_id :: int
  cs_name :: string
  cs_max_bytes :: int
  cs_node :: "node_encoding option"
  cs_iconv :: "string option"
  cs_binary :: bool

definition charset_of :: "int \<times> string \<times> int \<times> node_encoding option \<times> string option \<Rightarrow> charset" where
  "charset_of d = (case d of (i, n, m, node, ic) \<Rightarrow> \<lparr>cs_id = i, cs_name = n, cs_max_bytes = m, cs_node = node,
     cs_iconv = ic, cs_binary = (n = ''OCTETS'')\<rparr>)"

definition charset_defs :: "(int \<times> string \<times> int \<times> node_encoding option \<times> string option) list" where
  "charset_defs = [
    (0, ''NONE'', 1, None, None), (1, ''OCTETS'', 1, None, None), (2, ''ASCII'', 1, Some Latin1, None),
    (3, ''UNICODE_FSS'', 3, Some Utf8, None), (4, ''UTF8'', 4, Some Utf8, None),
    (5, ''SJIS_0208'', 2, None, Some ''shiftjis''), (6, ''EUCJ_0208'', 2, None, Some ''eucjp''),
    (9, ''DOS737'', 1, None, Some ''cp737''), (10, ''DOS437'', 1, None, Some ''cp437''),
    (11, ''DOS850'', 1, None, Some ''cp850''), (12, ''DOS865'', 1, None, Some ''cp865''),
    (13, ''DOS860'', 1, None, Some ''cp860''), (14, ''DOS863'', 1, None, Some ''cp863''),
    (15, ''DOS775'', 1, None, Some ''cp775''), (16, ''DOS858'', 1, None, Some ''cp858''),
    (17, ''DOS862'', 1, None, Some ''cp862''), (18, ''DOS864'', 1, None, Some ''cp864''),
    (21, ''ISO8859_1'', 1, Some Latin1, None), (22, ''ISO8859_2'', 1, None, Some ''iso-8859-2''),
    (23, ''ISO8859_3'', 1, None, Some ''iso-8859-3''), (34, ''ISO8859_4'', 1, None, Some ''iso-8859-4''),
    (35, ''ISO8859_5'', 1, None, Some ''iso-8859-5''), (36, ''ISO8859_6'', 1, None, Some ''iso-8859-6''),
    (37, ''ISO8859_7'', 1, None, Some ''iso-8859-7''), (38, ''ISO8859_8'', 1, None, Some ''iso-8859-8''),
    (39, ''ISO8859_9'', 1, None, Some ''iso-8859-9''), (40, ''ISO8859_13'', 1, None, Some ''iso-8859-13''),
    (44, ''KSC_5601'', 2, None, Some ''euckr''), (45, ''DOS852'', 1, None, Some ''cp852''),
    (46, ''DOS857'', 1, None, Some ''cp857''), (47, ''DOS861'', 1, None, Some ''cp861''),
    (48, ''DOS866'', 1, None, Some ''cp866''), (49, ''DOS869'', 1, None, Some ''cp869''),
    (50, ''CYRL'', 1, None, Some ''cp866''), (51, ''WIN1250'', 1, None, Some ''win1250''),
    (52, ''WIN1251'', 1, None, Some ''win1251''), (53, ''WIN1252'', 1, None, Some ''win1252''),
    (54, ''WIN1253'', 1, None, Some ''win1253''), (55, ''WIN1254'', 1, None, Some ''win1254''),
    (56, ''BIG_5'', 2, None, Some ''big5''), (57, ''GB_2312'', 2, None, Some ''gb2312''),
    (58, ''WIN1255'', 1, None, Some ''win1255''), (59, ''WIN1256'', 1, None, Some ''win1256''),
    (60, ''WIN1257'', 1, None, Some ''win1257''), (63, ''KOI8R'', 1, None, Some ''koi8-r''),
    (64, ''KOI8U'', 1, None, Some ''koi8-u''), (65, ''WIN1258'', 1, None, Some ''win1258''),
    (66, ''TIS620'', 1, None, Some ''tis620''), (67, ''GBK'', 2, None, Some ''gbk''),
    (68, ''CP943C'', 2, None, Some ''shiftjis''), (69, ''GB18030'', 4, None, Some ''gb18030'')]"

definition charsets :: "charset list" where
  "charsets = map charset_of charset_defs"

definition charset_by_id :: "int \<Rightarrow> charset option" where
  "charset_by_id i = find (\<lambda>c. cs_id c = i) charsets"

definition charset_by_name :: "string \<Rightarrow> charset option" where
  "charset_by_name n = find (\<lambda>c. cs_name c = n) charsets"

definition CS_NONE :: int where "CS_NONE = 0"
definition CS_OCTETS :: int where "CS_OCTETS = 1"

definition charset_alias :: "string \<Rightarrow> string option" where
  "charset_alias u = map_of [(''UTF8'', ''UTF8''), (''LATIN1'', ''ISO8859_1''), (''ISO88591'', ''ISO8859_1''),
     (''BINARY'', ''OCTETS'')] u"

definition resolve_charset :: "string \<Rightarrow> charset res" where
  "resolve_charset name =
     (let upper = filter (\<lambda>c. \<not> (c = CHR ''-'' \<or> is_ws c)) (to_upper name);
          key = (case charset_alias upper of Some a \<Rightarrow> a
            | None \<Rightarrow> if starts_at upper 0 ''WIN_'' then ''WIN'' @ drop 4 upper else upper)
      in case charset_by_name key of Some c \<Rightarrow> Inr c
       | None \<Rightarrow> (case charset_by_name upper of Some c \<Rightarrow> Inr c
         | None \<Rightarrow> Inl (JsError (''Unknown Firebird charset: '' @ name))))"

subsection \<open>Latin-1\<close>

text \<open>
  A character below 256 in UTF-8, and back: the low byte of every UTF-16 unit of the text,
  two of them for a character outside the basic plane.
\<close>

definition utf8_byte :: "byte \<Rightarrow> bytes" where
  "utf8_byte b = (if uint b < 128 then [b] else [word_of_int (192 + uint b div 64), word_of_int (128 + uint b mod 64)])"

fun utf16_low :: "bytes \<Rightarrow> bytes" where
  "utf16_low (a # b # c # d # r) =
     (if uint a < 128 then a # utf16_low (b # c # d # r)
      else if uint a < 224 then word_of_int ((uint a - 192) * 64 + (uint b - 128)) # utf16_low (c # d # r)
      else if uint a < 240 then word_of_int ((uint b - 128) * 64 + (uint c - 128)) # utf16_low (d # r)
      else (let p = (uint a - 240) * 262144 + (uint b - 128) * 4096 + (uint c - 128) * 64 + (uint d - 128) - 65536
        in word_of_int (p div 1024) # word_of_int (p mod 1024) # utf16_low r))"
| "utf16_low (a # b # c # []) =
     (if uint a < 128 then a # utf16_low (b # c # [])
      else if uint a < 224 then word_of_int ((uint a - 192) * 64 + (uint b - 128)) # utf16_low (c # [])
      else [word_of_int ((uint b - 128) * 64 + (uint c - 128))])"
| "utf16_low (a # b # []) =
     (if uint a < 128 then a # utf16_low (b # []) else [word_of_int ((uint a - 192) * 64 + (uint b - 128))])"
| "utf16_low (a # []) = [a]"
| "utf16_low [] = []"

definition latin1_decode :: "bytes \<Rightarrow> string" where
  "latin1_decode bs = bytes_str (concat (map utf8_byte bs))"

definition latin1_encode :: "string \<Rightarrow> bytes" where
  "latin1_encode s = utf16_low (str_bytes s)"

subsection \<open>The codec of a column or parameter\<close>

record decode_context =
  dc_charset :: string
  dc_declared :: "string option"
  dc_field :: "string option"
  dc_relation :: "string option"
  dc_sql_type :: "string option"
  dc_blob_subtype :: "int option"

record encode_context =
  ec_charset :: string
  ec_declared :: "string option"
  ec_sql_type :: "string option"
  ec_blob_subtype :: "int option"

text \<open>The caller's adapter, and what the code uses of iconv-lite.\<close>

record adapter_part =
  ad_from_db :: "bytes \<Rightarrow> decode_context \<Rightarrow> cell res"
  ad_to_db :: "string \<Rightarrow> encode_context \<Rightarrow> bytes res"

record adapter =
  ad_text :: "adapter_part option"
  ad_blob_text :: "adapter_part option"

record iconv =
  ic_decode :: "bytes \<Rightarrow> string \<Rightarrow> string res"
  ic_encode :: "string \<Rightarrow> string \<Rightarrow> bytes res"
  ic_exists :: "string \<Rightarrow> bool"

record text_options =
  xo_connection :: string
  xo_none_encoding :: "string option"
  xo_adapter :: "adapter option"
  xo_overrides :: "(string, string) js_map option"
  xo_strict :: bool

record text_meta =
  xm_charset :: int
  xm_field :: "string option"
  xm_relation :: "string option"
  xm_sql_type :: "string option"
  xm_blob_subtype :: "int option"

fun contains :: "'a list \<Rightarrow> 'a list \<Rightarrow> bool" where
  "contains p [] = (p = [])"
| "contains p (x # xs) = (starts_at (x # xs) 0 p \<or> contains p xs)"

definition replacement_char :: string where
  "replacement_char = [CHR 0xEF, CHR 0xBF, CHR 0xBD]"

definition iconv_decode :: "iconv \<Rightarrow> bytes \<Rightarrow> string \<Rightarrow> bool \<Rightarrow> cell res" where
  "iconv_decode ic b enc strict = rthen (ic_decode ic b enc) (\<lambda>s.
     if strict \<and> contains replacement_char s \<and> 239 \<notin> set b
     then Inl (JsError (''Invalid byte sequence for encoding '' @ enc)) else Inr (CText s))"

definition iconv_codec :: "iconv \<Rightarrow> string \<Rightarrow> bool \<Rightarrow> text_codec" where
  "iconv_codec ic enc strict = \<lparr>tc_decode = (\<lambda>b. iconv_decode ic b enc strict), tc_encode = (\<lambda>s. ic_encode ic s enc)\<rparr>"

definition octets_codec :: "string \<Rightarrow> text_codec" where
  "octets_codec what = \<lparr>tc_decode = (\<lambda>b. Inr (CBytes b)),
     tc_encode = (\<lambda>s. Inl (JsError (''Cannot encode string into '' @ what @ ''; pass a Buffer'')))\<rparr>"

definition node_codec :: "node_encoding \<Rightarrow> text_codec" where
  "node_codec e = (case e of
     Latin1 \<Rightarrow> \<lparr>tc_decode = (\<lambda>b. Inr (CText (latin1_decode b))), tc_encode = (\<lambda>s. Inr (latin1_encode s))\<rparr>
   | Utf8 \<Rightarrow> \<lparr>tc_decode = (\<lambda>b. Inr (CText (bytes_str b))), tc_encode = (\<lambda>s. Inr (str_bytes s))\<rparr>)"

definition codec_for :: "iconv \<Rightarrow> charset \<Rightarrow> text_options \<Rightarrow> text_codec res" where
  "codec_for ic cs opts =
     (if cs_binary cs then Inr (octets_codec ''OCTETS'')
      else case cs_node cs of Some e \<Rightarrow> Inr (node_codec e)
      | None \<Rightarrow> (case cs_iconv cs of
          None \<Rightarrow> Inl (JsError (''No decoder available for Firebird charset '' @ cs_name cs))
        | Some enc \<Rightarrow> if \<not> ic_exists ic enc
            then Inl (JsError (''No decoder available for Firebird charset '' @ cs_name cs))
            else Inr (iconv_codec ic enc (xo_strict opts))))"

definition adapter_codec :: "adapter_part \<Rightarrow> charset option \<Rightarrow> text_meta \<Rightarrow> text_codec" where
  "adapter_codec a declared m =
     (let name = (case declared of Some c \<Rightarrow> cs_name c | None \<Rightarrow> ''NONE'') in
      \<lparr>tc_decode = (\<lambda>b. ad_from_db a b \<lparr>dc_charset = name, dc_declared = map_option cs_name declared, dc_field = xm_field m,
         dc_relation = xm_relation m, dc_sql_type = xm_sql_type m, dc_blob_subtype = xm_blob_subtype m\<rparr>),
       tc_encode = (\<lambda>s. ad_to_db a s \<lparr>ec_charset = name, ec_declared = map_option cs_name declared,
         ec_sql_type = xm_sql_type m, ec_blob_subtype = xm_blob_subtype m\<rparr>)\<rparr>)"

definition adapter_for :: "text_meta \<Rightarrow> text_options \<Rightarrow> adapter_part option" where
  "adapter_for m opts = (case xo_adapter opts of None \<Rightarrow> None | Some a \<Rightarrow>
     if xm_blob_subtype m = Some 1 then (case ad_blob_text a of Some p \<Rightarrow> Some p | None \<Rightarrow> ad_text a) else ad_text a)"

definition non_empty :: "string option \<Rightarrow> string option" where
  "non_empty s = (case s of Some [] \<Rightarrow> None | _ \<Rightarrow> s)"

text \<open>
  The override of a field, qualified or bare. The lookup is that of a plain object: its
  own entries (a field named like a member that every object inherits is left out).
\<close>

definition override_for :: "text_meta \<Rightarrow> text_options \<Rightarrow> string option" where
  "override_for m opts = (case (xo_overrides opts, non_empty (xm_field m)) of
     (Some os, Some f) \<Rightarrow> (case (case non_empty (xm_relation m) of Some r \<Rightarrow> non_empty (jm_get os (r @ ''.'' @ f)) | None \<Rightarrow> None) of
         Some n \<Rightarrow> Some n
       | None \<Rightarrow> non_empty (jm_get os f))
   | _ \<Rightarrow> None)"

definition none_codec :: "iconv \<Rightarrow> text_options \<Rightarrow> text_codec res" where
  "none_codec ic opts = (case non_empty (xo_none_encoding opts) of
     Some enc \<Rightarrow> Inr (iconv_codec ic enc (xo_strict opts))
   | None \<Rightarrow> rthen (if xo_connection opts = [] then Inr None else rthen (resolve_charset (xo_connection opts)) (\<lambda>c. Inr (Some c)))
       (\<lambda>connection. rthen (case connection of
          Some c \<Rightarrow> if cs_id c \<noteq> CS_NONE then Inr c else resolve_charset ''ISO8859_1''
        | None \<Rightarrow> resolve_charset ''ISO8859_1'') (\<lambda>cs. codec_for ic cs opts)))"

definition resolve_text_codec :: "iconv \<Rightarrow> text_meta \<Rightarrow> text_options \<Rightarrow> text_codec res" where
  "resolve_text_codec ic m opts =
     (let declared = charset_by_id (xm_charset m) in
      case adapter_for m opts of Some a \<Rightarrow> Inr (adapter_codec a declared m)
      | None \<Rightarrow> (case override_for m opts of Some n \<Rightarrow> rthen (resolve_charset n) (\<lambda>cs. codec_for ic cs opts)
      | None \<Rightarrow>
          if xm_charset m = CS_OCTETS then Inr (octets_codec ''OCTETS column'')
          else case declared of
            Some c \<Rightarrow> if cs_id c \<noteq> CS_NONE then codec_for ic c opts else none_codec ic opts
          | None \<Rightarrow> none_codec ic opts))"

subsection \<open>Text comes back\<close>

lemma utf16_low_byte: "utf16_low (utf8_byte b @ r) = b # utf16_low r"
proof (cases "uint b < 128")
  case True
  then show ?thesis by (cases r; cases "tl r"; cases "tl (tl r)") (auto simp: utf8_byte_def)
next
  case False
  have b: "uint b < 256" by simp
  define lead :: byte where "lead = word_of_int (192 + uint b div 64)"
  define tail :: byte where "tail = word_of_int (128 + uint b mod 64)"
  have u: "utf8_byte b = [lead, tail]" using False by (simp add: utf8_byte_def lead_def tail_def)
  have "uint b div 64 < 4" "0 \<le> uint b div 64" using b uint_byte_bounds(1) [of b] by linarith+
  then have l: "uint lead = 192 + uint b div 64" unfolding lead_def uint_byte_of_int by (subst mod_pos_pos_trivial) auto
  have t: "uint tail = 128 + uint b mod 64" unfolding tail_def uint_byte_of_int by (subst mod_pos_pos_trivial) auto
  have "word_of_int ((uint lead - 192) * 64 + (uint tail - 128)) = b" unfolding l t by (simp add: div_mult_mod_eq del: of_int_add of_int_mult)
  moreover have "\<not> uint lead < 128" "uint lead < 224" using l \<open>uint b div 64 < 4\<close> \<open>0 \<le> uint b div 64\<close> by simp_all
  ultimately show ?thesis
    unfolding u by (cases r; cases "tl r") simp_all
qed

lemma latin1_roundtrip: "latin1_encode (latin1_decode b) = b"
proof -
  have "utf16_low (concat (map utf8_byte b)) = b"
    by (induction b) (simp_all add: utf16_low_byte)
  then show ?thesis by (simp add: latin1_encode_def latin1_decode_def)
qed

text \<open>
  A column of character set NONE loses nothing: without an adapter, an override or a
  configured encoding, on a connection of character set NONE, every byte sequence decodes
  to a text that encodes to the same bytes.
\<close>

theorem none_column_preserves_bytes:
  assumes "adapter_for m opts = None" and "override_for m opts = None" and "xm_charset m = CS_NONE"
    and "non_empty (xo_none_encoding opts) = None" and "xo_connection opts = ''NONE''"
  shows "\<exists>codec. resolve_text_codec ic m opts = Inr codec
    \<and> (\<forall>b. \<exists>s. tc_decode codec b = Inr (CText s) \<and> tc_encode codec s = Inr b)"
proof -
  have n: "charset_by_id CS_NONE = Some \<lparr>cs_id = 0, cs_name = ''NONE'', cs_max_bytes = 1, cs_node = None, cs_iconv = None, cs_binary = False\<rparr>"
    "resolve_charset ''NONE'' = Inr \<lparr>cs_id = 0, cs_name = ''NONE'', cs_max_bytes = 1, cs_node = None, cs_iconv = None, cs_binary = False\<rparr>"
    "resolve_charset ''ISO8859_1'' = Inr \<lparr>cs_id = 21, cs_name = ''ISO8859_1'', cs_max_bytes = 1, cs_node = Some Latin1,
       cs_iconv = None, cs_binary = False\<rparr>" by code_simp+
  have "resolve_text_codec ic m opts = Inr (node_codec Latin1)"
    unfolding resolve_text_codec_def assms none_codec_def by (simp add: n [unfolded CS_NONE_def] CS_NONE_def CS_OCTETS_def codec_for_def)
  then show ?thesis by (auto simp: node_codec_def latin1_roundtrip)
qed

theorem none_column_preserves_bytes_witness:
  "\<forall>ic. \<exists>codec. resolve_text_codec ic \<lparr>xm_charset = CS_NONE, xm_field = Some ''NOTE'', xm_relation = None, xm_sql_type = Some ''text'',
        xm_blob_subtype = None\<rparr> \<lparr>xo_connection = ''NONE'', xo_none_encoding = None, xo_adapter = None, xo_overrides = None, xo_strict = False\<rparr> = Inr codec
    \<and> (\<forall>b. \<exists>s. tc_decode codec b = Inr (CText s) \<and> tc_encode codec s = Inr b)"
  by (intro allI none_column_preserves_bytes) (simp_all add: adapter_for_def override_for_def non_empty_def)

end
