(* ===== verification/Blob_Pipeline.thy ===== *)
theory Blob_Pipeline
  imports Blob
begin

text \<open>
  \<open>readBlobs\<close> of \<open>protocol/blob.ts\<close>: many blobs read at once, the opens, segments and closes
  of all of them overlapped. Responses come in the order of the requests, so one queue
  says what each response is. The state between two awaits is a record; its updates are
  shared by the loop on the wire and by the run against a server below.
\<close>

subsection \<open>The state\<close>

record blob_state =
  bs_handle :: "int option"
  bs_parts :: "bytes list"
  bs_eof :: bool
  bs_in_flight :: nat
  bs_cap :: nat
  bs_data_segs :: nat

datatype pending = POpen nat | PSeg nat | PClose

text \<open>\<open>pp_next\<close> is \<open>nextToOpen\<close>, \<open>pp_total\<close> is \<open>totalInFlight\<close>.\<close>

record pipe =
  pp_blobs :: "blob_state list"
  pp_pending :: "pending list"
  pp_unflushed :: "pending list"
  pp_next :: nat
  pp_head :: nat
  pp_total :: nat

definition OPEN_AHEAD :: nat where "OPEN_AHEAD = 10"
definition RAMP_START :: nat where "RAMP_START = 4"

definition pipe_start :: "nat \<Rightarrow> pipe" where
  "pipe_start n = \<lparr>pp_blobs = replicate n \<lparr>bs_handle = None, bs_parts = [], bs_eof = False, bs_in_flight = 0,
     bs_cap = RAMP_START, bs_data_segs = 0\<rparr>, pp_pending = [], pp_unflushed = [], pp_next = 0, pp_head = 0, pp_total = 0\<rparr>"

definition upd_blob :: "nat \<Rightarrow> (blob_state \<Rightarrow> blob_state) \<Rightarrow> pipe \<Rightarrow> pipe" where
  "upd_blob i f p = p\<lparr>pp_blobs := (pp_blobs p)[i := f (pp_blobs p ! i)]\<rparr>"

subsection \<open>The requests\<close>

text \<open>\<open>pump\<close>: opens ahead, then segments while the shared window has room.\<close>

function open_ahead :: "int \<Rightarrow> bytes list \<Rightarrow> pipe \<Rightarrow> bytes \<Rightarrow> pipe \<times> bytes" where
  "open_ahead tx ids p out =
     (if pp_next p < length ids \<and> pp_next p < pp_head p + OPEN_AHEAD
      then open_ahead tx ids (p\<lparr>pp_unflushed := pp_unflushed p @ [POpen (pp_next p)], pp_next := Suc (pp_next p)\<rparr>)
        (out @ open_message tx (ids ! pp_next p))
      else (p, out))"
  by pat_completeness auto
termination
  by (relation "measure (\<lambda>(tx, ids, p, out). length ids - pp_next p)") auto

declare open_ahead.simps [simp del]

definition ask_segments :: "int \<Rightarrow> nat \<Rightarrow> pipe \<Rightarrow> pipe \<times> bytes" where
  "ask_segments chunk i p =
     (let b = pp_blobs p ! i in
      case bs_handle b of
        None \<Rightarrow> (p, [])
      | Some h \<Rightarrow> if bs_eof b then (p, [])
          else let cap = min (bs_cap b) (bs_in_flight b + (PIPELINE_DEPTH - pp_total p)); k = cap - bs_in_flight b
            in ((upd_blob i (\<lambda>b. b\<lparr>bs_in_flight := bs_in_flight b + k\<rparr>) p)
                  \<lparr>pp_total := pp_total p + k, pp_unflushed := pp_unflushed p @ replicate k (PSeg i)\<rparr>,
                concat (replicate k (segment_message h chunk))))"

fun fill_window :: "int \<Rightarrow> nat list \<Rightarrow> pipe \<Rightarrow> bytes \<Rightarrow> pipe \<times> bytes" where
  "fill_window chunk [] p out = (p, out)"
| "fill_window chunk (i # is) p out =
     (if pp_total p < PIPELINE_DEPTH
      then case ask_segments chunk i p of (p', o') \<Rightarrow> fill_window chunk is p' (out @ o')
      else (p, out))"

definition pump :: "int \<Rightarrow> bytes list \<Rightarrow> int \<Rightarrow> pipe \<Rightarrow> pipe \<times> bytes" where
  "pump tx ids chunk p = (case open_ahead tx ids p [] of (p, out) \<Rightarrow>
     fill_window chunk [pp_head p..<length (pp_blobs p)] p out)"

definition flush_queue :: "pipe \<Rightarrow> pipe" where
  "flush_queue p = p\<lparr>pp_pending := pp_pending p @ pp_unflushed p, pp_unflushed := []\<rparr>"

definition flush_now :: "pipe \<times> wire \<Rightarrow> pipe \<times> wire" where
  "flush_now = (\<lambda>(p, w). if pp_unflushed p = [] then (p, w) else (flush_queue p, flush w))"

text \<open>
  The head of a turn: the queue is flushed when it is long, or when nothing is awaited;
  nothing is awaited after that when there is nothing to do.
\<close>

definition ready :: "int \<Rightarrow> bytes list \<Rightarrow> int \<Rightarrow> pipe \<times> wire \<Rightarrow> pipe \<times> wire" where
  "ready tx ids chunk = (\<lambda>(p, w). case pump tx ids chunk p of (p, out) \<Rightarrow>
     (let pw = (p, put out w);
          pw = (if 8 \<le> length (pp_unflushed (fst pw)) then flush_now pw else pw)
      in if pp_pending (fst pw) = [] then flush_now pw else pw))"

subsection \<open>The responses\<close>

definition opened :: "nat \<Rightarrow> int \<Rightarrow> pipe \<Rightarrow> pipe" where
  "opened i h = upd_blob i (\<lambda>b. b\<lparr>bs_handle := Some h\<rparr>)"

definition took :: "nat \<Rightarrow> pipe \<Rightarrow> pipe" where
  "took i p = (upd_blob i (\<lambda>b. b\<lparr>bs_in_flight := bs_in_flight b - 1\<rparr>) p)\<lparr>pp_total := pp_total p - 1\<rparr>"

definition add_part :: "bytes \<Rightarrow> blob_state \<Rightarrow> blob_state" where
  "add_part data b = b\<lparr>bs_parts := (if data \<noteq> [] then bs_parts b @ [data] else bs_parts b)\<rparr>"

definition ramp :: "blob_state \<Rightarrow> blob_state" where
  "ramp b = b\<lparr>bs_data_segs := Suc (bs_data_segs b),
     bs_cap := (if bs_cap b \<le> Suc (bs_data_segs b) then min (bs_cap b * 2) PIPELINE_DEPTH else bs_cap b)\<rparr>"

definition next_head :: "pipe \<Rightarrow> pipe" where
  "next_head p = p\<lparr>pp_head := pp_head p + length (takeWhile bs_eof (drop (pp_head p) (pp_blobs p)))\<rparr>"

definition on_segment :: "nat \<Rightarrow> bytes \<times> bool \<Rightarrow> pipe \<Rightarrow> pipe \<times> bytes" where
  "on_segment i seg p =
     (if bs_eof (pp_blobs p ! i) then (p, [])
      else if snd seg
      then (next_head ((upd_blob i (\<lambda>b. (add_part (fst seg) b)\<lparr>bs_eof := True\<rparr>) p)
              \<lparr>pp_unflushed := pp_unflushed p @ [PClose]\<rparr>),
            close_message (the (bs_handle (pp_blobs p ! i))))
      else (upd_blob i (\<lambda>b. ramp (add_part (fst seg) b)) p, []))"

text \<open>
  A failed response: what is queued is sent, every response in flight is consumed, and the
  blobs still open are closed, deferred.
\<close>

definition close_open :: "blob_state \<Rightarrow> wire \<Rightarrow> wire" where
  "close_open b w = (case bs_handle b of None \<Rightarrow> w | Some h \<Rightarrow> if bs_eof b then w else close_blob_deferred h w)"

definition blobs_failed :: "pipe \<Rightarrow> wire \<Rightarrow> wire" where
  "blobs_failed p w = (case flush_now (p, w) of (p, w) \<Rightarrow> fold close_open (pp_blobs p) (drain (length (pp_pending p)) w))"

text \<open>
  The loop. The fuel is enough: a turn consumes bytes, or awaits the response to a close,
  of which there is one per blob, or fails.
\<close>

fun blobs_loop :: "nat \<Rightarrow> int \<Rightarrow> bytes list \<Rightarrow> int \<Rightarrow> pipe \<Rightarrow> pipe rd" where
  "blobs_loop 0 tx ids chunk p = rd_fail ClosedErr"
| "blobs_loop (Suc n) tx ids chunk p = (\<lambda>w.
     case ready tx ids chunk (p, w) of (p, w) \<Rightarrow>
       (case pp_pending p of
          [] \<Rightarrow> (Inr p, w)
        | r # q \<Rightarrow> let p = p\<lparr>pp_pending := q\<rparr> in
            (case r of
               POpen i \<Rightarrow> rd_bind (rd_on_error (blobs_failed p) read_response) (\<lambda>g.
                 blobs_loop n tx ids chunk (opened i (gr_handle g) p)) w
             | PClose \<Rightarrow> rd_bind (rd_swallow read_response) (\<lambda>_. blobs_loop n tx ids chunk p) w
             | PSeg i \<Rightarrow> (let p = took i p in
                 rd_bind (rd_on_error (blobs_failed p) read_segment_response) (\<lambda>seg.
                 case on_segment i seg p of (p, out) \<Rightarrow>
                   rd_bind (rd_do (put out)) (\<lambda>_. blobs_loop n tx ids chunk p)) w))))"

definition read_blobs :: "int \<Rightarrow> bytes list \<Rightarrow> int \<Rightarrow> bytes list rd" where
  "read_blobs tx ids chunk = (case ids of
     [] \<Rightarrow> rd_return []
   | [bid] \<Rightarrow> rd_bind (read_blob tx bid chunk) (\<lambda>d. rd_return [d])
   | _ \<Rightarrow> (\<lambda>w. rd_bind (blobs_loop (length (w_in w) + length ids + 2) tx ids chunk (pipe_start (length ids)))
       (\<lambda>p. rd_return (map (\<lambda>b. concat (bs_parts b)) (pp_blobs p))) w))"

subsection \<open>A server, and the run against it\<close>

text \<open>
  The server opens every blob, answers the segment requests of a blob with its segments,
  the last one marked, and those after the end with empty ones, and answers the closes.
  \<open>blobs_run\<close> lets it answer the requests in the order they were made, and lists the
  answers it gives; \<open>got\<close> counts the segment answers per blob.
\<close>

record server =
  se_open :: "nat \<Rightarrow> answer"
  se_segs :: "nat \<Rightarrow> answer list"
  se_over :: answer
  se_close :: answer

definition segment_answer :: "server \<Rightarrow> nat \<Rightarrow> nat \<Rightarrow> answer" where
  "segment_answer s i k = (if k < length (se_segs s i) then se_segs s i ! k else se_over s)"

definition segment_read :: "answer \<Rightarrow> bytes \<times> bool" where
  "segment_read a = (answer_data a, r_handle (snd a) = BLOB_SEGSTR_EOF_HANDLE)"

definition queued :: "int \<Rightarrow> bytes list \<Rightarrow> int \<Rightarrow> pipe \<Rightarrow> pipe" where
  "queued tx ids chunk p = (let p = fst (pump tx ids chunk p);
       p = (if 8 \<le> length (pp_unflushed p) then flush_queue p else p)
     in if pp_pending p = [] then flush_queue p else p)"

fun blobs_run :: "nat \<Rightarrow> server \<Rightarrow> int \<Rightarrow> bytes list \<Rightarrow> int \<Rightarrow> pipe \<Rightarrow> (nat \<Rightarrow> nat) \<Rightarrow> (answer list \<times> pipe) option" where
  "blobs_run 0 s tx ids chunk p got = None"
| "blobs_run (Suc n) s tx ids chunk p got =
     (let p = queued tx ids chunk p in
      case pp_pending p of
        [] \<Rightarrow> Some ([], p)
      | r # q \<Rightarrow> let p = p\<lparr>pp_pending := q\<rparr> in
          (case r of
             POpen i \<Rightarrow> map_option (\<lambda>(as, p). (se_open s i # as, p))
               (blobs_run n s tx ids chunk (opened i (r_handle (snd (se_open s i))) p) got)
           | PClose \<Rightarrow> map_option (\<lambda>(as, p). (se_close s # as, p)) (blobs_run n s tx ids chunk p got)
           | PSeg i \<Rightarrow> (let a = segment_answer s i (got i) in
               map_option (\<lambda>(as, p). (a # as, p))
                 (blobs_run n s tx ids chunk (fst (on_segment i (segment_read a) (took i p))) (got(i := Suc (got i)))))))"

definition server_ok :: "(int \<Rightarrow> (string \<times> string option) option) \<Rightarrow> server \<Rightarrow> bool" where
  "server_ok m s = ((\<forall>i. good m (se_open s i) \<and> list_all (good m) (se_segs s i) \<and> se_segs s i \<noteq> []
       \<and> r_handle (snd (last (se_segs s i))) = BLOB_SEGSTR_EOF_HANDLE
       \<and> list_all (\<lambda>a. r_handle (snd a) \<noteq> BLOB_SEGSTR_EOF_HANDLE) (butlast (se_segs s i)))
     \<and> good m (se_over s) \<and> answer_ok (se_close s))"

subsection \<open>The loop follows the run\<close>

lemma fst_flush_now: "fst (flush_now pw) = flush_queue (fst pw)"
  by (cases pw) (simp add: flush_now_def flush_queue_def)

lemma fst_ready: "fst (ready tx ids chunk (p, w)) = queued tx ids chunk p"
  by (simp add: ready_def queued_def Let_def fst_flush_now split: prod.split)

lemma flush_written: "w_deferred w = 0 \<Longrightarrow> written [] [] w (flush w)"
  using flush_bytes [of w] by (simp add: written_def)

lemma flush_now_feed: "flush_now (p, feed d w) = (fst (flush_now (p, w)), feed d (snd (flush_now (p, w))))"
  by (simp add: flush_now_def)

lemma ready_feed:
  "ready tx ids chunk (p, feed d w) = (queued tx ids chunk p, feed d (snd (ready tx ids chunk (p, w))))"
proof -
  have "snd (ready tx ids chunk (p, feed d w)) = feed d (snd (ready tx ids chunk (p, w)))"
    by (simp add: ready_def Let_def flush_now_feed put_feed fst_flush_now split: prod.split)
       (auto simp: flush_now_def)
  then show ?thesis by (metis fst_ready prod.collapse)
qed

lemma flush_now_written: "w_deferred w = 0 \<Longrightarrow> written [] [] w (snd (flush_now (p, w)))"
  using flush_written by (simp add: flush_now_def) (simp add: written_def)

lemma ready_written:
  assumes "w_deferred w = 0"
  shows "\<exists>b. written b [] w (snd (ready tx ids chunk (p, w)))"
proof -
  obtain q out where q: "pump tx ids chunk p = (q, out)" by (cases "pump tx ids chunk p")
  have w1: "written out [] w (put out w)" using assms by (rule written_put)
  have step: "written out [] w (snd pw) \<Longrightarrow> written out [] w (snd (flush_now pw))" for pw
    using written_trans [of out "[]" w "snd pw" "[]" "[]"] flush_now_written [of "snd pw" "fst pw"] by (simp add: written_def)
  show ?thesis
    unfolding ready_def Let_def q prod.case by (intro exI [of _ out]) (simp add: step w1)
qed

lemma segment_read_turn:
  assumes "good (w_messages w) a" and "w_deferred w = 0"
  shows "rd_on_error f read_segment_response (feed (enc_answers (a # as)) w) = (Inr (segment_read a), feed (enc_answers as) (settled (fst a) w))"
  using segment_turn [OF assms] by (simp add: segment_read_def del: enc_answers_simps)

lemma segment_answer_good: "server_ok m s \<Longrightarrow> good m (segment_answer s i k)"
  by (auto simp: server_ok_def segment_answer_def list_all_length)

lemma loop_follows_run:
  assumes "blobs_run m s tx ids chunk p got = Some (as, p')" and "server_ok (w_messages w) s" and "w_deferred w = 0" and "m \<le> k"
  shows "\<exists>w' b. blobs_loop k tx ids chunk p (feed (enc_answers as) w) = (Inr p', w') \<and> written b (answers_noise as) w w'"
  using assms
proof (induction m arbitrary: k p got as w)
  case 0
  then show ?case by simp
next
  case (Suc m)
  then obtain n where k: "k = Suc n" "m \<le> n" by (cases k) auto
  define q where "q = queued tx ids chunk p"
  define v where "v = snd (ready tx ids chunk (p, w))"
  obtain b0 where v: "written b0 [] w v" using ready_written [OF Suc.prems(3)] unfolding v_def by blast
  then have vw: "w_messages v = w_messages w" "w_deferred v = 0" by (simp_all add: written_def)
  have rdy: "ready tx ids chunk (p, feed d w) = (q, feed d v)" for d by (simp add: ready_feed q_def v_def)
  note run = Suc.prems(1) [simplified blobs_run.simps Let_def, folded q_def]
  have finish: "\<exists>w' b. blobs_loop k tx ids chunk p (feed (enc_answers (a # as')) w) = (Inr p', w') \<and> written b (answers_noise (a # as')) w w'"
    if "blobs_run m s tx ids chunk p1 got1 = Some (as', p')"
      and "blobs_loop k tx ids chunk p (feed (enc_answers (a # as')) w) = blobs_loop n tx ids chunk p1 (feed (enc_answers as') w1)"
      and "written b1 (fst a) v w1" for a as' p1 got1 w1 b1
  proof -
    have "server_ok (w_messages w1) s" "w_deferred w1 = 0" using that(3) Suc.prems(2) vw by (simp_all add: written_def)
    from Suc.IH [OF that(1) this k(2)] obtain w' b where
      l: "blobs_loop n tx ids chunk p1 (feed (enc_answers as') w1) = (Inr p', w')" "written b (answers_noise as') w1 w'" by blast
    show ?thesis
      using that(2) l(1) written_trans [OF written_trans [OF v that(3)] l(2)] by (metis answers_noise_simps(2) append_Nil)
  qed
  show ?case
  proof (cases "pp_pending q")
    case Nil
    then have "as = []" "p' = q" using run by simp_all
    moreover have "ready tx ids chunk (p, w) = (q, v)" using rdy [of "[]"] by simp
    ultimately show ?thesis using Nil v by (auto simp: k)
  next
    case (Cons r rest)
    define p0 where "p0 = q\<lparr>pp_pending := rest\<rparr>"
    note turn = k(1) blobs_loop.simps rdy Cons Let_def p0_def
    have settles: "written [] (fst a) v (settled (fst a) v)" for a using vw(2) by (simp add: written_def) (simp add: settled_def)
    show ?thesis
    proof (cases r)
      case (POpen i)
      let ?a = "se_open s i"
      obtain as' where r: "blobs_run m s tx ids chunk (opened i (r_handle (snd ?a)) p0) got = Some (as', p')" "as = ?a # as'"
        using run Cons POpen by (auto simp: p0_def)
      have g: "good (w_messages v) ?a" using Suc.prems(2) vw by (simp add: server_ok_def)
      obtain ws where "body_result (w_messages v) (snd ?a) = Inr \<lparr>gr_handle = r_handle (snd ?a), gr_oid = r_oid (snd ?a),
          gr_data = r_data (snd ?a), gr_warnings = ws\<rparr>" using good_result [OF g] by blast
      then have "rd_on_error (blobs_failed p0) read_response (feed (enc_answers (?a # as')) v)
          = (Inr \<lparr>gr_handle = r_handle (snd ?a), gr_oid = r_oid (snd ?a), gr_data = r_data (snd ?a), gr_warnings = ws\<rparr>,
             feed (enc_answers as') (settled (fst ?a) v))"
        using on_error_reads [of ?a v _ _ as'] g vw(2) by (simp add: good_def del: enc_answers_simps)
      then have "blobs_loop k tx ids chunk p (feed (enc_answers (?a # as')) w)
          = blobs_loop n tx ids chunk (opened i (r_handle (snd ?a)) p0) (feed (enc_answers as') (settled (fst ?a) v))"
        by (simp add: turn POpen rd_bind_def del: enc_answers_simps)
      from finish [OF r(1) this settles] show ?thesis by (simp add: r(2))
    next
      case (PSeg i)
      let ?a = "segment_answer s i (got i)"
      obtain p1 out where p1: "on_segment i (segment_read ?a) (took i p0) = (p1, out)" by (cases "on_segment i (segment_read ?a) (took i p0)")
      obtain as' where r: "blobs_run m s tx ids chunk p1 (got(i := Suc (got i))) = Some (as', p')" "as = ?a # as'"
        using run Cons PSeg p1 by (auto simp: p0_def)
      have g: "good (w_messages v) ?a" using segment_answer_good [OF Suc.prems(2)] vw by simp
      have "blobs_loop k tx ids chunk p (feed (enc_answers (?a # as')) w)
          = blobs_loop n tx ids chunk p1 (feed (enc_answers as') (put out (settled (fst ?a) v)))"
        using segment_read_turn [OF g vw(2), of "blobs_failed (took i p0)" as'] p1
        by (simp add: turn PSeg rd_bind_def put_feed del: enc_answers_simps)
      moreover have "written out (fst ?a) v (put out (settled (fst ?a) v))"
        using written_trans [OF settles [of ?a] written_put [of "settled (fst ?a) v" out]] vw(2) by simp
      ultimately show ?thesis using finish [OF r(1)] by (simp add: r(2))
    next
      case PClose
      let ?a = "se_close s"
      obtain as' where r: "blobs_run m s tx ids chunk p0 got = Some (as', p')" "as = ?a # as'"
        using run Cons PClose by (auto simp: p0_def)
      have "answer_ok ?a" using Suc.prems(2) by (simp add: server_ok_def)
      then have "snd (read_response (feed (enc_answers (?a # as')) v)) = feed (enc_answers as') (settled (fst ?a) v)"
        using read_answer [of ?a "feed (enc_answers as') v"] vw(2) by (simp add: settled_feed del: reply_feed)
      then have "blobs_loop k tx ids chunk p (feed (enc_answers (?a # as')) w) = blobs_loop n tx ids chunk p0 (feed (enc_answers as') (settled (fst ?a) v))"
        by (simp add: turn PClose rd_bind_def rd_swallow_def del: enc_answers_simps)
      from finish [OF r(1) this settles] show ?thesis by (simp add: r(2))
    qed
  qed
qed

subsection \<open>The invariant of the pipeline\<close>

text \<open>
  What is outstanding determines the counters; a blob not opened has nothing in flight; a
  blob has the segments it got, and is at its end when it got them all; the head is the
  first blob that is not.
\<close>

definition outstanding :: "pipe \<Rightarrow> pending list" where
  "outstanding p = pp_pending p @ pp_unflushed p"

fun refers :: "nat \<Rightarrow> pending \<Rightarrow> bool" where
  "refers n (POpen i) = (i < n)"
| "refers n (PSeg i) = (i < n)"
| "refers n PClose = True"

definition cell_inv :: "server \<Rightarrow> nat \<Rightarrow> pending list \<Rightarrow> nat \<Rightarrow> nat \<Rightarrow> blob_state \<Rightarrow> bool" where
  "cell_inv s nxt out i g b = (bs_in_flight b = count_list out (PSeg i) \<and> 0 < bs_cap b
     \<and> count_list out (POpen i) = (if bs_handle b = None \<and> i < nxt then 1 else 0)
     \<and> (bs_handle b = None \<longrightarrow> count_list out (PSeg i) = 0 \<and> g = 0) \<and> (nxt \<le> i \<longrightarrow> bs_handle b = None)
     \<and> (bs_eof b \<longleftrightarrow> length (se_segs s i) \<le> g)
     \<and> concat (bs_parts b) = concat (map answer_data (take g (se_segs s i))))"

definition pipe_inv :: "server \<Rightarrow> nat \<Rightarrow> (nat \<Rightarrow> nat) \<Rightarrow> pipe \<Rightarrow> bool" where
  "pipe_inv s n got p = (length (pp_blobs p) = n \<and> pp_next p \<le> n \<and> pp_head p \<le> n
     \<and> (\<forall>i<n. cell_inv s (pp_next p) (outstanding p) i (got i) (pp_blobs p ! i))
     \<and> list_all (refers n) (outstanding p)
     \<and> pp_total p = sum_list (map bs_in_flight (pp_blobs p)) \<and> pp_total p \<le> PIPELINE_DEPTH
     \<and> (\<forall>j<pp_head p. bs_eof (pp_blobs p ! j)) \<and> (pp_head p < n \<longrightarrow> \<not> bs_eof (pp_blobs p ! pp_head p)))"

text \<open>What the writing of requests leaves alone.\<close>

definition same_blobs :: "pipe \<Rightarrow> pipe \<Rightarrow> bool" where
  "same_blobs p q = (length (pp_blobs q) = length (pp_blobs p) \<and> pp_head q = pp_head p
     \<and> (\<forall>i<length (pp_blobs p). bs_handle (pp_blobs q ! i) = bs_handle (pp_blobs p ! i)
          \<and> bs_eof (pp_blobs q ! i) = bs_eof (pp_blobs p ! i)
          \<and> (bs_eof (pp_blobs p ! i) \<longrightarrow> bs_in_flight (pp_blobs q ! i) = bs_in_flight (pp_blobs p ! i)))
     \<and> count_list (outstanding q) PClose = count_list (outstanding p) PClose)"

lemma same_blobs_refl [simp]: "same_blobs p p"
  by (simp add: same_blobs_def)

lemma same_blobs_trans: "same_blobs p q \<Longrightarrow> same_blobs q r \<Longrightarrow> same_blobs p r"
  by (auto simp: same_blobs_def)

lemma count_list_replicate: "count_list (replicate k x) y = (if x = y then k else 0)"
  by (induction k) auto

lemma flush_queue_inv [simp]: "pipe_inv s n got (flush_queue p) = pipe_inv s n got p"
    "same_blobs q (flush_queue p) = same_blobs q p" "outstanding (flush_queue p) = outstanding p"
  by (simp_all add: pipe_inv_def same_blobs_def outstanding_def flush_queue_def)

lemma open_ahead_inv:
  "pipe_inv s (length ids) got p \<Longrightarrow> open_ahead tx ids p out = (q, out') \<Longrightarrow>
     pipe_inv s (length ids) got q \<and> same_blobs p q \<and> \<not> (pp_next q < length ids \<and> pp_next q < pp_head q + OPEN_AHEAD)"
proof (induction tx ids p out arbitrary: q out' rule: open_ahead.induct)
  case (1 tx ids p out)
  let ?p = "p\<lparr>pp_unflushed := pp_unflushed p @ [POpen (pp_next p)], pp_next := Suc (pp_next p)\<rparr>"
  show ?case
  proof (cases "pp_next p < length ids \<and> pp_next p < pp_head p + OPEN_AHEAD")
    case True
    then have "open_ahead tx ids ?p (out @ open_message tx (ids ! pp_next p)) = (q, out')"
      using 1(3) by (subst (asm) open_ahead.simps) simp
    moreover have "pipe_inv s (length ids) got ?p"
      using 1(2) True by (auto simp: pipe_inv_def cell_inv_def outstanding_def less_Suc_eq)
    moreover have "same_blobs p ?p" by (simp add: same_blobs_def outstanding_def)
    ultimately show ?thesis using 1(1) [OF True] same_blobs_trans by blast
  next
    case False
    then show ?thesis using 1(2,3) by (subst (asm) open_ahead.simps) auto
  qed
qed

lemma ask_segments_inv:
  assumes "pipe_inv s n got p" and "i < n" and "ask_segments chunk i p = (q, out)"
  shows "pipe_inv s n got q \<and> same_blobs p q"
proof (cases "bs_handle (pp_blobs p ! i) = None \<or> bs_eof (pp_blobs p ! i)")
  case True
  then have "q = p" using assms(3) by (auto simp: ask_segments_def Let_def split: option.splits)
  then show ?thesis using assms(1) by simp
next
  case False
  define k where "k = min (bs_cap (pp_blobs p ! i)) (bs_in_flight (pp_blobs p ! i) + (PIPELINE_DEPTH - pp_total p)) - bs_in_flight (pp_blobs p ! i)"
  have q: "q = (upd_blob i (\<lambda>b. b\<lparr>bs_in_flight := bs_in_flight b + k\<rparr>) p)\<lparr>pp_total := pp_total p + k,
      pp_unflushed := pp_unflushed p @ replicate k (PSeg i)\<rparr>"
    using False assms(3) by (auto simp: ask_segments_def Let_def k_def)
  have len: "i < length (pp_blobs p)" "length (pp_blobs p) = n" using assms(1,2) by (simp_all add: pipe_inv_def)
  have "pp_total p + k \<le> PIPELINE_DEPTH" using assms(1) unfolding k_def pipe_inv_def by linarith
  moreover have "pp_total q = sum_list (map bs_in_flight (pp_blobs q))"
    using assms(1) len member_le_sum_list [of "bs_in_flight (pp_blobs p ! i)" "map bs_in_flight (pp_blobs p)"]
    by (simp add: q upd_blob_def map_update sum_list_update pipe_inv_def)
  moreover have "cell_inv s (pp_next q) (outstanding q) j (got j) (pp_blobs q ! j)" if "j < n" for j
    using assms(1) False that len by (cases "j = i") (auto simp: pipe_inv_def cell_inv_def outstanding_def q upd_blob_def count_list_replicate)
  ultimately show ?thesis
    using assms(1,2) False len
    by (auto simp: pipe_inv_def same_blobs_def outstanding_def q upd_blob_def count_list_replicate nth_list_update list_all_iff)
qed

lemma fill_window_inv:
  "pipe_inv s n got p \<Longrightarrow> list_all (\<lambda>i. i < n) is \<Longrightarrow> fill_window chunk is p out = (q, out') \<Longrightarrow> pipe_inv s n got q \<and> same_blobs p q"
proof (induction "is" arbitrary: p out)
  case Nil
  then show ?case by simp
next
  case (Cons i js)
  obtain p1 o1 where a: "ask_segments chunk i p = (p1, o1)" by (cases "ask_segments chunk i p")
  then have "pipe_inv s n got p1 \<and> same_blobs p p1" using ask_segments_inv [OF Cons.prems(1) _ a] Cons.prems(2) by simp
  then show ?case
    using Cons.IH [of p1 "out @ o1"] Cons.prems a same_blobs_trans by (auto split: if_splits)
qed

lemma queued_inv:
  assumes "pipe_inv s (length ids) got p"
  shows "pipe_inv s (length ids) got (queued tx ids chunk p) \<and> same_blobs p (queued tx ids chunk p)"
proof -
  obtain q out where q: "open_ahead tx ids p [] = (q, out)" by (cases "open_ahead tx ids p []")
  note o = open_ahead_inv [OF assms q]
  obtain r out' where r: "fill_window chunk [pp_head q..<length (pp_blobs q)] q out = (r, out')"
    by (cases "fill_window chunk [pp_head q..<length (pp_blobs q)] q out")
  have "list_all (\<lambda>i. i < length ids) [pp_head q..<length (pp_blobs q)]" using o by (simp add: list_all_iff pipe_inv_def)
  note f = fill_window_inv [OF conjunct1 [OF o] this r]
  have "pipe_inv s (length ids) got r" "same_blobs p r" using o f same_blobs_trans by blast+
  then show ?thesis
    unfolding queued_def pump_def q prod.case r fst_conv Let_def
    by simp
qed

text \<open>The responses; the work left and the requests that no longer matter go down.\<close>

definition work :: "server \<Rightarrow> nat \<Rightarrow> (nat \<Rightarrow> nat) \<Rightarrow> pipe \<Rightarrow> nat" where
  "work s n got p = (\<Sum>i<n. (length (se_segs s i) - got i) + (if bs_handle (pp_blobs p ! i) = None then 1 else 0))"

definition dregs :: "nat \<Rightarrow> pipe \<Rightarrow> nat" where
  "dregs n p = (\<Sum>i<n. if bs_eof (pp_blobs p ! i) then bs_in_flight (pp_blobs p ! i) else 0) + count_list (outstanding p) PClose"

lemma same_blobs_measure:
  assumes "same_blobs p q" and "length (pp_blobs p) = n"
  shows "work s n got q = work s n got p" and "dregs n q = dregs n p"
proof -
  show "work s n got q = work s n got p" unfolding work_def
    using assms by (intro sum.cong) (auto simp: same_blobs_def)
  have "(\<Sum>i<n. if bs_eof (pp_blobs q ! i) then bs_in_flight (pp_blobs q ! i) else 0)
      = (\<Sum>i<n. if bs_eof (pp_blobs p ! i) then bs_in_flight (pp_blobs p ! i) else 0)"
    using assms by (intro sum.cong) (auto simp: same_blobs_def)
  then show "dregs n q = dregs n p" using assms(1) by (simp add: dregs_def same_blobs_def)
qed

lemma sum_decreases:
  fixes f g :: "nat \<Rightarrow> nat"
  assumes "i < n" and "g i < f i" and "\<And>j. j < n \<Longrightarrow> j \<noteq> i \<Longrightarrow> g j = f j"
  shows "sum g {..<n} < sum f {..<n}"
  using assms by (intro sum_strict_mono_ex1) (auto, metis less_imp_le nat_le_linear)

lemma opened_turn:
  assumes "pipe_inv s n got p" and "pp_pending p = POpen i # rest" and "q = opened i h (p\<lparr>pp_pending := rest\<rparr>)"
  shows "pipe_inv s n got q" and "work s n got q < work s n got p"
proof -
  have i: "i < n" "length (pp_blobs p) = n" using assms(1,2) by (simp_all add: pipe_inv_def outstanding_def)
  have c: "cell_inv s (pp_next p) (outstanding p) i (got i) (pp_blobs p ! i)" using assms(1) i by (simp add: pipe_inv_def)
  then have h: "bs_handle (pp_blobs p ! i) = None" "i < pp_next p"
    using assms(2) by (auto simp: cell_inv_def outstanding_def split: if_splits)
  have b: "cell_inv s (pp_next q) (outstanding q) j (got j) (pp_blobs q ! j)" if "j < n" for j
  proof -
    have "cell_inv s (pp_next p) (outstanding p) j (got j) (pp_blobs p ! j)" using assms(1) that by (simp add: pipe_inv_def)
    then show ?thesis
      using assms(2) i h by (cases "j = i") (auto simp: cell_inv_def outstanding_def assms(3) opened_def upd_blob_def split: if_splits)
  qed
  have t: "map bs_in_flight (pp_blobs q) = map bs_in_flight (pp_blobs p)" "\<And>j. bs_eof (pp_blobs q ! j) = bs_eof (pp_blobs p ! j)"
    using i by (auto simp: assms(3) opened_def upd_blob_def map_update nth_list_update list_update_same_conv)
  show "pipe_inv s n got q"
    using assms(1,2) b t i by (auto simp: pipe_inv_def outstanding_def assms(3) opened_def upd_blob_def)
  show "work s n got q < work s n got p"
    unfolding work_def using i h by (intro sum_decreases [of i]) (auto simp: assms(3) opened_def upd_blob_def)
qed

lemma close_turn:
  assumes "pipe_inv s n got p" and "pp_pending p = PClose # rest" and "q = p\<lparr>pp_pending := rest\<rparr>"
  shows "pipe_inv s n got q" and "work s n got q = work s n got p" and "dregs n q < dregs n p"
proof -
  show "pipe_inv s n got q" using assms by (auto simp: pipe_inv_def cell_inv_def outstanding_def)
  have "pp_blobs q = pp_blobs p" "outstanding p = PClose # outstanding q" using assms(2) by (simp_all add: outstanding_def assms(3))
  then show "work s n got q = work s n got p" "dregs n q < dregs n p" unfolding work_def dregs_def by (simp_all cong: if_cong)
qed

lemma next_head_inv:
  assumes "pp_head p \<le> length (pp_blobs p)" and "\<forall>j<pp_head p. bs_eof (pp_blobs p ! j)"
  shows "pp_head (next_head p) \<le> length (pp_blobs p) \<and> (\<forall>j<pp_head (next_head p). bs_eof (pp_blobs p ! j))
    \<and> (pp_head (next_head p) < length (pp_blobs p) \<longrightarrow> \<not> bs_eof (pp_blobs p ! pp_head (next_head p)))"
proof -
  let ?t = "takeWhile bs_eof (drop (pp_head p) (pp_blobs p))"
  have len: "length ?t \<le> length (pp_blobs p) - pp_head p" using length_takeWhile_le [of bs_eof "drop (pp_head p) (pp_blobs p)"] by simp
  have "bs_eof (pp_blobs p ! j)" if "pp_head p \<le> j" "j < pp_head p + length ?t" for j
  proof -
    have k: "j - pp_head p < length ?t" using that by simp
    have "?t ! (j - pp_head p) = pp_blobs p ! j" using takeWhile_nth [OF k] that(1) assms(1) by simp
    then show ?thesis using nth_mem [OF k] set_takeWhileD by metis
  qed
  moreover have "\<not> bs_eof (pp_blobs p ! (pp_head p + length ?t))" if "pp_head p + length ?t < length (pp_blobs p)"
    using nth_length_takeWhile [of bs_eof "drop (pp_head p) (pp_blobs p)"] that assms(1) by simp
  ultimately show ?thesis
    using assms len unfolding next_head_def by (auto simp: not_less) (metis not_le_imp_less)
qed

text \<open>A segment's response: the blob it is for, before and after.\<close>

definition after_segment :: "bytes \<times> bool \<Rightarrow> blob_state \<Rightarrow> blob_state" where
  "after_segment seg b = (let b' = b\<lparr>bs_in_flight := bs_in_flight b - 1\<rparr> in
     if bs_eof b then b' else if snd seg then (add_part (fst seg) b')\<lparr>bs_eof := True\<rparr> else ramp (add_part (fst seg) b'))"

lemma on_segment_took:
  assumes "i < length (pp_blobs p)" and "q = fst (on_segment i seg (took i p))"
  shows "pp_blobs q = (pp_blobs p)[i := after_segment seg (pp_blobs p ! i)]" and "pp_next q = pp_next p"
    and "pp_pending q = pp_pending p" and "pp_total q = pp_total p - 1"
    and "pp_unflushed q = pp_unflushed p @ (if \<not> bs_eof (pp_blobs p ! i) \<and> snd seg then [PClose] else [])"
    and "pp_head q = (if \<not> bs_eof (pp_blobs p ! i) \<and> snd seg then pp_head (next_head (p\<lparr>pp_blobs := pp_blobs q\<rparr>)) else pp_head p)"
  using assms(1) unfolding assms(2)
  by (simp_all add: on_segment_def took_def upd_blob_def after_segment_def next_head_def Let_def)

lemma after_segment_fields [simp]:
  "bs_handle (after_segment seg b) = bs_handle b" "bs_in_flight (after_segment seg b) = bs_in_flight b - 1"
  "bs_eof (after_segment seg b) = (bs_eof b \<or> snd seg)"
  "concat (bs_parts (after_segment seg b)) = concat (bs_parts b) @ (if bs_eof b then [] else fst seg)"
  "0 < bs_cap b \<Longrightarrow> 0 < bs_cap (after_segment seg b)"
  by (simp_all add: after_segment_def add_part_def ramp_def Let_def PIPELINE_DEPTH_def)

lemma segment_answer_last:
  assumes "server_ok m s"
  shows "k < length (se_segs s i) \<Longrightarrow>
    segment_read (segment_answer s i k) = (answer_data (se_segs s i ! k), Suc k = length (se_segs s i))"
proof -
  assume k: "k < length (se_segs s i)"
  have "r_handle (snd (last (se_segs s i))) = BLOB_SEGSTR_EOF_HANDLE" "se_segs s i \<noteq> []"
    "list_all (\<lambda>a. r_handle (snd a) \<noteq> BLOB_SEGSTR_EOF_HANDLE) (butlast (se_segs s i))"
    using assms by (simp_all add: server_ok_def)
  then have "r_handle (snd (se_segs s i ! k)) = BLOB_SEGSTR_EOF_HANDLE \<longleftrightarrow> Suc k = length (se_segs s i)"
    using k by (cases "k = length (se_segs s i) - 1") (auto simp: last_conv_nth list_all_length nth_butlast)
  then show ?thesis using k by (simp add: segment_read_def segment_answer_def)
qed

lemma segment_cell:
  assumes "server_ok m s" and "cell_inv s nxt (PSeg i # out) i g b" and "out' = out @ (if \<not> bs_eof b \<and> snd seg then [PClose] else [])"
    and "seg = segment_read (segment_answer s i g)"
  shows "cell_inv s nxt out' i (Suc g) (after_segment seg b)"
proof (cases "bs_eof b")
  case True
  then show ?thesis using assms(2,3) by (auto simp: cell_inv_def split: if_splits)
next
  case False
  then have "g < length (se_segs s i)" using assms(2) by (simp add: cell_inv_def)
  from segment_answer_last [OF assms(1) this] this show ?thesis
    using assms(2,3) False by (auto simp: cell_inv_def assms(4) take_Suc_conv_app_nth split: if_splits)
qed

lemma segment_turn_inv:
  assumes "server_ok m s" and "pipe_inv s n got p" and "pp_pending p = PSeg i # rest"
    and "q = fst (on_segment i (segment_read (segment_answer s i (got i))) (took i (p\<lparr>pp_pending := rest\<rparr>)))"
  shows "pipe_inv s n (got(i := Suc (got i))) q"
    and "work s n (got(i := Suc (got i))) q < work s n got p
      \<or> work s n (got(i := Suc (got i))) q = work s n got p \<and> dregs n q < dregs n p"
proof -
  define seg where "seg = segment_read (segment_answer s i (got i))"
  define b where "b = pp_blobs p ! i"
  have i: "i < n" "length (pp_blobs p) = n" using assms(2,3) by (simp_all add: pipe_inv_def outstanding_def)
  have "i < length (pp_blobs (p\<lparr>pp_pending := rest\<rparr>))" using i by simp
  note g = on_segment_took [OF this assms(4) [folded seg_def]]
  have f: "pp_blobs q = (pp_blobs p)[i := after_segment seg b]" "pp_next q = pp_next p" "pp_pending q = rest"
    "pp_total q = pp_total p - 1" "pp_unflushed q = pp_unflushed p @ (if \<not> bs_eof b \<and> snd seg then [PClose] else [])"
    "pp_head q = (if \<not> bs_eof b \<and> snd seg then pp_head (next_head (p\<lparr>pp_blobs := pp_blobs q\<rparr>)) else pp_head p)"
    using g by (simp_all add: b_def next_head_def)
  have out: "outstanding p = PSeg i # rest @ pp_unflushed p" using assms(3) by (simp add: outstanding_def)
  have out': "outstanding q = (rest @ pp_unflushed p) @ (if \<not> bs_eof b \<and> snd seg then [PClose] else [])"
    using f by (simp add: outstanding_def)
  have ci: "cell_inv s (pp_next p) (outstanding p) j (got j) (pp_blobs p ! j)" if "j < n" for j
    using assms(2) that by (simp add: pipe_inv_def)
  have cb: "cell_inv s (pp_next q) (outstanding q) i (Suc (got i)) (after_segment seg b)"
    using segment_cell [OF assms(1) ci [OF i(1), unfolded out, folded b_def] _ seg_def, of "outstanding q"] out' f(2) by simp
  have cells: "cell_inv s (pp_next q) (outstanding q) j ((got(i := Suc (got i))) j) (pp_blobs q ! j)" if "j < n" for j
    using cb ci [OF that] that i by (cases "j = i") (auto simp: f(1,2) out out' cell_inv_def split: if_splits)
  have b_in: "0 < bs_in_flight b" using ci [OF i(1)] by (simp add: cell_inv_def out b_def)
  have h: "bs_handle b \<noteq> None" using ci [OF i(1)] by (auto simp: cell_inv_def out b_def)
  have tot: "pp_total q = sum_list (map bs_in_flight (pp_blobs q))"
    using assms(2) i b_in member_le_sum_list [of "bs_in_flight b" "map bs_in_flight (pp_blobs p)"]
    by (simp add: f(1,4) map_update sum_list_update pipe_inv_def b_def)
  have eofs: "bs_eof (pp_blobs p ! j) \<Longrightarrow> bs_eof (pp_blobs q ! j)" for j
    using i by (cases "j = i") (auto simp: f(1) b_def)
  have hd: "pp_head q \<le> n \<and> (\<forall>j<pp_head q. bs_eof (pp_blobs q ! j)) \<and> (pp_head q < n \<longrightarrow> \<not> bs_eof (pp_blobs q ! pp_head q))"
  proof (cases "\<not> bs_eof b \<and> snd seg")
    case True
    then have "pp_head q = pp_head (next_head (p\<lparr>pp_blobs := pp_blobs q\<rparr>))" using f(6) by (simp add: next_head_def)
    then show ?thesis
      using next_head_inv [of "p\<lparr>pp_blobs := pp_blobs q\<rparr>"] assms(2) eofs i by (simp add: f(1) pipe_inv_def)
  next
    case False
    then have "bs_eof (pp_blobs q ! j) = bs_eof (pp_blobs p ! j)" for j using i by (cases "j = i") (auto simp: f(1) b_def)
    moreover have "pp_head q = pp_head p" using False f(6) by (simp only: if_False)
    ultimately show ?thesis using assms(2) by (simp add: pipe_inv_def)
  qed
  show "pipe_inv s n (got(i := Suc (got i))) q"
    using assms(2) cells tot hd i f(1,2,4) out out' by (auto simp: pipe_inv_def)
  show "work s n (got(i := Suc (got i))) q < work s n got p
      \<or> work s n (got(i := Suc (got i))) q = work s n got p \<and> dregs n q < dregs n p"
  proof (cases "bs_eof b")
    case False
    then have "got i < length (se_segs s i)" using ci [OF i(1)] by (simp add: cell_inv_def b_def)
    then have "work s n (got(i := Suc (got i))) q < work s n got p"
      unfolding work_def using i h by (intro sum_decreases [of i]) (auto simp: f(1) b_def)
    then show ?thesis ..
  next
    case True
    then have "length (se_segs s i) \<le> got i" using ci [OF i(1)] by (simp add: cell_inv_def b_def)
    then have "work s n (got(i := Suc (got i))) q = work s n got p"
      unfolding work_def using i by (intro sum.cong refl) (auto simp: f(1) b_def nth_list_update)
    moreover have "(\<Sum>j<n. if bs_eof (pp_blobs q ! j) then bs_in_flight (pp_blobs q ! j) else 0)
        < (\<Sum>j<n. if bs_eof (pp_blobs p ! j) then bs_in_flight (pp_blobs p ! j) else 0)"
      using True i b_in by (intro sum_decreases [of i]) (auto simp: f(1) b_def)
    ultimately show ?thesis using True by (simp add: dregs_def out out')
  qed
qed

subsection \<open>The end\<close>

lemma fill_window_progress:
  assumes "pp_total p < PIPELINE_DEPTH" and "bs_handle (pp_blobs p ! i) = Some h" and "\<not> bs_eof (pp_blobs p ! i)"
    and "bs_in_flight (pp_blobs p ! i) < bs_cap (pp_blobs p ! i)"
  shows "pp_unflushed (fst (fill_window chunk (i # is) p out)) \<noteq> []"
proof -
  have grows: "pp_unflushed (fst (fill_window chunk js r o')) \<noteq> []" if "pp_unflushed r \<noteq> []" for js r o'
    using that
  proof (induction js arbitrary: r o')
    case (Cons j js)
    have "pp_unflushed (fst (ask_segments chunk j r)) \<noteq> []"
      using Cons.prems by (auto simp: ask_segments_def Let_def split: option.split)
    then show ?case using Cons by (auto split: prod.split)
  qed simp
  have "pp_unflushed (fst (ask_segments chunk i p)) \<noteq> []"
    using assms by (auto simp: ask_segments_def Let_def min_le_iff_disj)
  then show ?thesis using assms(1) by (auto split: prod.split) (metis fst_conv grows)
qed

lemma queued_done:
  assumes "pipe_inv s (length ids) got p" and "pp_pending (queued tx ids chunk p) = []" and "i < length ids"
  shows "bs_eof (pp_blobs (queued tx ids chunk p) ! i)"
proof -
  obtain q out where q: "open_ahead tx ids p [] = (q, out)" by (cases "open_ahead tx ids p []")
  note o = open_ahead_inv [OF assms(1) q]
  define r where "r = fst (fill_window chunk [pp_head q..<length (pp_blobs q)] q out)"
  have e: "queued tx ids chunk p = (let r = (if 8 \<le> length (pp_unflushed r) then flush_queue r else r)
      in if pp_pending r = [] then flush_queue r else r)"
    by (simp add: queued_def pump_def q r_def)
  then have none: "outstanding r = []" and blobs: "pp_blobs (queued tx ids chunk p) = pp_blobs r" "pp_head (queued tx ids chunk p) = pp_head r"
    using assms(2) by (auto simp: Let_def outstanding_def flush_queue_def split: if_splits)
  note inv = queued_inv [OF assms(1), of tx chunk]
  have len: "length (pp_blobs q) = length ids" using o by (simp add: pipe_inv_def)
  have "pp_head q = length ids"
  proof (rule ccontr)
    assume "pp_head q \<noteq> length ids"
    then have h: "pp_head q < length ids" using o by (auto simp: pipe_inv_def le_less)
    have "list_all (\<lambda>i. i < length ids) [pp_head q..<length (pp_blobs q)]" using len by (simp add: list_all_iff)
    from fill_window_inv [OF conjunct1 [OF o] this] have sb: "same_blobs q r" unfolding r_def by (metis prod.collapse)
    have "outstanding q = []"
    proof -
      have "set (outstanding q) \<subseteq> set (outstanding r)"
      proof -
        have "set (outstanding r0) \<subseteq> set (outstanding (fst (fill_window chunk js r0 o')))" for js r0 o'
        proof (induction js arbitrary: r0 o')
          case (Cons j js)
          have "set (outstanding r0) \<subseteq> set (outstanding (fst (ask_segments chunk j r0)))"
            by (auto simp: ask_segments_def Let_def outstanding_def upd_blob_def split: option.split)
          then show ?case using Cons by (auto split: prod.split) (metis fst_conv subsetD)
        qed simp
        then show ?thesis by (simp add: r_def)
      qed
      then show ?thesis using none by simp
    qed
    moreover have c: "cell_inv s (pp_next q) (outstanding q) j (got j) (pp_blobs q ! j)" if "j < length ids" for j
      using o that by (simp add: pipe_inv_def)
    ultimately have "bs_in_flight (pp_blobs q ! j) = 0" if "j < length ids" for j using that by (auto simp: cell_inv_def)
    then have t: "pp_total q = 0" using o len by (auto simp: pipe_inv_def sum_list_eq_0_iff in_set_conv_nth)
    have "pp_head q < pp_next q" using o h by (auto simp: OPEN_AHEAD_def)
    then obtain x where x: "bs_handle (pp_blobs q ! pp_head q) = Some x"
      using c [OF h] \<open>outstanding q = []\<close> by (auto simp: cell_inv_def split: if_splits)
    have u: "[pp_head q..<length (pp_blobs q)] = pp_head q # [Suc (pp_head q)..<length (pp_blobs q)]"
      using h len by (simp add: upt_conv_Cons)
    have "pp_unflushed r \<noteq> []" unfolding r_def u
    proof (rule fill_window_progress [OF _ x])
      show "pp_total q < PIPELINE_DEPTH" by (simp add: t PIPELINE_DEPTH_def)
      show "\<not> bs_eof (pp_blobs q ! pp_head q)" using o h by (simp add: pipe_inv_def)
      show "bs_in_flight (pp_blobs q ! pp_head q) < bs_cap (pp_blobs q ! pp_head q)"
        using c [OF h] \<open>outstanding q = []\<close> by (simp add: cell_inv_def)
    qed
    then show False using none by (simp add: outstanding_def)
  qed
  then have "pp_head (queued tx ids chunk p) = length ids"
    using o inv by (simp add: same_blobs_def)
  then show ?thesis using inv assms(3) by (simp add: pipe_inv_def)
qed

lemma run_ends:
  assumes "server_ok m s" and "pipe_inv s (length ids) got p"
  shows "\<exists>as p'. blobs_run (Suc (length as)) s tx ids chunk p got = Some (as, p')
    \<and> map (\<lambda>b. concat (bs_parts b)) (pp_blobs p') = map (\<lambda>i. concat (map answer_data (se_segs s i))) [0..<length ids]"
  using assms(2)
proof (induction "(p, got)" arbitrary: p got
    rule: wf_induct_rule [OF wf_measures [of "[\<lambda>(p, got). work s (length ids) got p, \<lambda>(p, got). dregs (length ids) p]"]])
  case (1 p got)
  define q where "q = queued tx ids chunk p"
  have q: "pipe_inv s (length ids) got q" "same_blobs p q" using queued_inv [OF 1(2)] by (simp_all add: q_def)
  have meas: "work s (length ids) got q = work s (length ids) got p" "dregs (length ids) q = dregs (length ids) p"
    using same_blobs_measure [OF q(2)] 1(2) by (simp_all add: pipe_inv_def)
  note IH = 1(1) [simplified]
  show ?case
  proof (cases "pp_pending q")
    case Nil
    have "concat (bs_parts (pp_blobs q ! i)) = concat (map answer_data (se_segs s i))" if "i < length ids" for i
      using q(1) queued_done [OF 1(2), of tx chunk i] Nil that by (auto simp: q_def pipe_inv_def cell_inv_def)
    moreover have "length (pp_blobs q) = length ids" using q(1) by (simp add: pipe_inv_def)
    ultimately have "map (\<lambda>b. concat (bs_parts b)) (pp_blobs q) = map (\<lambda>i. concat (map answer_data (se_segs s i))) [0..<length ids]"
      by (intro nth_equalityI) auto
    then show ?thesis using Nil by (intro exI [of _ "[]"] exI [of _ q]) (simp add: Let_def q_def)
  next
    case (Cons r rest)
    note step = q_def [symmetric] Cons Let_def
    show ?thesis
    proof (cases r)
      case (POpen i)
      note t = opened_turn [OF q(1) Cons [unfolded POpen] refl, of "r_handle (snd (se_open s i))"]
      obtain as p' where "blobs_run (Suc (length as)) s tx ids chunk (opened i (r_handle (snd (se_open s i))) (q\<lparr>pp_pending := rest\<rparr>)) got = Some (as, p')"
          "map (\<lambda>b. concat (bs_parts b)) (pp_blobs p') = map (\<lambda>i. concat (map answer_data (se_segs s i))) [0..<length ids]"
        using IH [OF _ t(1)] t(2) meas by auto
      then show ?thesis
        by (intro exI [of _ "se_open s i # as"] exI [of _ p']) (simp add: step POpen del: blobs_run.simps add: blobs_run.simps(2) [of "Suc n" for n])
    next
      case (PSeg i)
      let ?a = "segment_answer s i (got i)"
      note t = segment_turn_inv [OF assms(1) q(1) Cons [unfolded PSeg] refl]
      obtain as p' where "blobs_run (Suc (length as)) s tx ids chunk (fst (on_segment i (segment_read ?a) (took i (q\<lparr>pp_pending := rest\<rparr>)))) (got(i := Suc (got i))) = Some (as, p')"
          "map (\<lambda>b. concat (bs_parts b)) (pp_blobs p') = map (\<lambda>i. concat (map answer_data (se_segs s i))) [0..<length ids]"
        using IH [OF _ t(1)] t(2) meas by auto
      then show ?thesis
        by (intro exI [of _ "?a # as"] exI [of _ p']) (simp add: step PSeg del: blobs_run.simps add: blobs_run.simps(2) [of "Suc n" for n])
    next
      case PClose
      note t = close_turn [OF q(1) Cons [unfolded PClose] refl]
      obtain as p' where "blobs_run (Suc (length as)) s tx ids chunk (q\<lparr>pp_pending := rest\<rparr>) got = Some (as, p')"
          "map (\<lambda>b. concat (bs_parts b)) (pp_blobs p') = map (\<lambda>i. concat (map answer_data (se_segs s i))) [0..<length ids]"
        using IH [OF _ t(1)] t(2,3) meas by auto
      then show ?thesis
        by (intro exI [of _ "se_close s # as"] exI [of _ p']) (simp add: step PClose del: blobs_run.simps add: blobs_run.simps(2) [of "Suc n" for n])
    qed
  qed
qed

lemma pipe_start_inv: "server_ok m s \<Longrightarrow> pipe_inv s n (\<lambda>_. 0) (pipe_start n)"
  by (auto simp: pipe_inv_def pipe_start_def cell_inv_def outstanding_def RAMP_START_def server_ok_def sum_list_replicate)

subsection \<open>Property\<close>



end
