(* ===== verification/Options.thy ===== *)
theory Options
  imports Charsets Tx_Proto
begin

text \<open>
  \<open>api/options.ts\<close>: the connection options a caller gives, with their legacy
  spellings, and \<open>resolveOptions\<close>, which gives every option the driver reads a value
  in its range. An absent option is \<open>None\<close>; numbers are integers (the code takes any
  JavaScript number and does not round).
\<close>

subsection \<open>Blob options\<close>

datatype blob_mode = EagerBlobs | LazyBlobs | LazyBinary | LazyText

text \<open>A mode, or \<open>{ default, eager, lazy }\<close> by column.\<close>

datatype blobs_option = BlobMode blob_mode | BlobColumns "blob_mode option" "string list option" "string list option"

definition default_mode :: "blob_mode option \<Rightarrow> blob_mode" where
  "default_mode m = (case m of Some x \<Rightarrow> x | None \<Rightarrow> EagerBlobs)"

definition names_of :: "string list option \<Rightarrow> string list" where
  "names_of l = (case l of Some ns \<Rightarrow> ns | None \<Rightarrow> [])"

definition blobs_may_produce_lazy :: "blobs_option \<Rightarrow> bool" where
  "blobs_may_produce_lazy b = (case b of
     BlobMode m \<Rightarrow> m \<noteq> EagerBlobs
   | BlobColumns d e l \<Rightarrow> default_mode d \<noteq> EagerBlobs \<or> 0 < length (names_of l))"

text \<open>\<open>ReadColumns columns depth maxBytes\<close> is the object form.\<close>

datatype read_ahead_option = ReadSwitch bool | ReadDepth int | ReadColumns "string list option" "int option" "int option"

record read_ahead =
  ra_columns :: "string list option"
  ra_depth :: int
  ra_max_bytes :: int

definition READ_AHEAD_DEFAULT_BYTES :: int where
  "READ_AHEAD_DEFAULT_BYTES = 16 * 1024 * 1024"

definition or_default :: "'a \<Rightarrow> 'a option \<Rightarrow> 'a" where
  "or_default d v = (case v of Some x \<Rightarrow> x | None \<Rightarrow> d)"

definition resolve_read_ahead :: "read_ahead_option option \<Rightarrow> read_ahead option" where
  "resolve_read_ahead raw = (case raw of
     None \<Rightarrow> None
   | Some (ReadSwitch b) \<Rightarrow> if b then Some \<lparr>ra_columns = None, ra_depth = 1, ra_max_bytes = READ_AHEAD_DEFAULT_BYTES\<rparr> else None
   | Some (ReadDepth n) \<Rightarrow> if n = 0 then None
       else Some \<lparr>ra_columns = None, ra_depth = max 1 n, ra_max_bytes = READ_AHEAD_DEFAULT_BYTES\<rparr>
   | Some (ReadColumns cols d m) \<Rightarrow> Some \<lparr>ra_columns = map_option (map to_lower) cols,
       ra_depth = max 1 (or_default 1 d), ra_max_bytes = max 65536 (or_default READ_AHEAD_DEFAULT_BYTES m)\<rparr>)"

subsection \<open>The options of a connection\<close>

text \<open>\<open>searchPath\<close> is an array, a string, or \<open>null\<close>.\<close>

datatype search_path = PathList "string list" | PathText string | PathNull

record connection_options =
  ro_host :: "string option"
  ro_port :: "int option"
  ro_database :: string
  ro_user :: "string option"
  ro_password :: "string option"
  ro_role :: "string option"
  ro_search_path :: "search_path option"
  ro_owner :: "string option"
  ro_charset :: "string option"
  ro_encoding :: "string option"
  ro_lowercase_keys :: "bool option"
  ro_lowercase_keys_alias :: "bool option"
  ro_page_size :: "int option"
  ro_connect_timeout_ms :: "int option"
  ro_connect_timeout :: "int option"
  ro_wire_crypt :: "wire_crypt_level option"
  ro_wire_compression :: "bool option"
  ro_wire_crypt_plugin :: "string option"
  ro_auth_plugin :: "string option"
  ro_plugin_name :: "string option"
  ro_blob_as_text :: "bool option"
  ro_blobs :: "blobs_option option"
  ro_blob_read_ahead :: "read_ahead_option option"
  ro_max_inline_blob_size :: "int option"
  ro_max_blob_cache_size :: "int option"
  ro_blob_write_chunk_size :: "int option"
  ro_blob_chunk_size :: "int option"
  ro_retry_connection_interval :: "int option"
  ro_blob_read_chunk_size :: "int option"
  ro_fetch_size :: "int option"
  ro_auto_upgrade_read_only :: "bool option"
  ro_default_transaction :: "transaction_options option"
  ro_time_zones :: "tz_mode option"
  ro_charset_none_encoding :: "string option"
  ro_transcode_adapter :: "adapter option"
  ro_charset_overrides :: "(string, string) js_map option"
  ro_statement_cache_size :: "int option"
  ro_srp_seed :: "bytes option"

record resolved_options =
  os_host :: string
  os_port :: int
  os_database :: string
  os_user :: string
  os_password :: string
  os_role :: "string option"
  os_search_path :: "string option"
  os_owner :: "string option"
  os_charset :: string
  os_lowercase_keys :: bool
  os_page_size :: int
  os_connect_timeout_ms :: int
  os_wire_crypt :: wire_crypt_level
  os_wire_compression :: bool
  os_wire_crypt_plugin :: "string option"
  os_auth_plugin :: "string option"
  os_blob_as_text :: bool
  os_blobs :: blobs_option
  os_blob_read_ahead :: "read_ahead option"
  os_max_inline_blob_size :: int
  os_max_blob_cache_size :: int
  os_auto_upgrade_read_only :: bool
  os_default_transaction :: transaction_options
  os_time_zones :: tz_mode
  os_blob_write_chunk_size :: int
  os_blob_read_chunk_size :: int
  os_fetch_size :: int
  os_charset_none_encoding :: "string option"
  os_transcode_adapter :: "adapter option"
  os_charset_overrides :: "(string, string) js_map option"
  os_statement_cache_size :: int
  os_srp_seed :: "bytes option"

definition clamp :: "int \<Rightarrow> int \<Rightarrow> int \<Rightarrow> int" where
  "clamp v lo hi = min (max v lo) hi"

definition resolve_search_path :: "search_path option \<Rightarrow> string option" where
  "resolve_search_path p = (case p of Some (PathList ps) \<Rightarrow> Some (join '', '' ps) | Some (PathText s) \<Rightarrow> Some s | _ \<Rightarrow> None)"

definition resolve_options :: "connection_options \<Rightarrow> resolved_options" where
  "resolve_options raw = \<lparr>
     os_host = or_default ''127.0.0.1'' (ro_host raw),
     os_port = or_default 3050 (ro_port raw),
     os_database = ro_database raw,
     os_user = or_default ''SYSDBA'' (ro_user raw),
     os_password = or_default ''masterkey'' (ro_password raw),
     os_role = ro_role raw,
     os_search_path = resolve_search_path (ro_search_path raw),
     os_owner = ro_owner raw,
     os_charset = to_upper (or_default ''UTF8'' (over (ro_encoding raw) (ro_charset raw))),
     os_lowercase_keys = or_default False (over (ro_lowercase_keys_alias raw) (ro_lowercase_keys raw)),
     os_page_size = or_default 8192 (ro_page_size raw),
     os_connect_timeout_ms = or_default 10000 (over (ro_connect_timeout raw) (ro_connect_timeout_ms raw)),
     os_wire_crypt = or_default Crypt_enabled (ro_wire_crypt raw),
     os_wire_compression = or_default False (ro_wire_compression raw),
     os_wire_crypt_plugin = ro_wire_crypt_plugin raw,
     os_auth_plugin = (if ro_auth_plugin raw = Some ''auto'' then None else over (ro_plugin_name raw) (ro_auth_plugin raw)),
     os_blob_as_text = or_default False (ro_blob_as_text raw),
     os_blobs = or_default (BlobMode EagerBlobs) (ro_blobs raw),
     os_blob_read_ahead = resolve_read_ahead (ro_blob_read_ahead raw),
     os_max_inline_blob_size = clamp (or_default 65535 (ro_max_inline_blob_size raw)) 0 65535,
     os_max_blob_cache_size = max 0 (or_default (10 * 1024 * 1024) (ro_max_blob_cache_size raw)),
     os_auto_upgrade_read_only = or_default False (ro_auto_upgrade_read_only raw),
     os_default_transaction = or_default no_options (ro_default_transaction raw),
     os_time_zones = or_default TzInstant (ro_time_zones raw),
     os_blob_write_chunk_size = clamp (or_default 65535 (over (ro_blob_chunk_size raw) (ro_blob_write_chunk_size raw))) 1 65535,
     os_blob_read_chunk_size = clamp (or_default 65535 (ro_blob_read_chunk_size raw)) 1 65535,
     os_fetch_size = clamp (or_default 400 (ro_fetch_size raw)) 1 65535,
     os_charset_none_encoding = ro_charset_none_encoding raw,
     os_transcode_adapter = ro_transcode_adapter raw,
     os_charset_overrides = ro_charset_overrides raw,
     os_statement_cache_size = clamp (or_default 64 (ro_statement_cache_size raw)) 0 10000,
     os_srp_seed = ro_srp_seed raw\<rparr>"

text \<open>The options of a caller who names a database and nothing else.\<close>

definition only_database :: "string \<Rightarrow> connection_options" where
  "only_database db = \<lparr>ro_host = None, ro_port = None, ro_database = db, ro_user = None, ro_password = None, ro_role = None,
     ro_search_path = None, ro_owner = None, ro_charset = None, ro_encoding = None, ro_lowercase_keys = None,
     ro_lowercase_keys_alias = None, ro_page_size = None, ro_connect_timeout_ms = None, ro_connect_timeout = None,
     ro_wire_crypt = None, ro_wire_compression = None, ro_wire_crypt_plugin = None, ro_auth_plugin = None, ro_plugin_name = None,
     ro_blob_as_text = None, ro_blobs = None, ro_blob_read_ahead = None, ro_max_inline_blob_size = None,
     ro_max_blob_cache_size = None, ro_blob_write_chunk_size = None, ro_blob_chunk_size = None,
     ro_retry_connection_interval = None, ro_blob_read_chunk_size = None, ro_fetch_size = None, ro_auto_upgrade_read_only = None,
     ro_default_transaction = None, ro_time_zones = None, ro_charset_none_encoding = None, ro_transcode_adapter = None,
     ro_charset_overrides = None, ro_statement_cache_size = None, ro_srp_seed = None\<rparr>"

subsection \<open>The ranges the rest of the driver relies on\<close>

definition read_ahead_ok :: "read_ahead \<Rightarrow> bool" where
  "read_ahead_ok r = (1 \<le> ra_depth r \<and> 65536 \<le> ra_max_bytes r)"

definition options_ok :: "resolved_options \<Rightarrow> bool" where
  "options_ok o' = (0 \<le> os_max_inline_blob_size o' \<and> os_max_inline_blob_size o' \<le> 65535 \<and> 0 \<le> os_max_blob_cache_size o'
     \<and> 1 \<le> os_blob_write_chunk_size o' \<and> os_blob_write_chunk_size o' \<le> 65535
     \<and> 1 \<le> os_blob_read_chunk_size o' \<and> os_blob_read_chunk_size o' \<le> 65535
     \<and> 1 \<le> os_fetch_size o' \<and> os_fetch_size o' \<le> 65535 \<and> 0 \<le> os_statement_cache_size o'
     \<and> (case os_blob_read_ahead o' of None \<Rightarrow> True | Some r \<Rightarrow> read_ahead_ok r))"

lemma clamp_range: "lo \<le> hi \<Longrightarrow> lo \<le> clamp v lo hi \<and> clamp v lo hi \<le> hi"
  by (simp add: clamp_def)

lemma clamp_below: "lo < hi \<Longrightarrow> clamp v lo (hi - 1) < hi"
  by (simp add: clamp_def)

lemma resolve_read_ahead_ok: "resolve_read_ahead raw = Some r \<Longrightarrow> read_ahead_ok r"
  by (auto simp: resolve_read_ahead_def read_ahead_ok_def READ_AHEAD_DEFAULT_BYTES_def
      split: option.splits read_ahead_option.splits if_splits)

lemma resolve_options_ok: "options_ok (resolve_options raw)"
  unfolding options_ok_def
  by (simp add: resolve_options_def clamp_def resolve_read_ahead_ok split: option.split)

end
