(* ===== verification/Row_Mapper.thy ===== *)
theory Row_Mapper
  imports Options Expand_Star
begin

text \<open>
  The first half of \<open>api/session.ts\<close>: the options of a statement, the names of SQL
  types, the codec of a described column, and \<open>RowMapper\<close>, which decides per output
  column whether and how it appears in the rows.
\<close>

subsection \<open>Options of a statement\<close>

record query_options =
  qo_blobs :: "blobs_option option"
  qo_exclude :: "string list option"
  qo_only :: "string list option"
  qo_array :: bool
  qo_read_ahead :: "read_ahead_option option"
  qo_fetch_size :: "int option"
  qo_expand_star :: bool

definition plain_query :: query_options where
  "plain_query = \<lparr>qo_blobs = None, qo_exclude = None, qo_only = None, qo_array = False, qo_read_ahead = None,
     qo_fetch_size = None, qo_expand_star = False\<rparr>"

text \<open>
  What the code takes from its environment: the host's zone, iconv-lite, and
  \<open>String(v)\<close> of a double.
\<close>

record environment =
  en_zone :: local_zone
  en_iconv :: iconv
  en_double_text :: "bytes \<Rightarrow> string"

definition fetch_ceiling_for :: "query_options \<Rightarrow> resolved_options \<Rightarrow> int" where
  "fetch_ceiling_for q opts = (case qo_fetch_size q of
     Some n \<Rightarrow> if n = 0 then os_fetch_size opts else min (max 1 n) 65535
   | None \<Rightarrow> os_fetch_size opts)"

subsection \<open>Types and codecs\<close>

definition text_codec_options :: "resolved_options \<Rightarrow> text_options" where
  "text_codec_options opts = \<lparr>xo_connection = os_charset opts, xo_none_encoding = os_charset_none_encoding opts,
     xo_adapter = os_transcode_adapter opts, xo_overrides = os_charset_overrides opts, xo_strict = False\<rparr>"

definition is_blob_type :: "int \<Rightarrow> bool" where
  "is_blob_type t = (sql_type_of t = Some SQL_BLOB)"

definition is_text_type :: "int \<Rightarrow> bool" where
  "is_text_type t = (sql_type_of t = Some SQL_TEXT \<or> sql_type_of t = Some SQL_VARYING \<or> sql_type_of t = Some SQL_NULL)"

definition is_select_type :: "int \<Rightarrow> bool" where
  "is_select_type t = (stmt_type_of t = Some Stmt_select \<or> stmt_type_of t = Some Stmt_select_for_upd)"

definition wants_record_counts :: "int \<Rightarrow> bool" where
  "wants_record_counts t = (stmt_type_of t = Some Stmt_insert \<or> stmt_type_of t = Some Stmt_update
     \<or> stmt_type_of t = Some Stmt_delete \<or> stmt_type_of t = Some Stmt_exec_procedure)"

definition codec_for_desc :: "environment \<Rightarrow> resolved_options \<Rightarrow> sql_var_desc \<Rightarrow> string \<Rightarrow> text_codec res" where
  "codec_for_desc en opts d type_name =
     (let blob = is_blob_type (v_type d) in
      resolve_text_codec (en_iconv en)
        \<lparr>xm_charset = (if blob then v_scale d mod 256 else v_sub_type d mod 256), xm_field = v_field d,
         xm_relation = v_relation d, xm_sql_type = Some type_name,
         xm_blob_subtype = (if blob then Some (v_sub_type d) else None)\<rparr> (text_codec_options opts))"

fun sql_type_text :: "sql_type \<Rightarrow> string" where
  "sql_type_text SQL_TEXT = ''CHAR''"
| "sql_type_text SQL_VARYING = ''VARCHAR''"
| "sql_type_text SQL_SHORT = ''SMALLINT''"
| "sql_type_text SQL_LONG = ''INTEGER''"
| "sql_type_text SQL_FLOAT = ''FLOAT''"
| "sql_type_text SQL_DOUBLE = ''DOUBLE PRECISION''"
| "sql_type_text SQL_D_FLOAT = ''DOUBLE PRECISION''"
| "sql_type_text SQL_TIMESTAMP = ''TIMESTAMP''"
| "sql_type_text SQL_BLOB = ''BLOB''"
| "sql_type_text SQL_ARRAY = ''ARRAY''"
| "sql_type_text SQL_QUAD = ''QUAD''"
| "sql_type_text SQL_TYPE_TIME = ''TIME''"
| "sql_type_text SQL_TYPE_DATE = ''DATE''"
| "sql_type_text SQL_INT64 = ''BIGINT''"
| "sql_type_text SQL_INT128 = ''INT128''"
| "sql_type_text SQL_TIMESTAMP_TZ = ''TIMESTAMP WITH TIME ZONE''"
| "sql_type_text SQL_TIMESTAMP_TZ_EX = ''TIMESTAMP WITH TIME ZONE''"
| "sql_type_text SQL_TIME_TZ = ''TIME WITH TIME ZONE''"
| "sql_type_text SQL_TIME_TZ_EX = ''TIME WITH TIME ZONE''"
| "sql_type_text SQL_DEC16 = ''DECFLOAT(16)''"
| "sql_type_text SQL_DEC34 = ''DECFLOAT(34)''"
| "sql_type_text SQL_BOOLEAN = ''BOOLEAN''"
| "sql_type_text SQL_NULL = ''NULL''"

definition sql_type_name :: "sql_var_desc \<Rightarrow> string" where
  "sql_type_name d =
     (if v_scale d < 0 \<and> sql_type_of (v_type d) \<in> {Some SQL_SHORT, Some SQL_LONG, Some SQL_INT64, Some SQL_INT128}
      then (if v_sub_type d = 2 then ''DECIMAL'' else ''NUMERIC'')
      else if is_blob_type (v_type d) \<and> v_sub_type d = 1 then ''BLOB SUB_TYPE TEXT''
      else (case sql_type_of (v_type d) of Some t \<Rightarrow> sql_type_text t | None \<Rightarrow> ''SQL_TYPE_'' @ dec_int (v_type d)))"

subsection \<open>The mapper\<close>

record column_info =
  ci_name :: string
  ci_field :: "string option"
  ci_relation :: "string option"
  ci_type :: string
  ci_nullable :: bool

text \<open>
  One entry per output column: its key (\<open>None\<close> when it is dropped), whether it is a
  lazy blob, its codec when it is a text blob. \<open>mp_scope\<close> says whether there is a
  scope for lazy handles.
\<close>

record mapper_column =
  mc_key :: "string option"
  mc_lazy :: bool
  mc_codec :: "text_codec option"

record mapper =
  mp_cols :: "mapper_column list"
  mp_array :: bool
  mp_scope :: bool
  mp_eager_blobs :: bool
  mp_columns :: "column_info list"

definition mode_of :: "blobs_option \<Rightarrow> blob_mode" where
  "mode_of b = (case b of BlobMode m \<Rightarrow> m | BlobColumns d _ _ \<Rightarrow> default_mode d)"

definition force_eager :: "blobs_option \<Rightarrow> string list" where
  "force_eager b = (case b of BlobMode m \<Rightarrow> [] | BlobColumns _ e _ \<Rightarrow> map to_lower (names_of e))"

definition force_lazy :: "blobs_option \<Rightarrow> string list" where
  "force_lazy b = (case b of BlobMode m \<Rightarrow> [] | BlobColumns _ _ l \<Rightarrow> map to_lower (names_of l))"

definition lazy_for :: "blob_mode \<Rightarrow> int \<Rightarrow> bool" where
  "lazy_for m sub_type = (m = LazyBlobs \<or> m = LazyBinary \<and> sub_type \<noteq> 1 \<or> m = LazyText \<and> sub_type = 1)"

definition raw_name :: "nat \<Rightarrow> sql_var_desc \<Rightarrow> string" where
  "raw_name i d = (case non_empty (v_alias d) of Some a \<Rightarrow> a
     | None \<Rightarrow> (case non_empty (v_field d) of Some f \<Rightarrow> f | None \<Rightarrow> CHR ''F'' # dec_nat (i + 1)))"

text \<open>Entries are bare (\<open>col\<close>) or qualified (\<open>t2.col\<close>).\<close>

definition qualified_name :: "nat \<Rightarrow> sql_var_desc \<Rightarrow> string option" where
  "qualified_name i d = (case non_empty (v_relation_alias d) of Some a \<Rightarrow> Some (to_lower a @ ''.'' @ to_lower (raw_name i d))
     | None \<Rightarrow> None)"

definition listed :: "string list \<Rightarrow> nat \<Rightarrow> sql_var_desc \<Rightarrow> bool" where
  "listed names i d = (to_lower (raw_name i d) \<in> set names
     \<or> (case qualified_name i d of Some q \<Rightarrow> q \<in> set names | None \<Rightarrow> False))"

definition column_is_kept :: "query_options \<Rightarrow> nat \<Rightarrow> sql_var_desc \<Rightarrow> bool" where
  "column_is_kept q i d = (qo_array q
     \<or> (case qo_only q of None \<Rightarrow> True | Some l \<Rightarrow> listed (map to_lower l) i d)
       \<and> \<not> listed (map to_lower (names_of (qo_exclude q))) i d)"

definition column_is_lazy :: "blobs_option \<Rightarrow> nat \<Rightarrow> sql_var_desc \<Rightarrow> bool" where
  "column_is_lazy b i d = (is_blob_type (v_type d)
     \<and> (if listed (force_lazy b) i d then True
        else if listed (force_eager b) i d then False else lazy_for (mode_of b) (v_sub_type d)))"

definition column_codec :: "environment \<Rightarrow> resolved_options \<Rightarrow> sql_var_desc \<Rightarrow> text_codec option res" where
  "column_codec en opts d = (if is_blob_type (v_type d) \<and> v_sub_type d = 1
     then rthen (codec_for_desc en opts d ''blob'') (\<lambda>c. Inr (Some c)) else Inr None)"

definition map_column ::
  "environment \<Rightarrow> resolved_options \<Rightarrow> query_options \<Rightarrow> blobs_option \<Rightarrow> nat \<times> sql_var_desc \<Rightarrow> mapper_column res" where
  "map_column en opts q b = (\<lambda>(i, d). rthen (column_codec en opts d) (\<lambda>codec. Inr
     \<lparr>mc_key = (if column_is_kept q i d
        then Some (if os_lowercase_keys opts then to_lower (raw_name i d) else raw_name i d) else None),
      mc_lazy = column_is_lazy b i d, mc_codec = codec\<rparr>))"

definition info_of :: "mapper_column \<Rightarrow> sql_var_desc \<Rightarrow> column_info list" where
  "info_of c d = (case mc_key c of None \<Rightarrow> []
     | Some k \<Rightarrow> [\<lparr>ci_name = k, ci_field = v_field d, ci_relation = v_relation d, ci_type = sql_type_name d,
         ci_nullable = v_nullable d\<rparr>])"

text \<open>
  The constructor. A prepared statement's outputs have no holes (\<open>describe_statement\<close>
  fails on one), so \<open>present\<close> is all of them.
\<close>

definition blobs_for :: "resolved_options \<Rightarrow> query_options \<Rightarrow> blobs_option" where
  "blobs_for opts q = or_default (os_blobs opts) (qo_blobs q)"

definition blob_kept :: "bool \<Rightarrow> mapper_column \<Rightarrow> sql_var_desc \<Rightarrow> bool" where
  "blob_kept lazily c d = (mc_key c \<noteq> None \<and> is_blob_type (v_type d) \<and> mc_lazy c = lazily)"

definition new_row_mapper ::
  "environment \<Rightarrow> resolved_options \<Rightarrow> sql_var_desc option list \<Rightarrow> query_options \<Rightarrow> mapper res" where
  "new_row_mapper en opts outputs q =
     (let b = blobs_for opts q; ds = present outputs in
      case find (\<lambda>c. c \<in> set (force_lazy b)) (force_eager b) of
        Some c \<Rightarrow> Inl (fb_error (''blobs: column '' @ [quote] @ c @ [quote] @ '' is listed as both eager and lazy''))
      | None \<Rightarrow> rthen (res_map (map_column en opts q b) (enumerate 0 ds)) (\<lambda>cols. Inr
          \<lparr>mp_cols = cols, mp_array = qo_array q, mp_scope = list_ex (\<lambda>(c, d). blob_kept True c d) (zip cols ds),
           mp_eager_blobs = list_ex (\<lambda>(c, d). blob_kept False c d) (zip cols ds),
           mp_columns = concat (map2 info_of cols ds)\<rparr>))"

definition prefetchable_columns :: "string list option \<Rightarrow> mapper \<Rightarrow> nat list" where
  "prefetchable_columns filt mp = map fst (filter (\<lambda>(i, c). case mc_key c of None \<Rightarrow> False
     | Some k \<Rightarrow> mc_lazy c \<and> (case filt of None \<Rightarrow> True | Some l \<Rightarrow> to_lower k \<in> set l)) (enumerate 0 (mp_cols mp)))"

subsection \<open>Rows as the caller sees them\<close>

text \<open>A blob cell left in a row becomes a handle, with a scope if the mapper has one.\<close>

datatype out_cell = OCell cell | OBlob bytes int bool "text_codec option"

datatype out_row = RObject "(string, out_cell) js_map" | RArray "out_cell list"

definition wrap_cell :: "mapper \<Rightarrow> mapper_column \<Rightarrow> cell \<Rightarrow> out_cell" where
  "wrap_cell mp c v = (case v of CBlobRef bid sub \<Rightarrow> OBlob bid sub (mp_scope mp) (mc_codec c) | _ \<Rightarrow> OCell v)"

text \<open>\<open>obj[key] = v\<close> on a fresh object: its own properties (\<open>__proto__\<close> does not become one).\<close>

definition js_assign :: "('v) \<Rightarrow> string \<Rightarrow> (string, 'v) js_map \<Rightarrow> (string, 'v) js_map" where
  "js_assign v key m = (if key = ''__proto__'' then m else jm_set m key v)"

fun shape_object :: "mapper \<Rightarrow> (mapper_column \<times> cell) list \<Rightarrow> (string, out_cell) js_map \<Rightarrow> (string, out_cell) js_map" where
  "shape_object mp [] m = m"
| "shape_object mp ((c, v) # r) m = shape_object mp r
     (case mc_key c of None \<Rightarrow> m | Some k \<Rightarrow> js_assign (wrap_cell mp c v) k m)"

definition shape_row :: "mapper \<Rightarrow> cell list \<Rightarrow> out_row" where
  "shape_row mp row = (if mp_array mp then RArray (map2 (wrap_cell mp) (mp_cols mp) row)
     else RObject (shape_object mp (zip (mp_cols mp) row) []))"

end
