(* ===== verification/Session.thy ===== *)
theory Session
  imports Row_Mapper Statement_Cache Inline_Cache Blob_Pipeline Named_Params
begin

text \<open>
  The second half of \<open>api/session.ts\<close>: what a statement run does with the wire, the
  statement cache, the cache of star rewrites and the inline blobs of its attachment.
  An operation is a function of the session's state that returns a result or an error
  and the state after it.
\<close>

subsection \<open>Operations on a state that may throw\<close>

type_synonym ('s, 'a) act = "'s \<Rightarrow> 'a res \<times> 's"

definition sn_return :: "'a \<Rightarrow> ('s, 'a) act" where
  "sn_return x = (\<lambda>s. (Inr x, s))"

definition sn_lift :: "'a res \<Rightarrow> ('s, 'a) act" where
  "sn_lift r = (\<lambda>s. (r, s))"

definition sn_bind :: "('s, 'a) act \<Rightarrow> ('a \<Rightarrow> ('s, 'b) act) \<Rightarrow> ('s, 'b) act" where
  "sn_bind m f = (\<lambda>s. case m s of (Inl e, s') \<Rightarrow> (Inl e, s') | (Inr x, s') \<Rightarrow> f x s')"

definition sn_do :: "('s \<Rightarrow> 's) \<Rightarrow> ('s, unit) act" where
  "sn_do f = (\<lambda>s. (Inr (), f s))"

text \<open>\<open>try m catch (err) { ... }\<close>, and \<open>try m finally { ... }\<close> with an action that does not throw.\<close>

definition sn_catch :: "('s, 'a) act \<Rightarrow> (err \<Rightarrow> ('s, 'a) act) \<Rightarrow> ('s, 'a) act" where
  "sn_catch m h = (\<lambda>s. case m s of (Inl e, s') \<Rightarrow> h e s' | (Inr x, s') \<Rightarrow> (Inr x, s'))"

definition sn_finally :: "('s \<Rightarrow> 's) \<Rightarrow> ('s, 'a) act \<Rightarrow> ('s, 'a) act" where
  "sn_finally f m = (\<lambda>s. case m s of (r, s') \<Rightarrow> (r, f s'))"

lemma sn_app [simp]:
  "sn_return x s = (Inr x, s)" "sn_lift r s = (r, s)" "sn_do f s = (Inr (), f s)"
  by (simp_all add: sn_return_def sn_lift_def sn_do_def)

lemma sn_bind_Inr: "m s = (Inr x, s') \<Longrightarrow> sn_bind m f s = f x s'"
  by (simp add: sn_bind_def)

lemma sn_bind_Inl: "m s = (Inl e, s') \<Longrightarrow> sn_bind m f s = (Inl e, s')"
  by (simp add: sn_bind_def)

lemma sn_bind_pure [simp]: "sn_bind (sn_return x) f = f x" "sn_bind (sn_lift (Inr x)) f = f x"
  by (simp_all add: fun_eq_iff sn_bind_def)

lemma sn_bind_do [simp]: "sn_bind (sn_do g) f s = f () (g s)"
  by (simp add: sn_bind_def)

lemma sn_bind_error [simp]: "sn_bind (sn_lift (Inl e)) f = sn_lift (Inl e)"
  by (simp add: fun_eq_iff sn_bind_def)

lemma sn_bind_inv:
  "sn_bind m f s = (Inr y, s'') \<longleftrightarrow> (\<exists>x s'. m s = (Inr x, s') \<and> f x s' = (Inr y, s''))"
  by (auto simp: sn_bind_def split: prod.split sum.split)

lemma sn_bind_assoc: "sn_bind (sn_bind m f) g = sn_bind m (\<lambda>x. sn_bind (f x) g)"
  by (auto simp: fun_eq_iff sn_bind_def split: prod.split sum.split)

subsection \<open>The session\<close>

text \<open>
  \<open>s_next\<close> numbers the statement objects the session makes. The wire's log of inline
  blobs is empty between operations: \<open>onInlineBlob\<close> has put each into the cache, or
  there is no cache to put it into.
\<close>

record session =
  s_wire :: wire
  s_db :: int
  s_cache :: "statement_cache option"
  s_stars :: "(string, string) js_map option"
  s_inline :: "inline_cache option"
  s_next :: nat

definition absorb :: "session \<Rightarrow> session" where
  "absorb s = s\<lparr>s_inline := map_option (fold (\<lambda>(tx, bid, info, data). ic_store tx bid data) (w_inlined (s_wire s))) (s_inline s),
     s_wire := (s_wire s)\<lparr>w_inlined := []\<rparr>\<rparr>"

definition sn_wire :: "'a rd \<Rightarrow> (session, 'a) act" where
  "sn_wire m = (\<lambda>s. case m (s_wire s) of (r, w) \<Rightarrow> (r, absorb (s\<lparr>s_wire := w\<rparr>)))"

definition on_wire :: "(wire \<Rightarrow> wire) \<Rightarrow> session \<Rightarrow> session" where
  "on_wire f s = s\<lparr>s_wire := f (s_wire s)\<rparr>"

definition on_cache :: "(statement_cache \<times> wire \<Rightarrow> statement_cache \<times> wire) \<Rightarrow> session \<Rightarrow> session" where
  "on_cache f s = (case s_cache s of None \<Rightarrow> s
     | Some c \<Rightarrow> (case f (c, s_wire s) of (c', w) \<Rightarrow> s\<lparr>s_cache := Some c', s_wire := w\<rparr>))"

text \<open>\<open>ctx.cache?.get(sql)\<close>, and \<open>ctx.inline?.take(txHandle, id)\<close>.\<close>

definition cache_get :: "string \<Rightarrow> (session, stmt_object option) act" where
  "cache_get sql = (\<lambda>s. case s_cache s of None \<Rightarrow> (Inr None, s)
     | Some c \<Rightarrow> (case sc_get sql c of (r, c') \<Rightarrow> (Inr r, s\<lparr>s_cache := Some c'\<rparr>)))"

definition inline_take :: "int \<Rightarrow> bytes \<Rightarrow> (session, bytes option) act" where
  "inline_take tx bid = (\<lambda>s. case s_inline s of None \<Rightarrow> (Inr None, s)
     | Some ic \<Rightarrow> (case ic_take tx (hex_str bid) ic of (d, ic') \<Rightarrow> (Inr d, s\<lparr>s_inline := Some ic'\<rparr>)))"

subsection \<open>Eager blobs\<close>

definition wanted :: "mapper_column \<Rightarrow> cell \<Rightarrow> bool" where
  "wanted c v = (mc_key c \<noteq> None \<and> \<not> mc_lazy c \<and> (case v of CBlobRef bid sub \<Rightarrow> True | _ \<Rightarrow> False))"

fun blob_id_of :: "cell \<Rightarrow> bytes" where
  "blob_id_of (CBlobRef bid sub) = bid"
| "blob_id_of _ = []"

definition blob_value :: "mapper_column \<Rightarrow> cell \<Rightarrow> bytes \<Rightarrow> cell res" where
  "blob_value c v d = (case (v, mc_codec c) of
     (CBlobRef bid sub, Some codec) \<Rightarrow> if sub = 1 then tc_decode codec d else Inr (CBytes d)
   | _ \<Rightarrow> Inr (CBytes d))"

definition inline_cell :: "int \<Rightarrow> mapper_column \<Rightarrow> cell \<Rightarrow> (session, cell) act" where
  "inline_cell tx c v = (if wanted c v
     then sn_bind (inline_take tx (blob_id_of v)) (\<lambda>d. case d of
       Some data \<Rightarrow> sn_lift (blob_value c v data) | None \<Rightarrow> sn_return v)
     else sn_return v)"

fun inline_row :: "int \<Rightarrow> mapper_column list \<Rightarrow> cell list \<Rightarrow> (session, cell list) act" where
  "inline_row tx (c # cs) (v # vs) = sn_bind (inline_cell tx c v) (\<lambda>v'. sn_bind (inline_row tx cs vs) (\<lambda>vs'. sn_return (v' # vs')))"
| "inline_row tx cs vs = sn_return vs"

fun inline_rows :: "int \<Rightarrow> mapper_column list \<Rightarrow> cell list list \<Rightarrow> (session, cell list list) act" where
  "inline_rows tx cs [] = sn_return []"
| "inline_rows tx cs (r # rs) = sn_bind (inline_row tx cs r) (\<lambda>r'. sn_bind (inline_rows tx cs rs) (\<lambda>rs'. sn_return (r' # rs')))"

definition wanted_ids :: "mapper_column list \<Rightarrow> cell list \<Rightarrow> bytes list" where
  "wanted_ids cs vs = map (blob_id_of \<circ> snd) (filter (\<lambda>(c, v). wanted c v) (zip cs vs))"

fun fill_row :: "mapper_column list \<Rightarrow> cell list \<Rightarrow> bytes list \<Rightarrow> (cell list \<times> bytes list) res" where
  "fill_row (c # cs) (v # vs) ds =
     (if wanted c v
      then (case ds of [] \<Rightarrow> Inl TypeErr
        | d # ds' \<Rightarrow> rthen (blob_value c v d) (\<lambda>v'. rthen (fill_row cs vs ds') (\<lambda>(r, rest). Inr (v' # r, rest))))
      else rthen (fill_row cs vs ds) (\<lambda>(r, rest). Inr (v # r, rest)))"
| "fill_row cs vs ds = Inr (vs, ds)"

fun fill_rows :: "mapper_column list \<Rightarrow> cell list list \<Rightarrow> bytes list \<Rightarrow> cell list list res" where
  "fill_rows cs [] ds = Inr []"
| "fill_rows cs (r # rs) ds = rthen (fill_row cs r ds) (\<lambda>(r', ds'). rthen (fill_rows cs rs ds') (\<lambda>rs'. Inr (r' # rs')))"

definition materialize :: "resolved_options \<Rightarrow> mapper \<Rightarrow> int \<Rightarrow> cell list list \<Rightarrow> (session, cell list list) act" where
  "materialize opts mp tx rows =
     (if \<not> mp_eager_blobs mp then sn_return rows
      else sn_bind (inline_rows tx (mp_cols mp) rows) (\<lambda>rows.
        let ids = concat (map (wanted_ids (mp_cols mp)) rows) in
        if ids = [] then sn_return rows
        else sn_bind (sn_wire (read_blobs tx ids (os_blob_read_chunk_size opts))) (\<lambda>datas.
          sn_lift (fill_rows (mp_cols mp) rows datas))))"

subsection \<open>Preparing\<close>

definition with_codec :: "environment \<Rightarrow> resolved_options \<Rightarrow> sql_var_desc \<times> cell rd \<Rightarrow> cell rd res" where
  "with_codec en opts = (\<lambda>(d, r). if is_text_type (v_type d)
     then rthen (codec_for_desc en opts d ''text'') (\<lambda>c. make_column_reader (en_zone en) d (Some c) Int64Auto (os_time_zones opts))
     else Inr r)"

definition prepare_info :: "environment \<Rightarrow> resolved_options \<Rightarrow> int \<Rightarrow> string \<Rightarrow> (session, stmt_object) act" where
  "prepare_info en opts tx sql =
     sn_bind (\<lambda>s. sn_wire (allocate_and_prepare (en_zone en) Int64Auto (os_time_zones opts) (s_db s) tx sql) s) (\<lambda>st.
     sn_bind (sn_lift (res_map (with_codec en opts) (zip (present (d_outputs (ps_description st))) (ps_readers st)))) (\<lambda>readers s.
       (Inr \<lparr>so_id = s_next s, so_info = st\<lparr>ps_readers := readers\<rparr>\<rparr>, s\<lparr>s_next := Suc (s_next s)\<rparr>)))"

subsection \<open>Parameters\<close>

text \<open>\<open>/^[+-]?\d+$/\<close> and \<open>BigInt(v)\<close>.\<close>

definition is_integer_text :: "string \<Rightarrow> bool" where
  "is_integer_text s = (drop_sign s \<noteq> [] \<and> list_all is_digit (drop_sign s))"

definition bigint_of_text :: "string \<Rightarrow> int" where
  "bigint_of_text s = (if s \<noteq> [] \<and> hd s = CHR ''-'' then - int (digits_val (drop_sign s)) else int (digits_val (drop_sign s)))"

definition number_text :: "environment \<Rightarrow> param_value \<Rightarrow> string option" where
  "number_text en v = (case v of PString s \<Rightarrow> Some s | PNumber n \<Rightarrow> Some (dec_int n) | PBigInt n \<Rightarrow> Some (dec_int n)
     | PDouble b \<Rightarrow> Some (en_double_text en b) | _ \<Rightarrow> None)"

definition blob_payload :: "environment \<Rightarrow> resolved_options \<Rightarrow> sql_var_desc \<Rightarrow> param_value \<Rightarrow> bytes res option" where
  "blob_payload en opts d v = (case v of
     PString s \<Rightarrow> Some (rthen (codec_for_desc en opts d ''blob'') (\<lambda>c. tc_encode c s))
   | PBuffer b \<Rightarrow> Some (Inr b)
   | _ \<Rightarrow> None)"

definition decimal_width :: "int \<Rightarrow> nat option" where
  "decimal_width t = (if sql_type_of t = Some SQL_DEC16 then Some 8 else if sql_type_of t = Some SQL_DEC34 then Some 16 else None)"

text \<open>The branches for a value that is not a blob's: no state is touched.\<close>

definition plain_param ::
  "environment \<Rightarrow> resolved_options \<Rightarrow> sql_var_desc \<Rightarrow> param_value \<Rightarrow> (param_value \<times> text_codec option) res" where
  "plain_param en opts d v =
     (case (decimal_width (v_type d), number_text en v) of
        (Some width, Some t) \<Rightarrow> rthen (encode_dec_float t width) (\<lambda>b. rthen (dec_float_val b) (\<lambda>p. Inr (p, None)))
      | _ \<Rightarrow> (case v of
          PString s \<Rightarrow>
            if sql_type_of (v_type d) = Some SQL_INT128 \<and> is_integer_text s then Inr (PBigInt (bigint_of_text s), None)
            else if is_text_type (v_type d) then rthen (codec_for_desc en opts d ''text'') (\<lambda>c. Inr (v, Some c))
            else Inr (v, None)
        | _ \<Rightarrow> Inr (v, None)))"

definition parameter_text :: "nat \<Rightarrow> string" where
  "parameter_text i = ''Parameter '' @ dec_nat (i + 1) @ '': ''"

definition prepare_param ::
  "environment \<Rightarrow> resolved_options \<Rightarrow> int \<Rightarrow> nat \<Rightarrow> arg \<Rightarrow> sql_var_desc option \<Rightarrow> (session, param_value \<times> text_codec option) act" where
  "prepare_param en opts tx i a d' =
     (if a = AValue PNull then sn_return (PNull, None)
      else case d' of None \<Rightarrow> sn_lift (Inl TypeErr) | Some d \<Rightarrow>
       (case a of
          ALazyBlob \<Rightarrow> sn_lift (Inl (fb_error (parameter_text i @ ''a lazy Blob handle cannot be bound directly '' @ em_dash
            @ '' pass `await blob.buffer()` instead'')))
        | AStream items \<Rightarrow>
            if \<not> is_blob_type (v_type d)
            then sn_lift (Inl (fb_error (parameter_text i @ ''streaming sources are only valid for BLOB columns'')))
            else sn_bind (sn_lift (codec_for_desc en opts d ''blob'')) (\<lambda>c.
              sn_bind (sn_wire (write_blob_stream (tc_encode c) tx items (os_blob_write_chunk_size opts))) (\<lambda>bid.
              sn_return (PBlobRef bid, None)))
        | AValue v \<Rightarrow>
            (case (is_blob_type (v_type d), blob_payload en opts d v) of
               (True, Some r) \<Rightarrow> sn_bind (sn_lift r) (\<lambda>data.
                 sn_bind (sn_wire (write_blob tx data (os_blob_write_chunk_size opts))) (\<lambda>bid. sn_return (PBlobRef bid, None)))
             | _ \<Rightarrow> sn_lift (plain_param en opts d v))))"

fun prepare_each ::
  "environment \<Rightarrow> resolved_options \<Rightarrow> int \<Rightarrow> nat \<Rightarrow> (arg \<times> sql_var_desc option) list
     \<Rightarrow> (session, (param_value \<times> text_codec option) list) act" where
  "prepare_each en opts tx i [] = sn_return []"
| "prepare_each en opts tx i ((a, d) # r) = sn_bind (prepare_param en opts tx i a d) (\<lambda>p.
     sn_bind (prepare_each en opts tx (Suc i) r) (\<lambda>ps. sn_return (p # ps)))"

definition encode_text_with :: "text_codec option list \<Rightarrow> nat \<Rightarrow> string \<Rightarrow> bytes res" where
  "encode_text_with codecs i v = (case at codecs i of Some (Some c) \<Rightarrow> tc_encode c v | _ \<Rightarrow> Inr (str_bytes v))"

definition prepare_params ::
  "environment \<Rightarrow> resolved_options \<Rightarrow> int \<Rightarrow> prepared_statement \<Rightarrow> arg list \<Rightarrow> (session, param_value list \<times> text_codec option list) act" where
  "prepare_params en opts tx st args =
     (let inputs = d_inputs (ps_description st) in
      if length args \<noteq> length inputs
      then sn_lift (Inl (fb_error (''Statement expects '' @ dec_nat (length inputs) @ '' parameter(s), got '' @ dec_nat (length args))))
      else sn_bind (prepare_each en opts tx 0 (zip args inputs)) (\<lambda>ps. sn_return (map fst ps, map snd ps)))"

subsection \<open>Executing a prepared statement\<close>

record query_result =
  qr_rows :: "out_row list"
  qr_rows_affected :: int
  qr_columns :: "column_info list"

text \<open>The rest of the cursor, with fuel: every batch reads its end from the wire.\<close>

fun fetch_rest :: "nat \<Rightarrow> prepared_statement \<Rightarrow> int \<Rightarrow> int \<Rightarrow> fetch_batch \<Rightarrow> (session, cell list list) act" where
  "fetch_rest 0 st max_rows fc b = sn_lift (Inl ClosedErr)"
| "fetch_rest (Suc n) st max_rows fc b = (if fb_eof b then sn_return (fb_rows b)
     else (let fc = next_fetch_count (ps_row_width st) max_rows fc in
       sn_bind (sn_wire (fetch_rows st fc)) (\<lambda>b'. sn_bind (fetch_rest n st max_rows fc b') (\<lambda>rs. sn_return (fb_rows b @ rs)))))"

definition fetch_all :: "prepared_statement \<Rightarrow> int \<Rightarrow> int \<Rightarrow> fetch_batch \<Rightarrow> (session, cell list list) act" where
  "fetch_all st max_rows fc b = (\<lambda>s. fetch_rest (Suc (length (w_in (s_wire s)))) st max_rows fc b s)"

definition proc_rows :: "execute_result \<Rightarrow> cell list list" where
  "proc_rows ex = (case er_proc_row ex of Some r \<Rightarrow> [r] | None \<Rightarrow> [])"

definition result_rows :: "prepared_statement \<Rightarrow> int \<Rightarrow> int \<Rightarrow> execute_result \<Rightarrow> (session, cell list list) act" where
  "result_rows st max_rows fc ex =
     (if er_pending_fetch ex then sn_bind (sn_wire (read_fetch_batch st)) (fetch_all st max_rows fc)
      else sn_return (proc_rows ex))"

definition affected_rows :: "execute_result \<Rightarrow> (session, int) act" where
  "affected_rows ex = (if er_pending_info ex
     then sn_bind (sn_wire read_record_counts) (\<lambda>c. sn_return (rc_inserted c + rc_updated c + rc_deleted c)) else sn_return 0)"

definition first_count :: "resolved_options \<Rightarrow> query_options \<Rightarrow> prepared_statement \<Rightarrow> int" where
  "first_count opts q st = (if is_select_type (d_stmt_type (ps_description st))
     then next_fetch_count (ps_row_width st) (fetch_ceiling_for q opts) 0 else 0)"

definition send_execute ::
  "environment \<Rightarrow> resolved_options \<Rightarrow> query_options \<Rightarrow> int \<Rightarrow> prepared_statement \<Rightarrow> param_value list \<times> text_codec option list \<Rightarrow> bool
     \<Rightarrow> execute_result rd" where
  "send_execute en opts q tx st ps counts = execute_statement (en_zone en) st tx (fst ps) (encode_text_with (snd ps))
     (if is_select_type (d_stmt_type (ps_description st)) then Some (first_count opts q st) else None) counts"

definition execute_prepared ::
  "environment \<Rightarrow> resolved_options \<Rightarrow> query_options \<Rightarrow> int \<Rightarrow> prepared_statement \<Rightarrow> arg list \<Rightarrow> bool \<Rightarrow> (session, query_result) act" where
  "execute_prepared en opts q tx st args close_after =
     (let t = d_stmt_type (ps_description st) in
      sn_bind (sn_lift (new_row_mapper en opts (d_outputs (ps_description st)) q)) (\<lambda>mp.
      sn_bind (prepare_params en opts tx st args) (\<lambda>ps.
      sn_bind (sn_wire (send_execute en opts q tx st ps (wants_record_counts t))) (\<lambda>ex.
      sn_bind (result_rows st (fetch_ceiling_for q opts) (first_count opts q st) ex) (\<lambda>rows.
      sn_bind (affected_rows ex) (\<lambda>affected.
      sn_bind (materialize opts mp tx rows) (\<lambda>rows.
      sn_bind (sn_do (if close_after \<and> is_select_type t then on_wire (free_statement_op (ps_handle st) Free_DSQL_close False) else id)) (\<lambda>_.
      sn_return \<lparr>qr_rows = map (shape_row mp) rows, qr_rows_affected = affected, qr_columns = mp_columns mp\<rparr>))))))))"

subsection \<open>Running a statement\<close>

definition finish_statement :: "string \<Rightarrow> stmt_object \<Rightarrow> session \<Rightarrow> session" where
  "finish_statement sql so s =
     (let t = d_stmt_type (ps_description (so_info so));
          s = (if stmt_type_of t = Some Stmt_ddl then (on_cache sc_clear s)\<lparr>s_stars := map_option (\<lambda>_. []) (s_stars s)\<rparr> else s)
      in if (case s_cache s of Some c \<Rightarrow> 0 < sc_capacity c | None \<Rightarrow> False) \<and> is_cacheable t
         then on_cache (sc_put sql so) s else on_wire (drop_statement (so_handle so)) s)"

text \<open>The key of the cache of rewrites; its parts are separated by NUL.\<close>

definition star_key_of :: "string \<Rightarrow> query_options \<Rightarrow> string" where
  "star_key_of sql q = sql @ [CHR 0x00] @ to_lower (join '','' (names_of (qo_only q)))
     @ [CHR 0x00] @ to_lower (join '','' (names_of (qo_exclude q)))"

definition star_hit :: "string \<Rightarrow> session \<Rightarrow> string option" where
  "star_hit key s = (case s_stars s of None \<Rightarrow> None | Some m \<Rightarrow> jm_get m key)"

definition star_store :: "string \<Rightarrow> string \<Rightarrow> session \<Rightarrow> session" where
  "star_store key rewritten s = s\<lparr>s_stars := Some (jm_set (case s_stars s of None \<Rightarrow> [] | Some m \<Rightarrow> m) key rewritten)\<rparr>"

definition resolve_expand_star ::
  "environment \<Rightarrow> resolved_options \<Rightarrow> query_options \<Rightarrow> int \<Rightarrow> string \<Rightarrow> (session, string) act" where
  "resolve_expand_star en opts q tx sql =
     (if \<not> qo_expand_star q then sn_return sql
      else (\<lambda>s. case star_hit (star_key_of sql q) s of
        Some hit \<Rightarrow> (Inr hit, s)
      | None \<Rightarrow> sn_bind (cache_get sql) (\<lambda>found.
          sn_bind (case found of Some so \<Rightarrow> sn_return so | None \<Rightarrow> prepare_info en opts tx sql) (\<lambda>so.
          sn_bind (sn_lift (expand_star_sql sql (d_outputs (ps_description (so_info so))) (qo_only q) (names_of (qo_exclude q)))) (\<lambda>r.
          let rewritten = (case r of Some t \<Rightarrow> t | None \<Rightarrow> sql) in
          sn_bind (sn_do (if found = None then finish_statement sql so else id)) (\<lambda>_.
          sn_bind (sn_do (star_store (star_key_of sql q) rewritten)) (\<lambda>_. sn_return rewritten))))) s))"

definition STALE_STATEMENT_GDS :: "int list" where
  "STALE_STATEMENT_GDS = [335544343, 335544485]"

definition is_stale_statement_error :: "err \<Rightarrow> bool" where
  "is_stale_statement_error e = (case e of FbError cls msg (Some gds) st args \<Rightarrow> gds \<in> set STALE_STATEMENT_GDS | _ \<Rightarrow> False)"

definition run_fresh ::
  "environment \<Rightarrow> resolved_options \<Rightarrow> query_options \<Rightarrow> int \<Rightarrow> string \<Rightarrow> arg list \<Rightarrow> (session, query_result) act" where
  "run_fresh en opts q tx sql args =
     sn_bind (prepare_info en opts tx sql) (\<lambda>so.
       sn_catch (sn_bind (execute_prepared en opts q tx (so_info so) args True) (\<lambda>r.
           sn_bind (sn_do (finish_statement sql so)) (\<lambda>_. sn_return r)))
         (\<lambda>e. sn_bind (sn_do (on_wire (drop_statement (so_handle so)))) (\<lambda>_. sn_lift (Inl e))))"

definition run_resolved ::
  "environment \<Rightarrow> resolved_options \<Rightarrow> query_options \<Rightarrow> int \<Rightarrow> string \<Rightarrow> arg list \<Rightarrow> (session, query_result) act" where
  "run_resolved en opts q tx sql args =
     sn_bind (cache_get sql) (\<lambda>found. case found of
       None \<Rightarrow> run_fresh en opts q tx sql args
     | Some so \<Rightarrow> sn_catch (sn_bind (execute_prepared en opts q tx (so_info so) args True) (\<lambda>r.
           sn_bind (sn_do (finish_statement sql so)) (\<lambda>_. sn_return r)))
         (\<lambda>e. if \<not> is_stale_statement_error e then sn_lift (Inl e)
           else sn_bind (sn_do (on_cache (sc_remove sql))) (\<lambda>_. run_fresh en opts q tx sql args)))"

definition run_statement ::
  "environment \<Rightarrow> resolved_options \<Rightarrow> query_options \<Rightarrow> int \<Rightarrow> string \<Rightarrow> query_params \<Rightarrow> (session, query_result) act" where
  "run_statement en opts q tx sql params =
     sn_bind (sn_lift (normalize_params sql params)) (\<lambda>(sql, args).
     sn_bind (resolve_expand_star en opts q tx sql) (\<lambda>sql. run_resolved en opts q tx sql args))"

subsection \<open>Streaming\<close>

text \<open>
  The generator \<open>streamRows\<close> as the operations it runs under the lock, one after the
  other; between them it hands out the rows of the batch it holds. The blob
  read-ahead, which only serves reads of lazy handles, is not part of it.
\<close>

record stream_state =
  ss_so :: stmt_object
  ss_found :: bool
  ss_mapper :: mapper
  ss_cursor :: bool
  ss_fc :: int
  ss_eof :: bool

text \<open>The \<open>finally\<close> part, after a failure and without one.\<close>

definition stream_failed :: "string \<Rightarrow> stmt_object \<Rightarrow> bool \<Rightarrow> bool \<Rightarrow> session \<Rightarrow> session" where
  "stream_failed sql so found cursor s =
     (let s = (if cursor then on_wire (free_statement_op (so_handle so) Free_DSQL_close False) s else s);
          s = on_cache (sc_remove sql) s
      in if found then s else on_wire (drop_statement (so_handle so)) s)"

definition stream_ended :: "string \<Rightarrow> stmt_object \<Rightarrow> bool \<Rightarrow> session \<Rightarrow> session" where
  "stream_ended sql so cursor s = finish_statement sql so
     (if cursor then on_wire (free_statement_op (so_handle so) Free_DSQL_close False) s else s)"

definition stream_guard :: "string \<Rightarrow> stmt_object \<Rightarrow> bool \<Rightarrow> bool \<Rightarrow> (session, 'a) act \<Rightarrow> (session, 'a) act" where
  "stream_guard sql so found cursor m =
     sn_catch m (\<lambda>e. sn_bind (sn_do (stream_failed sql so found cursor)) (\<lambda>_. sn_lift (Inl e)))"

definition stream_execute ::
  "environment \<Rightarrow> resolved_options \<Rightarrow> query_options \<Rightarrow> int \<Rightarrow> prepared_statement \<Rightarrow> arg list \<Rightarrow> (session, mapper \<times> execute_result) act" where
  "stream_execute en opts q tx st args =
     sn_bind (sn_lift (new_row_mapper en opts (d_outputs (ps_description st)) q)) (\<lambda>mp.
     sn_bind (prepare_params en opts tx st args) (\<lambda>ps.
     sn_bind (sn_wire (send_execute en opts q tx st ps False)) (\<lambda>ex. sn_return (mp, ex))))"

definition stream_batch :: "resolved_options \<Rightarrow> int \<Rightarrow> mapper \<Rightarrow> fetch_batch rd \<Rightarrow> (session, cell list list \<times> bool) act" where
  "stream_batch opts tx mp m = sn_bind (sn_wire m) (\<lambda>b.
     sn_bind (materialize opts mp tx (fb_rows b)) (\<lambda>rows. sn_return (rows, fb_eof b)))"

definition stream_first ::
  "environment \<Rightarrow> resolved_options \<Rightarrow> query_options \<Rightarrow> int \<Rightarrow> string \<Rightarrow> arg list \<Rightarrow> (session, cell list list \<times> stream_state) act" where
  "stream_first en opts q tx sql args =
     sn_bind (cache_get sql) (\<lambda>found.
     sn_bind (case found of Some so \<Rightarrow> sn_return so | None \<Rightarrow> prepare_info en opts tx sql) (\<lambda>so.
     sn_bind (stream_guard sql so (found \<noteq> None) False (stream_execute en opts q tx (so_info so) args)) (\<lambda>(mp, ex).
     sn_bind (stream_guard sql so (found \<noteq> None) (er_pending_fetch ex)
         (if er_pending_fetch ex then stream_batch opts tx mp (read_fetch_batch (so_info so))
          else sn_bind (materialize opts mp tx (proc_rows ex)) (\<lambda>rows. sn_return (rows, True)))) (\<lambda>(rows, eof).
     sn_return (rows, \<lparr>ss_so = so, ss_found = (found \<noteq> None), ss_mapper = mp, ss_cursor = er_pending_fetch ex,
       ss_fc = first_count opts q (so_info so), ss_eof = eof\<rparr>)))))"

definition stream_next ::
  "resolved_options \<Rightarrow> query_options \<Rightarrow> int \<Rightarrow> string \<Rightarrow> stream_state \<Rightarrow> (session, cell list list \<times> stream_state) act" where
  "stream_next opts q tx sql z =
     (let st = so_info (ss_so z); fc = next_fetch_count (ps_row_width st) (fetch_ceiling_for q opts) (ss_fc z) in
      sn_bind (stream_guard sql (ss_so z) (ss_found z) (ss_cursor z) (stream_batch opts tx (ss_mapper z) (fetch_rows st fc))) (\<lambda>(rows, eof).
      sn_return (rows, z\<lparr>ss_fc := fc, ss_eof := eof\<rparr>)))"

text \<open>A consumer that asks for at most \<open>n\<close> batches after the first.\<close>

fun stream_rest ::
  "resolved_options \<Rightarrow> query_options \<Rightarrow> int \<Rightarrow> string \<Rightarrow> nat \<Rightarrow> stream_state \<Rightarrow> (session, cell list list) act" where
  "stream_rest opts q tx sql 0 z = sn_return []"
| "stream_rest opts q tx sql (Suc n) z = (if ss_eof z then sn_return []
     else sn_bind (stream_next opts q tx sql z) (\<lambda>(rows, z').
       sn_bind (stream_rest opts q tx sql n z') (\<lambda>more. sn_return (rows @ more))))"

definition stream_resolved ::
  "environment \<Rightarrow> resolved_options \<Rightarrow> query_options \<Rightarrow> int \<Rightarrow> string \<Rightarrow> arg list \<Rightarrow> nat \<Rightarrow> (session, out_row list) act" where
  "stream_resolved en opts q tx sql args n =
     sn_bind (stream_first en opts q tx sql args) (\<lambda>(rows, z).
     sn_bind (stream_rest opts q tx sql n z) (\<lambda>more.
     sn_bind (sn_do (stream_ended sql (ss_so z) (ss_cursor z))) (\<lambda>_.
     sn_return (map (shape_row (ss_mapper z)) (rows @ more)))))"

definition stream_rows ::
  "environment \<Rightarrow> resolved_options \<Rightarrow> query_options \<Rightarrow> int \<Rightarrow> string \<Rightarrow> query_params \<Rightarrow> nat \<Rightarrow> (session, out_row list) act" where
  "stream_rows en opts q tx sql params n =
     sn_bind (sn_lift (normalize_params sql params)) (\<lambda>(sql, args).
     sn_bind (resolve_expand_star en opts q tx sql) (\<lambda>sql. stream_resolved en opts q tx sql args n))"

end
