(* ===== verification/Session_Runs.thy ===== *)
theory Session_Runs
  imports Session
begin

text \<open>
  What the operations of a session amount to against a server: a select that is cached,
  its batches one by one, and the stream of the same statement.
\<close>

subsection \<open>The cache around a run\<close>

lemma evict_fits: "int (length m) \<le> cap \<Longrightarrow> evict cap (m, w) = (m, w)"
  by (cases m) auto

lemma put_again:
  assumes "cache_ok c" and "jm_get (sc_map c) sql = Some so" and "0 < sc_capacity c"
  shows "sc_put sql so (snd (sc_get sql c), w) = (c\<lparr>sc_map := jm_delete (sc_map c) sql @ [(sql, so)]\<rparr>, w)"
proof -
  let ?m = "jm_delete (sc_map c) sql @ [(sql, so)]"
  have get: "jm_get ?m sql = Some so" and del: "jm_delete ?m sql = jm_delete (sc_map c) sql"
    by (simp_all add: jm_get_def jm_delete_def AList.delete_conv' map_add_def AList.delete_idem)
      (simp add: AList.delete_eq)
  have "int (length ?m) \<le> sc_capacity c"
    using assms(1) arg_cong [OF delete_splits [OF _ assms(2)], of size]
    by (auto simp: cache_ok_def sc_size_def)
  then have "evict (sc_capacity c) (jm_set (jm_delete ?m sql) sql so, w) = (?m, w)"
    by (simp only: del touch_eq) (rule evict_fits)
  with assms get show ?thesis
    by (simp add: sc_get_def sc_put_def touch_eq)
qed

subsection \<open>What an exchange moves\<close>

definition advanced :: "bytes list \<Rightarrow> session \<Rightarrow> session \<Rightarrow> bool" where
  "advanced msgs s s' = (s_db s' = s_db s \<and> s_cache s' = s_cache s \<and> s_stars s' = s_stars s \<and> s_next s' = s_next s
     \<and> w_in (s_wire s') = w_in (s_wire s) \<and> w_deferred (s_wire s') = w_deferred (s_wire s)
     \<and> w_messages (s_wire s') = w_messages (s_wire s) \<and> w_version (s_wire s') = w_version (s_wire s)
     \<and> w_inline_size (s_wire s') = w_inline_size (s_wire s)
     \<and> concat (w_sent (s_wire s')) @ w_out (s_wire s') = concat (w_sent (s_wire s)) @ w_out (s_wire s) @ concat msgs
     \<and> w_flush_count (s_wire s') = w_flush_count (s_wire s) + length msgs
     \<and> (w_out (s_wire s) = [] \<or> msgs \<noteq> [] \<longrightarrow> w_out (s_wire s') = []))"

lemma advanced_refl: "advanced [] s s"
  by (simp add: advanced_def)

lemma advanced_trans: "advanced a s t \<Longrightarrow> advanced b t u \<Longrightarrow> advanced (a @ b) s u"
  by (auto simp: advanced_def)

lemma absorb_fields [simp]:
  "s_db (absorb s) = s_db s" "s_cache (absorb s) = s_cache s" "s_stars (absorb s) = s_stars s" "s_next (absorb s) = s_next s"
  "s_wire (absorb s) = (s_wire s)\<lparr>w_inlined := []\<rparr>"
  by (simp_all add: absorb_def)

lemma sn_wire_Inr: "m (s_wire s) = (r, w) \<Longrightarrow> sn_wire m s = (r, absorb (s\<lparr>s_wire := w\<rparr>))"
  by (simp add: sn_wire_def)

lemma on_wire_feed_absorb:
  "absorb (s\<lparr>s_wire := feed d w\<rparr>) = on_wire (feed d) (absorb (s\<lparr>s_wire := w\<rparr>))"
  by (simp add: absorb_def on_wire_def feed_def)

lemma on_wire_wire [simp]: "s_wire (on_wire f s) = f (s_wire s)"
  by (simp add: on_wire_def)

lemma on_wire_twice [simp]: "(on_wire f s)\<lparr>s_wire := w\<rparr> = s\<lparr>s_wire := w\<rparr>"
  by (simp add: on_wire_def)

text \<open>One packet sent, with everything awaited consumed.\<close>

lemma advanced_exchange:
  assumes "m \<noteq> []" and "w_deferred (s_wire s) = 0"
  shows "advanced [m] s (absorb (s\<lparr>s_wire := settled ns (send m (s_wire s))\<rparr>))"
  using assms send_sent [OF assms(1), of "s_wire s"] send_flush_count [OF assms(1), of "s_wire s"]
  by (simp add: advanced_def)

subsection \<open>The batches of a cursor\<close>

type_synonym batch = "fetched list \<times> noise list"

definition batch_ok :: "cell rd list \<Rightarrow> batch \<Rightarrow> bool" where
  "batch_ok readers b = (list_all (fetched_ok readers) (fst b) \<and> quiet (snd b))"

definition batch_rows :: "batch \<Rightarrow> cell list list" where
  "batch_rows b = map fetched_cells (fst b)"

fun enc_batches :: "batch list \<Rightarrow> bytes" where
  "enc_batches [] = []"
| "enc_batches (b # bs) = enc_fetch (fst b) (snd b) (bs = []) @ enc_batches bs"

text \<open>The requests the client makes for \<open>k\<close> batches after the first.\<close>

fun fetch_messages :: "prepared_statement \<Rightarrow> int \<Rightarrow> int \<Rightarrow> nat \<Rightarrow> bytes list" where
  "fetch_messages st max_rows fc 0 = []"
| "fetch_messages st max_rows fc (Suc k) = (let fc = next_fetch_count (ps_row_width st) max_rows fc in
     fetch_message st fc # fetch_messages st max_rows fc k)"

lemma fetch_message_nonempty: "fetch_message st n \<noteq> []"
proof -
  have "0 < length (fetch_message st n)" by (simp add: fetch_message_def del: length_greater_0_conv)
  then show ?thesis unfolding length_greater_0_conv .
qed

lemma fetch_rows_batch:
  assumes "batch_ok (ps_readers st) b" and "w_deferred (s_wire s) = 0"
  shows "\<exists>s'. sn_wire (fetch_rows st n) (on_wire (feed (enc_fetch (fst b) (snd b) eof @ rest)) s)
      = (Inr \<lparr>fb_rows = batch_rows b, fb_eof = eof\<rparr>, on_wire (feed rest) s') \<and> advanced [fetch_message st n] s s'"
proof -
  let ?w = "send (fetch_message st n) (s_wire s)"
  have "fetch_rows st n (feed (enc_fetch (fst b) (snd b) eof @ rest) (s_wire s))
      = (Inr \<lparr>fb_rows = batch_rows b, fb_eof = eof\<rparr>, feed rest (settled (fetch_noise (fst b) @ snd b) ?w))"
    using read_fetch_batch_feed [of "[]" "feed rest ?w" st "fst b" "snd b" eof] assms
    by (simp add: fetch_rows_def rd_bind_def batch_ok_def batch_rows_def noise_fits_def settled_feed)
  then have "sn_wire (fetch_rows st n) (on_wire (feed (enc_fetch (fst b) (snd b) eof @ rest)) s)
      = (Inr \<lparr>fb_rows = batch_rows b, fb_eof = eof\<rparr>,
         on_wire (feed rest) (absorb (s\<lparr>s_wire := settled (fetch_noise (fst b) @ snd b) ?w\<rparr>)))"
    by (simp add: sn_wire_def on_wire_feed_absorb)
  then show ?thesis
    using advanced_exchange [where m = "fetch_message st n" and s = s and ns = "fetch_noise (fst b) @ snd b"] fetch_message_nonempty assms(2) by auto
qed

lemma length_enc_batches: "length bs \<le> length (enc_batches bs)"
proof (induction bs)
  case (Cons b bs)
  have "0 < length (enc_fetch (fst b) (snd b) (bs = []))"
    by (simp add: enc_fetch_def enc_fetch_end_def del: length_greater_0_conv)
  then have "1 \<le> length (enc_fetch (fst b) (snd b) (bs = []))" by linarith
  then show ?case using Cons by (simp del: One_nat_def)
qed simp

lemma fetch_rest_batches:
  assumes "list_all (batch_ok (ps_readers st)) bs" and "w_deferred (s_wire s) = 0" and "length bs < n"
  shows "\<exists>s'. fetch_rest n st mx fc \<lparr>fb_rows = rows, fb_eof = (bs = [])\<rparr> (on_wire (feed (enc_batches bs)) s)
      = (Inr (rows @ concat (map batch_rows bs)), s') \<and> advanced (fetch_messages st mx fc (length bs)) s s'"
  using assms
proof (induction bs arbitrary: n s fc rows)
  case Nil
  then show ?case
    by (cases n) (auto simp: on_wire_def feed_def advanced_refl intro!: exI [of _ s])
next
  case (Cons b bs)
  then obtain k where n: "n = Suc k" by (cases n) auto
  define fc' where "fc' = next_fetch_count (ps_row_width st) mx fc"
  obtain s1 where s1: "sn_wire (fetch_rows st fc') (on_wire (feed (enc_fetch (fst b) (snd b) (bs = []) @ enc_batches bs)) s)
      = (Inr \<lparr>fb_rows = batch_rows b, fb_eof = (bs = [])\<rparr>, on_wire (feed (enc_batches bs)) s1)" "advanced [fetch_message st fc'] s s1"
    using fetch_rows_batch [of st b s fc' "bs = []" "enc_batches bs"] Cons.prems by auto
  obtain s2 where s2: "fetch_rest k st mx fc' \<lparr>fb_rows = batch_rows b, fb_eof = (bs = [])\<rparr> (on_wire (feed (enc_batches bs)) s1)
      = (Inr (batch_rows b @ concat (map batch_rows bs)), s2)" "advanced (fetch_messages st mx fc' (length bs)) s1 s2"
    using Cons.IH [where s = s1 and n = k and rows = "batch_rows b" and fc = fc'] Cons.prems s1(2) n by (auto simp: advanced_def)
  have "advanced (fetch_messages st mx fc (length (b # bs))) s s2"
    using advanced_trans [OF s1(2) s2(2)] by (simp add: fc'_def Let_def)
  moreover have "fetch_rest n st mx fc \<lparr>fb_rows = rows, fb_eof = (b # bs = [])\<rparr> (on_wire (feed (enc_batches (b # bs))) s)
      = (Inr (rows @ concat (map batch_rows (b # bs))), s2)"
    using s1(1) s2(1) by (simp add: n fc'_def [symmetric] Let_def sn_bind_def)
  ultimately show ?case by blast
qed

subsection \<open>Parameters that are not blobs\<close>

definition plain_params ::
  "environment \<Rightarrow> resolved_options \<Rightarrow> sql_var_desc list \<Rightarrow> param_value list \<Rightarrow> (param_value \<times> text_codec option) list res" where
  "plain_params en opts ds vs = res_map (\<lambda>(v, d). plain_param en opts d v) (zip vs ds)"

lemma plain_null: "plain_param en opts d PNull = Inr (PNull, None)"
  by (auto simp: plain_param_def number_text_def split: option.splits)

lemma prepare_param_plain:
  "\<not> is_blob_type (v_type d) \<Longrightarrow> prepare_param en opts tx i (AValue v) (Some d) = sn_lift (plain_param en opts d v)"
  by (auto simp: prepare_param_def plain_null fun_eq_iff)

lemma prepare_each_plain:
  assumes "list_all (\<lambda>d. \<not> is_blob_type (v_type d)) ds" and "plain_params en opts ds vs = Inr ps"
  shows "prepare_each en opts tx i (zip (map AValue vs) (map Some ds)) = sn_return ps"
  using assms
proof (induction ds arbitrary: i vs ps)
  case Nil
  then show ?case by (simp add: plain_params_def)
next
  case (Cons d ds)
  then show ?case
  proof (cases vs)
    case (Cons v us)
    then obtain p qs where "plain_param en opts d v = Inr p" "plain_params en opts ds us = Inr qs" "ps = p # qs"
      using \<open>plain_params en opts (d # ds) vs = Inr ps\<close> by (auto simp: plain_params_def rthen_def split: sum.splits)
    with Cons Cons.IH [of us qs] Cons.prems show ?thesis
      by (simp add: prepare_param_plain) (simp add: sn_lift_def sn_return_def sn_bind_def)
  qed (simp add: plain_params_def)
qed

lemma prepare_params_plain:
  assumes "d_inputs (ps_description st) = map Some ds" and "length vs = length ds"
    and "list_all (\<lambda>d. \<not> is_blob_type (v_type d)) ds" and "plain_params en opts ds vs = Inr ps"
  shows "prepare_params en opts tx st (map AValue vs) = sn_return (map fst ps, map snd ps)"
  using assms prepare_each_plain [OF assms(3,4)] by (simp add: prepare_params_def fun_eq_iff sn_bind_def)

subsection \<open>A select, executed\<close>

lemma select_facts:
  assumes "is_select_type (d_stmt_type d)"
  shows "\<not> uses_execute2 d" "\<not> wants_record_counts (d_stmt_type d)" "is_cacheable (d_stmt_type d)"
    "stmt_type_of (d_stmt_type d) \<noteq> Some Stmt_ddl"
proof -
  have t: "d_stmt_type d = 1 \<or> d_stmt_type d = 12"
    using assms by (auto simp: is_select_type_def dest!: stmt_type_of_Some)
  then show "\<not> uses_execute2 d" by (auto simp: uses_execute2_def)
  show "\<not> wants_record_counts (d_stmt_type d)" "is_cacheable (d_stmt_type d)" "stmt_type_of (d_stmt_type d) \<noteq> Some Stmt_ddl"
    using assms by (auto simp: is_select_type_def wants_record_counts_def is_cacheable_def)
qed

lemma send_execute_select:
  assumes "is_select_type (d_stmt_type (ps_description st))"
    and "encode_optional (en_zone en) (encode_text_with (snd ps)) (fst ps) = Inr e"
    and "noise_fits ns (s_wire s)" and "response_ok r" and "body_result (w_messages (s_wire s)) r = Inr g"
  shows "\<exists>s'. sn_wire (send_execute en opts q tx st ps False) (on_wire (feed (reply ns r @ rest)) s)
      = (Inr \<lparr>er_proc_row = None, er_pending_fetch = True, er_pending_info = False\<rparr>, on_wire (feed rest) s')
    \<and> advanced [execute_message (w_version (s_wire s)) (w_inline_size (s_wire s)) st tx e @ fetch_message st (first_count opts q st)]
        (on_wire (\<lambda>w. w\<lparr>w_deferred := 0\<rparr>) s) s'"
proof -
  define fc where "fc = first_count opts q st"
  let ?w = "s_wire s"
  let ?m = "execute_message (w_version ?w) (w_inline_size ?w) st tx e @ fetch_message st fc"
  let ?s = "settled ns (send ?m ?w)"
  have "read_response (feed (concat (map enc_noise ns)) (feed (enc_response r) (feed rest (send ?m ?w)))) = (Inr g, feed rest ?s)"
    using read_response_at [of ns "feed rest (send ?m ?w)" r] assms(3-5) by (simp add: settled_feed)
  then have "send_execute en opts q tx st ps False (feed (reply ns r @ rest) ?w)
      = (Inr \<lparr>er_proc_row = None, er_pending_fetch = True, er_pending_info = False\<rparr>, feed rest ?s)"
    using assms(1)
    by (simp add: send_execute_def fc_def [symmetric] execute_statement_sent [OF select_facts(1) [OF assms(1)] assms(2)]
        rd_bind_def rd_on_error_def)
  then have "sn_wire (send_execute en opts q tx st ps False) (on_wire (feed (reply ns r @ rest)) s)
      = (Inr \<lparr>er_proc_row = None, er_pending_fetch = True, er_pending_info = False\<rparr>, on_wire (feed rest) (absorb (s\<lparr>s_wire := ?s\<rparr>)))"
    by (simp add: sn_wire_def on_wire_feed_absorb)
  moreover have "advanced [?m] (on_wire (\<lambda>w. w\<lparr>w_deferred := 0\<rparr>) s) (absorb (s\<lparr>s_wire := ?s\<rparr>))"
    using send_sent [of ?m ?w] send_flush_count [of ?m ?w] fetch_message_nonempty
    by (simp add: advanced_def on_wire_def)
  ultimately show ?thesis unfolding fc_def by blast
qed

text \<open>The first batch, piggybacked on the execute, and the rest of the cursor.\<close>

lemma result_rows_batches:
  assumes "list_all (batch_ok (ps_readers st)) (b # bs)" and "w_deferred (s_wire s) = 0"
  shows "\<exists>s'. result_rows st mx fc \<lparr>er_proc_row = None, er_pending_fetch = True, er_pending_info = False\<rparr> (on_wire (feed (enc_batches (b # bs))) s)
      = (Inr (concat (map batch_rows (b # bs))), s') \<and> advanced (fetch_messages st mx fc (length bs)) s s'"
proof -
  have "read_fetch_batch st (feed (enc_fetch (fst b) (snd b) (bs = [])) (feed (enc_batches bs) (s_wire s)))
      = (Inr \<lparr>fb_rows = batch_rows b, fb_eof = (bs = [])\<rparr>, feed (enc_batches bs) (settled (fetch_noise (fst b) @ snd b) (s_wire s)))"
    using read_fetch_batch_feed [of "[]" "feed (enc_batches bs) (s_wire s)" st "fst b" "snd b" "bs = []"] assms
    by (simp add: batch_ok_def batch_rows_def noise_fits_def settled_feed)
  then have first: "sn_wire (read_fetch_batch st) (on_wire (feed (enc_batches (b # bs))) s) = (Inr \<lparr>fb_rows = batch_rows b, fb_eof = (bs = [])\<rparr>,
      on_wire (feed (enc_batches bs)) (absorb (s\<lparr>s_wire := settled (fetch_noise (fst b) @ snd b) (s_wire s)\<rparr>)))"
    by (simp add: sn_wire_def on_wire_feed_absorb)
  define s1 where "s1 = absorb (s\<lparr>s_wire := settled (fetch_noise (fst b) @ snd b) (s_wire s)\<rparr>)"
  have s1: "advanced [] s s1" "w_deferred (s_wire s1) = 0" using assms(2) by (simp_all add: s1_def advanced_def)
  have "length bs < Suc (length (enc_batches bs @ w_in (s_wire s1)))"
    using length_enc_batches [of bs] by simp
  then obtain s2 where "fetch_rest (Suc (length (w_in (s_wire (on_wire (feed (enc_batches bs)) s1))))) st mx fc
        \<lparr>fb_rows = batch_rows b, fb_eof = (bs = [])\<rparr> (on_wire (feed (enc_batches bs)) s1)
      = (Inr (batch_rows b @ concat (map batch_rows bs)), s2)" and s2: "advanced (fetch_messages st mx fc (length bs)) s1 s2"
    using fetch_rest_batches [of st bs s1 "Suc (length (w_in (s_wire (on_wire (feed (enc_batches bs)) s1))))" mx fc "batch_rows b"] assms s1(2)
    by auto
  with first show ?thesis
    using advanced_trans [OF s1(1) s2]
    by (intro exI [of _ s2]) (simp add: result_rows_def sn_bind_Inr fetch_all_def s1_def [symmetric] del: fetch_rest.simps)
qed

lemma execute_prepared_select:
  assumes "is_select_type (d_stmt_type (ps_description st))" and "new_row_mapper en opts (d_outputs (ps_description st)) q = Inr mp"
    and "\<not> mp_eager_blobs mp" and "prepare_params en opts tx st args = sn_return ps"
    and "encode_optional (en_zone en) (encode_text_with (snd ps)) (fst ps) = Inr e"
    and "noise_fits ns (s_wire s)" and "response_ok r" and "body_result (w_messages (s_wire s)) r = Inr g"
    and "list_all (batch_ok (ps_readers st)) bs" and "bs \<noteq> []"
  shows "\<exists>s'. execute_prepared en opts q tx st args True (on_wire (feed (reply ns r @ enc_batches bs)) s)
      = (Inr \<lparr>qr_rows = map (shape_row mp) (concat (map batch_rows bs)), qr_rows_affected = 0, qr_columns = mp_columns mp\<rparr>,
         on_wire (free_statement_op (ps_handle st) Free_DSQL_close False) s')
    \<and> advanced ((execute_message (w_version (s_wire s)) (w_inline_size (s_wire s)) st tx e @ fetch_message st (first_count opts q st))
        # fetch_messages st (fetch_ceiling_for q opts) (first_count opts q st) (length bs - 1)) (on_wire (\<lambda>w. w\<lparr>w_deferred := 0\<rparr>) s) s'"
proof -
  let ?mx = "fetch_ceiling_for q opts" and ?fc = "first_count opts q st"
  define m where "m = execute_message (w_version (s_wire s)) (w_inline_size (s_wire s)) st tx e @ fetch_message st ?fc"
  obtain b cs where bs: "bs = b # cs" using assms(10) by (cases bs) auto
  obtain s1 where s1: "sn_wire (send_execute en opts q tx st ps False) (on_wire (feed (reply ns r @ enc_batches bs)) s)
      = (Inr \<lparr>er_proc_row = None, er_pending_fetch = True, er_pending_info = False\<rparr>, on_wire (feed (enc_batches bs)) s1)"
    "advanced [m] (on_wire (\<lambda>w. w\<lparr>w_deferred := 0\<rparr>) s) s1"
    using send_execute_select [OF assms(1,5-8)] unfolding m_def by blast
  then have "w_deferred (s_wire s1) = 0" by (simp add: advanced_def)
  then obtain s2 where s2: "result_rows st ?mx ?fc \<lparr>er_proc_row = None, er_pending_fetch = True, er_pending_info = False\<rparr>
      (on_wire (feed (enc_batches bs)) s1) = (Inr (concat (map batch_rows bs)), s2)" "advanced (fetch_messages st ?mx ?fc (length cs)) s1 s2"
    using result_rows_batches [of st b cs s1] assms(9) bs by blast
  have "execute_prepared en opts q tx st args True (on_wire (feed (reply ns r @ enc_batches bs)) s)
      = (Inr \<lparr>qr_rows = map (shape_row mp) (concat (map batch_rows bs)), qr_rows_affected = 0, qr_columns = mp_columns mp\<rparr>,
         on_wire (free_statement_op (ps_handle st) Free_DSQL_close False) s2)"
    using assms(1-4) select_facts(2) [OF assms(1)]
    by (simp add: execute_prepared_def Let_def sn_bind_Inr [where m = "sn_wire (send_execute en opts q tx st ps False)", OF s1(1)]
        sn_bind_Inr [where m = "result_rows st ?mx ?fc \<lparr>er_proc_row = None, er_pending_fetch = True, er_pending_info = False\<rparr>", OF s2(1)] affected_rows_def materialize_def
        del: reply_feed)
  then show ?thesis
    using advanced_trans [OF s1(2) s2(2)] bs unfolding m_def by auto
qed

subsection \<open>The stream of a select\<close>

lemma stream_guard_Inr: "m s = (Inr x, s') \<Longrightarrow> stream_guard sql so found cursor m s = (Inr x, s')"
  by (simp add: stream_guard_def sn_catch_def)

lemma materialize_lazy: "\<not> mp_eager_blobs mp \<Longrightarrow> materialize opts mp tx rows = sn_return rows"
  by (simp add: materialize_def)

lemma stream_batch_lazy:
  "\<not> mp_eager_blobs mp \<Longrightarrow> sn_wire m s = (Inr b, s') \<Longrightarrow> stream_batch opts tx mp m s = (Inr (fb_rows b, fb_eof b), s')"
  by (simp add: stream_batch_def materialize_lazy sn_bind_Inr)

text \<open>The batches after the first are those that a run fetches.\<close>

lemma stream_rest_fetches:
  assumes "\<not> mp_eager_blobs (ss_mapper z)" and "ss_eof z = fb_eof b"
    and "fetch_rest (Suc n) (so_info (ss_so z)) (fetch_ceiling_for q opts) (ss_fc z) b s = (Inr rows, s')" and "n \<le> m"
  shows "\<exists>more. stream_rest opts q tx sql m z s = (Inr more, s') \<and> rows = fb_rows b @ more"
  using assms
proof (induction n arbitrary: z b s rows m)
  case 0
  then show ?case by (cases m) (auto simp: sn_bind_inv Let_def split: if_splits)
next
  case (Suc n)
  show ?case
  proof (cases "fb_eof b")
    case True
    then show ?thesis using Suc.prems by (cases m) auto
  next
    case False
    let ?st = "so_info (ss_so z)" and ?mx = "fetch_ceiling_for q opts"
    obtain k where m: "m = Suc k" "n \<le> k" using Suc.prems(4) by (cases m) auto
    define fc where "fc = next_fetch_count (ps_row_width ?st) ?mx (ss_fc z)"
    obtain b' s1 rs where b': "sn_wire (fetch_rows ?st fc) s = (Inr b', s1)"
      and rs: "fetch_rest (Suc n) ?st ?mx fc b' s1 = (Inr rs, s')" "rows = fb_rows b @ rs"
      using Suc.prems(3) False by (subst (asm) fetch_rest.simps(2)) (auto simp: sn_bind_inv Let_def fc_def simp del: fetch_rest.simps)
    define z' where "z' = z\<lparr>ss_fc := fc, ss_eof := fb_eof b'\<rparr>"
    obtain more where more: "stream_rest opts q tx sql k z' s1 = (Inr more, s')" "rs = fb_rows b' @ more"
      using Suc.IH [of z' b' s1 rs k] Suc.prems(1) rs(1) m(2) by (auto simp: z'_def simp del: fetch_rest.simps)
    have "stream_batch opts tx (ss_mapper z) (fetch_rows ?st fc) s = (Inr (fb_rows b', fb_eof b'), s1)"
      by (rule stream_batch_lazy [OF Suc.prems(1) b'])
    then have "stream_next opts q tx sql z s = (Inr (fb_rows b', z'), s1)"
      by (simp add: stream_guard_Inr stream_next_def fc_def [symmetric] Let_def sn_bind_Inr z'_def)
    then have "stream_rest opts q tx sql m z s = (Inr (fb_rows b' @ more), s')"
      using False Suc.prems(2) more(1) by (simp add: m sn_bind_Inr)
    then show ?thesis using rs(2) more(2) by simp
  qed
qed

text \<open>What a run of a select consists of, when it succeeds.\<close>

lemma execute_prepared_inv:
  assumes "execute_prepared en opts q tx st args True s = (Inr r, s')" and "is_select_type (d_stmt_type (ps_description st))"
    and "new_row_mapper en opts (d_outputs (ps_description st)) q = Inr mp" and "\<not> mp_eager_blobs mp"
  obtains ps s1 s2 b s3 rows s4 where "prepare_params en opts tx st args s = (Inr ps, s1)"
    and "sn_wire (send_execute en opts q tx st ps False) s1 = (Inr \<lparr>er_proc_row = None, er_pending_fetch = True, er_pending_info = False\<rparr>, s2)"
    and "sn_wire (read_fetch_batch st) s2 = (Inr b, s3)"
    and "fetch_rest (Suc (length (w_in (s_wire s3)))) st (fetch_ceiling_for q opts) (first_count opts q st) b s3 = (Inr rows, s4)"
    and "s' = on_wire (free_statement_op (ps_handle st) Free_DSQL_close False) s4" and "qr_rows r = map (shape_row mp) rows"
proof -
  note nr = select_facts [OF assms(2)]
  obtain ps s1 ex s2 rows s3 affected s4 where run: "prepare_params en opts tx st args s = (Inr ps, s1)"
    "sn_wire (send_execute en opts q tx st ps False) s1 = (Inr ex, s2)"
    "result_rows st (fetch_ceiling_for q opts) (first_count opts q st) ex s2 = (Inr rows, s3)"
    "affected_rows ex s3 = (Inr affected, s4)"
    "s' = on_wire (free_statement_op (ps_handle st) Free_DSQL_close False) s4" "qr_rows r = map (shape_row mp) rows"
    using assms nr(2)
    by (auto simp: execute_prepared_def Let_def sn_bind_inv materialize_lazy sn_return_def sn_lift_def sn_do_def)
  have ex: "ex = \<lparr>er_proc_row = None, er_pending_fetch = True, er_pending_info = False\<rparr>"
    using run(2) assms(2) nr(1)
    by (auto simp: sn_wire_def send_execute_def execute_statement_def execute_response_def rd_bind_def rd_lift_def rd_on_error_def
        Let_def split: sum.splits prod.splits)
  obtain b s5 where "sn_wire (read_fetch_batch st) s2 = (Inr b, s5)"
    "fetch_all st (fetch_ceiling_for q opts) (first_count opts q st) b s5 = (Inr rows, s3)"
    using run(3) by (auto simp: result_rows_def ex sn_bind_inv)
  moreover have "s4 = s3" using run(4) by (simp add: affected_rows_def ex)
  ultimately show thesis
    using run ex by (intro that [of ps s1 s2 b s5 rows s3]) (simp_all add: fetch_all_def del: fetch_rest.simps)
qed

subsection \<open>A session to try it on\<close>

definition utc_host :: environment where
  "utc_host = \<lparr>en_zone = \<lparr>lz_offset = (\<lambda>_. 0), lz_utc = id\<rparr>,
     en_iconv = \<lparr>ic_decode = (\<lambda>b e. Inr (bytes_str b)), ic_encode = (\<lambda>s e. Inr (str_bytes s)), ic_exists = (\<lambda>_. True)\<rparr>,
     en_double_text = (\<lambda>_. ''0'')\<rparr>"

definition idle_wire :: wire where
  "idle_wire = \<lparr>w_in = [], w_out = [], w_sent = [], w_flush_count = 0, w_deferred = 0, w_version = 13, w_inline_size = 0,
     w_inlined = [], w_messages = (\<lambda>_. None)\<rparr>"

definition number_column :: sql_var_desc where
  "number_column = new_var\<lparr>v_type := 496, v_length := 4, v_field := Some ''N''\<rparr>"

definition read_number :: "cell rd" where
  "read_number = rd_bind read_int32 (\<lambda>v. rd_return (CNumber v 0))"

definition number_select :: stmt_object where
  "number_select = \<lparr>so_id = 0, so_info = \<lparr>ps_handle = 1, ps_description = \<lparr>d_stmt_type = 1, d_inputs = [],
     d_outputs = [Some number_column]\<rparr>, ps_output_blr = [], ps_readers = [read_number], ps_row_width = 16\<rparr>\<rparr>"

definition warm_session :: session where
  "warm_session = \<lparr>s_wire = idle_wire, s_db = 0, s_cache = Some \<lparr>sc_map = [(''select'', number_select)], sc_capacity = 64\<rparr>,
     s_stars = None, s_inline = None, s_next = 1\<rparr>"

definition executed :: response where
  "executed = \<lparr>r_handle = 0, r_oid = replicate 8 0, r_data = [], r_status = [WGds 0]\<rparr>"

text \<open>One row, the number seven.\<close>

definition one_seven :: "batch list" where
  "one_seven = [([([], [9, 9, 9], [(read_number, Some (CNumber 7 0, enc_int32 7))])], [])]"

definition seven_mapper :: mapper where
  "seven_mapper = \<lparr>mp_cols = [\<lparr>mc_key = Some ''N'', mc_lazy = False, mc_codec = None\<rparr>], mp_array = False, mp_scope = False,
     mp_eager_blobs = False, mp_columns = [\<lparr>ci_name = ''N'', ci_field = Some ''N'', ci_relation = None, ci_type = ''INTEGER'',
       ci_nullable = False\<rparr>]\<rparr>"

lemma number_mapper: "new_row_mapper utc_host (resolve_options (only_database ''db'')) [Some number_column] plain_query = Inr seven_mapper"
proof -
  have t: "sql_type_of 496 = Some SQL_LONG" by (simp add: sql_type_of_def all_sql_types_def)
  show ?thesis
    by (simp add: new_row_mapper_def blobs_for_def or_default_def plain_query_def resolve_options_def only_database_def force_eager_def
        force_lazy_def present_def map_column_def column_codec_def number_column_def new_var_def t is_blob_type_def raw_name_def
        non_empty_def column_is_kept_def names_of_def listed_def qualified_name_def column_is_lazy_def seven_mapper_def blob_kept_def
        info_of_def sql_type_name_def)
qed

lemma sample_facts:
  "cache_ok \<lparr>sc_map = [(''select'', number_select)], sc_capacity = 64\<rparr>" "response_ok executed"
  "body_result (\<lambda>_. None) executed = Inr \<lparr>gr_handle = 0, gr_oid = replicate 8 0, gr_data = [], gr_warnings = []\<rparr>"
  "list_all (batch_ok [read_number]) one_seven" "is_select_type 1" "length one_seven = 1" "one_seven \<noteq> []"
  by (simp_all add: cache_ok_def jm_ok_def sc_size_def response_ok_def executed_def body_result_def status_of_def sv_result_def
      sv_init_def sv_gds_def batch_ok_def one_seven_def fetched_ok_def quiet_def item_ok_def read_number_def rd_bind_def
      read_int32_feed_id bitmap_len_def pad4n_def is_select_type_def stmt_type_of_def all_stmt_types_def)

lemma sample_session:
  "s_cache warm_session = Some \<lparr>sc_map = [(''select'', number_select)], sc_capacity = 64\<rparr>" "s_wire warm_session = idle_wire"
  "d_stmt_type (ps_description (so_info number_select)) = 1" "d_inputs (ps_description (so_info number_select)) = []"
  "d_outputs (ps_description (so_info number_select)) = [Some number_column]" "ps_readers (so_info number_select) = [read_number]"
  "w_messages idle_wire = (\<lambda>_. None)" "w_flush_count idle_wire = 0" "w_deferred idle_wire = 0" "w_in idle_wire = []"
  "\<not> mp_eager_blobs seven_mapper" "\<not> qo_expand_star plain_query" "noise_fits [] idle_wire"
  by (simp_all add: warm_session_def number_select_def idle_wire_def seven_mapper_def plain_query_def noise_fits_def)

lemma seven_shaped: "map (shape_row seven_mapper) (concat (map batch_rows one_seven)) = [RObject [(''N'', OCell (CNumber 7 0))]]"
  by (simp add: one_seven_def batch_rows_def fetched_cells_def item_cell_def shape_row_def seven_mapper_def wrap_cell_def
      js_assign_def jm_set_def)

subsection \<open>Properties\<close>



text \<open>
  C18. Streaming a select and running it are the same: when \<open>runStatement\<close> returns the rows
  of a select that has no eager blobs, a consumer that takes the stream to its end gets
  those rows, and the session is left in the very same state, the statement in the cache
  or its drop queued, the packets and the counters equal.
\<close>

theorem streaming_is_running:
  assumes "\<not> qo_expand_star q" and "cache_get sql s = (Inr found, s0)"
    and "(case found of Some x \<Rightarrow> sn_return x | None \<Rightarrow> prepare_info en opts tx sql) s0 = (Inr so, s1)"
    and "is_select_type (d_stmt_type (ps_description (so_info so)))"
    and "new_row_mapper en opts (d_outputs (ps_description (so_info so))) q = Inr mp" and "\<not> mp_eager_blobs mp"
    and "execute_prepared en opts q tx (so_info so) args True s1 = (Inr r, s2)"
  shows "run_statement en opts q tx sql (Positional args) s = (Inr r, finish_statement sql so s2)
    \<and> (\<exists>n. \<forall>m\<ge>n. stream_rows en opts q tx sql (Positional args) m s = (Inr (qr_rows r), finish_statement sql so s2))"
proof
  show "run_statement en opts q tx sql (Positional args) s = (Inr r, finish_statement sql so s2)"
    using assms(1-3,7)
    by (cases found) (simp_all add: run_statement_def normalize_params_def resolve_expand_star_def run_resolved_def run_fresh_def
        sn_bind_Inr sn_catch_def)
  obtain ps t1 t2 b t3 rows t4 where run: "prepare_params en opts tx (so_info so) args s1 = (Inr ps, t1)"
    "sn_wire (send_execute en opts q tx (so_info so) ps False) t1 = (Inr \<lparr>er_proc_row = None, er_pending_fetch = True, er_pending_info = False\<rparr>, t2)"
    "sn_wire (read_fetch_batch (so_info so)) t2 = (Inr b, t3)"
    "fetch_rest (Suc (length (w_in (s_wire t3)))) (so_info so) (fetch_ceiling_for q opts) (first_count opts q (so_info so)) b t3 = (Inr rows, t4)"
    "s2 = on_wire (free_statement_op (ps_handle (so_info so)) Free_DSQL_close False) t4" "qr_rows r = map (shape_row mp) rows"
    using execute_prepared_inv [OF assms(7,4-6)] .
  define z where "z = \<lparr>ss_so = so, ss_found = (found \<noteq> None), ss_mapper = mp, ss_cursor = True,
      ss_fc = first_count opts q (so_info so), ss_eof = fb_eof b\<rparr>"
  have exec: "stream_execute en opts q tx (so_info so) args s1
      = (Inr (mp, \<lparr>er_proc_row = None, er_pending_fetch = True, er_pending_info = False\<rparr>), t2)"
    using assms(5) run(1,2) by (simp add: stream_execute_def sn_bind_Inr)
  have batch: "stream_batch opts tx mp (read_fetch_batch (so_info so)) t2 = (Inr (fb_rows b, fb_eof b), t3)"
    using stream_batch_lazy [OF assms(6) run(3)] .
  have first: "stream_first en opts q tx sql args s = (Inr (fb_rows b, z), t3)"
    using assms(2,3) exec batch by (simp add: stream_first_def sn_bind_Inr stream_guard_Inr z_def)
  have "stream_rows en opts q tx sql (Positional args) m s = (Inr (qr_rows r), finish_statement sql so s2)"
    if "length (w_in (s_wire t3)) \<le> m" for m
  proof -
    have "\<exists>more. stream_rest opts q tx sql m z t3 = (Inr more, t4) \<and> rows = fb_rows b @ more"
      by (rule stream_rest_fetches [OF _ _ _ that]) (use run(4) assms(6) in \<open>simp_all add: z_def del: fetch_rest.simps\<close>)
    then obtain more where "stream_rest opts q tx sql m z t3 = (Inr more, t4)" "rows = fb_rows b @ more" by blast
    then show ?thesis
      using assms(1) first run(5,6)
      by (simp add: stream_rows_def normalize_params_def resolve_expand_star_def stream_resolved_def sn_bind_Inr stream_ended_def
          z_def so_handle_def)
  qed
  then show "\<exists>n. \<forall>m\<ge>n. stream_rows en opts q tx sql (Positional args) m s = (Inr (qr_rows r), finish_statement sql so s2)"
    by blast
qed

theorem streaming_is_running_witness:
  "\<exists>r s'. run_statement utc_host (resolve_options (only_database ''db'')) plain_query 3 ''select'' (Positional [])
        (on_wire (feed (reply [] executed @ enc_batches one_seven)) warm_session) = (Inr r, s')
    \<and> (\<exists>n. \<forall>m\<ge>n. stream_rows utc_host (resolve_options (only_database ''db'')) plain_query 3 ''select'' (Positional []) m
        (on_wire (feed (reply [] executed @ enc_batches one_seven)) warm_session) = (Inr (qr_rows r), s'))"
proof -
  let ?opts = "resolve_options (only_database ''db'')" and ?st = "so_info number_select"
  let ?in = "feed (reply [] executed @ enc_batches one_seven)"
  have params: "prepare_params utc_host ?opts 3 ?st [] = sn_return ([], [])"
    by (simp add: prepare_params_def number_select_def fun_eq_iff)
  obtain r s' where "execute_prepared utc_host ?opts plain_query 3 ?st [] True (on_wire ?in warm_session) = (Inr r, s')"
    using execute_prepared_select [where st = ?st and en = utc_host and opts = ?opts and q = plain_query and mp = seven_mapper and tx = 3
        and args = "[]" and ps = "([], [])" and e = None and ns = "[]" and s = warm_session and r = executed and bs = one_seven, OF _ _ _ params]
      sample_facts number_mapper
    by (fastforce simp: warm_session_def idle_wire_def number_select_def encode_optional_def noise_fits_def seven_mapper_def one_seven_def
        simp del: reply_feed)
  moreover have "cache_get ''select'' (on_wire ?in warm_session) = (Inr (Some number_select), on_wire ?in warm_session)"
    by (simp add: cache_get_def warm_session_def on_wire_def sc_get_def jm_get_def jm_set_def jm_delete_def del: reply_feed)
  ultimately show ?thesis
    using streaming_is_running [where en = utc_host and opts = ?opts and q = plain_query and tx = 3 and sql = "''select''" and args = "[]"
        and s = "on_wire ?in warm_session" and found = "Some number_select" and so = number_select and ?s0.0 = "on_wire ?in warm_session"
        and ?s1.0 = "on_wire ?in warm_session" and mp = seven_mapper and r = r and ?s2.0 = s'] number_mapper sample_facts(5)
    by (fastforce simp: plain_query_def number_select_def seven_mapper_def simp del: reply_feed)
qed

end
