(* ===== verification/Attachment.thy ===== *)
theory Attachment
  imports Session
begin

text \<open>
  \<open>api/transaction.ts\<close>, the part of \<open>api/attachment.ts\<close> that runs on an open connection,
  and the two exchanges of \<open>protocol/attach.ts\<close> that end one. The state holds the
  session and every \<open>Transaction\<close> object by its number, so that the operations of several
  transactions can be interleaved. An operation that the code runs under the lock is one
  step; the others are composed of such steps.
\<close>

subsection \<open>State\<close>

record transaction =
  tn_finished :: bool
  tn_handle :: int
  tn_generation :: nat
  tn_auto_upgraded :: bool
  tn_depth :: int
  tn_att_generation :: nat
  tn_options :: transaction_options

record attachment =
  at_session :: session
  at_generation :: nat
  at_detached :: bool
  at_open :: bool
  at_round_trips_base :: nat
  at_txs :: "transaction list"

definition tx_of :: "attachment \<Rightarrow> nat \<Rightarrow> transaction" where
  "tx_of a t = at_txs a ! t"

definition set_tx :: "nat \<Rightarrow> (transaction \<Rightarrow> transaction) \<Rightarrow> attachment \<Rightarrow> attachment" where
  "set_tx t f a = a\<lparr>at_txs := (at_txs a)[t := f (at_txs a ! t)]\<rparr>"

definition on_session :: "(session, 'a) act \<Rightarrow> (attachment, 'a) act" where
  "on_session m = (\<lambda>a. case m (at_session a) of (r, s) \<Rightarrow> (r, a\<lparr>at_session := s\<rparr>))"

definition at_wire :: "'a rd \<Rightarrow> (attachment, 'a) act" where
  "at_wire m = on_session (sn_wire m)"

definition is_alive :: "attachment \<Rightarrow> bool" where
  "is_alive a = (\<not> at_detached a \<and> at_open a)"

text \<open>\<open>buildSession\<close>, over a connection just established.\<close>

definition build_session :: "resolved_options \<Rightarrow> int \<Rightarrow> wire \<Rightarrow> int \<Rightarrow> session" where
  "build_session opts version w db =
     (let inline = 19 \<le> version \<and> 0 < os_max_inline_blob_size opts in
      \<lparr>s_wire = (if inline then w\<lparr>w_inline_size := os_max_inline_blob_size opts\<rparr> else w), s_db = db,
       s_cache = (if 0 < os_statement_cache_size opts then Some \<lparr>sc_map = [], sc_capacity = os_statement_cache_size opts\<rparr> else None),
       s_stars = None, s_inline = (if inline then Some (ic_new (os_max_blob_cache_size opts)) else None), s_next = 0\<rparr>)"

definition round_trips :: "attachment \<Rightarrow> nat" where
  "round_trips a = at_round_trips_base a + w_flush_count (s_wire (at_session a))"

subsection \<open>Guards\<close>

definition isc_read_only_trans :: int where
  "isc_read_only_trans = 335544361"

fun error_message :: "err \<Rightarrow> string" where
  "error_message (FbError cls msg gds st args) = msg"
| "error_message (JsError msg) = msg"
| "error_message _ = []"

definition is_read_only_violation :: "err \<Rightarrow> bool" where
  "is_read_only_violation e = ((case e of FbError cls msg gds st args \<Rightarrow> gds = Some isc_read_only_trans | _ \<Rightarrow> False)
     \<or> contains ''attempted update during read-only transaction'' (to_lower (error_message e)))"

definition same_attachment :: "nat \<Rightarrow> (attachment, unit) act" where
  "same_attachment t = (\<lambda>a. (if at_generation a \<noteq> tn_att_generation (tx_of a t)
     then Inl (JsError (''Transaction is no longer valid: the attachment was reconnected '' @ em_dash @ '' start a new transaction''))
     else Inr (), a))"

definition assert_active :: "nat \<Rightarrow> (attachment, unit) act" where
  "assert_active t = sn_bind (same_attachment t) (\<lambda>_ a. (if tn_finished (tx_of a t)
     then Inl (JsError ''Transaction already committed or rolled back'') else Inr (), a))"

text \<open>Whether a lazy handle that was made in generation \<open>gen\<close> of the transaction may be read.\<close>

definition tx_alive :: "nat \<Rightarrow> nat \<Rightarrow> attachment \<Rightarrow> bool" where
  "tx_alive t gen a = (\<not> tn_finished (tx_of a t) \<and> tn_generation (tx_of a t) = gen
     \<and> at_generation a = tn_att_generation (tx_of a t) \<and> is_alive a)"

subsection \<open>Starting and ending\<close>

text \<open>The new object's number is the result.\<close>

definition att_start_transaction :: "resolved_options \<Rightarrow> transaction_options option \<Rightarrow> (attachment, nat) act" where
  "att_start_transaction opts options =
     (let merged = merge_transaction_options (os_default_transaction opts) options in
      sn_bind (\<lambda>a. at_wire (start_transaction (s_db (at_session a)) (Some merged)) a) (\<lambda>h a.
        (Inr (length (at_txs a)), a\<lparr>at_txs := at_txs a @ [\<lparr>tn_finished = False, tn_handle = h, tn_generation = 0,
           tn_auto_upgraded = False, tn_depth = 0, tn_att_generation = at_generation a, tn_options = merged\<rparr>]\<rparr>)))"

definition inline_clear_tx :: "int \<Rightarrow> session \<Rightarrow> session" where
  "inline_clear_tx h s = s\<lparr>s_inline := map_option (ic_clear_tx h) (s_inline s)\<rparr>"

definition at_do :: "(session \<Rightarrow> session) \<Rightarrow> (attachment, unit) act" where
  "at_do f = on_session (sn_do f)"

text \<open>\<open>commit\<close> and \<open>rollback\<close>: finished before the request, reopened when it fails.\<close>

definition tx_end :: "(int \<Rightarrow> bool \<Rightarrow> unit rd) \<Rightarrow> nat \<Rightarrow> (attachment, unit) act" where
  "tx_end req t =
     sn_bind (assert_active t) (\<lambda>_.
     sn_bind (sn_do (set_tx t (\<lambda>x. x\<lparr>tn_finished := True\<rparr>))) (\<lambda>_.
     sn_bind (sn_catch (\<lambda>a. at_wire (req (tn_handle (tx_of a t)) False) a)
         (\<lambda>e. sn_bind (sn_do (set_tx t (\<lambda>x. x\<lparr>tn_finished := False\<rparr>))) (\<lambda>_. sn_lift (Inl e)))) (\<lambda>_ a.
       at_do (inline_clear_tx (tn_handle (tx_of a t))) a)))"

definition tx_commit :: "nat \<Rightarrow> (attachment, unit) act" where
  "tx_commit = tx_end commit_transaction"

definition tx_rollback :: "nat \<Rightarrow> (attachment, unit) act" where
  "tx_rollback = tx_end rollback_transaction"

definition tx_commit_retaining :: "nat \<Rightarrow> (attachment, unit) act" where
  "tx_commit_retaining t = sn_bind (assert_active t) (\<lambda>_ a. at_wire (commit_transaction (tn_handle (tx_of a t)) True) a)"

definition tx_rollback_retaining :: "nat \<Rightarrow> (attachment, unit) act" where
  "tx_rollback_retaining t = sn_bind (assert_active t) (\<lambda>_ a. at_wire (rollback_transaction (tn_handle (tx_of a t)) True) a)"

text \<open>\<open>[Symbol.asyncDispose]\<close>.\<close>

definition tx_dispose :: "nat \<Rightarrow> (attachment, unit) act" where
  "tx_dispose t = (\<lambda>a. if \<not> tn_finished (tx_of a t) then tx_rollback t a else (Inr (), a))"

datatype restart_action = RestartCommit | RestartRollback

definition has_strategy :: "transaction_options \<Rightarrow> bool" where
  "has_strategy v = (to_isolation v \<noteq> None \<or> to_read_only v \<noteq> None \<or> to_wait v \<noteq> None \<or> to_auto_commit v \<noteq> None)"

definition tx_restart :: "nat \<Rightarrow> restart_action option \<Rightarrow> transaction_options \<Rightarrow> (attachment, unit) act" where
  "tx_restart t action options =
     sn_bind (same_attachment t) (\<lambda>_.
     sn_bind (\<lambda>a. if tn_finished (tx_of a t) then (Inr (), a)
        else at_wire ((if action = Some RestartRollback then rollback_transaction else commit_transaction)
          (tn_handle (tx_of a t)) False) a) (\<lambda>_.
     sn_bind (sn_do (if has_strategy options then set_tx t (\<lambda>x. x\<lparr>tn_options := options\<rparr>) else id)) (\<lambda>_.
     sn_bind (\<lambda>a. at_wire (start_transaction (s_db (at_session a)) (Some (tn_options (tx_of a t)))) a) (\<lambda>h.
     sn_do (set_tx t (\<lambda>x. x\<lparr>tn_handle := h, tn_generation := Suc (tn_generation x), tn_depth := 0, tn_finished := False\<rparr>))))))"

subsection \<open>Statements in a transaction\<close>

definition should_auto_upgrade :: "resolved_options \<Rightarrow> transaction \<Rightarrow> err \<Rightarrow> bool" where
  "should_auto_upgrade opts x e = (\<not> tn_finished x \<and> to_read_only (tn_options x) = Some True
     \<and> or_default (os_auto_upgrade_read_only opts) (to_auto_upgrade (tn_options x)) \<and> is_read_only_violation e)"

definition tx_attempt ::
  "environment \<Rightarrow> resolved_options \<Rightarrow> nat \<Rightarrow> query_options \<Rightarrow> string \<Rightarrow> query_params \<Rightarrow> (attachment, query_result) act" where
  "tx_attempt en opts t q sql params = (\<lambda>a. on_session (run_statement en opts q (tn_handle (tx_of a t)) sql params) a)"

definition tx_run ::
  "environment \<Rightarrow> resolved_options \<Rightarrow> nat \<Rightarrow> query_options \<Rightarrow> string \<Rightarrow> query_params \<Rightarrow> (attachment, query_result) act" where
  "tx_run en opts t q sql params =
     sn_bind (assert_active t) (\<lambda>_.
     sn_catch (tx_attempt en opts t q sql params) (\<lambda>e a.
       if \<not> should_auto_upgrade opts (tx_of a t) e then (Inl e, a)
       else sn_bind (tx_restart t None ((tn_options (tx_of a t))\<lparr>to_read_only := Some False\<rparr>)) (\<lambda>_.
         sn_bind (sn_do (set_tx t (\<lambda>x. x\<lparr>tn_auto_upgraded := True\<rparr>))) (\<lambda>_.
         tx_attempt en opts t q sql params)) a))"

definition tx_query ::
  "environment \<Rightarrow> resolved_options \<Rightarrow> nat \<Rightarrow> query_options \<Rightarrow> string \<Rightarrow> query_params \<Rightarrow> (attachment, out_row list) act" where
  "tx_query en opts t q sql params = sn_bind (tx_run en opts t q sql params) (\<lambda>r. sn_return (qr_rows r))"

definition tx_query_one ::
  "environment \<Rightarrow> resolved_options \<Rightarrow> nat \<Rightarrow> query_options \<Rightarrow> string \<Rightarrow> query_params \<Rightarrow> (attachment, out_row option) act" where
  "tx_query_one en opts t q sql params = sn_bind (tx_run en opts t q sql params) (\<lambda>r. sn_return (at (qr_rows r) 0))"

definition tx_execute ::
  "environment \<Rightarrow> resolved_options \<Rightarrow> nat \<Rightarrow> query_options \<Rightarrow> string \<Rightarrow> query_params \<Rightarrow> (attachment, int) act" where
  "tx_execute en opts t q sql params = sn_bind (tx_run en opts t q sql params) (\<lambda>r. sn_return (qr_rows_affected r))"

text \<open>A stream of the transaction, of which a consumer asks for \<open>n\<close> batches after the first.\<close>

definition tx_query_stream ::
  "environment \<Rightarrow> resolved_options \<Rightarrow> nat \<Rightarrow> query_options \<Rightarrow> string \<Rightarrow> query_params \<Rightarrow> nat \<Rightarrow> (attachment, out_row list) act" where
  "tx_query_stream en opts t q sql params n = sn_bind (assert_active t) (\<lambda>_ a.
     on_session (stream_rows en opts q (tn_handle (tx_of a t)) sql params n) a)"

subsection \<open>Savepoints\<close>

definition savepoint_name :: "int \<Rightarrow> string" where
  "savepoint_name d = ''FF_SP_'' @ dec_int d"

definition tx_statement :: "environment \<Rightarrow> resolved_options \<Rightarrow> nat \<Rightarrow> string \<Rightarrow> (attachment, unit) act" where
  "tx_statement en opts t sql = sn_bind (tx_execute en opts t plain_query sql (Positional [])) (\<lambda>_. sn_return ())"

definition sn_swallow :: "('s, unit) act \<Rightarrow> ('s, unit) act" where
  "sn_swallow m = (\<lambda>s. (Inr (), snd (m s)))"

definition tx_transaction :: "environment \<Rightarrow> resolved_options \<Rightarrow> nat \<Rightarrow> (attachment, 'a) act \<Rightarrow> (attachment, 'a) act" where
  "tx_transaction en opts t fn =
     sn_bind (assert_active t) (\<lambda>_.
     sn_bind (sn_do (set_tx t (\<lambda>x. x\<lparr>tn_depth := tn_depth x + 1\<rparr>))) (\<lambda>_ a.
       let name = savepoint_name (tn_depth (tx_of a t)) in
       sn_finally (set_tx t (\<lambda>x. x\<lparr>tn_depth := tn_depth x - 1\<rparr>))
         (sn_catch
            (sn_bind (tx_statement en opts t (''SAVEPOINT '' @ name)) (\<lambda>_.
             sn_bind fn (\<lambda>r. sn_bind (tx_statement en opts t (''RELEASE SAVEPOINT '' @ name)) (\<lambda>_. sn_return r))))
            (\<lambda>e a. sn_bind (if tn_finished (tx_of a t) then sn_return ()
                 else sn_swallow (tx_statement en opts t (''ROLLBACK TO SAVEPOINT '' @ name))) (\<lambda>_. sn_lift (Inl e)) a)) a))"

subsection \<open>One-shot operations of the attachment\<close>

text \<open>
  \<open>try { fn; commit } catch (err) { if (!tx.isFinished) rollback, ignoring its error; throw err }\<close>.
\<close>

definition in_own_transaction ::
  "resolved_options \<Rightarrow> transaction_options option \<Rightarrow> (nat \<Rightarrow> (attachment, 'a) act) \<Rightarrow> (attachment, 'a) act" where
  "in_own_transaction opts options fn =
     sn_bind (att_start_transaction opts options) (\<lambda>t.
       sn_catch (sn_bind (fn t) (\<lambda>r. sn_bind (tx_commit t) (\<lambda>_. sn_return r)))
         (\<lambda>e a. sn_bind (if tn_finished (tx_of a t) then sn_return () else sn_swallow (tx_rollback t)) (\<lambda>_. sn_lift (Inl e)) a))"

definition att_transaction ::
  "resolved_options \<Rightarrow> (nat \<Rightarrow> (attachment, 'a) act) \<Rightarrow> transaction_options option \<Rightarrow> (attachment, 'a) act" where
  "att_transaction opts fn options = in_own_transaction opts options fn"

definition lazy_modes_error :: string where
  "lazy_modes_error = ''lazy blob modes ('' @ [quote] @ ''lazy'' @ [quote] @ '', '' @ [quote] @ ''lazy-binary'' @ [quote] @ '', ''
     @ [quote] @ ''lazy-text'' @ [quote] @ '') require an explicit transaction or a stream '' @ em_dash
     @ '' use db.transaction(tx => tx.query('' @ [CHR 0xE2, CHR 0x80, CHR 0xA6] @ '', {blobs:'' @ [CHR 0xE2, CHR 0x80, CHR 0xA6]
     @ ''})) or db.queryStream('' @ [CHR 0xE2, CHR 0x80, CHR 0xA6] @ '', {blobs:'' @ [CHR 0xE2, CHR 0x80, CHR 0xA6]
     @ ''}), or override with {blobs:'' @ [quote] @ ''eager'' @ [quote] @ ''}''"

definition att_run ::
  "environment \<Rightarrow> resolved_options \<Rightarrow> query_options \<Rightarrow> string \<Rightarrow> query_params \<Rightarrow> (attachment, query_result) act" where
  "att_run en opts q sql params =
     (if blobs_may_produce_lazy (blobs_for opts q) then sn_lift (Inl (FbError FirebirdBlobError lazy_modes_error None None []))
      else in_own_transaction opts None (\<lambda>t. tx_run en opts t q sql params))"

definition att_query ::
  "environment \<Rightarrow> resolved_options \<Rightarrow> query_options \<Rightarrow> string \<Rightarrow> query_params \<Rightarrow> (attachment, out_row list) act" where
  "att_query en opts q sql params = sn_bind (att_run en opts q sql params) (\<lambda>r. sn_return (qr_rows r))"

definition att_query_one ::
  "environment \<Rightarrow> resolved_options \<Rightarrow> query_options \<Rightarrow> string \<Rightarrow> query_params \<Rightarrow> (attachment, out_row option) act" where
  "att_query_one en opts q sql params = sn_bind (att_run en opts q sql params) (\<lambda>r. sn_return (at (qr_rows r) 0))"

definition att_execute ::
  "environment \<Rightarrow> resolved_options \<Rightarrow> query_options \<Rightarrow> string \<Rightarrow> query_params \<Rightarrow> (attachment, int) act" where
  "att_execute en opts q sql params = sn_bind (att_run en opts q sql params) (\<lambda>r. sn_return (qr_rows_affected r))"

definition att_query_stream ::
  "environment \<Rightarrow> resolved_options \<Rightarrow> query_options \<Rightarrow> string \<Rightarrow> query_params \<Rightarrow> nat \<Rightarrow> (attachment, out_row list) act" where
  "att_query_stream en opts q sql params n =
     sn_bind (att_start_transaction opts None) (\<lambda>t a.
       case on_session (stream_rows en opts q (tn_handle (tx_of a t)) sql params n) a of (r, a) \<Rightarrow>
         sn_bind (if tn_finished (tx_of a t) then sn_return ()
           else sn_swallow (case r of Inr _ \<Rightarrow> tx_commit t | Inl _ \<Rightarrow> tx_rollback t)) (\<lambda>_. sn_lift r) a)"

subsection \<open>The connection\<close>

definition ping_message :: bytes where
  "ping_message = enc_int32 op_ping"

definition att_ping :: "(attachment, unit) act" where
  "att_ping = at_wire (rd_bind (request ping_message) (\<lambda>_. rd_return ()))"

definition clear_statement_cache :: "(attachment, unit) act" where
  "clear_statement_cache = (\<lambda>a. case s_cache (at_session a) of
     None \<Rightarrow> (Inr (), a)
   | Some c \<Rightarrow> if sc_size c = 0 then (Inr (), a) else sn_bind (at_do (on_cache sc_clear)) (\<lambda>_. att_ping) a)"

definition detach_database :: "unit rd" where
  "detach_database = rd_bind (request (enc_int32 op_detach @ enc_int32 0)) (\<lambda>_. rd_return ())"

definition drop_database :: "int \<Rightarrow> unit rd" where
  "drop_database db = rd_bind (request (enc_int32 op_drop_database @ enc_int32 db)) (\<lambda>_. rd_return ())"

definition inline_clear :: "session \<Rightarrow> session" where
  "inline_clear s = s\<lparr>s_inline := map_option ic_clear (s_inline s)\<rparr>"

text \<open>After the socket is destroyed nothing more arrives.\<close>

definition close_wire :: "attachment \<Rightarrow> attachment" where
  "close_wire a = a\<lparr>at_session := (at_session a)\<lparr>s_wire := (s_wire (at_session a))\<lparr>w_in := []\<rparr>\<rparr>, at_open := False\<rparr>"

definition already_closed :: err where
  "already_closed = JsError ''Attachment already closed''"

text \<open>
  \<open>established\<close> is what connecting, the handshake and the attach come to: an error, or the
  version, the wire and the handle of the new connection.
\<close>

definition att_reconnect :: "resolved_options \<Rightarrow> (int \<times> wire \<times> int) res \<Rightarrow> (attachment, unit) act" where
  "att_reconnect opts established = (\<lambda>a.
     if at_detached a then (Inl already_closed, a)
     else let a = a\<lparr>at_generation := Suc (at_generation a)\<rparr>;
              a = snd (at_do inline_clear a);
              a = a\<lparr>at_round_trips_base := at_round_trips_base a + w_flush_count (s_wire (at_session a))\<rparr>;
              a = close_wire (snd (at_wire detach_database a))
       in case established of
            Inl e \<Rightarrow> (Inl e, a)
          | Inr (version, w, db) \<Rightarrow> (Inr (), a\<lparr>at_session := build_session opts version w db, at_open := True\<rparr>))"

definition att_disconnect :: "(attachment, unit) act" where
  "att_disconnect = (\<lambda>a. if at_detached a then (Inr (), a)
     else let a = snd (at_do inline_clear (a\<lparr>at_detached := True\<rparr>)) in
       (Inr (), close_wire (snd (at_wire detach_database a))))"

definition att_drop_database :: "(attachment, unit) act" where
  "att_drop_database = (\<lambda>a. if at_detached a then (Inl already_closed, a)
     else sn_finally close_wire (at_wire (drop_database (s_db (at_session a)))) (a\<lparr>at_detached := True\<rparr>))"

end
