(* ===== verification/Attachment_Runs.thy ===== *)
theory Attachment_Runs
  imports Attachment Session_Runs
begin

text \<open>
  What the operations of a transaction amount to: the upgrade of a read-only transaction
  with its single replay.
\<close>

subsection \<open>What a step leaves alone\<close>

lemma on_session_txs: "on_session m a = (r, a') \<Longrightarrow> at_txs a' = at_txs a \<and> at_generation a' = at_generation a
    \<and> at_detached a' = at_detached a \<and> at_open a' = at_open a"
  by (auto simp: on_session_def split: prod.splits)

lemma set_tx_same [simp]: "t < length (at_txs a) \<Longrightarrow> tx_of (set_tx t f a) t = f (tx_of a t)"
  by (simp add: tx_of_def set_tx_def)

lemma set_tx_fields [simp]:
  "at_session (set_tx t f a) = at_session a" "at_generation (set_tx t f a) = at_generation a"
  "length (at_txs (set_tx t f a)) = length (at_txs a)" "at_detached (set_tx t f a) = at_detached a"
  by (simp_all add: set_tx_def)

lemma set_tx_session [simp]: "tx_of (a\<lparr>at_session := s\<rparr>) t = tx_of a t"
  by (simp add: tx_of_def)

definition active :: "attachment \<Rightarrow> nat \<Rightarrow> bool" where
  "active a t = (t < length (at_txs a) \<and> \<not> tn_finished (tx_of a t) \<and> at_generation a = tn_att_generation (tx_of a t))"

lemma assert_active_ok: "active a t \<Longrightarrow> assert_active t a = (Inr (), a)"
  by (simp add: assert_active_def same_attachment_def active_def sn_bind_def)

lemma same_attachment_ok: "active a t \<Longrightarrow> same_attachment t a = (Inr (), a)"
  by (simp add: same_attachment_def active_def)

text \<open>A finished transaction, or one of an earlier connection, runs nothing.\<close>

lemma inactive_runs_nothing:
  assumes "tn_finished (tx_of a t) \<or> at_generation a \<noteq> tn_att_generation (tx_of a t)"
  shows "\<exists>e. tx_run en opts t q sql params a = (Inl e, a) \<and> tx_commit t a = (Inl e, a) \<and> tx_rollback t a = (Inl e, a)
    \<and> tx_transaction en opts t fn a = (Inl e, a)"
proof -
  have "\<exists>e. assert_active t a = (Inl e, a)"
    using assms by (cases "at_generation a = tn_att_generation (tx_of a t)") (simp_all add: assert_active_def same_attachment_def sn_bind_def)
  then obtain e where "assert_active t a = (Inl e, a)" ..
  then show ?thesis
    by (intro exI [of _ e]) (simp add: tx_run_def tx_commit_def tx_rollback_def tx_end_def tx_transaction_def sn_bind_def)
qed

subsection \<open>Requests of the attachment\<close>

lemma at_wire_app: "m (s_wire (at_session a)) = (r, w) \<Longrightarrow> at_wire m a = (r, a\<lparr>at_session := absorb ((at_session a)\<lparr>s_wire := w\<rparr>)\<rparr>)"
  by (simp add: at_wire_def on_session_def sn_wire_def)

definition tx_message :: "int \<Rightarrow> int \<Rightarrow> bytes" where
  "tx_message op h = enc_int32 op @ enc_int32 h"

definition start_message :: "int \<Rightarrow> transaction_options \<Rightarrow> bytes" where
  "start_message db v = enc_int32 op_transaction @ enc_int32 db @ enc_opaque (build_tpb v)"

lemma enc_int32_nonempty: "enc_int32 v \<noteq> []"
  using length_enc_int32 [of v] by (cases "enc_int32 v") auto

text \<open>A request whose reply is clean, on the session.\<close>

lemma request_on_session:
  assumes "at_session a = on_wire (feed (reply ns r @ rest)) s" and "noise_fits ns (s_wire s)" and "response_ok r"
    and "body_result (w_messages (s_wire s)) r = Inr g" and "m \<noteq> []"
  shows "\<exists>s'. at_wire (rd_bind (request m) (\<lambda>g. rd_return (f g))) a = (Inr (f g), a\<lparr>at_session := on_wire (feed rest) s'\<rparr>)
    \<and> advanced [m] (on_wire (\<lambda>w. w\<lparr>w_deferred := 0\<rparr>) s) s'"
proof -
  have "request m (feed (reply ns r @ rest) (s_wire s)) = (Inr g, feed rest (settled ns (send m (s_wire s))))"
    using request_reply [of ns "feed rest (s_wire s)" r m] assms(2-4) by (simp add: settled_feed)
  then have "at_wire (rd_bind (request m) (\<lambda>g. rd_return (f g))) a
      = (Inr (f g), a\<lparr>at_session := on_wire (feed rest) (absorb (s\<lparr>s_wire := settled ns (send m (s_wire s))\<rparr>))\<rparr>)"
    using assms(1) by (simp add: at_wire_def on_session_def sn_wire_def rd_bind_def on_wire_feed_absorb del: reply_feed)
  moreover have "advanced [m] (on_wire (\<lambda>w. w\<lparr>w_deferred := 0\<rparr>) s) (absorb (s\<lparr>s_wire := settled ns (send m (s_wire s))\<rparr>))"
    using send_sent [OF assms(5), of "s_wire s"] send_flush_count [OF assms(5), of "s_wire s"] by (simp add: advanced_def on_wire_def)
  ultimately show ?thesis by blast
qed

text \<open>A restart: the end of the old transaction and the start of the new one, in two round trips.\<close>

lemma tx_message_nonempty: "tx_message op h \<noteq> []" "start_message db v \<noteq> []"
  by (simp_all add: tx_message_def start_message_def enc_int32_nonempty)

lemma commit_as_request: "commit_transaction h False = rd_bind (request (tx_message op_commit h)) (\<lambda>g. rd_return ())"
  by (simp add: commit_transaction_def tx_message_def)

lemma start_as_request: "start_transaction db (Some v) = rd_bind (request (start_message db v)) (\<lambda>g. rd_return (gr_handle g))"
  by (simp add: start_transaction_def start_message_def)

lemma restart_commits:
  assumes "active a t" and "at_session a = on_wire (feed (reply ns1 r1 @ reply ns2 r2 @ rest)) s"
    and "noise_fits ns1 (s_wire s)" and "response_ok r1" and "body_result (w_messages (s_wire s)) r1 = Inr g1"
    and "quiet ns2" and "response_ok r2" and "body_result (w_messages (s_wire s)) r2 = Inr g2" and "has_strategy v"
  shows "\<exists>s'. tx_restart t None v a = (Inr (), (set_tx t (\<lambda>x. x\<lparr>tn_options := v, tn_handle := gr_handle g2,
        tn_generation := Suc (tn_generation x), tn_depth := 0, tn_finished := False\<rparr>) a)\<lparr>at_session := on_wire (feed rest) s'\<rparr>)
    \<and> advanced [tx_message op_commit (tn_handle (tx_of a t)), start_message (s_db s) v] (on_wire (\<lambda>w. w\<lparr>w_deferred := 0\<rparr>) s) s'"
proof -
  let ?h = "tn_handle (tx_of a t)"
  obtain s1 where s1: "at_wire (commit_transaction ?h False) a = (Inr (), a\<lparr>at_session := on_wire (feed (reply ns2 r2 @ rest)) s1\<rparr>)"
    "advanced [tx_message op_commit ?h] (on_wire (\<lambda>w. w\<lparr>w_deferred := 0\<rparr>) s) s1"
    unfolding commit_as_request
    using request_on_session [OF assms(2-5) tx_message_nonempty(1), where f = "\<lambda>_. ()"] by blast
  define a1 where "a1 = set_tx t (\<lambda>x. x\<lparr>tn_options := v\<rparr>) (a\<lparr>at_session := on_wire (feed (reply ns2 r2 @ rest)) s1\<rparr>)"
  have w1: "w_deferred (s_wire s1) = 0" "w_messages (s_wire s1) = w_messages (s_wire s)" "s_db s1 = s_db s"
    using s1(2) by (simp_all add: advanced_def on_wire_def)
  have a1: "at_session a1 = on_wire (feed (reply ns2 r2 @ rest)) s1" "t < length (at_txs a1)" "tn_options (tx_of a1 t) = v"
    using assms(1) by (simp_all add: a1_def active_def)
  obtain s2 where s2: "at_wire (start_transaction (s_db s) (Some v)) a1 = (Inr (gr_handle g2), a1\<lparr>at_session := on_wire (feed rest) s2\<rparr>)"
    "advanced [start_message (s_db s) v] (on_wire (\<lambda>w. w\<lparr>w_deferred := 0\<rparr>) s1) s2"
    unfolding start_as_request
    using request_on_session [OF a1(1) quiet_fits [OF assms(6) w1(1)] assms(7) _ tx_message_nonempty(2)] assms(8) w1(2) by force
  have "on_wire (\<lambda>w. w\<lparr>w_deferred := 0\<rparr>) s1 = s1" using w1(1) by (simp add: on_wire_def)
  then have adv: "advanced ([tx_message op_commit ?h] @ [start_message (s_db s) v]) (on_wire (\<lambda>w. w\<lparr>w_deferred := 0\<rparr>) s) s2"
    using advanced_trans [OF s1(2)] s2(2) by simp
  have db: "s_db (at_session a1) = s_db s" using a1(1) w1(3) by (simp add: on_wire_def)
  have "tx_restart t None v a = (Inr (), set_tx t (\<lambda>x. x\<lparr>tn_handle := gr_handle g2, tn_generation := Suc (tn_generation x),
        tn_depth := 0, tn_finished := False\<rparr>) (a1\<lparr>at_session := on_wire (feed rest) s2\<rparr>))"
    using assms(1,9) s1(1) s2(1) a1(3) db same_attachment_ok [OF assms(1)]
    by (simp add: tx_restart_def sn_bind_Inr active_def a1_def [symmetric] del: reply_feed)
  moreover have "set_tx t f (a1\<lparr>at_session := on_wire (feed rest) s2\<rparr>)
      = (set_tx t (\<lambda>x. f (x\<lparr>tn_options := v\<rparr>)) a)\<lparr>at_session := on_wire (feed rest) s2\<rparr>" for f
    using assms(1) by (simp add: a1_def set_tx_def active_def)
  ultimately show ?thesis using adv by (intro exI [of _ s2]) simp
qed

subsection \<open>A statement refused\<close>

text \<open>The error of an execute, with the answer to the piggybacked counts still to come.\<close>

lemma send_execute_refused:
  assumes "\<not> uses_execute2 (ps_description st)" and "\<not> is_select_type (d_stmt_type (ps_description st))"
    and "encode_optional (en_zone en) (encode_text_with (snd ps)) (fst ps) = Inr e"
    and "noise_fits ns (s_wire s)" and "response_ok r" and "body_result (w_messages (s_wire s)) r = Inl x"
  shows "\<exists>s'. sn_wire (send_execute en opts q tx st ps True) (on_wire (feed (reply ns r @ rest)) s) = (Inl x, on_wire (feed rest) s')
    \<and> advanced [execute_message (w_version (s_wire s)) (w_inline_size (s_wire s)) st tx e @ info_message (ps_handle st)]
        (on_wire (\<lambda>w. w\<lparr>w_deferred := 1\<rparr>) s) s'"
proof -
  let ?w = "s_wire s"
  define m where "m = execute_message (w_version ?w) (w_inline_size ?w) st tx e @ info_message (ps_handle st)"
  have m: "m \<noteq> []" by (simp add: m_def info_message_def enc_int32_nonempty)
  have "read_response (feed (concat (map enc_noise ns)) (feed (enc_response r) (feed rest (send m ?w))))
      = (Inl x, feed rest (settled ns (send m ?w)))"
    using read_response_at [of ns "feed rest (send m ?w)" r] assms(4-6) by (simp add: settled_feed)
  then have "send_execute en opts q tx st ps True (feed (reply ns r @ rest) ?w) = (Inl x, mark_deferred (feed rest (settled ns (send m ?w))))"
    using assms(1-3)
    by (simp add: send_execute_def execute_statement_def rd_bind_def rd_lift_def rd_on_error_def execute_response_def Let_def m_def)
  moreover have "mark_deferred (feed rest w) = feed rest (mark_deferred w)" for w by (simp add: mark_deferred_def feed_def)
  ultimately have "sn_wire (send_execute en opts q tx st ps True) (on_wire (feed (reply ns r @ rest)) s)
      = (Inl x, on_wire (feed rest) (absorb (s\<lparr>s_wire := mark_deferred (settled ns (send m ?w))\<rparr>)))"
    by (simp add: sn_wire_def on_wire_feed_absorb del: reply_feed)
  moreover have "advanced [m] (on_wire (\<lambda>w. w\<lparr>w_deferred := 1\<rparr>) s) (absorb (s\<lparr>s_wire := mark_deferred (settled ns (send m ?w))\<rparr>))"
    using send_sent [OF m, of ?w] send_flush_count [OF m, of ?w] by (simp add: advanced_def on_wire_def mark_deferred_def)
  ultimately show ?thesis unfolding m_def by blast
qed

definition update_statement :: stmt_object where
  "update_statement = \<lparr>so_id = 0, so_info = \<lparr>ps_handle = 1, ps_description = \<lparr>d_stmt_type = 3, d_inputs = [], d_outputs = []\<rparr>,
     ps_output_blr = [], ps_readers = [], ps_row_width = 16\<rparr>\<rparr>"

definition read_only_upgrading :: transaction_options where
  "read_only_upgrading = no_options\<lparr>to_read_only := Some True, to_auto_upgrade := Some True\<rparr>"

definition read_only_attachment :: "bytes \<Rightarrow> attachment" where
  "read_only_attachment d = \<lparr>at_session = \<lparr>s_wire = feed d idle_wire, s_db = 0,
       s_cache = Some \<lparr>sc_map = [(''update'', update_statement)], sc_capacity = 64\<rparr>, s_stars = None, s_inline = None, s_next = 1\<rparr>,
     at_generation = 0, at_detached = False, at_open = True, at_round_trips_base = 0,
     at_txs = [\<lparr>tn_finished = False, tn_handle = 7, tn_generation = 0, tn_auto_upgraded = False, tn_depth = 0,
       tn_att_generation = 0, tn_options = read_only_upgrading\<rparr>]\<rparr>"

definition refused :: response where
  "refused = \<lparr>r_handle = 0, r_oid = replicate 8 0, r_data = [], r_status = [WGds isc_read_only_trans]\<rparr>"

text \<open>The refusal, then the answers to the counts, to the commit and to the start.\<close>

lemma refused_attempt:
  assumes "opts = resolve_options (only_database ''db'')"
  shows "\<exists>e a1 s. tx_attempt utc_host opts 0 plain_query ''update'' (Positional []) (read_only_attachment (reply [] refused @ rest)) = (Inl e, a1)
    \<and> should_auto_upgrade opts (tx_of (read_only_attachment d) 0) e \<and> at_session a1 = on_wire (feed rest) s
    \<and> w_deferred (s_wire s) = 1 \<and> w_messages (s_wire s) = (\<lambda>_. None)"
proof -
  define s where "s = at_session (read_only_attachment [])"
  have s: "at_session (read_only_attachment d) = on_wire (feed d) s" for d
    by (simp add: s_def read_only_attachment_def on_wire_def feed_def)
  obtain x where x: "body_result (\<lambda>_. None) refused = Inl x" "should_auto_upgrade opts (tx_of (read_only_attachment d) 0) x"
      "\<not> is_stale_statement_error x"
    by (simp add: is_stale_statement_error_def STALE_STATEMENT_GDS_def refused_def isc_read_only_trans_def body_result_def status_of_def sv_result_def sv_init_def sv_gds_def
        should_auto_upgrade_def read_only_attachment_def tx_of_def read_only_upgrading_def no_options_def or_default_def
        is_read_only_violation_def format_gds_message_def on_current_def)
  have st: "\<not> uses_execute2 (ps_description (so_info update_statement))" "\<not> is_select_type (d_stmt_type (ps_description (so_info update_statement)))"
    "wants_record_counts (d_stmt_type (ps_description (so_info update_statement)))"
    by (simp_all add: update_statement_def uses_execute2_def is_select_type_def wants_record_counts_def stmt_type_of_def all_stmt_types_def)
  have s0: "noise_fits [] (s_wire s)" "w_messages (s_wire s) = (\<lambda>_. None)" "s_wire s = idle_wire"
    by (simp_all add: s_def read_only_attachment_def noise_fits_def idle_wire_def feed_def)
  obtain s' where s': "sn_wire (send_execute utc_host opts plain_query 7 (so_info update_statement) ([], []) True)
        (on_wire (feed (reply [] refused @ rest)) s) = (Inl x, on_wire (feed rest) s')"
    "w_deferred (s_wire s') = 1" "w_messages (s_wire s') = (\<lambda>_. None)"
    using send_execute_refused [OF st(1,2), where en = utc_host and ps = "([], [])" and e = None and ns = "[]" and s = s and r = refused and x = x
        and opts = opts and q = plain_query and tx = 7 and rest = rest] x(1) s0
    by (auto simp: encode_optional_def response_ok_def refused_def isc_read_only_trans_def advanced_def on_wire_def simp del: reply_feed)
  have get: "cache_get ''update'' (on_wire f s) = (Inr (Some update_statement), on_wire f s)" for f
    by (simp add: s_def cache_get_def read_only_attachment_def on_wire_def sc_get_def jm_get_def jm_set_def jm_delete_def)
  obtain mp where mp: "new_row_mapper utc_host opts [] plain_query = Inr mp"
    using assms by (simp add: new_row_mapper_def blobs_for_def or_default_def plain_query_def resolve_options_def only_database_def
        force_eager_def present_def)
  have params: "prepare_params utc_host opts 7 (so_info update_statement) [] = sn_return ([], [])"
    by (simp add: prepare_params_def update_statement_def fun_eq_iff)
  have exec: "execute_prepared utc_host opts plain_query 7 (so_info update_statement) [] True (on_wire (feed (reply [] refused @ rest)) s)
      = (Inl x, on_wire (feed rest) s')"
    using mp params st(3) s'(1)
    by (simp add: execute_prepared_def Let_def update_statement_def [THEN arg_cong [where f = so_info]] sn_bind_Inl del: reply_feed)
  have "run_statement utc_host opts plain_query 7 ''update'' (Positional []) (on_wire (feed (reply [] refused @ rest)) s)
      = (Inl x, on_wire (feed rest) s')"
    using exec get x(3)
    by (simp add: run_statement_def normalize_params_def resolve_expand_star_def sample_session(12) run_resolved_def sn_bind_def
        sn_catch_def del: reply_feed)
  moreover have "tn_handle (tx_of (read_only_attachment f) 0) = 7" for f by (simp add: read_only_attachment_def tx_of_def)
  ultimately have "tx_attempt utc_host opts 0 plain_query ''update'' (Positional []) (read_only_attachment (reply [] refused @ rest))
      = (Inl x, (read_only_attachment (reply [] refused @ rest))\<lparr>at_session := on_wire (feed rest) s'\<rparr>)"
    using s [of "reply [] refused @ rest"] by (simp add: tx_attempt_def on_session_def del: reply_feed)
  then show ?thesis
    using x(2) s'(2,3) by (intro exI [of _ x] exI [of _ "(read_only_attachment (reply [] refused @ rest))\<lparr>at_session := on_wire (feed rest) s'\<rparr>"]
        exI [of _ s']) simp
qed

subsection \<open>Properties\<close>

text \<open>
  C19. A read-only transaction is upgraded once. When a statement is refused because the
  transaction is read-only, and the upgrade is on, the driver commits, starts a
  transaction with the same options but read-write, and runs the statement once more in
  it: the second outcome, an error too, is the caller's. The object stands for the new
  transaction, a later generation of it, that will not be upgraded again.
\<close>

theorem auto_upgrade_replays_once:
  assumes "active a t" and "tx_attempt en opts t q sql params a = (Inl e, a1)" and "should_auto_upgrade opts (tx_of a t) e"
    and "at_session a1 = on_wire (feed (reply ns1 r1 @ reply ns2 r2 @ rest)) s"
    and "noise_fits ns1 (s_wire s)" and "response_ok r1" and "body_result (w_messages (s_wire s)) r1 = Inr g1"
    and "quiet ns2" and "response_ok r2" and "body_result (w_messages (s_wire s)) r2 = Inr g2"
    and "v = (tn_options (tx_of a t))\<lparr>to_read_only := Some False\<rparr>"
  shows "\<exists>a2 s'. tx_run en opts t q sql params a = tx_attempt en opts t q sql params a2
    \<and> at_session a2 = on_wire (feed rest) s' \<and> active a2 t
    \<and> tx_of a2 t = (tx_of a t)\<lparr>tn_options := v, tn_handle := gr_handle g2, tn_generation := Suc (tn_generation (tx_of a t)),
        tn_depth := 0, tn_auto_upgraded := True\<rparr>
    \<and> (\<forall>e'. \<not> should_auto_upgrade opts (tx_of a2 t) e')
    \<and> w_flush_count (s_wire s') = w_flush_count (s_wire s) + 2
    \<and> concat (w_sent (s_wire s')) = concat (w_sent (s_wire s)) @ w_out (s_wire s)
        @ enc_int32 op_commit @ enc_int32 (tn_handle (tx_of a t))
        @ enc_int32 op_transaction @ enc_int32 (s_db s) @ enc_opaque (build_tpb v)"
proof -
  have txs: "at_txs a1 = at_txs a" "at_generation a1 = at_generation a"
    using on_session_txs assms(2) unfolding tx_attempt_def by blast+
  then have tx1: "tx_of a1 t = tx_of a t" and act: "active a1 t" using assms(1) by (simp_all add: tx_of_def active_def)
  obtain s' where s': "tx_restart t None v a1 = (Inr (), (set_tx t (\<lambda>x. x\<lparr>tn_options := v, tn_handle := gr_handle g2,
        tn_generation := Suc (tn_generation x), tn_depth := 0, tn_finished := False\<rparr>) a1)\<lparr>at_session := on_wire (feed rest) s'\<rparr>)"
    "advanced [tx_message op_commit (tn_handle (tx_of a1 t)), start_message (s_db s) v] (on_wire (\<lambda>w. w\<lparr>w_deferred := 0\<rparr>) s) s'"
    using restart_commits [OF act assms(4-10), of v] assms(11) by (auto simp: has_strategy_def)
  define a2 where "a2 = set_tx t (\<lambda>x. x\<lparr>tn_auto_upgraded := True\<rparr>) ((set_tx t (\<lambda>x. x\<lparr>tn_options := v, tn_handle := gr_handle g2,
        tn_generation := Suc (tn_generation x), tn_depth := 0, tn_finished := False\<rparr>) a1)\<lparr>at_session := on_wire (feed rest) s'\<rparr>)"
  have len: "t < length (at_txs a1)" using act by (simp add: active_def)
  have x2: "tx_of a2 t = (tx_of a1 t)\<lparr>tn_options := v, tn_handle := gr_handle g2, tn_generation := Suc (tn_generation (tx_of a1 t)),
      tn_depth := 0, tn_finished := False, tn_auto_upgraded := True\<rparr>"
    using len by (simp add: a2_def)
  moreover have "tn_finished (tx_of a1 t) = False" using act by (simp add: active_def)
  then have "(tx_of a1 t)\<lparr>tn_finished := False\<rparr> = tx_of a1 t" by (cases "tx_of a1 t") simp
  ultimately have x: "tx_of a2 t = (tx_of a t)\<lparr>tn_options := v, tn_handle := gr_handle g2,
      tn_generation := Suc (tn_generation (tx_of a t)), tn_depth := 0, tn_auto_upgraded := True\<rparr>"
    unfolding tx1 [symmetric] by (cases "tx_of a1 t") simp
  have "tx_run en opts t q sql params a = tx_attempt en opts t q sql params a2"
    using assms(2,3,11) s'(1) tx1
    by (simp add: tx_run_def sn_bind_def assert_active_ok [OF assms(1)] sn_catch_def a2_def)
  moreover have "at_session a2 = on_wire (feed rest) s'" by (simp add: a2_def)
  moreover have "active a2 t" using act x2 by (simp add: active_def a2_def)
  moreover have "\<not> should_auto_upgrade opts (tx_of a2 t) e'" for e' using x assms(11) by (simp add: should_auto_upgrade_def)
  moreover have out: "w_out (s_wire s') = []" "w_flush_count (s_wire s') = w_flush_count (s_wire s) + 2"
    using s'(2) by (simp_all add: advanced_def on_wire_def)
  moreover have "concat (w_sent (s_wire s')) = concat (w_sent (s_wire s)) @ w_out (s_wire s)
        @ enc_int32 op_commit @ enc_int32 (tn_handle (tx_of a t))
        @ enc_int32 op_transaction @ enc_int32 (s_db s) @ enc_opaque (build_tpb v)"
    using s'(2) out tx1 by (auto simp: advanced_def tx_message_def start_message_def on_wire_def)
  ultimately show ?thesis
    using x by (intro exI [of _ a2] exI [of _ s']) simp
qed

theorem auto_upgrade_replays_once_witness:
  "\<exists>a2 s'. tx_run utc_host (resolve_options (only_database ''db'')) 0 plain_query ''update'' (Positional [])
        (read_only_attachment (reply [] refused @ reply [NDeferred executed] executed @ reply [] executed @ []))
      = tx_attempt utc_host (resolve_options (only_database ''db'')) 0 plain_query ''update'' (Positional []) a2
    \<and> at_session a2 = on_wire (feed []) s' \<and> tn_auto_upgraded (tx_of a2 0)"
proof -
  let ?opts = "resolve_options (only_database ''db'')"
  let ?a = "read_only_attachment (reply [] refused @ reply [NDeferred executed] executed @ reply [] executed @ [])"
  obtain e a1 s where h: "tx_attempt utc_host ?opts 0 plain_query ''update'' (Positional []) ?a = (Inl e, a1)"
    "should_auto_upgrade ?opts (tx_of ?a 0) e" "at_session a1 = on_wire (feed (reply [NDeferred executed] executed @ reply [] executed @ [])) s"
    and s: "w_deferred (s_wire s) = 1" "w_messages (s_wire s) = (\<lambda>_. None)"
    using refused_attempt [OF refl] by blast
  have "active ?a 0" by (simp add: active_def read_only_attachment_def tx_of_def)
  moreover have "noise_fits [NDeferred executed] (s_wire s)"
    using s sample_facts(2) by (simp add: noise_fits_def executed_def status_of_def sv_result_def sv_init_def sv_gds_def)
  ultimately show ?thesis
    using auto_upgrade_replays_once [OF _ h _ sample_facts(2) _ _ sample_facts(2) _ refl] sample_facts(3) s(2)
    by (fastforce simp: quiet_def simp del: reply_feed)
qed

end
