(* ===== verification/Prepared.thy ===== *)
theory Prepared
  imports Attachment
begin

text \<open>
  \<open>api/prepared.ts\<close> and \<open>Attachment.prepare\<close>: a statement prepared once and run many times,
  in a transaction of the caller or in one of its own. The object is a value that its
  operations return anew.
\<close>

record prepared_object =
  po_info :: prepared_statement
  po_sql :: string
  po_names :: "string list"
  po_closed :: bool
  po_generation :: nat

text \<open>Markers are rewritten once; the statement outlives the transaction that prepares it.\<close>

definition att_prepare :: "environment \<Rightarrow> resolved_options \<Rightarrow> string \<Rightarrow> (attachment, prepared_object) act" where
  "att_prepare en opts sql =
     (let (wire_sql, names) = rewrite_named_params sql in
      sn_bind (in_own_transaction opts None (\<lambda>t a. on_session (prepare_info en opts (tn_handle (tx_of a t)) wire_sql) a))
        (\<lambda>so a. (Inr \<lparr>po_info = so_info so, po_sql = sql, po_names = names, po_closed = False,
           po_generation = at_generation a\<rparr>, a)))"

definition prepared_bind :: "prepared_object \<Rightarrow> query_params \<Rightarrow> arg list res" where
  "prepared_bind p params = (case params of
     Positional vs \<Rightarrow> Inr vs
   | Named ps \<Rightarrow> if po_names p = []
       then Inl (param_error (''a named-parameter object was passed but the prepared SQL has no @name markers '' @ em_dash
         @ '' prepare with @name markers or pass a positional array''))
       else bind_named_params (po_names p) ps)"

definition prepared_inputs :: "prepared_object \<Rightarrow> sql_var_desc option list" where
  "prepared_inputs p = d_inputs (ps_description (po_info p))"

definition prepared_outputs :: "prepared_object \<Rightarrow> sql_var_desc option list" where
  "prepared_outputs p = d_outputs (ps_description (po_info p))"

definition assert_open :: "prepared_object \<Rightarrow> (attachment, unit) act" where
  "assert_open p = (\<lambda>a. (if po_closed p then Inl (JsError (''Prepared statement already closed: '' @ po_sql p))
     else if at_generation a \<noteq> po_generation p
     then Inl (JsError (''Prepared statement is no longer valid: the attachment was reconnected '' @ em_dash
       @ '' prepare it again: '' @ po_sql p))
     else Inr (), a))"

definition prepared_execute_in ::
  "environment \<Rightarrow> resolved_options \<Rightarrow> query_options \<Rightarrow> prepared_object \<Rightarrow> arg list \<Rightarrow> nat \<Rightarrow> (attachment, query_result) act" where
  "prepared_execute_in en opts q p args t = (\<lambda>a. on_session (execute_prepared en opts q (tn_handle (tx_of a t)) (po_info p) args True) a)"

definition prepared_run ::
  "environment \<Rightarrow> resolved_options \<Rightarrow> prepared_object \<Rightarrow> query_params \<Rightarrow> nat option \<Rightarrow> query_options \<Rightarrow> (attachment, query_result) act" where
  "prepared_run en opts p params tx q =
     sn_bind (assert_open p) (\<lambda>_.
     sn_bind (sn_lift (prepared_bind p params)) (\<lambda>args.
       case tx of
         Some t \<Rightarrow> prepared_execute_in en opts q p args t
       | None \<Rightarrow> if blobs_may_produce_lazy (blobs_for opts q)
           then sn_lift (Inl (FbError FirebirdBlobError (''lazy blob modes require an explicit transaction '' @ em_dash
             @ '' pass a tx to stmt.run(params, tx, {blobs:'' @ [quote] @ ''lazy'' @ [quote] @ ''})'') None None []))
           else in_own_transaction opts None (prepared_execute_in en opts q p args)))"

definition prepared_query ::
  "environment \<Rightarrow> resolved_options \<Rightarrow> prepared_object \<Rightarrow> query_params \<Rightarrow> nat option \<Rightarrow> query_options \<Rightarrow> (attachment, out_row list) act" where
  "prepared_query en opts p params tx q = sn_bind (prepared_run en opts p params tx q) (\<lambda>r. sn_return (qr_rows r))"

definition prepared_query_one ::
  "environment \<Rightarrow> resolved_options \<Rightarrow> prepared_object \<Rightarrow> query_params \<Rightarrow> nat option \<Rightarrow> query_options \<Rightarrow> (attachment, out_row option) act" where
  "prepared_query_one en opts p params tx q = sn_bind (prepared_run en opts p params tx q) (\<lambda>r. sn_return (at (qr_rows r) 0))"

definition prepared_execute ::
  "environment \<Rightarrow> resolved_options \<Rightarrow> prepared_object \<Rightarrow> query_params \<Rightarrow> nat option \<Rightarrow> query_options \<Rightarrow> (attachment, int) act" where
  "prepared_execute en opts p params tx q = sn_bind (prepared_run en opts p params tx q) (\<lambda>r. sn_return (qr_rows_affected r))"

text \<open>After a reconnect the handle died with the old connection, so nothing is freed.\<close>

definition prepared_close :: "prepared_object \<Rightarrow> (attachment, prepared_object) act" where
  "prepared_close p = (\<lambda>a.
     if po_closed p then (Inr p, a)
     else if at_generation a \<noteq> po_generation p then (Inr (p\<lparr>po_closed := True\<rparr>), a)
     else (Inr (p\<lparr>po_closed := True\<rparr>), snd (at_do (on_wire (drop_statement (ps_handle (po_info p)))) a)))"

text \<open>A closed statement runs nothing, and closing twice frees once.\<close>

lemma closed_runs_nothing: "po_closed p \<Longrightarrow> \<exists>e. prepared_run en opts p params tx q a = (Inl e, a)"
  by (simp add: prepared_run_def assert_open_def sn_bind_def)

lemma close_twice: "prepared_close p a = (Inr p', a') \<Longrightarrow> prepared_close p' a' = (Inr p', a')"
  by (auto simp: prepared_close_def split: if_splits)

text \<open>Its reader of named parameters agrees with the one of plain statements.\<close>

lemma prepared_bind_normalizes:
  assumes "po_names p = snd (rewrite_named_params (po_sql p))" and "normalize_params (po_sql p) (Named ps) = Inr (sql, args)"
  shows "prepared_bind p (Named ps) = Inr args"
  using assms by (auto simp: normalize_params_def prepared_bind_def rthen_def split: prod.splits if_splits sum.splits)

end
