(* ===== verification/Script_Parser.thy ===== *)
theory Script_Parser
  imports Scanner Errors Tx_Proto
begin

text \<open>
  \<open>script/parser.ts\<close>: comments, the client commands of a script, the classification of
  statements, and the splitter \<open>parseScript\<close>. The position in the script is what is left
  of it, with the line and column the code counts along.
\<close>

subsection \<open>Positions and errors\<close>

type_synonym position = "nat \<times> nat"

definition move :: "string \<Rightarrow> position \<Rightarrow> position" where
  "move s p = foldl (\<lambda>(l, c) ch. if ch = newline then (l + 1, 1) else (l, c + 1)) p s"

definition line_col_at :: "string \<Rightarrow> nat \<Rightarrow> position" where
  "line_col_at s i = move (take i s) (1, 1)"

text \<open>The message of a \<open>ScriptParseError\<close>.\<close>

definition script_parse_error :: "string \<Rightarrow> position \<Rightarrow> err" where
  "script_parse_error msg p = JsError (msg @ '' (line '' @ dec_nat (fst p) @ '', column '' @ dec_nat (snd p) @ '')'')"

subsection \<open>Comments\<close>

definition is_comment :: "region_type \<Rightarrow> bool" where
  "is_comment ty = (ty = LineComment \<or> ty = BlockComment)"

function ranges_from :: "string \<Rightarrow> nat \<Rightarrow> (nat \<times> nat) list \<Rightarrow> (nat \<times> nat) list res" where
  "ranges_from sql i out =
     (if length sql \<le> i then Inr out
      else case region_at sql i of
        None \<Rightarrow> ranges_from sql (i + 1) out
      | Some r \<Rightarrow>
          if \<not> rg_terminated r then Inl (script_parse_error (unterminated_message (rg_type r)) (line_col_at sql (rg_start r)))
          else ranges_from sql (rg_end r) (if is_comment (rg_type r) then out @ [(rg_start r, rg_end r)] else out))"
  by pat_completeness auto
termination
  by (relation "measure (\<lambda>(sql, i, out). length sql - i)") (auto dest: region_at_bounds)

declare ranges_from.simps [simp del]

definition comment_ranges :: "string \<Rightarrow> (nat \<times> nat) list res" where
  "comment_ranges sql = ranges_from sql 0 []"

text \<open>\<open>s.replace(/[^\n\r]/g, ' ')\<close>.\<close>

definition blank :: "string \<Rightarrow> string" where
  "blank s = map (\<lambda>c. if c = newline \<or> c = return_char then c else CHR '' '') s"

fun blank_ranges :: "string \<Rightarrow> nat \<Rightarrow> (nat \<times> nat) list \<Rightarrow> string" where
  "blank_ranges sql prev [] = drop prev sql"
| "blank_ranges sql prev ((s, e) # rs) = js_slice prev s sql @ blank (js_slice s e sql) @ blank_ranges sql e rs"

definition strip_comments :: "string \<Rightarrow> string res" where
  "strip_comments sql = rthen (comment_ranges sql) (\<lambda>rs. Inr (blank_ranges sql 0 rs))"

subsection \<open>Words\<close>

text \<open>The character classes \<open>[a-z$_]\<close> and \<open>[\w$]\<close>, on lower-case text.\<close>

definition word_start :: "char \<Rightarrow> bool" where
  "word_start c = (is_lower c \<or> c = CHR ''$'' \<or> c = CHR ''_'')"

definition word_part :: "char \<Rightarrow> bool" where
  "word_part c = (is_upper c \<or> is_lower c \<or> is_digit c \<or> c = CHR ''_'' \<or> c = CHR ''$'')"

text \<open>All matches of \<open>/[a-z$_][\w$]*|\d+|\S/g\<close>, and of \<open>/[a-z$_][\w$]*/g\<close>.\<close>

function script_tokens :: "string \<Rightarrow> string list" where
  "script_tokens [] = []"
| "script_tokens (c # r) =
     (if word_start c then (c # takeWhile word_part r) # script_tokens (dropWhile word_part r)
      else if is_digit c then (c # takeWhile is_digit r) # script_tokens (dropWhile is_digit r)
      else if is_ws c then script_tokens r
      else [c] # script_tokens r)"
  by pat_completeness auto
termination
  by (relation "measure length") (auto simp: le_imp_less_Suc length_dropWhile_le)

function script_words :: "string \<Rightarrow> string list" where
  "script_words [] = []"
| "script_words (c # r) =
     (if word_start c then (c # takeWhile word_part r) # script_words (dropWhile word_part r) else script_words r)"
  by pat_completeness auto
termination
  by (relation "measure length") (auto simp: le_imp_less_Suc length_dropWhile_le)

text \<open>\<open>s.replace(/;+\s*$/, '')\<close>.\<close>

definition drop_semicolons :: "string \<Rightarrow> string" where
  "drop_semicolons s = (let r = dropWhile is_ws (rev s) in
     if r \<noteq> [] \<and> hd r = CHR '';'' then rev (dropWhile (\<lambda>c. c = CHR '';'') r) else s)"

subsection \<open>Client commands\<close>

datatype client_command =
    CmdReconnect
  | CmdCommit bool
  | CmdRollback bool
  | CmdSetTransaction transaction_options string
  | CmdSetAutoDdl bool
  | CmdUnsupported string

definition unsupported_clause :: "string \<Rightarrow> client_command" where
  "unsupported_clause clause = CmdUnsupported (''SET TRANSACTION: unsupported clause '' @ clause @ '' '' @ em_dash
     @ '' the driver cannot map it to TransactionOptions'')"

definition word_or_end :: "string list \<Rightarrow> string" where
  "word_or_end ts = (case ts of t # r \<Rightarrow> to_upper t | [] \<Rightarrow> ''<end>'')"

definition first_is :: "string \<Rightarrow> string list \<Rightarrow> bool" where
  "first_is w ts = (case ts of t # r \<Rightarrow> t = w | [] \<Rightarrow> False)"

definition is_number :: "string \<Rightarrow> bool" where
  "is_number s = (s \<noteq> [] \<and> list_all is_digit s)"

text \<open>The loop over the clauses. \<open>ts\<close> is what follows the clause's first word.\<close>

function set_transaction_loop :: "string list \<Rightarrow> transaction_options \<Rightarrow> string \<Rightarrow> client_command" where
  "set_transaction_loop [] v raw = CmdSetTransaction v raw"
| "set_transaction_loop (t # ts) v raw =
     (if t = ''read'' then
        (if first_is ''write'' ts then set_transaction_loop (tl ts) (v\<lparr>to_read_only := Some False\<rparr>) raw
         else if first_is ''only'' ts then set_transaction_loop (tl ts) (v\<lparr>to_read_only := Some True\<rparr>) raw
         else if first_is ''committed'' ts \<or> first_is ''uncommitted'' ts
         then set_transaction_loop (tl ts) (v\<lparr>to_isolation := Some ReadCommittedNoRecVersion\<rparr>) raw
         else if first_is ''consistency'' ts then unsupported_clause ''READ CONSISTENCY''
         else unsupported_clause (''READ '' @ word_or_end ts))
      else if t = ''wait'' then set_transaction_loop ts (v\<lparr>to_wait := Some WaitTrue\<rparr>) raw
      else if t = ''no'' then
        (if first_is ''wait'' ts then set_transaction_loop (tl ts) (v\<lparr>to_wait := Some WaitFalse\<rparr>) raw
         else if first_is ''version'' ts \<or> first_is ''record_version'' ts
         then set_transaction_loop (tl ts) (v\<lparr>to_isolation := Some ReadCommittedNoRecVersion\<rparr>) raw
         else if first_is ''auto'' ts then unsupported_clause ''NO AUTO UNDO''
         else unsupported_clause (''NO '' @ word_or_end ts))
      else if t = ''version'' \<or> t = ''record_version''
      then set_transaction_loop ts (v\<lparr>to_isolation := Some ReadCommitted\<rparr>) raw
      else if t = ''isolation'' then set_transaction_loop (if first_is ''level'' ts then tl ts else ts) v raw
      else if t = ''snapshot'' then
        (if first_is ''table'' ts
         then set_transaction_loop (if first_is ''stability'' (tl ts) then tl (tl ts) else tl ts)
           (v\<lparr>to_isolation := Some Serializable\<rparr>) raw
         else if first_is ''at'' ts then unsupported_clause ''SNAPSHOT AT NUMBER (shared snapshots)''
         else set_transaction_loop ts (v\<lparr>to_isolation := Some Snapshot\<rparr>) raw)
      else if t = ''lock'' then
        (if first_is ''timeout'' ts \<and> (case tl ts of d # r \<Rightarrow> is_number d | [] \<Rightarrow> False)
         then set_transaction_loop (tl (tl ts)) (v\<lparr>to_wait := Some (WaitSeconds (int (digits_val (hd (tl ts)))))\<rparr>) raw
         else unsupported_clause ''LOCK (expected LOCK TIMEOUT <seconds>)'')
      else if t = ''auto'' then
        (if first_is ''commit'' ts then set_transaction_loop (tl ts) (v\<lparr>to_auto_commit := Some True\<rparr>) raw
         else unsupported_clause ''AUTO RELEASE TEMP BLOBID'')
      else if t = ''reserving'' then unsupported_clause ''RESERVING (table reservation)''
      else if t = ''ignore'' then unsupported_clause ''IGNORE LIMBO''
      else if t = ''restart'' then unsupported_clause ''RESTART REQUESTS''
      else unsupported_clause (''starting at '' @ [dquote] @ to_upper t @ [dquote]))"
  by pat_completeness auto
termination
  by (relation "measure (\<lambda>(ts, v, raw). length ts)") (auto simp: less_Suc_eq_le)

definition parse_set_transaction :: "string list \<Rightarrow> string \<Rightarrow> client_command" where
  "parse_set_transaction tokens raw = set_transaction_loop tokens no_options raw"

text \<open>\<open>COMMIT | ROLLBACK [WORK] [RETAIN [SNAPSHOT]]\<close>; \<open>ts\<close> is what follows the first word.\<close>

definition parse_end :: "string \<Rightarrow> string list \<Rightarrow> client_command option" where
  "parse_end w1 ts =
     (let ts = (if first_is ''work'' ts then tl ts else ts) in
      if w1 = ''rollback'' \<and> first_is ''to'' ts then None
      else let retain = first_is ''retain'' ts;
               ts = (if retain then (if first_is ''snapshot'' (tl ts) then tl (tl ts) else tl ts) else ts) in
        if ts \<noteq> [] then Some (CmdUnsupported (to_upper w1 @ '': unexpected '' @ [dquote] @ to_upper (hd ts) @ [dquote] @ '' ''
          @ em_dash @ '' expected [WORK] [RETAIN [SNAPSHOT]]''))
        else Some (if w1 = ''commit'' then CmdCommit retain else CmdRollback retain))"

definition classify_client_command :: "string \<Rightarrow> client_command option" where
  "classify_client_command sql = (case strip_comments sql of Inl e \<Rightarrow> None | Inr stripped \<Rightarrow>
     (case script_tokens (to_lower (drop_semicolons stripped)) of
        [] \<Rightarrow> None
      | w1 # ts \<Rightarrow>
          if w1 = ''reconnect'' then (if ts = [] then Some CmdReconnect else None)
          else if w1 = ''commit'' \<or> w1 = ''rollback'' then parse_end w1 ts
          else if w1 = ''set'' then
            (if first_is ''transaction'' ts then Some (parse_set_transaction (tl ts) sql)
             else if first_is ''autoddl'' ts \<or> first_is ''auto'' ts then
               (if tl ts = [''on''] then Some (CmdSetAutoDdl True) else if tl ts = [''off''] then Some (CmdSetAutoDdl False)
                else Some (CmdUnsupported ''SET AUTODDL requires an explicit ON or OFF (the bare isql toggle depends on invisible state)''))
             else None)
          else None))"

subsection \<open>Kinds of statements\<close>

datatype statement_kind = KindDdl | KindDml | KindOther | KindClient

text \<open>The head without comments: \<open>/--[^\n]*|\/\*[\s\S]*?(\*\/|$)/g\<close> replaced by blanks.\<close>

function head_without_comments :: "string \<Rightarrow> string" where
  "head_without_comments [] = []"
| "head_without_comments (c # r) =
     (if c = CHR ''-'' \<and> at r 0 = Some (CHR ''-'') then CHR '' '' # head_without_comments (dropWhile (\<lambda>d. d \<noteq> newline) r)
      else if c = CHR ''/'' \<and> at r 0 = Some (CHR ''*'')
      then CHR '' '' # head_without_comments (case find_pair (CHR ''*'') (CHR ''/'') (tl r) of Some k \<Rightarrow> drop (k + 2) (tl r) | None \<Rightarrow> [])
      else c # head_without_comments r)"
  by pat_completeness auto
termination
  by (relation "measure length") (auto simp: le_imp_less_Suc length_dropWhile_le split: option.split)

definition classify_server_statement :: "string \<Rightarrow> statement_kind" where
  "classify_server_statement sql = (case script_words (to_lower (head_without_comments (take 400 sql))) of
     [] \<Rightarrow> KindOther
   | w1 # ws \<Rightarrow>
       if w1 \<in> set [''create'', ''alter'', ''drop'', ''recreate'', ''comment'', ''grant'', ''revoke'', ''declare''] then KindDdl
       else if w1 = ''set'' then (if first_is ''generator'' ws then KindDdl else KindOther)
       else if w1 \<in> set [''insert'', ''update'', ''delete'', ''merge''] then KindDml
       else if w1 = ''execute'' then (if first_is ''procedure'' ws then KindDml else KindOther)
       else KindOther)"

definition classify_statement :: "string \<Rightarrow> statement_kind" where
  "classify_statement sql = (if classify_client_command sql \<noteq> None then KindClient else classify_server_statement sql)"

subsection \<open>The splitter\<close>

record parsed_statement =
  pa_sql :: string
  pa_line :: nat
  pa_column :: nat
  pa_kind :: statement_kind
  pa_client :: "client_command option"

text \<open>How far \<open>/^set\s+term\b/i\<close> matches.\<close>

definition is_word_char :: "char \<Rightarrow> bool" where
  "is_word_char c = (is_upper c \<or> is_lower c \<or> is_digit c \<or> c = CHR ''_'')"

definition set_term_len :: "string \<Rightarrow> nat option" where
  "set_term_len s =
     (let ws = takeWhile is_ws (drop 3 s); k = 3 + length ws in
      if to_lower (take 3 s) = ''set'' \<and> ws \<noteq> [] \<and> to_lower (take 4 (drop k s)) = ''term''
         \<and> (case at s (k + 4) of None \<Rightarrow> True | Some c \<Rightarrow> \<not> is_word_char c)
      then Some (k + 4) else None)"

function skip_trivia :: "string \<Rightarrow> position \<Rightarrow> (string \<times> position) res" where
  "skip_trivia [] p = Inr ([], p)"
| "skip_trivia (c # r) p =
     (if is_ws c then skip_trivia r (move [c] p)
      else case region_from (c # r) of
        None \<Rightarrow> Inr (c # r, p)
      | Some (ty, k, ok) \<Rightarrow>
          if \<not> is_comment ty then Inr (c # r, p)
          else if \<not> ok then Inl (script_parse_error ''Unterminated block comment'' p)
          else skip_trivia (drop k (c # r)) (move (take k (c # r)) p))"
  by pat_completeness auto
termination
  by (relation "measure (\<lambda>(t, p). length t)") (auto dest: region_from_bounds)

definition matches_terminator :: "string \<Rightarrow> string \<Rightarrow> bool" where
  "matches_terminator tm t = (tm \<noteq> [] \<and> starts_at t 0 tm)"

text \<open>
  The body up to an unquoted terminator or the end: its text, whether it has content, and
  what is left.
\<close>

function scan_body :: "string \<Rightarrow> string \<Rightarrow> position \<Rightarrow> (string \<times> bool \<times> string \<times> position) res" where
  "scan_body tm [] p = Inr ([], False, [], p)"
| "scan_body tm (c # r) p =
     (case region_from (c # r) of
        Some (ty, k, ok) \<Rightarrow>
          if \<not> ok then Inl (script_parse_error (unterminated_message ty) p)
          else (case scan_body tm (drop k (c # r)) (move (take k (c # r)) p) of
              Inl e \<Rightarrow> Inl e
            | Inr (b, saw, rest, p') \<Rightarrow> Inr (take k (c # r) @ b, saw \<or> \<not> is_comment ty, rest, p'))
      | None \<Rightarrow>
          if matches_terminator tm (c # r) then Inr ([], False, drop (length tm) (c # r), move tm p)
          else (case scan_body tm r (move [c] p) of
              Inl e \<Rightarrow> Inl e
            | Inr (b, saw, rest, p') \<Rightarrow> Inr (c # b, saw \<or> \<not> is_ws c, rest, p')))"
  by pat_completeness auto
termination
  by (relation "measure (\<lambda>(tm, t, p). length t)") (auto dest: region_from_bounds)

fun index_of :: "string \<Rightarrow> string \<Rightarrow> nat option" where
  "index_of p [] = None"
| "index_of p (c # r) = (if starts_at (c # r) 0 p then Some 0 else map_option Suc (index_of p r))"

text \<open>The new terminator, with what the command leaves of the script.\<close>

definition consume_set_term :: "string \<Rightarrow> string \<Rightarrow> position \<Rightarrow> (string \<times> string \<times> position) res" where
  "consume_set_term tm t p = (case index_of tm t of
     None \<Rightarrow> Inl (script_parse_error ''SET TERM without a terminator'' p)
   | Some j \<Rightarrow>
       (let command = take j t;
            rest = trim (case set_term_len command of Some k \<Rightarrow> drop k command | None \<Rightarrow> command) in
        if rest = [] then Inl (script_parse_error ''SET TERM requires a new terminator'' p)
        else Inr (rest, drop (j + length tm) t, move (take (j + length tm) t) p)))"

definition parsed :: "string \<Rightarrow> position \<Rightarrow> parsed_statement" where
  "parsed sql p = (case classify_client_command sql of
     Some c \<Rightarrow> \<lparr>pa_sql = sql, pa_line = fst p, pa_column = snd p, pa_kind = KindClient, pa_client = Some c\<rparr>
   | None \<Rightarrow> \<lparr>pa_sql = sql, pa_line = fst p, pa_column = snd p, pa_kind = classify_server_statement sql, pa_client = None\<rparr>)"

definition emitted :: "string \<Rightarrow> bool \<Rightarrow> position \<Rightarrow> parsed_statement list" where
  "emitted body saw p = (if saw \<and> trim body \<noteq> [] then [parsed (trim body) p] else [])"

lemma skip_trivia_le: "skip_trivia t p = Inr (t', p') \<Longrightarrow> length t' \<le> length t"
  by (induction t p rule: skip_trivia.induct) (fastforce split: if_splits option.splits prod.splits)+

lemma scan_body_less: "scan_body tm t p = Inr (b, saw, rest, p') \<Longrightarrow> t \<noteq> [] \<Longrightarrow> length rest < length t"
proof (induction tm t p arbitrary: b saw rest p' rule: scan_body.induct)
  case (2 tm c r p)
  show ?case
  proof (cases "region_from (c # r)")
    case None
    show ?thesis
    proof (cases "matches_terminator tm (c # r)")
      case True
      then show ?thesis using 2(3) None by (cases tm) (auto simp: matches_terminator_def)
    next
      case False
      then obtain b' saw' where rec: "scan_body tm r (move [c] p) = Inr (b', saw', rest, p')"
        using 2(3) None by (auto split: sum.splits prod.splits)
      then show ?thesis
        using 2(1) [OF None False] by (cases r) fastforce+
    qed
  next
    case (Some x)
    then obtain ty k ok where x: "region_from (c # r) = Some (ty, k, ok)" by (cases x) auto
    then have k: "0 < k" "k \<le> length (c # r)" using region_from_bounds by blast+
    obtain b' saw' where rec: "ok" "scan_body tm (drop k (c # r)) (move (take k (c # r)) p) = Inr (b', saw', rest, p')"
      using 2(3) x by (auto split: if_splits sum.splits prod.splits)
    have "length rest \<le> length (drop k (c # r))"
    proof (cases "drop k (c # r) = []")
      case True
      then show ?thesis using rec(2) by simp
    next
      case False
      then show ?thesis using 2(2) [OF x refl refl] rec by fastforce
    qed
    then show ?thesis using k by simp
  qed
qed simp

lemma index_of_le: "index_of p t = Some j \<Longrightarrow> j < length t"
  by (induction p t arbitrary: j rule: index_of.induct) (auto split: if_splits)

lemma trim_Nil [simp]: "trim [] = []"
  by (simp add: trim_def)

lemma set_term_len_Nil [simp]: "set_term_len [] = None"
  by (simp add: set_term_len_def)

lemma consume_set_term_less:
  assumes "consume_set_term tm t p = Inr (tm', t', p')" and "t \<noteq> []"
  shows "length t' < length t"
proof -
  obtain j where j: "index_of tm t = Some j" "t' = drop (j + length tm) t"
    using assms(1) by (auto simp: consume_set_term_def Let_def split: option.splits if_splits)
  moreover have "0 < j" using assms(1) j(1) by (cases j) (auto simp: consume_set_term_def)
  ultimately show ?thesis using assms(2) by (cases t) auto
qed

text \<open>\<open>parseScript\<close>, from a position on.\<close>

function parse_from :: "string \<Rightarrow> string \<Rightarrow> position \<Rightarrow> parsed_statement list res" where
  "parse_from tm t p =
     (case skip_trivia t p of
        Inl e \<Rightarrow> Inl e
      | Inr (t, p) \<Rightarrow>
          if t = [] then Inr []
          else if set_term_len (take 12 t) \<noteq> None then
            (case consume_set_term tm t p of Inl e \<Rightarrow> Inl e | Inr (tm', t', p') \<Rightarrow> parse_from tm' t' p')
          else (case scan_body tm t p of
              Inl e \<Rightarrow> Inl e
            | Inr (b, saw, rest, p') \<Rightarrow> rthen (parse_from tm rest p') (\<lambda>ss. Inr (emitted b saw p @ ss))))"
  by pat_completeness auto
termination
  by (relation "measure (\<lambda>(tm, t, p). length t)")
    (auto dest!: skip_trivia_le consume_set_term_less scan_body_less)

declare parse_from.simps [simp del]

definition parse_script :: "string \<Rightarrow> string option \<Rightarrow> parsed_statement list res" where
  "parse_script script terminator = parse_from (case terminator of Some tm \<Rightarrow> tm | None \<Rightarrow> '';'') script (1, 1)"

end
