(* ===== verification/Script_Runs.thy ===== *)
theory Script_Runs
  imports Script_Parser
begin

text \<open>
  What the script parser's results mean: blanking out comments keeps every position and
  leaves no comment, and a script written statement by statement parses back into them.
\<close>

subsection \<open>A region depends on its own text\<close>

text \<open>What may follow a region without changing it.\<close>

definition ends_at :: "region_type \<Rightarrow> char \<Rightarrow> string \<Rightarrow> bool" where
  "ends_at ty c u = (u = [] \<or> (ty = LineComment \<longrightarrow> hd u = newline \<or> hd u = return_char)
     \<and> (ty = StringLiteral \<or> ty = QuotedIdentifier \<longrightarrow> hd u \<noteq> c))"

lemma line_len_prefix: "u = [] \<or> hd u = newline \<or> hd u = return_char \<Longrightarrow> line_len (take (line_len r) r @ u) = line_len r"
proof (induction r)
  case Nil
  then show ?case by (cases u) auto
qed (cases u; auto)

lemma find_pair_prefix: "find_pair a b r = Some k \<Longrightarrow> find_pair a b (take (k + 2) r @ u) = Some k"
  by (induction a b r arbitrary: k rule: find_pair.induct) (auto split: if_splits)

lemma quoted_len_prefix: "quoted_len q r = Some k \<Longrightarrow> u = [] \<or> hd u \<noteq> q \<Longrightarrow> quoted_len q (take k r @ u) = Some k"
proof (induction q r arbitrary: k rule: quoted_len.induct)
  case (2 q x)
  then show ?case by (cases u) (auto split: if_splits)
next
  case (3 q x y r)
  then show ?case
    by (cases u) (auto split: if_splits simp: numeral_2_eq_2 take_Cons' )
qed simp

lemma region_prefix:
  assumes "region_from (c # r) = Some (ty, k, True)" and "ends_at ty c u"
  shows "region_from (take k (c # r) @ u) = Some (ty, k, True)"
proof -
  consider (line) r' where "c = CHR ''-''" "r = CHR ''-'' # r'"
    | (block) r' where "c = CHR ''/''" "r = CHR ''*'' # r'"
    | (q) d r' where "c = CHR ''q'' \<or> c = CHR ''Q''" "r = quote # d # r'"
    | (quoted) "c = quote \<or> c = dquote"
    using assms(1) by (cases r; cases "tl r") (auto simp: region_from_Cons at_def split: if_splits)
  then show ?thesis
  proof cases
    case line
    then have k: "ty = LineComment" "k = Suc (Suc (line_len r'))"
      using assms(1) by (auto simp: region_line at_def)
    then have "line_len (take (line_len r') r' @ u) = line_len r'"
      using assms(2) by (intro line_len_prefix) (auto simp: ends_at_def)
    then show ?thesis using line k by (simp add: region_line at_def)
  next
    case block
    then obtain j where j: "find_pair (CHR ''*'') (CHR ''/'') r' = Some j" "ty = BlockComment" "k = Suc (Suc (j + 2))"
      using assms(1) by (auto simp: region_block at_def split: option.splits)
    then show ?thesis using block find_pair_prefix [OF j(1), of u] by (simp add: region_block at_def)
  next
    case q
    then obtain j where j: "find_pair (q_closer d) quote r' = Some j" "ty = QLiteral" "k = Suc (Suc (Suc (j + 2)))"
      using assms(1) by (auto simp: region_q at_def numeral_2_eq_2 split: option.splits)
    then show ?thesis using q find_pair_prefix [OF j(1), of u] by (auto simp: region_q at_def numeral_2_eq_2)
  next
    case quoted
    then obtain j where j: "quoted_len c r = Some j" "k = Suc j" "ty = (if c = quote then StringLiteral else QuotedIdentifier)"
      using assms(1) by (auto simp: region_quoted Let_def split: option.splits)
    then have "quoted_len c (take j r @ u) = Some j"
      using assms(2) by (intro quoted_len_prefix) (auto simp: ends_at_def split: if_splits)
    then show ?thesis using quoted j by (auto simp: region_quoted Let_def)
  qed
qed

text \<open>No region begins with two characters that begin none, wherever the second comes from.\<close>

lemma no_region:
  "region_from (c # r) = None \<longleftrightarrow> c \<noteq> quote \<and> c \<noteq> dquote \<and> (r = [] \<or>
     \<not> (c = CHR ''-'' \<and> hd r = CHR ''-'') \<and> \<not> (c = CHR ''/'' \<and> hd r = CHR ''*'')
     \<and> \<not> ((c = CHR ''q'' \<or> c = CHR ''Q'') \<and> hd r = quote))"
proof (cases r)
  case Nil
  then show ?thesis by (auto simp: region_from_Cons at_def Let_def)
next
  case (Cons d r')
  show ?thesis
  proof
    assume none: "region_from (c # r) = None"
    have "c \<noteq> quote" "c \<noteq> dquote" using none by (auto simp: region_quoted Let_def split: option.splits)
    moreover have "\<not> (c = CHR ''-'' \<and> d = CHR ''-'')" using none Cons by (auto simp: region_line at_def)
    moreover have "\<not> (c = CHR ''/'' \<and> d = CHR ''*'')" using none Cons by (auto simp: region_block at_def split: option.splits)
    moreover have "\<not> ((c = CHR ''q'' \<or> c = CHR ''Q'') \<and> d = quote)"
      using none Cons by (auto simp: region_q at_def split: option.splits)
    ultimately show "c \<noteq> quote \<and> c \<noteq> dquote \<and> (r = [] \<or> \<not> (c = CHR ''-'' \<and> hd r = CHR ''-'') \<and> \<not> (c = CHR ''/'' \<and> hd r = CHR ''*'')
       \<and> \<not> ((c = CHR ''q'' \<or> c = CHR ''Q'') \<and> hd r = quote))" using Cons by simp
  qed (rule region_noneI, use Cons in \<open>auto simp: at_def\<close>)
qed

lemma line_len_stop: "drop (line_len r) r = [] \<or> hd (drop (line_len r) r) = newline \<or> hd (drop (line_len r) r) = return_char"
  by (induction r) auto

lemma quoted_len_stop: "quoted_len q r = Some k \<Longrightarrow> drop k r = [] \<or> hd (drop k r) \<noteq> q"
  by (induction q r arbitrary: k rule: quoted_len.induct) (auto split: if_splits)

lemma region_quote_char:
  assumes "region_from (c # r) = Some (ty, k, ok)"
  shows "ty = StringLiteral \<Longrightarrow> c = quote" and "ty = QuotedIdentifier \<Longrightarrow> c = dquote"
  using assms by (auto simp: region_from_Cons Let_def split: if_splits option.splits)

lemma region_terminated_ends:
  assumes "region_from (c # r) = Some (ty, k, True)"
  shows "ends_at ty c (drop k (c # r))"
proof (cases ty)
  case LineComment
  then have "c = CHR ''-''" "r \<noteq> []" "k = Suc (Suc (line_len (tl r)))"
    using assms by (auto simp: region_from_Cons Let_def at_def drop_Suc split: if_splits option.splits)
  then show ?thesis using LineComment line_len_stop [of "tl r"] by (auto simp: ends_at_def drop_Suc)
next
  case StringLiteral
  then have "c = quote" "\<exists>j. k = Suc j \<and> quoted_len c r = Some j"
    using assms by (auto simp: region_from_Cons Let_def split: if_splits option.splits)
  then show ?thesis using StringLiteral quoted_len_stop [of c r] by (auto simp: ends_at_def)
next
  case QuotedIdentifier
  then have "c = dquote" "\<exists>j. k = Suc j \<and> quoted_len c r = Some j"
    using assms by (auto simp: region_from_Cons Let_def split: if_splits option.splits)
  then show ?thesis using QuotedIdentifier quoted_len_stop [of c r] by (auto simp: ends_at_def)
qed (auto simp: ends_at_def)

subsection \<open>Blanking out comments\<close>

text \<open>The same text, computed along the regions.\<close>

function strip_from :: "string \<Rightarrow> string option" where
  "strip_from [] = Some []"
| "strip_from (c # r) = (case region_from (c # r) of
     None \<Rightarrow> map_option ((#) c) (strip_from r)
   | Some (ty, k, ok) \<Rightarrow> if \<not> ok then None
       else map_option ((@) (if is_comment ty then blank (take k (c # r)) else take k (c # r))) (strip_from (drop k (c # r))))"
  by pat_completeness auto
termination
  by (relation "measure length") (auto dest: region_from_bounds)

lemma drop_at: "i < length sql \<Longrightarrow> drop i sql = sql ! i # drop (Suc i) sql"
  by (simp add: Cons_nth_drop_Suc)

lemma slice_to_end: "length sql \<le> i \<Longrightarrow> js_slice p i sql = drop p sql"
  by (simp add: js_slice_def)

text \<open>Ranges that follow each other between two indices, each a comment of the text.\<close>

fun ranges_in :: "string \<Rightarrow> nat \<Rightarrow> (nat \<times> nat) list \<Rightarrow> bool" where
  "ranges_in sql a [] = True"
| "ranges_in sql a ((s, e) # rs) = (a \<le> s \<and> e \<le> length sql \<and> ranges_in sql e rs
     \<and> (\<exists>g. region_at sql s = Some g \<and> rg_end g = e \<and> is_comment (rg_type g)))"

lemma ranges_in_mono: "ranges_in sql b rs \<Longrightarrow> a \<le> b \<Longrightarrow> ranges_in sql a rs"
  by (cases rs) auto

text \<open>The loop over the indices collects what the walk along the regions blanks.\<close>

lemma ranges_strip:
  assumes "prev \<le> i" and "ranges_from sql i out = Inr rs"
  shows "\<exists>ds t. rs = out @ ds \<and> ranges_in sql i ds \<and> strip_from (drop i sql) = Some t \<and> blank_ranges sql prev ds = js_slice prev i sql @ t"
  using assms
proof (induction sql i out arbitrary: prev rs rule: ranges_from.induct)
  case (1 sql i out)
  show ?case
  proof (cases "length sql \<le> i")
    case True
    then show ?thesis using 1(4) by (simp add: ranges_from.simps [of sql i out] slice_to_end)
  next
    case False
    then have d: "drop i sql = sql ! i # drop (Suc i) sql" by (simp add: drop_at)
    show ?thesis
    proof (cases "region_from (drop i sql)")
      case None
      then have r: "region_at sql i = None" by (simp add: region_at_def)
      obtain ds t where IH: "rs = out @ ds" "ranges_in sql (i + 1) ds" "strip_from (drop (i + 1) sql) = Some t" "blank_ranges sql prev ds = js_slice prev (i + 1) sql @ t"
        using 1(1) [OF False r, of prev rs] 1(3,4) False r by (auto simp: ranges_from.simps [of sql i out])
      have "js_slice prev (Suc i) sql = js_slice prev i sql @ [sql ! i]"
        using 1(3) False slice_split [of prev i "Suc i" sql] d by (simp add: js_slice_def drop_take take_Suc_conv_app_nth)
      then show ?thesis using IH None d by (auto intro: ranges_in_mono)
    next
      case (Some x)
      then obtain ty k ok where x: "region_from (drop i sql) = Some (ty, k, ok)" by (cases x) auto
      then have r: "region_at sql i = Some \<lparr>rg_type = ty, rg_start = i, rg_end = i + k, rg_terminated = ok\<rparr>"
        by (simp add: region_at_def)
      have le: "i + k \<le> length sql" using region_at_bounds [OF r] by simp
      have dk: "drop k (sql ! i # drop (Suc i) sql) = drop (i + k) sql" unfolding d [symmetric] by (simp add: add.commute)
      have ok: ok using 1(4) False r by (cases ok) (simp_all add: ranges_from.simps [of sql i out])
      let ?out = "if is_comment ty then out @ [(i, i + k)] else out"
      have step: "ranges_from sql (i + k) ?out = Inr rs" using 1(4) False r ok by (cases "is_comment ty") (simp_all add: ranges_from.simps [of sql i out])
      have take: "js_slice i (i + k) sql = take k (drop i sql)" by (simp add: js_slice_def drop_take)
      have split: "js_slice prev (i + k) sql = js_slice prev i sql @ take k (drop i sql)"
        using slice_split [of prev i "i + k" sql] 1(3) take by simp
      obtain ds t where IH: "rs = ?out @ ds" "ranges_in sql (i + k) ds" "strip_from (drop (i + k) sql) = Some t"
        "blank_ranges sql (if is_comment ty then i + k else prev) ds = js_slice (if is_comment ty then i + k else prev) (i + k) sql @ t"
        using 1(2) [OF False r, of "if is_comment ty then i + k else prev" rs] step ok 1(3) by (cases "is_comment ty") auto
      have strip: "strip_from (drop i sql) = Some ((if is_comment ty then blank (take k (drop i sql)) else take k (drop i sql)) @ t)"
        using x ok IH(3) dk unfolding d by simp
      show ?thesis
      proof (cases "is_comment ty")
        case True
        then show ?thesis
          using IH strip take le r by (intro exI [of _ "(i, i + k) # ds"] exI [of _ "blank (take k (drop i sql)) @ t"]) (simp add: js_slice_def)
      next
        case False
        then show ?thesis
          using IH strip split ranges_in_mono [OF IH(2)] by (intro exI [of _ ds] exI [of _ "take k (drop i sql) @ t"]) simp
      qed
    qed
  qed
qed

lemma strip_comments_from:
  assumes "comment_ranges sql = Inr rs" and "strip_comments sql = Inr out"
  shows "strip_from sql = Some out" and "ranges_in sql 0 rs" and "out = blank_ranges sql 0 rs"
  using assms ranges_strip [of 0 0 sql "[]" rs] by (auto simp: strip_comments_def comment_ranges_def js_slice_def)

definition in_ranges :: "(nat \<times> nat) list \<Rightarrow> nat \<Rightarrow> bool" where
  "in_ranges rs i = list_ex (\<lambda>(s, e). s \<le> i \<and> i < e) rs"

definition blank_char :: "char \<Rightarrow> char" where
  "blank_char c = (if c = newline \<or> c = return_char then c else CHR '' '')"

lemma in_ranges_after: "ranges_in sql a rs \<Longrightarrow> i < a \<Longrightarrow> \<not> in_ranges rs i"
proof (induction rs arbitrary: a)
  case (Cons r rs)
  obtain s e where r: "r = (s, e)" by (cases r)
  then have "s < e" using Cons.prems(1) region_at_bounds by fastforce
  then show ?case using Cons.IH [of e] Cons.prems r by (auto simp: in_ranges_def)
qed (simp add: in_ranges_def)

lemma blank_ranges_nth:
  assumes "ranges_in sql a rs" and "a \<le> length sql"
  shows "blank_ranges sql a rs = map (\<lambda>i. if in_ranges rs i then blank_char (sql ! i) else sql ! i) [a..<length sql]"
  using assms
proof (induction rs arbitrary: a)
  case Nil
  then show ?case by (simp add: in_ranges_def list_eq_iff_nth_eq)
next
  case (Cons r rs)
  let ?n = "length sql" and ?f = "\<lambda>rs i. if in_ranges rs i then blank_char (sql ! i) else sql ! i"
  obtain s e where r: "r = (s, e)" by (cases r)
  then have b: "a \<le> s" "e \<le> ?n" "ranges_in sql e rs" and "s < e"
    using Cons.prems(1) region_at_bounds by fastforce+
  have slice: "js_slice i j sql = map ((!) sql) [i..<j]" if "j \<le> ?n" for i j
    using that by (simp add: js_slice_def list_eq_iff_nth_eq)
  have "[a..<?n] = [a..<s] @ [s..<e] @ [e..<?n]"
    using b \<open>s < e\<close> by (metis le_eq_less_or_eq less_imp_le_nat order_trans upt_add_eq_append le_Suc_ex)
  moreover have "map (?f (r # rs)) [a..<s] = js_slice a s sql"
    using b \<open>s < e\<close> in_ranges_after [OF b(3)] by (simp add: slice in_ranges_def r)
  moreover have "map (?f (r # rs)) [s..<e] = blank (js_slice s e sql)"
    using b by (simp add: slice in_ranges_def r blank_def blank_char_def)
  moreover have "map (?f (r # rs)) [e..<?n] = blank_ranges sql e rs"
    unfolding Cons.IH [OF b(3,2)] by (simp add: in_ranges_def r)
  ultimately show ?case by (simp add: r)
qed

text \<open>What is blanked is nothing but blanks, and they begin no region.\<close>

lemma blank_props [simp]: "length (blank s) = length s" "i < length s \<Longrightarrow> (blank s ! i = newline) = (s ! i = newline)"
  by (auto simp: blank_def)

lemma strip_length: "strip_from t = Some out \<Longrightarrow> length out = length t"
proof (induction t arbitrary: out rule: strip_from.induct)
  case (2 c r)
  show ?case
  proof (cases "region_from (c # r)")
    case None
    then show ?thesis using 2 by auto
  next
    case (Some x)
    then obtain ty k ok where x: "region_from (c # r) = Some (ty, k, ok)" by (cases x) auto
    then obtain out' where "ok" "strip_from (drop k (c # r)) = Some out'"
        "out = (if is_comment ty then blank (take k (c # r)) else take k (c # r)) @ out'"
      using 2(3) by (auto split: if_splits)
    moreover have "0 < k" "k \<le> length (c # r)" using x region_from_bounds by blast+
    ultimately show ?thesis using 2(2) [OF x refl refl] by (auto split: if_splits)
  qed
qed simp

text \<open>Only the text of a comment changes its first character.\<close>

lemma strip_head:
  assumes "strip_from t = Some out" and "t \<noteq> []"
  shows "out \<noteq> [] \<and> (hd out = hd t \<or> hd out \<noteq> CHR ''-'' \<and> hd out \<noteq> CHR ''*'' \<and> hd out \<noteq> quote \<and> hd out \<noteq> dquote)"
proof (cases t)
  case (Cons c r)
  show ?thesis
  proof (cases "region_from (c # r)")
    case None
    then show ?thesis using assms Cons by auto
  next
    case (Some x)
    then obtain ty k ok where x: "region_from (c # r) = Some (ty, k, ok)" by (cases x) auto
    then have k: "0 < k" using region_from_bounds by blast
    then show ?thesis
      using assms Cons x by (cases k) (auto simp: blank_def split: if_splits)
  qed
qed (use assms in simp)

definition is_blank_text :: "string \<Rightarrow> bool" where
  "is_blank_text s = list_all (\<lambda>c. c = CHR '' '' \<or> c = newline \<or> c = return_char) s"

lemma blank_is_blank: "is_blank_text (blank s)"
  by (induction s) (auto simp: is_blank_text_def blank_def)

text \<open>A text without comments, along its regions; it is what stripping leaves.\<close>

function comment_free :: "string \<Rightarrow> bool" where
  "comment_free [] = True"
| "comment_free (c # r) = (case region_from (c # r) of
     None \<Rightarrow> comment_free r
   | Some (ty, k, ok) \<Rightarrow> ok \<and> \<not> is_comment ty \<and> comment_free (drop k (c # r)))"
  by pat_completeness auto
termination
  by (relation "measure length") (auto dest: region_from_bounds)

lemma comment_free_ranges: "comment_free (drop i sql) \<Longrightarrow> ranges_from sql i out = Inr out"
proof (induction sql i out rule: ranges_from.induct)
  case (1 sql i out)
  show ?case
  proof (cases "length sql \<le> i")
    case True
    then show ?thesis by (simp add: ranges_from.simps [of sql i out])
  next
    case False
    then have d: "drop i sql = sql ! i # drop (Suc i) sql" by (simp add: drop_at)
    show ?thesis
    proof (cases "region_from (drop i sql)")
      case None
      then have r: "region_at sql i = None" by (simp add: region_at_def)
      then show ?thesis using 1(1) [OF False r] 1(3) None False d by (simp add: ranges_from.simps [of sql i out])
    next
      case (Some x)
      then obtain ty k ok where x: "region_from (drop i sql) = Some (ty, k, ok)" by (cases x) auto
      then have r: "region_at sql i = Some \<lparr>rg_type = ty, rg_start = i, rg_end = i + k, rg_terminated = ok\<rparr>"
        by (simp add: region_at_def)
      have dk: "drop k (sql ! i # drop (Suc i) sql) = drop (i + k) sql" unfolding d [symmetric] by (simp add: add.commute)
      have free: "ok" "\<not> is_comment ty" "comment_free (drop (i + k) sql)"
        using 1(3) x dk unfolding d by simp_all
      then show ?thesis using 1(2) [OF False r] r False by (simp add: ranges_from.simps [of sql i out])
    qed
  qed
qed

lemma free_blank_prefix: "is_blank_text s \<Longrightarrow> comment_free t \<Longrightarrow> comment_free (s @ t)"
proof (induction s)
  case (Cons c s)
  then have "region_from (c # s @ t) = None" by (auto simp: is_blank_text_def no_region)
  with Cons show ?case by (auto simp: is_blank_text_def)
qed simp

lemma strip_free: "strip_from t = Some out \<Longrightarrow> comment_free out"
proof (induction t arbitrary: out rule: strip_from.induct)
  case (2 c r)
  show ?case
  proof (cases "region_from (c # r)")
    case None
    then obtain out' where o: "strip_from r = Some out'" "out = c # out'" using 2(3) by auto
    have "region_from (c # out') = None"
    proof (cases "r = []")
      case True
      then show ?thesis using o None by (simp add: no_region)
    next
      case False
      then have "out' \<noteq> []" "hd out' = hd r \<or> hd out' \<noteq> CHR ''-'' \<and> hd out' \<noteq> CHR ''*'' \<and> hd out' \<noteq> quote"
        using strip_head [OF o(1)] by blast+
      with None False show ?thesis unfolding no_region by metis
    qed
    then show ?thesis using 2(1) [OF None o(1)] o(2) by simp
  next
    case (Some x)
    then obtain ty k ok where x: "region_from (c # r) = Some (ty, k, ok)" by (cases x) auto
    then have k: "0 < k" "k \<le> length (c # r)" using region_from_bounds by blast+
    obtain out' where o: "ok" "strip_from (drop k (c # r)) = Some out'"
        "out = (if is_comment ty then blank (take k (c # r)) else take k (c # r)) @ out'"
      using 2(3) x by (auto split: if_splits)
    have IH: "comment_free out'" using 2(2) [OF x refl refl _ o(2)] o(1) by simp
    show ?thesis
    proof (cases "is_comment ty")
      case True
      then show ?thesis using o(3) IH free_blank_prefix [OF blank_is_blank] by simp
    next
      case False
      have x': "region_from (c # r) = Some (ty, k, True)" using x o(1) by simp
      have "ends_at ty c out'"
      proof (cases "drop k (c # r) = []")
        case True
        then show ?thesis using o(2) by (auto simp: ends_at_def)
      next
        case F: False
        have "hd out' \<noteq> c" if "ty = StringLiteral \<or> ty = QuotedIdentifier"
        proof -
          have c: "c = quote \<or> c = dquote" using region_quote_char [OF x'] that by blast
          have "hd (drop k (c # r)) \<noteq> c" using region_terminated_ends [OF x'] F that unfolding ends_at_def by blast
          then show ?thesis using strip_head [OF o(2) F] c by metis
        qed
        then show ?thesis using False by (auto simp: ends_at_def is_comment_def)
      qed
      then have "region_from (take k (c # r) @ out') = Some (ty, k, True)" by (rule region_prefix [OF x'])
      moreover obtain d u where "take k (c # r) @ out' = d # u" "drop k (d # u) = out'" "take k (d # u) = take k (c # r)"
        using k by (cases k) auto
      ultimately show ?thesis using o(3) False IH by simp
    qed
  qed
qed simp

lemma move_cong: "list_all2 (\<lambda>c d. (c = newline) = (d = newline)) s t \<Longrightarrow> move s p = move t p"
  by (induction arbitrary: p rule: list_all2_induct) (auto simp: move_def split: prod.split)

subsection \<open>Scripts written statement by statement\<close>

text \<open>A text whose scan meets no semicolon outside its regions and ends none of them too late.\<close>

function closed_body :: "string \<Rightarrow> bool" where
  "closed_body [] = True"
| "closed_body (c # r) = (case region_from (c # r) of
     Some (ty, k, ok) \<Rightarrow> ok \<and> (ty = LineComment \<longrightarrow> k < length (c # r)) \<and> closed_body (drop k (c # r))
   | None \<Rightarrow> c \<noteq> CHR '';'' \<and> closed_body r)"
  by pat_completeness auto
termination
  by (relation "measure length") (auto dest: region_from_bounds)

definition statement_ok :: "string \<Rightarrow> bool" where
  "statement_ok s = (s \<noteq> [] \<and> trim s = s \<and> closed_body s \<and> set_term_len (take 12 (s @ '';'')) = None
     \<and> (case region_from s of Some (ty, k, ok) \<Rightarrow> \<not> is_comment ty | None \<Rightarrow> True))"

definition script_of :: "string list \<Rightarrow> string" where
  "script_of ss = concat (map (\<lambda>s. s @ '';'' @ [newline]) ss)"

fun located :: "string list \<Rightarrow> position \<Rightarrow> parsed_statement list" where
  "located [] p = []"
| "located (s # ss) p = parsed s p # located ss (move (s @ '';'' @ [newline]) p)"

lemma move_append: "move (s @ t) p = move t (move s p)"
  by (simp add: move_def)

lemma region_in_front:
  assumes "region_from (c # r) = Some (ty, k, True)" and "ty = LineComment \<longrightarrow> k < length (c # r)"
  shows "region_from ((c # r) @ CHR '';'' # u) = Some (ty, k, True)"
proof -
  have ends: "ends_at ty c (drop k (c # r) @ CHR '';'' # u)"
    using region_terminated_ends [OF assms(1)] assms(2) region_quote_char [OF assms(1)]
    by (cases "drop k (c # r)") (auto simp: ends_at_def)
  show ?thesis using region_prefix [OF assms(1) ends] by (simp only: append_assoc [symmetric] append_take_drop_id)
qed

lemma no_region_in_front: "region_from (c # r) = None \<Longrightarrow> region_from ((c # r) @ CHR '';'' # u) = None"
  unfolding no_region append_Cons by (cases r) simp_all

lemma region_of_front: "s \<noteq> [] \<Longrightarrow> closed_body s \<Longrightarrow> region_from (s @ CHR '';'' # u) = region_from s"
  using no_region_in_front region_in_front by (cases s) (fastforce split: option.splits)+

text \<open>The scan of a statement's body.\<close>

lemma scan_closed:
  "closed_body s \<Longrightarrow> \<exists>saw. scan_body '';'' (s @ CHR '';'' # u) p = Inr (s, saw, u, move (s @ '';'') p)
    \<and> (s \<noteq> [] \<and> \<not> is_ws (hd s) \<and> (case region_from s of Some (ty, k, ok) \<Rightarrow> \<not> is_comment ty | None \<Rightarrow> True) \<longrightarrow> saw)"
proof (induction s arbitrary: p rule: closed_body.induct)
  case 1
  have "region_from (CHR '';'' # u) = None" by (simp add: no_region)
  then show ?case by (intro exI [of _ False]) (simp add: matches_terminator_def starts_at_def move_append)
next
  case (2 c r)
  show ?case
  proof (cases "region_from (c # r)")
    case None
    have c: "c \<noteq> CHR '';''" "closed_body r" using 2(3) None by auto
    obtain saw where "scan_body '';'' (r @ CHR '';'' # u) (move [c] p) = Inr (r, saw, u, move (r @ '';'') (move [c] p))"
      using 2(1) [OF None c(2), of "move [c] p"] by blast
    then show ?thesis
      using no_region_in_front [OF None] c None
      by (simp add: matches_terminator_def starts_at_def move_append [symmetric])
  next
    case (Some x)
    then obtain ty k ok where x: "region_from (c # r) = Some (ty, k, ok)" by (cases x) auto
    then have k: "0 < k" "k \<le> length (c # r)" using region_from_bounds by blast+
    have ok: "ok" "ty = LineComment \<longrightarrow> k < length (c # r)" "closed_body (drop k (c # r))" using 2(3) x by auto
    have front: "region_from ((c # r) @ CHR '';'' # u) = Some (ty, k, True)" using region_in_front [of c r ty k u] x ok by simp
    obtain saw where "scan_body '';'' (drop k (c # r) @ CHR '';'' # u) (move (take k (c # r)) p)
        = Inr (drop k (c # r), saw, u, move (drop k (c # r) @ '';'') (move (take k (c # r)) p))"
      using 2(2) [OF x refl refl ok(3)] by blast
    moreover have "drop k ((c # r) @ CHR '';'' # u) = drop k (c # r) @ CHR '';'' # u"
      and "take k ((c # r) @ CHR '';'' # u) = take k (c # r)" using k by (cases k; simp)+
    moreover have "take k (c # r) @ drop k (c # r) @ '';'' = (c # r) @ '';''" by (simp add: append_assoc [symmetric] del: append_assoc)
    ultimately have "scan_body '';'' (c # (r @ CHR '';'' # u)) p = Inr (c # r, saw \<or> \<not> is_comment ty, u, move ((c # r) @ '';'') p)"
      using front unfolding append_Cons by (simp add: move_append [symmetric] del: drop_append take_append)
    then show ?thesis using x unfolding append_Cons by (intro exI [of _ "saw \<or> \<not> is_comment ty"]) simp
  qed
qed

lemma take_while_stop: "\<not> P c \<Longrightarrow> takeWhile P (s @ c # u) = takeWhile P (s @ [c])"
  by (induction s) auto

text \<open>What follows the terminator does not decide whether a statement is a \<open>SET TERM\<close>.\<close>

lemma word_front:
  assumes "CHR '';'' \<notin> set w" and "k \<le> length s" and "0 < length w"
  shows "to_lower (take (length w) (drop k (s @ CHR '';'' # u))) = w
    \<longleftrightarrow> k + length w \<le> length s \<and> to_lower (take (length w) (drop k s)) = w"
proof (cases "k + length w \<le> length s")
  case False
  let ?i = "length s - k" and ?x = "to_lower (take (length w) (drop k (s @ CHR '';'' # u)))"
  have "?i < length ?x" using False assms(2) by (simp add: min_def) arith
  moreover have "?x ! ?i = CHR '';''" using False assms(2) by (simp add: nth_append lower_char_def is_upper_def)
  ultimately have "CHR '';'' \<in> set ?x" by (metis nth_mem)
  then have "?x \<noteq> w" using assms(1) by metis
  then show ?thesis using False by simp
qed simp

lemma set_term_word_front: "set_term_len (s @ CHR '';'' # u) = set_term_len (s @ '';'')"
proof (cases "3 \<le> length s")
  case True
  let ?s = "\<lambda>v. s @ CHR '';'' # v"
  define ws where "ws = takeWhile is_ws (drop 3 (?s []))"
  have semi: "\<not> is_ws (CHR '';'')" by (simp add: is_ws_def)
  have four: "length ''term'' = 4" by simp
  have w: "takeWhile is_ws (drop 3 (?s v)) = ws" for v
    using True take_while_stop [of is_ws "CHR '';''" "drop 3 s" v, OF semi] by (simp add: ws_def)
  have "length ws \<le> length (drop 3 s)"
    using True semi length_takeWhile_le [of is_ws "drop 3 s"] by (auto simp: ws_def takeWhile_tail)
  then have le: "3 + length ws \<le> length s" using True by simp
  have tm: "to_lower (take 4 (drop (3 + length ws) (?s v))) = ''term''
      \<longleftrightarrow> 3 + length ws + 4 \<le> length s \<and> to_lower (take 4 (drop (3 + length ws) s)) = ''term''" for v
    using le by (intro word_front [of "''term''" "3 + length ws" s v, unfolded four]) simp_all
  have set3: "take 3 (?s v) = take 3 s" for v using True by simp
  have len: "set_term_len (?s v) = (if to_lower (take 3 s) = ''set'' \<and> ws \<noteq> []
      \<and> (3 + length ws + 4 \<le> length s \<and> to_lower (take 4 (drop (3 + length ws) s)) = ''term'')
      \<and> (case at (?s v) (3 + length ws + 4) of None \<Rightarrow> True | Some c \<Rightarrow> \<not> is_word_char c) then Some (3 + length ws + 4) else None)" for v
    unfolding set_term_len_def Let_def w tm set3 by (rule refl)
  have "at (?s u) (3 + length ws + 4) = at (?s []) (3 + length ws + 4)" if "3 + length ws + 4 \<le> length s"
    using that by (auto simp: at_def nth_append)
  then show ?thesis
    unfolding len [of u] len [of "[]"] by (cases "3 + length ws + 4 \<le> length s") (simp_all only: simp_thms if_False)
next
  case False
  have three: "length ''set'' = 3" by simp
  have "to_lower (take 3 (s @ CHR '';'' # v)) = ''set'' \<longleftrightarrow> False" for v
    using word_front [of "''set''" 0 s v, unfolded three] False by (simp del: take_append)
  then show ?thesis by (simp only: set_term_len_def Let_def simp_thms if_False)
qed

lemma set_term_front:
  assumes "set_term_len (take 12 (s @ '';'')) = None"
  shows "set_term_len (take 12 (s @ CHR '';'' # u)) = None"
proof (cases "length s < 12")
  case True
  then have "take 12 (s @ CHR '';'' # u) = s @ CHR '';'' # take (11 - length s) u" "take 12 (s @ '';'') = s @ '';''"
    by (simp_all add: take_Cons')
  then show ?thesis using assms set_term_word_front [of s "take (11 - length s) u"] by metis
next
  case False
  then show ?thesis using assms by simp
qed

lemma skip_trivia_here:
  "t \<noteq> [] \<Longrightarrow> \<not> is_ws (hd t) \<Longrightarrow> (case region_from t of Some (ty, k, ok) \<Rightarrow> \<not> is_comment ty | None \<Rightarrow> True) \<Longrightarrow> skip_trivia t p = Inr (t, p)"
  by (cases t) (auto split: option.splits)

lemma trim_head: "trim s = s \<Longrightarrow> s \<noteq> [] \<Longrightarrow> \<not> is_ws (hd s)"
proof
  assume "trim s = s" "s \<noteq> []" "is_ws (hd s)"
  then have "length (dropWhile is_ws s) < length s"
    using length_dropWhile_le [of is_ws "tl s"] by (cases s) auto
  moreover have "length (trim s) \<le> length (dropWhile is_ws s)"
    using length_dropWhile_le [of is_ws "rev (dropWhile is_ws s)"] by (simp add: trim_def)
  ultimately have "length (trim s) < length s" by simp
  then show False using \<open>trim s = s\<close> by simp
qed

lemma parse_newline: "parse_from tm (newline # t) p = parse_from tm t (move [newline] p)"
  by (subst (1 2) parse_from.simps) (simp add: is_ws_def)

lemma parse_located: "list_all statement_ok ss \<Longrightarrow> parse_from '';'' (script_of ss) p = Inr (located ss p)"
proof (induction ss arbitrary: p)
  case Nil
  then show ?case by (simp add: script_of_def parse_from.simps)
next
  case (Cons s ss)
  let ?u = "newline # script_of ss" and ?t = "s @ CHR '';'' # newline # script_of ss"
  have s: "s \<noteq> []" "trim s = s" "closed_body s" "set_term_len (take 12 (s @ '';'')) = None"
      "case region_from s of Some (ty, k, ok) \<Rightarrow> \<not> is_comment ty | None \<Rightarrow> True"
    using Cons.prems by (simp_all add: statement_ok_def)
  note hd = trim_head [OF s(2,1)]
  have "skip_trivia ?t p = Inr (?t, p)"
    using s hd region_of_front [OF s(1,3), of ?u] by (intro skip_trivia_here) (simp_all split: option.splits)
  moreover have "set_term_len (take 12 ?t) = None" by (rule set_term_front [OF s(4)])
  moreover have "scan_body '';'' ?t p = Inr (s, True, ?u, move (s @ '';'') p)"
    using scan_closed [OF s(3), of ?u p] s hd by auto
  moreover have "parse_from '';'' ?u (move (s @ '';'') p) = Inr (located ss (move (s @ '';'' @ [newline]) p))"
    using Cons move_append [of "s @ '';''" "[newline]" p] by (simp add: parse_newline)
  moreover have "script_of (s # ss) = ?t" by (simp add: script_of_def)
  ultimately show ?case
    using s by (simp add: parse_from.simps [of _ ?t] emitted_def del: take_append)
qed

subsection \<open>Properties\<close>



text \<open>
  C21. A script in which every statement is written with its semicolon on a line of its own
  parses into these statements, in order, each classified and at the line and column where it
  starts. A statement may contain semicolons inside literals, quoted identifiers and comments.
\<close>

theorem parse_script_locates:
  assumes "list_all statement_ok ss"
  shows "parse_script (script_of ss) None = Inr (located ss (1, 1))"
  using parse_located [OF assms] by (simp add: parse_script_def)

theorem parse_script_locates_witness:
  "parse_script (script_of [[CHR ''s'', CHR ''='', quote, CHR '';'', quote], ''commit'']) None
   = Inr [\<lparr>pa_sql = [CHR ''s'', CHR ''='', quote, CHR '';'', quote], pa_line = 1, pa_column = 1, pa_kind = KindOther, pa_client = None\<rparr>,
          \<lparr>pa_sql = ''commit'', pa_line = 2, pa_column = 1, pa_kind = KindClient, pa_client = Some (CmdCommit False)\<rparr>]"
proof -
  have "list_all statement_ok [[CHR ''s'', CHR ''='', quote, CHR '';'', quote], ''commit'']" by code_simp
  note parts = parse_script_locates [OF this]
  have "located [[CHR ''s'', CHR ''='', quote, CHR '';'', quote], ''commit''] (1, 1)
    = [\<lparr>pa_sql = [CHR ''s'', CHR ''='', quote, CHR '';'', quote], pa_line = 1, pa_column = 1, pa_kind = KindOther, pa_client = None\<rparr>,
       \<lparr>pa_sql = ''commit'', pa_line = 2, pa_column = 1, pa_kind = KindClient, pa_client = Some (CmdCommit False)\<rparr>]" by code_simp
  then show ?thesis unfolding parts by simp
qed

end
