(* ===== verification/Script_Executor.thy ===== *)
theory Script_Executor
  imports Attachment Script_Parser
begin

text \<open>
  \<open>script/execute.ts\<close>: running a parsed script on an attachment. The state of a run holds
  the attachment, what \<open>executeScript\<close> has recorded, and the variables of the mode that
  wraps the script in one transaction. Connecting again is a parameter: what \<open>establish\<close>
  comes to when the attachment has the given generation.
\<close>

subsection \<open>Results, options, state\<close>

record statement_result =
  sr_statement :: parsed_statement
  sr_index :: nat
  sr_rows_affected :: int
  sr_row_count :: nat
  sr_error :: "err option"
  sr_gds :: "int option"
  sr_sqlstate :: "string option"

datatype script_mode = PerScript | PerStatement | NoTransaction | CallerTransaction nat

datatype command_policy = ProcessCommands | RejectCommands

record script_options =
  xo_terminator :: "string option"
  xo_transaction :: "script_mode option"
  xo_transaction_options :: "transaction_options option"
  xo_continue_on_error :: bool
  xo_on_progress :: "(statement_result \<Rightarrow> nat \<Rightarrow> unit res) option"
  xo_client_commands :: "command_policy option"

record script_state =
  ss_att :: attachment
  ss_results :: "statement_result list"
  ss_succeeded :: nat
  ss_failed :: nat
  ss_tx :: nat
  ss_tx_options :: "transaction_options option"
  ss_dirty :: bool
  ss_auto_ddl :: bool

record script_environment =
  se_environment :: environment
  se_options :: resolved_options
  se_establish :: "nat \<Rightarrow> (int \<times> wire \<times> int) res"
  se_script :: script_options
  se_total :: nat

text \<open>Steps of the attachment, and steps that depend on the state.\<close>

definition on_att :: "(attachment, 'a) act \<Rightarrow> (script_state, 'a) act" where
  "on_att m = (\<lambda>s. case m (ss_att s) of (r, a) \<Rightarrow> (r, s\<lparr>ss_att := a\<rparr>))"

definition sn_read :: "('s \<Rightarrow> 'b) \<Rightarrow> ('b \<Rightarrow> ('s, 'a) act) \<Rightarrow> ('s, 'a) act" where
  "sn_read g f = (\<lambda>s. f (g s) s)"

subsection \<open>Recording a statement\<close>

fun describe_command :: "client_command \<Rightarrow> string" where
  "describe_command CmdReconnect = ''RECONNECT''"
| "describe_command (CmdCommit retain) = (if retain then ''COMMIT RETAIN'' else ''COMMIT'')"
| "describe_command (CmdRollback retain) = (if retain then ''ROLLBACK RETAIN'' else ''ROLLBACK'')"
| "describe_command (CmdSetTransaction v raw) = ''SET TRANSACTION''"
| "describe_command (CmdSetAutoDdl enable) = ''SET AUTODDL '' @ (if enable then ''ON'' else ''OFF'')"
| "describe_command (CmdUnsupported reason) = ''client command''"

definition progress :: "script_environment \<Rightarrow> statement_result \<Rightarrow> (script_state, unit) act" where
  "progress se r = sn_lift (case xo_on_progress (se_script se) of None \<Rightarrow> Inr () | Some f \<Rightarrow> f r (se_total se))"

definition emit_ok :: "script_environment \<Rightarrow> parsed_statement \<Rightarrow> nat \<Rightarrow> int \<Rightarrow> nat \<Rightarrow> (script_state, unit) act" where
  "emit_ok se st i affected rows =
     (let r = \<lparr>sr_statement = st, sr_index = i, sr_rows_affected = affected, sr_row_count = rows,
               sr_error = None, sr_gds = None, sr_sqlstate = None\<rparr> in
      sn_bind (sn_do (\<lambda>s. s\<lparr>ss_results := ss_results s @ [r], ss_succeeded := Suc (ss_succeeded s)\<rparr>)) (\<lambda>_. progress se r))"

definition failure_result :: "parsed_statement \<Rightarrow> nat \<Rightarrow> err \<Rightarrow> statement_result" where
  "failure_result st i e = \<lparr>sr_statement = st, sr_index = i, sr_rows_affected = 0, sr_row_count = 0, sr_error = Some e,
     sr_gds = (case e of FbError cls msg gds sqlstate args \<Rightarrow> gds | _ \<Rightarrow> None),
     sr_sqlstate = (case e of FbError cls msg gds sqlstate args \<Rightarrow> sqlstate | _ \<Rightarrow> None)\<rparr>"

definition emit_error :: "script_environment \<Rightarrow> parsed_statement \<Rightarrow> nat \<Rightarrow> err \<Rightarrow> (script_state, unit) act" where
  "emit_error se st i e =
     (let r = failure_result st i e in
      sn_bind (sn_do (\<lambda>s. s\<lparr>ss_results := ss_results s @ [r], ss_failed := Suc (ss_failed s)\<rparr>)) (\<lambda>_.
      sn_bind (progress se r) (\<lambda>_.
        if xo_continue_on_error (se_script se) then sn_return () else sn_lift (Inl e))))"

text \<open>One statement for the server, in a transaction or by itself.\<close>

definition run_one :: "script_environment \<Rightarrow> parsed_statement \<Rightarrow> nat \<Rightarrow> nat option \<Rightarrow> (script_state, bool) act" where
  "run_one se st i tx =
     sn_catch
       (sn_bind (on_att (case tx of
            Some t \<Rightarrow> tx_run (se_environment se) (se_options se) t plain_query (pa_sql st) (Positional [])
          | None \<Rightarrow> att_run (se_environment se) (se_options se) plain_query (pa_sql st) (Positional []))) (\<lambda>q.
        sn_bind (emit_ok se st i (qr_rows_affected q) (length (qr_rows q))) (\<lambda>_. sn_return True)))
       (\<lambda>e. sn_bind (emit_error se st i e) (\<lambda>_. sn_return False))"

subsection \<open>Client commands\<close>

definition reject_client :: "script_environment \<Rightarrow> parsed_statement \<Rightarrow> nat \<Rightarrow> string \<Rightarrow> (script_state, unit) act" where
  "reject_client se st i why = emit_error se st i (JsError (''executeScript: '' @ why))"

definition reject_common :: "script_environment \<Rightarrow> parsed_statement \<Rightarrow> nat \<Rightarrow> client_command \<Rightarrow> (script_state, bool) act" where
  "reject_common se st i c = (case c of
     CmdUnsupported reason \<Rightarrow> sn_bind (reject_client se st i reason) (\<lambda>_. sn_return True)
   | _ \<Rightarrow> if xo_client_commands (se_script se) = Some RejectCommands
       then sn_bind (reject_client se st i (''client command '' @ describe_command c @ '' encountered with clientCommands: ''
              @ [quote] @ ''error'' @ [quote])) (\<lambda>_. sn_return True)
       else sn_return False)"

definition reconnect :: "script_environment \<Rightarrow> (script_state, unit) act" where
  "reconnect se = sn_read (\<lambda>s. at_generation (ss_att s)) (\<lambda>g. on_att (att_reconnect (se_options se) (se_establish se g)))"

text \<open>\<open>try { m; emitOk } catch (err) { emitError }\<close>.\<close>

definition processed :: "script_environment \<Rightarrow> parsed_statement \<Rightarrow> nat \<Rightarrow> (script_state, unit) act \<Rightarrow> (script_state, unit) act" where
  "processed se st i m = sn_catch (sn_bind m (\<lambda>_. emit_ok se st i 0 0)) (emit_error se st i)"

subsection \<open>On the caller's transaction\<close>

definition caller_step :: "script_environment \<Rightarrow> nat \<Rightarrow> nat \<Rightarrow> parsed_statement \<Rightarrow> (script_state, unit) act" where
  "caller_step se t i st = (case pa_client st of
     Some c \<Rightarrow> sn_bind (reject_common se st i c) (\<lambda>consumed.
        if consumed then sn_return ()
        else reject_client se st i (if c = CmdReconnect
          then ''RECONNECT is not allowed with a caller-supplied Transaction '' @ em_dash @ '' the caller owns the connection''
          else describe_command c @ '' is not allowed with a caller-supplied Transaction '' @ em_dash
               @ '' the executor never finishes or replaces the caller'' @ [quote] @ ''s transaction''))
   | None \<Rightarrow> sn_bind (run_one se st i (Some t)) (\<lambda>_. sn_return ()))"

subsection \<open>One transaction around the script\<close>

definition open_script_tx :: "script_environment \<Rightarrow> (script_state, unit) act" where
  "open_script_tx se = sn_read ss_tx_options (\<lambda>v.
     sn_bind (on_att (att_start_transaction (se_options se) v)) (\<lambda>t.
       sn_do (\<lambda>s. s\<lparr>ss_tx := t, ss_dirty := False\<rparr>)))"

definition with_tx :: "(nat \<Rightarrow> (attachment, unit) act) \<Rightarrow> (script_state, unit) act" where
  "with_tx m = sn_read ss_tx (\<lambda>t. on_att (m t))"

definition set_dirty :: "bool \<Rightarrow> (script_state, unit) act" where
  "set_dirty d = sn_do (\<lambda>s. s\<lparr>ss_dirty := d\<rparr>)"

definition unless_finished :: "(nat \<Rightarrow> (attachment, unit) act) \<Rightarrow> (script_state, unit) act" where
  "unless_finished m = sn_read (\<lambda>s. tn_finished (tx_of (ss_att s) (ss_tx s))) (\<lambda>done. if done then sn_return () else with_tx m)"

fun script_command :: "script_environment \<Rightarrow> client_command \<Rightarrow> (script_state, unit) act" where
  "script_command se (CmdCommit retain) =
     sn_bind (if retain then with_tx tx_commit_retaining else sn_bind (with_tx tx_commit) (\<lambda>_. open_script_tx se)) (\<lambda>_. set_dirty False)"
| "script_command se (CmdRollback retain) =
     sn_bind (if retain then with_tx tx_rollback_retaining else sn_bind (with_tx tx_rollback) (\<lambda>_. open_script_tx se)) (\<lambda>_. set_dirty False)"
| "script_command se (CmdSetTransaction v raw) = sn_read ss_dirty (\<lambda>dirty.
     if dirty then sn_lift (Inl (JsError (''executeScript: SET TRANSACTION while the current transaction has executed statements ''
        @ em_dash @ '' COMMIT or ROLLBACK first'')))
     else sn_bind (sn_do (\<lambda>s. s\<lparr>ss_tx_options := Some v\<rparr>)) (\<lambda>_. sn_bind (with_tx tx_commit) (\<lambda>_. open_script_tx se)))"
| "script_command se CmdReconnect =
     sn_bind (unless_finished tx_commit) (\<lambda>_. sn_bind (reconnect se) (\<lambda>_. open_script_tx se))"
| "script_command se (CmdSetAutoDdl enable) = sn_do (\<lambda>s. s\<lparr>ss_auto_ddl := enable\<rparr>)"
| "script_command se (CmdUnsupported reason) = sn_return ()"

definition script_step :: "script_environment \<Rightarrow> nat \<Rightarrow> parsed_statement \<Rightarrow> (script_state, unit) act" where
  "script_step se i st = (case pa_client st of
     Some c \<Rightarrow> sn_bind (reject_common se st i c) (\<lambda>consumed.
        if consumed then sn_return () else processed se st i (script_command se c))
   | None \<Rightarrow> sn_bind (sn_read ss_tx (\<lambda>t. run_one se st i (Some t))) (\<lambda>ok.
        sn_bind (set_dirty True) (\<lambda>_.
        sn_read ss_auto_ddl (\<lambda>auto_ddl.
          if ok \<and> auto_ddl \<and> pa_kind st = KindDdl then sn_bind (with_tx tx_commit) (\<lambda>_. open_script_tx se) else sn_return ()))))"

subsection \<open>A transaction for each statement\<close>

definition own_step :: "script_environment \<Rightarrow> nat \<Rightarrow> parsed_statement \<Rightarrow> (script_state, unit) act" where
  "own_step se i st = (case pa_client st of
     Some c \<Rightarrow> sn_bind (reject_common se st i c) (\<lambda>consumed.
        if consumed then sn_return ()
        else processed se st i (case c of
            CmdReconnect \<Rightarrow> reconnect se
          | CmdSetTransaction v raw \<Rightarrow> sn_do (\<lambda>s. s\<lparr>ss_tx_options := Some v\<rparr>)
          | _ \<Rightarrow> sn_return ()))
   | None \<Rightarrow> sn_bind (open_script_tx se) (\<lambda>_.
        sn_bind (sn_catch (sn_read ss_tx (\<lambda>t. run_one se st i (Some t)))
           (\<lambda>e. sn_bind (unless_finished (\<lambda>t. sn_swallow (tx_rollback t))) (\<lambda>_. sn_lift (Inl e)))) (\<lambda>_.
          unless_finished tx_commit)))"

subsection \<open>No transaction\<close>

definition none_step :: "script_environment \<Rightarrow> nat \<Rightarrow> parsed_statement \<Rightarrow> (script_state, unit) act" where
  "none_step se i st = (case pa_client st of
     Some c \<Rightarrow> sn_bind (reject_common se st i c) (\<lambda>consumed.
        if consumed then sn_return ()
        else (case c of
            CmdSetTransaction v raw \<Rightarrow> reject_client se st i (''SET TRANSACTION is not configurable with transaction: '' @ [quote] @ ''none'' @ [quote]
              @ '' '' @ em_dash @ '' set the connection'' @ [quote] @ ''s defaultTransaction instead'')
          | CmdReconnect \<Rightarrow> processed se st i (reconnect se)
          | _ \<Rightarrow> processed se st i (sn_return ())))
   | None \<Rightarrow> sn_bind (run_one se st i None) (\<lambda>_. sn_return ()))"

subsection \<open>The whole script\<close>

fun each_statement :: "(nat \<Rightarrow> parsed_statement \<Rightarrow> (script_state, unit) act) \<Rightarrow> nat \<Rightarrow> parsed_statement list \<Rightarrow> (script_state, unit) act" where
  "each_statement step i [] = sn_return ()"
| "each_statement step i (st # sts) = sn_bind (step i st) (\<lambda>_. each_statement step (Suc i) sts)"

definition script_mode_of :: "script_options \<Rightarrow> script_mode" where
  "script_mode_of xo = or_default PerScript (xo_transaction xo)"

definition run_statements :: "script_environment \<Rightarrow> parsed_statement list \<Rightarrow> (script_state, unit) act" where
  "run_statements se sts = (case script_mode_of (se_script se) of
     CallerTransaction t \<Rightarrow> each_statement (caller_step se t) 0 sts
   | PerScript \<Rightarrow> sn_bind (open_script_tx se) (\<lambda>_.
        sn_catch (sn_bind (each_statement (script_step se) 0 sts) (\<lambda>_. unless_finished tx_commit))
          (\<lambda>e. sn_bind (unless_finished (\<lambda>t. sn_swallow (tx_rollback t))) (\<lambda>_. sn_lift (Inl e))))
   | PerStatement \<Rightarrow> each_statement (own_step se) 0 sts
   | NoTransaction \<Rightarrow> each_statement (none_step se) 0 sts)"

record script_result =
  xr_statements :: "statement_result list"
  xr_succeeded :: nat
  xr_failed :: nat

definition script_start :: "script_options \<Rightarrow> attachment \<Rightarrow> script_state" where
  "script_start xo a = \<lparr>ss_att = a, ss_results = [], ss_succeeded = 0, ss_failed = 0, ss_tx = 0,
     ss_tx_options = xo_transaction_options xo, ss_dirty = False, ss_auto_ddl = False\<rparr>"

definition script_outcome :: "unit res \<times> script_state \<Rightarrow> script_result res \<times> attachment" where
  "script_outcome x = (case x of (r, s) \<Rightarrow> (rthen r (\<lambda>_. Inr \<lparr>xr_statements = ss_results s,
     xr_succeeded = ss_succeeded s, xr_failed = ss_failed s\<rparr>), ss_att s))"

definition options_error :: "script_options \<Rightarrow> err option" where
  "options_error xo = (if xo_transaction_options xo = None then None else (case script_mode_of xo of
     NoTransaction \<Rightarrow> Some (JsError (''executeScript: transactionOptions is invalid with transaction: '' @ [quote] @ ''none'' @ [quote]
       @ '' '' @ em_dash @ '' the implicit per-statement transactions follow the connection'' @ [quote] @ ''s defaultTransaction''))
   | CallerTransaction t \<Rightarrow> Some (JsError (''executeScript: transactionOptions is invalid with a caller-supplied Transaction ''
       @ em_dash @ '' its options are already fixed''))
   | _ \<Rightarrow> None))"

definition execute_script ::
  "environment \<Rightarrow> resolved_options \<Rightarrow> (nat \<Rightarrow> (int \<times> wire \<times> int) res) \<Rightarrow> script_options \<Rightarrow> string \<Rightarrow> (attachment, script_result) act" where
  "execute_script en opts establish xo script = (\<lambda>a.
     case options_error xo of Some e \<Rightarrow> (Inl e, a)
   | None \<Rightarrow> (case parse_script script (xo_terminator xo) of Inl e \<Rightarrow> (Inl e, a)
     | Inr sts \<Rightarrow> script_outcome (run_statements \<lparr>se_environment = en, se_options = opts, se_establish = establish,
          se_script = xo, se_total = length sts\<rparr> sts (script_start xo a))))"

end
