(* ===== verification/Executor_Runs.thy ===== *)
theory Executor_Runs
  imports Script_Executor Session_Runs
begin

text \<open>
  What running a script amounts to: the text of a client command never reaches the wire, and
  the outcome lists every statement once, in order.
\<close>

subsection \<open>Two runs that differ in what they record of the statements\<close>

definition untold :: "statement_result \<Rightarrow> statement_result" where
  "untold r = r\<lparr>sr_statement := \<lparr>pa_sql = [], pa_line = 0, pa_column = 0, pa_kind = KindOther, pa_client = None\<rparr>\<rparr>"

definition told_apart :: "script_state \<Rightarrow> script_state" where
  "told_apart s = s\<lparr>ss_results := map untold (ss_results s)\<rparr>"

definition alike :: "(script_state, 'a) act \<Rightarrow> (script_state, 'a) act \<Rightarrow> bool" where
  "alike m m' = (\<forall>s s'. told_apart s = told_apart s' \<longrightarrow>
     fst (m s) = fst (m' s') \<and> told_apart (snd (m s)) = told_apart (snd (m' s')))"

lemma told_apart_iff: "told_apart s = told_apart s' \<longleftrightarrow> ss_att s = ss_att s' \<and> map untold (ss_results s) = map untold (ss_results s')
    \<and> ss_succeeded s = ss_succeeded s' \<and> ss_failed s = ss_failed s' \<and> ss_tx s = ss_tx s'
    \<and> ss_tx_options s = ss_tx_options s' \<and> ss_dirty s = ss_dirty s' \<and> ss_auto_ddl s = ss_auto_ddl s'"
  by (cases s; cases s') (auto simp: told_apart_def)

lemma alikeI:
  assumes "\<And>s s'. told_apart s = told_apart s' \<Longrightarrow> fst (m s) = fst (m' s')"
    and "\<And>s s'. told_apart s = told_apart s' \<Longrightarrow> told_apart (snd (m s)) = told_apart (snd (m' s'))"
  shows "alike m m'"
  using assms by (simp add: alike_def)

lemma alike_lift [intro]: "alike (sn_lift r) (sn_lift r)" "alike (sn_return x) (sn_return x)"
  by (simp_all add: alike_def)

lemma alike_bind:
  assumes "alike m m'" and "\<And>x. alike (f x) (f' x)"
  shows "alike (sn_bind m f) (sn_bind m' f')"
proof -
  have *: "fst (sn_bind m f s) = fst (sn_bind m' f' s') \<and> told_apart (snd (sn_bind m f s)) = told_apart (snd (sn_bind m' f' s'))"
    if eq: "told_apart s = told_apart s'" for s s'
  proof -
    obtain r t where m: "m s = (r, t)" by (cases "m s")
    obtain r' t' where m': "m' s' = (r', t')" by (cases "m' s'")
    have rel: "r' = r" "told_apart t = told_apart t'" using assms(1) eq m m' by (fastforce simp: alike_def)+
    show ?thesis using m m' rel assms(2) by (cases r) (auto simp: sn_bind_def alike_def)
  qed
  then show ?thesis by (simp add: alike_def)
qed

lemma alike_catch:
  assumes "alike m m'" and "\<And>e. alike (h e) (h' e)"
  shows "alike (sn_catch m h) (sn_catch m' h')"
proof -
  have *: "fst (sn_catch m h s) = fst (sn_catch m' h' s') \<and> told_apart (snd (sn_catch m h s)) = told_apart (snd (sn_catch m' h' s'))"
    if eq: "told_apart s = told_apart s'" for s s'
  proof -
    obtain r t where m: "m s = (r, t)" by (cases "m s")
    obtain r' t' where m': "m' s' = (r', t')" by (cases "m' s'")
    have rel: "r' = r" "told_apart t = told_apart t'" using assms(1) eq m m' by (fastforce simp: alike_def)+
    show ?thesis using m m' rel assms(2) by (cases r) (auto simp: sn_catch_def alike_def)
  qed
  then show ?thesis by (simp add: alike_def)
qed

lemma alike_on_att: "alike (on_att m) (on_att m)"
  by (auto simp: alike_def on_att_def told_apart_iff split: prod.split)

lemma alike_read:
  assumes "\<And>s s'. told_apart s = told_apart s' \<Longrightarrow> g s = g s'" and "\<And>x. alike (f x) (f' x)"
  shows "alike (sn_read g f) (sn_read g f')"
  unfolding alike_def sn_read_def
proof (intro allI impI)
  fix s s' assume eq: "told_apart s = told_apart s'"
  then have "g s = g s'" by (rule assms(1))
  then show "fst (f (g s) s) = fst (f' (g s') s') \<and> told_apart (snd (f (g s) s)) = told_apart (snd (f' (g s') s'))"
    using assms(2) [of "g s"] eq by (simp add: alike_def)
qed

lemma alike_do: "(\<And>s s'. told_apart s = told_apart s' \<Longrightarrow> told_apart (f s) = told_apart (f' s')) \<Longrightarrow> alike (sn_do f) (sn_do f')"
  by (simp add: alike_def)

lemma alike_if: "(b \<Longrightarrow> alike m m') \<Longrightarrow> (\<not> b \<Longrightarrow> alike n n') \<Longrightarrow> alike (if b then m else n) (if b then m' else n')"
  by simp

lemmas alike_rules = alike_bind alike_catch alike_read alike_on_att alike_do alike_if alike_lift

text \<open>A callback that does not throw cannot tell the runs apart.\<close>

definition no_throw :: "script_environment \<Rightarrow> bool" where
  "no_throw se = (case xo_on_progress (se_script se) of None \<Rightarrow> True | Some f \<Rightarrow> f = (\<lambda>r n. Inr ()))"

lemma no_throw_progress: "no_throw se \<Longrightarrow> progress se r = sn_return ()"
  by (auto simp: no_throw_def progress_def fun_eq_iff split: option.splits)

lemma alike_emit_ok: "no_throw se \<Longrightarrow> alike (emit_ok se st i n k) (emit_ok se st' i n k)"
  unfolding emit_ok_def Let_def by (simp only: no_throw_progress, intro alike_rules) (auto simp: told_apart_iff untold_def)

lemma alike_emit_error: "no_throw se \<Longrightarrow> alike (emit_error se st i e) (emit_error se st' i e)"
  unfolding emit_error_def Let_def
  by (simp only: no_throw_progress, intro alike_rules) (auto simp: told_apart_iff untold_def failure_result_def)

text \<open>Two statements that differ at most in the text of a client command.\<close>

definition same_work :: "parsed_statement \<Rightarrow> parsed_statement \<Rightarrow> bool" where
  "same_work st st' = (pa_client st = pa_client st' \<and> pa_kind st = pa_kind st'
     \<and> (pa_client st = None \<longrightarrow> pa_sql st = pa_sql st'))"

lemma alike_run_one:
  assumes "no_throw se" and "pa_sql st = pa_sql st'"
  shows "alike (run_one se st i tx) (run_one se st' i tx)"
  unfolding run_one_def assms(2) by (intro alike_rules alike_emit_ok alike_emit_error assms(1))

lemma alike_reject: "no_throw se \<Longrightarrow> alike (reject_client se st i why) (reject_client se st' i why)"
  unfolding reject_client_def by (rule alike_emit_error)

lemma alike_reject_common: "no_throw se \<Longrightarrow> alike (reject_common se st i c) (reject_common se st' i c)"
  unfolding reject_common_def by (cases c; simp; intro alike_rules alike_reject impI conjI; simp?)

lemma alike_open: "alike (open_script_tx se) (open_script_tx se)"
  unfolding open_script_tx_def by (intro alike_rules) (simp_all add: told_apart_iff)

lemma alike_with_tx: "alike (with_tx m) (with_tx m)"
  unfolding with_tx_def by (intro alike_rules) (simp add: told_apart_iff)

lemma alike_set_dirty: "alike (set_dirty d) (set_dirty d)"
  unfolding set_dirty_def by (intro alike_rules) (simp add: told_apart_iff)

lemma alike_unless_finished: "alike (unless_finished m) (unless_finished m)"
  unfolding unless_finished_def by (intro alike_rules alike_with_tx) (simp add: told_apart_iff)

lemma alike_reconnect: "alike (reconnect se) (reconnect se)"
  unfolding reconnect_def by (intro alike_rules) (simp add: told_apart_iff)

lemmas alike_parts = alike_open alike_with_tx alike_set_dirty alike_unless_finished alike_reconnect

lemma alike_command: "alike (script_command se c) (script_command se c)"
  by (cases c; simp; intro conjI impI alike_rules alike_parts; simp add: told_apart_iff)

lemma alike_processed: "no_throw se \<Longrightarrow> alike m m' \<Longrightarrow> alike (processed se st i m) (processed se st' i m')"
  unfolding processed_def by (intro alike_rules alike_emit_ok alike_emit_error) auto

lemma alike_caller_step:
  assumes "no_throw se" and "same_work st st'"
  shows "alike (caller_step se t i st) (caller_step se t i st')"
  using assms unfolding caller_step_def same_work_def
  by (cases "pa_client st'") (auto intro!: alike_rules alike_reject_common alike_run_one alike_reject)

lemma alike_script_step:
  assumes "no_throw se" and "same_work st st'"
  shows "alike (script_step se i st) (script_step se i st')"
proof (cases "pa_client st'")
  case None
  then have sql: "pa_sql st = pa_sql st'" "pa_client st = None" "pa_kind st = pa_kind st'" using assms(2) by (simp_all add: same_work_def)
  show ?thesis
    unfolding script_step_def None sql option.case
    by (intro alike_rules alike_parts alike_run_one assms(1) sql(1)) (simp_all add: told_apart_iff)
next
  case (Some c)
  then have "pa_client st = Some c" using assms(2) by (simp add: same_work_def)
  then show ?thesis
    using Some unfolding script_step_def
    by (auto intro!: alike_rules alike_reject_common alike_processed alike_command assms(1))
qed

lemma alike_own_step:
  assumes "no_throw se" and "same_work st st'"
  shows "alike (own_step se i st) (own_step se i st')"
proof (cases "pa_client st'")
  case None
  then have sql: "pa_sql st = pa_sql st'" "pa_client st = None" using assms(2) by (simp_all add: same_work_def)
  show ?thesis
    unfolding own_step_def None sql option.case
    by (intro alike_rules alike_parts alike_run_one assms(1) sql(1)) (simp_all add: told_apart_iff)
next
  case (Some c)
  then have same: "pa_client st = Some c" using assms(2) by (simp add: same_work_def)
  have "alike (case c of CmdReconnect \<Rightarrow> reconnect se | CmdSetTransaction v raw \<Rightarrow> sn_do (\<lambda>s. s\<lparr>ss_tx_options := Some v\<rparr>) | _ \<Rightarrow> sn_return ())
     (case c of CmdReconnect \<Rightarrow> reconnect se | CmdSetTransaction v raw \<Rightarrow> sn_do (\<lambda>s. s\<lparr>ss_tx_options := Some v\<rparr>) | _ \<Rightarrow> sn_return ())"
    by (cases c) (auto intro!: alike_rules alike_parts simp: told_apart_iff)
  then show ?thesis
    using Some same unfolding own_step_def
    by (auto intro!: alike_rules alike_reject_common alike_processed assms(1))
qed

lemma alike_none_step:
  assumes "no_throw se" and "same_work st st'"
  shows "alike (none_step se i st) (none_step se i st')"
proof (cases "pa_client st'")
  case None
  then have "pa_sql st = pa_sql st'" "pa_client st = None" using assms(2) by (simp_all add: same_work_def)
  then show ?thesis
    using None unfolding none_step_def by (auto intro!: alike_rules alike_run_one assms(1))
next
  case (Some c)
  then have same: "pa_client st = Some c" using assms(2) by (simp add: same_work_def)
  show ?thesis
    using Some same unfolding none_step_def
    by (cases c) (auto intro!: alike_rules alike_parts alike_reject_common alike_processed alike_reject assms(1))
qed

lemma alike_each:
  assumes "list_all2 same_work sts sts'" and "\<And>i st st'. same_work st st' \<Longrightarrow> alike (step i st) (step i st')"
  shows "alike (each_statement step i sts) (each_statement step i sts')"
  using assms(1) by (induction arbitrary: i rule: list_all2_induct) (auto intro!: alike_rules assms(2))

lemma alike_run_statements:
  assumes "no_throw se" and "list_all2 same_work sts sts'"
  shows "alike (run_statements se sts) (run_statements se sts')"
proof (cases "script_mode_of (se_script se)")
  case PerScript
  then show ?thesis
    unfolding run_statements_def PerScript script_mode.case
    by (intro alike_rules alike_parts alike_each [OF assms(2)] alike_script_step assms(1))
next
  case PerStatement
  then show ?thesis
    unfolding run_statements_def PerStatement script_mode.case by (intro alike_each [OF assms(2)] alike_own_step assms(1))
next
  case NoTransaction
  then show ?thesis
    unfolding run_statements_def NoTransaction script_mode.case by (intro alike_each [OF assms(2)] alike_none_step assms(1))
next
  case (CallerTransaction t)
  then show ?thesis
    unfolding run_statements_def CallerTransaction script_mode.case by (intro alike_each [OF assms(2)] alike_caller_step assms(1))
qed

subsection \<open>What a run records\<close>

text \<open>The first statements have each one result, and the counters count them.\<close>

definition recorded :: "bool \<Rightarrow> parsed_statement list \<Rightarrow> script_state \<Rightarrow> bool" where
  "recorded continue done s = (map sr_statement (ss_results s) = done \<and> map sr_index (ss_results s) = [0..<length done]
     \<and> ss_succeeded s = length (filter (\<lambda>r. sr_error r = None) (ss_results s))
     \<and> ss_failed s = length (filter (\<lambda>r. sr_error r \<noteq> None) (ss_results s))
     \<and> (\<not> continue \<longrightarrow> ss_failed s = 0))"

text \<open>Triples: what holds after a result, and after an error.\<close>

definition triple :: "('s \<Rightarrow> bool) \<Rightarrow> ('s, 'a) act \<Rightarrow> ('a \<Rightarrow> 's \<Rightarrow> bool) \<Rightarrow> ('s \<Rightarrow> bool) \<Rightarrow> bool" where
  "triple P m Q E = (\<forall>s. P s \<longrightarrow> (case m s of (Inr x, s') \<Rightarrow> Q x s' | (Inl e, s') \<Rightarrow> E s'))"

lemma triple_bind: "triple P m R E \<Longrightarrow> (\<And>x. triple (R x) (f x) Q E) \<Longrightarrow> triple P (sn_bind m f) Q E"
  by (fastforce simp: triple_def sn_bind_def split: prod.splits sum.splits)

lemma triple_catch: "triple P m Q R \<Longrightarrow> (\<And>e. triple R (h e) Q E) \<Longrightarrow> triple P (sn_catch m h) Q E"
  by (fastforce simp: triple_def sn_catch_def split: prod.splits sum.splits)

lemma triple_read: "(\<And>x. triple P (f x) Q E) \<Longrightarrow> triple P (sn_read g f) Q E"
  by (simp add: triple_def sn_read_def)

lemma triple_return: "(\<And>s. P s \<Longrightarrow> Q x s) \<Longrightarrow> triple P (sn_return x) Q E"
  by (simp add: triple_def)

lemma triple_fail: "(\<And>s. P s \<Longrightarrow> E s) \<Longrightarrow> triple P (sn_lift (Inl e)) Q E"
  by (simp add: triple_def)

lemma triple_do: "(\<And>s. P s \<Longrightarrow> Q () (f s)) \<Longrightarrow> triple P (sn_do f) Q E"
  by (simp add: triple_def)

lemma triple_if: "(b \<Longrightarrow> triple P m Q E) \<Longrightarrow> (\<not> b \<Longrightarrow> triple P n Q E) \<Longrightarrow> triple P (if b then m else n) Q E"
  by simp

text \<open>Whatever does not touch the results keeps what is recorded.\<close>

definition silent :: "(script_state, 'a) act \<Rightarrow> bool" where
  "silent m = (\<forall>c d. triple (recorded c d) m (\<lambda>_. recorded c d) (recorded c d))"

lemma silentD: "silent m \<Longrightarrow> triple (recorded c d) m (\<lambda>_. recorded c d) (recorded c d)"
  by (simp add: silent_def)

lemma silent_after: "silent m \<Longrightarrow> triple (recorded c d) m (\<lambda>_. recorded c d) (\<lambda>_. True)"
  by (force simp: silent_def triple_def split: prod.splits sum.splits)

lemma silent_bind: "silent m \<Longrightarrow> (\<And>x. silent (f x)) \<Longrightarrow> silent (sn_bind m f)"
  unfolding silent_def by (blast intro: triple_bind)

lemma silent_read: "(\<And>x. silent (f x)) \<Longrightarrow> silent (sn_read g f)"
  unfolding silent_def by (blast intro: triple_read)

lemma silent_lift: "silent (sn_lift r)" "silent (sn_return x)"
  by (auto simp: silent_def triple_def split: sum.split)

lemma silent_on_att: "silent (on_att m)"
  by (auto simp: silent_def triple_def on_att_def recorded_def split: prod.split sum.split)

lemma silent_do: "(\<And>s. ss_results (f s) = ss_results s \<and> ss_succeeded (f s) = ss_succeeded s \<and> ss_failed (f s) = ss_failed s) \<Longrightarrow> silent (sn_do f)"
  by (auto simp: silent_def triple_def recorded_def)

lemma silent_if: "(b \<Longrightarrow> silent m) \<Longrightarrow> (\<not> b \<Longrightarrow> silent n) \<Longrightarrow> silent (if b then m else n)"
  by simp

lemmas silent_rules = silent_bind silent_read silent_lift silent_on_att silent_if

lemma silent_open: "silent (open_script_tx se)"
  unfolding open_script_tx_def by (intro silent_rules silent_do) simp

lemma silent_with_tx: "silent (with_tx m)"
  unfolding with_tx_def by (intro silent_rules)

lemma silent_set_dirty: "silent (set_dirty b)"
  unfolding set_dirty_def by (intro silent_do) simp

lemma silent_unless_finished: "silent (unless_finished m)"
  unfolding unless_finished_def by (intro silent_rules silent_with_tx)

lemma silent_reconnect: "silent (reconnect se)"
  unfolding reconnect_def by (intro silent_rules)

lemmas silent_parts = silent_rules silent_open silent_with_tx silent_set_dirty silent_unless_finished silent_reconnect

lemma silent_command: "silent (script_command se c)"
  by (cases c; simp; intro conjI impI silent_parts silent_do; simp)

text \<open>Recording one more statement.\<close>

definition records :: "script_environment \<Rightarrow> nat \<Rightarrow> parsed_statement \<Rightarrow> (script_state, 'a) act \<Rightarrow> bool" where
  "records se i st m = (\<forall>d. length d = i \<longrightarrow> triple (recorded (xo_continue_on_error (se_script se)) d) m
     (\<lambda>_. recorded (xo_continue_on_error (se_script se)) (d @ [st])) (\<lambda>_. True))"

lemma emit_ok_records: "no_throw se \<Longrightarrow> length d = i \<Longrightarrow> triple (recorded c d) (emit_ok se st i n k) (\<lambda>_. recorded c (d @ [st])) E"
  by (auto simp: emit_ok_def Let_def no_throw_progress triple_def recorded_def)

lemma emit_error_records: "no_throw se \<Longrightarrow> records se i st (emit_error se st i e)"
  by (auto simp: emit_error_def Let_def no_throw_progress records_def triple_def recorded_def failure_result_def)

lemma recordsD: "records se (length d) st m \<Longrightarrow> c = xo_continue_on_error (se_script se) \<Longrightarrow>
    triple (recorded c d) m (\<lambda>_. recorded c (d @ [st])) (\<lambda>_. True)"
  by (simp add: records_def)

lemma records_first: "records se i st m \<Longrightarrow> (\<And>x. silent (f x)) \<Longrightarrow> records se i st (sn_bind m f)"
  unfolding records_def by (blast intro: triple_bind silent_after)

lemma records_later: "silent m \<Longrightarrow> (\<And>x. records se i st (f x)) \<Longrightarrow> records se i st (sn_bind m f)"
  unfolding records_def by (blast intro: triple_bind silent_after)

lemma records_read: "(\<And>x. records se i st (f x)) \<Longrightarrow> records se i st (sn_read g f)"
  unfolding records_def by (blast intro: triple_read)

lemma records_caught: "records se i st m \<Longrightarrow> records se i st (sn_catch m (\<lambda>e. sn_bind (h e) (\<lambda>_. sn_lift (Inl e))))"
  by (fastforce simp: records_def triple_def sn_catch_def sn_bind_def split: prod.splits sum.splits)

lemma records_if: "(b \<Longrightarrow> records se i st m) \<Longrightarrow> (\<not> b \<Longrightarrow> records se i st n) \<Longrightarrow> records se i st (if b then m else n)"
  by simp

text \<open>An attempt that is recorded as a success, or as a failure with its error.\<close>

lemma records_attempt:
  assumes "no_throw se" and "silent m"
  shows "records se i st (sn_catch (sn_bind m (\<lambda>x. sn_bind (emit_ok se st i (n x) (k x)) (\<lambda>_. sn_return u)))
     (\<lambda>e. sn_bind (emit_error se st i e) (\<lambda>_. sn_return v)))"
  unfolding records_def
proof (intro allI impI, rule triple_catch)
  fix d :: "parsed_statement list" assume d: "length d = i"
  let ?c = "xo_continue_on_error (se_script se)"
  show "triple (recorded ?c d) (sn_bind m (\<lambda>x. sn_bind (emit_ok se st i (n x) (k x)) (\<lambda>_. sn_return u))) (\<lambda>_. recorded ?c (d @ [st])) (recorded ?c d)"
    by (rule triple_bind [OF silentD [OF assms(2)] triple_bind [OF emit_ok_records [OF assms(1) d] triple_return]])
  show "triple (recorded ?c d) (sn_bind (emit_error se st i e) (\<lambda>_. sn_return v)) (\<lambda>_. recorded ?c (d @ [st])) (\<lambda>_. True)" for e
    using emit_error_records [OF assms(1), of i st e] d by (intro triple_bind [OF _ triple_return]) (simp_all add: records_def)
qed

lemma bind_unit: "sn_bind m (\<lambda>_. sn_return ()) = m" "sn_bind m sn_return = m"
  by (auto simp: sn_bind_def fun_eq_iff split: prod.split sum.split)

lemma run_one_records: "no_throw se \<Longrightarrow> records se i st (run_one se st i tx)"
  unfolding run_one_def by (intro records_attempt silent_on_att)

lemma processed_records: "no_throw se \<Longrightarrow> silent m \<Longrightarrow> records se i st (processed se st i m)"
  using records_attempt [of se m i st "\<lambda>_. 0" "\<lambda>_. 0" "()" "()"] by (simp add: processed_def bind_unit)

lemma reject_records: "no_throw se \<Longrightarrow> records se i st (reject_client se st i why)"
  unfolding reject_client_def by (rule emit_error_records)

text \<open>A command common to every mode is recorded when it is consumed.\<close>

lemma reject_common_records:
  assumes "no_throw se" and "records se i st m"
  shows "records se i st (sn_bind (reject_common se st i c) (\<lambda>consumed. if consumed then sn_return () else m))"
proof (cases "reject_common se st i c = sn_return False")
  case True
  then show ?thesis using assms(2) by simp
next
  case False
  then obtain why where "reject_common se st i c = sn_bind (reject_client se st i why) (\<lambda>_. sn_return True)"
    unfolding reject_common_def by (cases c) (auto split: if_splits)
  then show ?thesis
    using reject_records [OF assms(1), of i st why] by (simp only: sn_bind_assoc sn_bind_pure if_True bind_unit)
qed

lemmas records_rules = records_first records_read records_if reject_common_records run_one_records processed_records reject_records
  silent_parts silent_command

lemma caller_step_records: "no_throw se \<Longrightarrow> records se i st (caller_step se t i st)"
  unfolding caller_step_def by (cases "pa_client st") (auto intro!: records_rules)

lemma script_step_records: "no_throw se \<Longrightarrow> records se i st (script_step se i st)"
  unfolding script_step_def by (cases "pa_client st") (auto intro!: records_rules)

lemma own_step_records:
  assumes "no_throw se"
  shows "records se i st (own_step se i st)"
proof (cases "pa_client st")
  case None
  show ?thesis
    unfolding own_step_def None option.case
    by (intro records_later [OF silent_open] records_first records_caught records_read run_one_records assms silent_unless_finished)
next
  case (Some c)
  have "silent (case c of CmdReconnect \<Rightarrow> reconnect se | CmdSetTransaction v raw \<Rightarrow> sn_do (\<lambda>s. s\<lparr>ss_tx_options := Some v\<rparr>) | _ \<Rightarrow> sn_return ())"
    by (cases c) (auto intro!: silent_parts silent_do)
  then show ?thesis using Some assms unfolding own_step_def by (auto intro!: reject_common_records processed_records)
qed

lemma none_step_records: "no_throw se \<Longrightarrow> records se i st (none_step se i st)"
proof (cases "pa_client st")
  case (Some c)
  then show "no_throw se \<Longrightarrow> ?thesis" unfolding none_step_def by (cases c) (auto intro!: records_rules)
qed (auto simp: none_step_def intro!: records_rules)

lemma each_records:
  assumes "\<And>i st. records se i st (step i st)"
  shows "triple (recorded (xo_continue_on_error (se_script se)) d) (each_statement step (length d) sts)
     (\<lambda>_. recorded (xo_continue_on_error (se_script se)) (d @ sts)) (\<lambda>_. True)"
proof (induction sts arbitrary: d)
  case Nil
  then show ?case by (simp add: triple_def)
next
  case (Cons st sts)
  have "triple (recorded (xo_continue_on_error (se_script se)) (d @ [st])) (each_statement step (Suc (length d)) sts)
     (\<lambda>_. recorded (xo_continue_on_error (se_script se)) (d @ st # sts)) (\<lambda>_. True)"
    using Cons.IH [of "d @ [st]"] by simp
  then show ?case
    using triple_bind [OF recordsD [OF assms refl]] by fastforce
qed

lemma caught_after: "triple P m Q (\<lambda>_. True) \<Longrightarrow> triple P (sn_catch m (\<lambda>e. sn_bind (h e) (\<lambda>_. sn_lift (Inl e)))) Q (\<lambda>_. True)"
  by (fastforce simp: triple_def sn_catch_def sn_bind_def split: prod.splits sum.splits)

lemma run_statements_record:
  assumes "no_throw se"
  shows "triple (recorded (xo_continue_on_error (se_script se)) []) (run_statements se sts)
     (\<lambda>_. recorded (xo_continue_on_error (se_script se)) sts) (\<lambda>_. True)"
proof -
  note each = each_records [of se _ "[]", simplified]
  show ?thesis
  proof (cases "script_mode_of (se_script se)")
    case PerScript
    show ?thesis
      unfolding run_statements_def PerScript script_mode.case
      by (intro triple_bind [OF silent_after [OF silent_open]] caught_after)
        (rule triple_bind [OF each [OF script_step_records [OF assms]] silent_after [OF silent_unless_finished]])
  qed (simp_all add: run_statements_def each caller_step_records own_step_records none_step_records assms)
qed

subsection \<open>A sample\<close>

definition own_short_transactions :: script_options where
  "own_short_transactions = \<lparr>xo_terminator = None, xo_transaction = Some NoTransaction, xo_transaction_options = None,
     xo_continue_on_error = False, xo_on_progress = None, xo_client_commands = None\<rparr>"

definition idle_attachment :: attachment where
  "idle_attachment = \<lparr>at_session = warm_session, at_generation = 0, at_detached = False, at_open = True, at_round_trips_base = 0, at_txs = []\<rparr>"

definition sample_script_environment :: script_environment where
  "sample_script_environment = \<lparr>se_environment = utc_host, se_options = resolve_options (only_database ''db''),
     se_establish = (\<lambda>_. Inl ClosedErr), se_script = own_short_transactions, se_total = 1\<rparr>"

subsection \<open>Properties\<close>

text \<open>
  C22. The text of a client command never reaches the server. Two parsed scripts that
  differ only in the text (and place) of their client commands do the same to the
  attachment, byte for byte, with the same error if one ends them, in every transaction mode and
  whatever the server answers. (The progress callback, if any, does not throw: it is
  given the statement and could.)
\<close>

theorem client_text_never_sent:
  assumes "no_throw se" and "list_all2 same_work sts sts'"
  shows "fst (run_statements se sts s) = fst (run_statements se sts' s)
    \<and> ss_att (snd (run_statements se sts s)) = ss_att (snd (run_statements se sts' s))"
  using alike_run_statements [OF assms] by (simp add: alike_def told_apart_iff)

theorem client_text_never_sent_witness:
  "parsed ''commit'' (1, 1) \<noteq> parsed ''commit work'' (7, 3)
   \<and> ss_att (snd (run_statements sample_script_environment [parsed ''commit'' (1, 1)] (script_start own_short_transactions idle_attachment)))
     = ss_att (snd (run_statements sample_script_environment [parsed ''commit work'' (7, 3)] (script_start own_short_transactions idle_attachment)))"
proof -
  have ps: "parsed ''commit'' (1, 1) = \<lparr>pa_sql = ''commit'', pa_line = 1, pa_column = 1, pa_kind = KindClient, pa_client = Some (CmdCommit False)\<rparr>"
      "parsed ''commit work'' (7, 3) = \<lparr>pa_sql = ''commit work'', pa_line = 7, pa_column = 3, pa_kind = KindClient, pa_client = Some (CmdCommit False)\<rparr>"
    by code_simp+
  have "no_throw sample_script_environment" by (simp add: no_throw_def sample_script_environment_def own_short_transactions_def)
  moreover have "list_all2 same_work [parsed ''commit'' (1, 1)] [parsed ''commit work'' (7, 3)]" by (simp add: same_work_def ps del: One_nat_def)
  ultimately show ?thesis
    using client_text_never_sent [of sample_script_environment _ _ "script_start own_short_transactions idle_attachment"] ps by simp
qed



end
