(* ===== verification/Js_Number.thy ===== *)
theory Js_Number
  imports Dec_Float
begin

text \<open>
  What the driver uses of JavaScript's \<open>Number\<close>: the IEEE bytes that \<open>writeDoubleBE\<close> and
  \<open>writeFloatBE\<close> write of a number, the number of a text, and the exact decimal texts that
  \<open>decimalToScaled\<close> of \<open>protocol/batch.ts\<close> shares with it. A finite number is a sign with a
  numerator and a denominator.
\<close>

subsection \<open>Rounding to a floating-point format\<close>

fun bit_len :: "nat \<Rightarrow> nat" where
  "bit_len n = (if n = 0 then 0 else Suc (bit_len (n div 2)))"

declare bit_len.simps [simp del]

definition round_half_even :: "nat \<Rightarrow> nat \<Rightarrow> nat" where
  "round_half_even n d = (let q = n div d; r = n mod d in if 2 * r < d \<or> (2 * r = d \<and> even q) then q else Suc q)"

text \<open>
  The bits without the sign of \<open>n / d\<close> in the format of \<open>p\<close> digits and largest exponent
  \<open>mx\<close>; what is too large becomes the infinity.
\<close>

definition float_bits :: "nat \<Rightarrow> nat \<Rightarrow> nat \<Rightarrow> nat \<Rightarrow> nat" where
  "float_bits p mx n d =
     (if n = 0 then 0
      else let e0 = int (bit_len n) - int (bit_len d);
               e = (if n * 2 ^ nat (- e0) < d * 2 ^ nat e0 then e0 - 1 else e0);
               e = max e (1 - int mx);
               q = e - int (p - 1);
               m = round_half_even (n * 2 ^ nat (- q)) (d * 2 ^ nat q)
           in min (nat (e + int mx - 1) * 2 ^ (p - 1) + m) ((2 * mx + 1) * 2 ^ (p - 1)))"

datatype js_number = NaN | Infinite bool | Finite bool nat nat

definition ieee_bytes :: "nat \<Rightarrow> nat \<Rightarrow> nat \<Rightarrow> js_number \<Rightarrow> bytes" where
  "ieee_bytes w p mx v =
     (let top = int (2 * mx + 1) * 2 ^ (p - 1); sign = (\<lambda>neg. if neg then 2 ^ (8 * w - 1) else 0) in
      be_bytes w (case v of
          NaN \<Rightarrow> top + 2 ^ (p - 2)
        | Infinite neg \<Rightarrow> sign neg + top
        | Finite neg n d \<Rightarrow> sign neg + int (float_bits p mx n d)))"

definition write_double :: "js_number \<Rightarrow> bytes" where
  "write_double = ieee_bytes 8 53 1023"

definition write_float :: "js_number \<Rightarrow> bytes" where
  "write_float = ieee_bytes 4 24 127"

text \<open>The number whose bytes are given, and that of an integer.\<close>

definition double_value :: "bytes \<Rightarrow> js_number" where
  "double_value b =
     (let v = nat (be_val b); neg = 2 ^ 63 \<le> v; ex = v div 2 ^ 52 mod 2 ^ 11; f = v mod 2 ^ 52 in
      if ex = 2047 then (if f = 0 then Infinite neg else NaN)
      else if ex = 0 then Finite neg f (2 ^ 1074)
      else if 1075 \<le> ex then Finite neg ((f + 2 ^ 52) * 2 ^ (ex - 1075)) 1
      else Finite neg (f + 2 ^ 52) (2 ^ (1075 - ex)))"

text \<open>The double nearest to a number.\<close>

definition to_double :: "js_number \<Rightarrow> js_number" where
  "to_double v = double_value (write_double v)"

definition number_of_int :: "int \<Rightarrow> js_number" where
  "number_of_int n = Finite (n < 0) (nat \<bar>n\<bar>) 1"

subsection \<open>Decimal texts\<close>

text \<open>
  \<open>/^([+-]?)(\d*)(?:\.(\d*))?(?:[eE]([+-]?\d+))?$/\<close> with at least one digit before the
  exponent: the sign, the digits on either side of the point, the exponent.
\<close>

definition split_sign :: "string \<Rightarrow> bool \<times> string" where
  "split_sign s = (case s of
     c # r \<Rightarrow> if c = CHR ''-'' then (True, r) else if c = CHR ''+'' then (False, r) else (False, s)
   | [] \<Rightarrow> (False, []))"

definition match_exponent :: "string \<Rightarrow> int option" where
  "match_exponent s = (case s of
     [] \<Rightarrow> Some 0
   | c # r \<Rightarrow> (case split_sign r of (neg, ds) \<Rightarrow>
       if is_exp_char c \<and> ds \<noteq> [] \<and> list_all is_digit ds
       then Some (if neg then - int (digits_val ds) else int (digits_val ds)) else None))"

definition match_decimal :: "string \<Rightarrow> (bool \<times> string \<times> string \<times> int) option" where
  "match_decimal s =
     (case split_sign s of (neg, t) \<Rightarrow>
      let whole = takeWhile is_digit t; r = dropWhile is_digit t;
          (frac, r) = (case r of c # u \<Rightarrow> if c = CHR ''.'' then (takeWhile is_digit u, dropWhile is_digit u) else ([], r) | [] \<Rightarrow> ([], []))
      in if whole = [] \<and> frac = [] then None
         else map_option (\<lambda>e. (neg, whole, frac, e)) (match_exponent r))"

text \<open>\<open>Number(s)\<close>.\<close>

definition hex_digit :: "char \<Rightarrow> nat option" where
  "hex_digit c = (let l = lower_char c in
     if is_digit l then Some (digit_val l)
     else if 97 \<le> code l \<and> code l \<le> 102 then Some (code l - 87) else None)"

definition radix_value :: "nat \<Rightarrow> string \<Rightarrow> nat option" where
  "radix_value b s = (if s = [] then None else foldl (\<lambda>acc c. case (acc, hex_digit c) of
     (Some n, Some d) \<Rightarrow> if d < b then Some (n * b + d) else None | _ \<Rightarrow> None) (Some 0) s)"

definition radix_of :: "string \<Rightarrow> nat option" where
  "radix_of s = (if to_lower (take 2 s) = ''0x'' then Some 16 else if to_lower (take 2 s) = ''0o'' then Some 8
     else if to_lower (take 2 s) = ''0b'' then Some 2 else None)"

definition decimal_number :: "bool \<Rightarrow> nat \<Rightarrow> int \<Rightarrow> js_number" where
  "decimal_number neg n e = to_double (Finite neg (n * 10 ^ nat e) (10 ^ nat (- e)))"

definition number_of_text :: "string \<Rightarrow> js_number" where
  "number_of_text s =
     (let t = trim s in
      if t = [] then Finite False 0 1
      else case split_sign t of (neg, u) \<Rightarrow>
        if u = ''Infinity'' then Infinite neg
        else case radix_of t of
          Some b \<Rightarrow> (case radix_value b (drop 2 t) of Some n \<Rightarrow> to_double (Finite False n 1) | None \<Rightarrow> NaN)
        | None \<Rightarrow> (case match_decimal t of
            Some (neg, whole, frac, e) \<Rightarrow> decimal_number neg (digits_val (whole @ frac)) (e - int (length frac))
          | None \<Rightarrow> NaN))"

subsection \<open>Scaled integers\<close>

definition decimal_to_scaled :: "string \<Rightarrow> int \<Rightarrow> string \<Rightarrow> int res" where
  "decimal_to_scaled s frac_digits ctx =
     (case match_decimal (trim s) of
        None \<Rightarrow> Inl (fb_error (ctx @ '': cannot convert '' @ [quote] @ s @ [quote] @ '' to a scaled numeric value''))
      | Some (neg, whole, frac, e) \<Rightarrow>
          let sign = (if neg then - 1 else 1); digits = whole @ frac;
              shift = int (length whole) + e - int (length digits) + frac_digits
          in if 0 \<le> shift then Inr (sign * int (digits_val digits) * 10 ^ nat shift)
             else let keep = int (length digits) + shift;
                      scaled = (if 0 < keep then int (digits_val (take (nat keep) digits)) else 0)
                  in Inr (sign * (if 0 \<le> keep \<and> 5 \<le> digit_val (digits ! nat keep) then scaled + 1 else scaled)))"

subsection \<open>Facts\<close>

lemma match_decimal_digits:
  assumes "match_decimal s = Some (neg, whole, frac, e)"
  shows "list_all is_digit (whole @ frac)" and "whole @ frac \<noteq> []"
proof -
  have *: "list_all is_digit (takeWhile is_digit t)" for t by (induction t) auto
  show "list_all is_digit (whole @ frac)" "whole @ frac \<noteq> []"
    using assms * by (auto simp: match_decimal_def Let_def split: prod.splits list.splits if_splits)
qed

text \<open>Keeping the first digits and looking at the next one rounds to the nearest, half up.\<close>

lemma keep_rounds:
  assumes "list_all is_digit ds" and "k < length ds"
  shows "digits_val (take k ds) + (if 5 \<le> digit_val (ds ! k) then 1 else 0)
    = (2 * digits_val ds + 10 ^ (length ds - k)) div (2 * 10 ^ (length ds - k))"
proof -
  define d where "d = digit_val (ds ! k)"
  define t where "t = digits_val (take k ds)"
  define r where "r = digits_val (drop (Suc k) ds)"
  define P :: nat where "P = 10 ^ length (drop (Suc k) ds)"
  have ds: "ds = take k ds @ [ds ! k] @ drop (Suc k) ds" using assms(2) by (simp add: id_take_nth_drop)
  have v: "digits_val ds = (10 * t + d) * P + r"
    by (subst ds, simp only: digits_val_append) (simp add: t_def d_def r_def P_def digits_val_def algebra_simps)
  have L: "10 ^ (length ds - k) = 10 * P" using assms(2) by (simp add: P_def Suc_diff_Suc power_Suc [symmetric] del: power_Suc)
  have d: "d < 10" using assms by (simp add: d_def list_all_length)
  have "list_all is_digit (drop (Suc k) ds)" using assms(1) by (simp add: list_all_iff) (meson in_set_dropD)
  then have r: "r < P" unfolding r_def P_def by (intro digits_val_less) (simp add: list_all_iff)
  have P: "0 < P" by (simp add: P_def)
  have "2 * digits_val ds + 10 * P = (20 * P) * t + ((2 * d + 10) * P + 2 * r)" unfolding v by (simp add: algebra_simps)
  moreover have "((2 * d + 10) * P + 2 * r) div (20 * P) = (if 5 \<le> d then 1 else 0)"
  proof (cases "5 \<le> d")
    case True
    then have "20 * P \<le> (2 * d + 10) * P" by simp
    moreover have "(2 * d + 10) * P \<le> 28 * P" using d by (intro mult_right_mono) simp_all
    ultimately have "20 * P \<le> (2 * d + 10) * P + 2 * r" "(2 * d + 10) * P + 2 * r < 2 * (20 * P)" using r by linarith+
    then show ?thesis using True P by (simp add: div_nat_eqI)
  next
    case False
    then have "(2 * d + 10) * P \<le> 18 * P" by (intro mult_right_mono) simp_all
    then have "(2 * d + 10) * P + 2 * r < 20 * P" using r by linarith
    then show ?thesis using False by simp
  qed
  ultimately show ?thesis unfolding L t_def [symmetric] d_def [symmetric] using P by simp
qed

definition round_half_up :: "nat \<Rightarrow> nat \<Rightarrow> nat" where
  "round_half_up n d = (2 * n + d) div (2 * d)"

lemma decimal_scales:
  assumes "match_decimal (trim s) = Some (neg, whole, frac, e)"
  shows "decimal_to_scaled s f ctx = Inr ((if neg then - 1 else 1) *
     (let n = digits_val (whole @ frac); k = e - int (length frac) + f in
      int (if 0 \<le> k then n * 10 ^ nat k else round_half_up n (10 ^ nat (- k)))))"
proof -
  let ?ds = "whole @ frac" and ?k = "e - int (length frac) + f"
  have ds: "list_all is_digit ?ds" "?ds \<noteq> []" using match_decimal_digits [OF assms] by simp_all
  have shift: "int (length whole) + e - int (length ?ds) + f = ?k" by simp
  show ?thesis
  proof (cases "0 \<le> ?k")
    case True
    then show ?thesis using assms by (simp add: decimal_to_scaled_def Let_def)
  next
    case False
    define m where "m = nat (- ?k)"
    have m: "?k = - int m" "0 < m" using False by (simp_all add: m_def)
    let ?keep = "int (length ?ds) + ?k"
    have "(if 0 < ?keep then int (digits_val (take (nat ?keep) ?ds)) else 0)
        + (if 0 \<le> ?keep \<and> 5 \<le> digit_val (?ds ! nat ?keep) then 1 else 0) = int (round_half_up (digits_val ?ds) (10 ^ m))"
    proof (cases "0 \<le> ?keep")
      case True
      then have k: "nat ?keep < length ?ds" "length ?ds - nat ?keep = m" using m by linarith+
      let ?up = "5 \<le> digit_val (?ds ! nat ?keep)" and ?t = "digits_val (take (nat ?keep) ?ds)"
      have "int ?t + (if ?up then 1 else 0) = int (?t + (if ?up then 1 else 0))" by (cases ?up) simp_all
      also have "\<dots> = int (round_half_up (digits_val ?ds) (10 ^ m))"
        unfolding keep_rounds [OF ds(1) k(1)] k(2) round_half_up_def by (rule refl)
      finally have "int ?t + (if ?up then 1 else 0) = int (round_half_up (digits_val ?ds) (10 ^ m))" .
      moreover have "(if 0 < ?keep then int ?t else 0) = int ?t" using True by (cases "?keep = 0") simp_all
      moreover have "(0 \<le> ?keep \<and> ?up) = ?up" using True by blast
      ultimately show ?thesis by (simp only:)
    next
      case F: False
      then have "length ?ds < m" using m by linarith
      then have "10 ^ length ?ds * 10 \<le> (10::nat) ^ m" by (metis Suc_leI power_Suc2 power_increasing one_le_numeral)
      moreover have "digits_val ?ds < 10 ^ length ?ds" using ds(1) by (intro digits_val_less) (simp add: list_all_iff)
      ultimately have "2 * digits_val ?ds + 10 ^ m < 2 * 10 ^ m" by linarith
      then show ?thesis using F by (simp add: round_half_up_def)
    qed
    moreover have "decimal_to_scaled s f ctx = Inr ((if neg then - 1 else 1) *
        ((if 0 < ?keep then int (digits_val (take (nat ?keep) ?ds)) else 0)
          + (if 0 \<le> ?keep \<and> 5 \<le> digit_val (?ds ! nat ?keep) then 1 else 0)))"
      unfolding decimal_to_scaled_def assms option.case prod.case Let_def shift using False by (simp only: if_False) simp
    ultimately show ?thesis using False by (simp add: Let_def m_def)
  qed
qed

end
