(* ===== verification/Batch_Format.thy ===== *)
theory Batch_Format
  imports Js_Number Param_Encoder Row_Mapper
begin

text \<open>
  \<open>protocol/batch.ts\<close>: the fixed message format of a batch with its writers, the encoding of a
  row, and the batch parameter buffer. The specification side is what the server makes
  of it: the fields the BLR declares, the length of the engine's own message for
  them, and the fields of a row.
\<close>

subsection \<open>Values\<close>

fun js_typeof :: "param_value \<Rightarrow> string" where
  "js_typeof (PString s) = ''string''"
| "js_typeof (PBool b) = ''boolean''"
| "js_typeof (PNumber n) = ''number''"
| "js_typeof (PDouble b) = ''number''"
| "js_typeof (PBigInt n) = ''bigint''"
| "js_typeof (POther t) = t"
| "js_typeof _ = ''object''"

definition scale_int :: "int \<Rightarrow> int \<Rightarrow> int res" where
  "scale_int n frac_digits = (if frac_digits < 0 then Inl RangeErr else Inr (n * 10 ^ nat frac_digits))"

definition to_scaled_big_int :: "environment \<Rightarrow> param_value \<Rightarrow> int \<Rightarrow> string \<Rightarrow> int res" where
  "to_scaled_big_int en v frac_digits ctx = (case v of
     PBigInt n \<Rightarrow> scale_int n frac_digits
   | PNumber n \<Rightarrow> scale_int n frac_digits
   | PDouble b \<Rightarrow> (case double_value b of
        Finite neg n d \<Rightarrow> decimal_to_scaled (en_double_text en b) frac_digits ctx
      | _ \<Rightarrow> Inl (fb_error (ctx @ '': cannot bind non-finite number to an integer/numeric column'')))
   | PString s \<Rightarrow> decimal_to_scaled s frac_digits ctx
   | _ \<Rightarrow> Inl (fb_error (ctx @ '': cannot bind a '' @ js_typeof v @ '' to an integer/numeric column'')))"

definition check_range :: "int \<Rightarrow> int \<Rightarrow> int \<Rightarrow> string \<Rightarrow> int res" where
  "check_range v lo hi ctx = (if v < lo \<or> hi < v
     then Inl (fb_error (ctx @ '': value '' @ dec_int v @ '' out of range for the column type'')) else Inr v)"

definition as_number :: "param_value \<Rightarrow> string \<Rightarrow> js_number res" where
  "as_number v ctx = (case v of
     PNumber n \<Rightarrow> Inr (number_of_int n)
   | PDouble b \<Rightarrow> Inr (double_value b)
   | PBigInt n \<Rightarrow> Inr (to_double (number_of_int n))
   | PString s \<Rightarrow> (if number_of_text s = NaN \<and> to_lower (trim s) \<noteq> ''nan''
       then Inl (fb_error (ctx @ '': cannot convert '' @ [quote] @ s @ [quote] @ '' to a floating-point value''))
       else Inr (number_of_text s))
   | _ \<Rightarrow> Inl (fb_error (ctx @ '': cannot bind a '' @ js_typeof v @ '' to a floating-point column'')))"

subsection \<open>Writers\<close>

type_synonym text_encoder = "nat \<Rightarrow> string \<Rightarrow> bytes res"
type_synonym field_writer = "param_value \<Rightarrow> text_encoder \<Rightarrow> bytes res"

definition text_bytes :: "environment \<Rightarrow> nat \<Rightarrow> string \<Rightarrow> param_value \<Rightarrow> text_encoder \<Rightarrow> bytes res" where
  "text_bytes en i ctx v enc = (case v of
     PString s \<Rightarrow> enc i s
   | PBuffer b \<Rightarrow> Inr b
   | PNumber n \<Rightarrow> Inr (str_bytes (dec_int n))
   | PDouble b \<Rightarrow> Inr (str_bytes (en_double_text en b))
   | PBigInt n \<Rightarrow> Inr (str_bytes (dec_int n))
   | PBool b \<Rightarrow> Inr (str_bytes (if b then ''true'' else ''false''))
   | PDate t \<Rightarrow> Inl (fb_error (ctx @ '': cannot bind a Date to a text column in a batch''))
   | _ \<Rightarrow> Inl (fb_error (ctx @ '': unsupported value for a text column'')))"

definition write_text :: "environment \<Rightarrow> nat \<Rightarrow> string \<Rightarrow> int \<Rightarrow> field_writer" where
  "write_text en i ctx cap v enc = rthen (text_bytes en i ctx v enc) (\<lambda>b.
     if cap < int (length b)
     then Inl (fb_error (ctx @ '': encoded value is '' @ dec_nat (length b) @ '' bytes, column allows '' @ dec_int cap))
     else Inr (enc_opaque b))"

definition write_scaled :: "environment \<Rightarrow> string \<Rightarrow> int \<Rightarrow> nat \<Rightarrow> field_writer" where
  "write_scaled en ctx frac_digits width v enc =
     rthen (to_scaled_big_int en v frac_digits ctx) (\<lambda>n.
     rthen (check_range n (- (2 ^ (8 * width - 1))) (2 ^ (8 * width - 1) - 1) ctx) (\<lambda>n.
       Inr (if width = 4 then enc_int32 n else if width = 8 then enc_int64 n
            else be_bytes 8 (n div 2 ^ 64) @ be_bytes 8 (n mod 2 ^ 64))))"

definition write_timestamp :: "environment \<Rightarrow> string \<Rightarrow> field_writer" where
  "write_timestamp en ctx v enc = (case v of
     PDate t \<Rightarrow> (case encode_timestamp (en_zone en) t of (days, fractions) \<Rightarrow> Inr (enc_int32 days @ enc_uint32 fractions))
   | _ \<Rightarrow> Inl (fb_error (ctx @ '': pass a Date for a DATE/TIME/TIMESTAMP column in a batch'')))"

definition TZ_ID_UTC_OFFSET :: int where
  "TZ_ID_UTC_OFFSET = 1439"

text \<open>The instant and the zone id of a value.\<close>

definition zoned_value :: "param_value \<Rightarrow> string \<Rightarrow> (int \<times> int) res" where
  "zoned_value v msg = (case v of
     PZoned t zone \<Rightarrow> rthen (zone_to_tz_id zone) (\<lambda>z. Inr (t, z))
   | PDate t \<Rightarrow> Inr (t, TZ_ID_UTC_OFFSET)
   | _ \<Rightarrow> Inl (fb_error msg))"

definition write_timestamp_tz :: "string \<Rightarrow> field_writer" where
  "write_timestamp_tz ctx v enc =
     rthen (zoned_value v (ctx @ '': pass a Date or ZonedDate for a TIMESTAMP WITH TIME ZONE column'')) (\<lambda>(t, z).
       case encode_timestamp_utc t of (days, fractions) \<Rightarrow> Inr (enc_int32 days @ enc_uint32 fractions @ enc_uint32 z))"

definition write_time_tz :: "string \<Rightarrow> field_writer" where
  "write_time_tz ctx v enc =
     rthen (zoned_value v (ctx @ '': pass a Date or ZonedDate for a TIME WITH TIME ZONE column'')) (\<lambda>(t, z).
       Inr (enc_uint32 (t mod 86400000 * 10) @ enc_uint32 z))"

definition write_blob_id :: "string \<Rightarrow> field_writer" where
  "write_blob_id ctx v enc = (case v of PBlobRef b \<Rightarrow> Inr b
     | _ \<Rightarrow> Inl (fb_error (ctx @ '': unsupported value for a BLOB column in a batch'')))"

definition write_decfloat :: "string \<Rightarrow> nat \<Rightarrow> field_writer" where
  "write_decfloat ctx width v enc = (case v of
     PDecFloat b \<Rightarrow> if length b = width then Inr b
       else Inl (fb_error (ctx @ '': unsupported value for a DECFLOAT column in a batch''))
   | _ \<Rightarrow> Inl (fb_error (ctx @ '': unsupported value for a DECFLOAT column in a batch'')))"

definition is_zero :: "js_number \<Rightarrow> bool" where
  "is_zero v = (case v of Finite neg n d \<Rightarrow> n = 0 | _ \<Rightarrow> False)"

definition write_bool :: "string \<Rightarrow> field_writer" where
  "write_bool ctx v enc =
     rthen (case v of
        PBool b \<Rightarrow> Inr (if b then 1 else 0)
      | PNumber n \<Rightarrow> Inr (if n \<noteq> 0 then 1 else 0)
      | PDouble b \<Rightarrow> Inr (if \<not> is_zero (double_value b) then 1 else 0)
      | _ \<Rightarrow> Inl (fb_error (ctx @ '': pass a boolean for a BOOLEAN column''))) (\<lambda>bit. Inr (enc_opaque_fixed [bit]))"

subsection \<open>The message format\<close>

text \<open>What a BLR declares here: a field of the execute path, or a blob with its subtype and charset.\<close>

datatype batch_blr = BField blr_field | BBlob int int

fun enc_batch_blr :: "batch_blr \<Rightarrow> bytes" where
  "enc_batch_blr (BField f) = enc_field f"
| "enc_batch_blr (BBlob sub charset) = blr_byte (blr_code Blr_blob2) @ blr_word sub @ blr_word charset"

record batch_field =
  bf_blr :: batch_blr
  bf_length :: int
  bf_alignment :: int
  bf_writer :: field_writer
  bf_is_blob :: bool

definition fb_align :: "int \<Rightarrow> int \<Rightarrow> int" where
  "fb_align len alignment = (let u = to_int32 (len + alignment - 1) in u - u mod alignment)"

definition add_field :: "int \<Rightarrow> int \<Rightarrow> int \<Rightarrow> int" where
  "add_field msglen len alignment =
     fb_align ((if 1 < alignment then fb_align msglen alignment else msglen) + len) 2 + 2"

definition batch_parameter :: "nat \<Rightarrow> string" where
  "batch_parameter i = ''Batch parameter '' @ dec_nat (i + 1)"

definition batch_field_of :: "environment \<Rightarrow> nat \<Rightarrow> sql_var_desc \<Rightarrow> batch_field res" where
  "batch_field_of en i d =
     (let ctx = batch_parameter i; scale = v_scale d; ty = sql_type_of (v_type d);
          plain = (\<lambda>b len al w. Inr \<lparr>bf_blr = BField b, bf_length = len, bf_alignment = al, bf_writer = w, bf_is_blob = False\<rparr>)
      in case ty of
        Some SQL_TEXT \<Rightarrow> plain (FLen Blr_varying (v_length d)) (v_length d + 2) 2 (write_text en i ctx (v_length d))
      | Some SQL_VARYING \<Rightarrow> plain (FLen Blr_varying (v_length d)) (v_length d + 2) 2 (write_text en i ctx (v_length d))
      | Some SQL_NULL \<Rightarrow> plain (FLen Blr_varying 0) 2 2 (write_text en i ctx 0)
      | Some SQL_SHORT \<Rightarrow> plain (FScale Blr_long scale) 4 4 (write_scaled en ctx (- scale) 4)
      | Some SQL_LONG \<Rightarrow> plain (FScale Blr_long scale) 4 4 (write_scaled en ctx (- scale) 4)
      | Some SQL_INT64 \<Rightarrow> plain (FScale Blr_int64 scale) 8 8 (write_scaled en ctx (- scale) 8)
      | Some SQL_INT128 \<Rightarrow> plain (FScale Blr_int128 scale) 16 8 (write_scaled en ctx (- scale) 16)
      | Some SQL_FLOAT \<Rightarrow> plain (FBare Blr_float) 4 4 (\<lambda>v enc. rthen (as_number v ctx) (\<lambda>n. Inr (write_float n)))
      | Some SQL_DOUBLE \<Rightarrow> plain (FBare Blr_double) 8 8 (\<lambda>v enc. rthen (as_number v ctx) (\<lambda>n. Inr (write_double n)))
      | Some SQL_D_FLOAT \<Rightarrow> plain (FBare Blr_double) 8 8 (\<lambda>v enc. rthen (as_number v ctx) (\<lambda>n. Inr (write_double n)))
      | Some SQL_TYPE_DATE \<Rightarrow> plain (FBare Blr_timestamp) 8 4 (write_timestamp en ctx)
      | Some SQL_TYPE_TIME \<Rightarrow> plain (FBare Blr_timestamp) 8 4 (write_timestamp en ctx)
      | Some SQL_TIMESTAMP \<Rightarrow> plain (FBare Blr_timestamp) 8 4 (write_timestamp en ctx)
      | Some SQL_TIMESTAMP_TZ \<Rightarrow> plain (FBare Blr_timestamp_tz) 12 4 (write_timestamp_tz ctx)
      | Some SQL_TIMESTAMP_TZ_EX \<Rightarrow> plain (FBare Blr_timestamp_tz) 12 4 (write_timestamp_tz ctx)
      | Some SQL_TIME_TZ \<Rightarrow> plain (FBare Blr_sql_time_tz) 8 4 (write_time_tz ctx)
      | Some SQL_TIME_TZ_EX \<Rightarrow> plain (FBare Blr_sql_time_tz) 8 4 (write_time_tz ctx)
      | Some SQL_BLOB \<Rightarrow> Inr \<lparr>bf_blr = BBlob (v_sub_type d) (scale mod 256), bf_length = 8, bf_alignment = 4,
          bf_writer = write_blob_id ctx, bf_is_blob = True\<rparr>
      | Some SQL_QUAD \<Rightarrow> plain (FScale Blr_quad 0) 8 4 (write_blob_id ctx)
      | Some SQL_ARRAY \<Rightarrow> plain (FScale Blr_quad 0) 8 4 (write_blob_id ctx)
      | Some SQL_DEC16 \<Rightarrow> plain (FBare Blr_dec64) 8 8 (write_decfloat ctx 8)
      | Some SQL_DEC34 \<Rightarrow> plain (FBare Blr_dec128) 16 8 (write_decfloat ctx 16)
      | Some SQL_BOOLEAN \<Rightarrow> plain (FBare Blr_bool) 1 1 (write_bool ctx)
      | _ \<Rightarrow> Inl (fb_error (ctx @ '': unsupported SQL type '' @ dec_int (v_type d))))"

fun batch_fields :: "environment \<Rightarrow> nat \<Rightarrow> sql_var_desc option list \<Rightarrow> batch_field list res" where
  "batch_fields en i [] = Inr []"
| "batch_fields en i (None # ds) = Inl TypeErr"
| "batch_fields en i (Some d # ds) = rthen (batch_field_of en i d) (\<lambda>f. rthen (batch_fields en (Suc i) ds) (\<lambda>fs. Inr (f # fs)))"

record batch_format =
  bm_blr :: bytes
  bm_msglen :: int
  bm_stride :: int
  bm_writers :: "field_writer list"
  bm_blobs :: "nat list"

definition batch_msglen :: "batch_field list \<Rightarrow> int" where
  "batch_msglen fs = foldl (\<lambda>m f. add_field m (bf_length f) (bf_alignment f)) 0 fs"

definition format_of_fields :: "batch_field list \<Rightarrow> batch_format" where
  "format_of_fields fs = \<lparr>bm_blr = blr_header (length fs) @ concat (map (\<lambda>f. enc_batch_blr (bf_blr f) @ null_slot) fs) @ blr_footer,
     bm_msglen = batch_msglen fs, bm_stride = fb_align (batch_msglen fs) 8, bm_writers = map bf_writer fs,
     bm_blobs = filter (\<lambda>i. bf_is_blob (fs ! i)) [0..<length fs]\<rparr>"

definition build_batch_format :: "environment \<Rightarrow> sql_var_desc option list \<Rightarrow> batch_format res" where
  "build_batch_format en inputs = rthen (batch_fields en 0 inputs) (\<lambda>fs. Inr (format_of_fields fs))"

subsection \<open>A row\<close>

definition is_null_at :: "param_value list \<Rightarrow> nat \<Rightarrow> bool" where
  "is_null_at vs i = (case at vs i of None \<Rightarrow> True | Some v \<Rightarrow> v = PNull)"

fun null_bits :: "nat \<Rightarrow> (nat \<Rightarrow> bool) \<Rightarrow> bytes \<Rightarrow> bytes" where
  "null_bits 0 p bm = bm"
| "null_bits (Suc n) p bm = (if p n then set_null n (null_bits n p bm) else null_bits n p bm)"

fun write_row :: "nat \<Rightarrow> field_writer list \<Rightarrow> param_value list \<Rightarrow> text_encoder \<Rightarrow> bytes res" where
  "write_row i [] vs enc = Inr []"
| "write_row i (w # ws) vs enc =
     (if is_null_at vs i then write_row (Suc i) ws vs enc
      else rthen (w (vs ! i) enc) (\<lambda>b. rthen (write_row (Suc i) ws vs enc) (\<lambda>bs. Inr (b @ bs))))"

definition encode_batch_row :: "batch_format \<Rightarrow> param_value list \<Rightarrow> text_encoder \<Rightarrow> bytes res" where
  "encode_batch_row fm vs enc =
     (let n = length (bm_writers fm) in
      rthen (write_row 0 (bm_writers fm) vs enc) (\<lambda>d.
        Inr (enc_opaque_fixed (null_bits n (is_null_at vs) (replicate (bitmap_len n) 0)) @ d)))"

subsection \<open>The parameter buffer\<close>

record batch_pb_options =
  bp_multi_error :: bool
  bp_record_counts :: bool
  bp_blob_policy :: "int option"
  bp_detailed_errors :: "int option"

definition int_clumplet :: "batch_pb \<Rightarrow> int \<Rightarrow> bytes" where
  "int_clumplet tag v = word_of_int (batch_pb_code tag) # le_bytes 4 4 @ le_bytes 4 v"

definition build_batch_pb :: "batch_pb_options \<Rightarrow> bytes" where
  "build_batch_pb p = word_of_int (batch_pb_code Pb_version1)
     # (if bp_multi_error p then int_clumplet Pb_tag_multierror 1 else [])
     @ (if bp_record_counts p then int_clumplet Pb_tag_record_counts 1 else [])
     @ (case bp_blob_policy p of Some v \<Rightarrow> int_clumplet Pb_tag_blob_policy v | None \<Rightarrow> [])
     @ (case bp_detailed_errors p of Some v \<Rightarrow> int_clumplet Pb_tag_detailed_errors v | None \<Rightarrow> [])"

end
