(* ===== verification/Batch.thy ===== *)
theory Batch
  imports Batch_Format Prepared
begin

text \<open>
  The wire operations of \<open>protocol/batch.ts\<close> and \<open>api/batch.ts\<close>, which runs a statement over
  many rows in cycles, with the entry points of attachments, transactions and prepared
  statements. The state of a run is the session with the variables of \<open>runBatch\<close>; after a
  failure they are the fields of the \<open>FirebirdBatchError\<close>.
\<close>

subsection \<open>Wire operations\<close>

definition write_batch_create :: "int \<Rightarrow> batch_format \<Rightarrow> bytes \<Rightarrow> wire \<Rightarrow> wire" where
  "write_batch_create h fm pb = put (enc_int32 op_batch_create @ enc_int32 h @ enc_opaque (bm_blr fm) @ enc_uint32 (bm_msglen fm) @ enc_opaque pb)"

definition write_batch_msg :: "int \<Rightarrow> bytes list \<Rightarrow> wire \<Rightarrow> wire" where
  "write_batch_msg h rows = put (enc_int32 op_batch_msg @ enc_int32 h @ enc_uint32 (int (length rows)) @ concat rows)"

definition write_batch_regblob :: "int \<Rightarrow> bytes \<Rightarrow> wire \<Rightarrow> wire" where
  "write_batch_regblob h bid = put (enc_int32 op_batch_regblob @ enc_int32 h @ bid @ bid)"

definition write_batch_exec :: "int \<Rightarrow> int \<Rightarrow> wire \<Rightarrow> wire" where
  "write_batch_exec h tx = put (enc_int32 op_batch_exec @ enc_int32 h @ enc_int32 tx)"

definition write_batch_release :: "int \<Rightarrow> wire \<Rightarrow> wire" where
  "write_batch_release h w = mark_deferred (put (enc_int32 op_batch_rls @ enc_int32 h) w)"

record batch_completion =
  bc_rec_count :: int
  bc_update_counts :: "int list"
  bc_errors :: "(int \<times> err option) list"

definition read_failed_row :: "(int \<times> err option) rd" where
  "read_failed_row = rd_bind read_int32 (\<lambda>i. rd_bind read_status_vector (\<lambda>(e, args). rd_return (i, e)))"

definition read_batch_completion :: "batch_completion rd" where
  "read_batch_completion = rd_bind read_op (\<lambda>op.
     if op = op_response then rd_bind parse_response_body (\<lambda>_.
       rd_fail (protocol_error ''op_batch_exec answered with a plain op_response and no error''))
     else if op \<noteq> op_batch_cs then rd_fail (protocol_error (''Unexpected op '' @ dec_int op @ '' after op_batch_exec''))
     else rd_bind read_int32 (\<lambda>_. rd_bind read_int32 (\<lambda>rec_count. rd_bind read_int32 (\<lambda>updates.
       rd_bind read_int32 (\<lambda>vectors. rd_bind read_int32 (\<lambda>statusless.
         if updates < 0 then rd_fail RangeErr
         else rd_bind (rd_times (nat updates) read_int32) (\<lambda>counts.
           rd_bind (rd_times (nat vectors) read_failed_row) (\<lambda>failed.
           rd_bind (rd_times (nat statusless) read_int32) (\<lambda>bare.
             rd_return \<lparr>bc_rec_count = rec_count, bc_update_counts = counts, bc_errors = failed @ map (\<lambda>i. (i, None)) bare\<rparr>)))))))))"

text \<open>
  The expected responses, one after the other: \<open>None\<close> when all are read, or the error of one
  and how many replies (that of the execute included) are still to come.
\<close>

fun read_responses :: "nat \<Rightarrow> wire \<Rightarrow> (nat \<times> err) option \<times> wire" where
  "read_responses 0 w = (None, w)"
| "read_responses (Suc n) w = (case read_response w of
     (Inl e, w') \<Rightarrow> (Some (Suc n, e), w')
   | (Inr g, w') \<Rightarrow> read_responses n w')"

subsection \<open>A run\<close>

record batch_options =
  bo_continue_on_error :: bool
  bo_detailed_errors :: "int option"
  bo_chunk_bytes :: "int option"

record batch_result =
  br_row_count :: nat
  br_rows_affected :: int
  br_update_counts :: "int list"
  br_errors :: "(int \<times> err option) list"

record batch_state =
  bs_session :: session
  bs_combined :: batch_result
  bs_created :: bool
  bs_rows :: "bytes list"
  bs_blob_ids :: "bytes list"
  bs_seen :: "string list"

record batch_statement =
  bt_handle :: int
  bt_format :: batch_format
  bt_pb :: bytes
  bt_tx :: int
  bt_continue :: bool

definition on_batch :: "(session, 'a) act \<Rightarrow> (batch_state, 'a) act" where
  "on_batch m = (\<lambda>s. case m (bs_session s) of (r, t) \<Rightarrow> (r, s\<lparr>bs_session := t\<rparr>))"

definition DEFAULT_CHUNK_BYTES :: int where
  "DEFAULT_CHUNK_BYTES = 8 * 1024 * 1024"

definition batchable :: "int \<Rightarrow> bool" where
  "batchable t = (stmt_type_of t = Some Stmt_insert \<or> stmt_type_of t = Some Stmt_update \<or> stmt_type_of t = Some Stmt_delete
     \<or> stmt_type_of t = Some Stmt_exec_procedure)"

definition bind_row :: "query_params \<Rightarrow> string list \<Rightarrow> nat \<Rightarrow> arg list res" where
  "bind_row row names i = (case row of
     Positional vs \<Rightarrow> Inr vs
   | Named ps \<Rightarrow> if names = [] then Inl (param_error (''batch row '' @ dec_nat i
         @ '': a named-parameter object was passed but the SQL has no @name markers '' @ em_dash
         @ '' use @name markers or positional arrays''))
       else bind_named_params names ps)"

text \<open>What a cycle writes, and its replies.\<close>

definition write_cycle :: "batch_statement \<Rightarrow> bool \<Rightarrow> bytes list \<Rightarrow> bytes list \<Rightarrow> wire \<Rightarrow> wire" where
  "write_cycle bt created ids rows w =
     (let w = (if created then w else write_batch_create (bt_handle bt) (bt_format bt) (bt_pb bt) w);
          w = fold (write_batch_regblob (bt_handle bt)) ids w
      in flush (write_batch_exec (bt_handle bt) (bt_tx bt) (write_batch_msg (bt_handle bt) rows w)))"

definition cycle_exchange :: "batch_statement \<Rightarrow> bool \<Rightarrow> bytes list \<Rightarrow> bytes list \<Rightarrow> batch_completion rd" where
  "cycle_exchange bt created ids rows = (\<lambda>w.
     case read_responses ((if created then 0 else 1) + length ids + 1) (write_cycle bt created ids rows w) of
       (Some (inbound, e), w) \<Rightarrow> (Inl e, (mark_deferred ^^ inbound) w)
     | (None, w) \<Rightarrow> read_batch_completion w)"

definition combine :: "nat \<Rightarrow> batch_completion \<Rightarrow> batch_result \<Rightarrow> batch_result" where
  "combine n c r = r\<lparr>br_row_count := br_row_count r + n,
     br_rows_affected := br_rows_affected r + sum_list (filter (\<lambda>u. 0 < u) (bc_update_counts c)),
     br_update_counts := br_update_counts r @ bc_update_counts c,
     br_errors := br_errors r @ map (\<lambda>(i, e). (int (br_row_count r) + i, e)) (bc_errors c)\<rparr>"

definition row_failed :: "int \<times> err option \<Rightarrow> err" where
  "row_failed f = (case f of (i, e) \<Rightarrow>
     let msg = ''batch row '' @ dec_int i @ '' failed: '' @ (case e of Some x \<Rightarrow> error_message x | None \<Rightarrow> ''unknown error'') in
     case e of Some (FbError cls m gds sqlstate args) \<Rightarrow> FbError FirebirdBatchError msg gds sqlstate args
     | _ \<Rightarrow> FbError FirebirdBatchError msg None None [])"

definition exec_cycle :: "batch_statement \<Rightarrow> (batch_state, unit) act" where
  "exec_cycle bt = (\<lambda>s.
     sn_bind (sn_do (\<lambda>s. s\<lparr>bs_created := True\<rparr>)) (\<lambda>_.
     sn_bind (on_batch (sn_wire (cycle_exchange bt (bs_created s) (bs_blob_ids s) (bs_rows s)))) (\<lambda>c.
     sn_bind (sn_do (\<lambda>s. s\<lparr>bs_combined := combine (length (bs_rows s)) c (bs_combined s), bs_rows := [], bs_blob_ids := [], bs_seen := []\<rparr>))
       (\<lambda>_ s. (if \<not> bt_continue bt \<and> br_errors (bs_combined s) \<noteq> [] then Inl (row_failed (hd (br_errors (bs_combined s)))) else Inr (), s)))) s)"

text \<open>Blob ids are registered once in a cycle.\<close>

definition register_blob :: "bytes \<Rightarrow> batch_state \<Rightarrow> batch_state" where
  "register_blob bid s = (if hex_str bid \<in> set (bs_seen s) then s
     else s\<lparr>bs_blob_ids := bs_blob_ids s @ [bid], bs_seen := hex_str bid # bs_seen s\<rparr>)"

definition register_blobs :: "nat list \<Rightarrow> param_value list \<Rightarrow> batch_state \<Rightarrow> batch_state" where
  "register_blobs is vs = fold (\<lambda>i. case at vs i of Some (PBlobRef bid) \<Rightarrow> register_blob bid | _ \<Rightarrow> id) is"

definition in_row :: "nat \<Rightarrow> bytes res \<Rightarrow> bytes res" where
  "in_row i r = (case r of
     Inl (FbError cls msg gds sqlstate args) \<Rightarrow> Inl (if cls = FirebirdBatchError then FbError cls msg gds sqlstate args
       else FbError FirebirdError (''batch row '' @ dec_nat i @ '': '' @ msg) gds sqlstate args)
   | _ \<Rightarrow> r)"

definition batch_row ::
  "environment \<Rightarrow> resolved_options \<Rightarrow> batch_statement \<Rightarrow> prepared_statement \<Rightarrow> string list \<Rightarrow> int \<Rightarrow> nat \<Rightarrow> query_params \<Rightarrow> (batch_state, unit) act" where
  "batch_row en opts bt st names chunk i row =
     sn_bind (sn_lift (bind_row row names i)) (\<lambda>args.
     sn_bind (on_batch (prepare_params en opts (bt_tx bt) st args)) (\<lambda>(vs, codecs).
     sn_bind (sn_do (register_blobs (bm_blobs (bt_format bt)) vs)) (\<lambda>_.
     sn_bind (sn_lift (in_row i (encode_batch_row (bt_format bt) vs (encode_text_with codecs)))) (\<lambda>b.
     sn_bind (sn_do (\<lambda>s. s\<lparr>bs_rows := bs_rows s @ [b]\<rparr>)) (\<lambda>_ s.
       if chunk \<le> int (length (bs_rows s)) * bm_stride (bt_format bt) then exec_cycle bt s else (Inr (), s))))))"

fun batch_rows_loop ::
  "environment \<Rightarrow> resolved_options \<Rightarrow> batch_statement \<Rightarrow> prepared_statement \<Rightarrow> string list \<Rightarrow> int \<Rightarrow> nat \<Rightarrow> query_params list \<Rightarrow> (batch_state, unit) act" where
  "batch_rows_loop en opts bt st names chunk i [] = (\<lambda>s. if bs_rows s \<noteq> [] then exec_cycle bt s else (Inr (), s))"
| "batch_rows_loop en opts bt st names chunk i (r # rs) =
     sn_bind (batch_row en opts bt st names chunk i r) (\<lambda>_. batch_rows_loop en opts bt st names chunk (Suc i) rs)"

definition no_result :: batch_result where
  "no_result = \<lparr>br_row_count = 0, br_rows_affected = 0, br_update_counts = [], br_errors = []\<rparr>"

definition batch_start :: "session \<Rightarrow> batch_state" where
  "batch_start s = \<lparr>bs_session = s, bs_combined = no_result, bs_created = False, bs_rows = [], bs_blob_ids = [], bs_seen = []\<rparr>"

definition release_created :: "int \<Rightarrow> batch_state \<Rightarrow> batch_state" where
  "release_created h s = (if bs_created s then s\<lparr>bs_session := on_wire (write_batch_release h) (bs_session s)\<rparr> else s)"

definition batch_statement_of :: "prepared_statement \<Rightarrow> int \<Rightarrow> batch_format \<Rightarrow> batch_options \<Rightarrow> batch_statement" where
  "batch_statement_of st tx fm bo = \<lparr>bt_handle = ps_handle st, bt_format = fm,
     bt_pb = build_batch_pb \<lparr>bp_multi_error = bo_continue_on_error bo, bp_record_counts = True,
       bp_blob_policy = (if bm_blobs fm \<noteq> [] then Some (blob_policy_code Policy_id_user) else None), bp_detailed_errors = bo_detailed_errors bo\<rparr>,
     bt_tx = tx, bt_continue = bo_continue_on_error bo\<rparr>"

definition chunk_bytes :: "batch_format \<Rightarrow> batch_options \<Rightarrow> int" where
  "chunk_bytes fm bo = max (bm_stride fm) (or_default DEFAULT_CHUNK_BYTES (bo_chunk_bytes bo))"

text \<open>The run with its final state, which an error's fields show too.\<close>

definition run_batch_state ::
  "environment \<Rightarrow> resolved_options \<Rightarrow> int \<Rightarrow> prepared_statement \<Rightarrow> query_params list \<Rightarrow> string list \<Rightarrow> batch_options \<Rightarrow> batch_format
     \<Rightarrow> (batch_state, unit) act" where
  "run_batch_state en opts tx st rows names bo fm =
     sn_finally (release_created (ps_handle st))
       (batch_rows_loop en opts (batch_statement_of st tx fm bo) st names (chunk_bytes fm bo) 0 rows)"

definition run_batch ::
  "environment \<Rightarrow> resolved_options \<Rightarrow> int \<Rightarrow> prepared_statement \<Rightarrow> query_params list \<Rightarrow> string list \<Rightarrow> batch_options
     \<Rightarrow> (session, batch_result) act" where
  "run_batch en opts tx st rows names bo =
     sn_bind (sn_lift (build_batch_format en (d_inputs (ps_description st)))) (\<lambda>fm s.
       case run_batch_state en opts tx st rows names bo fm (batch_start s) of
         (r, b) \<Rightarrow> (rthen r (\<lambda>_. Inr (bs_combined b)), bs_session b))"

subsection \<open>Entry points\<close>

definition batch_version_error :: "int \<Rightarrow> err" where
  "batch_version_error v = fb_error (''executeBatch requires Firebird 4+ (wire protocol 16); this server negotiated protocol ''
     @ dec_int v @ ''. On Firebird 3, loop a prepared statement instead.'')"

definition execute_batch_prepared ::
  "environment \<Rightarrow> resolved_options \<Rightarrow> int \<Rightarrow> prepared_statement \<Rightarrow> query_params list \<Rightarrow> string list \<Rightarrow> batch_options
     \<Rightarrow> (session, batch_result) act" where
  "execute_batch_prepared en opts tx st rows names bo = (\<lambda>s.
     let d = ps_description st in
     if w_version (s_wire s) < 16 then (Inl (batch_version_error (w_version (s_wire s))), s)
     else if \<not> batchable (d_stmt_type d)
     then (Inl (fb_error ''executeBatch supports INSERT/UPDATE/DELETE/EXECUTE PROCEDURE statements''), s)
     else if d_outputs d \<noteq> []
     then (Inl (fb_error (''executeBatch does not support RETURNING '' @ em_dash @ '' run those statements individually'')), s)
     else if d_inputs d = [] then (Inl (fb_error ''executeBatch requires a statement with parameters''), s)
     else run_batch en opts tx st rows names bo s)"

definition execute_batch_statement ::
  "environment \<Rightarrow> resolved_options \<Rightarrow> int \<Rightarrow> string \<Rightarrow> query_params list \<Rightarrow> batch_options \<Rightarrow> (session, batch_result) act" where
  "execute_batch_statement en opts tx sql rows bo = (\<lambda>s.
     if w_version (s_wire s) < 16 then (Inl (batch_version_error (w_version (s_wire s))), s)
     else case rewrite_named_params sql of (wire_sql, names) \<Rightarrow>
       sn_bind (cache_get wire_sql) (\<lambda>found.
       sn_bind (case found of Some so \<Rightarrow> sn_return so | None \<Rightarrow> prepare_info en opts tx wire_sql) (\<lambda>so.
         sn_catch (sn_bind (execute_batch_prepared en opts tx (so_info so) rows names bo) (\<lambda>r.
             sn_bind (sn_do (finish_statement wire_sql so)) (\<lambda>_. sn_return r)))
           (\<lambda>e. sn_bind (sn_do (stream_failed wire_sql so (found \<noteq> None) False)) (\<lambda>_. sn_lift (Inl e))))) s)"

definition tx_execute_batch ::
  "environment \<Rightarrow> resolved_options \<Rightarrow> nat \<Rightarrow> string \<Rightarrow> query_params list \<Rightarrow> batch_options \<Rightarrow> (attachment, batch_result) act" where
  "tx_execute_batch en opts t sql rows bo = sn_bind (assert_active t) (\<lambda>_ a.
     on_session (execute_batch_statement en opts (tn_handle (tx_of a t)) sql rows bo) a)"

definition att_execute_batch ::
  "environment \<Rightarrow> resolved_options \<Rightarrow> string \<Rightarrow> query_params list \<Rightarrow> batch_options \<Rightarrow> (attachment, batch_result) act" where
  "att_execute_batch en opts sql rows bo =
     in_own_transaction opts (Some (no_options\<lparr>to_read_only := Some False\<rparr>)) (\<lambda>t a.
       on_session (execute_batch_statement en opts (tn_handle (tx_of a t)) sql rows bo) a)"

definition prepared_batch_in ::
  "environment \<Rightarrow> resolved_options \<Rightarrow> prepared_object \<Rightarrow> query_params list \<Rightarrow> batch_options \<Rightarrow> nat \<Rightarrow> (attachment, batch_result) act" where
  "prepared_batch_in en opts p rows bo t = (\<lambda>a.
     on_session (execute_batch_prepared en opts (tn_handle (tx_of a t)) (po_info p) rows (po_names p) bo) a)"

definition prepared_execute_batch ::
  "environment \<Rightarrow> resolved_options \<Rightarrow> prepared_object \<Rightarrow> query_params list \<Rightarrow> nat option \<Rightarrow> batch_options \<Rightarrow> (attachment, batch_result) act" where
  "prepared_execute_batch en opts p rows tx bo = sn_bind (assert_open p) (\<lambda>_. case tx of
     Some t \<Rightarrow> prepared_batch_in en opts p rows bo t
   | None \<Rightarrow> in_own_transaction opts None (prepared_batch_in en opts p rows bo))"

end
