(* ===== verification/Batch_Rows.thy ===== *)
theory Batch_Rows
  imports Batch_Format Session_Runs
begin

text \<open>
  What the server makes of a batch: the fields of the BLR, the length of its own message for
  them, and the values of a row, all determined by the BLR that was sent.
\<close>

subsection \<open>The engine's message\<close>

text \<open>Size and alignment of a field in the engine's layout.\<close>

fun engine_field :: "batch_blr \<Rightarrow> int \<times> int" where
  "engine_field (BField (FLen t n)) = (n + 2, 2)"
| "engine_field (BField (FScale t s)) = (if t = Blr_long then (4, 4) else if t = Blr_int64 then (8, 8)
     else if t = Blr_int128 then (16, 8) else (8, 4))"
| "engine_field (BField (FBare t)) = (if t = Blr_float then (4, 4) else if t = Blr_double \<or> t = Blr_dec64 then (8, 8)
     else if t = Blr_dec128 then (16, 8) else if t = Blr_timestamp_tz then (12, 4) else if t = Blr_bool then (1, 1) else (8, 4))"
| "engine_field (BBlob sub charset) = (8, 4)"

definition round_up :: "int \<Rightarrow> int \<Rightarrow> int" where
  "round_up n a = - ((- n) div a) * a"

text \<open>Every field at its alignment, then a null indicator of two bytes.\<close>

fun engine_length :: "int \<Rightarrow> batch_blr list \<Rightarrow> int" where
  "engine_length n [] = n"
| "engine_length n (f # fs) = (case engine_field f of (len, al) \<Rightarrow> engine_length (round_up (round_up n al + len) 2 + 2) fs)"

subsection \<open>Reading the BLR and a row\<close>

definition parse_batch_field :: "bytes \<Rightarrow> (batch_blr \<times> bytes) option" where
  "parse_batch_field bs = (case bs of
     b # s0 # s1 # c0 # c1 # r \<Rightarrow> if b = 17 then Some (BBlob (le_val [s0, s1]) (le_val [c0, c1]), r)
       else map_option (\<lambda>(f, r). (BField f, r)) (parse_field bs)
   | _ \<Rightarrow> map_option (\<lambda>(f, r). (BField f, r)) (parse_field bs))"

fun parse_batch_fields :: "nat \<Rightarrow> bytes \<Rightarrow> batch_blr list option" where
  "parse_batch_fields 0 bs = (if bs = [255, 76] then Some [] else None)"
| "parse_batch_fields (Suc n) bs =
     (case parse_batch_field bs of
        Some (f, s0 # s1 # r) \<Rightarrow> if s0 = 7 \<and> s1 = 0 then map_option ((#) f) (parse_batch_fields n r) else None
      | _ \<Rightarrow> None)"

definition parse_batch_blr :: "bytes \<Rightarrow> batch_blr list option" where
  "parse_batch_blr bs =
     (case bs of a # b # c # d # l # h # r \<Rightarrow>
        if a = 5 \<and> b = 2 \<and> c = 4 \<and> d = 0 \<and> even (le_val [l, h])
        then parse_batch_fields (nat (le_val [l, h]) div 2) r else None
      | _ \<Rightarrow> None)"

text \<open>The width of a value in a row; a varying one is counted.\<close>

fun value_width :: "batch_blr \<Rightarrow> nat option" where
  "value_width (BField (FLen t n)) = None"
| "value_width f = Some (nat (fst (engine_field f)))"

definition read_batch_value :: "batch_blr \<Rightarrow> bytes \<Rightarrow> (bytes \<times> bytes) option" where
  "read_batch_value f bs = (case value_width f of
     Some n \<Rightarrow> if length bs < pad4n n then None else Some (take n bs, drop (pad4n n) bs)
   | None \<Rightarrow> if length bs < 4 then None else
       (let n = nat (be_val (take 4 bs)); r = drop 4 bs in
        if length r < pad4n n then None else Some (take n r, drop (pad4n n) r)))"

fun read_batch_values :: "bytes \<Rightarrow> nat \<Rightarrow> batch_blr list \<Rightarrow> bytes \<Rightarrow> bytes option list option" where
  "read_batch_values bm i [] bs = (if bs = [] then Some [] else None)"
| "read_batch_values bm i (f # fs) bs =
     (if null_bit bm i then map_option ((#) None) (read_batch_values bm (Suc i) fs bs)
      else case read_batch_value f bs of None \<Rightarrow> None
        | Some (v, r) \<Rightarrow> map_option ((#) (Some v)) (read_batch_values bm (Suc i) fs r))"

definition read_batch_row :: "batch_blr list \<Rightarrow> bytes \<Rightarrow> bytes option list option" where
  "read_batch_row fs row = (let bl = bitmap_len (length fs) in read_batch_values (take bl row) 0 fs (drop (pad4n bl) row))"

subsection \<open>Layout\<close>

lemma round_up_mod:
  assumes "0 < a"
  shows "n + a - 1 - (n + a - 1) mod a = round_up n a"
proof -
  have "a * (- n div a) + - n mod a = - n" by (rule mult_div_mod_eq)
  then have eq: "n + a - 1 = a * - (- n div a) + (a - 1 - - n mod a)" by (simp add: algebra_simps)
  have "(n + a - 1) mod a = a - 1 - - n mod a"
    using pos_mod_bound [OF assms, of "- n"] pos_mod_sign [OF assms, of "- n"] by (intro int_mod_pos_eq [OF eq]) linarith+
  moreover have "n + a - 1 = - (a * (- n div a)) + (a - 1 - - n mod a)" using eq by simp
  ultimately have "n + a - 1 - (n + a - 1) mod a = - (a * (- n div a))" by linarith
  then show ?thesis by (simp add: round_up_def mult.commute)
qed

lemma fb_align_round_up:
  assumes "0 \<le> n" and "n \<le> 2147483640" and "a = 2 \<or> a = 4 \<or> a = 8"
  shows "fb_align n a = round_up n a"
proof -
  have "to_int32 (n + a - 1) = n + a - 1" using assms by (intro to_int32_id) auto
  then have "fb_align n a = n + a - 1 - (n + a - 1) mod a" by (simp add: fb_align_def Let_def)
  then show ?thesis using assms(3) round_up_mod [of a n] by auto
qed

lemma round_up_bound:
  assumes "0 < a"
  shows "n \<le> round_up n a \<and> round_up n a < n + a"
proof -
  have "a * (- n div a) + - n mod a = - n" by (rule mult_div_mod_eq)
  moreover have "round_up n a = - (a * (- n div a))" by (simp add: round_up_def)
  ultimately show ?thesis using pos_mod_bound [OF assms, of "- n"] pos_mod_sign [OF assms, of "- n"] by linarith
qed

definition field_fits :: "batch_field \<Rightarrow> bool" where
  "field_fits f = (engine_field (bf_blr f) = (bf_length f, bf_alignment f) \<and> 0 \<le> bf_length f \<and> bf_length f \<le> 65537
     \<and> (bf_alignment f = 1 \<or> bf_alignment f = 2 \<or> bf_alignment f = 4 \<or> bf_alignment f = 8))"

lemma add_field_engine:
  assumes "field_fits f" and "0 \<le> n" and "n \<le> 2147000000"
  shows "add_field n (bf_length f) (bf_alignment f) = round_up (round_up n (bf_alignment f) + bf_length f) 2 + 2"
    and "add_field n (bf_length f) (bf_alignment f) \<le> n + 65550" and "0 \<le> add_field n (bf_length f) (bf_alignment f)"
proof -
  have al: "(if 1 < bf_alignment f then fb_align n (bf_alignment f) else n) = round_up n (bf_alignment f)"
    using assms fb_align_round_up [of n "bf_alignment f"] by (auto simp: field_fits_def round_up_def)
  have b: "n \<le> round_up n (bf_alignment f)" "round_up n (bf_alignment f) < n + 8"
    using assms round_up_bound [of "bf_alignment f" n] by (auto simp: field_fits_def)
  have len: "0 \<le> bf_length f" "bf_length f \<le> 65537" using assms(1) by (simp_all add: field_fits_def)
  have b2: "0 \<le> round_up n (bf_alignment f) + bf_length f" "round_up n (bf_alignment f) + bf_length f \<le> 2147483640"
    using b len assms by linarith+
  note r2 = fb_align_round_up [OF b2, of 2] round_up_bound [of 2 "round_up n (bf_alignment f) + bf_length f", simplified]
  show "add_field n (bf_length f) (bf_alignment f) = round_up (round_up n (bf_alignment f) + bf_length f) 2 + 2"
    "add_field n (bf_length f) (bf_alignment f) \<le> n + 65550" "0 \<le> add_field n (bf_length f) (bf_alignment f)"
    using r2 b b2 len unfolding add_field_def al by (simp, linarith+)
qed

lemma msglen_engine:
  assumes "list_all field_fits fs" and "0 \<le> n" and "n + 65550 * int (length fs) \<le> 2147000000"
  shows "foldl (\<lambda>m f. add_field m (bf_length f) (bf_alignment f)) n fs = engine_length n (map bf_blr fs)"
  using assms
proof (induction fs arbitrary: n)
  case (Cons f fs)
  note add = add_field_engine [of f n]
  have "n \<le> 2147000000" using Cons.prems by simp
  then show ?case
    using Cons.prems add Cons.IH [of "add_field n (bf_length f) (bf_alignment f)"] by (simp add: field_fits_def)
qed simp

subsection \<open>Fields\<close>

lemma batch_field_fits:
  assumes "batch_field_of en i d = Inr f" and "0 \<le> v_length d" and "v_length d \<le> 65535"
  shows "field_fits f"
  using assms by (auto simp: batch_field_of_def Let_def field_fits_def split: option.splits sql_type.splits)

definition blr_fits :: "batch_blr \<Rightarrow> bool" where
  "blr_fits f = (case f of BField g \<Rightarrow> field_ok g | BBlob s c \<Rightarrow> 0 \<le> s \<and> s < 65536 \<and> 0 \<le> c \<and> c < 65536)"

lemma batch_codes:
  "blr_of (blr_code Blr_varying) = Some Blr_varying" "blr_of (blr_code Blr_long) = Some Blr_long"
  "blr_of (blr_code Blr_int64) = Some Blr_int64" "blr_of (blr_code Blr_int128) = Some Blr_int128"
  "blr_of (blr_code Blr_quad) = Some Blr_quad" "blr_of (blr_code Blr_float) = Some Blr_float"
  "blr_of (blr_code Blr_double) = Some Blr_double" "blr_of (blr_code Blr_timestamp) = Some Blr_timestamp"
  "blr_of (blr_code Blr_timestamp_tz) = Some Blr_timestamp_tz" "blr_of (blr_code Blr_sql_time_tz) = Some Blr_sql_time_tz"
  "blr_of (blr_code Blr_dec64) = Some Blr_dec64" "blr_of (blr_code Blr_dec128) = Some Blr_dec128"
  "blr_of (blr_code Blr_bool) = Some Blr_bool"
  by (simp_all add: blr_of_def)

lemma batch_field_blr:
  assumes "batch_field_of en i d = Inr f" and "0 \<le> v_length d" "v_length d \<le> 65535" "- 128 \<le> v_scale d" "v_scale d < 128"
    and "0 \<le> v_sub_type d" "v_sub_type d < 65536"
  shows "blr_fits (bf_blr f)"
proof -
  have "0 \<le> v_scale d mod 256" "v_scale d mod 256 < 65536" by (simp_all add: order.strict_trans2 [OF pos_mod_bound])
  then show ?thesis
    using assms by (auto simp: batch_field_of_def Let_def blr_fits_def batch_codes with_length_def with_scale_def
      simp del: blr_code.simps split: option.splits sql_type.splits)
qed

lemma parse_batch_field_enc:
  assumes "blr_fits f"
  shows "parse_batch_field (enc_batch_blr f @ 7 # 0 # r) = Some (f, 7 # 0 # r)"
proof (cases f)
  case (BBlob s c)
  have "le_val (le_bytes 2 s) = s" "le_val (le_bytes 2 c) = c"
    using assms BBlob by (simp_all add: blr_fits_def le_val_le_bytes del: le_bytes.simps le_val.simps)
  moreover obtain s0 s1 c0 c1 where "le_bytes 2 s = [s0, s1]" "le_bytes 2 c = [c0, c1]" by (simp add: numeral_2_eq_2)
  ultimately show ?thesis
    using BBlob by (simp add: parse_batch_field_def blr_byte_def blr_word_def del: le_bytes.simps le_val.simps)
next
  case (BField g)
  have g: "field_ok g" using assms BField by (simp add: blr_fits_def)
  then obtain t e where e: "enc_field g = word_of_int (blr_code t) # e" and t: "blr_of (blr_code t) = Some t"
    by (cases g) (simp_all add: blr_byte_def)
  have "uint (word_of_int (blr_code t) :: byte) = blr_code t" using blr_code_byte [OF t] by (simp add: uint_byte_of_int)
  moreover have "blr_of 17 = None" by (simp add: blr_of_def)
  ultimately have "(word_of_int (blr_code t) :: byte) \<noteq> 17" using t by auto
  then show ?thesis
    using parse_field_enc [OF g, of "7 # 0 # r"] BField unfolding e
    by (auto simp: parse_batch_field_def e split: list.split)
qed

lemma parse_batch_fields_enc:
  "list_all blr_fits fs \<Longrightarrow> parse_batch_fields (length fs) (concat (map (\<lambda>f. enc_batch_blr f @ null_slot) fs) @ blr_footer) = Some fs"
proof (induction fs)
  case Nil
  then show ?case by (simp add: blr_footer_def blr_byte_def)
next
  case (Cons f fs)
  then show ?case
    using parse_batch_field_enc [of f] by (simp add: null_slot_def blr_byte_def)
qed

lemma parse_batch_blr_enc:
  assumes "list_all (\<lambda>f. blr_fits (bf_blr f)) fs" and "length fs < 32768"
  shows "parse_batch_blr (bm_blr (format_of_fields fs)) = Some (map bf_blr fs)"
proof -
  have "le_val (le_bytes 2 (int (length fs) * 2)) = int (length fs) * 2"
    using assms(2) by (simp add: le_val_le_bytes del: le_bytes.simps le_val.simps)
  moreover obtain l h where "le_bytes 2 (int (length fs) * 2) = [l, h]" by (simp add: numeral_2_eq_2)
  moreover have "list_all blr_fits (map bf_blr fs)" using assms(1) by (simp add: list_all_iff)
  ultimately show ?thesis
    using parse_batch_fields_enc [of "map bf_blr fs"]
    by (simp add: parse_batch_blr_def format_of_fields_def blr_header_def blr_byte_def blr_word_def nat_mult_distrib comp_def
        del: le_bytes.simps le_val.simps)
qed

subsection \<open>Rows\<close>

text \<open>What a writer writes, the server reads, and no more.\<close>

definition frames :: "batch_field \<Rightarrow> bool" where
  "frames f = (\<forall>v enc b. bf_writer f v enc = Inr b \<longrightarrow> param_ok v \<longrightarrow> (\<exists>x. \<forall>r. read_batch_value (bf_blr f) (b @ r) = Some (x, r)))"

lemma read_fixed: "value_width f = Some n \<Longrightarrow> length b = pad4n n \<Longrightarrow> read_batch_value f (b @ r) = Some (take n (b @ r), r)"
  by (simp add: read_batch_value_def)

lemma frames_fixed:
  assumes "value_width (bf_blr f) = Some n" and "\<And>v enc b. bf_writer f v enc = Inr b \<Longrightarrow> param_ok v \<Longrightarrow> length b = pad4n n"
  shows "frames f"
proof -
  have "read_batch_value (bf_blr f) (b @ r) = Some (take n b, r)" if "bf_writer f v enc = Inr b" "param_ok v" for v enc b r
    using read_fixed [OF assms(1) assms(2) [OF that]] assms(2) [OF that] pad4n_ge [of n] by simp
  then show ?thesis unfolding frames_def by blast
qed

lemma frames_text:
  assumes "bf_blr f = BField (FLen t n)" and "bf_writer f = write_text en i ctx cap" and "cap \<le> 65535"
  shows "frames f"
proof -
  have "\<exists>x. \<forall>r. read_batch_value (bf_blr f) (b @ r) = Some (x, r)" if "bf_writer f v enc = Inr b" for v enc b
  proof -
    have "write_text en i ctx cap v enc = Inr b" using that assms(2) by simp
    then obtain x where x: "b = enc_opaque x" "int (length x) \<le> cap"
      by (auto simp: write_text_def rthen_eq_Inr split: if_splits)
    then have "be_val (enc_uint32 (int (length x))) = int (length x)" using assms(3) by simp
    then show ?thesis
      using assms(1) pad4n_ge [of "length x"] by (intro exI [of _ x]) (auto simp: x(1) read_batch_value_def enc_opaque_def enc_opaque_fixed_def Let_def)
  qed
  then show ?thesis unfolding frames_def by blast
qed

lemma length_ieee [simp]: "length (write_float v) = 4" "length (write_double v) = 8"
  by (simp_all add: write_float_def write_double_def ieee_bytes_def Let_def)

lemma writer_lengths:
  "write_scaled en ctx k 4 v enc = Inr b \<Longrightarrow> length b = 4"
  "write_scaled en ctx k 8 v enc = Inr b \<Longrightarrow> length b = 8"
  "write_scaled en ctx k 16 v enc = Inr b \<Longrightarrow> length b = 16"
  "write_timestamp en ctx v enc = Inr b \<Longrightarrow> length b = 8"
  "write_timestamp_tz ctx v enc = Inr b \<Longrightarrow> length b = 12"
  "write_time_tz ctx v enc = Inr b \<Longrightarrow> length b = 8"
  "write_blob_id ctx v enc = Inr b \<Longrightarrow> param_ok v \<Longrightarrow> length b = 8"
  "write_decfloat ctx n v enc = Inr b \<Longrightarrow> length b = n"
  "write_bool ctx v enc = Inr b \<Longrightarrow> length b = 4"
  by (auto simp: write_scaled_def write_timestamp_def write_timestamp_tz_def write_time_tz_def write_blob_id_def write_decfloat_def
      write_bool_def rthen_eq_Inr enc_int64_def pad4n_def case_prod_beta split: param_value.splits if_splits)

lemma batch_field_frames:
  assumes "batch_field_of en i d = Inr f" and "0 \<le> v_length d" "v_length d \<le> 65535"
  shows "frames f"
proof (cases "\<exists>t n. bf_blr f = BField (FLen t n)")
  case True
  then have "bf_writer f = write_text en i (batch_parameter i) (v_length d) \<or> bf_writer f = write_text en i (batch_parameter i) 0"
    using assms(1) by (auto simp: batch_field_of_def Let_def split: option.splits sql_type.splits)
  then obtain cap where "bf_writer f = write_text en i (batch_parameter i) cap" "cap \<le> 65535" using assms(3) by fastforce
  then show ?thesis using True frames_text by blast
next
  case False
  then show ?thesis
    using assms(1)
    by (auto simp: batch_field_of_def Let_def rthen_eq_Inr pad4n_def dest: writer_lengths split: option.splits sql_type.splits intro!: frames_fixed)
qed

text \<open>What the server reads of a value.\<close>

definition batch_image :: "text_encoder \<Rightarrow> param_value list \<Rightarrow> nat \<Rightarrow> batch_field \<Rightarrow> bytes option" where
  "batch_image enc vs k f = (if is_null_at vs k then None
     else case bf_writer f (vs ! k) enc of Inr b \<Rightarrow> map_option fst (read_batch_value (bf_blr f) b) | Inl e \<Rightarrow> None)"

lemma read_row_values:
  assumes "write_row i (map bf_writer fs) vs enc = Inr d" and "list_all frames fs" and "list_all param_ok vs"
    and "\<forall>k < length fs. null_bit bm (i + k) = is_null_at vs (i + k)"
  shows "read_batch_values bm i (map bf_blr fs) d = Some (map2 (batch_image enc vs) [i..<i + length fs] fs)"
  using assms
proof (induction fs arbitrary: i d)
  case (Cons f fs)
  have bit: "null_bit bm i = is_null_at vs i" using Cons.prems(4) by (metis add_0_right length_greater_0_conv list.distinct(1))
  have bits: "\<forall>k < length fs. null_bit bm (Suc i + k) = is_null_at vs (Suc i + k)" using Cons.prems(4) by (auto dest: spec [of _ "Suc _"])
  note IH = Cons.IH [of "Suc i" _, OF _ _ Cons.prems(3) bits]
  show ?case
  proof (cases "is_null_at vs i")
    case True
    then show ?thesis
      using Cons.prems(1,2) IH bit unfolding map2_upt_Cons by (simp add: batch_image_def [of enc vs i f] del: upt_Suc)
  next
    case False
    then obtain b e where b: "bf_writer f (vs ! i) enc = Inr b" "write_row (Suc i) (map bf_writer fs) vs enc = Inr e" "d = b @ e"
      using Cons.prems(1) by (auto simp: rthen_eq_Inr)
    have "i < length vs" using False by (auto simp: is_null_at_def at_def split: if_splits)
    then have "param_ok (vs ! i)" using Cons.prems(3) by (simp add: list_all_length)
    moreover have "frames f" using Cons.prems(2) by simp
    ultimately obtain x where x: "\<And>r. read_batch_value (bf_blr f) (b @ r) = Some (x, r)"
      using b(1) unfolding frames_def by blast
    have "batch_image enc vs i f = Some x" using x [of "[]"] b(1) False by (simp add: batch_image_def)
    then show ?thesis
      using IH [OF b(2)] Cons.prems(2) bit False x unfolding map2_upt_Cons b(3) by (simp del: upt_Suc)
  qed
qed simp

lemma null_bits_bit:
  "n \<le> 8 * length bm \<Longrightarrow> k div 8 < length bm \<Longrightarrow> null_bit (null_bits n p bm) k = (null_bit bm k \<or> (k < n \<and> p k))
   \<and> length (null_bits n p bm) = length bm"
proof (induction n)
  case (Suc n)
  then have "n div 8 < length bm" by simp
  with Suc show ?case by (auto simp: null_bit_set less_Suc_eq)
qed simp

lemma read_row_back:
  assumes "encode_batch_row (format_of_fields fs) vs enc = Inr row" and "list_all frames fs" and "list_all param_ok vs"
  shows "read_batch_row (map bf_blr fs) row = Some (map2 (batch_image enc vs) [0..<length fs] fs)"
proof -
  let ?n = "length fs" and ?p = "is_null_at vs"
  define bm where "bm = null_bits ?n ?p (replicate (bitmap_len ?n) 0)"
  obtain d where d: "write_row 0 (map bf_writer fs) vs enc = Inr d" "row = enc_opaque_fixed bm @ d"
    using assms(1) by (auto simp: encode_batch_row_def format_of_fields_def Let_def rthen_eq_Inr bm_def)
  have len: "length bm = bitmap_len ?n"
    using null_bits_bit [of ?n "replicate (bitmap_len ?n) 0" 0 ?p] bitmap_len_le [of ?n] unfolding bm_def by (cases "?n = 0") auto
  have "null_bit bm k = ?p k" if "k < ?n" for k
    using that bitmap_len_le [of ?n] null_bits_bit [of ?n "replicate (bitmap_len ?n) 0" k ?p] unfolding bm_def by simp
  then have "read_batch_values bm 0 (map bf_blr fs) d = Some (map2 (batch_image enc vs) [0..<0 + ?n] fs)"
    using d(1) assms(2,3) by (intro read_row_values) simp_all
  moreover have "take (bitmap_len ?n) row = bm" "drop (pad4n (bitmap_len ?n)) row = d"
    using len pad4n_ge [of "bitmap_len ?n"] by (simp_all add: d(2) enc_opaque_fixed_def)
  ultimately show ?thesis by (simp add: read_batch_row_def Let_def)
qed

subsection \<open>The format of described parameters\<close>

text \<open>What the protocol keeps a description's numbers to.\<close>

definition desc_fits :: "sql_var_desc option \<Rightarrow> bool" where
  "desc_fits d' = (case d' of None \<Rightarrow> True | Some d \<Rightarrow> 0 \<le> v_length d \<and> v_length d \<le> 65535 \<and> - 128 \<le> v_scale d \<and> v_scale d < 128
     \<and> 0 \<le> v_sub_type d \<and> v_sub_type d < 65536)"

lemma batch_fields_ok:
  assumes "batch_fields en i ds = Inr fs" and "list_all desc_fits ds"
  shows "length fs = length ds \<and> list_all field_fits fs \<and> list_all (\<lambda>f. blr_fits (bf_blr f)) fs \<and> list_all frames fs"
  using assms
  by (induction en i ds arbitrary: fs rule: batch_fields.induct)
    (auto simp: rthen_eq_Inr desc_fits_def batch_field_fits batch_field_blr batch_field_frames)

subsection \<open>Properties\<close>

text \<open>
  C24. The message format of a batch is one the server agrees with. The BLR declares a field
  for each described parameter; the declared message length is the length of the
  engine's own layout of these fields, each at its alignment and followed by its null
  indicator; and every encoded row, read along the BLR, gives back a value for each
  field, null exactly where the row has null or nothing, and ends where the next row begins.
\<close>

theorem batch_format_agrees:
  assumes "build_batch_format en inputs = Inr fm" and "list_all desc_fits inputs" and "length inputs \<le> 32000"
  shows "\<exists>fs. parse_batch_blr (bm_blr fm) = Some (map bf_blr fs) \<and> length fs = length inputs
    \<and> bm_msglen fm = engine_length 0 (map bf_blr fs)
    \<and> (\<forall>vs enc row. list_all param_ok vs \<and> encode_batch_row fm vs enc = Inr row
        \<longrightarrow> read_batch_row (map bf_blr fs) row = Some (map2 (batch_image enc vs) [0..<length fs] fs))"
proof -
  obtain fs where fs: "batch_fields en 0 inputs = Inr fs" "fm = format_of_fields fs"
    using assms(1) by (auto simp: build_batch_format_def rthen_eq_Inr)
  note ok = batch_fields_ok [OF fs(1) assms(2)]
  have "bm_msglen fm = engine_length 0 (map bf_blr fs)"
    using ok assms(3) msglen_engine [of fs 0] by (simp add: fs(2) format_of_fields_def batch_msglen_def)
  moreover have "parse_batch_blr (bm_blr fm) = Some (map bf_blr fs)"
    using ok assms(3) parse_batch_blr_enc [of fs] by (simp add: fs(2))
  ultimately show ?thesis using ok read_row_back unfolding fs(2) by blast
qed

text \<open>The witness: an integer and a text column, a row with a value and a null.\<close>

definition two_columns :: "sql_var_desc option list" where
  "two_columns = [Some (new_var\<lparr>v_type := 496, v_length := 4, v_scale := - 2\<rparr>), Some (new_var\<lparr>v_type := 448, v_length := 10\<rparr>)]"

theorem batch_format_agrees_witness:
  "\<exists>fm (fs :: batch_field list). build_batch_format utc_host two_columns = Inr fm \<and> parse_batch_blr (bm_blr fm) = Some (map bf_blr fs)
    \<and> length fs = 2 \<and> engine_length 0 (map bf_blr fs) = 20"
proof -
  have "(case build_batch_format utc_host two_columns of Inr fm \<Rightarrow> bm_msglen fm | Inl e \<Rightarrow> 0) = 20" by code_simp
  then obtain fm where fm: "build_batch_format utc_host two_columns = Inr fm" "bm_msglen fm = 20" by (auto split: sum.splits)
  have ok: "list_all desc_fits two_columns" "length two_columns \<le> 32000"
    by (simp_all add: two_columns_def desc_fits_def new_var_def)
  obtain fs :: "batch_field list" where "parse_batch_blr (bm_blr fm) = Some (map bf_blr fs)" "length fs = length two_columns"
      "bm_msglen fm = engine_length 0 (map bf_blr fs)"
    using batch_format_agrees [OF fm(1) ok] by (elim exE conjE) (rule that; assumption)
  then show ?thesis using fm by (intro exI [of _ fm] exI [of _ fs]) (simp add: two_columns_def)
qed

text \<open>The value a decimal text stands for at a scale: its digits as an integer, rounded half away from zero.\<close>

definition decimal_value :: "bool \<Rightarrow> string \<Rightarrow> string \<Rightarrow> int \<Rightarrow> int \<Rightarrow> int" where
  "decimal_value neg whole frac e scale =
     (let n = digits_val (whole @ frac); k = e - int (length frac) - scale in
      (if neg then - 1 else 1) * int (if 0 \<le> k then n * 10 ^ nat k else round_half_up n (10 ^ nat (- k))))"

definition scaled_width :: "int \<Rightarrow> nat option" where
  "scaled_width t = (case sql_type_of t of Some SQL_SHORT \<Rightarrow> Some 4 | Some SQL_LONG \<Rightarrow> Some 4 | Some SQL_INT64 \<Rightarrow> Some 8
     | Some SQL_INT128 \<Rightarrow> Some 16 | _ \<Rightarrow> None)"

lemma scaled_writer:
  assumes "batch_field_of en i d = Inr f" and "scaled_width (v_type d) = Some w"
  shows "bf_writer f = write_scaled en (batch_parameter i) (- v_scale d) w" and "w = 4 \<or> w = 8 \<or> w = 16"
  using assms by (auto simp: batch_field_of_def scaled_width_def Let_def split: option.splits sql_type.splits)

lemma write_scaled_bytes:
  assumes "w = 4 \<or> w = 8 \<or> w = 16" and "to_scaled_big_int en v k ctx = Inr n" and "- (2 ^ (8 * w - 1)) \<le> n" "n \<le> 2 ^ (8 * w - 1) - 1"
  shows "write_scaled en ctx k w v enc = Inr (be_bytes w n)"
proof -
  have "be_bytes 8 (n mod 2 ^ 64) = be_bytes 8 n"
    using be_bytes_be_val [of "be_bytes 8 n"] by (simp add: be_val_be_bytes)
  then have "be_bytes 16 n = be_bytes 8 (n div 2 ^ 64) @ be_bytes 8 (n mod 2 ^ 64)" by (simp add: be_split [of n])
  moreover have "w = 4 \<Longrightarrow> enc_int32 n = be_bytes 4 n" using assms(3,4) by (simp add: enc_int32_def)
  ultimately show ?thesis using assms by (auto simp: write_scaled_def check_range_def enc_int64_def)
qed

text \<open>
  C25. A decimal text bound to an integer or NUMERIC parameter of a batch arrives as the
  integer the column stores for it: the text's exact value times ten to the scale,
  rounded half away from zero, in the column's width as two's complement; when that is
  out of the column's range the row is refused, never wrapped.
\<close>

theorem batch_decimal_exact:
  assumes "batch_field_of en i d = Inr f" and "scaled_width (v_type d) = Some w"
    and "match_decimal (trim s) = Some (neg, whole, frac, e)"
  shows "if - (2 ^ (8 * w - 1)) \<le> decimal_value neg whole frac e (v_scale d) \<and> decimal_value neg whole frac e (v_scale d) < 2 ^ (8 * w - 1)
    then \<exists>b. bf_writer f (PString s) enc = Inr b \<and> length b = w \<and> signed_val w (be_val b) = decimal_value neg whole frac e (v_scale d)
    else \<exists>x. bf_writer f (PString s) enc = Inl x"
proof -
  let ?v = "decimal_value neg whole frac e (v_scale d)" and ?ctx = "batch_parameter i"
  note w = scaled_writer [OF assms(1,2)]
  have n: "to_scaled_big_int en (PString s) (- v_scale d) ?ctx = Inr ?v"
    using decimal_scales [OF assms(3), of "- v_scale d" ?ctx] by (simp add: to_scaled_big_int_def decimal_value_def Let_def)
  show ?thesis
  proof (cases "- (2 ^ (8 * w - 1)) \<le> ?v \<and> ?v < 2 ^ (8 * w - 1)")
    case True
    then have "bf_writer f (PString s) enc = Inr (be_bytes w ?v)"
      using write_scaled_bytes [OF w(2) n] unfolding w(1) by simp
    moreover have "signed_val w (be_val (be_bytes w ?v)) = ?v"
    proof -
      have "(256::int) ^ w = 2 ^ (8 * w)" by (simp add: power_mult)
      then show ?thesis using signed_val_mod [of w ?v] True w(2) by (auto simp: be_val_be_bytes)
    qed
    ultimately show ?thesis using True by simp
  next
    case False
    then have "\<exists>x. bf_writer f (PString s) enc = Inl x"
      unfolding w(1) write_scaled_def n by (auto simp: check_range_def)
    then show ?thesis using False by (simp only: if_False)
  qed
qed

theorem batch_decimal_exact_witness:
  "\<exists>f. batch_field_of utc_host 0 (new_var\<lparr>v_type := 580, v_length := 8, v_scale := - 2\<rparr>) = Inr f
    \<and> (\<exists>b. bf_writer f (PString ''-12.345'') (\<lambda>i s. Inr []) = Inr b \<and> signed_val 8 (be_val b) = - 1235)"
proof -
  define d where "d = new_var\<lparr>v_type := 580, v_length := 8, v_scale := - 2\<rparr>"
  have "sql_type_of 580 = Some SQL_INT64" by code_simp
  then have t: "sql_type_of (v_type d) = Some SQL_INT64" by (simp add: d_def)
  obtain f where f: "batch_field_of utc_host 0 d = Inr f" by (simp add: batch_field_of_def t Let_def)
  have w: "scaled_width (v_type d) = Some 8" unfolding scaled_width_def t by simp
  have m: "match_decimal (trim ''-12.345'') = Some (True, ''12'', ''345'', 0)" by code_simp
  have "decimal_value True ''12'' ''345'' 0 (- 2) = - 1235"
    by (simp add: decimal_value_def round_half_up_def digits_val_def digit_val_def)
  then have v: "decimal_value True ''12'' ''345'' 0 (v_scale d) = - 1235" by (simp add: d_def)
  have "\<exists>b. bf_writer f (PString ''-12.345'') (\<lambda>i s. Inr []) = Inr b \<and> length b = 8 \<and> signed_val 8 (be_val b) = - 1235"
    using batch_decimal_exact [OF f w m, of "\<lambda>i s. Inr []"] unfolding v by simp
  then show ?thesis using f unfolding d_def by blast
qed

end
