(* ===== verification/Batch_Runs.thy ===== *)
theory Batch_Runs
  imports Batch Batch_Rows
begin

text \<open>
  What a run of a batch amounts to with a server that answers it: every row is sent once, in
  cycles, and the result is what the server counted; and what a refused batch does to
  the operation after it.
\<close>

subsection \<open>The server's completion\<close>

record completion =
  co_handle :: int
  co_records :: int
  co_counts :: "int list"
  co_failed :: "(int \<times> wire_arg list) list"
  co_bare :: "int list"

definition completion_ok :: "completion \<Rightarrow> bool" where
  "completion_ok c = (int32_range (co_handle c) \<and> int32_range (co_records c) \<and> list_all int32_range (co_counts c)
     \<and> list_all (\<lambda>(i, args). int32_range i \<and> list_all arg_ok args) (co_failed c) \<and> list_all int32_range (co_bare c)
     \<and> length (co_counts c) < 2 ^ 31 \<and> length (co_failed c) < 2 ^ 31 \<and> length (co_bare c) < 2 ^ 31)"

definition enc_completion :: "completion \<Rightarrow> bytes" where
  "enc_completion c = enc_int32 op_batch_cs @ enc_int32 (co_handle c) @ enc_int32 (co_records c)
     @ enc_int32 (int (length (co_counts c))) @ enc_int32 (int (length (co_failed c))) @ enc_int32 (int (length (co_bare c)))
     @ concat (map enc_int32 (co_counts c)) @ concat (map (\<lambda>(i, args). enc_int32 i @ enc_status args) (co_failed c))
     @ concat (map enc_int32 (co_bare c))"

definition completion_of :: "(int \<Rightarrow> (string \<times> string option) option) \<Rightarrow> completion \<Rightarrow> batch_completion" where
  "completion_of m c = \<lparr>bc_rec_count = co_records c, bc_update_counts = co_counts c,
     bc_errors = map (\<lambda>(i, args). (i, fst (status_of m args))) (co_failed c) @ map (\<lambda>i. (i, None)) (co_bare c)\<rparr>"

lemma rd_times_int32: "list_all int32_range xs \<Longrightarrow> rd_times (length xs) read_int32 (feed (concat (map enc_int32 xs)) w) = (Inr xs, w)"
  by (induction xs) (simp_all add: rd_bind_def read_int32_feed_id)

lemma rd_times_failed:
  "list_all (\<lambda>(i, args). int32_range i \<and> list_all arg_ok args) xs \<Longrightarrow>
    rd_times (length xs) read_failed_row (feed (concat (map (\<lambda>(i, args). enc_int32 i @ enc_status args) xs)) w)
      = (Inr (map (\<lambda>(i, args). (i, fst (status_of (w_messages w) args))) xs), w)"
proof (induction xs)
  case (Cons x xs)
  obtain i args where x: "x = (i, args)" by (cases x)
  then show ?case
    using Cons by (simp add: rd_bind_def read_failed_row_def read_int32_feed_id read_status_vector_feed split: prod.split)
qed simp

lemma read_batch_completion_feed:
  assumes "noise_fits ns w" and "completion_ok c"
  shows "read_batch_completion (feed (concat (map enc_noise ns)) (feed (enc_completion c) w)) = (Inr (completion_of (w_messages w) c), settled ns w)"
proof -
  define body where "body = enc_int32 (co_handle c) @ enc_int32 (co_records c)
     @ enc_int32 (int (length (co_counts c))) @ enc_int32 (int (length (co_failed c))) @ enc_int32 (int (length (co_bare c)))
     @ concat (map enc_int32 (co_counts c)) @ concat (map (\<lambda>(i, args). enc_int32 i @ enc_status args) (co_failed c))
     @ concat (map enc_int32 (co_bare c))"
  have enc: "enc_completion c = enc_int32 op_batch_cs @ body" by (simp add: enc_completion_def body_def)
  have op: "read_op (feed (concat (map enc_noise ns)) (feed (enc_completion c) w)) = (Inr op_batch_cs, feed body (settled ns w))"
    using read_op_at [of ns "feed body w" op_batch_cs] assms(1) by (simp add: enc settled_feed)
  show ?thesis
    using assms(2) rd_times_int32 rd_times_failed
    by (simp add: read_batch_completion_def rd_bind_def op body_def completion_ok_def read_int32_feed_id completion_of_def)
qed

subsection \<open>A cycle\<close>

definition cycle_message :: "batch_statement \<Rightarrow> bool \<Rightarrow> bytes list \<Rightarrow> bytes" where
  "cycle_message bt created rows =
     (if created then [] else enc_int32 op_batch_create @ enc_int32 (bt_handle bt) @ enc_opaque (bm_blr (bt_format bt))
        @ enc_uint32 (bm_msglen (bt_format bt)) @ enc_opaque (bt_pb bt))
     @ enc_int32 op_batch_msg @ enc_int32 (bt_handle bt) @ enc_uint32 (int (length rows)) @ concat rows
     @ enc_int32 op_batch_exec @ enc_int32 (bt_handle bt) @ enc_int32 (bt_tx bt)"

record cycle_reply =
  cr_create :: "noise list \<times> response"
  cr_msg :: "noise list \<times> response"
  cr_exec :: "noise list \<times> completion"

definition answer_ok :: "(int \<Rightarrow> (string \<times> string option) option) \<Rightarrow> noise list \<times> response \<Rightarrow> bool" where
  "answer_ok m a = (quiet (fst a) \<and> response_ok (snd a) \<and> noise_clean m (NDeferred (snd a)))"

definition cycle_ok :: "(int \<Rightarrow> (string \<times> string option) option) \<Rightarrow> cycle_reply \<Rightarrow> bool" where
  "cycle_ok m y = (answer_ok m (cr_create y) \<and> answer_ok m (cr_msg y) \<and> quiet (fst (cr_exec y)) \<and> completion_ok (snd (cr_exec y)))"

definition enc_cycle :: "bool \<Rightarrow> cycle_reply \<Rightarrow> bytes" where
  "enc_cycle created y = (if created then [] else reply (fst (cr_create y)) (snd (cr_create y)))
     @ reply (fst (cr_msg y)) (snd (cr_msg y)) @ concat (map enc_noise (fst (cr_exec y))) @ enc_completion (snd (cr_exec y))"

lemma write_cycle_sends: "write_cycle bt created [] rows w = send (cycle_message bt created rows) w"
  by (simp add: write_cycle_def write_batch_create_def write_batch_msg_def write_batch_exec_def cycle_message_def send_def Let_def)

lemma cycle_message_nonempty: "cycle_message bt created rows \<noteq> []"
proof -
  have "0 < length (cycle_message bt created rows)" by (simp add: cycle_message_def del: length_greater_0_conv)
  then show ?thesis unfolding length_greater_0_conv .
qed

lemma read_responses_one:
  assumes "answer_ok (w_messages w) a" and "w_deferred w = 0"
  shows "read_responses (Suc n) (feed (reply (fst a) (snd a) @ rest) w) = read_responses n (feed rest (settled (fst a) w))"
proof -
  have "noise_fits (fst a) w" using assms quiet_fits by (auto simp: answer_ok_def)
  moreover obtain g where "body_result (w_messages w) (snd a) = Inr g"
    using assms(1) noise_clean_result by (fastforce simp: answer_ok_def)
  ultimately show ?thesis
    using read_response_at [of "fst a" "feed rest w" "snd a"] assms(1) by (simp add: answer_ok_def settled_feed)
qed

lemma cycle_exchange_ok:
  assumes "cycle_ok (w_messages w) y" and "w_deferred w = 0"
  shows "\<exists>ns. cycle_exchange bt created [] rows (feed (enc_cycle created y @ rest) w)
    = (Inr (completion_of (w_messages w) (snd (cr_exec y))), feed rest (settled ns (send (cycle_message bt created rows) w)))"
proof -
  let ?w = "send (cycle_message bt created rows) w"
  let ?tail = "concat (map enc_noise (fst (cr_exec y))) @ enc_completion (snd (cr_exec y)) @ rest"
  have fin: "read_batch_completion (feed (concat (map enc_noise (fst (cr_exec y))) @ enc_completion (snd (cr_exec y)) @ rest) (settled ns ?w))
      = (Inr (completion_of (w_messages w) (snd (cr_exec y))), feed rest (settled (ns @ fst (cr_exec y)) ?w))" for ns
    using read_batch_completion_feed [of "fst (cr_exec y)" "feed rest (settled ns ?w)" "snd (cr_exec y)"] assms
      quiet_fits [of "fst (cr_exec y)" "feed rest (settled ns ?w)"]
    by (simp add: cycle_ok_def settled_feed)
  have msg: "read_responses (Suc 0) (feed (reply (fst (cr_msg y)) (snd (cr_msg y)) @ r) v) = (None, feed r (settled (fst (cr_msg y)) v))"
    if "w_messages v = w_messages w" "w_deferred v = 0" for v r
    using read_responses_one [of v "cr_msg y" 0 r] that assms(1) by (simp add: cycle_ok_def)
  show ?thesis
  proof (cases created)
    case True
    then show ?thesis
      using msg [of ?w ?tail] fin [of "fst (cr_msg y)"] assms(2)
      by (intro exI) (simp add: cycle_exchange_def write_cycle_sends enc_cycle_def del: reply_feed read_responses.simps)
  next
    case False
    have "read_responses (Suc (Suc 0)) (feed (reply (fst (cr_create y)) (snd (cr_create y)) @ r) ?w)
        = read_responses (Suc 0) (feed r (settled (fst (cr_create y)) ?w))" if "r = reply (fst (cr_msg y)) (snd (cr_msg y)) @ ?tail" for r
      using read_responses_one [of ?w "cr_create y" "Suc 0" r] assms by (simp add: cycle_ok_def del: read_responses.simps)
    then show ?thesis
      using False msg [of "settled (fst (cr_create y)) ?w" ?tail] fin [of "fst (cr_create y) @ fst (cr_msg y)"] assms(2)
      by (intro exI) (simp add: cycle_exchange_def write_cycle_sends enc_cycle_def numeral_2_eq_2 del: reply_feed read_responses.simps)
  qed
qed

lemma exec_cycle_ok:
  assumes "cycle_ok (w_messages (s_wire (bs_session s))) y" and "w_deferred (s_wire (bs_session s)) = 0" and "bs_blob_ids s = []"
    and "bt_continue bt \<or> br_errors (bs_combined s) = [] \<and> co_failed (snd (cr_exec y)) = [] \<and> co_bare (snd (cr_exec y)) = []"
  shows "\<exists>t. exec_cycle bt (s\<lparr>bs_session := on_wire (feed (enc_cycle (bs_created s) y @ rest)) (bs_session s)\<rparr>)
      = (Inr (), \<lparr>bs_session = on_wire (feed rest) t,
           bs_combined = combine (length (bs_rows s)) (completion_of (w_messages (s_wire (bs_session s))) (snd (cr_exec y))) (bs_combined s),
           bs_created = True, bs_rows = [], bs_blob_ids = [], bs_seen = []\<rparr>)
    \<and> advanced [cycle_message bt (bs_created s) (bs_rows s)] (bs_session s) t"
proof -
  let ?m = "cycle_message bt (bs_created s) (bs_rows s)" and ?w = "s_wire (bs_session s)"
  obtain ns where ns: "cycle_exchange bt (bs_created s) [] (bs_rows s) (feed (enc_cycle (bs_created s) y @ rest) ?w)
      = (Inr (completion_of (w_messages ?w) (snd (cr_exec y))), feed rest (settled ns (send ?m ?w)))"
    using cycle_exchange_ok [OF assms(1,2)] by blast
  define t where "t = absorb ((bs_session s)\<lparr>s_wire := settled ns (send ?m ?w)\<rparr>)"
  have wire: "sn_wire (cycle_exchange bt (bs_created s) [] (bs_rows s)) (on_wire (feed (enc_cycle (bs_created s) y @ rest)) (bs_session s))
      = (Inr (completion_of (w_messages ?w) (snd (cr_exec y))), on_wire (feed rest) t)"
    using ns by (simp add: sn_wire_def on_wire_feed_absorb t_def del: feed_append)
  have "advanced [?m] (bs_session s) t"
    unfolding t_def by (rule advanced_exchange [OF cycle_message_nonempty assms(2)])
  moreover have "br_errors (combine n (completion_of m (snd (cr_exec y))) (bs_combined s)) = [] \<or> bt_continue bt" for n m
    using assms(4) by (auto simp: combine_def completion_of_def)
  ultimately show ?thesis
    using wire assms(3) by (intro exI [of _ t]) (cases s, auto simp: exec_cycle_def on_batch_def sn_bind_def)
qed

subsection \<open>All rows\<close>

definition rows_per_cycle :: "int \<Rightarrow> int \<Rightarrow> nat" where
  "rows_per_cycle chunk stride = nat (- ((- chunk) div stride))"

lemma rows_per_cycle_iff:
  assumes "0 < stride"
  shows "chunk \<le> int n * stride \<longleftrightarrow> rows_per_cycle chunk stride \<le> n"
proof -
  have "- int n \<le> (- chunk) div stride \<longleftrightarrow> - int n * stride \<le> - chunk"
  proof
    assume "- int n \<le> (- chunk) div stride"
    then have "- int n * stride \<le> ((- chunk) div stride) * stride" using assms by (intro mult_right_mono) simp_all
    also have "\<dots> \<le> - chunk" using assms by (metis div_mult_mod_eq le_add_same_cancel1 pos_mod_sign)
    finally show "- int n * stride \<le> - chunk" .
  next
    assume "- int n * stride \<le> - chunk"
    then have "(- int n * stride) div stride \<le> (- chunk) div stride" using assms by (intro zdiv_mono1)
    moreover have "(- int n * stride) div stride = - int n" using assms by (intro nonzero_mult_div_cancel_right) simp
    ultimately show "- int n \<le> (- chunk) div stride" by simp
  qed
  then show ?thesis by (auto simp: rows_per_cycle_def)
qed

text \<open>The cycles that rows fall into, after those that are waiting.\<close>

fun cycles :: "nat \<Rightarrow> bytes list \<Rightarrow> bytes list \<Rightarrow> bytes list list" where
  "cycles c acc [] = (if acc = [] then [] else [acc])"
| "cycles c acc (b # bs) = (if c \<le> Suc (length acc) then (acc @ [b]) # cycles c [] bs else cycles c (acc @ [b]) bs)"

lemma concat_cycles: "concat (cycles c acc bs) = acc @ bs"
  by (induction c acc bs rule: cycles.induct) simp_all

fun cycle_messages :: "batch_statement \<Rightarrow> bool \<Rightarrow> bytes list list \<Rightarrow> bytes list" where
  "cycle_messages bt created [] = []"
| "cycle_messages bt created (c # cs) = cycle_message bt created c # cycle_messages bt True cs"

fun enc_cycles :: "bool \<Rightarrow> cycle_reply list \<Rightarrow> bytes" where
  "enc_cycles created [] = []"
| "enc_cycles created (y # ys) = enc_cycle created y @ enc_cycles True ys"

fun combined :: "(int \<Rightarrow> (string \<times> string option) option) \<Rightarrow> bytes list list \<Rightarrow> cycle_reply list \<Rightarrow> batch_result \<Rightarrow> batch_result" where
  "combined m (c # cs) (y # ys) r = combined m cs ys (combine (length c) (completion_of m (snd (cr_exec y))) r)"
| "combined m cs ys r = r"

definition row_plain ::
  "environment \<Rightarrow> resolved_options \<Rightarrow> batch_statement \<Rightarrow> prepared_statement \<Rightarrow> string list \<Rightarrow> nat \<Rightarrow> query_params \<Rightarrow> bytes \<Rightarrow> bool" where
  "row_plain en opts bt st names i row b = (\<exists>args vs codecs. bind_row row names i = Inr args
     \<and> prepare_params en opts (bt_tx bt) st args = sn_return (vs, codecs)
     \<and> encode_batch_row (bt_format bt) vs (encode_text_with codecs) = Inr b)"

fun rows_plain ::
  "environment \<Rightarrow> resolved_options \<Rightarrow> batch_statement \<Rightarrow> prepared_statement \<Rightarrow> string list \<Rightarrow> nat \<Rightarrow> query_params list \<Rightarrow> bytes list \<Rightarrow> bool" where
  "rows_plain en opts bt st names i (r # rs) (b # bs) = (row_plain en opts bt st names i r b \<and> rows_plain en opts bt st names (Suc i) rs bs)"
| "rows_plain en opts bt st names i rs bs = (rs = [] \<and> bs = [])"

definition bstate :: "session \<Rightarrow> batch_result \<Rightarrow> bool \<Rightarrow> bytes list \<Rightarrow> batch_state" where
  "bstate u r created acc = \<lparr>bs_session = u, bs_combined = r, bs_created = created, bs_rows = acc, bs_blob_ids = [], bs_seen = []\<rparr>"

definition unfailing :: "cycle_reply \<Rightarrow> bool" where
  "unfailing y = (co_failed (snd (cr_exec y)) = [] \<and> co_bare (snd (cr_exec y)) = [])"

lemma exec_bstate:
  assumes "cycle_ok (w_messages (s_wire u)) y" and "w_deferred (s_wire u) = 0"
    and "bt_continue bt \<or> br_errors r = [] \<and> unfailing y"
  shows "\<exists>t. exec_cycle bt (bstate (on_wire (feed (enc_cycle created y @ rest)) u) r created acc)
      = (Inr (), bstate (on_wire (feed rest) t) (combine (length acc) (completion_of (w_messages (s_wire u)) (snd (cr_exec y))) r) True [])
    \<and> advanced [cycle_message bt created acc] u t"
  using exec_cycle_ok [of "bstate u r created acc" y bt rest] assms by (simp add: bstate_def unfailing_def)

lemma batch_row_plain:
  assumes "row_plain en opts bt st names i row b" and "bm_blobs (bt_format bt) = []"
  shows "batch_row en opts bt st names chunk i row (bstate u r created acc)
    = (if chunk \<le> int (Suc (length acc)) * bm_stride (bt_format bt) then exec_cycle bt (bstate u r created (acc @ [b]))
       else (Inr (), bstate u r created (acc @ [b])))"
proof -
  obtain args vs codecs where p: "bind_row row names i = Inr args" "prepare_params en opts (bt_tx bt) st args = sn_return (vs, codecs)"
      "encode_batch_row (bt_format bt) vs (encode_text_with codecs) = Inr b"
    using assms(1) by (auto simp: row_plain_def)
  have "on_batch (sn_return x) = sn_return x" for x :: "param_value list \<times> text_codec option list"
    by (simp add: on_batch_def fun_eq_iff)
  then show ?thesis
    using p assms(2) by (simp add: batch_row_def register_blobs_def in_row_def bstate_def)
qed

lemma combine_unfailing: "unfailing y \<Longrightarrow> br_errors r = [] \<Longrightarrow> br_errors (combine n (completion_of m (snd (cr_exec y))) r) = []"
  by (simp add: combine_def completion_of_def unfailing_def)

lemma feed_none [simp]: "on_wire (\<lambda>w. w) t = t" "on_wire (feed []) t = t"
  by (simp_all add: on_wire_def feed_def)

lemma batch_loop_ok:
  assumes "rows_plain en opts bt st names i rows bs" and "bm_blobs (bt_format bt) = []" and "0 < bm_stride (bt_format bt)"
    and "length acc < rows_per_cycle chunk (bm_stride (bt_format bt))"
    and "length ys = length (cycles (rows_per_cycle chunk (bm_stride (bt_format bt))) acc bs)"
    and "list_all (cycle_ok (w_messages (s_wire u))) ys" and "w_deferred (s_wire u) = 0"
    and "bt_continue bt \<or> br_errors r = [] \<and> list_all unfailing ys"
  shows "\<exists>t. batch_rows_loop en opts bt st names chunk i rows (bstate (on_wire (feed (enc_cycles created ys)) u) r created acc)
      = (Inr (), bstate t (combined (w_messages (s_wire u)) (cycles (rows_per_cycle chunk (bm_stride (bt_format bt))) acc bs) ys r)
           (created \<or> ys \<noteq> []) [])
    \<and> advanced (cycle_messages bt created (cycles (rows_per_cycle chunk (bm_stride (bt_format bt))) acc bs)) u t"
  using assms
proof (induction rows arbitrary: i bs acc ys u r created)
  case Nil
  then have bs: "bs = []" by (cases bs) auto
  show ?case
  proof (cases "acc = []")
    case True
    then show ?thesis using Nil bs by (intro exI [of _ u]) (simp add: bstate_def advanced_refl)
  next
    case False
    then obtain y where ys: "ys = [y]" using Nil(5) bs by (cases ys) auto
    obtain t where "exec_cycle bt (bstate (on_wire (feed (enc_cycle created y @ [])) u) r created acc)
        = (Inr (), bstate (on_wire (feed []) t) (combine (length acc) (completion_of (w_messages (s_wire u)) (snd (cr_exec y))) r) True [])"
        "advanced [cycle_message bt created acc] u t"
      using exec_bstate [of u y bt r created "[]" acc] Nil ys by auto
    then show ?thesis using False bs ys by (intro exI [of _ t]) (simp add: bstate_def)
  qed
next
  case (Cons row rows)
  let ?c = "rows_per_cycle chunk (bm_stride (bt_format bt))" and ?m = "w_messages (s_wire u)"
  obtain b bs' where bs: "bs = b # bs'" using Cons.prems(1) by (cases bs) auto
  then have row: "row_plain en opts bt st names i row b" "rows_plain en opts bt st names (Suc i) rows bs'" using Cons.prems(1) by simp_all
  have full: "chunk \<le> int (Suc (length acc)) * bm_stride (bt_format bt) \<longleftrightarrow> ?c \<le> Suc (length acc)"
    using rows_per_cycle_iff [OF Cons.prems(3)] by blast
  note step = batch_row_plain [OF row(1) Cons.prems(2)]
  show ?case
  proof (cases "?c \<le> Suc (length acc)")
    case False
    then have "length (acc @ [b]) < ?c" by simp
    moreover have "length ys = length (cycles ?c (acc @ [b]) bs')" using Cons.prems(5) False bs by simp
    ultimately obtain t where "batch_rows_loop en opts bt st names chunk (Suc i) rows (bstate (on_wire (feed (enc_cycles created ys)) u) r created (acc @ [b]))
        = (Inr (), bstate t (combined ?m (cycles ?c (acc @ [b]) bs') ys r) (created \<or> ys \<noteq> []) [])"
        "advanced (cycle_messages bt created (cycles ?c (acc @ [b]) bs')) u t"
      using Cons.IH [OF row(2) Cons.prems(2,3)] Cons.prems(6-8) by blast
    then show ?thesis using False full bs by (intro exI [of _ t]) (simp add: sn_bind_def step)
  next
    case True
    then obtain y ys' where ys: "ys = y # ys'" using Cons.prems(5) bs by (cases ys) auto
    obtain t where t: "exec_cycle bt (bstate (on_wire (feed (enc_cycle created y @ enc_cycles True ys')) u) r created (acc @ [b]))
        = (Inr (), bstate (on_wire (feed (enc_cycles True ys')) t) (combine (length (acc @ [b])) (completion_of ?m (snd (cr_exec y))) r) True [])"
        "advanced [cycle_message bt created (acc @ [b])] u t"
      using exec_bstate [of u y bt r created "enc_cycles True ys'" "acc @ [b]"] Cons.prems(6-8) ys by auto
    have u: "w_messages (s_wire t) = ?m" "w_deferred (s_wire t) = 0" using t(2) Cons.prems(7) by (simp_all add: advanced_def)
    have errs: "bt_continue bt \<or> br_errors (combine (length (acc @ [b])) (completion_of ?m (snd (cr_exec y))) r) = [] \<and> list_all unfailing ys'"
      using Cons.prems(8) combine_unfailing [of y r] ys by auto
    have zero: "length ([] :: bytes list) < ?c" using Cons.prems(4) by simp
    have len: "length ys' = length (cycles ?c [] bs')" using Cons.prems(5) True bs ys by simp
    have "list_all (cycle_ok ?m) ys'" using Cons.prems(6) ys by simp
    then obtain v where v: "batch_rows_loop en opts bt st names chunk (Suc i) rows (bstate (on_wire (feed (enc_cycles True ys')) t)
          (combine (length (acc @ [b])) (completion_of ?m (snd (cr_exec y))) r) True [])
        = (Inr (), bstate v (combined ?m (cycles ?c [] bs') ys' (combine (length (acc @ [b])) (completion_of ?m (snd (cr_exec y))) r)) (True \<or> ys' \<noteq> []) [])"
        "advanced (cycle_messages bt True (cycles ?c [] bs')) t v"
      using Cons.IH [OF row(2) Cons.prems(2,3) zero len _ u(2) errs, where created = True, unfolded u(1)] by blast
    have "advanced (cycle_messages bt created (cycles ?c acc bs)) u v"
      using advanced_trans [OF t(2) v(2)] True bs by simp
    moreover have "batch_rows_loop en opts bt st names chunk i (row # rows) (bstate (on_wire (feed (enc_cycles created ys)) u) r created acc)
        = (Inr (), bstate v (combined ?m (cycles ?c acc bs) ys r) (created \<or> ys \<noteq> []) [])"
      using t(1) v(1) True full bs ys by (simp add: sn_bind_def step del: feed_append batch_rows_loop.simps(1))
    ultimately show ?thesis by blast
  qed
qed

subsection \<open>A refused batch\<close>

text \<open>
  When the server refuses the create, it refuses the rows and the execute too. The code
  marks their responses deferred, and the first of them fails the next operation, whose own
  reply stays unread.
\<close>

lemma refused_batch_poisons_next:
  assumes "w_deferred w = 0" and "response_ok r0" and "response_ok r1"
    and "body_result (w_messages w) r0 = Inl e0" and "body_result (w_messages w) r1 = Inl e1"
  shows "\<exists>w1. cycle_exchange bt False [] rows (feed (enc_response r0 @ enc_response r1 @ rest) w) = (Inl e0, feed (enc_response r1 @ rest) w1)
    \<and> w_deferred w1 = 2 \<and> (\<exists>w2. request m (feed (enc_response r1 @ rest) w1) = (Inl e1, feed rest w2) \<and> w_deferred w2 = 1)"
proof -
  let ?w = "send (cycle_message bt False rows) w" and ?w1 = "(mark_deferred ^^ 2) (send (cycle_message bt False rows) w)"
  have "read_response (feed (enc_response r0) (feed (enc_response r1 @ rest) ?w)) = (Inl e0, feed (enc_response r1 @ rest) ?w)"
    using read_response_feed [OF assms(2), of "feed (enc_response r1 @ rest) ?w"] assms(1,4) by simp
  moreover have "mark_deferred (feed d v) = feed d (mark_deferred v)" for d v by (simp add: mark_deferred_def feed_def)
  ultimately have x: "cycle_exchange bt False [] rows (feed (enc_response r0 @ enc_response r1 @ rest) w) = (Inl e0, feed (enc_response r1 @ rest) ?w1)"
    by (simp add: cycle_exchange_def write_cycle_sends numeral_2_eq_2)
  have d: "w_deferred ?w1 = 2" "w_messages ?w1 = w_messages w" using assms(1) by (simp_all add: numeral_2_eq_2 mark_deferred_def)
  let ?v = "feed rest (send m ?w1)"
  have "read_op (feed (enc_response r1) ?v) = (Inl e1, ?v\<lparr>w_deferred := 1\<rparr>)"
    using read_op_deferred [OF assms(3), of ?v] d assms(5) by simp
  then have "request m (feed (enc_response r1 @ rest) ?w1) = (Inl e1, feed rest ((send m ?w1)\<lparr>w_deferred := 1\<rparr>))"
    by (simp add: request_def rd_bind_def read_response_def feed_updates)
  then show ?thesis using x d(1) by (intro exI [of _ ?w1] conjI exI [of _ "(send m ?w1)\<lparr>w_deferred := 1\<rparr>"]) simp_all
qed

subsection \<open>Properties\<close>


text \<open>The witness: one row with a number, accepted and counted.\<close>

definition number_insert :: prepared_statement where
  "number_insert = \<lparr>ps_handle = 1, ps_description = \<lparr>d_stmt_type = 2, d_inputs = [Some number_column], d_outputs = []\<rparr>,
     ps_output_blr = [], ps_readers = [], ps_row_width = 0\<rparr>"

definition default_batch :: batch_options where
  "default_batch = \<lparr>bo_continue_on_error = False, bo_detailed_errors = None, bo_chunk_bytes = None\<rparr>"

definition accepted :: "noise list \<times> response" where
  "accepted = ([], \<lparr>r_handle = 0, r_oid = replicate 8 0, r_data = [], r_status = []\<rparr>)"

definition one_accepted :: cycle_reply where
  "one_accepted = \<lparr>cr_create = accepted, cr_msg = accepted,
     cr_exec = ([], \<lparr>co_handle = 1, co_records = 1, co_counts = [1], co_failed = [], co_bare = []\<rparr>)\<rparr>"


end
