(* ===== verification/Ciphers.thy ===== *)
theory Ciphers
  imports Errors
begin

unbundle bit_operations_syntax

text \<open>
  \<open>protocol/crypt/arc4.ts\<close> and \<open>protocol/crypt/chacha.ts\<close>: the two filters of wire
  encryption. RC4 is computed by the code; the ChaCha20 keystream and SHA-256 are
  functions of Node's crypto library and parameters here.
\<close>

subsection \<open>The interface of a filter\<close>

text \<open>
  One direction of a filter: a state and the bytes it is handed. What the transport
  needs is that cutting the bytes into other pieces changes nothing, and that the
  operation undoes itself, the far end holding an equal state.
\<close>

locale stream_cipher =
  fixes process :: "'s \<Rightarrow> bytes \<Rightarrow> bytes \<times> 's"
  assumes process_Nil: "process s [] = ([], s)"
    and process_append: "process s (a @ b) =
      (let (x, s1) = process s a; (y, s2) = process s1 b in (x @ y, s2))"
    and process_back: "process s (fst (process s d)) = (d, snd (process s d))"
begin

fun pieces :: "'s \<Rightarrow> bytes list \<Rightarrow> bytes list \<times> 's" where
  "pieces s [] = ([], s)"
| "pieces s (d # ds) = (let (x, s1) = process s d; (xs, s2) = pieces s1 ds in (x # xs, s2))"

lemma pieces_concat: "(concat (fst (pieces s ds)), snd (pieces s ds)) = process s (concat ds)"
proof (induction ds arbitrary: s)
  case Nil
  then show ?case by (simp add: process_Nil)
next
  case (Cons d ds)
  from Cons.IH [of "snd (process s d)"] show ?case
    by (simp add: process_append Let_def split_beta prod_eq_iff)
qed

text \<open>However the ciphertext of some packets is cut up on its way, the plaintext arrives.\<close>

lemma received_in_pieces:
  assumes "concat cs = concat (fst (pieces s ds))"
  shows "concat (fst (pieces s cs)) = concat ds \<and> snd (pieces s cs) = snd (pieces s ds)"
  using pieces_concat [of s cs] pieces_concat [of s ds] process_back [of s "concat ds"] assms
  by (metis fst_conv snd_conv)

end

subsection \<open>RC4\<close>

record rc4 =
  rc_s :: bytes
  rc_i :: nat
  rc_j :: nat

definition swap :: "nat \<Rightarrow> nat \<Rightarrow> bytes \<Rightarrow> bytes" where
  "swap i j s = s[i := s ! j, j := s ! i]"

text \<open>
  The key schedule. \<open>key[k % 0]\<close> is \<open>undefined\<close> and makes the sum \<open>NaN\<close>, which
  \<open>& 0xff\<close> turns into 0.
\<close>

definition schedule_step :: "bytes \<Rightarrow> nat \<Rightarrow> bytes \<times> nat \<Rightarrow> bytes \<times> nat" where
  "schedule_step key k = (\<lambda>(s, j).
     let j' = (if key = [] then 0 else (j + unat (s ! k) + unat (key ! (k mod length key))) mod 256)
     in (swap k j' s, j'))"

definition rc4_new :: "bytes \<Rightarrow> rc4" where
  "rc4_new key = \<lparr>rc_s = fst (fold (schedule_step key) [0..<256] (map of_nat [0..<256], 0)), rc_i = 0, rc_j = 0\<rparr>"

definition rc4_step :: "byte \<Rightarrow> rc4 \<Rightarrow> byte \<times> rc4" where
  "rc4_step d r =
     (let i = (rc_i r + 1) mod 256;
          j = (rc_j r + unat (rc_s r ! i)) mod 256;
          s = swap i j (rc_s r)
      in (d XOR s ! ((unat (s ! i) + unat (s ! j)) mod 256), \<lparr>rc_s = s, rc_i = i, rc_j = j\<rparr>))"

fun rc4_process :: "rc4 \<Rightarrow> bytes \<Rightarrow> bytes \<times> rc4" where
  "rc4_process r [] = ([], r)"
| "rc4_process r (d # ds) = (let (x, r1) = rc4_step d r; (xs, r2) = rc4_process r1 ds in (x # xs, r2))"

record arc4_filter =
  ar_tx :: rc4
  ar_rx :: rc4

definition arc4_new :: "bytes \<Rightarrow> arc4_filter" where
  "arc4_new key = \<lparr>ar_tx = rc4_new key, ar_rx = rc4_new key\<rparr>"

definition arc4_send :: "bytes \<Rightarrow> arc4_filter \<Rightarrow> bytes \<times> arc4_filter" where
  "arc4_send d f = (let (x, r) = rc4_process (ar_tx f) d in (x, f\<lparr>ar_tx := r\<rparr>))"

definition arc4_receive :: "bytes \<Rightarrow> arc4_filter \<Rightarrow> bytes \<times> arc4_filter" where
  "arc4_receive d f = (let (x, r) = rc4_process (ar_rx f) d in (x, f\<lparr>ar_rx := r\<rparr>))"

text \<open>The state after a step does not depend on the byte, and the byte is only masked.\<close>

definition rc4_next :: "rc4 \<Rightarrow> rc4" where
  "rc4_next r = snd (rc4_step 0 r)"

definition rc4_mask :: "rc4 \<Rightarrow> byte" where
  "rc4_mask r = fst (rc4_step 0 r)"

lemma rc4_step_masks: "rc4_step d r = (d XOR rc4_mask r, rc4_next r)"
  by (simp add: rc4_step_def rc4_mask_def rc4_next_def Let_def)

interpretation rc4: stream_cipher rc4_process
proof unfold_locales
  show "rc4_process s [] = ([], s)" for s by simp
  show "rc4_process s (a @ b) = (let (x, s1) = rc4_process s a; (y, s2) = rc4_process s1 b in (x @ y, s2))" for s a b
    by (induction a arbitrary: s) (simp_all add: Let_def split_beta)
  show "rc4_process s (fst (rc4_process s d)) = (d, snd (rc4_process s d))" for s d
    by (induction d arbitrary: s) (simp_all add: Let_def split_beta rc4_step_masks xor.assoc)
qed

text \<open>The box stays a permutation of the bytes, so no value is ever missing from it.\<close>

definition rc4_ok :: "rc4 \<Rightarrow> bool" where
  "rc4_ok r = (length (rc_s r) = 256 \<and> distinct (rc_s r) \<and> rc_i r < 256 \<and> rc_j r < 256)"

lemma swap_ok [simp]:
  "length (swap i j s) = length s"
  "i < length s \<Longrightarrow> j < length s \<Longrightarrow> distinct (swap i j s) = distinct s"
  by (simp_all add: swap_def distinct_swap)

lemma schedule_ok:
  assumes "length s = 256" and "distinct s" and "list_all (\<lambda>k. k < 256) ks"
  shows "length (fst (fold (schedule_step key) ks (s, j))) = 256 \<and> distinct (fst (fold (schedule_step key) ks (s, j)))"
  using assms
proof (induction ks arbitrary: s j)
  case (Cons k ks)
  obtain s' j' where s': "schedule_step key k (s, j) = (s', j')" by fastforce
  then have "s' = swap k j' s" "j' < 256" by (auto simp: schedule_step_def Let_def split: if_splits)
  then show ?case using Cons.IH [of s' j'] Cons.prems s' by simp
qed simp

lemma box_new: "distinct (map of_nat [0..<256] :: bytes)"
proof -
  have "(of_nat a :: byte) = of_nat b \<Longrightarrow> a < 256 \<Longrightarrow> b < 256 \<Longrightarrow> a = b" for a b
    by (simp add: word_of_nat_eq_iff take_bit_nat_eq_self)
  then have "inj_on (of_nat :: nat \<Rightarrow> byte) {0..<256}" by (intro inj_onI) auto
  then show ?thesis by (simp add: distinct_map)
qed

lemma rc4_new_ok: "rc4_ok (rc4_new key)"
  using schedule_ok [OF _ box_new, of "[0..<256]" key 0] by (simp add: rc4_ok_def rc4_new_def list_all_iff)

lemma rc4_step_ok: "rc4_ok r \<Longrightarrow> rc4_ok (snd (rc4_step d r))"
  by (simp add: rc4_ok_def rc4_step_def Let_def)

subsection \<open>ChaCha\<close>

lemma le_bytes_be_val_rev: "length b = 4 \<Longrightarrow> le_bytes 4 (be_val b) = rev b"
  using le_bytes_le_val [of "rev b"] by (simp add: be_val_def)


definition to_openssl_iv :: "bytes \<Rightarrow> bytes res" where
  "to_openssl_iv iv =
     (if length iv = 16 then Inr (le_bytes 4 (be_val (drop 12 iv)) @ take 12 iv)
      else if length iv = 12 then Inr (replicate 4 0 @ iv)
      else if length iv = 8 then Inr (replicate 8 0 @ iv)
      else Inl (JsError (''Unsupported ChaCha IV length '' @ dec_nat (length iv) @ '' (expected 8, 12 or 16)'')))"

text \<open>
  \<open>keystream key iv n\<close> is byte \<open>n\<close> of the stream that \<open>createCipheriv('chacha20', key, iv)\<close>
  masks with: \<open>update\<close> masks the next bytes and moves on.
\<close>

record crypto =
  cr_sha1 :: "bytes \<Rightarrow> bytes"
  cr_sha256 :: "bytes \<Rightarrow> bytes"
  cr_keystream :: "bytes \<Rightarrow> bytes \<Rightarrow> nat \<Rightarrow> byte"

type_synonym cipher = "(nat \<Rightarrow> byte) \<times> nat"

fun cipher_update :: "cipher \<Rightarrow> bytes \<Rightarrow> bytes \<times> cipher" where
  "cipher_update (ks, n) [] = ([], (ks, n))"
| "cipher_update (ks, n) (d # ds) = (let (xs, c) = cipher_update (ks, Suc n) ds in ((d XOR ks n) # xs, c))"

record chacha_filter =
  ch_tx :: cipher
  ch_rx :: cipher

definition chacha_new :: "crypto \<Rightarrow> bytes \<Rightarrow> bytes \<Rightarrow> chacha_filter res" where
  "chacha_new cr session_key iv = rthen (to_openssl_iv iv) (\<lambda>v.
     let c = (cr_keystream cr (cr_sha256 cr session_key) v, 0) in Inr \<lparr>ch_tx = c, ch_rx = c\<rparr>)"

definition chacha_send :: "bytes \<Rightarrow> chacha_filter \<Rightarrow> bytes \<times> chacha_filter" where
  "chacha_send d f = (let (x, c) = cipher_update (ch_tx f) d in (x, f\<lparr>ch_tx := c\<rparr>))"

definition chacha_receive :: "bytes \<Rightarrow> chacha_filter \<Rightarrow> bytes \<times> chacha_filter" where
  "chacha_receive d f = (let (x, c) = cipher_update (ch_rx f) d in (x, f\<lparr>ch_rx := c\<rparr>))"

interpretation chacha: stream_cipher cipher_update
proof unfold_locales
  show "cipher_update s [] = ([], s)" for s by (cases s) simp
  show "cipher_update s (a @ b) = (let (x, s1) = cipher_update s a; (y, s2) = cipher_update s1 b in (x @ y, s2))" for s a b
    by (induction s a rule: cipher_update.induct) (simp_all add: Let_def split_beta)
  show "cipher_update s (fst (cipher_update s d)) = (d, snd (cipher_update s d))" for s d
    by (induction s d rule: cipher_update.induct) (simp_all add: Let_def split_beta xor.assoc)
qed

lemma openssl_iv_16: "length iv = 16 \<Longrightarrow> to_openssl_iv iv = Inr (rev (drop 12 iv) @ take 12 iv)"
  by (simp add: to_openssl_iv_def le_bytes_be_val_rev)

lemma openssl_iv_length: "to_openssl_iv iv = Inr v \<Longrightarrow> length v = 16"
  by (auto simp: to_openssl_iv_def split: if_splits)

subsection \<open>A filter of the wire\<close>

datatype wire_filter = Arc4 arc4_filter | ChaCha chacha_filter

fun filter_send :: "bytes \<Rightarrow> wire_filter \<Rightarrow> bytes \<times> wire_filter" where
  "filter_send d (Arc4 f) = (let (x, f') = arc4_send d f in (x, Arc4 f'))"
| "filter_send d (ChaCha f) = (let (x, f') = chacha_send d f in (x, ChaCha f'))"

fun filter_receive :: "bytes \<Rightarrow> wire_filter \<Rightarrow> bytes \<times> wire_filter" where
  "filter_receive d (Arc4 f) = (let (x, f') = arc4_receive d f in (x, Arc4 f'))"
| "filter_receive d (ChaCha f) = (let (x, f') = chacha_receive d f in (x, ChaCha f'))"

fun send_each :: "bytes list \<Rightarrow> wire_filter \<Rightarrow> bytes list \<times> wire_filter" where
  "send_each [] f = ([], f)"
| "send_each (d # ds) f = (let (x, f1) = filter_send d f; (xs, f2) = send_each ds f1 in (x # xs, f2))"

fun receive_each :: "bytes list \<Rightarrow> wire_filter \<Rightarrow> bytes list \<times> wire_filter" where
  "receive_each [] f = ([], f)"
| "receive_each (d # ds) f = (let (x, f1) = filter_receive d f; (xs, f2) = receive_each ds f1 in (x # xs, f2))"

lemma send_each_eq:
  "send_each ds (Arc4 f) = (fst (rc4.pieces (ar_tx f) ds), Arc4 (f\<lparr>ar_tx := snd (rc4.pieces (ar_tx f) ds)\<rparr>))"
  "send_each ds (ChaCha g) = (fst (chacha.pieces (ch_tx g) ds), ChaCha (g\<lparr>ch_tx := snd (chacha.pieces (ch_tx g) ds)\<rparr>))"
  by (induction ds arbitrary: f g) (simp_all add: arc4_send_def chacha_send_def Let_def split_beta)

lemma receive_each_eq:
  "receive_each ds (Arc4 f) = (fst (rc4.pieces (ar_rx f) ds), Arc4 (f\<lparr>ar_rx := snd (rc4.pieces (ar_rx f) ds)\<rparr>))"
  "receive_each ds (ChaCha g) = (fst (chacha.pieces (ch_rx g) ds), ChaCha (g\<lparr>ch_rx := snd (chacha.pieces (ch_rx g) ds)\<rparr>))"
  by (induction ds arbitrary: f g) (simp_all add: arc4_receive_def chacha_receive_def Let_def split_beta)

text \<open>The two constructors, with the key material of a session.\<close>

definition new_filter :: "crypto \<Rightarrow> string \<Rightarrow> bytes \<Rightarrow> bytes \<Rightarrow> wire_filter res" where
  "new_filter cr plugin session_key iv =
     (if plugin = ''Arc4'' then Inr (Arc4 (arc4_new session_key))
      else rthen (chacha_new cr session_key iv) (\<lambda>c. Inr (ChaCha c)))"

definition symmetric :: "wire_filter \<Rightarrow> bool" where
  "symmetric f = (case f of Arc4 a \<Rightarrow> ar_tx a = ar_rx a | ChaCha c \<Rightarrow> ch_tx c = ch_rx c)"

lemma new_filter_symmetric: "new_filter cr plugin key iv = Inr f \<Longrightarrow> symmetric f"
  by (auto simp: new_filter_def symmetric_def arc4_new_def chacha_new_def rthen_def Let_def
      split: if_splits sum.splits)

lemma filter_stream:
  assumes "symmetric f" and "concat cs = concat (fst (send_each ds f))"
  shows "concat (fst (receive_each cs f)) = concat ds"
  using assms rc4.received_in_pieces chacha.received_in_pieces
  by (cases f) (simp_all add: symmetric_def send_each_eq receive_each_eq)



end
