(* ===== verification/Transport.thy ===== *)
theory Transport
  imports Ciphers Wire
begin

text \<open>
  \<open>protocol/transport.ts\<close>: the queue of received bytes, the exact reads over it, and
  the pipeline of both directions, compression beneath encryption. The socket, zlib and
  the caller are events; a run of the transport is a fold over a list of them.
\<close>

subsection \<open>The queue of received bytes\<close>

record byte_queue =
  bq_chunks :: "bytes list"
  bq_head :: nat
  bq_length :: int

definition bq_empty :: byte_queue where
  "bq_empty = \<lparr>bq_chunks = [], bq_head = 0, bq_length = 0\<rparr>"

definition bq_push :: "bytes \<Rightarrow> byte_queue \<Rightarrow> byte_queue" where
  "bq_push c q = (if c = [] then q
     else q\<lparr>bq_chunks := bq_chunks q @ [c], bq_length := bq_length q + int (length c)\<rparr>)"

text \<open>The copying loop: the bytes still wanted, the chunks, \<open>head\<close> and what was copied.\<close>

function copy_loop :: "nat \<Rightarrow> bytes list \<Rightarrow> nat \<Rightarrow> bytes \<Rightarrow> (bytes \<times> bytes list \<times> nat) res" where
  "copy_loop n cs h out =
     (if n = 0 then Inr (out, cs, h)
      else case cs of
        [] \<Rightarrow> Inl TypeErr
      | c # cs' \<Rightarrow>
          let want = min (length c - h) n; out' = out @ take want (drop h c) in
          if h + want = length c then copy_loop (n - want) cs' 0 out'
          else if length c < h then Inl TypeErr
          else copy_loop (n - want) cs (h + want) out')"
  by pat_completeness auto
termination
  by (relation "measure (\<lambda>(n, cs, h, out). n + length cs)") (auto simp: min_def split: if_splits)

declare copy_loop.simps [simp del]

definition bq_take :: "nat \<Rightarrow> byte_queue \<Rightarrow> (bytes \<times> byte_queue) res" where
  "bq_take n q =
     (case bq_chunks q of
        [] \<Rightarrow> Inl TypeErr
      | c # cs \<Rightarrow>
          let h = bq_head q; q' = q\<lparr>bq_length := bq_length q - int n\<rparr> in
          if n \<le> length c - h
          then Inr (take n (drop h c),
            if h + n = length c then q'\<lparr>bq_chunks := cs, bq_head := 0\<rparr> else q'\<lparr>bq_head := h + n\<rparr>)
          else rthen (copy_loop n (c # cs) h []) (\<lambda>(out, cs', h').
            Inr (out, q'\<lparr>bq_chunks := cs', bq_head := h'\<rparr>)))"

text \<open>The queue as the bytes in it.\<close>

definition bq_bytes :: "byte_queue \<Rightarrow> bytes" where
  "bq_bytes q = drop (bq_head q) (concat (bq_chunks q))"

definition chunks_ok :: "bytes list \<Rightarrow> nat \<Rightarrow> bool" where
  "chunks_ok cs h = (list_all (\<lambda>c. c \<noteq> []) cs \<and> (case cs of [] \<Rightarrow> h = 0 | c # _ \<Rightarrow> h < length c))"

definition bq_ok :: "byte_queue \<Rightarrow> bool" where
  "bq_ok q = (chunks_ok (bq_chunks q) (bq_head q) \<and> bq_length q = int (length (bq_bytes q)))"

lemma bq_empty_ok [simp]: "bq_ok bq_empty" "bq_bytes bq_empty = []"
  by (simp_all add: bq_ok_def bq_empty_def bq_bytes_def chunks_ok_def)

lemma chunks_ok_simps [simp]:
  "chunks_ok [] h = (h = 0)"
  "chunks_ok (c # cs) h = (h < length c \<and> list_all (\<lambda>c. c \<noteq> []) cs)"
  by (auto simp: chunks_ok_def)

lemma chunks_ok_0: "list_all (\<lambda>c. c \<noteq> []) cs \<Longrightarrow> chunks_ok cs 0"
  by (cases cs) auto

lemma push_refines:
  assumes "bq_ok q"
  shows "bq_ok (bq_push c q)" and "bq_bytes (bq_push c q) = bq_bytes q @ c"
proof -
  have "bq_head q \<le> length (concat (bq_chunks q))" using assms by (cases "bq_chunks q") (auto simp: bq_ok_def)
  then show bytes: "bq_bytes (bq_push c q) = bq_bytes q @ c" by (simp add: bq_bytes_def bq_push_def)
  show "bq_ok (bq_push c q)"
    using assms bytes by (cases "bq_chunks q") (auto simp: bq_ok_def bq_push_def)
qed

lemma copy_loop_takes:
  assumes "chunks_ok cs h" and "n \<le> length (drop h (concat cs))"
  shows "\<exists>cs' h'. copy_loop n cs h out = Inr (out @ take n (drop h (concat cs)), cs', h') \<and>
    chunks_ok cs' h' \<and> drop h' (concat cs') = drop n (drop h (concat cs))"
  using assms
proof (induction n cs h out rule: copy_loop.induct)
  case (1 n cs h out)
  show ?case
  proof (cases "n = 0")
    case True
    with 1(3) show ?thesis by (simp add: copy_loop.simps)
  next
    case False
    with 1(4) obtain c cs' where cs: "cs = c # cs'" by (cases cs) auto
    let ?want = "min (length c - h) n"
    have h: "h < length c" "list_all (\<lambda>c. c \<noteq> []) cs'" using 1(3) cs by auto
    show ?thesis
    proof (cases "h + ?want = length c")
      case True
      then have len: "length c - h \<le> n" "?want = length c - h" using h by auto
      have "\<exists>cs'' h''. copy_loop (n - ?want) cs' 0 (out @ take ?want (drop h c))
          = Inr ((out @ take ?want (drop h c)) @ take (n - ?want) (drop 0 (concat cs')), cs'', h'') \<and>
          chunks_ok cs'' h'' \<and> drop h'' (concat cs'') = drop (n - ?want) (drop 0 (concat cs'))"
        using 1(1) [OF False cs refl refl True chunks_ok_0 [OF h(2)]] 1(4) len h cs by simp
      then show ?thesis
        using False True h len cs by (subst copy_loop.simps) (auto simp: Let_def)
    next
      case short: False
      then have "n < length c - h" "?want = n" using h by (auto simp: min_def split: if_splits)
      then show ?thesis
        using False short h cs by (subst copy_loop.simps) (simp add: Let_def copy_loop.simps add.commute)
    qed
  qed
qed

lemma take_refines:
  assumes "bq_ok q" and "n \<le> length (bq_bytes q)" and "bq_chunks q \<noteq> []"
  shows "\<exists>q'. bq_take n q = Inr (take n (bq_bytes q), q') \<and> bq_ok q' \<and> bq_bytes q' = drop n (bq_bytes q)"
proof -
  obtain c cs where q: "bq_chunks q = c # cs" using assms(3) by (cases "bq_chunks q") auto
  have h: "bq_head q < length c" "list_all (\<lambda>c. c \<noteq> []) cs" using assms(1) q by (auto simp: bq_ok_def)
  have len: "bq_length q = int (length (bq_bytes q))" using assms(1) by (simp add: bq_ok_def)
  show ?thesis
  proof (cases "n \<le> length c - bq_head q")
    case True
    with q h len chunks_ok_0 [OF h(2)] show ?thesis
      by (auto simp: bq_take_def bq_ok_def bq_bytes_def Let_def add.commute)
  next
    case False
    obtain cs' h' where *: "copy_loop n (c # cs) (bq_head q) [] = Inr (take n (bq_bytes q), cs', h')"
        "chunks_ok cs' h'" "drop h' (concat cs') = drop n (bq_bytes q)"
      using copy_loop_takes [of "bq_chunks q" "bq_head q" n "[]"] assms(1,2) q by (auto simp: bq_ok_def bq_bytes_def)
    let ?q' = "q\<lparr>bq_length := bq_length q - int n, bq_chunks := cs', bq_head := h'\<rparr>"
    have bytes: "bq_bytes ?q' = drop n (bq_bytes q)" using *(3) by (simp add: bq_bytes_def)
    then have "bq_ok ?q'" using *(2) len assms(2) by (simp add: bq_ok_def of_nat_diff)
    moreover have "bq_take n q = Inr (take n (bq_bytes q), ?q')" using False q *(1) by (simp add: bq_take_def Let_def)
    ultimately show ?thesis using bytes by blast
  qed
qed

subsection \<open>The transport\<close>

text \<open>
  zlib, in terms of what was fed before: the pieces a synchronised flush emits for one
  more write, and the pieces inflated from one more chunk, or an error.
\<close>

record zlib =
  zl_deflate :: "bytes list \<Rightarrow> bytes \<Rightarrow> bytes list"
  zl_inflate :: "bytes list \<Rightarrow> bytes \<Rightarrow> bytes list res"

text \<open>
  Both streams work in the background. \<open>zp_jobs\<close> and \<open>zp_arrived\<close> are what they still have to
  do; the other fields are what they did. An inflater that failed is destroyed.
\<close>

datatype zip_job = Deflate bytes | Engage wire_filter

record zip =
  zp_jobs :: "zip_job list"
  zp_deflated :: "bytes list"
  zp_arrived :: "bytes list"
  zp_inflated :: "bytes list"
  zp_broken :: bool

text \<open>\<open>tr_waiting\<close> is \<open>rxWaiter\<close> with the count its read asked for; \<open>tr_results\<close> are the reads settled.\<close>

record transport =
  tr_rx :: byte_queue
  tr_waiting :: "nat option"
  tr_tx_crypt :: "wire_filter option"
  tr_rx_crypt :: "wire_filter option"
  tr_zip :: "zip option"
  tr_error :: "err option"
  tr_closed :: bool
  tr_sent :: "bytes list"
  tr_results :: "(nat \<times> bytes res) list"

definition tr_new :: transport where
  "tr_new = \<lparr>tr_rx = bq_empty, tr_waiting = None, tr_tx_crypt = None, tr_rx_crypt = None, tr_zip = None,
     tr_error = None, tr_closed = False, tr_sent = [], tr_results = []\<rparr>"

text \<open>The loop of \<open>read\<close>: enough bytes are taken even after an error; an error ends the wait.\<close>

definition tr_serve :: "transport \<Rightarrow> transport" where
  "tr_serve t = (case tr_waiting t of
       None \<Rightarrow> t
     | Some n \<Rightarrow>
         let settle = (\<lambda>r t. t\<lparr>tr_waiting := None, tr_results := tr_results t @ [(n, r)]\<rparr>) in
         if int n \<le> bq_length (tr_rx t)
         then (case bq_take n (tr_rx t) of Inl e \<Rightarrow> settle (Inl e) t | Inr (b, q) \<Rightarrow> settle (Inr b) (t\<lparr>tr_rx := q\<rparr>))
         else (case tr_error t of Some e \<Rightarrow> settle (Inl e) t | None \<Rightarrow> t))"

definition tr_read :: "nat \<Rightarrow> transport \<Rightarrow> transport" where
  "tr_read n t = tr_serve (t\<lparr>tr_waiting := Some n\<rparr>)"

definition tr_enqueue :: "bytes \<Rightarrow> transport \<Rightarrow> transport" where
  "tr_enqueue d t = tr_serve (t\<lparr>tr_rx := bq_push d (tr_rx t)\<rparr>)"

definition tr_fail :: "err \<Rightarrow> transport \<Rightarrow> transport" where
  "tr_fail e t = (if tr_error t \<noteq> None then t else tr_serve (t\<lparr>tr_error := Some e\<rparr>))"

definition through :: "(bytes \<Rightarrow> wire_filter \<Rightarrow> bytes \<times> wire_filter) \<Rightarrow> wire_filter option \<Rightarrow> bytes \<Rightarrow> bytes \<times> wire_filter option" where
  "through use f d = (case f of None \<Rightarrow> (d, None) | Some g \<Rightarrow> (let (x, g') = use d g in (x, Some g')))"

definition tr_on_data :: "bytes \<Rightarrow> transport \<Rightarrow> transport" where
  "tr_on_data d t = (let (p, f) = through filter_receive (tr_rx_crypt t) d; t = t\<lparr>tr_rx_crypt := f\<rparr> in
     case tr_zip t of
       None \<Rightarrow> tr_enqueue p t
     | Some z \<Rightarrow> if zp_broken z then t else t\<lparr>tr_zip := Some (z\<lparr>zp_arrived := zp_arrived z @ [p]\<rparr>)\<rparr>)"

definition tr_socket_write :: "bytes \<Rightarrow> transport \<Rightarrow> transport" where
  "tr_socket_write d t = (if tr_error t \<noteq> None then t else
     let (x, f) = through filter_send (tr_tx_crypt t) d; t = t\<lparr>tr_tx_crypt := f\<rparr> in
     if tr_closed t then t else t\<lparr>tr_sent := tr_sent t @ [x]\<rparr>)"

definition tr_write :: "bytes \<Rightarrow> transport \<Rightarrow> unit res \<times> transport" where
  "tr_write d t = (case tr_error t of
       Some e \<Rightarrow> (Inl e, t)
     | None \<Rightarrow> (Inr (), case tr_zip t of
         None \<Rightarrow> tr_socket_write d t
       | Some z \<Rightarrow> if tr_closed t then t else t\<lparr>tr_zip := Some (z\<lparr>zp_jobs := zp_jobs z @ [Deflate d]\<rparr>)\<rparr>))"

text \<open>\<open>installCrypt\<close>: decryption now, encryption once what was written before is compressed.\<close>

definition tr_install_crypt :: "wire_filter \<Rightarrow> transport \<Rightarrow> transport" where
  "tr_install_crypt f t = (let t = t\<lparr>tr_rx_crypt := Some f\<rparr> in
     case tr_zip t of
       None \<Rightarrow> t\<lparr>tr_tx_crypt := Some f\<rparr>
     | Some z \<Rightarrow> t\<lparr>tr_zip := Some (z\<lparr>zp_jobs := zp_jobs z @ [Engage f]\<rparr>)\<rparr>)"

definition tr_enable_compression :: "transport \<Rightarrow> transport" where
  "tr_enable_compression t = t\<lparr>tr_zip := Some \<lparr>zp_jobs = [], zp_deflated = [], zp_arrived = [], zp_inflated = [], zp_broken = False\<rparr>\<rparr>"

definition tr_deflate :: "zlib \<Rightarrow> transport \<Rightarrow> transport" where
  "tr_deflate zl t = (case tr_zip t of
       None \<Rightarrow> t
     | Some z \<Rightarrow> (case zp_jobs z of
           [] \<Rightarrow> t
         | Deflate d # js \<Rightarrow>
             fold tr_socket_write (zl_deflate zl (zp_deflated z) d)
               (t\<lparr>tr_zip := Some (z\<lparr>zp_jobs := js, zp_deflated := zp_deflated z @ [d]\<rparr>)\<rparr>)
         | Engage f # js \<Rightarrow> t\<lparr>tr_zip := Some (z\<lparr>zp_jobs := js\<rparr>), tr_tx_crypt := Some f\<rparr>))"

definition tr_inflate :: "zlib \<Rightarrow> transport \<Rightarrow> transport" where
  "tr_inflate zl t = (case tr_zip t of
       None \<Rightarrow> t
     | Some z \<Rightarrow> if zp_broken z then t else (case zp_arrived z of
           [] \<Rightarrow> t
         | p # ps \<Rightarrow>
             (case zl_inflate zl (zp_inflated z) p of
                Inl e \<Rightarrow> tr_fail e (t\<lparr>tr_zip := Some (z\<lparr>zp_arrived := [], zp_broken := True\<rparr>)\<rparr>)
              | Inr ds \<Rightarrow> fold tr_enqueue ds
                  (t\<lparr>tr_zip := Some (z\<lparr>zp_arrived := ps, zp_inflated := zp_inflated z @ [p]\<rparr>)\<rparr>))))"

definition tr_close :: "transport \<Rightarrow> transport" where
  "tr_close t = (let t = t\<lparr>tr_closed := True\<rparr> in
     case tr_zip t of None \<Rightarrow> t
     | Some z \<Rightarrow> t\<lparr>tr_zip := Some (z\<lparr>zp_jobs := [], zp_arrived := [], zp_broken := True\<rparr>)\<rparr>)"

definition tr_on_close :: "transport \<Rightarrow> transport" where
  "tr_on_close t = (if tr_closed t then t else tr_fail (JsError ''Connection closed by remote end'') t)"

definition tr_is_open :: "transport \<Rightarrow> bool" where
  "tr_is_open t = (tr_error t = None \<and> \<not> tr_closed t)"

subsection \<open>Runs\<close>

datatype tr_event =
    Arrives bytes | Fails err | Ends | Inflates
  | Deflates | Reads nat | Writes bytes | Engages wire_filter | Compresses | Closes

fun tr_step :: "zlib \<Rightarrow> tr_event \<Rightarrow> transport \<Rightarrow> transport" where
  "tr_step zl (Arrives d) t = tr_on_data d t"
| "tr_step zl (Fails e) t = tr_fail e t"
| "tr_step zl Ends t = tr_on_close t"
| "tr_step zl Inflates t = tr_inflate zl t"
| "tr_step zl Deflates t = tr_deflate zl t"
| "tr_step zl (Reads n) t = tr_read n t"
| "tr_step zl (Writes d) t = snd (tr_write d t)"
| "tr_step zl (Engages f) t = tr_install_crypt f t"
| "tr_step zl Compresses t = tr_enable_compression t"
| "tr_step zl Closes t = tr_close t"

definition tr_run :: "zlib \<Rightarrow> tr_event list \<Rightarrow> transport" where
  "tr_run zl es = fold (tr_step zl) es tr_new"

fun delivered :: "(nat \<times> bytes res) list \<Rightarrow> bytes" where
  "delivered [] = []"
| "delivered ((n, Inr b) # rs) = b @ delivered rs"
| "delivered ((n, Inl e) # rs) = delivered rs"

text \<open>
  What a synchronous pipeline would make of the same events. \<open>history\<close> is what was inflated,
  or deflated, so far; \<open>None\<close> while nothing is compressed.
\<close>

fun inflate_all :: "zlib \<Rightarrow> bytes list \<Rightarrow> bytes list \<Rightarrow> bytes" where
  "inflate_all zl hs [] = []"
| "inflate_all zl hs (p # ps) = (case zl_inflate zl hs p of Inl _ \<Rightarrow> [] | Inr ds \<Rightarrow> concat ds @ inflate_all zl (hs @ [p]) ps)"

fun decrypted :: "wire_filter option \<Rightarrow> tr_event list \<Rightarrow> bytes list" where
  "decrypted f [] = []"
| "decrypted f (Arrives d # es) = (let (p, f') = through filter_receive f d in p # decrypted f' es)"
| "decrypted f (Engages g # es) = decrypted (Some g) es"
| "decrypted f (e # es) = decrypted f es"

fun incoming :: "zlib \<Rightarrow> wire_filter option \<Rightarrow> tr_event list \<Rightarrow> bytes" where
  "incoming zl f [] = []"
| "incoming zl f (Arrives d # es) = (let (p, f') = through filter_receive f d in p @ incoming zl f' es)"
| "incoming zl f (Engages g # es) = incoming zl (Some g) es"
| "incoming zl f (Compresses # es) = inflate_all zl [] (decrypted f es)"
| "incoming zl f (e # es) = incoming zl f es"

text \<open>The connection is not closed locally, and compression is enabled at most once.\<close>

fun run_ok :: "bool \<Rightarrow> tr_event list \<Rightarrow> bool" where
  "run_ok b [] = True"
| "run_ok b (Closes # es) = False"
| "run_ok b (Compresses # es) = (\<not> b \<and> run_ok True es)"
| "run_ok b (e # es) = run_ok b es"

subsection \<open>Every byte arrives once and in order\<close>

definition got :: "transport \<Rightarrow> bytes" where
  "got t = delivered (tr_results t) @ bq_bytes (tr_rx t)"

definition future :: "zlib \<Rightarrow> transport \<Rightarrow> tr_event list \<Rightarrow> bytes" where
  "future zl t es = (case tr_zip t of
       None \<Rightarrow> incoming zl (tr_rx_crypt t) es
     | Some z \<Rightarrow> if zp_broken z then [] else inflate_all zl (zp_inflated z) (zp_arrived z @ decrypted (tr_rx_crypt t) es))"

lemma delivered_append [simp]: "delivered (a @ b) = delivered a @ delivered b"
  by (induction a rule: delivered.induct) simp_all

text \<open>Serving a read moves bytes from the queue to the results and touches nothing else.\<close>

definition served :: "transport \<Rightarrow> transport \<Rightarrow> bool" where
  "served t t' = (bq_ok (tr_rx t') \<and> got t' = got t \<and> tr_tx_crypt t' = tr_tx_crypt t \<and> tr_rx_crypt t' = tr_rx_crypt t
     \<and> tr_zip t' = tr_zip t \<and> tr_error t' = tr_error t \<and> tr_closed t' = tr_closed t \<and> tr_sent t' = tr_sent t)"

lemma serve_serves:
  assumes "bq_ok (tr_rx t)"
  shows "served t (tr_serve t)"
proof (cases "tr_waiting t")
  case None
  with assms show ?thesis by (simp add: served_def tr_serve_def)
next
  case (Some n)
  show ?thesis
  proof (cases "int n \<le> bq_length (tr_rx t) \<and> bq_chunks (tr_rx t) \<noteq> []")
    case True
    then have "n \<le> length (bq_bytes (tr_rx t))" using assms by (simp add: bq_ok_def)
    from take_refines [OF assms this conjunct2 [OF True]] obtain q where
      "bq_take n (tr_rx t) = Inr (take n (bq_bytes (tr_rx t)), q)" "bq_ok q" "bq_bytes q = drop n (bq_bytes (tr_rx t))"
      by blast
    with True Some show ?thesis by (simp add: served_def tr_serve_def got_def)
  next
    case False
    with Some assms show ?thesis
      by (cases "bq_chunks (tr_rx t)") (auto simp: served_def tr_serve_def got_def bq_take_def split: option.split)
  qed
qed

lemma enqueue_got:
  assumes "bq_ok (tr_rx t)"
  shows "bq_ok (tr_rx (tr_enqueue d t))" and "got (tr_enqueue d t) = got t @ d"
    and "tr_zip (tr_enqueue d t) = tr_zip t" and "tr_rx_crypt (tr_enqueue d t) = tr_rx_crypt t"
  using serve_serves [of "t\<lparr>tr_rx := bq_push d (tr_rx t)\<rparr>"] push_refines [OF assms, of d]
  by (simp_all add: served_def tr_enqueue_def got_def)

lemma enqueue_all_got:
  assumes "bq_ok (tr_rx t)"
  shows "bq_ok (tr_rx (fold tr_enqueue ds t)) \<and> got (fold tr_enqueue ds t) = got t @ concat ds
    \<and> tr_zip (fold tr_enqueue ds t) = tr_zip t \<and> tr_rx_crypt (fold tr_enqueue ds t) = tr_rx_crypt t"
  using assms by (induction ds arbitrary: t) (simp_all add: enqueue_got)

lemma socket_write_fields [simp]:
  "tr_rx (tr_socket_write d t) = tr_rx t" "tr_results (tr_socket_write d t) = tr_results t"
  "tr_zip (tr_socket_write d t) = tr_zip t" "tr_rx_crypt (tr_socket_write d t) = tr_rx_crypt t"
  "tr_error (tr_socket_write d t) = tr_error t" "tr_closed (tr_socket_write d t) = tr_closed t"
  "tr_waiting (tr_socket_write d t) = tr_waiting t"
  by (simp_all add: tr_socket_write_def Let_def split_beta)

lemma socket_write_all_fields [simp]:
  "tr_rx (fold tr_socket_write ds t) = tr_rx t" "tr_results (fold tr_socket_write ds t) = tr_results t"
  "tr_zip (fold tr_socket_write ds t) = tr_zip t" "tr_rx_crypt (fold tr_socket_write ds t) = tr_rx_crypt t"
  "tr_error (fold tr_socket_write ds t) = tr_error t" "tr_closed (fold tr_socket_write ds t) = tr_closed t"
  "tr_waiting (fold tr_socket_write ds t) = tr_waiting t"
  by (induction ds arbitrary: t) simp_all

text \<open>What a step does to both ends of the account.\<close>

definition carries :: "zlib \<Rightarrow> transport \<Rightarrow> tr_event \<Rightarrow> transport \<Rightarrow> bool" where
  "carries zl t ev t' = (bq_ok (tr_rx t') \<and> (\<forall>es. got t' @ future zl t' es = got t @ future zl t (ev # es)))"

lemma carries_same:
  assumes "bq_ok (tr_rx t')" and "got t' = got t" and "tr_rx_crypt t' = tr_rx_crypt t"
    and "tr_zip t' = tr_zip t" and "\<And>es. future zl t (ev # es) = future zl t es"
  shows "carries zl t ev t'"
proof -
  have "future zl t' es = future zl t es" for es unfolding future_def assms(3) assms(4) ..
  with assms(1,2,5) show ?thesis by (simp add: carries_def)
qed

lemma served_carries:
  assumes "served t t'" and "\<And>es. future zl t (ev # es) = future zl t es"
  shows "carries zl t ev t'"
  using assms by (auto simp: served_def intro: carries_same)

lemma fail_serves: "bq_ok (tr_rx t) \<Longrightarrow> tr_fail e t = t \<or> served (t\<lparr>tr_error := Some e\<rparr>) (tr_fail e t)"
  using serve_serves [of "t\<lparr>tr_error := Some e\<rparr>"] by (simp add: tr_fail_def)

lemma fail_carries:
  assumes "bq_ok (tr_rx t)" and "\<And>es. future zl t (ev # es) = future zl t es"
  shows "carries zl t ev (tr_fail e t)"
  using fail_serves [OF assms(1), of e] assms by (auto simp: served_def got_def intro: carries_same)

lemma on_data_carries:
  assumes ok: "bq_ok (tr_rx t)"
  shows "carries zl t (Arrives d) (tr_on_data d t)"
proof -
  obtain p f where pf: "through filter_receive (tr_rx_crypt t) d = (p, f)" by fastforce
  let ?t = "t\<lparr>tr_rx_crypt := f\<rparr>"
  show ?thesis
  proof (cases "tr_zip t")
    case None
    with enqueue_got [of ?t p] ok pf show ?thesis
      by (simp add: tr_on_data_def carries_def future_def got_def)
  next
    case (Some z)
    with ok pf show ?thesis
      by (auto simp: tr_on_data_def carries_def future_def got_def Let_def)
  qed
qed

lemma inflate_carries:
  assumes ok: "bq_ok (tr_rx t)"
  shows "carries zl t Inflates (tr_inflate zl t)"
proof (cases "tr_zip t")
  case None
  with ok show ?thesis by (simp add: tr_inflate_def carries_def future_def)
next
  case (Some z)
  show ?thesis
  proof (cases "zp_broken z \<or> zp_arrived z = []")
    case True
    with Some ok show ?thesis by (auto simp: tr_inflate_def carries_def future_def)
  next
    case False
    then obtain p ps where Cons: "zp_arrived z = p # ps" by (cases "zp_arrived z") auto
    show ?thesis
    proof (cases "zl_inflate zl (zp_inflated z) p")
      case (Inl e)
      let ?t = "t\<lparr>tr_zip := Some (z\<lparr>zp_arrived := [], zp_broken := True\<rparr>)\<rparr>"
      have eq: "tr_inflate zl t = tr_fail e ?t" using Some Cons Inl False by (simp add: tr_inflate_def)
      have "future zl t (Inflates # es) = []" for es using Some Cons Inl by (simp add: future_def)
      then show ?thesis
        using fail_serves [of ?t e] ok by (auto simp: eq carries_def served_def got_def future_def)
    next
      case (Inr ds)
      let ?t = "t\<lparr>tr_zip := Some (z\<lparr>zp_arrived := ps, zp_inflated := zp_inflated z @ [p]\<rparr>)\<rparr>"
      have eq: "tr_inflate zl t = fold tr_enqueue ds ?t" using Some Cons Inr False by (simp add: tr_inflate_def)
      from enqueue_all_got [of ?t ds] ok Some Cons Inr False show ?thesis
        by (simp add: eq carries_def future_def got_def)
    qed
  qed
qed

lemma deflate_carries:
  assumes ok: "bq_ok (tr_rx t)"
  shows "carries zl t Deflates (tr_deflate zl t)"
proof (cases "tr_zip t")
  case None
  with ok show ?thesis by (simp add: tr_deflate_def carries_def future_def)
next
  case (Some z)
  with ok show ?thesis
    by (simp add: tr_deflate_def carries_def future_def got_def split: list.split zip_job.split)
qed

lemma step_carries:
  assumes "bq_ok (tr_rx t)" and "run_ok (tr_zip t \<noteq> None) (ev # es)"
  shows "carries zl t ev (tr_step zl ev t)"
proof (cases ev)
  case (Reads n)
  with serve_serves [of "t\<lparr>tr_waiting := Some n\<rparr>"] assms(1) show ?thesis
    by (auto simp: tr_read_def served_def got_def future_def intro!: carries_same split: option.split)
next
  case (Writes d)
  with assms(1) show ?thesis
    by (auto simp: tr_write_def carries_def future_def got_def split: option.split)
next
  case (Engages f)
  with assms(1) show ?thesis
    by (auto simp: tr_install_crypt_def carries_def future_def got_def Let_def split: option.split)
next
  case Compresses
  with assms show ?thesis
    by (auto simp: tr_enable_compression_def carries_def future_def got_def)
next
  case Ends
  have "future zl t (Ends # es) = future zl t es" for es by (simp add: future_def split: option.split)
  with Ends assms(1) show ?thesis by (auto simp: tr_on_close_def intro: fail_carries carries_same)
next
  case (Fails e)
  have "future zl t (Fails e # es) = future zl t es" for es by (simp add: future_def split: option.split)
  with Fails assms(1) show ?thesis by (auto intro: fail_carries)
qed (use assms on_data_carries inflate_carries deflate_carries in simp_all)

lemma serve_keeps_zip [simp]: "tr_zip (tr_serve t) = tr_zip t"
  by (auto simp: tr_serve_def Let_def split: option.split sum.split)

lemma enqueue_keeps_zip [simp]: "tr_zip (fold tr_enqueue ds t) = tr_zip t"
  by (induction ds arbitrary: t) (simp_all add: tr_enqueue_def)

lemma step_zip:
  assumes "run_ok (tr_zip t \<noteq> None) (ev # es)"
  shows "run_ok (tr_zip (tr_step zl ev t) \<noteq> None) es"
  using assms
  by (cases ev) (auto simp: tr_on_data_def tr_enqueue_def tr_fail_def tr_on_close_def tr_inflate_def tr_deflate_def tr_read_def
      tr_write_def tr_install_crypt_def tr_enable_compression_def Let_def split_beta split: option.splits list.splits sum.splits zip_job.splits if_splits)

lemma run_carries:
  assumes "bq_ok (tr_rx t)" and "run_ok (tr_zip t \<noteq> None) es"
  shows "got (fold (tr_step zl) es t) @ future zl (fold (tr_step zl) es t) [] = got t @ future zl t es"
  using assms
proof (induction es arbitrary: t)
  case (Cons ev es)
  from step_carries [OF Cons.prems] have "bq_ok (tr_rx (tr_step zl ev t))"
    "got (tr_step zl ev t) @ future zl (tr_step zl ev t) es = got t @ future zl t (ev # es)"
    by (simp_all add: carries_def)
  with Cons.IH [OF _ step_zip [OF Cons.prems(2), of zl]] show ?case by simp
qed simp

text \<open>Each settled read has the length it asked for, and a read still waiting lacks bytes.\<close>

definition reads_ok :: "transport \<Rightarrow> bool" where
  "reads_ok t = (bq_ok (tr_rx t) \<and> (\<forall>n b. (n, Inr b) \<in> set (tr_results t) \<longrightarrow> length b = n)
     \<and> (\<forall>n. tr_waiting t = Some n \<longrightarrow> length (bq_bytes (tr_rx t)) < n \<and> tr_error t = None))"

definition settled_ok :: "transport \<Rightarrow> bool" where
  "settled_ok t = (bq_ok (tr_rx t) \<and> (\<forall>n b. (n, Inr b) \<in> set (tr_results t) \<longrightarrow> length b = n))"

lemma serve_reads_ok:
  assumes "settled_ok t"
  shows "reads_ok (tr_serve t)"
proof (cases "tr_waiting t")
  case None
  with assms show ?thesis by (simp add: reads_ok_def settled_ok_def tr_serve_def)
next
  case (Some n)
  have ok: "bq_ok (tr_rx t)" using assms by (simp add: settled_ok_def)
  show ?thesis
  proof (cases "int n \<le> bq_length (tr_rx t) \<and> bq_chunks (tr_rx t) \<noteq> []")
    case True
    then have len: "n \<le> length (bq_bytes (tr_rx t))" using ok by (simp add: bq_ok_def)
    from take_refines [OF ok this conjunct2 [OF True]] obtain q where
      "bq_take n (tr_rx t) = Inr (take n (bq_bytes (tr_rx t)), q)" "bq_ok q" by blast
    with True Some len assms show ?thesis by (auto simp: reads_ok_def settled_ok_def tr_serve_def)
  next
    case False
    with Some assms ok show ?thesis
      by (cases "bq_chunks (tr_rx t)")
        (auto simp: reads_ok_def settled_ok_def tr_serve_def bq_take_def bq_ok_def split: option.split)
  qed
qed

lemma reads_settled: "reads_ok t \<Longrightarrow> settled_ok t"
  by (simp add: reads_ok_def settled_ok_def)

lemma enqueue_reads_ok: "settled_ok t \<Longrightarrow> reads_ok (tr_enqueue d t)"
  unfolding tr_enqueue_def by (rule serve_reads_ok) (simp add: settled_ok_def push_refines)

lemma enqueue_all_reads_ok: "reads_ok t \<Longrightarrow> reads_ok (fold tr_enqueue ds t)"
  by (induction ds arbitrary: t) (simp_all add: enqueue_reads_ok reads_settled)

lemma fail_reads_ok: "reads_ok t \<Longrightarrow> reads_ok (tr_fail e t)"
  using serve_reads_ok [of "t\<lparr>tr_error := Some e\<rparr>"] by (simp add: tr_fail_def settled_ok_def reads_ok_def)

lemma reads_ok_fields [simp]:
  "reads_ok (t\<lparr>tr_zip := x\<rparr>) = reads_ok t" "reads_ok (t\<lparr>tr_rx_crypt := f\<rparr>) = reads_ok t"
  "reads_ok (t\<lparr>tr_tx_crypt := f\<rparr>) = reads_ok t" "reads_ok (t\<lparr>tr_closed := b\<rparr>) = reads_ok t"
  "reads_ok (fold tr_socket_write ds t) = reads_ok t" "reads_ok (tr_socket_write d t) = reads_ok t"
  by (simp_all add: reads_ok_def)

lemma on_data_reads_ok: "reads_ok t \<Longrightarrow> reads_ok (tr_on_data d t)"
  by (auto simp: tr_on_data_def Let_def split_beta intro!: enqueue_reads_ok reads_settled split: option.split)

lemma inflate_reads_ok: "reads_ok t \<Longrightarrow> reads_ok (tr_inflate zl t)"
  by (auto simp: tr_inflate_def intro!: enqueue_all_reads_ok fail_reads_ok split: option.split list.split sum.split)

lemma deflate_reads_ok: "reads_ok t \<Longrightarrow> reads_ok (tr_deflate zl t)"
  by (auto simp: tr_deflate_def split: option.split list.split zip_job.split)

lemma read_reads_ok: "reads_ok t \<Longrightarrow> reads_ok (tr_read n t)"
  using serve_reads_ok [of "t\<lparr>tr_waiting := Some n\<rparr>"] by (simp add: tr_read_def reads_ok_def settled_ok_def)

lemma step_reads_ok: "reads_ok t \<Longrightarrow> reads_ok (tr_step zl ev t)"
  by (cases ev) (auto simp: on_data_reads_ok inflate_reads_ok deflate_reads_ok read_reads_ok fail_reads_ok tr_on_close_def
      tr_write_def tr_install_crypt_def tr_enable_compression_def tr_close_def Let_def split: option.split)

lemma run_reads_ok: "reads_ok t \<Longrightarrow> reads_ok (fold (tr_step zl) es t)"
  by (induction es arbitrary: t) (simp_all add: step_reads_ok)

definition zip_idle :: "transport \<Rightarrow> bool" where
  "zip_idle t = (case tr_zip t of None \<Rightarrow> True | Some z \<Rightarrow> zp_broken z \<or> zp_arrived z = [])"

text \<open>
  C28. The transport is an exact-read view of the received bytes. However the network cuts
  them up, and however arrivals, reads, background inflation, encryption and errors
  interleave, the reads that returned hold, in order and without a gap, a prefix of what
  the bytes decrypt and inflate to, each of the length it asked for; the queue holds what
  comes next, and a read is kept waiting only while the queue is too short for it.
\<close>

theorem transport_reads_the_stream:
  assumes "run_ok False es" and "t = tr_run zl es"
  shows "(\<exists>rest. incoming zl None es = delivered (tr_results t) @ bq_bytes (tr_rx t) @ rest
      \<and> (zip_idle t \<longrightarrow> rest = []))
    \<and> (\<forall>n b. (n, Inr b) \<in> set (tr_results t) \<longrightarrow> length b = n)
    \<and> (\<forall>n. tr_waiting t = Some n \<longrightarrow> length (bq_bytes (tr_rx t)) < n \<and> tr_error t = None)"
proof (intro conjI)
  have new: "bq_ok (tr_rx tr_new)" "run_ok (tr_zip tr_new \<noteq> None) es" "reads_ok tr_new"
    using assms(1) by (simp_all add: tr_new_def reads_ok_def)
  have carried: "got t @ future zl t [] = incoming zl None es"
    using run_carries [OF new(1,2), of zl] by (simp add: assms(2) tr_run_def) (simp add: tr_new_def got_def future_def)
  have idle: "zip_idle t \<longrightarrow> future zl t [] = []"
    by (auto simp: future_def zip_idle_def split: option.splits)
  show "\<exists>rest. incoming zl None es = delivered (tr_results t) @ bq_bytes (tr_rx t) @ rest
      \<and> (zip_idle t \<longrightarrow> rest = [])"
    using carried idle unfolding got_def by (metis append.assoc)
  show "\<forall>n b. (n, Inr b) \<in> set (tr_results t) \<longrightarrow> length b = n"
    and "\<forall>n. tr_waiting t = Some n \<longrightarrow> length (bq_bytes (tr_rx t)) < n \<and> tr_error t = None"
    using run_reads_ok [OF new(3), of zl es] by (simp_all add: assms(2) tr_run_def reads_ok_def)
qed

lemma transport_reads_the_stream_witness:
  "let t = tr_run \<lparr>zl_deflate = \<lambda>hs d. [d], zl_inflate = \<lambda>hs d. Inr [d]\<rparr> [Reads 4, Arrives [1, 2], Arrives [3, 4, 5], Reads 3, Fails ClosedErr, Reads 1]
   in tr_results t = [(4, Inr [1, 2, 3, 4]), (3, Inl ClosedErr), (1, Inr [5])]
     \<and> (\<forall>n b. (n, Inr b) \<in> set (tr_results t) \<longrightarrow> length b = n)"
proof -
  let ?zl = "\<lparr>zl_deflate = \<lambda>hs d. [d], zl_inflate = \<lambda>hs d. Inr [d]\<rparr>"
  let ?es = "[Reads 4, Arrives [1, 2], Arrives [3, 4, 5], Reads 3, Fails ClosedErr, Reads 1]"
  have "tr_results (tr_run ?zl ?es) = [(4, Inr [1, 2, 3, 4]), (3, Inl ClosedErr), (1, Inr [5])]"
    by (simp add: tr_run_def tr_new_def tr_read_def tr_serve_def bq_empty_def tr_on_data_def tr_enqueue_def tr_fail_def
        through_def bq_push_def bq_take_def copy_loop.simps rthen_def Let_def)
  moreover have "\<forall>n b. (n, Inr b) \<in> set (tr_results (tr_run ?zl ?es)) \<longrightarrow> length b = n"
    by (rule transport_reads_the_stream [where es = ?es and zl = ?zl, THEN conjunct2, THEN conjunct1]) simp_all
  ultimately show ?thesis unfolding Let_def by blast
qed

text \<open>The reads of the connection model are those of a transport holding all the bytes.\<close>

fun wire_reads :: "nat list \<Rightarrow> bytes list rd" where
  "wire_reads [] = rd_return []"
| "wire_reads (n # ns) = rd_bind (read_bytes (int n)) (\<lambda>b. rd_bind (wire_reads ns) (\<lambda>bs. rd_return (b # bs)))"

lemma wire_reads_stream:
  assumes "w_in w = concat bs @ rest"
  shows "wire_reads (map length bs) w = (Inr bs, w\<lparr>w_in := rest\<rparr>)"
  using assms
proof (induction bs arbitrary: w)
  case Nil
  then show ?case by simp
next
  case (Cons b bs)
  then have "read_bytes (int (length b)) w = (Inr b, w\<lparr>w_in := concat bs @ rest\<rparr>)" by (simp add: read_bytes_def)
  then show ?case using Cons.IH [of "w\<lparr>w_in := concat bs @ rest\<rparr>"] by (simp add: rd_bind_def)
qed

fun successes :: "(nat \<times> bytes res) list \<Rightarrow> bytes list" where
  "successes [] = []"
| "successes ((n, Inr b) # rs) = b # successes rs"
| "successes ((n, Inl e) # rs) = successes rs"

lemma delivered_successes: "delivered rs = concat (successes rs)"
  by (induction rs rule: successes.induct) simp_all

subsection \<open>Every byte leaves once, in order and under the right filter\<close>

fun encrypted :: "wire_filter option \<Rightarrow> bytes list \<Rightarrow> bytes list \<times> wire_filter option" where
  "encrypted f [] = ([], f)"
| "encrypted f (d # ds) = (let (x, f1) = through filter_send f d; (xs, f2) = encrypted f1 ds in (x # xs, f2))"

text \<open>What a synchronous pipeline would write for the same events.\<close>

fun outgoing :: "zlib \<Rightarrow> wire_filter option \<Rightarrow> bytes list option \<Rightarrow> tr_event list \<Rightarrow> bytes list" where
  "outgoing zl f h [] = []"
| "outgoing zl f h (Writes d # es) =
     (case h of
        None \<Rightarrow> let (xs, f') = encrypted f [d] in xs @ outgoing zl f' None es
      | Some hs \<Rightarrow> let (xs, f') = encrypted f (zl_deflate zl hs d) in xs @ outgoing zl f' (Some (hs @ [d])) es)"
| "outgoing zl f h (Engages g # es) = outgoing zl (Some g) h es"
| "outgoing zl f h (Compresses # es) = outgoing zl f (Some []) es"
| "outgoing zl f h (e # es) = outgoing zl f h es"

fun job_event :: "zip_job \<Rightarrow> tr_event" where
  "job_event (Deflate d) = Writes d"
| "job_event (Engage f) = Engages f"

definition to_send :: "zlib \<Rightarrow> transport \<Rightarrow> tr_event list \<Rightarrow> bytes list" where
  "to_send zl t es = (case tr_zip t of
       None \<Rightarrow> outgoing zl (tr_tx_crypt t) None es
     | Some z \<Rightarrow> outgoing zl (tr_tx_crypt t) (Some (zp_deflated z)) (map job_event (zp_jobs z) @ es))"

lemma socket_write_all:
  assumes "tr_error t = None" and "\<not> tr_closed t"
  shows "fold tr_socket_write ds t = t\<lparr>tr_sent := tr_sent t @ fst (encrypted (tr_tx_crypt t) ds), tr_tx_crypt := snd (encrypted (tr_tx_crypt t) ds)\<rparr>"
  using assms
proof (induction ds arbitrary: t)
  case (Cons d ds)
  let ?t = "t\<lparr>tr_sent := tr_sent t @ [fst (through filter_send (tr_tx_crypt t) d)], tr_tx_crypt := snd (through filter_send (tr_tx_crypt t) d)\<rparr>"
  have "tr_socket_write d t = ?t" using Cons.prems by (simp add: tr_socket_write_def Let_def split_beta)
  with Cons.IH [of ?t] Cons.prems show ?case by (simp add: Let_def split_beta)
qed simp

text \<open>Steps of the receiving side leave the sending side alone.\<close>

definition same_sending :: "transport \<Rightarrow> transport \<Rightarrow> bool" where
  "same_sending t t' = (tr_sent t' = tr_sent t \<and> tr_tx_crypt t' = tr_tx_crypt t \<and> tr_closed t' = tr_closed t
     \<and> map_option (\<lambda>z. (zp_deflated z, zp_jobs z)) (tr_zip t') = map_option (\<lambda>z. (zp_deflated z, zp_jobs z)) (tr_zip t))"

lemma same_sending_trans: "same_sending a b \<Longrightarrow> same_sending b c \<Longrightarrow> same_sending a c"
  by (simp add: same_sending_def)

lemma same_to_send: "same_sending t t' \<Longrightarrow> tr_sent t' @ to_send zl t' es = tr_sent t @ to_send zl t es"
  by (auto simp: same_sending_def to_send_def split: option.split)

lemma serve_same: "same_sending t (tr_serve t)"
  by (auto simp: same_sending_def tr_serve_def Let_def split: option.split sum.split)

lemma enqueue_same: "same_sending t (tr_enqueue d t)"
  using serve_same [of "t\<lparr>tr_rx := bq_push d (tr_rx t)\<rparr>"] by (simp add: tr_enqueue_def same_sending_def)

lemma enqueue_all_same: "same_sending t (fold tr_enqueue ds t)"
  by (induction ds arbitrary: t) (auto intro: same_sending_trans enqueue_same simp: same_sending_def [of t t for t])

lemma fail_same: "same_sending t (tr_fail e t)"
  using serve_same [of "t\<lparr>tr_error := Some e\<rparr>"] by (simp add: tr_fail_def same_sending_def)

lemma on_data_same: "same_sending t (tr_on_data d t)"
proof -
  obtain p f where "through filter_receive (tr_rx_crypt t) d = (p, f)" by fastforce
  then show ?thesis
    using enqueue_same [of "t\<lparr>tr_rx_crypt := f\<rparr>" p] by (auto simp: tr_on_data_def same_sending_def Let_def split: option.split)
qed

lemma inflate_same: "same_sending t (tr_inflate zl t)"
proof (cases "tr_zip t")
  case (Some z)
  have "same_sending t (t\<lparr>tr_zip := Some (z\<lparr>zp_arrived := a, zp_inflated := b\<rparr>)\<rparr>)"
    "same_sending t (t\<lparr>tr_zip := Some (z\<lparr>zp_arrived := a, zp_broken := c\<rparr>)\<rparr>)" for a b c
    using Some by (simp_all add: same_sending_def)
  with Some show ?thesis
    by (auto simp: tr_inflate_def same_sending_def [of t t] intro: same_sending_trans [OF _ enqueue_all_same] same_sending_trans [OF _ fail_same]
        split: list.split sum.split)
qed (simp add: tr_inflate_def same_sending_def)

definition unseen :: "tr_event \<Rightarrow> bool" where
  "unseen ev = (case ev of Arrives _ \<Rightarrow> True | Fails _ \<Rightarrow> True | Ends \<Rightarrow> True | Inflates \<Rightarrow> True | Deflates \<Rightarrow> True | Reads _ \<Rightarrow> True | _ \<Rightarrow> False)"

lemma outgoing_unseen: "unseen ev \<Longrightarrow> outgoing zl f h (ev # es) = outgoing zl f h es"
  by (cases ev) (simp_all add: unseen_def)

lemma outgoing_jobs_unseen:
  "unseen ev \<Longrightarrow> outgoing zl f (Some hs) (map job_event js @ ev # es) = outgoing zl f (Some hs) (map job_event js @ es)"
proof (induction js arbitrary: f hs)
  case (Cons j js)
  then show ?case by (cases j) (simp_all add: Let_def split_beta)
qed (simp add: outgoing_unseen)

lemma to_send_unseen: "unseen ev \<Longrightarrow> to_send zl t (ev # es) = to_send zl t es"
  by (simp add: to_send_def outgoing_unseen outgoing_jobs_unseen split: option.split)

definition sends :: "zlib \<Rightarrow> transport \<Rightarrow> tr_event \<Rightarrow> transport \<Rightarrow> bool" where
  "sends zl t ev t' = (\<not> tr_closed t' \<and> (\<forall>es. tr_sent t' @ to_send zl t' es = tr_sent t @ to_send zl t (ev # es)))"

lemma same_sends: "same_sending t t' \<Longrightarrow> unseen ev \<Longrightarrow> \<not> tr_closed t \<Longrightarrow> sends zl t ev t'"
  using same_to_send [of t t' zl] by (simp add: sends_def to_send_unseen) (simp add: same_sending_def)

lemma deflate_sends:
  assumes "tr_error t = None" and "\<not> tr_closed t"
  shows "sends zl t Deflates (tr_deflate zl t)"
proof -
  have quiet: "sends zl t Deflates t"
    using assms(2) by (intro same_sends) (simp_all add: same_sending_def unseen_def)
  show ?thesis
  proof (cases "tr_zip t")
    case None
    with quiet show ?thesis by (simp add: tr_deflate_def)
  next
    case (Some z)
    show ?thesis
    proof (cases "zp_jobs z")
      case Nil
      with quiet Some show ?thesis by (simp add: tr_deflate_def)
    next
      case (Cons j js)
      have skip: "outgoing zl f (Some hs) (map job_event js @ Deflates # es) = outgoing zl f (Some hs) (map job_event js @ es)" for f hs es
        by (rule outgoing_jobs_unseen) (simp add: unseen_def)
      from Some Cons assms show ?thesis
        by (cases j) (simp_all add: tr_deflate_def sends_def to_send_def socket_write_all skip Let_def split_beta)
    qed
  qed
qed

lemma write_sends:
  assumes "tr_error t = None" and "\<not> tr_closed t"
  shows "sends zl t (Writes d) (snd (tr_write d t))"
proof (cases "tr_zip t")
  case None
  with assms socket_write_all [of t "[d]"] show ?thesis
    by (simp add: tr_write_def sends_def to_send_def Let_def split_beta)
next
  case (Some z)
  with assms show ?thesis by (simp add: tr_write_def sends_def to_send_def)
qed

lemma step_sends:
  assumes "tr_error t = None" and "\<not> tr_closed t" and "run_ok (tr_zip t \<noteq> None) (ev # es)"
  shows "sends zl t ev (tr_step zl ev t)"
proof (cases ev)
  case (Reads n)
  have "same_sending t (tr_read n t)"
    using serve_same [of "t\<lparr>tr_waiting := Some n\<rparr>"] by (simp add: tr_read_def same_sending_def)
  with Reads assms(2) show ?thesis by (simp add: same_sends unseen_def)
next
  case Ends
  have "same_sending t (tr_on_close t)" using fail_same by (simp add: tr_on_close_def same_sending_def)
  with Ends assms(2) show ?thesis by (simp add: same_sends unseen_def)
next
  case (Engages f)
  with assms show ?thesis
    by (cases "tr_zip t") (simp_all add: tr_install_crypt_def sends_def to_send_def Let_def)
next
  case Compresses
  with assms show ?thesis by (simp add: tr_enable_compression_def sends_def to_send_def)
next
  case Closes
  with assms show ?thesis by simp
qed (use assms in \<open>simp_all add: same_sends unseen_def on_data_same inflate_same fail_same deflate_sends write_sends\<close>)

lemma serve_error [simp]: "tr_error (tr_serve t) = tr_error t"
  by (auto simp: tr_serve_def Let_def split: option.split sum.split)

lemma enqueue_all_error [simp]: "tr_error (fold tr_enqueue ds t) = tr_error t"
  by (induction ds arbitrary: t) (simp_all add: tr_enqueue_def)

lemma error_stays:
  assumes "tr_error t \<noteq> None"
  shows "tr_error (tr_step zl ev t) \<noteq> None"
  using assms
  by (cases ev) (auto simp: tr_on_data_def tr_enqueue_def tr_fail_def tr_on_close_def tr_inflate_def tr_deflate_def tr_read_def
      tr_write_def tr_install_crypt_def tr_enable_compression_def tr_close_def Let_def split_beta
      split: option.split list.split sum.split zip_job.split)

lemma error_stays_run: "tr_error (fold (tr_step zl) es t) = None \<Longrightarrow> tr_error t = None"
  by (induction es arbitrary: t) (auto, metis error_stays not_None_eq)

lemma run_sends:
  assumes "tr_error (fold (tr_step zl) es t) = None" and "\<not> tr_closed t" and "run_ok (tr_zip t \<noteq> None) es"
  shows "tr_sent (fold (tr_step zl) es t) @ to_send zl (fold (tr_step zl) es t) [] = tr_sent t @ to_send zl t es"
  using assms
proof (induction es arbitrary: t)
  case (Cons ev es)
  have "tr_error t = None" by (rule error_stays_run [OF Cons.prems(1)])
  from step_sends [OF this Cons.prems(2,3), of zl] Cons.IH [OF _ _ step_zip [OF Cons.prems(3), of zl]] Cons.prems(1)
  show ?case by (simp add: sends_def)
qed simp

definition all_deflated :: "transport \<Rightarrow> bool" where
  "all_deflated t = (case tr_zip t of None \<Rightarrow> True | Some z \<Rightarrow> zp_jobs z = [])"

text \<open>
  C29. The sending pipeline keeps its order although compression works in the background:
  while no error has occurred, what the socket was given is the beginning of what a
  synchronous pipeline would give it, and all of it once the compressor is idle. So
  every packet written before \<open>installCrypt\<close>, \<open>op_crypt\<close> itself among them, leaves in the
  clear, and every later one encrypted.
\<close>

theorem transport_sends_in_order:
  assumes "run_ok False es" and "t = tr_run zl es" and "tr_error t = None"
  shows "\<exists>rest. outgoing zl None None es = tr_sent t @ rest \<and> (all_deflated t \<longrightarrow> rest = [])"
proof (intro exI conjI impI)
  show "outgoing zl None None es = tr_sent t @ to_send zl t []"
    using run_sends [of zl es tr_new] assms by (simp add: tr_run_def) (simp add: tr_new_def to_send_def)
  show "all_deflated t \<Longrightarrow> to_send zl t [] = []"
    by (simp add: all_deflated_def to_send_def split: option.splits)
qed

lemma transport_sends_in_order_witness:
  "let es = [Compresses, Writes [1], Engages (Arc4 (arc4_new [7])), Writes [2], Deflates, Deflates, Deflates];
     zl = \<lparr>zl_deflate = \<lambda>hs d. [0 # d], zl_inflate = \<lambda>hs d. Inr [d]\<rparr>; t = tr_run zl es in
   \<exists>rest. outgoing zl None None es = tr_sent t @ rest \<and> (all_deflated t \<longrightarrow> rest = []) \<and> hd (tr_sent t) = [0, 1]"
proof -
  let ?es = "[Compresses, Writes [1], Engages (Arc4 (arc4_new [7])), Writes [2], Deflates, Deflates, Deflates]"
  let ?zl = "\<lparr>zl_deflate = \<lambda>hs d. [0 # d], zl_inflate = \<lambda>hs d. Inr [d]\<rparr>"
  note run = tr_run_def tr_new_def tr_enable_compression_def tr_write_def tr_install_crypt_def tr_deflate_def tr_socket_write_def
    through_def Let_def
  have "tr_error (tr_run ?zl ?es) = None" "hd (tr_sent (tr_run ?zl ?es)) = [0, 1]"
    by (simp_all add: run split_beta)
  with transport_sends_in_order [where es = ?es and zl = ?zl, OF _ refl] show ?thesis
    unfolding Let_def by simp
qed

subsection \<open>Reads after a local close\<close>

text \<open>
  After \<open>close()\<close> the socket emits nothing but its \<open>close\<close> event, which the code ignores then,
  and \<open>close\<close> does not call \<open>fail\<close>.
\<close>

definition after_close :: "tr_event \<Rightarrow> bool" where
  "after_close ev = (case ev of Ends \<Rightarrow> True | Inflates \<Rightarrow> True | Deflates \<Rightarrow> True | Writes _ \<Rightarrow> True | _ \<Rightarrow> False)"

definition stuck :: "nat \<Rightarrow> transport \<Rightarrow> bool" where
  "stuck n t = (tr_waiting t = Some n \<and> tr_closed t \<and> tr_error t = None
     \<and> (case tr_zip t of None \<Rightarrow> True | Some z \<Rightarrow> zp_jobs z = [] \<and> zp_arrived z = [] \<and> zp_broken z))"

lemma stuck_step: "stuck n t \<Longrightarrow> after_close ev \<Longrightarrow> stuck n (tr_step zl ev t) \<and> tr_results (tr_step zl ev t) = tr_results t"
  by (cases ev) (auto simp: stuck_def after_close_def tr_on_close_def tr_inflate_def tr_deflate_def tr_write_def split: option.splits)

lemma stuck_run:
  "stuck n t \<Longrightarrow> list_all after_close es \<Longrightarrow>
     stuck n (fold (tr_step zl) es t) \<and> tr_results (fold (tr_step zl) es t) = tr_results t"
proof (induction es arbitrary: t)
  case (Cons ev es)
  with stuck_step [of n t ev zl] show ?case by simp
qed simp

text \<open>
  C30. A local \<open>close()\<close> strands a read in progress: whatever the socket still does, the read
  is neither answered nor rejected, and its caller waits for ever.
\<close>

theorem local_close_strands_reads:
  assumes "tr_waiting t = Some n" and "tr_error t = None" and "list_all after_close es"
    and "t' = fold (tr_step zl) es (tr_close t)"
  shows "tr_waiting t' = Some n \<and> tr_results t' = tr_results t \<and> \<not> tr_is_open t'"
proof -
  have "stuck n (tr_close t)" using assms(1,2) by (auto simp: stuck_def tr_close_def Let_def split: option.split)
  from stuck_run [OF this assms(3), of zl] have "stuck n t' \<and> tr_results t' = tr_results (tr_close t)" by (simp add: assms(4))
  then show ?thesis by (auto simp: stuck_def tr_is_open_def tr_close_def Let_def split: option.splits)
qed

lemma local_close_strands_reads_witness:
  "tr_waiting (fold (tr_step undefined) [Ends, Writes [1], Ends] (tr_close (tr_read 4 tr_new))) = Some 4"
  using local_close_strands_reads [of "tr_read 4 tr_new" 4 "[Ends, Writes [1], Ends]"]
  by (simp add: tr_read_def tr_serve_def tr_new_def bq_empty_def after_close_def)

end
