(* ===== verification/Srp.thy ===== *)
theory Srp
  imports Ciphers
begin

text \<open>
  \<open>protocol/auth/srp.ts\<close>: the client of Firebird's SRP-6a. The hash functions are those of
  Node's crypto library and parameters (\<open>crypto\<close>); random bytes are an argument.
\<close>

subsection \<open>Numbers\<close>

definition srp_N :: int where
  "srp_N = 0xE67D2E994B2F900C3F41F08F5BB2627ED0D49EE1FE767A52EFCD565CD6E768812C3E1E9CE8F0A8BEA6CB13CD29DDEBF7A96D4A93B55D488DF099A15C89DCB0640738EB2CBDD9A8F7BAB561AB1B0DC1C6CDABF303264A08D1BCA932D1F1EE428B619D970F342ABA9A65793B8B2F041AE5364350C16F735F56ECBCA87BD57B29E7"

definition srp_g :: int where
  "srp_g = 2"

definition KEY_BYTES :: nat where
  "KEY_BYTES = 128"

function pow_loop :: "int \<Rightarrow> int \<Rightarrow> int \<Rightarrow> int \<Rightarrow> int" where
  "pow_loop acc b e m =
     (if e \<le> 0 then acc
      else pow_loop (if odd e then (acc * b) mod m else acc) ((b * b) mod m) (e div 2) m)"
  by pat_completeness auto
termination
  by (relation "measure (\<lambda>(acc, b, e, m). nat e)") auto

declare pow_loop.simps [simp del]

text \<open>\<open>base %= mod\<close> keeps the sign of the base; the next line moves it into range.\<close>

definition js_rem :: "int \<Rightarrow> int \<Rightarrow> int" where
  "js_rem a m = (if a < 0 then - ((- a) mod m) else a mod m)"

definition mod_pow :: "int \<Rightarrow> int \<Rightarrow> int \<Rightarrow> int" where
  "mod_pow base e m = (let b = js_rem base m in pow_loop 1 (if b < 0 then b + m else b) e m)"

definition hex_char :: "nat \<Rightarrow> char" where
  "hex_char d = char_of (if d < 10 then 48 + d else 87 + d)"

fun hex_nat :: "nat \<Rightarrow> string" where
  "hex_nat n = (if n < 16 then [hex_char n] else hex_nat (n div 16) @ [hex_char (n mod 16)])"

declare hex_nat.simps [simp del]

text \<open>\<open>v.toString(16)\<close>, for the natural numbers the code uses it on.\<close>

definition hex_of :: "int \<Rightarrow> string" where
  "hex_of v = hex_nat (nat v)"

definition hex_digit_val :: "char \<Rightarrow> int option" where
  "hex_digit_val c = (let n = int (code c) in
     if is_digit c then Some (n - 48) else if 97 \<le> n \<and> n \<le> 102 then Some (n - 87)
     else if 65 \<le> n \<and> n \<le> 70 then Some (n - 55) else None)"

text \<open>\<open>Buffer.from(s, 'hex')\<close>: pairs of digits, up to the first that is not one.\<close>

fun bytes_of_hex :: "string \<Rightarrow> bytes" where
  "bytes_of_hex (a # b # s) = (case (hex_digit_val a, hex_digit_val b) of
     (Some x, Some y) \<Rightarrow> word_of_int (16 * x + y) # bytes_of_hex s | _ \<Rightarrow> [])"
| "bytes_of_hex _ = []"

definition big_int_to_buffer :: "int \<Rightarrow> bytes" where
  "big_int_to_buffer v = (let hex = hex_of v in bytes_of_hex (if odd (length hex) then CHR ''0'' # hex else hex))"

definition buffer_to_big_int :: "bytes \<Rightarrow> int" where
  "buffer_to_big_int b = be_val b"

fun hex_val :: "int \<Rightarrow> string \<Rightarrow> int option" where
  "hex_val acc [] = Some acc"
| "hex_val acc (c # s) = (case hex_digit_val c of None \<Rightarrow> None | Some d \<Rightarrow> hex_val (16 * acc + d) s)"

text \<open>\<open>BigInt('0x' + s)\<close>.\<close>

definition big_int_of_hex :: "string \<Rightarrow> int res" where
  "big_int_of_hex s = (case (if s = [] then None else hex_val 0 s) of
     None \<Rightarrow> Inl (JsError (''Cannot convert 0x'' @ s @ '' to a BigInt'')) | Some v \<Rightarrow> Inr v)"

text \<open>\<open>pad\<close>: the last \<open>KEY_BYTES\<close> bytes, filled up with zeros.\<close>

definition srp_pad :: "int \<Rightarrow> bytes" where
  "srp_pad v = (let b = big_int_to_buffer v in
     if KEY_BYTES \<le> length b then drop (length b - KEY_BYTES) b else replicate (KEY_BYTES - length b) 0 @ b)"

subsection \<open>Keys and proofs\<close>

definition hash_big_int :: "crypto \<Rightarrow> bytes list \<Rightarrow> int" where
  "hash_big_int cr parts = buffer_to_big_int (cr_sha1 cr (concat parts))"

definition proof_hash_for :: "crypto \<Rightarrow> string \<Rightarrow> (bytes \<Rightarrow> bytes) res" where
  "proof_hash_for cr plugin =
     (if plugin = ''Srp'' then Inr (cr_sha1 cr)
      else if plugin = ''Srp256'' then Inr (cr_sha256 cr)
      else Inl (JsError (''Unsupported SRP plugin: '' @ plugin)))"

record srp_ephemeral =
  se_a :: int
  se_A :: int
  se_public_hex :: string

definition ephemeral_from :: "bytes \<Rightarrow> srp_ephemeral option" where
  "ephemeral_from bs = (let a = js_rem (buffer_to_big_int bs) srp_N; A = mod_pow srp_g a srp_N in
     if 1 < A then Some \<lparr>se_a = a, se_A = A, se_public_hex = hex_of A\<rparr> else None)"

text \<open>Without a seed the loop draws again; \<open>None\<close> when every draw given was refused.\<close>

fun draw_ephemeral :: "bytes list \<Rightarrow> srp_ephemeral option" where
  "draw_ephemeral [] = None"
| "draw_ephemeral (d # ds) = (case ephemeral_from d of Some e \<Rightarrow> Some e | None \<Rightarrow> draw_ephemeral ds)"

definition generate_ephemeral :: "bytes option \<Rightarrow> bytes list \<Rightarrow> srp_ephemeral res option" where
  "generate_ephemeral seed draws = (case seed of
     Some b \<Rightarrow> (case ephemeral_from b of Some e \<Rightarrow> Some (Inr e)
       | None \<Rightarrow> Some (Inl (JsError ''Provided SRP seed produces a trivial public key'')))
   | None \<Rightarrow> map_option Inr (draw_ephemeral draws))"

record srp_proof =
  sp_hex :: string
  sp_key :: bytes

text \<open>The pieces of \<open>computeProof\<close>, by the names the code gives them.\<close>

definition srp_u :: "crypto \<Rightarrow> int \<Rightarrow> int \<Rightarrow> int" where
  "srp_u cr A B = hash_big_int cr [big_int_to_buffer A, big_int_to_buffer B]"

definition srp_k :: "crypto \<Rightarrow> int" where
  "srp_k cr = hash_big_int cr [srp_pad srp_N, srp_pad srp_g]"

definition srp_x :: "crypto \<Rightarrow> bytes \<Rightarrow> string \<Rightarrow> string \<Rightarrow> int" where
  "srp_x cr salt user password = buffer_to_big_int (cr_sha1 cr (salt @
     cr_sha1 cr (str_bytes (map upper_char user) @ str_bytes '':'' @ str_bytes password)))"

definition srp_M :: "crypto \<Rightarrow> (bytes \<Rightarrow> bytes) \<Rightarrow> string \<Rightarrow> bytes \<Rightarrow> int \<Rightarrow> int \<Rightarrow> bytes \<Rightarrow> int" where
  "srp_M cr h user salt A B K =
     (let n1 = mod_pow (hash_big_int cr [big_int_to_buffer srp_N]) (hash_big_int cr [big_int_to_buffer srp_g]) srp_N;
          n2 = buffer_to_big_int (cr_sha1 cr (str_bytes (map upper_char user)))
      in buffer_to_big_int (h (big_int_to_buffer n1 @ big_int_to_buffer n2 @ salt @ big_int_to_buffer A @ big_int_to_buffer B @ K)))"

definition srp_S :: "crypto \<Rightarrow> string \<Rightarrow> string \<Rightarrow> bytes \<Rightarrow> srp_ephemeral \<Rightarrow> int \<Rightarrow> int" where
  "srp_S cr user password salt e B =
     (let u = srp_u cr (se_A e) B; k = srp_k cr; x = srp_x cr salt user password;
          gx = mod_pow srp_g x srp_N;
          base0 = js_rem (B - js_rem (k * gx) srp_N) srp_N;
          base = (if base0 < 0 then base0 + srp_N else base0);
          ex = js_rem (se_a e + u * x) srp_N
      in mod_pow base ex srp_N)"

definition compute_proof :: "crypto \<Rightarrow> string \<Rightarrow> string \<Rightarrow> string \<Rightarrow> bytes \<Rightarrow> srp_ephemeral \<Rightarrow> string \<Rightarrow> srp_proof res" where
  "compute_proof cr plugin user password salt e server_hex =
     rthen (big_int_of_hex server_hex) (\<lambda>B.
       if js_rem B srp_N = 0 then Inl (JsError (''Invalid SRP server key (B '' @ map char_of [226, 137, 161 :: nat] @ '' 0 mod N)''))
       else let K = cr_sha1 cr (big_int_to_buffer (srp_S cr user password salt e B)) in
         rthen (proof_hash_for cr plugin) (\<lambda>h.
           Inr \<lparr>sp_hex = hex_of (srp_M cr h user salt (se_A e) B K), sp_key = K\<rparr>))"

definition read_uint16_le :: "bytes \<Rightarrow> nat \<Rightarrow> nat res" where
  "read_uint16_le b off = (if off + 2 \<le> length b then Inr (nat (le_val (take 2 (drop off b)))) else Inl RangeErr)"

definition parse_server_auth_data :: "bytes \<Rightarrow> (bytes \<times> string) res" where
  "parse_server_auth_data b =
     (if length b < 4 then Inl (JsError ''SRP server data too short'')
      else rthen (read_uint16_le b 0) (\<lambda>salt_len.
        let salt = take salt_len (drop 2 b); off = 2 + salt_len in
        rthen (read_uint16_le b off) (\<lambda>key_len.
          let aligned = pad4n (salt_len + 2) in
          rthen (if off + 2 + key_len \<noteq> length b \<and> aligned + 2 \<le> length b
                 then rthen (read_uint16_le b aligned) (\<lambda>k. Inr (aligned, k)) else Inr (off, key_len)) (\<lambda>(off, key_len).
            let server_hex = bytes_str (take (min (off + 2 + key_len) (length b) - (off + 2)) (drop (off + 2) b)) in
            if server_hex \<noteq> [] \<and> list_all (\<lambda>c. hex_digit_val c \<noteq> None) server_hex then Inr (salt, server_hex)
            else Inl (JsError ''SRP server public key is not valid hex'')))))"

subsection \<open>Arithmetic\<close>

lemma js_rem_pos [simp]: "0 \<le> a \<Longrightarrow> js_rem a m = a mod m"
  by (simp add: js_rem_def)

lemma js_rem_fixed:
  assumes "0 < m"
  shows "(if js_rem a m < 0 then js_rem a m + m else js_rem a m) = a mod m"
  using pos_mod_sign [OF assms, of a] pos_mod_bound [OF assms, of a] by (auto simp: js_rem_def zmod_zminus1_eq_if)

lemma pow_loop_correct:
  assumes "1 < m" and "0 \<le> e"
  shows "pow_loop acc b e m mod m = acc * b ^ nat e mod m \<and> (acc mod m = acc \<longrightarrow> pow_loop acc b e m mod m = pow_loop acc b e m)"
  using assms
proof (induction acc b e m rule: pow_loop.induct)
  case (1 acc b e m)
  show ?case
  proof (cases "e \<le> 0")
    case True
    with 1(3) show ?thesis by (simp add: pow_loop.simps)
  next
    case False
    define A where "A = (if odd e then (acc * b) mod m else acc)"
    have IH: "pow_loop A ((b * b) mod m) (e div 2) m mod m = A * (b * b mod m) ^ nat (e div 2) mod m \<and>
        (A mod m = A \<longrightarrow> pow_loop A ((b * b) mod m) (e div 2) m mod m = pow_loop A ((b * b) mod m) (e div 2) m)"
      unfolding A_def by (rule 1(1) [OF False 1(2)]) (use False in simp)
    have e: "nat e = nat (e div 2) + nat (e div 2) + (if odd e then 1 else 0)" using False by (auto elim!: oddE evenE)
    have "A * (b * b mod m) ^ nat (e div 2) mod m = A * (b * b) ^ nat (e div 2) mod m"
      by (metis mod_mult_right_eq power_mod)
    also have "\<dots> = acc * b ^ nat e mod m"
      unfolding e A_def by (auto simp: power_add power_mult_distrib mod_mult_left_eq algebra_simps)
    finally have power: "A * (b * b mod m) ^ nat (e div 2) mod m = acc * b ^ nat e mod m" .
    have "pow_loop acc b e m = pow_loop A ((b * b) mod m) (e div 2) m"
      using False unfolding A_def by (subst pow_loop.simps) (rule if_not_P)
    moreover have "acc mod m = acc \<longrightarrow> A mod m = A" by (simp add: A_def)
    ultimately show ?thesis using IH power by metis
  qed
qed

lemma mod_pow_correct:
  assumes "1 < m" and "0 \<le> e"
  shows "mod_pow b e m = b ^ nat e mod m"
proof -
  have "mod_pow b e m = pow_loop 1 (b mod m) e m"
    using js_rem_fixed [of m b] assms(1) by (simp add: mod_pow_def Let_def)
  also have "\<dots> = (b mod m) ^ nat e mod m" using pow_loop_correct [OF assms, of 1 "b mod m"] assms(1) by simp
  finally show ?thesis by (simp add: power_mod)
qed

lemma srp_N_big [simp]: "1 < srp_N" "0 < srp_N"
  by (simp_all add: srp_N_def)

subsection \<open>Hexadecimal texts\<close>

lemma hex_digit_val_char [simp]: "d < 16 \<Longrightarrow> hex_digit_val (hex_char d) = Some (int d)"
  by (auto simp: hex_char_def hex_digit_val_def is_digit_def)

lemma hex_val_append: "hex_val acc (s @ t) = (case hex_val acc s of None \<Rightarrow> None | Some v \<Rightarrow> hex_val v t)"
  by (induction s arbitrary: acc) (simp_all split: option.split)

lemma hex_val_hex_nat: "hex_val 0 (hex_nat n) = Some (int n)"
proof (induction n rule: hex_nat.induct)
  case (1 n)
  show ?case
  proof (cases "n < 16")
    case True
    then show ?thesis by (simp add: hex_nat.simps)
  next
    case False
    have "16 * int (n div 16) + int (n mod 16) = int n" by (simp add: zdiv_int zmod_int)
    with 1 False show ?thesis by (subst hex_nat.simps) (simp add: hex_val_append zdiv_int zmod_int)
  qed
qed

lemma hex_nat_nonempty [simp]: "hex_nat n \<noteq> []"
  by (subst hex_nat.simps) simp

lemma big_int_of_hex_of: "0 \<le> v \<Longrightarrow> big_int_of_hex (hex_of v) = Inr v"
  by (simp add: big_int_of_hex_def hex_of_def hex_val_hex_nat)

lemma hex_nat_digits: "list_all (\<lambda>c. hex_digit_val c \<noteq> None) (hex_nat n)"
proof (induction n rule: hex_nat.induct)
  case (1 n)
  then show ?case by (subst hex_nat.simps) simp
qed

text \<open>The bytes of a number read back: the hexadecimal text, made even, is its base 256.\<close>

lemma be_val_snoc_le: "le_val (a @ [b]) = le_val a + 256 ^ length a * uint b"
  by (induction a) (simp_all add: algebra_simps)

lemma be_val_Cons: "be_val (b # bs) = uint b * 256 ^ length bs + be_val bs"
  by (simp add: be_val_def be_val_snoc_le)

lemma bytes_of_hex_val:
  assumes "hex_val acc s = Some v" and "even (length s)" and "0 \<le> acc"
  shows "v = acc * 256 ^ length (bytes_of_hex s) + be_val (bytes_of_hex s)"
  using assms
proof (induction s arbitrary: acc v rule: bytes_of_hex.induct)
  case (1 a b s)
  obtain x y where xy: "hex_digit_val a = Some x" "hex_digit_val b = Some y"
    using 1(2) by (auto split: option.splits)
  have range: "0 \<le> x \<and> x < 16 \<and> 0 \<le> y \<and> y < 16"
    using xy by (auto simp: hex_digit_val_def is_digit_def Let_def split: if_splits)
  have "v = (16 * (16 * acc + x) + y) * 256 ^ length (bytes_of_hex s) + be_val (bytes_of_hex s)"
    using 1(1) [OF refl xy, of "16 * (16 * acc + x) + y" v] 1(2-4) xy range by (simp add: algebra_simps)
  moreover have "uint (word_of_int (16 * x + y) :: byte) = 16 * x + y"
    unfolding uint_byte_of_int using range by (intro mod_pos_pos_trivial) simp_all
  then have "be_val (word_of_int (16 * x + y) # bs) = (16 * x + y) * 256 ^ length bs + be_val bs" for bs
    unfolding be_val_Cons by simp
  ultimately show ?case using xy by (simp add: algebra_simps)
qed (simp_all add: be_val_def)

lemma buffer_back: "0 \<le> v \<Longrightarrow> buffer_to_big_int (big_int_to_buffer v) = v"
proof -
  assume v: "0 \<le> v"
  let ?h = "if odd (length (hex_of v)) then CHR ''0'' # hex_of v else hex_of v"
  have "hex_val 0 ?h = Some v" using v hex_val_hex_nat [of "nat v"] by (simp add: hex_of_def hex_digit_val_def is_digit_def)
  then have "v = 0 * 256 ^ length (bytes_of_hex ?h) + be_val (bytes_of_hex ?h)"
    by (rule bytes_of_hex_val) simp_all
  then show ?thesis by (simp add: buffer_to_big_int_def big_int_to_buffer_def Let_def)
qed

subsection \<open>The server's side\<close>

text \<open>
  What the server does, as the documentation of SRP-6a has it: it holds the verifier of the
  password, answers with \<open>B\<close>, and computes the same secret from its own number.
\<close>

definition verifier :: "crypto \<Rightarrow> bytes \<Rightarrow> string \<Rightarrow> string \<Rightarrow> int" where
  "verifier cr salt user password = srp_g ^ nat (srp_x cr salt user password) mod srp_N"

definition server_public :: "crypto \<Rightarrow> int \<Rightarrow> nat \<Rightarrow> int" where
  "server_public cr v b = (srp_k cr * v + srp_g ^ b) mod srp_N"

definition server_secret :: "crypto \<Rightarrow> int \<Rightarrow> nat \<Rightarrow> int \<Rightarrow> int" where
  "server_secret cr v b A = (A * v ^ nat (srp_u cr A (server_public cr v b))) ^ b mod srp_N"

definition auth_data :: "bytes \<Rightarrow> string \<Rightarrow> bytes" where
  "auth_data salt hex = le_bytes 2 (int (length salt)) @ salt @ le_bytes 2 (int (length hex)) @ str_bytes hex"

lemma parse_auth_data:
  assumes "length salt < 65536" and "length hex < 65536" and "hex \<noteq> []" and "list_all (\<lambda>c. hex_digit_val c \<noteq> None) hex"
  shows "parse_server_auth_data (auth_data salt hex) = Inr (salt, hex)"
proof -
  let ?b = "auth_data salt hex"
  have len: "length ?b = 4 + length salt + length hex" by (simp add: auth_data_def)
  have "read_uint16_le ?b 0 = Inr (length salt)"
    using assms(1) by (simp add: read_uint16_le_def len) (simp add: auth_data_def le_val_le_bytes del: le_bytes.simps)
  moreover have "read_uint16_le ?b (2 + length salt) = Inr (length hex)"
    using assms(2) by (simp add: read_uint16_le_def len) (simp add: auth_data_def le_val_le_bytes del: le_bytes.simps)
  moreover have "take (length salt) (drop 2 ?b) = salt" by (simp add: auth_data_def del: le_bytes.simps)
  moreover have "drop (Suc (Suc (Suc (Suc (length salt))))) ?b = str_bytes hex"
    by (simp add: auth_data_def numeral_2_eq_2)
  ultimately show ?thesis
    using assms(3,4) by (simp add: parse_server_auth_data_def len Let_def add.commute add.left_commute)
qed

lemma srp_values_nonneg [simp]: "0 \<le> srp_u cr A B" "0 \<le> srp_k cr" "0 \<le> srp_x cr salt user password" "0 \<le> buffer_to_big_int b"
  by (simp_all add: srp_u_def srp_k_def srp_x_def hash_big_int_def buffer_to_big_int_def be_val_bounds)

lemma ephemeral_values:
  assumes "ephemeral_from seed = Some e"
  shows "0 \<le> se_a e" and "se_A e = srp_g ^ nat (se_a e) mod srp_N" and "1 < se_A e" and "se_public_hex e = hex_of (se_A e)"
  using assms by (auto simp: ephemeral_from_def mod_pow_correct Let_def split: if_splits)

lemma power_mods: "((a::int) mod n * (c mod n) ^ k) ^ b mod n = (a * c ^ k) ^ b mod n"
proof -
  have "a mod n * (c mod n) ^ k mod n = a * c ^ k mod n" by (rule mod_mult_cong) (simp_all add: power_mod)
  from arg_cong [OF this, of "\<lambda>z. z ^ b mod n"] show ?thesis by (simp only: power_mod)
qed

text \<open>The client's base is the server's power of the generator.\<close>

lemma client_base:
  assumes "0 \<le> v"
  shows "(if js_rem (server_public cr v b - js_rem (srp_k cr * v) srp_N) srp_N < 0
      then js_rem (server_public cr v b - js_rem (srp_k cr * v) srp_N) srp_N + srp_N
      else js_rem (server_public cr v b - js_rem (srp_k cr * v) srp_N) srp_N) = srp_g ^ b mod srp_N"
proof -
  have kv: "js_rem (srp_k cr * v) srp_N = srp_k cr * v mod srp_N" by (rule js_rem_pos) (rule mult_nonneg_nonneg [OF srp_values_nonneg(2) assms])
  have "(server_public cr v b - srp_k cr * v mod srp_N) mod srp_N = srp_g ^ b mod srp_N"
    unfolding server_public_def mod_diff_eq by (simp only: add_diff_cancel_left')
  then show ?thesis unfolding kv js_rem_fixed [OF srp_N_big(2)] .
qed

lemma client_secret:
  assumes "0 \<le> a" and "0 \<le> u" and "0 \<le> x"
  shows "(srp_g ^ b mod srp_N) ^ nat (a + u * x) mod srp_N
    = (srp_g ^ nat a mod srp_N * (srp_g ^ nat x mod srp_N) ^ nat u) ^ b mod srp_N"
proof -
  have "b * nat (a + u * x) = (nat a + nat x * nat u) * b"
    using assms by (simp add: nat_add_distrib nat_mult_distrib)
  then have "srp_g ^ (b * nat (a + u * x)) = (srp_g ^ nat a * (srp_g ^ nat x) ^ nat u) ^ b"
    by (simp only: power_mult power_add)
  then show ?thesis by (simp only: power_mods power_mod power_mult [symmetric])
qed

lemma secrets_agree:
  assumes "ephemeral_from seed = Some e" and "v = verifier cr salt user password"
    and "se_a e + srp_u cr (se_A e) (server_public cr v b) * srp_x cr salt user password < srp_N"
  shows "srp_S cr user password salt e (server_public cr v b) = server_secret cr v b (se_A e)"
proof -
  let ?x = "srp_x cr salt user password" and ?u = "srp_u cr (se_A e) (server_public cr v b)"
  note e = ephemeral_values [OF assms(1)]
  have v: "v = srp_g ^ nat ?x mod srp_N" "0 \<le> v" by (simp_all add: assms(2) verifier_def)
  have gx: "mod_pow srp_g ?x srp_N = v" by (simp only: v(1) mod_pow_correct [OF srp_N_big(1) srp_values_nonneg(3)])
  have nonneg: "0 \<le> se_a e + ?u * ?x" using e(1) by simp
  then have ex: "js_rem (se_a e + ?u * ?x) srp_N = se_a e + ?u * ?x" using assms(3) by simp
  have "srp_S cr user password salt e (server_public cr v b) = mod_pow (srp_g ^ b mod srp_N) (se_a e + ?u * ?x) srp_N"
    unfolding srp_S_def Let_def gx by (simp only: client_base [OF v(2)] ex)
  also have "\<dots> = (srp_g ^ b mod srp_N) ^ nat (se_a e + ?u * ?x) mod srp_N"
    by (rule mod_pow_correct [OF srp_N_big(1) nonneg])
  also have "\<dots> = server_secret cr v b (se_A e)"
    unfolding client_secret [OF e(1) srp_values_nonneg(1,3)] server_secret_def by (simp only: e(2) v(1))
  finally show ?thesis .
qed

lemma keys_agree:
  assumes "ephemeral_from seed = Some e" and "v = verifier cr salt user password"
    and "B = server_public cr v b" and "B \<noteq> 0" and "length salt < 65536"
    and "se_a e + srp_u cr (se_A e) B * srp_x cr salt user password < srp_N"
    and "proof_hash_for cr plugin = Inr h" and "length (hex_of B) < 65536"
    and "K = cr_sha1 cr (big_int_to_buffer (server_secret cr v b (se_A e)))"
  shows "rthen (parse_server_auth_data (auth_data salt (hex_of B)))
      (\<lambda>(salt', server_hex). compute_proof cr plugin user password salt' e server_hex)
    = Inr \<lparr>sp_hex = hex_of (srp_M cr h user salt (se_A e) B K), sp_key = K\<rparr>"
proof -
  have range: "0 \<le> B" "B < srp_N" by (simp_all add: assms(3) server_public_def)
  have "parse_server_auth_data (auth_data salt (hex_of B)) = Inr (salt, hex_of B)"
    using assms(5,8) hex_nat_digits by (intro parse_auth_data) (simp_all add: hex_of_def)
  with range assms(4,7,9) secrets_agree [OF assms(1,2) assms(6) [unfolded assms(3)]] show ?thesis
    by (simp add: compute_proof_def big_int_of_hex_of Let_def flip: assms(3))
qed

text \<open>
  C31. The client and a server that holds the verifier of the same password agree: from
  the server's message the client computes the session key of the server's own secret,
  and the proof the server expects, although the client reduces its exponent modulo
  \<open>N\<close>, as long as the exponent is below it.
\<close>

theorem srp_keys_agree:
  assumes "ephemeral_from seed = Some e" and "v = verifier cr salt user password"
    and "B = server_public cr v b" and "B \<noteq> 0" and "length salt < 65536"
    and "se_a e + srp_u cr (se_A e) B * srp_x cr salt user password < srp_N"
    and "proof_hash_for cr plugin = Inr h" and "length (hex_of B) < 65536"
    and "K = cr_sha1 cr (big_int_to_buffer (server_secret cr v b (se_A e)))"
  shows "rthen (parse_server_auth_data (auth_data salt (hex_of B)))
      (\<lambda>(salt', server_hex). compute_proof cr plugin user password salt' e server_hex)
    = Inr \<lparr>sp_hex = hex_of (srp_M cr h user salt (se_A e) B K), sp_key = K\<rparr>"
  by (rule keys_agree [OF assms])

text \<open>A crypto library for the examples: constant digests of the right length.\<close>

definition sample_crypto :: crypto where
  "sample_crypto = \<lparr>cr_sha1 = \<lambda>_. replicate 19 0 @ [1], cr_sha256 = \<lambda>_. replicate 31 0 @ [1], cr_keystream = \<lambda>_ _ _. 0\<rparr>"

lemma sample_values [simp]: "srp_u sample_crypto A B = 1" "srp_k sample_crypto = 1" "srp_x sample_crypto salt user password = 1"
  by (simp_all add: srp_u_def srp_k_def srp_x_def hash_big_int_def buffer_to_big_int_def sample_crypto_def be_val_def eval_nat_numeral)

definition sample_ephemeral :: srp_ephemeral where
  "sample_ephemeral = \<lparr>se_a = 3, se_A = 8, se_public_hex = ''8''\<rparr>"

lemma sample_ephemeral_from: "ephemeral_from [3] = Some sample_ephemeral"
proof -
  have "mod_pow srp_g 3 srp_N = 8" by (subst mod_pow_correct) (simp_all add: srp_g_def srp_N_def)
  moreover have "js_rem (buffer_to_big_int [3]) srp_N = 3"
    by (simp add: buffer_to_big_int_def be_val_def srp_N_def)
  moreover have "hex_of 8 = ''8''" by (simp add: hex_of_def hex_nat.simps hex_char_def) code_simp
  ultimately show ?thesis by (simp add: ephemeral_from_def sample_ephemeral_def)
qed

lemma srp_keys_agree_witness:
  "\<exists>M. rthen (parse_server_auth_data (auth_data [5] (hex_of 6)))
      (\<lambda>(salt', server_hex). compute_proof sample_crypto ''Srp'' ''SYSDBA'' ''masterkey'' salt' sample_ephemeral server_hex)
    = Inr \<lparr>sp_hex = M, sp_key = replicate 19 0 @ [1]\<rparr>"
proof -
  have v: "(2::int) = verifier sample_crypto [5] ''SYSDBA'' ''masterkey''" by (simp add: verifier_def srp_g_def srp_N_def)
  have B: "(6::int) = server_public sample_crypto 2 2" by (simp add: server_public_def srp_g_def srp_N_def)
  have "length (hex_of 6) < 65536" by (simp add: hex_of_def hex_nat.simps)
  with srp_keys_agree [OF sample_ephemeral_from v B _ _ _ _ _ refl, of "''Srp''"] show ?thesis
    by (intro exI) (simp add: sample_ephemeral_def srp_N_def proof_hash_for_def, simp add: sample_crypto_def)
qed

end
