(* ===== verification/Legacy_Auth.thy ===== *)
theory Legacy_Auth
  imports Errors
begin

unbundle bit_operations_syntax

text \<open>
  \<open>protocol/auth/legacy.ts\<close>: the DES \<open>crypt(3)\<close> hash of \<open>Legacy_Auth\<close>, with the tables of the
  code. Its numbers are only ever used by 32-bit operators, so they are words here.
\<close>

subsection \<open>Tables\<close>

definition CON_SALT :: "32 word list" where
  "CON_SALT = [
    0, 0, 0, 0, 0, 0, 0, 0, 0, 0, 0, 0, 0, 0, 0, 0, 0, 0, 0, 0, 0, 0, 0, 0, 0, 0, 0, 0, 0, 0, 0, 0, 0, 0, 0,
    0, 0, 0, 0, 0, 0, 0, 0, 0, 0, 0, 0, 1, 2, 3, 4, 5, 6, 7, 8, 9, 10, 11, 5, 6, 7, 8, 9, 10, 11, 12, 13, 14,
    15, 16, 17, 18, 19, 20, 21, 22, 23, 24, 25, 26, 27, 28, 29, 30, 31, 32, 33, 34, 35, 36, 37, 32, 33, 34,
    35, 36, 37, 38, 39, 40, 41, 42, 43, 44, 45, 46, 47, 48, 49, 50, 51, 52, 53, 54, 55, 56, 57, 58, 59, 60,
    61, 62, 63, 0, 0, 0, 0, 0]"

definition COV2CHAR :: "nat list" where
  "COV2CHAR = [
    46, 47, 48, 49, 50, 51, 52, 53, 54, 55, 56, 57, 65, 66, 67, 68, 69, 70, 71, 72, 73, 74, 75, 76, 77, 78,
    79, 80, 81, 82, 83, 84, 85, 86, 87, 88, 89, 90, 97, 98, 99, 100, 101, 102, 103, 104, 105, 106, 107, 108,
    109, 110, 111, 112, 113, 114, 115, 116, 117, 118, 119, 120, 121, 122]"

definition SHIFT2 :: "bool list" where
  "SHIFT2 = [False, False, True, True, True, True, True, True, False, True, True, True, True, True, True, False]"

definition SKB :: "32 word list list" where
  "SKB = [
    [
      0, 16, 0x20000000, 0x20000010, 0x10000, 0x10010, 0x20010000, 0x20010010, 2048, 2064, 0x20000800,
      0x20000810, 0x10800, 0x10810, 0x20010800, 0x20010810, 32, 48, 0x20000020, 0x20000030, 0x10020, 0x10030,
      0x20010020, 0x20010030, 2080, 2096, 0x20000820, 0x20000830, 0x10820, 0x10830, 0x20010820, 0x20010830,
      0x80000, 0x80010, 0x20080000, 0x20080010, 0x90000, 0x90010, 0x20090000, 0x20090010, 0x80800, 0x80810,
      0x20080800, 0x20080810, 0x90800, 0x90810, 0x20090800, 0x20090810, 0x80020, 0x80030, 0x20080020,
      0x20080030, 0x90020, 0x90030, 0x20090020, 0x20090030, 0x80820, 0x80830, 0x20080820, 0x20080830,
      0x90820, 0x90830, 0x20090820, 0x20090830],
    [
      0, 0x2000000, 8192, 0x2002000, 0x200000, 0x2200000, 0x202000, 0x2202000, 4, 0x2000004, 8196, 0x2002004,
      0x200004, 0x2200004, 0x202004, 0x2202004, 1024, 0x2000400, 9216, 0x2002400, 0x200400, 0x2200400,
      0x202400, 0x2202400, 1028, 0x2000404, 9220, 0x2002404, 0x200404, 0x2200404, 0x202404, 0x2202404,
      0x10000000, 0x12000000, 0x10002000, 0x12002000, 0x10200000, 0x12200000, 0x10202000, 0x12202000,
      0x10000004, 0x12000004, 0x10002004, 0x12002004, 0x10200004, 0x12200004, 0x10202004, 0x12202004,
      0x10000400, 0x12000400, 0x10002400, 0x12002400, 0x10200400, 0x12200400, 0x10202400, 0x12202400,
      0x10000404, 0x12000404, 0x10002404, 0x12002404, 0x10200404, 0x12200404, 0x10202404, 0x12202404],
    [
      0, 1, 0x40000, 0x40001, 0x1000000, 0x1000001, 0x1040000, 0x1040001, 2, 3, 0x40002, 0x40003, 0x1000002,
      0x1000003, 0x1040002, 0x1040003, 512, 513, 0x40200, 0x40201, 0x1000200, 0x1000201, 0x1040200,
      0x1040201, 514, 515, 0x40202, 0x40203, 0x1000202, 0x1000203, 0x1040202, 0x1040203, 0x8000000,
      0x8000001, 0x8040000, 0x8040001, 0x9000000, 0x9000001, 0x9040000, 0x9040001, 0x8000002, 0x8000003,
      0x8040002, 0x8040003, 0x9000002, 0x9000003, 0x9040002, 0x9040003, 0x8000200, 0x8000201, 0x8040200,
      0x8040201, 0x9000200, 0x9000201, 0x9040200, 0x9040201, 0x8000202, 0x8000203, 0x8040202, 0x8040203,
      0x9000202, 0x9000203, 0x9040202, 0x9040203],
    [
      0, 0x100000, 256, 0x100100, 8, 0x100008, 264, 0x100108, 4096, 0x101000, 4352, 0x101100, 4104, 0x101008,
      4360, 0x101108, 0x4000000, 0x4100000, 0x4000100, 0x4100100, 0x4000008, 0x4100008, 0x4000108, 0x4100108,
      0x4001000, 0x4101000, 0x4001100, 0x4101100, 0x4001008, 0x4101008, 0x4001108, 0x4101108, 0x20000,
      0x120000, 0x20100, 0x120100, 0x20008, 0x120008, 0x20108, 0x120108, 0x21000, 0x121000, 0x21100,
      0x121100, 0x21008, 0x121008, 0x21108, 0x121108, 0x4020000, 0x4120000, 0x4020100, 0x4120100, 0x4020008,
      0x4120008, 0x4020108, 0x4120108, 0x4021000, 0x4121000, 0x4021100, 0x4121100, 0x4021008, 0x4121008,
      0x4021108, 0x4121108],
    [
      0, 0x10000000, 0x10000, 0x10010000, 4, 0x10000004, 0x10004, 0x10010004, 0x20000000, 0x30000000,
      0x20010000, 0x30010000, 0x20000004, 0x30000004, 0x20010004, 0x30010004, 0x100000, 0x10100000, 0x110000,
      0x10110000, 0x100004, 0x10100004, 0x110004, 0x10110004, 0x20100000, 0x30100000, 0x20110000, 0x30110000,
      0x20100004, 0x30100004, 0x20110004, 0x30110004, 4096, 0x10001000, 0x11000, 0x10011000, 4100,
      0x10001004, 0x11004, 0x10011004, 0x20001000, 0x30001000, 0x20011000, 0x30011000, 0x20001004,
      0x30001004, 0x20011004, 0x30011004, 0x101000, 0x10101000, 0x111000, 0x10111000, 0x101004, 0x10101004,
      0x111004, 0x10111004, 0x20101000, 0x30101000, 0x20111000, 0x30111000, 0x20101004, 0x30101004,
      0x20111004, 0x30111004],
    [
      0, 0x8000000, 8, 0x8000008, 1024, 0x8000400, 1032, 0x8000408, 0x20000, 0x8020000, 0x20008, 0x8020008,
      0x20400, 0x8020400, 0x20408, 0x8020408, 1, 0x8000001, 9, 0x8000009, 1025, 0x8000401, 1033, 0x8000409,
      0x20001, 0x8020001, 0x20009, 0x8020009, 0x20401, 0x8020401, 0x20409, 0x8020409, 0x2000000, 0xa000000,
      0x2000008, 0xa000008, 0x2000400, 0xa000400, 0x2000408, 0xa000408, 0x2020000, 0xa020000, 0x2020008,
      0xa020008, 0x2020400, 0xa020400, 0x2020408, 0xa020408, 0x2000001, 0xa000001, 0x2000009, 0xa000009,
      0x2000401, 0xa000401, 0x2000409, 0xa000409, 0x2020001, 0xa020001, 0x2020009, 0xa020009, 0x2020401,
      0xa020401, 0x2020409, 0xa020409],
    [
      0, 256, 0x80000, 0x80100, 0x1000000, 0x1000100, 0x1080000, 0x1080100, 16, 272, 0x80010, 0x80110,
      0x1000010, 0x1000110, 0x1080010, 0x1080110, 0x200000, 0x200100, 0x280000, 0x280100, 0x1200000,
      0x1200100, 0x1280000, 0x1280100, 0x200010, 0x200110, 0x280010, 0x280110, 0x1200010, 0x1200110,
      0x1280010, 0x1280110, 512, 768, 0x80200, 0x80300, 0x1000200, 0x1000300, 0x1080200, 0x1080300, 528, 784,
      0x80210, 0x80310, 0x1000210, 0x1000310, 0x1080210, 0x1080310, 0x200200, 0x200300, 0x280200, 0x280300,
      0x1200200, 0x1200300, 0x1280200, 0x1280300, 0x200210, 0x200310, 0x280210, 0x280310, 0x1200210,
      0x1200310, 0x1280210, 0x1280310],
    [
      0, 0x4000000, 0x40000, 0x4040000, 2, 0x4000002, 0x40002, 0x4040002, 8192, 0x4002000, 0x42000,
      0x4042000, 8194, 0x4002002, 0x42002, 0x4042002, 32, 0x4000020, 0x40020, 0x4040020, 34, 0x4000022,
      0x40022, 0x4040022, 8224, 0x4002020, 0x42020, 0x4042020, 8226, 0x4002022, 0x42022, 0x4042022, 2048,
      0x4000800, 0x40800, 0x4040800, 2050, 0x4000802, 0x40802, 0x4040802, 10240, 0x4002800, 0x42800,
      0x4042800, 10242, 0x4002802, 0x42802, 0x4042802, 2080, 0x4000820, 0x40820, 0x4040820, 2082, 0x4000822,
      0x40822, 0x4040822, 10272, 0x4002820, 0x42820, 0x4042820, 10274, 0x4002822, 0x42822, 0x4042822]]"

definition SPTRANS :: "32 word list list" where
  "SPTRANS = [
    [
      0x820200, 0x20000, 0x80800000, 0x80820200, 0x800000, 0x80020200, 0x80020000, 0x80800000, 0x80020200,
      0x820200, 0x820000, 0x80000200, 0x80800200, 0x800000, 0, 0x80020000, 0x20000, 0x80000000, 0x800200,
      0x20200, 0x80820200, 0x820000, 0x80000200, 0x800200, 0x80000000, 512, 0x20200, 0x80820000, 512,
      0x80800200, 0x80820000, 0, 0, 0x80820200, 0x800200, 0x80020000, 0x820200, 0x20000, 0x80000200,
      0x800200, 0x80820000, 512, 0x20200, 0x80800000, 0x80020200, 0x80000000, 0x80800000, 0x820000,
      0x80820200, 0x20200, 0x820000, 0x80800200, 0x800000, 0x80000200, 0x80020000, 0, 0x20000, 0x800000,
      0x80800200, 0x820200, 0x80000000, 0x80820000, 512, 0x80020200],
    [
      0x10042004, 0, 0x42000, 0x10040000, 0x10000004, 8196, 0x10002000, 0x42000, 8192, 0x10040004, 4,
      0x10002000, 0x40004, 0x10042000, 0x10040000, 4, 0x40000, 0x10002004, 0x10040004, 8192, 0x42004,
      0x10000000, 0, 0x40004, 0x10002004, 0x42004, 0x10042000, 0x10000004, 0x10000000, 0x40000, 8196,
      0x10042004, 0x40004, 0x10042000, 0x10002000, 0x42004, 0x10042004, 0x40004, 0x10000004, 0, 0x10000000,
      8196, 0x40000, 0x10040004, 8192, 0x10000000, 0x42004, 0x10002004, 0x10042000, 8192, 0, 0x10000004, 4,
      0x10042004, 0x42000, 0x10040000, 0x10040004, 0x40000, 8196, 0x10002000, 0x10002004, 4, 0x10040000,
      0x42000],
    [
      0x41000000, 0x1010040, 64, 0x41000040, 0x40010000, 0x1000000, 0x41000040, 0x10040, 0x1000040, 0x10000,
      0x1010000, 0x40000000, 0x41010040, 0x40000040, 0x40000000, 0x41010000, 0, 0x40010000, 0x1010040, 64,
      0x40000040, 0x41010040, 0x10000, 0x41000000, 0x41010000, 0x1000040, 0x40010040, 0x1010000, 0x10040, 0,
      0x1000000, 0x40010040, 0x1010040, 64, 0x40000000, 0x10000, 0x40000040, 0x40010000, 0x1010000,
      0x41000040, 0, 0x1010040, 0x10040, 0x41010000, 0x40010000, 0x1000000, 0x41010040, 0x40000000,
      0x40010040, 0x41000000, 0x1000000, 0x41010040, 0x10000, 0x1000040, 0x41000040, 0x10040, 0x1000040, 0,
      0x41010000, 0x40000040, 0x41000000, 0x40010040, 64, 0x1010000],
    [
      0x100402, 0x4000400, 2, 0x4100402, 0, 0x4100000, 0x4000402, 0x100002, 0x4100400, 0x4000002, 0x4000000,
      1026, 0x4000002, 0x100402, 0x100000, 0x4000000, 0x4100002, 0x100400, 1024, 2, 0x100400, 0x4000402,
      0x4100000, 1024, 1026, 0, 0x100002, 0x4100400, 0x4000400, 0x4100002, 0x4100402, 0x100000, 0x4100002,
      1026, 0x100000, 0x4000002, 0x100400, 0x4000400, 2, 0x4100000, 0x4000402, 0, 1024, 0x100002, 0,
      0x4100002, 0x4100400, 1024, 0x4000000, 0x4100402, 0x100402, 0x100000, 0x4100402, 2, 0x4000400,
      0x100402, 0x100002, 0x100400, 0x4100000, 0x4000402, 1026, 0x4000000, 0x4000002, 0x4100400],
    [
      0x2000000, 16384, 256, 0x2004108, 0x2004008, 0x2000100, 16648, 0x2004000, 16384, 8, 0x2000008, 16640,
      0x2000108, 0x2004008, 0x2004100, 0, 16640, 0x2000000, 16392, 264, 0x2000100, 16648, 0, 0x2000008, 8,
      0x2000108, 0x2004108, 16392, 0x2004000, 256, 264, 0x2004100, 0x2004100, 0x2000108, 16392, 0x2004000,
      16384, 8, 0x2000008, 0x2000100, 0x2000000, 16640, 0x2004108, 0, 16648, 0x2000000, 256, 16392,
      0x2000108, 256, 0, 0x2004108, 0x2004008, 0x2004100, 264, 16384, 16640, 0x2004008, 0x2000100, 264, 8,
      16648, 0x2004000, 0x2000008],
    [
      0x20000010, 0x80010, 0, 0x20080800, 0x80010, 2048, 0x20000810, 0x80000, 2064, 0x20080810, 0x80800,
      0x20000000, 0x20000800, 0x20000010, 0x20080000, 0x80810, 0x80000, 0x20000810, 0x20080010, 0, 2048, 16,
      0x20080800, 0x20080010, 0x20080810, 0x20080000, 0x20000000, 2064, 16, 0x80800, 0x80810, 0x20000800,
      2064, 0x20000000, 0x20000800, 0x80810, 0x20080800, 0x80010, 0, 0x20000800, 0x20000000, 2048,
      0x20080010, 0x80000, 0x80010, 0x20080810, 0x80800, 16, 0x20080810, 0x80800, 0x80000, 0x20000810,
      0x20000010, 0x20080000, 0x80810, 0, 2048, 0x20000010, 0x20000810, 0x20080800, 0x20080000, 2064, 16,
      0x20080010],
    [
      4096, 128, 0x400080, 0x400001, 0x401081, 4097, 4224, 0, 0x400000, 0x400081, 129, 0x401000, 1, 0x401080,
      0x401000, 129, 0x400081, 4096, 4097, 0x401081, 0, 0x400080, 0x400001, 4224, 0x401001, 4225, 0x401080,
      1, 4225, 0x401001, 128, 0x400000, 4225, 0x401000, 0x401001, 129, 4096, 128, 0x400000, 0x401001,
      0x400081, 4225, 4224, 0, 128, 0x400001, 1, 0x400080, 0, 0x400081, 0x400080, 4224, 129, 4096, 0x401081,
      0x400000, 0x401080, 1, 4097, 0x401081, 0x400001, 0x401080, 0x401000, 4097],
    [
      0x8200020, 0x8208000, 32800, 0, 0x8008000, 0x200020, 0x8200000, 0x8208020, 32, 0x8000000, 0x208000,
      32800, 0x208020, 0x8008020, 0x8000020, 0x8200000, 32768, 0x208020, 0x200020, 0x8008000, 0x8208020,
      0x8000020, 0, 0x208000, 0x8000000, 0x200000, 0x8008020, 0x8200020, 0x200000, 32768, 0x8208000, 32,
      0x200000, 32768, 0x8000020, 0x8208020, 32800, 0x8000000, 0, 0x208000, 0x8200020, 0x8008020, 0x8008000,
      0x200020, 0x8208000, 32, 0x200020, 0x8008000, 0x8208020, 0x200000, 0x8200000, 0x8000020, 0x208000,
      32800, 0x8008020, 0x8200000, 32, 0x8208000, 0x208020, 0, 0x8000000, 0x8200020, 32768, 0x208020]]"

subsection \<open>The cipher\<close>

definition h_perm_op :: "32 word \<Rightarrow> int \<Rightarrow> 32 word \<Rightarrow> 32 word" where
  "h_perm_op a n m = (let t = (push_bit (nat (16 - n)) a XOR a) AND m in a XOR t XOR drop_bit (nat (16 - n)) t)"

definition int_to_four_bytes :: "32 word \<Rightarrow> bytes" where
  "int_to_four_bytes v = [ucast (v AND 0xff), ucast (drop_bit 8 v AND 0xff), ucast (drop_bit 16 v AND 0xff), ucast (drop_bit 24 v AND 0xff)]"

definition four_bytes_to_int :: "bytes \<Rightarrow> nat \<Rightarrow> 32 word" where
  "four_bytes_to_int b off =
     ucast (b ! off) OR push_bit 8 (ucast (b ! (off + 1))) OR push_bit 16 (ucast (b ! (off + 2))) OR push_bit 24 (ucast (b ! (off + 3)))"

text \<open>The pair is \<open>results\<close>.\<close>

definition perm_op :: "32 word \<Rightarrow> 32 word \<Rightarrow> nat \<Rightarrow> 32 word \<Rightarrow> 32 word \<times> 32 word" where
  "perm_op a b n m = (let t = (drop_bit n a XOR b) AND m in (a XOR push_bit n t, b XOR t))"

definition table :: "32 word list list \<Rightarrow> nat \<Rightarrow> 32 word \<Rightarrow> 32 word" where
  "table tab k i = tab ! k ! unat i"

definition schedule_round :: "bool \<Rightarrow> 32 word \<times> 32 word \<Rightarrow> 32 word list \<times> 32 word \<times> 32 word" where
  "schedule_round two = (\<lambda>(c, d).
     let rot = (\<lambda>x. (if two then drop_bit 2 x OR push_bit 26 x else drop_bit 1 x OR push_bit 27 x) AND 0xfffffff);
         c = rot c; d = rot d;
         s = table SKB 0 (c AND 0x3f)
           OR table SKB 1 ((drop_bit 6 c AND 0x3) OR (drop_bit 7 c AND 0x3c))
           OR table SKB 2 ((drop_bit 13 c AND 0xf) OR (drop_bit 14 c AND 0x30))
           OR table SKB 3 ((drop_bit 20 c AND 0x1) OR (drop_bit 21 c AND 0x6) OR (drop_bit 22 c AND 0x38));
         t = table SKB 4 (d AND 0x3f)
           OR table SKB 5 ((drop_bit 7 d AND 0x3) OR (drop_bit 8 d AND 0x3c))
           OR table SKB 6 (drop_bit 15 d AND 0x3f)
           OR table SKB 7 ((drop_bit 21 d AND 0xf) OR (drop_bit 22 d AND 0x30));
         s' = drop_bit 16 s OR (t AND 0xffff0000)
     in ([push_bit 16 t OR (s AND 0xffff), push_bit 4 s' OR drop_bit 28 s'], c, d))"

fun schedule_rounds :: "bool list \<Rightarrow> 32 word \<times> 32 word \<Rightarrow> 32 word list" where
  "schedule_rounds [] cd = []"
| "schedule_rounds (two # shifts) cd = (let (ws, cd') = schedule_round two cd in ws @ schedule_rounds shifts cd')"

definition des_set_key :: "bytes \<Rightarrow> 32 word list" where
  "des_set_key key =
     (let c = four_bytes_to_int key 0; d = four_bytes_to_int key 4;
          (d, c) = perm_op d c 4 0xf0f0f0f;
          c = h_perm_op c (-2) 0xcccc0000;
          d = h_perm_op d (-2) 0xcccc0000;
          (d, c) = perm_op d c 1 0x55555555;
          (c, d) = perm_op c d 8 0xff00ff;
          (d, c) = perm_op d c 1 0x55555555;
          d = push_bit 16 (d AND 0xff) OR (d AND 0xff00) OR drop_bit 16 (d AND 0xff0000) OR drop_bit 4 (c AND 0xf0000000);
          c = c AND 0xfffffff
      in schedule_rounds SHIFT2 (c, d))"

definition d_encrypt :: "32 word \<Rightarrow> 32 word \<Rightarrow> nat \<Rightarrow> 32 word \<Rightarrow> 32 word \<Rightarrow> 32 word list \<Rightarrow> 32 word" where
  "d_encrypt el r s e0 e1 sched =
     (let v0 = r XOR drop_bit 16 r; u0 = v0 AND e0; v = v0 AND e1;
          u = u0 XOR push_bit 16 u0 XOR r XOR sched ! s;
          t0 = v XOR push_bit 16 v XOR r XOR sched ! (s + 1);
          t = drop_bit 4 t0 OR push_bit 28 t0
      in el XOR
          (table SPTRANS 1 (t AND 0x3f) OR table SPTRANS 3 (drop_bit 8 t AND 0x3f)
           OR table SPTRANS 5 (drop_bit 16 t AND 0x3f) OR table SPTRANS 7 (drop_bit 24 t AND 0x3f)
           OR table SPTRANS 0 (u AND 0x3f) OR table SPTRANS 2 (drop_bit 8 u AND 0x3f)
           OR table SPTRANS 4 (drop_bit 16 u AND 0x3f) OR table SPTRANS 6 (drop_bit 24 u AND 0x3f)))"

text \<open>One of the 25 encryptions: 16 rounds in pairs, then the halves change places.\<close>

definition encryption :: "32 word list \<Rightarrow> 32 word \<Rightarrow> 32 word \<Rightarrow> 32 word \<times> 32 word \<Rightarrow> 32 word \<times> 32 word" where
  "encryption sched e0 e1 lr =
     prod.swap (fold (\<lambda>i (left, right).
       let left = d_encrypt left right i e0 e1 sched; right = d_encrypt right left (i + 2) e0 e1 sched in (left, right))
       [0, 4, 8, 12, 16, 20, 24, 28] lr)"

definition crypt_body :: "32 word list \<Rightarrow> 32 word \<Rightarrow> 32 word \<Rightarrow> 32 word \<times> 32 word" where
  "crypt_body sched e0 e1 =
     (let (left, right) = (encryption sched e0 e1 ^^ 25) (0, 0);
          t = right;
          right = drop_bit 1 left OR push_bit 31 left;
          left = drop_bit 1 t OR push_bit 31 t;
          (right, left) = perm_op right left 1 0x55555555;
          (left, right) = perm_op left right 8 0xff00ff;
          (right, left) = perm_op right left 2 0x33333333;
          (left, right) = perm_op left right 16 0xffff;
          (right, left) = perm_op right left 4 0xf0f0f0f
      in (left, right))"

text \<open>
  \<open>for (jj < 6)\<close>: the next bit of \<open>b[y]\<close> under the mask \<open>u\<close> is shifted into \<open>c\<close>. The mask is
  its exponent here, 7 for 128; the step past 0 is the step to the next byte.
\<close>

fun next_bits :: "nat \<Rightarrow> bytes \<Rightarrow> nat \<times> nat \<Rightarrow> nat \<Rightarrow> nat \<times> nat \<times> nat" where
  "next_bits 0 b yu c = (c, yu)"
| "next_bits (Suc k) b (y, u) c =
     next_bits k b (if u = 0 then (Suc y, 7) else (y, u - 1)) (2 * c + (if bit (b ! y) u then 1 else 0))"

fun crypt_chars :: "nat \<Rightarrow> bytes \<Rightarrow> nat \<times> nat \<Rightarrow> string" where
  "crypt_chars 0 b yu = []"
| "crypt_chars (Suc n) b yu = (let (c, yu') = next_bits 6 b yu 0 in char_of (COV2CHAR ! c) # crypt_chars n b yu')"

definition crypt_key :: "bytes \<Rightarrow> bytes" where
  "crypt_key input = map (push_bit 1) (take 8 input) @ replicate (8 - length input) 0"

text \<open>\<open>CON_SALT[c]!\<close> past the table is \<open>undefined\<close>, which the bit operators read as 0.\<close>

definition salt_swap :: "char \<Rightarrow> 32 word" where
  "salt_swap c = (if of_char c < length CON_SALT then CON_SALT ! of_char c else 0)"

definition unix_crypt :: "string \<Rightarrow> string \<Rightarrow> string res" where
  "unix_crypt original salt =
     (if length salt < 2 then Inl (JsError (''Invalid salt value: '' @ salt))
      else
        let sched = des_set_key (crypt_key (str_bytes original));
            (l, r) = crypt_body sched (salt_swap (salt ! 0)) (push_bit 4 (salt_swap (salt ! 1)));
            b = int_to_four_bytes l @ int_to_four_bytes r @ [0]
        in Inr (salt ! 0 # salt ! 1 # crypt_chars 11 b (0, 7)))"

definition LEGACY_AUTH_SALT :: string where
  "LEGACY_AUTH_SALT = ''9z''"

definition legacy_hash :: "string \<Rightarrow> string res" where
  "legacy_hash password = rthen (unix_crypt password LEGACY_AUTH_SALT) (\<lambda>s. Inr (drop 2 s))"

subsection \<open>What the hash is made of\<close>

definition crypt_alphabet :: string where
  "crypt_alphabet = map char_of COV2CHAR"

lemma next_bits_bound: "next_bits k b yu c = (c', yu') \<Longrightarrow> c' < 2 ^ k * (c + 1)"
proof (induction k b yu c rule: next_bits.induct)
  case (2 k b y u c)
  let ?c = "2 * c + (if bit (b ! y) u then 1 else 0)"
  have "c' < 2 ^ k * (?c + 1)" using 2 by simp
  also have "\<dots> \<le> 2 ^ k * (2 * (c + 1))" by (intro mult_le_mono2) simp
  finally show ?case by (simp add: mult.assoc mult.left_commute)
qed simp

lemma crypt_chars_alphabet: "set (crypt_chars n b yu) \<subseteq> set crypt_alphabet"
proof (induction n b yu rule: crypt_chars.induct)
  case (2 n b yu)
  obtain c yu' where c: "next_bits 6 b yu 0 = (c, yu')" by (cases "next_bits 6 b yu 0") blast
  have "c < 64" using next_bits_bound [OF c] by simp
  then have "char_of (COV2CHAR ! c) \<in> set crypt_alphabet"
    unfolding crypt_alphabet_def set_map by (intro imageI nth_mem) (simp add: COV2CHAR_def)
  then show ?case using 2 [OF c [symmetric] refl] c by simp
qed simp

lemma length_crypt_chars: "length (crypt_chars n b yu) = n"
  by (induction n arbitrary: yu) (simp_all add: Let_def split_beta)

lemma legacy_hash_eq:
  "\<exists>b. legacy_hash password = Inr (crypt_chars 11 b (0, 7))"
  unfolding legacy_hash_def unix_crypt_def LEGACY_AUTH_SALT_def Let_def split_beta by (rule exI) simp


text \<open>The seven bits of a password that count: eight bytes, less their high bits.\<close>

definition effective :: "string \<Rightarrow> bytes" where
  "effective password = map (take_bit 7) (take 8 (str_bytes password)) @ replicate (8 - length password) 0"

lemma push_low_bits: "push_bit 1 (take_bit 7 (b::byte)) = push_bit 1 b"
  by (simp only: push_bit_take_bit) (rule take_bit_word_eq_self, simp)

lemma crypt_key_effective: "crypt_key (str_bytes p) = map (push_bit 1) (effective p)"
  unfolding crypt_key_def effective_def map_append map_map o_def push_low_bits by simp

text \<open>
  Passwords that agree in the low seven bits of their first eight bytes have the same
  token: everything after the eighth byte, and the high bit of each, is ignored.
\<close>

theorem legacy_hash_truncates:
  assumes "effective p = effective q"
  shows "legacy_hash p = legacy_hash q"
  using assms by (simp add: legacy_hash_def unix_crypt_def crypt_key_effective)

lemma legacy_hash_truncates_witness: "legacy_hash ''masterkey'' = legacy_hash ''masterke''"
  by (rule legacy_hash_truncates) (simp add: effective_def str_bytes_def)

end
