(* ===== verification/Handshake.thy ===== *)
theory Handshake
  imports Srp Legacy_Auth Param_Buffer Options Session
begin

text \<open>
  \<open>protocol/handshake.ts\<close>: the connect request, the server's answer, the authentication
  rounds with their plugin switches, and the engagement of compression and encryption.
  The bytes the peer sends are what the transport delivers, after decryption; which
  packets leave encrypted is recorded with the filter.
\<close>

subsection \<open>Options, results and the connection\<close>

record handshake_options =
  ho_database :: string
  ho_user :: string
  ho_password :: string
  ho_wire_crypt :: wire_crypt_level
  ho_wire_compression :: bool
  ho_wire_crypt_plugin :: "string option"
  ho_auth_plugin :: "string option"

record pending_auth =
  pa_ephemeral :: srp_ephemeral
  pa_plugin :: string
  pa_user :: string
  pa_password :: string
  pa_token :: "string option"

record handshake_result =
  hr_version :: int
  hr_min_type :: int
  hr_session_key :: "bytes option"
  hr_dpb_auth :: "string option"
  hr_pending :: "pending_auth option"
  hr_encrypted :: bool
  hr_crypt_plugin :: "string option"
  hr_compressed :: bool

text \<open>The digests, \<open>userInfo().username\<close> (\<open>None\<close> when it throws) and \<open>hostname()\<close>.\<close>

record client =
  cl_crypto :: crypto
  cl_os_user :: "string option"
  cl_hostname :: string

text \<open>
  \<open>cn_filter\<close> is the filter \<open>installCrypt\<close> was given, with the number of packets sent before:
  exactly the later ones leave encrypted (the ordering theorem of the transport).
\<close>

record connection =
  cn_wire :: wire
  cn_compressed :: bool
  cn_filter :: "(nat \<times> wire_filter) option"

definition cn_rd :: "'a rd \<Rightarrow> (connection, 'a) act" where
  "cn_rd m = (\<lambda>c. case m (cn_wire c) of (r, w) \<Rightarrow> (r, c\<lparr>cn_wire := w\<rparr>))"

definition enable_compression :: "connection \<Rightarrow> connection" where
  "enable_compression c = c\<lparr>cn_compressed := True\<rparr>"

definition install_crypt :: "wire_filter \<Rightarrow> connection \<Rightarrow> connection" where
  "install_crypt f c = c\<lparr>cn_filter := Some (length (w_sent (cn_wire c)), f)\<rparr>"

abbreviation auth_error :: "string \<Rightarrow> err" where
  "auth_error msg \<equiv> FbError FirebirdAuthError msg None None []"

definition LOGIN_ERROR :: err where
  "LOGIN_ERROR = FbError FirebirdAuthError
     ''Your user name and password are not defined. Ask your database administrator to set up a Firebird login.''
     (Some 335544472) (Some ''28000'') []"

definition CONNECT_VERSION3 :: int where "CONNECT_VERSION3 = 3"
definition ARCHITECTURE_GENERIC :: int where "ARCHITECTURE_GENERIC = 1"
definition FB_PROTOCOL_FLAG :: int where "FB_PROTOCOL_FLAG = 0x8000"
definition PFLAG_COMPRESS :: int where "PFLAG_COMPRESS = 0x100"
definition AUTH_PLUGIN_LIST :: string where "AUTH_PLUGIN_LIST = ''Srp256,Srp,Legacy_Auth''"

definition SUPPORTED_PROTOCOLS :: "(int \<times> int \<times> int \<times> int \<times> int) list" where
  "SUPPORTED_PROTOCOLS = map (\<lambda>(v, weight). (FB_PROTOCOL_FLAG + v, ARCHITECTURE_GENERIC, ptype_code Ptype_lazy_send, ptype_code Ptype_lazy_send, weight))
     [(13, 1), (14, 2), (15, 3), (16, 4), (19, 5), (20, 6)]"

subsection \<open>The connect request\<close>

text \<open>Chunks of 254 bytes, each behind its number; at least one, for empty data.\<close>

function multiblock :: "nat \<Rightarrow> int \<Rightarrow> bytes \<Rightarrow> param_buffer \<Rightarrow> param_buffer res" where
  "multiblock step tag d pb =
     rthen (pb_bytes tag (of_nat step # take 254 d) pb) (\<lambda>pb.
       if drop 254 d = [] then Inr pb else multiblock (Suc step) tag (drop 254 d) pb)"
  by pat_completeness auto
termination
  by (relation "measure (\<lambda>(step, tag, d, pb). length d)") auto

declare multiblock.simps [simp del]

definition build_user_identification :: "client \<Rightarrow> handshake_options \<Rightarrow> string \<Rightarrow> string \<Rightarrow> bytes \<Rightarrow> bytes res" where
  "build_user_identification cl opts plugin plugins specific =
     rthen (pb_string (cnct_code Cnct_login) (ho_user opts) (pb_new None)) (\<lambda>pb.
     rthen (pb_string (cnct_code Cnct_plugin_name) plugin pb) (\<lambda>pb.
     rthen (pb_string (cnct_code Cnct_plugin_list) plugins pb) (\<lambda>pb.
     rthen (multiblock 0 (cnct_code Cnct_specific_data) specific pb) (\<lambda>pb.
     rthen (pb_bytes (cnct_code Cnct_client_crypt) [of_int (wire_crypt_level_code (ho_wire_crypt opts)), 0, 0, 0] pb) (\<lambda>pb.
     rthen (pb_string (cnct_code Cnct_user) (case cl_os_user cl of Some u \<Rightarrow> u | None \<Rightarrow> ''node'') pb) (\<lambda>pb.
     rthen (pb_string (cnct_code Cnct_host) (cl_hostname cl) pb) (\<lambda>pb.
     rthen (pb_bytes (cnct_code Cnct_user_verification) [] pb) (\<lambda>pb. Inr (pb_to_buffer pb)))))))))"

definition connect_message :: "handshake_options \<Rightarrow> bytes \<Rightarrow> bytes" where
  "connect_message opts ident =
     enc_int32 op_connect @ enc_int32 op_attach @ enc_int32 CONNECT_VERSION3 @ enc_int32 ARCHITECTURE_GENERIC
     @ enc_string (ho_database opts) @ enc_int32 (int (length SUPPORTED_PROTOCOLS)) @ enc_opaque ident
     @ concat (map (\<lambda>(version, arch, min_t, max_t, weight).
         enc_uint32 version @ enc_int32 arch @ enc_int32 min_t
         @ enc_int32 (if ho_wire_compression opts then max_t + PFLAG_COMPRESS else max_t) @ enc_int32 weight) SUPPORTED_PROTOCOLS)"

subsection \<open>The server's answer\<close>

record accept_packet =
  ac_op :: int
  ac_version :: int
  ac_architecture :: int
  ac_type :: int
  ac_data :: bytes
  ac_plugin :: string
  ac_authenticated :: bool
  ac_keys :: string

definition read_accept :: "accept_packet rd" where
  "read_accept = rd_bind read_op (\<lambda>op.
     if op = op_response then rd_bind parse_response_body (\<lambda>_. rd_fail (protocol_error ''Server rejected connection''))
     else if op = op_reject then rd_fail (protocol_error ''Server rejected the connection (op_reject)'')
     else if op \<noteq> op_accept \<and> op \<noteq> op_accept_data \<and> op \<noteq> op_cond_accept
       then rd_fail (protocol_error (''Unexpected handshake response op '' @ dec_int op))
     else rd_bind read_int32 (\<lambda>v. let version = (if v < 0 then v mod 65536 else v) in
       rd_bind read_int32 (\<lambda>arch. rd_bind read_int32 (\<lambda>type.
         if op = op_accept
         then rd_return \<lparr>ac_op = op, ac_version = version, ac_architecture = arch, ac_type = type, ac_data = [],
           ac_plugin = [], ac_authenticated = True, ac_keys = []\<rparr>
         else rd_bind read_opaque (\<lambda>data. rd_bind read_string (\<lambda>plugin. rd_bind read_int32 (\<lambda>auth. rd_bind read_string (\<lambda>keys.
           rd_return \<lparr>ac_op = op, ac_version = version, ac_architecture = arch, ac_type = type, ac_data = data,
             ac_plugin = plugin, ac_authenticated = (auth = 1), ac_keys = keys\<rparr>))))))))"

definition cont_auth_message :: "string \<Rightarrow> string \<Rightarrow> string \<Rightarrow> bytes" where
  "cont_auth_message auth plugin plugins =
     enc_int32 op_cont_auth @ enc_string auth @ enc_string plugin @ enc_string plugins @ enc_uint32 0"

definition send_cont_auth :: "string \<Rightarrow> string \<Rightarrow> string \<Rightarrow> unit rd" where
  "send_cont_auth auth plugin plugins = rd_do (send (cont_auth_message auth plugin plugins))"

text \<open>The body of \<open>op_cont_auth\<close>: data, plugin, plugin list, keys.\<close>

definition read_offer :: "(bytes \<times> string \<times> string) rd" where
  "read_offer = rd_bind read_opaque (\<lambda>data. rd_bind read_string (\<lambda>plugin. rd_bind read_string (\<lambda>_.
     rd_bind read_string (\<lambda>keys. rd_return (data, plugin, keys)))))"

text \<open>Every branch of the loop returns or throws in its first turn.\<close>

definition drain_legacy_response :: "unit rd" where
  "drain_legacy_response = rd_bind read_op (\<lambda>op.
     if op = op_response then rd_bind parse_response_body (\<lambda>_. rd_return ())
     else if op = op_cont_auth then rd_bind read_offer (\<lambda>_. rd_fail LOGIN_ERROR)
     else rd_fail (protocol_error (''Unexpected op '' @ dec_int op @ '' during Legacy_Auth continuation'')))"

definition legacy_token :: "string \<Rightarrow> string" where
  "legacy_token password = projr (legacy_hash password)"

subsection \<open>Authentication rounds\<close>

text \<open>The local variables of \<open>performHandshake\<close> that the rounds assign to.\<close>

record auth_state =
  au_plugin :: string
  au_key :: "bytes option"
  au_keys :: string
  au_token :: "string option"
  au_attempted :: "string list"
  au_key_data :: bytes

abbreviation is_srp :: "string \<Rightarrow> bool" where
  "is_srp plugin \<equiv> take 3 plugin = ''Srp''"

definition NO_CONVERGENCE :: err where
  "NO_CONVERGENCE = auth_error ''SRP negotiation did not converge''"

text \<open>\<open>while (serverData.length === 0 && \<dots>)\<close>: the first argument counts the rounds that are left.\<close>

fun offer_rounds :: "nat \<Rightarrow> srp_ephemeral \<Rightarrow> string \<Rightarrow> string \<Rightarrow> bytes \<Rightarrow> (string \<times> string \<times> bytes) rd" where
  "offer_rounds n e plugin keys data =
     (if data \<noteq> [] \<or> plugin = ''Legacy_Auth'' then rd_return (plugin, keys, data)
      else case n of
        0 \<Rightarrow> rd_fail NO_CONVERGENCE
      | Suc m \<Rightarrow>
          rd_bind (send_cont_auth (se_public_hex e) plugin AUTH_PLUGIN_LIST) (\<lambda>_. rd_bind read_op (\<lambda>op.
            if op = op_response then rd_bind parse_response_body (\<lambda>_.
              rd_fail (protocol_error ''Server ended auth negotiation without credentials exchange''))
            else if op \<noteq> op_cont_auth then rd_fail (protocol_error (''Expected op_cont_auth, got '' @ dec_int op))
            else rd_bind read_offer (\<lambda>(data, next, keys).
              offer_rounds m e (if next \<noteq> [] then next else plugin) keys data))))"

declare offer_rounds.simps [simp del]

text \<open>The proof of \<open>computeProof\<close> for server data.\<close>

definition proof_for :: "crypto \<Rightarrow> string \<Rightarrow> string \<Rightarrow> string \<Rightarrow> srp_ephemeral \<Rightarrow> bytes \<Rightarrow> srp_proof res" where
  "proof_for cr plugin user password e data = rthen (parse_server_auth_data data) (\<lambda>(salt, hex).
     compute_proof cr plugin user password salt e hex)"

text \<open>
  One answer of the server to a proof or token: \<open>Inr (Inr st)\<close> goes on, \<open>Inr (Inl st)\<close> ends the
  loop (\<open>break\<close>).
\<close>

definition cont_turn :: "crypto \<Rightarrow> string \<Rightarrow> string \<Rightarrow> srp_ephemeral \<Rightarrow> auth_state \<Rightarrow> (auth_state + auth_state) rd" where
  "cont_turn cr user password e st = rd_bind read_op (\<lambda>op.
     if op = op_response then rd_bind parse_response_body (\<lambda>r.
       rd_return (Inl (if gr_data r \<noteq> [] then st\<lparr>au_key_data := gr_data r\<rparr> else st)))
     else if op \<noteq> op_cont_auth then rd_fail (protocol_error (''Unexpected op '' @ dec_int op @ '' during auth continuation''))
     else rd_bind read_offer (\<lambda>(data, plugin, keys).
       let next = (if plugin \<noteq> [] then plugin else au_plugin st);
           st = (if keys \<noteq> [] then st\<lparr>au_keys := keys\<rparr> else st) in
       if au_token st \<noteq> None then rd_fail LOGIN_ERROR
       else if data = [] \<and> next = au_plugin st then rd_return (Inr st)
       else if next \<in> set (au_attempted st) then rd_fail LOGIN_ERROR
       else let st = st\<lparr>au_attempted := next # au_attempted st\<rparr> in
       if next = ''Legacy_Auth'' then
         rd_bind (send_cont_auth (legacy_token password) ''Legacy_Auth'' ''Legacy_Auth'') (\<lambda>_.
           rd_return (Inr (st\<lparr>au_plugin := ''Legacy_Auth'', au_key := None, au_token := Some (legacy_token password)\<rparr>)))
       else if \<not> is_srp next then rd_fail (auth_error (''Server switched to unsupported auth plugin '' @ [CHR 39] @ next @ [CHR 39]))
       else let st = st\<lparr>au_plugin := next\<rparr> in
       if data = [] then
         rd_bind (send_cont_auth (se_public_hex e) next AUTH_PLUGIN_LIST) (\<lambda>_. rd_return (Inr st))
       else rd_bind (rd_lift (proof_for cr next user password e data)) (\<lambda>p.
         rd_bind (send_cont_auth (sp_hex p) next next) (\<lambda>_. rd_return (Inr (st\<lparr>au_key := Some (sp_key p)\<rparr>))))))"

text \<open>\<open>for (;;)\<close>, with fuel as for the other loops: every turn reads an op.\<close>

fun cont_fuel :: "nat \<Rightarrow> crypto \<Rightarrow> string \<Rightarrow> string \<Rightarrow> srp_ephemeral \<Rightarrow> auth_state \<Rightarrow> auth_state rd" where
  "cont_fuel 0 cr user password e st = rd_fail ClosedErr"
| "cont_fuel (Suc n) cr user password e st = rd_bind (cont_turn cr user password e st) (\<lambda>r.
     case r of Inl st' \<Rightarrow> rd_return st' | Inr st' \<Rightarrow> cont_fuel n cr user password e st')"

definition cont_loop :: "crypto \<Rightarrow> string \<Rightarrow> string \<Rightarrow> srp_ephemeral \<Rightarrow> auth_state \<Rightarrow> auth_state rd" where
  "cont_loop cr user password e st = (\<lambda>w. cont_fuel (Suc (length (w_in w))) cr user password e st w)"

subsection \<open>Encryption\<close>

definition TAG_PLUGIN_SPECIFIC :: int where
  "TAG_PLUGIN_SPECIFIC = 3"

function find_plugin_iv :: "bytes \<Rightarrow> string \<Rightarrow> bytes option" where
  "find_plugin_iv (tag # len # rest) plugin =
     (let d = take (unat len) rest; name = takeWhile (\<lambda>b. b \<noteq> 0) d in
      if uint tag = TAG_PLUGIN_SPECIFIC \<and> length name < length d \<and> name \<noteq> [] \<and> bytes_str name = plugin
      then Some (drop (Suc (length name)) d) else find_plugin_iv (drop (unat len) rest) plugin)"
| "find_plugin_iv [] plugin = None"
| "find_plugin_iv [b] plugin = None"
  by pat_completeness auto
termination
  by (relation "measure (\<lambda>(b, plugin). length b)") auto

text \<open>
  \<open>RegExp(`(^|[,\s:\0])${name}([,\s\0]|$)`).test(lower)\<close>, for a name without characters that
  are special in a regular expression.
\<close>

definition name_at :: "string \<Rightarrow> string \<Rightarrow> nat \<Rightarrow> bool" where
  "name_at name s i = (take (length name) (drop i s) = name
     \<and> (i = 0 \<or> (let c = s ! (i - 1) in c = CHR '','' \<or> is_ws c \<or> c = CHR '':'' \<or> c = CHR 0x00))
     \<and> (i + length name = length s \<or> (let c = s ! (i + length name) in c = CHR '','' \<or> is_ws c \<or> c = CHR 0x00)))"

definition advertised :: "string \<Rightarrow> string \<Rightarrow> bool" where
  "advertised name s = list_ex (\<lambda>i. i + length name \<le> length s \<and> name_at name s i) [0..<Suc (length s)]"

definition select_crypt_plugin :: "string \<Rightarrow> string option \<Rightarrow> string option" where
  "select_crypt_plugin keys asked =
     (let want = (case asked of Some p \<Rightarrow> p | None \<Rightarrow> ''Arc4''); lower = map lower_char keys in
      if keys = [] then Some want
      else if advertised (map lower_char want) lower then Some want
      else if advertised ''arc4'' lower then Some ''Arc4'' else None)"

definition no_iv :: "string \<Rightarrow> err" where
  "no_iv plugin = auth_error (''Server did not advertise a '' @ plugin @ '' IV; this server build only supports Arc4 wire encryption. ''
     @ ''Use wireCryptPlugin:'' @ [CHR 39] @ ''Arc4'' @ [CHR 39] @ '' (default) or wireCrypt:'' @ [CHR 39] @ ''disabled'' @ [CHR 39] @ ''.'')"

definition crypt_refused :: "string \<Rightarrow> err" where
  "crypt_refused plugin = auth_error (''Wire encryption ('' @ plugin @ '') was refused by the server '' @ em_dash
     @ '' it likely has WireCrypt=Disabled. Set wireCrypt:'' @ [CHR 39] @ ''disabled'' @ [CHR 39] @ '' on the client to connect unencrypted.'')"

definition is_auth_error :: "err \<Rightarrow> bool" where
  "is_auth_error e = (case e of FbError c _ _ _ _ \<Rightarrow> c = FirebirdAuthError | _ \<Rightarrow> False)"

text \<open>The body of the \<open>try\<close>: the filter is installed before the response to \<open>op_crypt\<close> is read.\<close>

definition engage_crypt :: "crypto \<Rightarrow> string \<Rightarrow> bytes \<Rightarrow> bytes \<Rightarrow> (connection, unit) act" where
  "engage_crypt cr plugin key key_data =
     sn_bind (if plugin = ''Arc4'' then sn_return []
              else (case find_plugin_iv key_data plugin of None \<Rightarrow> sn_lift (Inl (no_iv plugin)) | Some iv \<Rightarrow> sn_return iv)) (\<lambda>iv.
     sn_bind (sn_lift (new_filter cr plugin key iv)) (\<lambda>f.
     sn_bind (sn_do (install_crypt f)) (\<lambda>_.
     sn_bind (cn_rd read_response) (\<lambda>_. sn_return ()))))"

definition crypt_message :: "string \<Rightarrow> bytes" where
  "crypt_message plugin = enc_int32 op_crypt @ enc_string plugin @ enc_string ''Symmetric''"

definition negotiate_crypt :: "crypto \<Rightarrow> string \<Rightarrow> bytes \<Rightarrow> bytes \<Rightarrow> (connection, unit) act" where
  "negotiate_crypt cr plugin key key_data =
     sn_bind (cn_rd (rd_do (send (crypt_message plugin)))) (\<lambda>_.
     sn_catch (engage_crypt cr plugin key key_data)
       (\<lambda>e. sn_lift (Inl (if is_auth_error e then e else crypt_refused plugin))))"

subsection \<open>The handshake\<close>

text \<open>The variables the authentication leaves behind.\<close>

record auth_outcome =
  ao_key :: "bytes option"
  ao_dpb :: "string option"
  ao_pending :: "pending_auth option"
  ao_keys :: string
  ao_key_data :: bytes

definition outcome_of :: "handshake_options \<Rightarrow> srp_ephemeral \<Rightarrow> auth_state \<Rightarrow> string option \<Rightarrow> auth_outcome" where
  "outcome_of opts e st dpb = \<lparr>ao_key = au_key st, ao_dpb = dpb,
     ao_pending = Some \<lparr>pa_ephemeral = e, pa_plugin = au_plugin st, pa_user = ho_user opts, pa_password = ho_password opts, pa_token = au_token st\<rparr>,
     ao_keys = au_keys st, ao_key_data = au_key_data st\<rparr>"

text \<open>\<open>isLegacy\<close>: the token went out with the connect request.\<close>

definition legacy_rounds :: "handshake_options \<Rightarrow> srp_ephemeral \<Rightarrow> accept_packet \<Rightarrow> auth_outcome rd" where
  "legacy_rounds opts e ac =
     (let token = legacy_token (ho_password opts);
          out = (\<lambda>dpb. \<lparr>ao_key = None, ao_dpb = dpb,
            ao_pending = Some \<lparr>pa_ephemeral = e, pa_plugin = ''Legacy_Auth'', pa_user = ho_user opts, pa_password = ho_password opts, pa_token = Some token\<rparr>,
            ao_keys = ac_keys ac, ao_key_data = []\<rparr>) in
      if ac_op ac = op_cond_accept
      then rd_bind (send_cont_auth token ''Legacy_Auth'' ''Legacy_Auth'') (\<lambda>_. rd_bind drain_legacy_response (\<lambda>_. rd_return (out None)))
      else rd_return (out (Some token)))"

definition srp_rounds :: "crypto \<Rightarrow> handshake_options \<Rightarrow> srp_ephemeral \<Rightarrow> string \<Rightarrow> accept_packet \<Rightarrow> auth_outcome rd" where
  "srp_rounds cr opts e plugin ac =
     rd_bind (if ac_op ac = op_cond_accept then offer_rounds 4 e plugin (ac_keys ac) (ac_data ac)
              else rd_return (plugin, ac_keys ac, ac_data ac)) (\<lambda>(active, keys, data).
     let st = \<lparr>au_plugin = active, au_key = None, au_keys = keys, au_token = None, au_attempted = [active], au_key_data = []\<rparr>;
         token = legacy_token (ho_password opts) in
     if active = ''Legacy_Auth'' then
       (let st = st\<lparr>au_token := Some token\<rparr> in
        if ac_op ac = op_cond_accept
        then rd_bind (send_cont_auth token ''Legacy_Auth'' ''Legacy_Auth'') (\<lambda>_. rd_bind drain_legacy_response (\<lambda>_.
          rd_return (outcome_of opts e st None)))
        else rd_return (outcome_of opts e st (Some token)))
     else if data = [] then rd_return (outcome_of opts e st None)
     else if \<not> is_srp active then rd_fail (auth_error (''Server requested unsupported auth plugin '' @ [CHR 39] @ active @ [CHR 39]))
     else rd_bind (rd_lift (proof_for cr active (ho_user opts) (ho_password opts) e data)) (\<lambda>p.
       let st = st\<lparr>au_key := Some (sp_key p)\<rparr> in
       if ac_op ac = op_cond_accept
       then rd_bind (send_cont_auth (sp_hex p) active active) (\<lambda>_.
         rd_bind (cont_loop cr (ho_user opts) (ho_password opts) e st) (\<lambda>st. rd_return (outcome_of opts e st None)))
       else rd_return (outcome_of opts e st (Some (sp_hex p)))))"

definition authenticate :: "crypto \<Rightarrow> handshake_options \<Rightarrow> srp_ephemeral \<Rightarrow> string \<Rightarrow> accept_packet \<Rightarrow> auth_outcome rd" where
  "authenticate cr opts e plugin ac =
     (if ac_authenticated ac \<and> ac_op ac \<noteq> op_cond_accept
      then rd_return \<lparr>ao_key = None, ao_dpb = None, ao_pending = None, ao_keys = ac_keys ac, ao_key_data = []\<rparr>
      else if ho_auth_plugin opts = Some ''Legacy_Auth'' then legacy_rounds opts e ac
      else srp_rounds cr opts e (if ac_plugin ac \<noteq> [] then ac_plugin ac else plugin) ac)"

definition not_encrypted :: "pending_auth option \<Rightarrow> err" where
  "not_encrypted pending = auth_error (case pending of
       Some p \<Rightarrow> if pa_plugin p = ''Legacy_Auth''
         then ''wireCrypt=required but the server authenticated via Legacy_Auth, which yields no session key for wire encryption''
         else ''wireCrypt=required but wire encryption could not be established''
     | None \<Rightarrow> ''wireCrypt=required but wire encryption could not be established'')"

text \<open>\<open>ephemeral\<close> is the result of \<open>generateEphemeral(opts.srpSeed)\<close>, once a draw was accepted.\<close>

definition perform_handshake :: "client \<Rightarrow> srp_ephemeral res \<Rightarrow> handshake_options \<Rightarrow> (connection, handshake_result) act" where
  "perform_handshake cl ephemeral opts =
     (let cr = cl_crypto cl; legacy = (ho_auth_plugin opts = Some ''Legacy_Auth'');
          plugin = (case ho_auth_plugin opts of Some p \<Rightarrow> p | None \<Rightarrow> takeWhile (\<lambda>c. c \<noteq> CHR '','') AUTH_PLUGIN_LIST);
          plugins = (if legacy then ''Legacy_Auth'' else AUTH_PLUGIN_LIST) in
      sn_bind (sn_lift ephemeral) (\<lambda>e.
      sn_bind (sn_lift (build_user_identification cl opts plugin plugins
        (str_bytes (if legacy then legacy_token (ho_password opts) else se_public_hex e)))) (\<lambda>ident.
      sn_bind (cn_rd (rd_do (send (connect_message opts ident)))) (\<lambda>_.
      sn_bind (cn_rd read_accept) (\<lambda>ac.
      let version = ac_version ac mod 32768 in
      sn_bind (cn_rd (rd_do (\<lambda>w. w\<lparr>w_version := version\<rparr>))) (\<lambda>_.
      if version < 13 then sn_lift (Inl (protocol_error (''Server negotiated protocol '' @ dec_int version
        @ ''; fast-firebird requires Firebird 3+ (protocol 13)'')))
      else
      let compressed = odd (ac_type ac div PFLAG_COMPRESS) in
      sn_bind (sn_do (\<lambda>c. if compressed then enable_compression c else c)) (\<lambda>_.
      sn_bind (cn_rd (authenticate cr opts e plugin ac)) (\<lambda>ao.
      let crypt = (if ho_wire_crypt opts \<noteq> Crypt_disabled \<and> ao_key ao \<noteq> None
                   then select_crypt_plugin (ao_keys ao) (ho_wire_crypt_plugin opts) else None);
          crypt = (if crypt = Some [] then None else crypt) in
      sn_bind (case crypt of
          Some p \<Rightarrow> negotiate_crypt cr p (the (ao_key ao)) (ao_key_data ao)
        | None \<Rightarrow> if ho_wire_crypt opts = Crypt_required then sn_lift (Inl (not_encrypted (ao_pending ao))) else sn_return ()) (\<lambda>_.
      sn_return \<lparr>hr_version = version, hr_min_type = ac_type ac mod 256, hr_session_key = ao_key ao, hr_dpb_auth = ao_dpb ao,
        hr_pending = ao_pending ao, hr_encrypted = (crypt \<noteq> None), hr_crypt_plugin = crypt, hr_compressed = compressed\<rparr>)))))))))"

subsection \<open>Attaching\<close>

text \<open>
  \<open>readResponseWithAuth\<close>: rounds that the server asks for in answer to the attach. The
  arguments are \<open>pending\<close>, which the loop updates, and \<open>legacySent\<close>.
\<close>

definition attach_turn :: "crypto \<Rightarrow> pending_auth option \<Rightarrow> bool \<Rightarrow> (generic_response + pending_auth option \<times> bool) rd" where
  "attach_turn cr pending legacy_sent = rd_bind read_op (\<lambda>op.
     if op = op_response then rd_bind parse_response_body (\<lambda>r. rd_return (Inl r))
     else case (if op = op_cont_auth then pending else None) of
       None \<Rightarrow> rd_fail (protocol_error (''Unexpected op '' @ dec_int op @ '' while awaiting response''))
     | Some p \<Rightarrow> rd_bind read_offer (\<lambda>(data, plugin, keys).
         let use = (if plugin \<noteq> [] then plugin else pa_plugin p) in
         if use = ''Legacy_Auth'' \<or> truthy (pa_token p) then
           (if legacy_sent then rd_fail LOGIN_ERROR
            else let token = (case pa_token p of Some t \<Rightarrow> t | None \<Rightarrow> legacy_token (pa_password p)) in
              rd_bind (send_cont_auth token ''Legacy_Auth'' ''Legacy_Auth'') (\<lambda>_.
                rd_return (Inr (Some (p\<lparr>pa_plugin := ''Legacy_Auth'', pa_token := Some token\<rparr>), True))))
         else if data = [] then
           rd_bind (send_cont_auth (se_public_hex (pa_ephemeral p)) use AUTH_PLUGIN_LIST) (\<lambda>_. rd_return (Inr (pending, legacy_sent)))
         else rd_bind (rd_lift (proof_for cr use (pa_user p) (pa_password p) (pa_ephemeral p) data)) (\<lambda>q.
           rd_bind (send_cont_auth (sp_hex q) use AUTH_PLUGIN_LIST) (\<lambda>_. rd_return (Inr (pending, legacy_sent))))))"

fun attach_fuel :: "nat \<Rightarrow> crypto \<Rightarrow> pending_auth option \<Rightarrow> bool \<Rightarrow> generic_response rd" where
  "attach_fuel 0 cr pending sent = rd_fail ClosedErr"
| "attach_fuel (Suc n) cr pending sent = rd_bind (attach_turn cr pending sent) (\<lambda>r.
     case r of Inl g \<Rightarrow> rd_return g | Inr (pending', sent') \<Rightarrow> attach_fuel n cr pending' sent')"

definition read_response_with_auth :: "crypto \<Rightarrow> pending_auth option \<Rightarrow> generic_response rd" where
  "read_response_with_auth cr pending = (\<lambda>w. attach_fuel (Suc (length (w_in w))) cr pending False w)"

text \<open>The options \<open>buildDpb\<close> reads, and the process it runs in.\<close>

definition dpb_of :: "resolved_options \<Rightarrow> dpb_options" where
  "dpb_of os = \<lparr>o_charset = os_charset os, o_user = os_user os, o_role = os_role os, o_search_path = os_search_path os,
     o_page_size = os_page_size os, o_owner = os_owner os\<rparr>"

definition database_request :: "crypto \<Rightarrow> int \<Rightarrow> string \<Rightarrow> resolved_options \<Rightarrow> string option \<Rightarrow> pending_auth option \<Rightarrow> bool \<Rightarrow> int rd" where
  "database_request cr pid title os dpb_auth pending for_create =
     rd_bind (rd_lift (build_dpb pid title (dpb_of os) dpb_auth for_create)) (\<lambda>dpb.
     rd_bind (rd_do (send (enc_int32 (if for_create then op_create else op_attach) @ enc_int32 0 @ enc_string (os_database os) @ enc_opaque dpb))) (\<lambda>_.
     rd_bind (read_response_with_auth cr pending) (\<lambda>r. rd_return (gr_handle r))))"

definition attach_database :: "crypto \<Rightarrow> int \<Rightarrow> string \<Rightarrow> resolved_options \<Rightarrow> string option \<Rightarrow> pending_auth option \<Rightarrow> int rd" where
  "attach_database cr pid title os dpb_auth pending = database_request cr pid title os dpb_auth pending False"

definition create_database :: "crypto \<Rightarrow> int \<Rightarrow> string \<Rightarrow> resolved_options \<Rightarrow> string option \<Rightarrow> pending_auth option \<Rightarrow> int rd" where
  "create_database cr pid title os dpb_auth pending = database_request cr pid title os dpb_auth pending True"

text \<open>
  \<open>Attachment.establish\<close>, over the transport that connecting gave; a failure closes the wire,
  so that nothing more is read from it. The deadline is not modelled.
\<close>

definition handshake_options_of :: "resolved_options \<Rightarrow> handshake_options" where
  "handshake_options_of os = \<lparr>ho_database = os_database os, ho_user = os_user os, ho_password = os_password os,
     ho_wire_crypt = os_wire_crypt os, ho_wire_compression = os_wire_compression os, ho_wire_crypt_plugin = os_wire_crypt_plugin os,
     ho_auth_plugin = os_auth_plugin os\<rparr>"

definition shut :: "connection \<Rightarrow> connection" where
  "shut c = c\<lparr>cn_wire := (cn_wire c)\<lparr>w_in := [], w_out := []\<rparr>\<rparr>"

definition establish ::
  "client \<Rightarrow> int \<Rightarrow> string \<Rightarrow> srp_ephemeral res \<Rightarrow> resolved_options \<Rightarrow> bool \<Rightarrow> (connection, handshake_result \<times> int) act" where
  "establish cl pid title ephemeral os for_create = sn_catch
     (sn_bind (perform_handshake cl ephemeral (handshake_options_of os)) (\<lambda>hs.
      sn_bind (cn_rd ((if for_create then create_database else attach_database) (cl_crypto cl) pid title os (hr_dpb_auth hs) (hr_pending hs))) (\<lambda>h.
      sn_return (hs, h))))
     (\<lambda>e. sn_bind (sn_do shut) (\<lambda>_. sn_lift (Inl e)))"

end
