(* ===== verification/Handshake_Runs.thy ===== *)
theory Handshake_Runs
  imports Handshake
begin

text \<open>
  What the handshake guarantees: encryption when it is required, the key of the server,
  one proof for each plugin; and what the attach rounds and plugin switches do with a
  server that offers again.
\<close>

subsection \<open>Reads send nothing\<close>

definition only_reads :: "'a rd \<Rightarrow> bool" where
  "only_reads m = (\<forall>w. w_sent (snd (m w)) = w_sent w)"

lemma only_readsD: "only_reads m \<Longrightarrow> w_sent (snd (m w)) = w_sent w"
  by (simp add: only_reads_def)

named_theorems reads "operations that only read"

lemma only_reads_bind [reads]: "only_reads m \<Longrightarrow> (\<And>x. only_reads (f x)) \<Longrightarrow> only_reads (rd_bind m f)"
  by (auto simp: only_reads_def rd_bind_def split: prod.split sum.split) (metis snd_conv)+

lemma only_reads_basic [reads]:
  "only_reads (rd_return x)" "only_reads (rd_fail e)" "only_reads (read_bytes n)"
  by (auto simp: only_reads_def read_bytes_def)

lemma only_reads_int32 [reads]: "only_reads read_int32"
  unfolding read_int32_def by (intro reads)

lemma only_reads_opaque [reads]: "only_reads read_opaque"
  unfolding read_opaque_def Let_def by (intro reads) (auto intro!: reads)

lemma only_reads_string [reads]: "only_reads read_string"
  unfolding read_string_def by (intro reads)

lemma only_reads_sv_step [reads]: "only_reads (sv_step arg s)"
  unfolding sv_step_def by (auto intro!: reads)

lemma only_reads_sv_fuel [reads]: "only_reads (read_sv_fuel n s)"
  by (induction n arbitrary: s) (auto intro!: reads)

lemma only_reads_status [reads]: "only_reads read_status_vector"
  unfolding only_reads_def
proof
  fix w :: wire
  have "w_sent (snd (rd_bind (read_sv_fuel (Suc (length (w_in w))) sv_init) (\<lambda>s. rd_return (sv_result (w_messages w) s)) w)) = w_sent w"
    by (rule only_readsD [OF only_reads_bind [OF only_reads_sv_fuel only_reads_basic(1)]])
  then show "w_sent (snd (read_status_vector w)) = w_sent w"
    unfolding read_status_vector_def read_sv_def rd_bind_def .
qed

lemma only_reads_body [reads]: "only_reads parse_response_body"
  unfolding parse_response_body_def by (intro reads) (auto intro!: reads split: option.split)

lemma only_reads_do [reads]: "(\<And>w. w_sent (f w) = w_sent w) \<Longrightarrow> only_reads (rd_do f)"
  by (simp add: only_reads_def)

lemma only_reads_op_fuel: "only_reads (read_op_fuel n)"
proof (induction n)
  case (Suc n)
  have inline: "only_reads (rd_bind read_int32 (\<lambda>tx. rd_bind (read_bytes 8) (\<lambda>bid. rd_bind read_opaque (\<lambda>info.
            rd_bind read_opaque (\<lambda>data. rd_bind (rd_do (inline_blob tx bid info data)) (\<lambda>_. read_op_fuel n))))))"
    by (auto intro!: reads Suc simp: inline_blob_def)
  have deferred: "w_sent (snd (rd_bind parse_response_body (\<lambda>_. read_op_fuel n) (w\<lparr>w_deferred := k\<rparr>))) = w_sent w" for w k
    using only_readsD [OF only_reads_bind [OF only_reads_body Suc], of "w\<lparr>w_deferred := k\<rparr>"] by simp
  show ?case
    unfolding read_op_fuel.simps
    by (rule only_reads_bind [OF only_reads_int32])
      (simp add: only_reads_def deferred only_readsD [OF inline] only_readsD [OF Suc])
qed (simp add: only_reads_def)

lemma only_reads_op [reads]: "only_reads read_op"
  unfolding only_reads_def read_op_def using only_readsD [OF only_reads_op_fuel] by blast

lemma only_reads_response [reads]: "only_reads read_response"
  unfolding read_response_def by (intro reads) (auto intro!: reads)

subsection \<open>Encryption when it is required\<close>

text \<open>The filter is installed last: nothing is sent after it.\<close>

definition engaged :: "crypto \<Rightarrow> string \<Rightarrow> bytes \<Rightarrow> connection \<Rightarrow> bool" where
  "engaged cr plugin key c = (\<exists>f iv. cn_filter c = Some (length (w_sent (cn_wire c)), f) \<and> new_filter cr plugin key iv = Inr f)"

lemma engage_crypt_engages:
  assumes "engage_crypt cr plugin key key_data c = (Inr u, c')"
  shows "engaged cr plugin key c'"
proof -
  obtain iv f where f: "new_filter cr plugin key iv = Inr f"
    and c': "sn_bind (cn_rd read_response) (\<lambda>_. sn_return ()) (install_crypt f c) = (Inr u, c')"
    using assms by (auto simp: engage_crypt_def sn_bind_inv split: if_splits option.splits)
  obtain r w where r: "read_response (cn_wire c) = (r, w)" by fastforce
  have "w_sent w = w_sent (cn_wire c)" using only_readsD [OF only_reads_response, of "cn_wire c"] r by simp
  with f c' r show ?thesis
    by (auto simp: engaged_def sn_bind_inv cn_rd_def install_crypt_def split: prod.splits)
qed

lemma negotiate_crypt_engages:
  assumes "negotiate_crypt cr plugin key key_data c = (Inr u, c')"
  shows "engaged cr plugin key c'"
proof -
  obtain x s where catch: "sn_catch (engage_crypt cr plugin key key_data)
      (\<lambda>e. sn_lift (Inl (if is_auth_error e then e else crypt_refused plugin))) s = (Inr u, c')"
    using assms by (auto simp: negotiate_crypt_def sn_bind_inv)
  then have "engage_crypt cr plugin key key_data s = (Inr u, c')"
    by (cases "engage_crypt cr plugin key key_data s") (auto simp: sn_catch_def split: sum.splits)
  then show ?thesis by (rule engage_crypt_engages)
qed

text \<open>
  C33. A handshake that succeeds under \<open>wireCrypt=required\<close> has encrypted the connection: the
  filter of the session key and the negotiated plugin is installed, and every packet sent
  from now on goes through it.
\<close>

theorem required_means_encrypted:
  assumes "perform_handshake cl ephemeral opts c = (Inr r, c')" and "ho_wire_crypt opts = Crypt_required"
  shows "hr_encrypted r \<and> (\<exists>plugin key. hr_crypt_plugin r = Some plugin \<and> hr_session_key r = Some key
    \<and> engaged (cl_crypto cl) plugin key c')"
  using assms negotiate_crypt_engages
  by (auto simp: perform_handshake_def sn_bind_inv Let_def split: if_splits option.splits)

subsection \<open>A whole handshake\<close>

lemma new_server_values: "new_filter cr ''Arc4'' key iv = Inr (Arc4 (arc4_new key))"
  by (simp add: new_filter_def)

definition enc_accept :: "int \<Rightarrow> int \<Rightarrow> int \<Rightarrow> bytes \<Rightarrow> string \<Rightarrow> int \<Rightarrow> string \<Rightarrow> bytes" where
  "enc_accept op version type data plugin auth keys =
     enc_int32 op @ enc_int32 version @ enc_int32 1 @ enc_int32 type @ enc_opaque data @ enc_string plugin @ enc_int32 auth @ enc_string keys"

lemma messages_nonempty [simp]: "crypt_message plugin \<noteq> []" "connect_message opts ident \<noteq> []"
proof -
  have "enc_int32 v \<noteq> []" for v by (simp flip: length_0_conv)
  then show "crypt_message plugin \<noteq> []" "connect_message opts ident \<noteq> []"
    by (simp_all add: crypt_message_def connect_message_def)
qed

lemma read_accept_feed:
  assumes "op = op_accept_data \<or> op = op_cond_accept" and "int32_range version" "int32_range type" "int32_range auth"
    and "length data < 2147483645" "length plugin < 2147483645" "length keys < 2147483645"
  shows "read_accept (feed (enc_accept op version type data plugin auth keys) w)
    = (Inr \<lparr>ac_op = op, ac_version = (if version < 0 then version mod 65536 else version), ac_architecture = 1, ac_type = type,
        ac_data = data, ac_plugin = plugin, ac_authenticated = (auth = 1), ac_keys = keys\<rparr>, w)"
proof -
  have op: "read_op (feed (enc_int32 op) v) = (Inr op, v)" for v
    using assms(1) by (intro read_op_other) auto
  from assms show ?thesis
    by (auto simp: read_accept_def enc_accept_def rd_bind_def op read_int32_feed_id read_opaque_feed read_string_feed Let_def)
qed

lemma handshake_run:
  assumes "ephemeral_from seed = Some e" and "v = verifier cr salt (ho_user opts) (ho_password opts)"
    and "B = server_public cr v b" and "B \<noteq> 0" and "length salt < 65536" and "length (hex_of B) < 65536"
    and "se_a e + srp_u cr (se_A e) B * srp_x cr salt (ho_user opts) (ho_password opts) < srp_N"
    and "plugin = ''Srp'' \<and> h = cr_sha1 cr \<or> plugin = ''Srp256'' \<and> h = cr_sha256 cr"
    and "K = cr_sha1 cr (big_int_to_buffer (server_secret cr v b (se_A e)))"
    and "build_user_identification cl opts ''Srp256'' AUTH_PLUGIN_LIST (str_bytes (se_public_hex e)) = Inr ident"
    and "ho_auth_plugin opts = None" and "ho_wire_crypt_plugin opts = None" and "ho_wire_crypt opts \<noteq> Crypt_disabled"
    and "13 \<le> version" and "version < 32768" and "cl_crypto cl = cr"
    and "response_ok ok" and "body_result (w_messages w) ok = Inr g"
    and "w_out w = []" and "w_deferred w = 0"
    and "c = \<lparr>cn_wire = feed (enc_accept op_accept_data (FB_PROTOCOL_FLAG + version) 5 (auth_data salt (hex_of B)) plugin 0 [] @ reply [] ok) w,
      cn_compressed = False, cn_filter = None\<rparr>"
    and "p = hex_of (srp_M cr h (ho_user opts) salt (se_A e) B K)"
  shows "perform_handshake cl (Inr e) opts c =
    (Inr \<lparr>hr_version = version, hr_min_type = 5, hr_session_key = Some K, hr_dpb_auth = Some p,
       hr_pending = Some \<lparr>pa_ephemeral = e, pa_plugin = plugin, pa_user = ho_user opts, pa_password = ho_password opts, pa_token = None\<rparr>,
       hr_encrypted = True, hr_crypt_plugin = Some ''Arc4'', hr_compressed = False\<rparr>,
     \<lparr>cn_wire = send (crypt_message ''Arc4'') ((send (connect_message opts ident) w)\<lparr>w_version := version\<rparr>), cn_compressed = False,
      cn_filter = Some (length (w_sent w) + 2, Arc4 (arc4_new K))\<rparr>)"
proof -
  let ?data = "auth_data salt (hex_of B)"
  define tail where "tail = reply [] ok"
  have len: "length ?data < 2147483645" using assms(5,6) by (simp add: auth_data_def)
  have plugin: "length plugin < 2147483645" "plugin \<noteq> []" "plugin \<noteq> ''Legacy_Auth''" "is_srp plugin" "proof_hash_for cr plugin = Inr h"
    using assms(8) by (auto simp: proof_hash_for_def)
  have data: "?data \<noteq> []" by (simp add: auth_data_def numeral_2_eq_2)
  have pf: "proof_for cr plugin (ho_user opts) (ho_password opts) e ?data = Inr \<lparr>sp_hex = p, sp_key = K\<rparr>"
    using keys_agree [OF assms(1,2,3,4,5,7) plugin(5) assms(6,9)] by (simp add: proof_for_def assms(22))
  have accept: "read_accept (feed (enc_accept op_accept_data (FB_PROTOCOL_FLAG + version) 5 ?data plugin 0 []) x)
      = (Inr \<lparr>ac_op = op_accept_data, ac_version = FB_PROTOCOL_FLAG + version, ac_architecture = 1, ac_type = 5,
          ac_data = ?data, ac_plugin = plugin, ac_authenticated = False, ac_keys = []\<rparr>, x)" for x
    using read_accept_feed [of op_accept_data "FB_PROTOCOL_FLAG + version" 5 0 ?data plugin "[]" x] assms(14,15) len plugin(1)
    by (simp add: FB_PROTOCOL_FLAG_def)
  have version: "(FB_PROTOCOL_FLAG + version) mod 32768 = version" using assms(14,15) by (simp add: FB_PROTOCOL_FLAG_def)
  have response: "read_response (feed tail x) = (Inr g, x)" if "w_messages x = w_messages w" "w_deferred x = 0" for x
    using read_response_reply [of "[]" x ok] that assms(17,18) by (simp add: tail_def noise_fits_def settled_def del: reply_feed)
  have first: "takeWhile (\<lambda>c. c \<noteq> CHR '','') AUTH_PLUGIN_LIST = ''Srp256''" by (simp add: AUTH_PLUGIN_LIST_def)
  let ?ac = "\<lparr>ac_op = op_accept_data, ac_version = FB_PROTOCOL_FLAG + version, ac_architecture = 1, ac_type = 5,
      ac_data = ?data, ac_plugin = plugin, ac_authenticated = False, ac_keys = []\<rparr>"
  let ?ao = "\<lparr>ao_key = Some K, ao_dpb = Some p, ao_pending = Some \<lparr>pa_ephemeral = e, pa_plugin = plugin, pa_user = ho_user opts,
      pa_password = ho_password opts, pa_token = None\<rparr>, ao_keys = [], ao_key_data = []\<rparr>"
  have auth: "authenticate cr opts e ''Srp256'' ?ac x = (Inr ?ao, x)" for x
    using assms(11) plugin data
    by (simp add: authenticate_def srp_rounds_def rd_bind_def Let_def pf rd_lift_def outcome_of_def)
  have negotiate: "negotiate_crypt cr ''Arc4'' K [] \<lparr>cn_wire = feed tail x, cn_compressed = b, cn_filter = None\<rparr>
      = (Inr (), \<lparr>cn_wire = send (crypt_message ''Arc4'') x, cn_compressed = b,
          cn_filter = Some (length (w_sent (send (crypt_message ''Arc4'') x)), Arc4 (arc4_new K))\<rparr>)"
    if "w_messages x = w_messages w" "w_deferred x = 0" for x b
    using that response [of "send (crypt_message ''Arc4'') x"]
    by (simp add: negotiate_crypt_def engage_crypt_def sn_bind_def cn_rd_def sn_catch_def new_filter_def install_crypt_def)
  let ?x = "(send (connect_message opts ident) w)\<lparr>w_version := version\<rparr>"
  have sent: "length (w_sent (send (crypt_message ''Arc4'') ?x)) = length (w_sent w) + 2"
    by (simp add: send_sent)
  have fed: "(feed tail y)\<lparr>w_version := version\<rparr> = feed tail (y\<lparr>w_version := version\<rparr>)" for y by (simp add: feed_def)
  have select: "select_crypt_plugin [] None = Some ''Arc4''" by (simp add: select_crypt_plugin_def)
  show ?thesis
    unfolding perform_handshake_def assms(21) tail_def [symmetric] feed_append assms(16) assms(11) option.case first Let_def
    using assms(12,13,14,20)
    by (simp add: sn_bind_def cn_rd_def assms(10) accept [unfolded op_accept_data_def] version auth [unfolded op_accept_data_def] negotiate fed select sent PFLAG_COMPRESS_def Let_def)
qed

text \<open>
  C34. With a server that holds the verifier of the password and answers with its salt and
  key (\<open>op_accept_data\<close>), the handshake succeeds: the result carries the version, the proof
  for the attach, and the key the server computes for itself; and the connection is
  encrypted with RC4 under that key, from the packet after \<open>op_crypt\<close> on.
\<close>

theorem handshake_shares_the_key:
  assumes "ephemeral_from seed = Some e" and "v = verifier cr salt (ho_user opts) (ho_password opts)"
    and "B = server_public cr v b" and "B \<noteq> 0" and "length salt < 65536" and "length (hex_of B) < 65536"
    and "se_a e + srp_u cr (se_A e) B * srp_x cr salt (ho_user opts) (ho_password opts) < srp_N"
    and "plugin = ''Srp'' \<and> h = cr_sha1 cr \<or> plugin = ''Srp256'' \<and> h = cr_sha256 cr"
    and "K = cr_sha1 cr (big_int_to_buffer (server_secret cr v b (se_A e)))"
    and "build_user_identification cl opts ''Srp256'' AUTH_PLUGIN_LIST (str_bytes (se_public_hex e)) = Inr ident"
    and "ho_auth_plugin opts = None" and "ho_wire_crypt_plugin opts = None" and "ho_wire_crypt opts \<noteq> Crypt_disabled"
    and "13 \<le> version" and "version < 32768" and "cl_crypto cl = cr"
    and "response_ok ok" and "body_result (w_messages w) ok = Inr g"
    and "w_out w = []" and "w_deferred w = 0"
    and "c = \<lparr>cn_wire = feed (enc_accept op_accept_data (FB_PROTOCOL_FLAG + version) 5 (auth_data salt (hex_of B)) plugin 0 [] @ reply [] ok) w,
      cn_compressed = False, cn_filter = None\<rparr>"
    and "p = hex_of (srp_M cr h (ho_user opts) salt (se_A e) B K)"
  shows "perform_handshake cl (Inr e) opts c =
    (Inr \<lparr>hr_version = version, hr_min_type = 5, hr_session_key = Some K, hr_dpb_auth = Some p,
       hr_pending = Some \<lparr>pa_ephemeral = e, pa_plugin = plugin, pa_user = ho_user opts, pa_password = ho_password opts, pa_token = None\<rparr>,
       hr_encrypted = True, hr_crypt_plugin = Some ''Arc4'', hr_compressed = False\<rparr>,
     \<lparr>cn_wire = send (crypt_message ''Arc4'') ((send (connect_message opts ident) w)\<lparr>w_version := version\<rparr>), cn_compressed = False,
      cn_filter = Some (length (w_sent w) + 2, Arc4 (arc4_new K))\<rparr>)"
  by (rule handshake_run [OF assms])

definition sample_client :: client where
  "sample_client = \<lparr>cl_crypto = sample_crypto, cl_os_user = Some ''root'', cl_hostname = ''host''\<rparr>"

definition sample_handshake_options :: handshake_options where
  "sample_handshake_options = \<lparr>ho_database = ''db'', ho_user = ''SYSDBA'', ho_password = ''masterkey'', ho_wire_crypt = Crypt_required,
     ho_wire_compression = False, ho_wire_crypt_plugin = None, ho_auth_plugin = None\<rparr>"

definition accepted :: response where
  "accepted = \<lparr>r_handle = 0, r_oid = replicate 8 0, r_data = [], r_status = []\<rparr>"

definition fresh_wire :: wire where
  "fresh_wire = \<lparr>w_in = [], w_out = [], w_sent = [], w_flush_count = 0, w_deferred = 0, w_version = 0, w_inline_size = 0,
     w_inlined = [], w_messages = (\<lambda>_. None)\<rparr>"

definition sample_connection :: connection where
  "sample_connection = \<lparr>cn_wire = feed (enc_accept op_accept_data (FB_PROTOCOL_FLAG + 16) 5 (auth_data [5] (hex_of 6)) ''Srp'' 0 [] @ reply [] accepted) fresh_wire,
     cn_compressed = False, cn_filter = None\<rparr>"

lemma accepted_ok: "response_ok accepted" "\<exists>g. body_result m accepted = Inr g"
  by (simp_all add: accepted_def response_ok_def body_result_def status_of_def sv_init_def sv_result_def)

lemma sample_ident:
  "\<exists>ident. build_user_identification sample_client sample_handshake_options ''Srp256'' AUTH_PLUGIN_LIST (str_bytes (se_public_hex sample_ephemeral)) = Inr ident"
  by (simp add: build_user_identification_def sample_client_def sample_handshake_options_def sample_ephemeral_def AUTH_PLUGIN_LIST_def
      pb_string_def pb_bytes_def multiblock.simps pb_new_def)

lemma handshake_shares_the_key_witness:
  "\<exists>r c'. perform_handshake sample_client (Inr sample_ephemeral) sample_handshake_options sample_connection = (Inr r, c')
     \<and> hr_session_key r = Some (replicate 19 0 @ [1]) \<and> cn_filter c' = Some (2, Arc4 (arc4_new (replicate 19 0 @ [1])))"
proof -
  obtain ident where ident: "build_user_identification sample_client sample_handshake_options ''Srp256'' AUTH_PLUGIN_LIST
      (str_bytes (se_public_hex sample_ephemeral)) = Inr ident" using sample_ident by blast
  obtain g where g: "body_result (w_messages fresh_wire) accepted = Inr g" using accepted_ok(2) by blast
  have v: "(2::int) = verifier sample_crypto [5] (ho_user sample_handshake_options) (ho_password sample_handshake_options)"
    by (simp add: verifier_def srp_g_def srp_N_def)
  have B: "(6::int) = server_public sample_crypto 2 2" by (simp add: server_public_def srp_g_def srp_N_def)
  have "length (hex_of 6) < 65536" by (simp add: hex_of_def hex_nat.simps)
  from handshake_shares_the_key [OF sample_ephemeral_from v B _ _ this _ _ refl ident, where version = 16 and plugin = "''Srp''"
      and ok = accepted and w = fresh_wire and c = sample_connection and h = "cr_sha1 sample_crypto", OF _ _ _ _ _ _ _ _ _ _ accepted_ok(1) g _ _ _ refl]
  show ?thesis
    by (simp add: sample_handshake_options_def sample_client_def sample_ephemeral_def srp_N_def fresh_wire_def sample_connection_def)
      (simp add: sample_crypto_def)
qed

lemma sample_run:
  "\<exists>r c'. perform_handshake sample_client (Inr sample_ephemeral) sample_handshake_options sample_connection = (Inr r, c')
     \<and> hr_session_key r = Some (replicate 19 0 @ [1]) \<and> cn_filter c' = Some (2, Arc4 (arc4_new (replicate 19 0 @ [1])))"
proof -
  obtain ident where ident: "build_user_identification sample_client sample_handshake_options ''Srp256'' AUTH_PLUGIN_LIST
      (str_bytes (se_public_hex sample_ephemeral)) = Inr ident" using sample_ident by blast
  obtain g where g: "body_result (w_messages fresh_wire) accepted = Inr g" using accepted_ok(2) by blast
  have v: "(2::int) = verifier sample_crypto [5] (ho_user sample_handshake_options) (ho_password sample_handshake_options)"
    by (simp add: verifier_def srp_g_def srp_N_def)
  have B: "(6::int) = server_public sample_crypto 2 2" by (simp add: server_public_def srp_g_def srp_N_def)
  have "length (hex_of 6) < 65536" by (simp add: hex_of_def hex_nat.simps)
  from handshake_run [OF sample_ephemeral_from v B _ _ this _ _ refl ident, where version = 16 and plugin = "''Srp''"
      and ok = accepted and w = fresh_wire and c = sample_connection and h = "cr_sha1 sample_crypto", OF _ _ _ _ _ _ _ _ _ _ accepted_ok(1) g _ _ _ refl]
  show ?thesis
    by (simp add: sample_handshake_options_def sample_client_def sample_ephemeral_def srp_N_def fresh_wire_def sample_connection_def)
      (simp add: sample_crypto_def)
qed

lemma required_means_encrypted_witness:
  "\<exists>r c'. perform_handshake sample_client (Inr sample_ephemeral) sample_handshake_options sample_connection = (Inr r, c') \<and> hr_encrypted r"
proof -
  obtain r c' where "perform_handshake sample_client (Inr sample_ephemeral) sample_handshake_options sample_connection = (Inr r, c')"
    using sample_run by blast
  with required_means_encrypted [OF this] show ?thesis by (auto simp: sample_handshake_options_def)
qed

subsection \<open>Offers that are repeated\<close>

definition enc_offer :: "bytes \<Rightarrow> string \<Rightarrow> string \<Rightarrow> string \<Rightarrow> bytes" where
  "enc_offer data plugin plugins keys = enc_int32 op_cont_auth @ enc_opaque data @ enc_string plugin @ enc_string plugins @ enc_string keys"

definition offer_ok :: "bytes \<Rightarrow> string \<Rightarrow> string \<Rightarrow> string \<Rightarrow> bool" where
  "offer_ok data plugin plugins keys = (length data < 2147483645 \<and> length plugin < 2147483645
     \<and> length plugins < 2147483645 \<and> length keys < 2147483645)"

lemma offer_feed:
  assumes "offer_ok data plugin plugins keys"
  shows "rd_bind read_op f (feed (enc_offer data plugin plugins keys) w)
      = f op_cont_auth (feed (enc_opaque data) (feed (enc_string plugin) (feed (enc_string plugins) (feed (enc_string keys) w))))"
    and "rd_bind read_offer g (feed (enc_opaque data) (feed (enc_string plugin) (feed (enc_string plugins) (feed (enc_string keys) w)))) = g (data, plugin, keys) w"
proof -
  have "read_op (feed (enc_int32 op_cont_auth) v) = (Inr op_cont_auth, v)" for v by (rule read_op_other) simp_all
  then show "rd_bind read_op f (feed (enc_offer data plugin plugins keys) w)
      = f op_cont_auth (feed (enc_opaque data) (feed (enc_string plugin) (feed (enc_string plugins) (feed (enc_string keys) w))))"
    by (simp add: enc_offer_def rd_bind_def)
  show "rd_bind read_offer g (feed (enc_opaque data) (feed (enc_string plugin) (feed (enc_string plugins) (feed (enc_string keys) w)))) = g (data, plugin, keys) w"
    using assms by (simp add: offer_ok_def read_offer_def rd_bind_def read_opaque_feed read_string_feed)
qed

text \<open>More fuel than there are bytes changes nothing: a turn reads an operation.\<close>

lemma rd_bind_steps [simp]:
  "rd_bind (send_cont_auth auth plugin plugins) f w = f () (send (cont_auth_message auth plugin plugins) w)"
  "rd_bind (rd_lift (Inr x)) g w = g x w"
  by (simp_all add: rd_bind_def send_cont_auth_def rd_lift_def)

lemma consumes_send [simp]: "consumes 0 (send_cont_auth auth plugin plugins)"
  by (simp add: consumes_def send_cont_auth_def)

lemma consumes_offer: "consumes 0 read_offer"
  unfolding read_offer_def
  by (intro consumes_then [OF consumes_opaque] consumes_then [OF consumes_string]) simp

lemma consumes_cont_turn: "consumes 4 (cont_turn cr user password e st)"
  unfolding cont_turn_def
  by (rule consumes_bind [OF consumes_read_op, of 0, simplified])
    (auto simp: Let_def split_beta intro!: consumes_then [OF consumes_response_body] consumes_then [OF consumes_offer]
      consumes_then [OF consumes_send] consumes_then [OF consumes_lift])

lemma consumes_attach_turn: "consumes 4 (attach_turn cr pending sent)"
  unfolding attach_turn_def
  by (rule consumes_bind [OF consumes_read_op, of 0, simplified])
    (auto simp: Let_def split_beta intro!: consumes_then [OF consumes_response_body] consumes_then [OF consumes_offer]
      consumes_then [OF consumes_send] consumes_then [OF consumes_lift] split: option.split)

lemma cont_fuel_enough:
  "length (w_in w) < n \<Longrightarrow> length (w_in w) < m \<Longrightarrow> cont_fuel n cr user password e st w = cont_fuel m cr user password e st w"
proof (induction n arbitrary: m st w)
  case (Suc n)
  from Suc.prems obtain m' where m: "m = Suc m'" by (cases m) auto
  show ?case
    unfolding m cont_fuel.simps
  proof (rule rd_bind_cong)
    fix x w' assume "cont_turn cr user password e st w = (Inr x, w')"
    then have "length (w_in w') + 4 \<le> length (w_in w)" by (rule consumes_Inr [OF consumes_cont_turn])
    then have "length (w_in w') < n" "length (w_in w') < m'" using Suc.prems m by simp_all
    then show "(case x of Inl st' \<Rightarrow> rd_return st' | Inr st' \<Rightarrow> cont_fuel n cr user password e st') w'
        = (case x of Inl st' \<Rightarrow> rd_return st' | Inr st' \<Rightarrow> cont_fuel m' cr user password e st') w'"
      using Suc.IH [of w' m'] by (cases x) simp_all
  qed
qed simp

lemma attach_fuel_enough:
  "length (w_in w) < n \<Longrightarrow> length (w_in w) < m \<Longrightarrow> attach_fuel n cr pending sent w = attach_fuel m cr pending sent w"
proof (induction n arbitrary: m pending sent w)
  case (Suc n)
  from Suc.prems obtain m' where m: "m = Suc m'" by (cases m) auto
  show ?case
    unfolding m attach_fuel.simps
  proof (rule rd_bind_cong)
    fix x w' assume "attach_turn cr pending sent w = (Inr x, w')"
    then have "length (w_in w') + 4 \<le> length (w_in w)" by (rule consumes_Inr [OF consumes_attach_turn])
    then have "length (w_in w') < n" "length (w_in w') < m'" using Suc.prems m by simp_all
    then show "(case x of Inl g \<Rightarrow> rd_return g | Inr (pending', sent') \<Rightarrow> attach_fuel n cr pending' sent') w'
        = (case x of Inl g \<Rightarrow> rd_return g | Inr (pending', sent') \<Rightarrow> attach_fuel m' cr pending' sent') w'"
      using Suc.IH [of w' m'] by (cases x) (simp_all add: split_beta)
  qed
qed simp

lemma cont_loop_turn:
  "cont_loop cr user password e st w = rd_bind (cont_turn cr user password e st) (\<lambda>r.
     case r of Inl st' \<Rightarrow> rd_return st' | Inr st' \<Rightarrow> cont_loop cr user password e st') w"
proof -
  have "cont_loop cr user password e st w = rd_bind (cont_turn cr user password e st) (\<lambda>r.
     case r of Inl st' \<Rightarrow> rd_return st' | Inr st' \<Rightarrow> cont_fuel (length (w_in w)) cr user password e st') w"
    by (simp add: cont_loop_def)
  also have "\<dots> = rd_bind (cont_turn cr user password e st) (\<lambda>r.
     case r of Inl st' \<Rightarrow> rd_return st' | Inr st' \<Rightarrow> cont_loop cr user password e st') w"
  proof (rule rd_bind_cong)
    fix x w' assume "cont_turn cr user password e st w = (Inr x, w')"
    then have "length (w_in w') + 4 \<le> length (w_in w)" by (rule consumes_Inr [OF consumes_cont_turn])
    then show "(case x of Inl st' \<Rightarrow> rd_return st' | Inr st' \<Rightarrow> cont_fuel (length (w_in w)) cr user password e st') w'
        = (case x of Inl st' \<Rightarrow> rd_return st' | Inr st' \<Rightarrow> cont_loop cr user password e st') w'"
      using cont_fuel_enough [of w' "length (w_in w)" "Suc (length (w_in w'))"] by (cases x) (simp_all add: cont_loop_def)
  qed
  finally show ?thesis .
qed



text \<open>
  C36. A switch to another plugin without data can never complete. The client answers it
  with its public key, as it should; but it has already counted the plugin as attempted,
  so the salt and key that the server then sends are taken for a refusal.
\<close>

theorem switch_without_data_fails:
  assumes "offer_ok [] plugin plugins keys" and "offer_ok data plugin plugins' keys'"
    and "plugin \<noteq> []" and "is_srp plugin" and "plugin \<notin> set (au_attempted st)" and "plugin \<noteq> au_plugin st"
    and "data \<noteq> []" and "au_token st = None"
  shows "cont_loop cr user password e st (feed (enc_offer [] plugin plugins keys @ enc_offer data plugin plugins' keys') w)
    = (Inl LOGIN_ERROR, send (cont_auth_message (se_public_hex e) plugin AUTH_PLUGIN_LIST) w)"
proof -
  let ?st = "(if keys \<noteq> [] then st\<lparr>au_keys := keys\<rparr> else st)"
  let ?st' = "?st\<lparr>au_attempted := plugin # au_attempted ?st, au_plugin := plugin\<rparr>"
  let ?w = "feed (enc_offer data plugin plugins' keys') w"
  have not_legacy: "plugin \<noteq> ''Legacy_Auth''" using assms(4) by auto
  have turn: "cont_turn cr user password e st (feed (enc_offer [] plugin plugins keys) ?w)
      = (Inr (Inr ?st'), send (cont_auth_message (se_public_hex e) plugin AUTH_PLUGIN_LIST) ?w)"
    using assms(3-6,8) not_legacy
    by (auto simp: cont_turn_def offer_feed [OF assms(1)] Let_def)
  have again: "cont_turn cr user password e ?st' (feed (enc_offer data plugin plugins' keys') v) = (Inl LOGIN_ERROR, v)" for v
    using assms(3,7,8) by (auto simp: cont_turn_def offer_feed [OF assms(2)] Let_def)
  have "cont_loop cr user password e st (feed (enc_offer [] plugin plugins keys) ?w)
      = cont_loop cr user password e ?st' (send (cont_auth_message (se_public_hex e) plugin AUTH_PLUGIN_LIST) ?w)"
    unfolding cont_loop_turn [of cr user password e st] rd_bind_Inr [where m = "cont_turn cr user password e st", OF turn] by simp
  also have "\<dots> = (Inl LOGIN_ERROR, send (cont_auth_message (se_public_hex e) plugin AUTH_PLUGIN_LIST) w)"
    unfolding cont_loop_turn [of cr user password e ?st'] send_feed by (rule rd_bind_Inl [where m = "cont_turn cr user password e ?st'", OF again])
  finally show ?thesis by simp
qed

lemma switch_without_data_fails_witness:
  "fst (cont_loop sample_crypto ''SYSDBA'' ''masterkey'' sample_ephemeral
     \<lparr>au_plugin = ''Srp256'', au_key = Some [], au_keys = [], au_token = None, au_attempted = [''Srp256''], au_key_data = []\<rparr>
     (feed (enc_offer [] ''Srp'' [] [] @ enc_offer (auth_data [5] (hex_of 6)) ''Srp'' [] []) fresh_wire)) = Inl LOGIN_ERROR"
  by (subst switch_without_data_fails) (simp_all add: offer_ok_def auth_data_def hex_of_def hex_nat.simps)

text \<open>
  C37. The rounds that follow an attach have no such guard: a server that keeps offering a
  salt and key, as it does after a wrong password, gets a new proof each time, for as long
  as it offers.
\<close>

theorem attach_proves_again:
  assumes "offer_ok data plugin plugins keys" and "data \<noteq> []"
    and "use = (if plugin \<noteq> [] then plugin else pa_plugin p)" and "use \<noteq> ''Legacy_Auth''" and "pa_token p = None"
    and "proof_for cr use (pa_user p) (pa_password p) (pa_ephemeral p) data = Inr q"
  shows "read_response_with_auth cr (Some p) (feed (concat (replicate n (enc_offer data plugin plugins keys))) w)
    = read_response_with_auth cr (Some p) ((send (cont_auth_message (sp_hex q) use AUTH_PLUGIN_LIST) ^^ n) w)"
proof (induction n arbitrary: w)
  case (Suc n)
  let ?m = "cont_auth_message (sp_hex q) use AUTH_PLUGIN_LIST"
  let ?o = "enc_offer data plugin plugins keys"
  let ?w = "feed ?o (feed (concat (replicate n ?o)) w)"
  have turn: "attach_turn cr (Some p) False ?w = (Inr (Inr (Some p, False)), send ?m (feed (concat (replicate n ?o)) w))"
    using assms(2-6) by (auto simp: attach_turn_def offer_feed [OF assms(1)] truthy_def Let_def)
  have less: "length (w_in (send ?m (feed (concat (replicate n ?o)) w))) < length (w_in ?w)"
    using consumes_Inr [OF consumes_attach_turn turn] by linarith
  have "read_response_with_auth cr (Some p) ?w = attach_fuel (length (w_in ?w)) cr (Some p) False (send ?m (feed (concat (replicate n ?o)) w))"
    unfolding read_response_with_auth_def attach_fuel.simps rd_bind_Inr [where m = "attach_turn cr (Some p) False", OF turn] by simp
  also have "\<dots> = read_response_with_auth cr (Some p) (send ?m (feed (concat (replicate n ?o)) w))"
    unfolding read_response_with_auth_def by (rule attach_fuel_enough [OF less]) simp
  also have "\<dots> = read_response_with_auth cr (Some p) (feed (concat (replicate n ?o)) (send ?m w))" by simp
  also have "\<dots> = read_response_with_auth cr (Some p) ((send ?m ^^ n) (send ?m w))" by (rule Suc.IH)
  finally show ?case by (simp add: funpow_swap1)
qed simp

lemma attach_proves_again_witness:
  "\<exists>q :: srp_proof. read_response_with_auth sample_crypto
     (Some \<lparr>pa_ephemeral = sample_ephemeral, pa_plugin = ''Srp'', pa_user = ''SYSDBA'', pa_password = ''wrong'', pa_token = None\<rparr>)
     (feed (concat (replicate 1000 (enc_offer (auth_data [5] (hex_of 6)) ''Srp'' [] []))) fresh_wire)
   = read_response_with_auth sample_crypto
     (Some \<lparr>pa_ephemeral = sample_ephemeral, pa_plugin = ''Srp'', pa_user = ''SYSDBA'', pa_password = ''wrong'', pa_token = None\<rparr>)
     ((send (cont_auth_message (sp_hex q) ''Srp'' AUTH_PLUGIN_LIST) ^^ 1000) fresh_wire)"
proof -
  have "list_all (\<lambda>c. hex_digit_val c \<noteq> None) (hex_of 6)" unfolding hex_of_def by (rule hex_nat_digits)
  then have "parse_server_auth_data (auth_data [5] (hex_of 6)) = Inr ([5], hex_of 6)"
    by (intro parse_auth_data) (simp_all add: hex_of_def hex_nat.simps)
  then obtain q where q: "proof_for sample_crypto ''Srp'' ''SYSDBA'' ''wrong'' sample_ephemeral (auth_data [5] (hex_of 6)) = Inr q"
    by (simp add: proof_for_def compute_proof_def big_int_of_hex_of srp_N_def proof_hash_for_def Let_def)
  have data: "length (auth_data [5] (hex_of 6)) = 6" "auth_data [5] (hex_of 6) \<noteq> []"
    by (simp_all add: auth_data_def hex_of_def hex_nat.simps)
  show ?thesis
    by (rule exI [of _ q], rule attach_proves_again [where use = "''Srp''"]) (simp_all add: offer_ok_def data q)
qed

end
