(* ===== verification/Blob_Handle.thy ===== *)
theory Blob_Handle
  imports Session
begin

text \<open>
  \<open>api/blob.ts\<close>: the lazy handle of a blob. A handle fetches nothing until it is asked to;
  \<open>head\<close> leaves a cursor open that \<open>buffer\<close> and \<open>stream\<close> resume. The lock is the order of
  the steps; a stream, whose steps interleave with its consumer's, is a machine of events.
\<close>

subsection \<open>The handle and its scope\<close>

text \<open>
  \<open>lz_ahead\<close> is what the scope sees of a read-ahead store: the blobs it tracks, each with
  the outcome of the promise that \<open>take\<close> hands out once. It is empty without a store.
\<close>

record lazy_scope =
  lz_conn :: nat
  lz_tx :: int
  lz_chunk :: int
  lz_alive :: bool
  lz_ahead :: "(string, bytes res) js_map"

record lazy_blob =
  lb_id :: bytes
  lb_sub_type :: int
  lb_codec :: "text_codec option"
  lb_cached :: "bytes option"
  lb_consumed :: "bytes list"
  lb_consumed_bytes :: nat
  lb_cursor :: "int option"
  lb_at_eof :: bool

definition lb_new :: "bytes \<Rightarrow> int \<Rightarrow> text_codec option \<Rightarrow> lazy_blob" where
  "lb_new bid sub codec = \<lparr>lb_id = bid, lb_sub_type = sub, lb_codec = codec, lb_cached = None, lb_consumed = [],
     lb_consumed_bytes = 0, lb_cursor = None, lb_at_eof = False\<rparr>"

record held =
  hl_session :: session
  hl_scope :: lazy_scope
  hl_blob :: lazy_blob

definition hl_do :: "(lazy_blob \<Rightarrow> lazy_blob) \<Rightarrow> (held, unit) act" where
  "hl_do f = sn_do (\<lambda>h. h\<lparr>hl_blob := f (hl_blob h)\<rparr>)"

definition hl_on :: "(session, 'a) act \<Rightarrow> (held, 'a) act" where
  "hl_on m = (\<lambda>h. case m (hl_session h) of (r, s) \<Rightarrow> (r, h\<lparr>hl_session := s\<rparr>))"

definition dead_handle :: err where
  "dead_handle = FbError FirebirdBlobError (''blob handle used after its transaction closed '' @ em_dash
     @ '' read lazy blobs before commit, or use blobs:'' @ [quote] @ ''eager'' @ [quote]) None None []"

definition hl_assert_alive :: "(held, unit) act" where
  "hl_assert_alive = (\<lambda>h. (if lz_alive (hl_scope h) then Inr () else Inl dead_handle, h))"

text \<open>\<open>Buffer.concat(list, n)\<close> cuts or zero-fills to \<open>n\<close> bytes.\<close>

definition concat_to :: "nat \<Rightarrow> bytes list \<Rightarrow> bytes" where
  "concat_to n bs = take n (concat bs) @ replicate (n - length (concat bs)) 0"

definition first_bytes :: "int \<Rightarrow> bytes \<Rightarrow> bytes" where
  "first_bytes n b = take (nat (min n (int (length b)))) b"

text \<open>\<open>this.scope.inline?.take(\<dots>)\<close>, whose bytes become the cache.\<close>

definition claim_inline :: "(held, bytes option) act" where
  "claim_inline = (\<lambda>h. sn_bind (hl_on (inline_take (lz_tx (hl_scope h)) (lb_id (hl_blob h)))) (\<lambda>d.
     case d of None \<Rightarrow> sn_return None
     | Some b \<Rightarrow> sn_bind (hl_do (\<lambda>bl. bl\<lparr>lb_cached := Some b\<rparr>)) (\<lambda>_. sn_return (Some b))) h)"

definition ahead_key :: "held \<Rightarrow> string" where
  "ahead_key h = hex_str (lb_id (hl_blob h))"

definition ahead_has :: "held \<Rightarrow> bool" where
  "ahead_has h = (jm_get (lz_ahead (hl_scope h)) (ahead_key h) \<noteq> None)"

definition ahead_take :: "(held, bytes res option) act" where
  "ahead_take = (\<lambda>h. (Inr (jm_get (lz_ahead (hl_scope h)) (ahead_key h)),
     h\<lparr>hl_scope := (hl_scope h)\<lparr>lz_ahead := jm_delete (lz_ahead (hl_scope h)) (ahead_key h)\<rparr>\<rparr>))"

subsection \<open>The cursor\<close>

definition finish_cursor :: "held \<Rightarrow> held" where
  "finish_cursor h = (let h = h\<lparr>hl_blob := (hl_blob h)\<lparr>lb_at_eof := True\<rparr>\<rparr> in
     case lb_cursor (hl_blob h) of None \<Rightarrow> h
     | Some c \<Rightarrow> h\<lparr>hl_session := on_wire (close_blob_deferred c) (hl_session h), hl_blob := (hl_blob h)\<lparr>lb_cursor := None\<rparr>\<rparr>)"

definition promote_if_complete :: "lazy_blob \<Rightarrow> lazy_blob" where
  "promote_if_complete b = (if lb_at_eof b \<and> lb_cached b = None
     then b\<lparr>lb_cached := Some (concat_to (lb_consumed_bytes b) (lb_consumed b)), lb_consumed := []\<rparr> else b)"

definition consume :: "bytes list \<Rightarrow> lazy_blob \<Rightarrow> lazy_blob" where
  "consume cs b = b\<lparr>lb_consumed := lb_consumed b @ cs, lb_consumed_bytes := lb_consumed_bytes b + length (concat cs)\<rparr>"

text \<open>
  The reading loops of \<open>head\<close> (up to \<open>Some n\<close> bytes) and \<open>buffer\<close> (to the end). Every turn
  awaits a response, which bounds them by the bytes to come.
\<close>

definition window_size :: "int option \<Rightarrow> int \<Rightarrow> nat \<Rightarrow> nat" where
  "window_size goal chunk consumed = (case goal of None \<Rightarrow> 32
     | Some n \<Rightarrow> nat (min (max 1 (- ((int consumed - n) div chunk))) 32))"

definition wants_more :: "int option \<Rightarrow> lazy_blob \<Rightarrow> bool" where
  "wants_more goal b = (\<not> lb_at_eof b \<and> (case goal of None \<Rightarrow> True | Some n \<Rightarrow> int (lb_consumed_bytes b) < n))"

fun fill_fuel :: "nat \<Rightarrow> int option \<Rightarrow> (held, unit) act" where
  "fill_fuel 0 goal = sn_lift (Inl ClosedErr)"
| "fill_fuel (Suc k) goal = (\<lambda>h. if \<not> wants_more goal (hl_blob h) then (Inr (), h)
     else sn_bind (hl_on (sn_wire (read_blob_window (the (lb_cursor (hl_blob h))) (lz_chunk (hl_scope h))
         (window_size goal (lz_chunk (hl_scope h)) (lb_consumed_bytes (hl_blob h))))))
       (\<lambda>(cs, eof). sn_bind (hl_do (consume cs)) (\<lambda>_.
          sn_bind (sn_do (if eof then finish_cursor else id)) (\<lambda>_. fill_fuel k goal))) h)"

definition fill :: "int option \<Rightarrow> (held, unit) act" where
  "fill goal = (\<lambda>h. fill_fuel (Suc (length (w_in (s_wire (hl_session h))))) goal h)"

definition open_cursor :: "(held, unit) act" where
  "open_cursor = (\<lambda>h. if lb_cursor (hl_blob h) \<noteq> None then (Inr (), h)
     else sn_bind (hl_on (sn_wire (open_blob (lz_tx (hl_scope h)) (lb_id (hl_blob h))))) (\<lambda>c.
       hl_do (\<lambda>b. b\<lparr>lb_cursor := Some c\<rparr>)) h)"

subsection \<open>Reading\<close>

definition read_rest :: "(held, bytes) act" where
  "read_rest = (\<lambda>h. let b = hl_blob h in
     if lb_cursor b = None \<and> lb_consumed_bytes b = 0 \<and> \<not> lb_at_eof b
     then hl_on (sn_wire (read_blob (lz_tx (hl_scope h)) (lb_id b) (lz_chunk (hl_scope h)))) h
     else sn_bind (fill None) (\<lambda>_ h. (Inr (concat_to (lb_consumed_bytes (hl_blob h)) (lb_consumed (hl_blob h))), h)) h)"

definition buffer :: "(held, bytes) act" where
  "buffer = (\<lambda>h. case lb_cached (hl_blob h) of Some b \<Rightarrow> (Inr b, h)
   | None \<Rightarrow> sn_bind hl_assert_alive (\<lambda>_. sn_bind claim_inline (\<lambda>inlined. case inlined of Some b \<Rightarrow> sn_return b
     | None \<Rightarrow> sn_bind ahead_take (\<lambda>prefetched. case prefetched of
         Some r \<Rightarrow> sn_bind (sn_lift r) (\<lambda>b. sn_bind (hl_do (\<lambda>bl. bl\<lparr>lb_cached := Some b\<rparr>)) (\<lambda>_. sn_return b))
       | None \<Rightarrow> sn_bind read_rest (\<lambda>b.
           sn_bind (hl_do (\<lambda>bl. bl\<lparr>lb_cached := Some b, lb_consumed := []\<rparr>)) (\<lambda>_. sn_return b))))) h)"

definition head_result :: "int \<Rightarrow> (held, bytes) act" where
  "head_result n = (\<lambda>h. (Inr (first_bytes n (case lb_cached (hl_blob h) of Some b \<Rightarrow> b
     | None \<Rightarrow> concat_to (lb_consumed_bytes (hl_blob h)) (lb_consumed (hl_blob h)))), h))"

definition head :: "int \<Rightarrow> (held, bytes) act" where
  "head n = (\<lambda>h. if n \<le> 0 then (Inr [], h)
     else case lb_cached (hl_blob h) of Some b \<Rightarrow> (Inr (first_bytes n b), h)
     | None \<Rightarrow> sn_bind hl_assert_alive (\<lambda>_. sn_bind claim_inline (\<lambda>inlined. case inlined of
         Some b \<Rightarrow> sn_return (first_bytes n b)
       | None \<Rightarrow> (\<lambda>h. if ahead_has h then sn_bind buffer (\<lambda>full. sn_return (first_bytes n full)) h
           else sn_bind (if \<not> lb_at_eof (hl_blob h) \<and> int (lb_consumed_bytes (hl_blob h)) < n
                         then sn_bind open_cursor (\<lambda>_. fill (Some n)) else sn_return ()) (\<lambda>_.
             sn_bind (hl_do promote_if_complete) (\<lambda>_. head_result n)) h))) h)"

definition close_handle :: "(held, unit) act" where
  "close_handle = (\<lambda>h. (Inr (), (let c = lb_cursor (hl_blob h);
       h = h\<lparr>hl_blob := (hl_blob h)\<lparr>lb_cursor := None, lb_consumed := [], lb_consumed_bytes := 0, lb_at_eof := False\<rparr>\<rparr> in
     case c of None \<Rightarrow> h
     | Some c \<Rightarrow> if lz_alive (hl_scope h) then h\<lparr>hl_session := on_wire (close_blob_deferred c) (hl_session h)\<rparr> else h)))"

text \<open>\<open>text(encoding)\<close>, for the encodings utf8 and latin1.\<close>

definition decode_as :: "node_encoding \<Rightarrow> bytes \<Rightarrow> string" where
  "decode_as e b = (case e of Utf8 \<Rightarrow> bytes_str b | Latin1 \<Rightarrow> latin1_decode b)"

definition text_of :: "node_encoding option \<Rightarrow> lazy_blob \<Rightarrow> bytes \<Rightarrow> string res" where
  "text_of e b d = (case (lb_codec b, e) of
     (Some codec, None) \<Rightarrow> if lb_sub_type b = 1
       then rthen (tc_decode codec d) (\<lambda>v. case v of CText s \<Rightarrow> Inr s | CBytes d \<Rightarrow> Inr (decode_as Utf8 d) | _ \<Rightarrow> Inl TypeErr)
       else Inr (decode_as Utf8 d)
   | _ \<Rightarrow> Inr (decode_as (case e of Some e \<Rightarrow> e | None \<Rightarrow> Utf8) d))"

definition read_text :: "node_encoding option \<Rightarrow> (held, string) act" where
  "read_text e = sn_bind buffer (\<lambda>d h. (text_of e (hl_blob h) d, h))"

definition blob_size :: "(held, int option) act" where
  "blob_size = (\<lambda>h. case lb_cached (hl_blob h) of Some b \<Rightarrow> (Inr (Some (int (length b))), h)
   | None \<Rightarrow> sn_bind hl_assert_alive (\<lambda>_.
       hl_on (sn_bind (sn_wire (open_blob (lz_tx (hl_scope h)) (lb_id (hl_blob h)))) (\<lambda>c.
         sn_finally (on_wire (close_blob_deferred c)) (sn_wire (blob_total_length c))))) h)"

subsection \<open>Many handles at once\<close>

text \<open>
  \<open>Blob.prefetch\<close>: the objects of several connections, named by their positions. Each
  group of a connection and a transaction is read by one pipeline.
\<close>

record lazy_world =
  lw_sessions :: "session list"
  lw_objects :: "(lazy_scope \<times> lazy_blob) list"

type_synonym blob_groups = "(nat, (int, nat list) js_map) js_map"

definition add_to_group :: "nat \<Rightarrow> int \<Rightarrow> nat \<Rightarrow> blob_groups \<Rightarrow> blob_groups" where
  "add_to_group conn tx i gs = (let by_tx = (case jm_get gs conn of Some m \<Rightarrow> m | None \<Rightarrow> []);
     group = (case jm_get by_tx tx of Some g \<Rightarrow> g | None \<Rightarrow> []) in
     jm_set gs conn (jm_set by_tx tx (group @ [i])))"

definition set_cached :: "nat \<Rightarrow> bytes \<Rightarrow> lazy_world \<Rightarrow> lazy_world" where
  "set_cached i b lw = lw\<lparr>lw_objects := (lw_objects lw)[i := (case lw_objects lw ! i of (sc, bl) \<Rightarrow> (sc, bl\<lparr>lb_cached := Some b\<rparr>))]\<rparr>"

definition sort_object :: "nat \<Rightarrow> blob_groups \<times> lazy_world \<Rightarrow> blob_groups \<times> lazy_world" where
  "sort_object i = (\<lambda>(gs, lw). case lw_objects lw ! i of (sc, bl) \<Rightarrow>
     if lb_cached bl \<noteq> None \<or> lb_cursor bl \<noteq> None \<or> 0 < lb_consumed_bytes bl then (gs, lw)
     else case inline_take (lz_tx sc) (lb_id bl) (lw_sessions lw ! lz_conn sc) of (d, s) \<Rightarrow>
       let lw = lw\<lparr>lw_sessions := (lw_sessions lw)[lz_conn sc := s]\<rparr> in
       case d of Inr (Some b) \<Rightarrow> (gs, set_cached i b lw)
       | _ \<Rightarrow> if jm_get (lz_ahead sc) (hex_str (lb_id bl)) \<noteq> None then (gs, lw)
              else (add_to_group (lz_conn sc) (lz_tx sc) i gs, lw))"

fun sort_objects :: "nat option list \<Rightarrow> nat list \<Rightarrow> blob_groups \<times> lazy_world \<Rightarrow> blob_groups \<times> lazy_world" where
  "sort_objects [] seen g = g"
| "sort_objects (None # bs) seen g = sort_objects bs seen g"
| "sort_objects (Some i # bs) seen g =
     (if i \<in> set seen then sort_objects bs seen g else sort_objects bs (i # seen) (sort_object i g))"

definition closed_group :: err where
  "closed_group = FbError FirebirdBlobError ''prefetchBlobs: a blob handle belongs to an already-closed transaction'' None None []"

definition fetch_group :: "nat list \<Rightarrow> (lazy_world, unit) act" where
  "fetch_group g = (\<lambda>lw. case lw_objects lw ! hd g of (sc, bl) \<Rightarrow>
     if \<not> lz_alive sc then (Inl closed_group, lw)
     else case sn_wire (read_blobs (lz_tx sc) (map (\<lambda>i. lb_id (snd (lw_objects lw ! i))) g) (lz_chunk sc)) (lw_sessions lw ! lz_conn sc) of
       (Inl e, s) \<Rightarrow> (Inl e, lw\<lparr>lw_sessions := (lw_sessions lw)[lz_conn sc := s]\<rparr>)
     | (Inr ds, s) \<Rightarrow> (Inr (), fold (\<lambda>(i, d). set_cached i d) (zip g ds) (lw\<lparr>lw_sessions := (lw_sessions lw)[lz_conn sc := s]\<rparr>)))"

fun fetch_groups :: "nat list list \<Rightarrow> (lazy_world, unit) act" where
  "fetch_groups [] = sn_return ()"
| "fetch_groups (g # gs) = sn_bind (fetch_group g) (\<lambda>_. fetch_groups gs)"

definition prefetch_blobs :: "nat option list \<Rightarrow> (lazy_world, unit) act" where
  "prefetch_blobs bs = (\<lambda>lw. case sort_objects bs [] ([], lw) of (gs, lw) \<Rightarrow>
     fetch_groups (concat (map (map snd \<circ> snd) gs)) lw)"

subsection \<open>Streams\<close>

text \<open>
  The variables of \<open>stream\<close>'s closures. \<open>bt_tasks\<close> are the functions waiting for the lock,
  \<open>bt_reply\<close> the outcome of a pull whose \<open>then\<close> has not run; \<open>bt_pushed\<close>, \<open>bt_ended\<close> (the push
  of \<open>null\<close>), \<open>bt_destroyed\<close> and \<open>bt_failure\<close> are what the Readable has seen.
\<close>

datatype stream_task = TPull | TCloseEnd | TCloseEarly

record blob_stream =
  bt_id :: bytes
  bt_tx :: int
  bt_chunk :: int
  bt_preamble :: "bytes option"
  bt_handle :: "int option"
  bt_finished :: bool
  bt_pulling :: bool
  bt_tasks :: "stream_task list"
  bt_reply :: "(bytes \<times> bool) option res option"
  bt_pushed :: "bytes list"
  bt_ended :: bool
  bt_destroyed :: bool
  bt_failure :: "err option"

text \<open>\<open>None\<close>: the stream yields \<open>buffer()\<close>. Otherwise it takes the cursor over.\<close>

definition open_stream :: "int option \<Rightarrow> (held, blob_stream option) act" where
  "open_stream chunk = sn_bind hl_assert_alive (\<lambda>_. sn_bind (hl_do promote_if_complete) (\<lambda>_. sn_bind
     (\<lambda>h. if lb_cached (hl_blob h) = None then claim_inline h else (Inr None, h)) (\<lambda>_ h.
     let b = hl_blob h; sc = hl_scope h in
     if lb_cached b \<noteq> None \<or> ahead_has h then (Inr None, h)
     else (Inr (Some \<lparr>bt_id = lb_id b, bt_tx = lz_tx sc, bt_chunk = (case chunk of Some c \<Rightarrow> c | None \<Rightarrow> lz_chunk sc),
         bt_preamble = (if 0 < lb_consumed_bytes b then Some (concat_to (lb_consumed_bytes b) (lb_consumed b)) else None),
         bt_handle = lb_cursor b, bt_finished = False, bt_pulling = False, bt_tasks = [], bt_reply = None, bt_pushed = [],
         bt_ended = False, bt_destroyed = False, bt_failure = None\<rparr>),
       h\<lparr>hl_blob := b\<lparr>lb_cursor := None, lb_consumed := [], lb_consumed_bytes := 0, lb_at_eof := False\<rparr>\<rparr>))))"

text \<open>The stream at work, with the record of what it did on the wire.\<close>

datatype stream_act = Opened int | Segment bytes bool | Closed int

record streaming =
  sg_session :: session
  sg_alive :: bool
  sg_stream :: blob_stream
  sg_log :: "stream_act list"

datatype stream_event = Wants bool | Runs | Answers bool | Destroys "err option" | Tx_ends

definition stream_pull :: "blob_stream \<Rightarrow> blob_stream" where
  "stream_pull b = (if bt_pulling b \<or> bt_finished b then b else b\<lparr>bt_pulling := True, bt_tasks := bt_tasks b @ [TPull]\<rparr>)"

definition stream_push :: "bytes \<Rightarrow> blob_stream \<Rightarrow> blob_stream" where
  "stream_push d b = b\<lparr>bt_pushed := bt_pushed b @ [d]\<rparr>"

text \<open>\<open>read()\<close>; the argument is what \<open>push\<close> returns. A Readable that ended is not read.\<close>

definition stream_read :: "bool \<Rightarrow> blob_stream \<Rightarrow> blob_stream" where
  "stream_read hungry b =
     (if bt_ended b \<or> bt_destroyed b then b
      else case bt_preamble b of
        Some p \<Rightarrow> let b = stream_push p (b\<lparr>bt_preamble := None\<rparr>) in if hungry then stream_pull b else b
      | None \<Rightarrow> stream_pull b)"

definition stream_destroy :: "err option \<Rightarrow> blob_stream \<Rightarrow> blob_stream" where
  "stream_destroy e b = (if bt_destroyed b then b
     else let b = b\<lparr>bt_destroyed := True, bt_failure := e\<rparr> in
       if bt_finished b then b else b\<lparr>bt_finished := True, bt_tasks := bt_tasks b @ [TCloseEarly]\<rparr>)"

text \<open>The \<open>then\<close> and the \<open>catch\<close> of a pull.\<close>

definition stream_then :: "bool \<Rightarrow> (bytes \<times> bool) option res \<Rightarrow> blob_stream \<Rightarrow> blob_stream" where
  "stream_then hungry r b = (let b = b\<lparr>bt_pulling := False, bt_reply := None\<rparr> in
     case r of
       Inl e \<Rightarrow> stream_destroy (Some e) b
     | Inr None \<Rightarrow> b
     | Inr (Some (data, eof)) \<Rightarrow>
         if bt_finished b then b
         else if eof then
           (let b = b\<lparr>bt_finished := True\<rparr>;
                b = (if data \<noteq> [] then stream_push data b else b);
                b = (if bt_handle b \<noteq> None then b\<lparr>bt_tasks := bt_tasks b @ [TCloseEnd]\<rparr> else b) in b\<lparr>bt_ended := True\<rparr>)
         else if data = [] then stream_pull b
         else (let b = stream_push data b in if hungry then stream_pull b else b))"

definition dead_stream :: err where
  "dead_stream = FbError FirebirdBlobError ''blob stream used after its transaction closed'' None None []"

definition sg_wire :: "'a rd \<Rightarrow> (streaming, 'a) act" where
  "sg_wire m = (\<lambda>g. case sn_wire m (sg_session g) of (r, s) \<Rightarrow> (r, g\<lparr>sg_session := s\<rparr>))"

definition sg_note :: "stream_act \<Rightarrow> streaming \<Rightarrow> streaming" where
  "sg_note a g = g\<lparr>sg_log := sg_log g @ [a]\<rparr>"

definition run_pull :: "(streaming, (bytes \<times> bool) option) act" where
  "run_pull = (\<lambda>g. let b = sg_stream g in
     if bt_finished b then (Inr None, g)
     else if \<not> sg_alive g then (Inl dead_stream, g)
     else sn_bind (case bt_handle b of Some c \<Rightarrow> sn_return c
         | None \<Rightarrow> sn_bind (sg_wire (open_blob (bt_tx b) (bt_id b))) (\<lambda>c.
             sn_bind (sn_do (\<lambda>g. sg_note (Opened c) (g\<lparr>sg_stream := (sg_stream g)\<lparr>bt_handle := Some c\<rparr>\<rparr>))) (\<lambda>_. sn_return c)))
       (\<lambda>c. sn_bind (sg_wire (get_blob_segment c (bt_chunk b))) (\<lambda>(data, eof).
          sn_bind (sn_do (sg_note (Segment data eof))) (\<lambda>_. sn_return (Some (data, eof))))) g)"

definition stream_close :: "streaming \<Rightarrow> streaming" where
  "stream_close g = (case bt_handle (sg_stream g) of None \<Rightarrow> g
     | Some c \<Rightarrow> sg_note (Closed c) (g\<lparr>sg_session := on_wire (close_blob_deferred c) (sg_session g)\<rparr>))"

definition run_task :: "stream_task \<Rightarrow> streaming \<Rightarrow> streaming" where
  "run_task t g = (case t of
     TPull \<Rightarrow> (case run_pull g of (r, g) \<Rightarrow> g\<lparr>sg_stream := (sg_stream g)\<lparr>bt_reply := Some r\<rparr>\<rparr>)
   | TCloseEnd \<Rightarrow> stream_close g
   | TCloseEarly \<Rightarrow> if sg_alive g then stream_close g else g)"

text \<open>The lock runs the next task once the \<open>then\<close> of the last has run.\<close>

definition stream_step :: "stream_event \<Rightarrow> streaming \<Rightarrow> streaming" where
  "stream_step ev g = (let b = sg_stream g in case ev of
     Wants hungry \<Rightarrow> g\<lparr>sg_stream := stream_read hungry b\<rparr>
   | Runs \<Rightarrow> (case (bt_reply b, bt_tasks b) of
       (None, t # ts) \<Rightarrow> run_task t (g\<lparr>sg_stream := b\<lparr>bt_tasks := ts\<rparr>\<rparr>)
     | _ \<Rightarrow> g)
   | Answers hungry \<Rightarrow> (case bt_reply b of None \<Rightarrow> g | Some r \<Rightarrow> g\<lparr>sg_stream := stream_then hungry r b\<rparr>)
   | Destroys e \<Rightarrow> g\<lparr>sg_stream := stream_destroy e b\<rparr>
   | Tx_ends \<Rightarrow> g\<lparr>sg_alive := False\<rparr>)"

definition stream_run :: "stream_event list \<Rightarrow> streaming \<Rightarrow> streaming" where
  "stream_run evs g = fold stream_step evs g"

end
