(* ===== verification/Blob_Streams.thy ===== *)
theory Blob_Streams
  imports Blob_Handle "HOL-Library.Sublist"
begin

text \<open>
  What the stream of a lazy handle guarantees, whatever the order of its events: it
  delivers what it was sent, and closes the server's handle once.
\<close>

subsection \<open>Closing the handle\<close>

definition closing :: "stream_task \<Rightarrow> bool" where
  "closing t = (t \<noteq> TPull)"

fun is_close :: "stream_act \<Rightarrow> bool" where
  "is_close (Closed c) = True"
| "is_close _ = False"

fun act_data :: "stream_act \<Rightarrow> bytes" where
  "act_data (Segment d eof) = d"
| "act_data _ = []"

definition closes :: "stream_act list \<Rightarrow> stream_act list" where
  "closes l = filter is_close l"

definition close_tasks :: "blob_stream \<Rightarrow> stream_task list" where
  "close_tasks b = filter closing (bt_tasks b)"

definition log_data :: "stream_act list \<Rightarrow> bytes" where
  "log_data l = concat (map act_data l)"

lemma log_simps [simp]:
  "closes [] = []" "closes (l @ [a]) = closes l @ (if is_close a then [a] else [])"
  "log_data [] = []" "log_data (l @ [a]) = log_data l @ act_data a"
  by (simp_all add: closes_def log_data_def)

text \<open>
  The closing of the handle: nothing before the stream is finished; then one task at most,
  and after it the handle is closed, unless its transaction ended first.
\<close>

definition closing_ok :: "blob_stream \<Rightarrow> bool \<Rightarrow> stream_act list \<Rightarrow> bool" where
  "closing_ok b alive l =
     ((\<not> bt_finished b \<longrightarrow> closes l = [] \<and> close_tasks b = [])
   \<and> length (close_tasks b) + length (closes l) \<le> 1
   \<and> (bt_finished b \<and> close_tasks b = [] \<and> alive \<longrightarrow> (\<forall>c. bt_handle b = Some c \<longrightarrow> closes l = [Closed c]))
   \<and> (bt_destroyed b \<longrightarrow> bt_finished b))"

lemmas stream_simps = stream_pull_def stream_push_def close_tasks_def closing_def Let_def

lemma closing_pull: "closing_ok b al l \<Longrightarrow> closing_ok (stream_pull b) al l"
  by (auto simp: closing_ok_def stream_simps)

lemma closing_push [simp]: "closing_ok (stream_push d b) al l = closing_ok b al l"
  by (simp add: closing_ok_def stream_simps)

lemma closing_fields [simp]:
  "closing_ok (b\<lparr>bt_preamble := p\<rparr>) al l = closing_ok b al l" "closing_ok (b\<lparr>bt_pulling := q\<rparr>) al l = closing_ok b al l"
  "closing_ok (b\<lparr>bt_ended := True\<rparr>) al l = closing_ok b al l" "closing_ok (b\<lparr>bt_reply := r\<rparr>) al l = closing_ok b al l"
  by (simp_all add: closing_ok_def close_tasks_def)

lemma closing_read: "closing_ok b al l \<Longrightarrow> closing_ok (stream_read hungry b) al l"
  by (simp add: stream_read_def Let_def closing_pull split: option.split)

lemma closing_destroy: "closing_ok b al l \<Longrightarrow> closing_ok (stream_destroy e b) al l"
  by (auto simp: stream_destroy_def closing_ok_def stream_simps)

lemma stream_then_eof:
  "\<not> bt_finished b \<Longrightarrow> stream_then hungry (Inr (Some (d, True))) b
    = b\<lparr>bt_pulling := False, bt_reply := None, bt_finished := True, bt_pushed := (if d \<noteq> [] then bt_pushed b @ [d] else bt_pushed b),
        bt_tasks := (if bt_handle b \<noteq> None then bt_tasks b @ [TCloseEnd] else bt_tasks b), bt_ended := True\<rparr>"
  by (simp add: stream_then_def stream_push_def Let_def)

lemma closing_then:
  assumes "closing_ok b al l"
  shows "closing_ok (stream_then hungry r b) al l"
proof (cases "\<exists>d. r = Inr (Some (d, True)) \<and> \<not> bt_finished b")
  case True
  then show ?thesis
    using assms by (auto simp: stream_then_eof) (auto simp: closing_ok_def close_tasks_def closing_def)
next
  case False
  let ?b = "b\<lparr>bt_pulling := False, bt_reply := None\<rparr>"
  have ok: "closing_ok ?b al l" using assms by simp
  show ?thesis
    using False ok closing_destroy [OF ok] unfolding stream_then_def Let_def [of ?b]
    by (auto simp: Let_def closing_pull split: sum.split option.split prod.split)
qed

lemma some_handle [simp]: "\<exists>h. b = b\<lparr>bt_handle := h\<rparr>"
  by (rule exI [of _ "bt_handle b"]) simp

text \<open>A pull touches the handle and the log only, and nothing at all once the stream is finished.\<close>

lemma run_pull_frame:
  assumes "run_pull g = (r, g')"
  shows "\<exists>h l. sg_stream g' = (sg_stream g)\<lparr>bt_handle := h\<rparr> \<and> sg_log g' = sg_log g @ l \<and> sg_alive g' = sg_alive g
    \<and> closes l = [] \<and> (bt_finished (sg_stream g) \<longrightarrow> l = [] \<and> h = bt_handle (sg_stream g))
    \<and> log_data l = (case r of Inr (Some (d, eof)) \<Rightarrow> d | _ \<Rightarrow> [])
    \<and> (\<forall>d. r = Inr (Some (d, True)) \<longrightarrow> Segment d True \<in> set l)"
  using assms unfolding run_pull_def Let_def
  by (auto simp: sn_bind_def sg_wire_def sg_note_def log_data_def closes_def split: if_splits option.splits prod.splits sum.splits)

text \<open>
  The data: until the stream is finished, what was pushed, the preamble to come and the
  reply at hand are all that was to be delivered, in order. A destroyed stream has pushed a
  beginning of it; one that ended, all of it.
\<close>

definition reply_data :: "blob_stream \<Rightarrow> bytes" where
  "reply_data b = (case bt_reply b of Some (Inr (Some (d, eof))) \<Rightarrow> d | _ \<Rightarrow> [])"

definition preamble :: "blob_stream \<Rightarrow> bytes" where
  "preamble b = (case bt_preamble b of Some p \<Rightarrow> p | None \<Rightarrow> [])"

definition delivering :: "bytes \<Rightarrow> blob_stream \<Rightarrow> stream_act list \<Rightarrow> bool" where
  "delivering p b l =
     ((\<not> bt_finished b \<longrightarrow> concat (bt_pushed b) @ preamble b @ reply_data b = p @ log_data l)
   \<and> (bt_preamble b \<noteq> None \<longrightarrow> bt_preamble b = Some p \<and> log_data l = [] \<and> bt_pushed b = [] \<and> bt_reply b = None \<and> TPull \<notin> set (bt_tasks b))
   \<and> (\<forall>d. bt_reply b = Some (Inr (Some (d, True))) \<longrightarrow> (\<exists>d. Segment d True \<in> set l))
   \<and> prefix (concat (bt_pushed b)) (p @ log_data l)
   \<and> (bt_ended b \<longrightarrow> bt_finished b \<and> concat (bt_pushed b) = p @ log_data l \<and> (\<exists>d. Segment d True \<in> set l)))"

lemmas delivery_simps = delivering_def reply_data_def preamble_def stream_pull_def stream_push_def Let_def

lemma delivering_read: "delivering p b l \<Longrightarrow> delivering p (stream_read hungry b) l"
  by (auto simp: stream_read_def delivery_simps split: option.splits)

lemma delivering_destroy: "delivering p b l \<Longrightarrow> delivering p (stream_destroy e b) l"
  by (auto simp: stream_destroy_def delivery_simps)

lemma delivering_then:
  assumes "delivering p b l" and "bt_reply b = Some r"
  shows "delivering p (stream_then hungry r b) l"
proof -
  have none: "bt_preamble b = None" using assms by (auto simp: delivering_def)
  have pre: "prefix (concat (bt_pushed b)) (p @ log_data l)" using assms(1) by (simp add: delivering_def)
  show ?thesis
  proof (cases "\<exists>d eof. r = Inr (Some (d, eof)) \<and> \<not> bt_finished b")
    case True
    then obtain d eof where r: "r = Inr (Some (d, eof))" "\<not> bt_finished b" by blast
    have all: "concat (bt_pushed b) @ d = p @ log_data l"
      using assms r none by (simp add: delivering_def reply_data_def preamble_def)
    have over: "eof \<Longrightarrow> \<exists>d. Segment d True \<in> set l" using assms r by (auto simp: delivering_def)
    have "bt_ended b \<longrightarrow> bt_finished b" using assms(1) by (auto simp: delivering_def)
    then show ?thesis
      using r none all over pre by (auto simp: stream_then_def delivery_simps)
  next
    case False
    then show ?thesis
      using assms none by (auto simp: stream_then_def stream_destroy_def delivery_simps split: sum.split option.split prod.split)
  qed
qed

definition stream_inv :: "bytes \<Rightarrow> streaming \<Rightarrow> bool" where
  "stream_inv p g = (closing_ok (sg_stream g) (sg_alive g) (sg_log g) \<and> delivering p (sg_stream g) (sg_log g))"

lemma inv_run_task:
  assumes "stream_inv p g" and "bt_tasks (sg_stream g) = t # ts" and "bt_reply (sg_stream g) = None"
  shows "stream_inv p (run_task t (g\<lparr>sg_stream := (sg_stream g)\<lparr>bt_tasks := ts\<rparr>\<rparr>))"
proof (cases t)
  case TPull
  let ?g = "g\<lparr>sg_stream := (sg_stream g)\<lparr>bt_tasks := ts\<rparr>\<rparr>"
  obtain r g' where run: "run_pull ?g = (r, g')" by fastforce
  obtain h l where frame: "sg_stream g' = (sg_stream ?g)\<lparr>bt_handle := h\<rparr>" "sg_log g' = sg_log g @ l" "sg_alive g' = sg_alive g"
    "closes l = []" "bt_finished (sg_stream g) \<longrightarrow> l = [] \<and> h = bt_handle (sg_stream g)"
    "log_data l = (case r of Inr (Some (d, eof)) \<Rightarrow> d | _ \<Rightarrow> [])" "\<forall>d. r = Inr (Some (d, True)) \<longrightarrow> Segment d True \<in> set l"
    using run_pull_frame [OF run] by auto
  have app: "closes (sg_log g @ l) = closes (sg_log g)" "log_data (sg_log g @ l) = log_data (sg_log g) @ log_data l"
    using frame(4) by (simp_all add: closes_def log_data_def)
  have "closing_ok ((sg_stream ?g)\<lparr>bt_handle := h, bt_reply := Some r\<rparr>) (sg_alive g) (sg_log g @ l)"
    using assms TPull frame(5) by (auto simp: stream_inv_def closing_ok_def close_tasks_def closing_def app)
  moreover have "delivering p ((sg_stream ?g)\<lparr>bt_handle := h, bt_reply := Some r\<rparr>) (sg_log g @ l)"
  proof -
    have none: "bt_preamble (sg_stream g) = None" using assms TPull by (auto simp: stream_inv_def delivering_def)
    have d: "delivering p (sg_stream g) (sg_log g)" using assms(1) by (simp add: stream_inv_def)
    have pre: "prefix (concat (bt_pushed (sg_stream g))) (p @ log_data (sg_log g) @ log_data l)"
      using d prefix_prefix unfolding delivering_def by (metis append.assoc)
    show ?thesis
      using none pre frame(5,6,7) d assms(3) unfolding delivering_def app preamble_def reply_data_def
      by (auto split: sum.splits option.splits prod.splits)
  qed
  ultimately show ?thesis
    using TPull run frame(1-3) by (simp add: run_task_def stream_inv_def)
next
  case TCloseEnd
  then show ?thesis
    using assms by (auto simp: run_task_def stream_close_def sg_note_def stream_inv_def closing_ok_def close_tasks_def closing_def
        delivering_def preamble_def reply_data_def split: option.split)
next
  case TCloseEarly
  then show ?thesis
    using assms by (auto simp: run_task_def stream_close_def sg_note_def stream_inv_def closing_ok_def close_tasks_def closing_def
        delivering_def preamble_def reply_data_def split: option.split)
qed

lemma inv_step: "stream_inv p g \<Longrightarrow> stream_inv p (stream_step ev g)"
proof (cases ev)
  case (Wants hungry)
  then show "stream_inv p g \<Longrightarrow> ?thesis" by (simp add: stream_step_def stream_inv_def closing_read delivering_read)
next
  case Runs
  then show "stream_inv p g \<Longrightarrow> ?thesis" by (auto simp: stream_step_def Let_def inv_run_task split: option.split list.split)
next
  case (Answers hungry)
  then show "stream_inv p g \<Longrightarrow> ?thesis"
    by (auto simp: stream_step_def stream_inv_def Let_def closing_then delivering_then split: option.split)
next
  case (Destroys e)
  then show "stream_inv p g \<Longrightarrow> ?thesis" by (simp add: stream_step_def stream_inv_def closing_destroy delivering_destroy)
next
  case Tx_ends
  then show "stream_inv p g \<Longrightarrow> ?thesis" by (auto simp: stream_step_def stream_inv_def closing_ok_def Let_def)
qed

lemma inv_run: "stream_inv p g \<Longrightarrow> stream_inv p (stream_run evs g)"
  unfolding stream_run_def by (induction evs arbitrary: g) (simp_all add: inv_step)

lemma claim_keeps: "claim_inline h = (r, h') \<Longrightarrow> lb_cached (hl_blob h') = None \<Longrightarrow> hl_blob h' = hl_blob h"
  by (auto simp: claim_inline_def sn_bind_def hl_on_def hl_do_def inline_take_def split: option.splits prod.splits)

lemma promote_keeps: "lb_cached (promote_if_complete b) = None \<Longrightarrow> promote_if_complete b = b"
  by (auto simp: promote_if_complete_def split: if_splits)

lemma open_stream_starts:
  assumes "open_stream chunk h = (Inr (Some b), h')"
  shows "\<exists>t n c. b = \<lparr>bt_id = lb_id (hl_blob h), bt_tx = t, bt_chunk = n,
    bt_preamble = (if 0 < lb_consumed_bytes (hl_blob h) then Some (concat_to (lb_consumed_bytes (hl_blob h)) (lb_consumed (hl_blob h))) else None),
    bt_handle = c, bt_finished = False, bt_pulling = False, bt_tasks = [], bt_reply = None, bt_pushed = [],
    bt_ended = False, bt_destroyed = False, bt_failure = None\<rparr>"
proof -
  let ?h = "h\<lparr>hl_blob := promote_if_complete (hl_blob h)\<rparr>"
  obtain d h2 where claim: "(if lb_cached (hl_blob ?h) = None then claim_inline ?h else (Inr None, ?h)) = (Inr d, h2)"
    and none: "lb_cached (hl_blob h2) = None"
    and b: "b = \<lparr>bt_id = lb_id (hl_blob h2), bt_tx = lz_tx (hl_scope h2),
         bt_chunk = (case chunk of Some c \<Rightarrow> c | None \<Rightarrow> lz_chunk (hl_scope h2)),
         bt_preamble = (if 0 < lb_consumed_bytes (hl_blob h2) then Some (concat_to (lb_consumed_bytes (hl_blob h2)) (lb_consumed (hl_blob h2))) else None),
         bt_handle = lb_cursor (hl_blob h2), bt_finished = False, bt_pulling = False, bt_tasks = [], bt_reply = None, bt_pushed = [],
         bt_ended = False, bt_destroyed = False, bt_failure = None\<rparr>"
    using assms
    by (auto simp: open_stream_def sn_bind_inv hl_assert_alive_def hl_do_def Let_def split: if_splits)
  then have "hl_blob h2 = hl_blob h"
    using claim_keeps [of ?h "Inr d" h2] promote_keeps [of "hl_blob h"] by (auto split: if_splits)
  with b show ?thesis by auto
qed

lemma open_stream_inv:
  assumes "open_stream chunk h = (Inr (Some b), h')"
  shows "stream_inv (concat_to (lb_consumed_bytes (hl_blob h)) (lb_consumed (hl_blob h)))
    \<lparr>sg_session = hl_session h', sg_alive = alive, sg_stream = b, sg_log = []\<rparr>"
  using open_stream_starts [OF assms]
  by (auto simp: stream_inv_def closing_ok_def close_tasks_def delivering_def preamble_def reply_data_def concat_to_def
      split: if_splits)

text \<open>
  C38. A stream delivers its blob and closes it. Whatever the order in which the consumer
  reads, the lock runs the stream's tasks and the stream is destroyed, the chunks pushed are
  a beginning of the bytes that \<open>head\<close> had read and the server's segments; of a stream that
  ended they are all of them; and the server's handle is closed at most once, and exactly
  once when the stream is finished, its tasks have run and the transaction lives.
\<close>

theorem stream_delivers_and_closes:
  assumes "open_stream chunk h = (Inr (Some b), h')"
    and "g = stream_run evs \<lparr>sg_session = hl_session h', sg_alive = True, sg_stream = b, sg_log = []\<rparr>"
    and "p = concat_to (lb_consumed_bytes (hl_blob h)) (lb_consumed (hl_blob h))"
  shows "prefix (concat (bt_pushed (sg_stream g))) (p @ log_data (sg_log g))
    \<and> (bt_ended (sg_stream g) \<longrightarrow> concat (bt_pushed (sg_stream g)) = p @ log_data (sg_log g) \<and> (\<exists>d. Segment d True \<in> set (sg_log g)))
    \<and> length (closes (sg_log g)) \<le> 1
    \<and> (bt_finished (sg_stream g) \<and> bt_tasks (sg_stream g) = [] \<and> sg_alive g \<longrightarrow>
        (\<forall>c. bt_handle (sg_stream g) = Some c \<longrightarrow> closes (sg_log g) = [Closed c]))"
proof -
  have "stream_inv p g" unfolding assms(2,3) by (rule inv_run [OF open_stream_inv [OF assms(1)]])
  then show ?thesis by (auto simp: stream_inv_def closing_ok_def delivering_def close_tasks_def)
qed

lemma stream_delivers_and_closes_witness:
  "\<exists>b h'. open_stream None \<lparr>hl_session = \<lparr>s_wire = \<lparr>w_in = [], w_out = [], w_sent = [], w_flush_count = 0, w_deferred = 0,
        w_version = 16, w_inline_size = 0, w_inlined = [], w_messages = (\<lambda>_. None)\<rparr>, s_db = 0, s_cache = None, s_stars = None,
        s_inline = None, s_next = 0\<rparr>,
      hl_scope = \<lparr>lz_conn = 0, lz_tx = 3, lz_chunk = 2, lz_alive = True, lz_ahead = []\<rparr>,
      hl_blob = (lb_new (replicate 8 1) 0 None)\<lparr>lb_cursor := Some 5, lb_consumed := [[7]], lb_consumed_bytes := 1\<rparr>\<rparr>
    = (Inr (Some b), h')
    \<and> (\<forall>evs. length (closes (sg_log (stream_run evs \<lparr>sg_session = hl_session h', sg_alive = True, sg_stream = b, sg_log = []\<rparr>))) \<le> 1)"
proof -
  let ?h = "\<lparr>hl_session = \<lparr>s_wire = \<lparr>w_in = [], w_out = [], w_sent = [], w_flush_count = 0, w_deferred = 0,
        w_version = 16, w_inline_size = 0, w_inlined = [], w_messages = (\<lambda>_. None)\<rparr>, s_db = 0, s_cache = None, s_stars = None,
        s_inline = None, s_next = 0\<rparr>,
      hl_scope = \<lparr>lz_conn = 0, lz_tx = 3, lz_chunk = 2, lz_alive = True, lz_ahead = []\<rparr>,
      hl_blob = (lb_new (replicate 8 1) 0 None)\<lparr>lb_cursor := Some 5, lb_consumed := [[7]], lb_consumed_bytes := 1\<rparr>\<rparr>"
  obtain b h' where o: "open_stream None ?h = (Inr (Some b), h')"
    by (auto simp: open_stream_def sn_bind_def hl_assert_alive_def hl_do_def claim_inline_def hl_on_def inline_take_def
        promote_if_complete_def lb_new_def ahead_has_def jm_get_def Let_def)
  show ?thesis
    using o stream_delivers_and_closes [OF o refl refl] by blast
qed

end
