(* ===== verification/Blob_Handle_Runs.thy ===== *)
theory Blob_Handle_Runs
  imports Blob_Handle Session_Runs
begin

text \<open>
  What \<open>head\<close> and \<open>buffer\<close> do with the server's cursor: one transfer of the whole blob when
  nothing fails, and a hole when a window of \<open>head\<close> does.
\<close>

subsection \<open>A window of segments\<close>

definition ends :: "answer \<Rightarrow> bool" where
  "ends a = (r_handle (snd a) = BLOB_SEGSTR_EOF_HANDLE)"

fun window_chunks :: "answer list \<Rightarrow> bytes list" where
  "window_chunks [] = []"
| "window_chunks (a # as) = (if answer_data a \<noteq> [] then [answer_data a] else []) @ (if ends a then [] else window_chunks as)"

lemma window_loop:
  "list_all (good (w_messages w)) as \<Longrightarrow> w_deferred w = 0 \<Longrightarrow>
     read_window_loop (length as) eof cs (feed (enc_answers as) w)
       = (Inr (cs @ (if eof then [] else window_chunks as), eof \<or> list_ex ends as), settled (answers_noise as) w)"
proof (induction as arbitrary: eof cs w)
  case Nil
  then show ?case by (simp add: settled_def)
next
  case (Cons a as)
  then show ?case
    using segment_turn [of w a "drain (length as)" as] Cons.IH [of "settled (fst a) w"]
    by (cases eof) (simp_all add: rd_bind_def ends_def del: enc_answers_simps)
qed

definition windowed :: "int \<Rightarrow> int \<Rightarrow> answer list \<Rightarrow> session \<Rightarrow> session" where
  "windowed c chunk as s =
     absorb (s\<lparr>s_wire := settled (answers_noise as) (send (concat (replicate (length as) (segment_message c chunk))) (s_wire s))\<rparr>)"

lemma window_reads:
  assumes "list_all (good (w_messages (s_wire s))) as" and "w_deferred (s_wire s) = 0"
  shows "sn_wire (read_blob_window c chunk (length as)) (on_wire (feed (enc_answers as)) s)
    = (Inr (window_chunks as, list_ex ends as), windowed c chunk as s)"
  using window_loop [of "send (concat (replicate (length as) (segment_message c chunk))) (s_wire s)" as False "[]"] assms
  by (simp add: sn_wire_def on_wire_def read_blob_window_def rd_bind_def windowed_def)

lemma window_concat:
  "list_all (\<lambda>d. \<not> ends d) ds \<Longrightarrow> concat (window_chunks ds) = concat (map answer_data ds)"
  "list_all (\<lambda>d. \<not> ends d) ds \<Longrightarrow> ends a \<Longrightarrow> concat (window_chunks (ds @ a # as)) = concat (map answer_data (ds @ [a]))"
  by (induction ds) auto

lemma no_end: "list_all (\<lambda>d. \<not> ends d) ds \<Longrightarrow> \<not> list_ex ends ds"
  by (induction ds) auto

subsection \<open>The cursor\<close>

definition idle :: "(int \<Rightarrow> (string \<times> string option) option) \<Rightarrow> session \<Rightarrow> bool" where
  "idle m s = (w_deferred (s_wire s) = 0 \<and> w_messages (s_wire s) = m \<and> s_inline s = None)"

lemma windowed_idle: "idle m s \<Longrightarrow> idle m (windowed c chunk as s)"
  by (simp add: idle_def windowed_def absorb_def)

lemma windowed_in: "w_in (s_wire (windowed c chunk as s)) = w_in (s_wire s)"
  by (simp add: windowed_def)

lemma windowed_feed: "windowed c chunk as (on_wire (feed d) s) = on_wire (feed d) (windowed c chunk as s)"
  by (simp add: windowed_def on_wire_def on_wire_feed_absorb settled_feed)

lemma windowed_out: "w_out (s_wire (windowed c chunk as s)) = []"
  by (simp add: windowed_def send_def flush_def)

definition cursor_ok :: "lazy_blob \<Rightarrow> bool" where
  "cursor_ok b = (lb_consumed_bytes b = length (concat (lb_consumed b)))"

lemma cursor_ok_consume: "cursor_ok b \<Longrightarrow> cursor_ok (consume cs b)"
  by (simp add: cursor_ok_def consume_def)

lemma concat_to_exact: "cursor_ok b \<Longrightarrow> concat_to (lb_consumed_bytes b) (lb_consumed b) = concat (lb_consumed b)"
  by (simp add: cursor_ok_def concat_to_def)

lemma fill_turn:
  assumes "wants_more goal b" and "lb_cursor b = Some c" and "list_all (good m) as" and "idle m s"
    and "length as = window_size goal (lz_chunk sc) (lb_consumed_bytes b)"
  shows "fill_fuel (Suc k) goal \<lparr>hl_session = on_wire (feed (enc_answers as)) s, hl_scope = sc, hl_blob = b\<rparr>
    = fill_fuel k goal ((if list_ex ends as then finish_cursor else id)
        \<lparr>hl_session = windowed c (lz_chunk sc) as s, hl_scope = sc, hl_blob = consume (window_chunks as) b\<rparr>)"
  using assms window_reads [of s as c "lz_chunk sc"]
  by (simp add: sn_bind_def hl_on_def hl_do_def idle_def flip: assms(5))

lemma fill_stops: "\<not> wants_more goal (hl_blob h) \<Longrightarrow> fill_fuel (Suc k) goal h = (Inr (), h)"
  by simp

lemma window_size_pos: "0 < window_size goal chunk n"
  by (auto simp: window_size_def split: option.split)


text \<open>
  The loop ends. It takes some answers of the server; then the blob is complete, the cursor
  closed once, or enough is read and the rest is still to come.
\<close>

definition content :: "answer list \<Rightarrow> bytes" where
  "content as = concat (map answer_data as)"

definition still_open :: "int \<Rightarrow> answer list \<Rightarrow> bytes \<Rightarrow> lazy_blob \<Rightarrow> bool" where
  "still_open c rest whole b = (cursor_ok b \<and> lb_cached b = None \<and> lb_cursor b = Some c \<and> \<not> lb_at_eof b
     \<and> concat (lb_consumed b) @ content rest = whole \<and> rest \<noteq> [])"

definition read_out :: "bytes \<Rightarrow> lazy_blob \<Rightarrow> bool" where
  "read_out whole b = (cursor_ok b \<and> lb_cached b = None \<and> lb_cursor b = None \<and> lb_at_eof b \<and> concat (lb_consumed b) = whole)"

definition segments :: "answer list \<Rightarrow> bool" where
  "segments rest = (\<exists>ds a. rest = ds @ [a] \<and> list_all (\<lambda>d. \<not> ends d) ds \<and> ends a)"

definition after_fill :: "(int \<Rightarrow> (string \<times> string option) option) \<Rightarrow> int \<Rightarrow> bool \<Rightarrow> session \<Rightarrow> session \<Rightarrow> bool" where
  "after_fill m c eof s s' = (w_in (s_wire s') = w_in (s_wire s) \<and> w_messages (s_wire s') = m \<and> s_inline s' = None
     \<and> w_deferred (s_wire s') = (if eof then 1 else 0) \<and> w_out (s_wire s') = (if eof then close_message c else []))"

lemma fill_reads:
  assumes "segments rest" and "list_all (good m) (extra # rest)" and "still_open c rest whole b" and "wants_more goal b"
  shows "\<exists>as rest' b'. list_all (good m) as \<and> (\<exists>k. as @ rest' = rest @ replicate k extra) \<and> \<not> wants_more goal b' \<and> lb_id b' = lb_id b
    \<and> (read_out whole b' \<and> rest' = [] \<or> still_open c rest' whole b' \<and> segments rest' \<and> set rest' \<subseteq> set rest)
    \<and> (\<forall>s. idle m s \<longrightarrow> (\<exists>s'. after_fill m c (lb_at_eof b') s s' \<and> (\<forall>k. length as < k \<longrightarrow>
         fill_fuel k goal \<lparr>hl_session = on_wire (feed (enc_answers as)) s, hl_scope = sc, hl_blob = b\<rparr>
           = (Inr (), \<lparr>hl_session = s', hl_scope = sc, hl_blob = b'\<rparr>))))"
  using assms
proof (induction "length rest" arbitrary: rest b rule: less_induct)
  case less
  let ?n = "window_size goal (lz_chunk sc) (lb_consumed_bytes b)"
  obtain ds a where rest: "rest = ds @ [a]" "list_all (\<lambda>d. \<not> ends d) ds" "ends a" using less.prems(1) by (auto simp: segments_def)
  have c: "lb_cursor b = Some c" using less.prems(3) by (simp add: still_open_def)
  show ?case
  proof (cases "length rest \<le> ?n")
    case True
    let ?as = "ds @ a # replicate (?n - length rest) extra"
    let ?b = "(consume (window_chunks ?as) b)\<lparr>lb_at_eof := True, lb_cursor := None\<rparr>"
    have len: "length ?as = ?n" using True rest(1) by simp
    have good: "list_all (good m) ?as" using less.prems(2) rest(1) by (auto simp: list_all_iff)
    have "read_out whole ?b"
      using less.prems(3) rest cursor_ok_consume [of b] window_concat(2) [OF rest(2,3)]
      by (auto simp: read_out_def still_open_def content_def cursor_ok_def consume_def)
    moreover have "\<exists>s'. after_fill m c True s s' \<and> (\<forall>k. length ?as < k \<longrightarrow>
         fill_fuel k goal \<lparr>hl_session = on_wire (feed (enc_answers ?as)) s, hl_scope = sc, hl_blob = b\<rparr>
           = (Inr (), \<lparr>hl_session = s', hl_scope = sc, hl_blob = ?b\<rparr>))" if rested: "idle m s" for s
    proof (intro exI conjI allI impI)
      let ?s = "on_wire (close_blob_deferred c) (windowed c (lz_chunk sc) ?as s)"
      show "after_fill m c True s ?s"
        using windowed_idle [OF rested, of c "lz_chunk sc" ?as] windowed_in [of c "lz_chunk sc" ?as s] windowed_out [of c "lz_chunk sc" ?as s]
        by (simp add: after_fill_def idle_def close_blob_deferred_def mark_deferred_def put_def on_wire_def)
      fix k assume "length ?as < k"
      then obtain j where k: "k = Suc (Suc j)" using len window_size_pos [of goal "lz_chunk sc" "lb_consumed_bytes b"] by (cases k; cases "k - 1") auto
      have more: "\<not> wants_more goal ?b" by (simp add: wants_more_def)
      have ends: "list_ex ends ?as" using rest(3) by simp
      show "fill_fuel k goal \<lparr>hl_session = on_wire (feed (enc_answers ?as)) s, hl_scope = sc, hl_blob = b\<rparr>
           = (Inr (), \<lparr>hl_session = ?s, hl_scope = sc, hl_blob = ?b\<rparr>)"
        unfolding k fill_turn [OF less.prems(4) c good rested len] if_P [OF ends]
        using fill_stops [of goal "\<lparr>hl_session = ?s, hl_scope = sc, hl_blob = ?b\<rparr>" j] more c
        by (simp add: finish_cursor_def consume_def del: fill_fuel.simps)
    qed
    ultimately show ?thesis
      using good rest(1) by (intro exI [of _ ?as] exI [of _ "[]"] exI [of _ ?b]) (auto simp: wants_more_def consume_def)
  next
    case False
    let ?as = "take ?n ds" and ?rest = "drop ?n rest"
    let ?b = "consume (window_chunks ?as) b"
    have len: "length ?as = ?n" and rest': "?rest = drop ?n ds @ [a]" using False rest(1) by simp_all
    have good: "list_all (good m) ?as" using less.prems(2) rest(1) by (auto simp: list_all_iff dest: in_set_takeD)
    have no: "list_all (\<lambda>d. \<not> ends d) ?as" using rest(2) by (auto simp: list_all_iff dest: in_set_takeD)
    have seg: "segments ?rest" unfolding segments_def rest' using rest(2,3) by (auto simp: list_all_iff dest: in_set_dropD)
    have sub: "set ?rest \<subseteq> set rest" by (rule set_drop_subset)
    have whole_rest: "?as @ ?rest @ r = rest @ r" for r using len rest(1) by (metis append_assoc append_take_drop_id rest')
    have "content ?as @ content ?rest = content rest"
      using rest(1) rest' by (simp add: content_def) (metis append_take_drop_id concat_append map_append append.assoc)
    then have opened: "still_open c ?rest whole ?b"
      using less.prems(3) cursor_ok_consume [of b] window_concat(1) [OF no] rest'
      by (auto simp: still_open_def consume_def content_def cursor_ok_def)
    show ?thesis
    proof (cases "wants_more goal ?b")
      case True
      have "length ?rest < length rest" using window_size_pos [of goal "lz_chunk sc" "lb_consumed_bytes b"] rest(1) by simp
      moreover have "list_all (good m) (extra # ?rest)" using less.prems(2) sub by (auto simp: list_all_iff)
      ultimately obtain bs rest2 b2 where ih: "list_all (good m) bs \<and> (\<exists>k. bs @ rest2 = ?rest @ replicate k extra)" "\<not> wants_more goal b2" "lb_id b2 = lb_id ?b"
        "read_out whole b2 \<and> rest2 = [] \<or> still_open c rest2 whole b2 \<and> segments rest2 \<and> set rest2 \<subseteq> set ?rest"
        "\<And>s. idle m s \<Longrightarrow> \<exists>s'. after_fill m c (lb_at_eof b2) s s' \<and> (\<forall>k. length bs < k \<longrightarrow>
           fill_fuel k goal \<lparr>hl_session = on_wire (feed (enc_answers bs)) s, hl_scope = sc, hl_blob = ?b\<rparr>
             = (Inr (), \<lparr>hl_session = s', hl_scope = sc, hl_blob = b2\<rparr>))"
        using less.hyps [OF _ seg _ opened True] by blast
      have "\<exists>s'. after_fill m c (lb_at_eof b2) s s' \<and> (\<forall>k. length (?as @ bs) < k \<longrightarrow>
           fill_fuel k goal \<lparr>hl_session = on_wire (feed (enc_answers (?as @ bs))) s, hl_scope = sc, hl_blob = b\<rparr>
             = (Inr (), \<lparr>hl_session = s', hl_scope = sc, hl_blob = b2\<rparr>))" if rested: "idle m s" for s
      proof -
        let ?s = "windowed c (lz_chunk sc) ?as s"
        obtain s' where s': "after_fill m c (lb_at_eof b2) ?s s'" "\<And>k. length bs < k \<Longrightarrow>
           fill_fuel k goal \<lparr>hl_session = on_wire (feed (enc_answers bs)) ?s, hl_scope = sc, hl_blob = ?b\<rparr>
             = (Inr (), \<lparr>hl_session = s', hl_scope = sc, hl_blob = b2\<rparr>)"
          using ih(5) [OF windowed_idle [OF rested, of c "lz_chunk sc" ?as]] by blast
        have feeds: "on_wire (feed (enc_answers (?as @ bs))) s = on_wire (feed (enc_answers ?as)) (on_wire (feed (enc_answers bs)) s)"
          by (simp add: on_wire_def)
        have fed: "idle m (on_wire (feed (enc_answers bs)) s)" using rested by (simp add: idle_def on_wire_def)
        have "fill_fuel (Suc k) goal \<lparr>hl_session = on_wire (feed (enc_answers (?as @ bs))) s, hl_scope = sc, hl_blob = b\<rparr>
            = (Inr (), \<lparr>hl_session = s', hl_scope = sc, hl_blob = b2\<rparr>)" if "length bs < k" for k
          unfolding feeds fill_turn [OF less.prems(4) c good fed len] windowed_feed
          using s'(2) [OF that] no_end [OF no] by (simp del: fill_fuel.simps)
        moreover have "after_fill m c (lb_at_eof b2) s s'" using s'(1) by (simp add: after_fill_def windowed_in)
        moreover have "\<exists>j. k = Suc j \<and> length bs < j" if "length (?as @ bs) < k" for k
          using that len window_size_pos [of goal "lz_chunk sc" "lb_consumed_bytes b"] by (intro exI [of _ "k - 1"]) simp
        ultimately show ?thesis by (intro exI [of _ s']) blast
      qed
      moreover have "\<exists>k. (?as @ bs) @ rest2 = rest @ replicate k extra" using ih(1) whole_rest by (metis append_assoc)
      ultimately show ?thesis
        using ih(1-4) good sub by (intro exI [of _ "?as @ bs"] exI [of _ rest2] exI [of _ b2]) (auto simp: consume_def)
    next
      case enough: False
      have "\<exists>s'. after_fill m c False s s' \<and> (\<forall>k. length ?as < k \<longrightarrow>
           fill_fuel k goal \<lparr>hl_session = on_wire (feed (enc_answers ?as)) s, hl_scope = sc, hl_blob = b\<rparr>
             = (Inr (), \<lparr>hl_session = s', hl_scope = sc, hl_blob = ?b\<rparr>))" if rested: "idle m s" for s
      proof (intro exI conjI allI impI)
        let ?s = "windowed c (lz_chunk sc) ?as s"
        show "after_fill m c False s ?s"
          using windowed_idle [OF rested, of c "lz_chunk sc" ?as] by (simp add: after_fill_def idle_def windowed_in windowed_out)
        fix k assume "length ?as < k"
        then obtain j where k: "k = Suc (Suc j)" using len window_size_pos [of goal "lz_chunk sc" "lb_consumed_bytes b"] by (cases k; cases "k - 1") auto
        show "fill_fuel k goal \<lparr>hl_session = on_wire (feed (enc_answers ?as)) s, hl_scope = sc, hl_blob = b\<rparr>
           = (Inr (), \<lparr>hl_session = ?s, hl_scope = sc, hl_blob = ?b\<rparr>)"
          unfolding k fill_turn [OF less.prems(4) c good rested len]
          using fill_stops [of goal "\<lparr>hl_session = ?s, hl_scope = sc, hl_blob = ?b\<rparr>" j] enough no_end [OF no]
          by (simp del: fill_fuel.simps)
      qed
      moreover have "\<exists>k. ?as @ ?rest = rest @ replicate k extra" using whole_rest [of "[]"] by (intro exI [of _ 0]) simp
      ultimately show ?thesis
        using good enough opened seg sub less.prems(3)
        by (intro exI [of _ ?as] exI [of _ ?rest] exI [of _ ?b]) (simp add: still_open_def consume_def)
    qed
  qed
qed


subsection \<open>Head, then buffer\<close>

lemma fill_whole:
  assumes "segments rest" and "list_all (good m) (extra # rest)" and "still_open c rest whole b" and "wants_more goal b"
  shows "\<exists>as rest' b'. (\<exists>k. as @ rest' = rest @ replicate k extra) \<and> \<not> wants_more goal b'
    \<and> (read_out whole b' \<and> rest' = [] \<or> still_open c rest' whole b' \<and> segments rest' \<and> set rest' \<subseteq> set rest)
    \<and> (\<forall>s. idle m s \<longrightarrow> (\<exists>s'. after_fill m c (lb_at_eof b') s s' \<and>
         fill goal \<lparr>hl_session = on_wire (feed (enc_answers as)) s, hl_scope = sc, hl_blob = b\<rparr>
           = (Inr (), \<lparr>hl_session = s', hl_scope = sc, hl_blob = b'\<rparr>)))"
proof -
  have len: "length as < Suc (length (w_in (s_wire (on_wire (feed (enc_answers as)) s))))" for as s
    using length_enc_answers [of as] by simp
  show ?thesis
    using fill_reads [OF assms, of sc] unfolding fill_def held.simps by (metis len)
qed

definition scope_plain :: "lazy_scope \<Rightarrow> bool" where
  "scope_plain sc = (lz_alive sc \<and> lz_ahead sc = [])"

lemma ahead_none:
  assumes "scope_plain sc"
  shows "ahead_take \<lparr>hl_session = s, hl_scope = sc, hl_blob = b\<rparr> = (Inr None, \<lparr>hl_session = s, hl_scope = sc, hl_blob = b\<rparr>)"
  using assms by (cases sc) (simp add: scope_plain_def ahead_take_def jm_get_def jm_delete_def)

lemma claim_none: "s_inline s = None \<Longrightarrow> claim_inline \<lparr>hl_session = s, hl_scope = sc, hl_blob = b\<rparr> = (Inr None, \<lparr>hl_session = s, hl_scope = sc, hl_blob = b\<rparr>)"
  by (simp add: claim_inline_def sn_bind_def hl_on_def inline_take_def)

lemma buffer_resumes:
  assumes "scope_plain sc" and "s_inline s = None" and "lb_cached b = None" and "lb_cursor b \<noteq> None"
    and "fill None \<lparr>hl_session = s, hl_scope = sc, hl_blob = b\<rparr> = (Inr (), \<lparr>hl_session = s', hl_scope = sc, hl_blob = b'\<rparr>)"
    and "read_out whole b'"
  shows "buffer \<lparr>hl_session = s, hl_scope = sc, hl_blob = b\<rparr>
    = (Inr whole, \<lparr>hl_session = s', hl_scope = sc, hl_blob = b'\<lparr>lb_cached := Some whole, lb_consumed := []\<rparr>\<rparr>)"
  using assms claim_none [OF assms(2)] concat_to_exact [of b'] ahead_none [OF assms(1)]
  by (auto simp: buffer_def sn_bind_def hl_assert_alive_def scope_plain_def read_rest_def Let_def
      hl_do_def read_out_def)

lemma head_opens:
  assumes "scope_plain sc" and "s_inline s = None" and "0 < n" and "lb_cached b = None" and "lb_cursor b = None" and "\<not> lb_at_eof b"
    and "lb_consumed_bytes b = 0"
    and "sn_wire (open_blob (lz_tx sc) (lb_id b)) s = (Inr c, t)"
    and "fill (Some n) \<lparr>hl_session = t, hl_scope = sc, hl_blob = b\<lparr>lb_cursor := Some c\<rparr>\<rparr> = (Inr (), \<lparr>hl_session = s', hl_scope = sc, hl_blob = b'\<rparr>)"
  shows "head n \<lparr>hl_session = s, hl_scope = sc, hl_blob = b\<rparr> = head_result n \<lparr>hl_session = s', hl_scope = sc, hl_blob = promote_if_complete b'\<rparr>"
  using assms claim_none [OF assms(2)]
  by (simp add: head_def sn_bind_def hl_assert_alive_def scope_plain_def ahead_has_def jm_get_def open_cursor_def hl_on_def hl_do_def)

lemma opened_blob:
  assumes "noise_fits ns w" and "response_ok r" and "body_result (w_messages w) r = Inr g" and "s_wire s = w" and "s_inline s = None"
  shows "\<exists>t. (\<forall>d. sn_wire (open_blob tx bid) (on_wire (feed (reply ns r @ d)) s) = (Inr (gr_handle g), on_wire (feed d) t))
    \<and> idle (w_messages w) t \<and> w_in (s_wire t) = w_in w"
proof (intro exI conjI allI)
  let ?t = "absorb (s\<lparr>s_wire := settled ns (send (open_message tx bid) w)\<rparr>)"
  show "sn_wire (open_blob tx bid) (on_wire (feed (reply ns r @ d)) s) = (Inr (gr_handle g), on_wire (feed d) ?t)" for d
    using request_reply [of ns "feed d w" r "open_message tx bid"] assms
    by (simp add: sn_wire_def open_blob_def rd_bind_def settled_feed on_wire_feed_absorb del: reply_feed)
  show "idle (w_messages w) ?t" using assms(5) by (simp add: idle_def absorb_def)
  show "w_in (s_wire ?t) = w_in w" by simp
qed

lemma unfed:
  assumes "w_in (s_wire s) = d @ x"
  shows "\<exists>t. s = on_wire (feed d) t \<and> w_in (s_wire t) = x \<and> w_deferred (s_wire t) = w_deferred (s_wire s)
    \<and> w_messages (s_wire t) = w_messages (s_wire s) \<and> s_inline t = s_inline s"
  using assms by (intro exI [of _ "on_wire (\<lambda>w. w\<lparr>w_in := x\<rparr>) s"]) (simp add: on_wire_def feed_def)

text \<open>
  C39. One transfer. On a fresh handle, \<open>head(n)\<close> returns the first \<open>n\<close> bytes of the blob and
  a \<open>buffer()\<close> after it the whole blob, whatever the segments and windows: the blob is opened
  once, every segment is received once (the over-reads past the end aside), and the cursor
  is closed once, with nothing else left in flight.
\<close>

theorem head_then_buffer:
  assumes "noise_fits ns (s_wire s)" and "response_ok r" and "body_result (w_messages (s_wire s)) r = Inr g"
    and "list_all (good (w_messages (s_wire s))) (extra # segs)" and "segments segs"
    and "scope_plain sc" and "s_inline s = None" and "0 < n"
  shows "\<exists>k s' b. sn_bind (head n) (\<lambda>x. sn_bind buffer (\<lambda>y. sn_return (x, y)))
        \<lparr>hl_session = on_wire (feed (reply ns r @ enc_answers (segs @ replicate k extra))) s, hl_scope = sc, hl_blob = lb_new bid sub codec\<rparr>
      = (Inr (first_bytes n (content segs), content segs), \<lparr>hl_session = s', hl_scope = sc, hl_blob = b\<rparr>)
    \<and> lb_cached b = Some (content segs) \<and> after_fill (w_messages (s_wire s)) (gr_handle g) True s s'"
proof -
  let ?m = "w_messages (s_wire s)" and ?c = "gr_handle g" and ?b = "(lb_new bid sub codec)\<lparr>lb_cursor := Some (gr_handle g)\<rparr>"
  let ?run = "sn_bind (head n) (\<lambda>x. sn_bind buffer (\<lambda>y. sn_return (x, y)))"
  obtain t where t: "\<And>d. sn_wire (open_blob (lz_tx sc) bid) (on_wire (feed (reply ns r @ d)) s) = (Inr ?c, on_wire (feed d) t)"
    "idle ?m t" "w_in (s_wire t) = w_in (s_wire s)"
    using opened_blob [OF assms(1-3) refl assms(7)] by blast
  have begun: "still_open ?c segs (content segs) ?b"
    using assms(5) by (auto simp: still_open_def cursor_ok_def lb_new_def segments_def)
  have wants: "wants_more (Some n) ?b" using assms(8) by (simp add: wants_more_def lb_new_def)
  from fill_whole [OF assms(5,4) begun wants, of sc] obtain as rest b1 k1
    where one: "as @ rest = segs @ replicate k1 extra" "\<not> wants_more (Some n) b1"
      "read_out (content segs) b1 \<and> rest = [] \<or> still_open ?c rest (content segs) b1 \<and> segments rest \<and> set rest \<subseteq> set segs"
      "\<And>s. idle ?m s \<Longrightarrow> \<exists>s'. after_fill ?m ?c (lb_at_eof b1) s s' \<and>
         fill (Some n) \<lparr>hl_session = on_wire (feed (enc_answers as)) s, hl_scope = sc, hl_blob = ?b\<rparr>
           = (Inr (), \<lparr>hl_session = s', hl_scope = sc, hl_blob = b1\<rparr>)" by metis
  have heads: "head n \<lparr>hl_session = on_wire (feed (reply ns r @ enc_answers as @ d)) s, hl_scope = sc, hl_blob = lb_new bid sub codec\<rparr>
      = head_result n \<lparr>hl_session = s', hl_scope = sc, hl_blob = promote_if_complete b1\<rparr>"
    if "fill (Some n) \<lparr>hl_session = on_wire (feed (enc_answers as)) (on_wire (feed d) t), hl_scope = sc, hl_blob = ?b\<rparr>
      = (Inr (), \<lparr>hl_session = s', hl_scope = sc, hl_blob = b1\<rparr>)" for d s'
  proof -
    have "on_wire (feed (enc_answers as)) (on_wire (feed d) t) = on_wire (feed (enc_answers as @ d)) t" by (simp add: on_wire_def)
    then show ?thesis
      using head_opens [OF assms(6) _ assms(8), of "on_wire (feed (reply ns r @ enc_answers as @ d)) s" "lb_new bid sub codec" ?c
          "on_wire (feed (enc_answers as @ d)) t" s' b1] that t(1) [of "enc_answers as @ d"] assms(7)
      by (simp add: lb_new_def on_wire_def)
  qed
  have rested: "idle ?m (on_wire (feed d) t)" for d using t(2) by (simp add: idle_def on_wire_def)
  from one(3) show ?thesis
  proof
    assume all: "read_out (content segs) b1 \<and> rest = []"
    then have b1: "promote_if_complete b1 = b1\<lparr>lb_cached := Some (content segs), lb_consumed := []\<rparr>" "lb_at_eof b1"
      using concat_to_exact [of b1] by (simp_all add: read_out_def promote_if_complete_def)
    obtain s' where s': "after_fill ?m ?c True (on_wire (feed []) t) s'"
      "fill (Some n) \<lparr>hl_session = on_wire (feed (enc_answers as)) (on_wire (feed []) t), hl_scope = sc, hl_blob = ?b\<rparr>
        = (Inr (), \<lparr>hl_session = s', hl_scope = sc, hl_blob = b1\<rparr>)" using one(4) [OF rested, of "[]"] b1(2) by auto
    have as: "as = segs @ replicate k1 extra" using one(1) all by simp
    have "?run \<lparr>hl_session = on_wire (feed (reply ns r @ enc_answers (segs @ replicate k1 extra))) s, hl_scope = sc, hl_blob = lb_new bid sub codec\<rparr>
        = (Inr (first_bytes n (content segs), content segs), \<lparr>hl_session = s', hl_scope = sc, hl_blob = promote_if_complete b1\<rparr>)"
      using heads [OF s'(2)] b1 unfolding as [symmetric] by (simp add: sn_bind_def head_result_def buffer_def)
    moreover have "after_fill ?m ?c True s s'" using s'(1) t(3) by (simp add: after_fill_def on_wire_def feed_def)
    ultimately show ?thesis
      using b1 by (intro exI [of _ k1] exI [of _ s'] exI [of _ "promote_if_complete b1"]) simp
  next
    assume more: "still_open ?c rest (content segs) b1 \<and> segments rest \<and> set rest \<subseteq> set segs"
    then have b1: "promote_if_complete b1 = b1" "\<not> lb_at_eof b1" "lb_cached b1 = None" "lb_cursor b1 = Some ?c" "cursor_ok b1"
      "concat (lb_consumed b1) @ content rest = content segs"
      by (simp_all add: still_open_def promote_if_complete_def)
    have "list_all (good ?m) (extra # rest)" using assms(4) more by (auto simp: list_all_iff)
    moreover have "wants_more None b1" using b1(2) by (simp add: wants_more_def)
    ultimately obtain bs rest2 b2 k2 where two: "bs @ rest2 = rest @ replicate k2 extra" "\<not> wants_more None b2"
      "read_out (content segs) b2 \<and> rest2 = [] \<or> still_open ?c rest2 (content segs) b2"
      "\<And>s. idle ?m s \<Longrightarrow> \<exists>s'. after_fill ?m ?c (lb_at_eof b2) s s' \<and>
         fill None \<lparr>hl_session = on_wire (feed (enc_answers bs)) s, hl_scope = sc, hl_blob = b1\<rparr>
           = (Inr (), \<lparr>hl_session = s', hl_scope = sc, hl_blob = b2\<rparr>)"
      using fill_whole [of rest ?m extra ?c "content segs" b1 None sc] more by metis
    have b2: "read_out (content segs) b2" "rest2 = []" using two(2,3) by (auto simp: wants_more_def still_open_def)
    obtain s1 where s1: "after_fill ?m ?c False (on_wire (feed (enc_answers bs)) t) s1"
      "fill (Some n) \<lparr>hl_session = on_wire (feed (enc_answers as)) (on_wire (feed (enc_answers bs)) t), hl_scope = sc, hl_blob = ?b\<rparr>
        = (Inr (), \<lparr>hl_session = s1, hl_scope = sc, hl_blob = b1\<rparr>)" using one(4) [OF rested, of "enc_answers bs"] b1(2) by auto
    obtain u where u: "s1 = on_wire (feed (enc_answers bs)) u" "idle ?m u" "w_in (s_wire u) = w_in (s_wire s)"
      using unfed [of s1 "enc_answers bs" "w_in (s_wire t)"] s1(1) t(3) by (auto simp: after_fill_def idle_def)
    obtain s2 where s2: "after_fill ?m ?c True u s2"
      "fill None \<lparr>hl_session = s1, hl_scope = sc, hl_blob = b1\<rparr> = (Inr (), \<lparr>hl_session = s2, hl_scope = sc, hl_blob = b2\<rparr>)"
      using two(4) [OF u(2)] b2(1) unfolding u(1) by (auto simp: read_out_def)
    have enough: "n \<le> int (length (concat (lb_consumed b1)))"
      using one(2) b1(2,5) by (simp add: wants_more_def cursor_ok_def)
    have first: "first_bytes n (concat (lb_consumed b1)) = first_bytes n (content segs)"
      using enough b1(6) [symmetric] by (simp add: first_bytes_def)
    have "s_inline s1 = None" using s1(1) by (simp add: after_fill_def)
    then have "buffer \<lparr>hl_session = s1, hl_scope = sc, hl_blob = b1\<rparr>
        = (Inr (content segs), \<lparr>hl_session = s2, hl_scope = sc, hl_blob = b2\<lparr>lb_cached := Some (content segs), lb_consumed := []\<rparr>\<rparr>)"
      using buffer_resumes [OF assms(6) _ b1(3) _ s2(2) b2(1)] b1(4) by simp
    moreover have "head_result n \<lparr>hl_session = s1, hl_scope = sc, hl_blob = b1\<rparr>
        = (Inr (first_bytes n (content segs)), \<lparr>hl_session = s1, hl_scope = sc, hl_blob = b1\<rparr>)"
      using first b1(3) concat_to_exact [OF b1(5)] by (simp add: head_result_def)
    moreover have "enc_answers (segs @ replicate (k1 + k2) extra) = enc_answers as @ enc_answers bs"
      using one(1) two(1) b2(2) by (metis append_Nil2 append_assoc enc_answers_simps(3) replicate_add)
    ultimately have "?run \<lparr>hl_session = on_wire (feed (reply ns r @ enc_answers (segs @ replicate (k1 + k2) extra))) s, hl_scope = sc,
          hl_blob = lb_new bid sub codec\<rparr>
        = (Inr (first_bytes n (content segs), content segs),
           \<lparr>hl_session = s2, hl_scope = sc, hl_blob = b2\<lparr>lb_cached := Some (content segs), lb_consumed := []\<rparr>\<rparr>)"
      using heads [OF s1(2)] b1(1) by (simp add: sn_bind_def)
    moreover have "after_fill ?m ?c True s s2" using s2(1) u(3) by (simp add: after_fill_def)
    ultimately show ?thesis
      by (intro exI [of _ "k1 + k2"] exI [of _ s2] exI [of _ "b2\<lparr>lb_cached := Some (content segs), lb_consumed := []\<rparr>"]) simp
  qed
qed

definition sample_answer :: "int \<Rightarrow> bytes \<Rightarrow> answer" where
  "sample_answer h d = ([], \<lparr>r_handle = h, r_oid = replicate 8 0, r_data = d, r_status = []\<rparr>)"

definition sample_session :: session where
  "sample_session = \<lparr>s_wire = \<lparr>w_in = [], w_out = [], w_sent = [], w_flush_count = 0, w_deferred = 0, w_version = 16, w_inline_size = 0,
     w_inlined = [], w_messages = (\<lambda>_. None)\<rparr>, s_db = 0, s_cache = None, s_stars = None, s_inline = None, s_next = 0\<rparr>"

definition sample_scope :: lazy_scope where
  "sample_scope = \<lparr>lz_conn = 0, lz_tx = 3, lz_chunk = 2, lz_alive = True, lz_ahead = []\<rparr>"

lemma sample_good [simp]: "good m (sample_answer h d) \<longleftrightarrow> int32_range h \<and> length d < 2147483645"
  by (auto simp: sample_answer_def good_def answer_ok_def quiet_def response_ok_def status_of_def sv_result_def sv_init_def)

lemma sample_fields [simp]:
  "w_messages (s_wire sample_session) = (\<lambda>_. None)" "s_inline sample_session = None" "noise_fits [] (s_wire sample_session)" "scope_plain sample_scope"
  "lz_chunk sample_scope = 2"
  by (simp_all add: sample_session_def noise_fits_def scope_plain_def sample_scope_def)

lemma head_then_buffer_witness:
  "\<exists>k s' b. sn_bind (head 3) (\<lambda>x. sn_bind buffer (\<lambda>y. sn_return (x, y)))
        \<lparr>hl_session = on_wire (feed (reply [] (snd (sample_answer 9 [])) @ enc_answers ([sample_answer 1 [2, 0, 5, 6], sample_answer 2 [2, 0, 7, 8]]
            @ replicate k (sample_answer 2 [])))) sample_session, hl_scope = sample_scope, hl_blob = lb_new (replicate 8 1) 0 None\<rparr>
      = (Inr ([5, 6, 7], [5, 6, 7, 8]), \<lparr>hl_session = s', hl_scope = sample_scope, hl_blob = b\<rparr>)"
proof -
  let ?segs = "[sample_answer 1 [2, 0, 5, 6], sample_answer 2 [2, 0, 7, 8]]"
  have c: "content ?segs = [5, 6, 7, 8]" "first_bytes 3 [5, 6, 7, 8] = ([5, 6, 7] :: bytes)"
    by (simp_all add: content_def answer_data_def sample_answer_def parse_segment_frames_def first_bytes_def)
  have segs: "segments ?segs"
    unfolding segments_def by (intro exI [of _ "[sample_answer 1 [2, 0, 5, 6]]"] exI [of _ "sample_answer 2 [2, 0, 7, 8]"])
      (simp add: ends_def sample_answer_def BLOB_SEGSTR_EOF_HANDLE_def)
  have r: "response_ok (snd (sample_answer 9 []))" "body_result (w_messages (s_wire sample_session)) (snd (sample_answer 9 []))
      = Inr \<lparr>gr_handle = 9, gr_oid = replicate 8 0, gr_data = [], gr_warnings = []\<rparr>"
    by (simp_all add: sample_answer_def response_ok_def body_result_def status_of_def sv_result_def sv_init_def)
  show ?thesis
    using head_then_buffer [OF sample_fields(3) r, of "sample_answer 2 []" ?segs sample_scope 3 "replicate 8 1" 0 None] segs
    by (auto simp: c)
qed

subsection \<open>A window that fails\<close>

lemma window_fails:
  "list_all (good (w_messages w)) ds \<Longrightarrow> list_all (\<lambda>d. \<not> ends d) ds \<Longrightarrow> answer_ok bad \<Longrightarrow> body_result (w_messages w) (snd bad) = Inl e \<Longrightarrow>
     list_all answer_ok rest \<Longrightarrow> w_out w = [] \<Longrightarrow> w_deferred w = 0 \<Longrightarrow> k = length (ds @ bad # rest) \<Longrightarrow>
     read_window_loop k False cs (feed (enc_answers (ds @ bad # rest)) w)
       = (Inl e, settled (answers_noise (ds @ bad # rest)) w)"
proof (induction ds arbitrary: cs w k)
  case Nil
  then show ?case
    using on_error_drains [of bad rest w e] by (simp add: rd_bind_def on_error_segment del: enc_answers_simps)
next
  case (Cons a ds)
  define j where "j = length (ds @ bad # rest)"
  let ?cs = "if answer_data a \<noteq> [] then cs @ [answer_data a] else cs"
  have k: "k = Suc j" using Cons.prems j_def by simp
  have "read_window_loop k False cs (feed (enc_answers ((a # ds) @ bad # rest)) w)
      = read_window_loop j False ?cs (feed (enc_answers (ds @ bad # rest)) (settled (fst a) w))"
    using Cons.prems(1,2,7) segment_turn [of w a "drain j" "ds @ bad # rest"]
    by (simp add: k rd_bind_def ends_def del: enc_answers_simps)
  also have "\<dots> = (Inl e, settled (answers_noise ((a # ds) @ bad # rest)) w)"
    using Cons.prems Cons.IH [of "settled (fst a) w" j ?cs] j_def by simp
  finally show ?case .
qed

lemma window_read_fails:
  assumes "list_all (good m) ds" and "list_all (\<lambda>d. \<not> ends d) ds" and "answer_ok bad" and "body_result m (snd bad) = Inl e"
    and "list_all answer_ok rest" and "idle m s" and "as = ds @ bad # rest"
  shows "sn_wire (read_blob_window c chunk (length as)) (on_wire (feed (enc_answers as)) s) = (Inl e, windowed c chunk as s)"
  using window_fails [of "send (concat (replicate (length as) (segment_message c chunk))) (s_wire s)" ds bad e rest "length as"] assms
  by (simp add: sn_wire_def on_wire_def read_blob_window_def rd_bind_def windowed_def idle_def)

text \<open>
  C40. A hole. When a request in a window of \<open>head\<close> fails, the segments that the window had
  received before it are dropped, but the server's cursor has passed them and stays open: a
  \<open>buffer()\<close> after the failure resumes behind them and returns, and caches, the blob without
  those bytes.
\<close>

theorem failed_head_leaves_a_hole:
  assumes "noise_fits ns (s_wire s)" and "response_ok r" and "body_result (w_messages (s_wire s)) r = Inr g"
    and "list_all (good (w_messages (s_wire s))) (ds @ extra # segs)" and "segments segs" and "list_all (\<lambda>d. \<not> ends d) ds"
    and "answer_ok bad" and "body_result (w_messages (s_wire s)) (snd bad) = Inl e" and "list_all answer_ok rest"
    and "scope_plain sc" and "s_inline s = None" and "0 < n"
    and "length (ds @ bad # rest) = window_size (Some n) (lz_chunk sc) 0"
  shows "\<exists>k h b h'. head n \<lparr>hl_session = on_wire (feed (reply ns r @ enc_answers (ds @ bad # rest) @ enc_answers (segs @ replicate k extra))) s,
          hl_scope = sc, hl_blob = lb_new bid sub codec\<rparr> = (Inl e, h)
    \<and> buffer h = (Inr b, h') \<and> b = content segs \<and> lb_cached (hl_blob h') = Some b"
proof -
  let ?m = "w_messages (s_wire s)" and ?c = "gr_handle g" and ?b = "(lb_new bid sub codec)\<lparr>lb_cursor := Some (gr_handle g)\<rparr>"
  let ?as = "ds @ bad # rest"
  obtain t where t: "\<And>d. sn_wire (open_blob (lz_tx sc) bid) (on_wire (feed (reply ns r @ d)) s) = (Inr ?c, on_wire (feed d) t)"
    "idle ?m t" "w_in (s_wire t) = w_in (s_wire s)"
    using opened_blob [OF assms(1-3) refl assms(11)] by blast
  have begun: "still_open ?c segs (content segs) ?b"
    using assms(5) by (auto simp: still_open_def cursor_ok_def lb_new_def segments_def)
  have wants: "wants_more None ?b" by (simp add: wants_more_def lb_new_def)
  have "list_all (good ?m) (extra # segs)" using assms(4) by simp
  from fill_whole [OF assms(5) this begun wants, of sc] obtain bs rest2 b2 k where two: "bs @ rest2 = segs @ replicate k extra"
      "\<not> wants_more None b2" "read_out (content segs) b2 \<and> rest2 = [] \<or> still_open ?c rest2 (content segs) b2"
      "\<And>s. idle ?m s \<Longrightarrow> \<exists>s'. after_fill ?m ?c (lb_at_eof b2) s s' \<and>
         fill None \<lparr>hl_session = on_wire (feed (enc_answers bs)) s, hl_scope = sc, hl_blob = ?b\<rparr>
           = (Inr (), \<lparr>hl_session = s', hl_scope = sc, hl_blob = b2\<rparr>)" by metis
  have b2: "read_out (content segs) b2" "bs = segs @ replicate k extra"
    using two(1-3) by (auto simp: wants_more_def still_open_def)
  let ?t = "windowed ?c (lz_chunk sc) ?as t"
  obtain s2 where s2: "fill None \<lparr>hl_session = on_wire (feed (enc_answers bs)) ?t, hl_scope = sc, hl_blob = ?b\<rparr>
      = (Inr (), \<lparr>hl_session = s2, hl_scope = sc, hl_blob = b2\<rparr>)" using two(4) [OF windowed_idle [OF t(2)]] by blast
  let ?s1 = "on_wire (feed (enc_answers bs)) t"
  have "idle ?m ?s1" using t(2) by (simp add: idle_def on_wire_def)
  then have "sn_wire (read_blob_window ?c (lz_chunk sc) (length ?as)) (on_wire (feed (enc_answers ?as)) ?s1)
      = (Inl e, on_wire (feed (enc_answers bs)) ?t)"
    using window_read_fails [of ?m ds bad e rest ?s1 ?as] assms(4,6-9) unfolding windowed_feed by simp
  then have "fill (Some n) \<lparr>hl_session = on_wire (feed (enc_answers ?as @ enc_answers bs)) t, hl_scope = sc, hl_blob = ?b\<rparr>
      = (Inl e, \<lparr>hl_session = on_wire (feed (enc_answers bs)) ?t, hl_scope = sc, hl_blob = ?b\<rparr>)"
    using assms(12) unfolding assms(13) fill_def by (simp add: wants_more_def lb_new_def sn_bind_def hl_on_def on_wire_def)
  then have failed: "head n \<lparr>hl_session = on_wire (feed (reply ns r @ enc_answers ?as @ enc_answers bs)) s, hl_scope = sc, hl_blob = lb_new bid sub codec\<rparr>
      = (Inl e, \<lparr>hl_session = on_wire (feed (enc_answers bs)) ?t, hl_scope = sc, hl_blob = ?b\<rparr>)"
    using t(1) [of "enc_answers ?as @ enc_answers bs"] assms(10-12) claim_none [of "on_wire (feed (reply ns r @ enc_answers ?as @ enc_answers bs)) s" sc]
    by (simp add: head_def sn_bind_def hl_assert_alive_def scope_plain_def ahead_has_def jm_get_def open_cursor_def hl_on_def hl_do_def
        lb_new_def on_wire_def)
  have "s_inline (on_wire (feed (enc_answers bs)) ?t) = None" using windowed_idle [OF t(2)] by (simp add: idle_def on_wire_def)
  then have "buffer \<lparr>hl_session = on_wire (feed (enc_answers bs)) ?t, hl_scope = sc, hl_blob = ?b\<rparr>
      = (Inr (content segs), \<lparr>hl_session = s2, hl_scope = sc, hl_blob = b2\<lparr>lb_cached := Some (content segs), lb_consumed := []\<rparr>\<rparr>)"
    by (rule buffer_resumes [OF assms(10) _ _ _ s2 b2(1)]) (simp_all add: lb_new_def)
  with failed show ?thesis
    unfolding b2(2) by (intro exI [of _ k] exI conjI) (assumption, assumption, simp_all)
qed

lemma failed_head_leaves_a_hole_witness:
  "\<exists>k h e b h'. head 3 \<lparr>hl_session = on_wire (feed (reply [] (snd (sample_answer 9 []))
            @ enc_answers [sample_answer 1 [2, 0, 5, 6], ([], \<lparr>r_handle = 0, r_oid = replicate 8 0, r_data = [], r_status = [WGds 335544794]\<rparr>)]
            @ enc_answers ([sample_answer 2 [2, 0, 7, 8]] @ replicate k (sample_answer 2 [])))) sample_session,
          hl_scope = sample_scope, hl_blob = lb_new (replicate 8 1) 0 None\<rparr> = (Inl e, h)
    \<and> buffer h = (Inr b, h') \<and> b = [7, 8]"
proof -
  let ?bad = "([], \<lparr>r_handle = 0, r_oid = replicate 8 0, r_data = [], r_status = [WGds 335544794]\<rparr>) :: answer"
  let ?segs = "[sample_answer 2 [2, 0, 7, 8]]"
  have c: "content ?segs = [7, 8]" by (simp add: content_def answer_data_def sample_answer_def parse_segment_frames_def)
  have segs: "segments ?segs"
    unfolding segments_def by (intro exI [of _ "[]"] exI [of _ "sample_answer 2 [2, 0, 7, 8]"])
      (simp add: ends_def sample_answer_def BLOB_SEGSTR_EOF_HANDLE_def)
  have r: "response_ok (snd (sample_answer 9 []))" "body_result (w_messages (s_wire sample_session)) (snd (sample_answer 9 []))
      = Inr \<lparr>gr_handle = 9, gr_oid = replicate 8 0, gr_data = [], gr_warnings = []\<rparr>"
    by (simp_all add: sample_answer_def response_ok_def body_result_def status_of_def sv_result_def sv_init_def)
  obtain e where bad: "body_result (w_messages (s_wire sample_session)) (snd ?bad) = Inl e" "answer_ok ?bad"
    by (auto simp: body_result_def status_of_def sv_result_def sv_init_def answer_ok_def quiet_def response_ok_def Let_def sv_gds_def)
  have "\<not> ends (sample_answer 1 [2, 0, 5, 6])" by (simp add: ends_def sample_answer_def BLOB_SEGSTR_EOF_HANDLE_def)
  with failed_head_leaves_a_hole [OF sample_fields(3) r, of "[sample_answer 1 [2, 0, 5, 6]]" "sample_answer 2 []" ?segs ?bad e "[]"
      sample_scope 3 "replicate 8 1" 0 None] segs bad
  show ?thesis by (fastforce simp: c window_size_def)
qed

end
