(* ===== verification/Blob_Prefetch.thy ===== *)
theory Blob_Prefetch
  imports Session
begin

text \<open>
  \<open>api/blob-prefetch.ts\<close>: the read-ahead store of a stream of rows. It fetches the blobs of
  the rows ahead of the consumer in slices under the lock, one blob at a time, within a
  budget of bytes. Its steps interleave with the consumer's: the store is a machine of
  events.
\<close>

subsection \<open>Entries and the store\<close>

datatype entry_state = EQueued | EFetching | EDone | EError | EAborted

text \<open>\<open>pe_waited\<close>: there is a promise; \<open>pe_settled\<close>: what it was resolved or rejected with.\<close>

record prefetch_entry =
  pe_hex :: string
  pe_id :: bytes
  pe_row :: int
  pe_state :: entry_state
  pe_chunks :: "bytes list"
  pe_bytes :: int
  pe_claimed :: bool
  pe_error :: "err option"
  pe_waited :: bool
  pe_settled :: "bytes res option"

text \<open>
  Where the running \<open>fetch\<close> waits: for the lock, to read a slice, to give an abandoned blob
  up or to clean up after an error; or for its \<open>finally\<close>. The handle is its variable.
\<close>

datatype fetch_stage = FIdle | FSlice nat "int option" | FAbandon nat "int option" | FFailed nat "int option" err | FOver

text \<open>The objects are the positions of the queue, which never shrinks.\<close>

record prefetcher =
  pr_queue :: "prefetch_entry list"
  pr_entries :: "(string, nat) js_map"
  pr_used :: int
  pr_watermark :: int
  pr_running :: bool
  pr_closed :: bool
  pr_stage :: fetch_stage
  pr_session :: session
  pr_tx :: int
  pr_chunk :: int
  pr_cfg :: read_ahead

definition pr_new :: "session \<Rightarrow> int \<Rightarrow> int \<Rightarrow> read_ahead \<Rightarrow> prefetcher" where
  "pr_new s tx chunk cfg = \<lparr>pr_queue = [], pr_entries = [], pr_used = 0, pr_watermark = -1, pr_running = False, pr_closed = False,
     pr_stage = FIdle, pr_session = s, pr_tx = tx, pr_chunk = chunk, pr_cfg = cfg\<rparr>"

definition on_entry :: "nat \<Rightarrow> (prefetch_entry \<Rightarrow> prefetch_entry) \<Rightarrow> prefetcher \<Rightarrow> prefetcher" where
  "on_entry i f p = p\<lparr>pr_queue := (pr_queue p)[i := f (pr_queue p ! i)]\<rparr>"

definition untrack :: "nat \<Rightarrow> prefetcher \<Rightarrow> prefetcher" where
  "untrack i p = p\<lparr>pr_entries := jm_delete (pr_entries p) (pe_hex (pr_queue p ! i))\<rparr>"

definition has_entry :: "string \<Rightarrow> prefetcher \<Rightarrow> bool" where
  "has_entry hex p = (case jm_get (pr_entries p) hex of None \<Rightarrow> False | Some i \<Rightarrow> pe_state (pr_queue p ! i) \<noteq> EAborted)"

definition add_entry :: "int \<Rightarrow> bytes \<Rightarrow> prefetcher \<Rightarrow> prefetcher" where
  "add_entry row bid p = (let hex = hex_str bid in
     if jm_get (pr_entries p) hex \<noteq> None then p
     else p\<lparr>pr_entries := jm_set (pr_entries p) hex (length (pr_queue p)),
       pr_queue := pr_queue p @ [\<lparr>pe_hex = hex, pe_id = bid, pe_row = row, pe_state = EQueued, pe_chunks = [], pe_bytes = 0,
         pe_claimed = False, pe_error = None, pe_waited = False, pe_settled = None\<rparr>]\<rparr>)"

definition add_row :: "int \<Rightarrow> bytes list \<Rightarrow> prefetcher \<Rightarrow> prefetcher" where
  "add_row row ids p = (if pr_closed p then p else fold (add_entry row) ids p)"

subsection \<open>Fetching\<close>

text \<open>\<open>release\<close> up to its \<open>kick\<close>, which does nothing while a fetch runs.\<close>

definition let_go :: "nat \<Rightarrow> prefetcher \<Rightarrow> prefetcher" where
  "let_go i p = untrack i (on_entry i (\<lambda>e. e\<lparr>pe_chunks := []\<rparr>) (p\<lparr>pr_used := pr_used p - pe_bytes (pr_queue p ! i)\<rparr>))"

text \<open>\<open>e.state = 'done'\<close>, and the consumer that waits is served.\<close>

definition fetched :: "nat \<Rightarrow> prefetcher \<Rightarrow> prefetcher" where
  "fetched i p = (let p = on_entry i (\<lambda>e. e\<lparr>pe_state := EDone\<rparr>) p; e = pr_queue p ! i in
     (if pe_claimed e \<and> pe_waited e then on_entry i (\<lambda>x. x\<lparr>pe_settled := Some (Inr (concat (pe_chunks e)))\<rparr>) (let_go i p) else p)
       \<lparr>pr_stage := FOver\<rparr>)"

definition loop_top :: "nat \<Rightarrow> int option \<Rightarrow> prefetcher \<Rightarrow> prefetcher" where
  "loop_top i h p = p\<lparr>pr_stage := (if pr_closed p \<and> \<not> pe_claimed (pr_queue p ! i) then FAbandon i h else FSlice i h)\<rparr>"

definition gain :: "nat \<Rightarrow> bytes list \<Rightarrow> prefetcher \<Rightarrow> prefetcher" where
  "gain i cs p = on_entry i (\<lambda>e. e\<lparr>pe_chunks := pe_chunks e @ cs, pe_bytes := pe_bytes e + int (length (concat cs))\<rparr>)
     (p\<lparr>pr_used := pr_used p + int (length (concat cs))\<rparr>)"

text \<open>\<open>fetch\<close> up to its first \<open>await\<close>.\<close>

definition fetch_start :: "nat \<Rightarrow> prefetcher \<Rightarrow> prefetcher" where
  "fetch_start i p = (let p = on_entry i (\<lambda>e. e\<lparr>pe_state := EFetching\<rparr>) p in
     case inline_take (pr_tx p) (pe_id (pr_queue p ! i)) (pr_session p) of (d, s) \<Rightarrow>
       let p = p\<lparr>pr_session := s\<rparr> in
       case d of Inr (Some b) \<Rightarrow> fetched i (gain i [b] p) | _ \<Rightarrow> loop_top i None p)"

definition eligible :: "prefetcher \<Rightarrow> prefetch_entry \<Rightarrow> bool" where
  "eligible p e = (pe_state e = EQueued \<and> (pe_claimed e
     \<or> \<not> pr_closed p \<and> pe_row e \<le> pr_watermark p \<and> pr_used p < ra_max_bytes (pr_cfg p)))"

definition kick :: "prefetcher \<Rightarrow> prefetcher" where
  "kick p = (if pr_running p then p
     else case find (\<lambda>i. eligible p (pr_queue p ! i)) [0..<length (pr_queue p)] of None \<Rightarrow> p
     | Some i \<Rightarrow> fetch_start i (p\<lparr>pr_running := True\<rparr>))"

definition advance :: "int \<Rightarrow> prefetcher \<Rightarrow> prefetcher" where
  "advance row p = kick (p\<lparr>pr_watermark := row + ra_depth (pr_cfg p)\<rparr>)"

definition release :: "nat \<Rightarrow> prefetcher \<Rightarrow> prefetcher" where
  "release i p = kick (let_go i p)"

datatype taken = Untracked | Ready bytes | Rejected err | Pending nat

definition take_entry :: "string \<Rightarrow> prefetcher \<Rightarrow> taken \<times> prefetcher" where
  "take_entry hex p = (case jm_get (pr_entries p) hex of None \<Rightarrow> (Untracked, p)
   | Some i \<Rightarrow> (let e = pr_queue p ! i in
       if pe_state e = EAborted then (Untracked, p)
       else let p = on_entry i (\<lambda>e. e\<lparr>pe_claimed := True\<rparr>) p in
       if pe_state e = EDone then (Ready (concat (pe_chunks e)), release i p)
       else if pe_state e = EError then (Rejected (the (pe_error e)), untrack i p)
       else (Pending i, kick (on_entry i (\<lambda>e. e\<lparr>pe_waited := True\<rparr>) p))))"

definition close_entry :: "nat \<Rightarrow> prefetcher \<Rightarrow> prefetcher" where
  "close_entry i p = (let e = pr_queue p ! i in
     if pe_state e = EQueued \<or> pe_state e = EDone \<and> \<not> pe_claimed e
     then untrack i (on_entry i (\<lambda>e. e\<lparr>pe_state := EAborted, pe_chunks := []\<rparr>) p) else p)"

definition close_store :: "prefetcher \<Rightarrow> prefetcher" where
  "close_store p = fold close_entry (map snd (pr_entries p)) (p\<lparr>pr_closed := True\<rparr>)"

subsection \<open>The steps of a fetch\<close>

definition slice :: "int \<Rightarrow> int \<Rightarrow> bytes \<Rightarrow> int option \<Rightarrow> (session, int option \<times> (bytes list \<times> bool) res) act" where
  "slice tx chunk bid h = (\<lambda>s. case (case h of Some c \<Rightarrow> (Inr c, s) | None \<Rightarrow> sn_wire (open_blob tx bid) s) of
       (Inl e, s) \<Rightarrow> (Inr (None, Inl e), s)
     | (Inr c, s) \<Rightarrow> (case sn_wire (read_blob_window c chunk 8) s of
         (Inl e, s) \<Rightarrow> (Inr (Some c, Inl e), s)
       | (Inr (cs, eof), s) \<Rightarrow> (Inr (if eof then None else Some c, Inr (cs, eof)), if eof then on_wire (close_blob_deferred c) s else s)))"

definition free_handle :: "int option \<Rightarrow> session \<Rightarrow> session" where
  "free_handle h s = (case h of None \<Rightarrow> s | Some c \<Rightarrow> on_wire (close_blob_deferred c) s)"

definition drop_bytes :: "nat \<Rightarrow> entry_state \<Rightarrow> prefetcher \<Rightarrow> prefetcher" where
  "drop_bytes i st p = on_entry i (\<lambda>e. e\<lparr>pe_chunks := [], pe_state := st\<rparr>) (p\<lparr>pr_used := pr_used p - pe_bytes (pr_queue p ! i)\<rparr>)"

definition run_slice :: "nat \<Rightarrow> int option \<Rightarrow> prefetcher \<Rightarrow> prefetcher" where
  "run_slice i h p = (case slice (pr_tx p) (pr_chunk p) (pe_id (pr_queue p ! i)) h (pr_session p) of
       (Inl e, s) \<Rightarrow> p
     | (Inr (h', r), s) \<Rightarrow> let p = p\<lparr>pr_session := s\<rparr> in (case r of
         Inl e \<Rightarrow> p\<lparr>pr_stage := FFailed i h' e\<rparr>
       | Inr (cs, eof) \<Rightarrow> if eof then fetched i (gain i cs p) else loop_top i h' (gain i cs p)))"

definition run_abandon :: "nat \<Rightarrow> int option \<Rightarrow> prefetcher \<Rightarrow> prefetcher" where
  "run_abandon i h p = (untrack i (drop_bytes i EAborted (p\<lparr>pr_session := free_handle h (pr_session p)\<rparr>)))\<lparr>pr_stage := FOver\<rparr>"

definition run_failed :: "nat \<Rightarrow> int option \<Rightarrow> err \<Rightarrow> prefetcher \<Rightarrow> prefetcher" where
  "run_failed i h e p = (let p = drop_bytes i EError (p\<lparr>pr_session := free_handle h (pr_session p)\<rparr>);
       p = on_entry i (\<lambda>x. x\<lparr>pe_error := Some e\<rparr>) p; x = pr_queue p ! i in
     (if pe_claimed x \<and> pe_waited x then on_entry i (\<lambda>x. x\<lparr>pe_settled := Some (Inl e)\<rparr>) (untrack i p) else p)\<lparr>pr_stage := FOver\<rparr>)"

definition fetch_step :: "prefetcher \<Rightarrow> prefetcher" where
  "fetch_step p = (case pr_stage p of
     FIdle \<Rightarrow> p
   | FSlice i h \<Rightarrow> run_slice i h p
   | FAbandon i h \<Rightarrow> run_abandon i h p
   | FFailed i h e \<Rightarrow> run_failed i h e p
   | FOver \<Rightarrow> kick (p\<lparr>pr_running := False, pr_stage := FIdle\<rparr>))"

text \<open>The session is shared: others use it between the steps.\<close>

datatype prefetch_event = Adds int "bytes list" | Advances int | Takes string | Closes | Proceeds | Elsewhere session

definition prefetch_step :: "prefetch_event \<Rightarrow> prefetcher \<Rightarrow> prefetcher" where
  "prefetch_step ev p = (case ev of
     Adds row ids \<Rightarrow> add_row row ids p
   | Advances row \<Rightarrow> advance row p
   | Takes hex \<Rightarrow> snd (take_entry hex p)
   | Closes \<Rightarrow> close_store p
   | Proceeds \<Rightarrow> fetch_step p
   | Elsewhere s \<Rightarrow> p\<lparr>pr_session := s\<rparr>)"

definition prefetch_run :: "prefetch_event list \<Rightarrow> prefetcher \<Rightarrow> prefetcher" where
  "prefetch_run evs p = fold prefetch_step evs p"

end
