(* ===== verification/Prefetch_Runs.thy ===== *)
theory Prefetch_Runs
  imports Blob_Prefetch Transitions
begin

text \<open>
  What the read-ahead store keeps whatever its events: the account of the bytes in memory,
  one fetch at a time; and what a close does to a consumer that waits.
\<close>

subsection \<open>The invariant\<close>

definition entry_bytes :: "prefetch_entry \<Rightarrow> int" where
  "entry_bytes e = int (length (concat (pe_chunks e)))"

definition held_bytes :: "prefetcher \<Rightarrow> int" where
  "held_bytes p = sum_list (map entry_bytes (pr_queue p))"

definition tracked :: "prefetcher \<Rightarrow> nat \<Rightarrow> bool" where
  "tracked p i = (jm_get (pr_entries p) (pe_hex (pr_queue p ! i)) = Some i)"

definition entry_ok :: "nat option \<Rightarrow> prefetcher \<Rightarrow> nat \<Rightarrow> bool" where
  "entry_ok f p i = (let e = pr_queue p ! i in
     (pe_state e = EFetching \<longleftrightarrow> f = Some i)
   \<and> (pe_state e = EQueued \<longrightarrow> tracked p i \<and> pe_chunks e = [] \<and> pe_bytes e = 0)
   \<and> (pe_state e = EFetching \<longrightarrow> tracked p i \<and> pe_bytes e = entry_bytes e)
   \<and> (pe_state e = EDone \<and> tracked p i \<longrightarrow> pe_bytes e = entry_bytes e)
   \<and> (pe_state e = EAborted \<longrightarrow> \<not> tracked p i))"

text \<open>The argument is the entry that is being fetched.\<close>

definition store_ok :: "nat option \<Rightarrow> prefetcher \<Rightarrow> bool" where
  "store_ok f p = (jm_ok (pr_entries p)
   \<and> (\<forall>hex i. jm_get (pr_entries p) hex = Some i \<longrightarrow> i < length (pr_queue p) \<and> pe_hex (pr_queue p ! i) = hex)
   \<and> (\<forall>i < length (pr_queue p). entry_ok f p i)
   \<and> (\<forall>i. f = Some i \<longrightarrow> i < length (pr_queue p))
   \<and> held_bytes p \<le> pr_used p \<and> (\<not> pr_closed p \<longrightarrow> pr_used p = held_bytes p))"

fun stage_entry :: "fetch_stage \<Rightarrow> nat option" where
  "stage_entry FIdle = None"
| "stage_entry (FSlice i h) = Some i"
| "stage_entry (FAbandon i h) = Some i"
| "stage_entry (FFailed i h e) = Some i"
| "stage_entry FOver = None"

definition pr_ok :: "prefetcher \<Rightarrow> bool" where
  "pr_ok p = (store_ok (stage_entry (pr_stage p)) p \<and> (pr_running p \<longleftrightarrow> pr_stage p \<noteq> FIdle))"

lemma on_entry_fields [simp]:
  "pr_entries (on_entry i f p) = pr_entries p" "pr_used (on_entry i f p) = pr_used p" "pr_closed (on_entry i f p) = pr_closed p"
  "pr_stage (on_entry i f p) = pr_stage p" "pr_running (on_entry i f p) = pr_running p" "pr_cfg (on_entry i f p) = pr_cfg p"
  "pr_session (on_entry i f p) = pr_session p" "pr_tx (on_entry i f p) = pr_tx p" "pr_watermark (on_entry i f p) = pr_watermark p"
  "pr_queue (on_entry i f p) = (pr_queue p)[i := f (pr_queue p ! i)]"
  by (simp_all add: on_entry_def)

lemma untrack_fields [simp]:
  "pr_queue (untrack i p) = pr_queue p" "pr_used (untrack i p) = pr_used p" "pr_closed (untrack i p) = pr_closed p"
  "pr_stage (untrack i p) = pr_stage p" "pr_running (untrack i p) = pr_running p" "pr_cfg (untrack i p) = pr_cfg p"
  "pr_entries (untrack i p) = jm_delete (pr_entries p) (pe_hex (pr_queue p ! i))"
  by (simp_all add: untrack_def)

lemma sum_entries:
  "i < length es \<Longrightarrow> sum_list (map entry_bytes (es[i := e])) = sum_list (map entry_bytes es) - entry_bytes (es ! i) + entry_bytes e"
  by (induction es arbitrary: i) (auto split: nat.split)

lemma store_fields [simp]:
  "store_ok f (p\<lparr>pr_stage := st\<rparr>) = store_ok f p" "store_ok f (p\<lparr>pr_running := r\<rparr>) = store_ok f p"
  "store_ok f (p\<lparr>pr_session := s\<rparr>) = store_ok f p" "store_ok f (p\<lparr>pr_watermark := m\<rparr>) = store_ok f p"
  by (simp_all add: store_ok_def entry_ok_def tracked_def held_bytes_def Let_def)

text \<open>A change of one entry, which may leave the map: only that entry has to be looked at.\<close>

lemma store_update:
  assumes ok: "store_ok f p" and i: "i < length (pr_queue p)" and q: "pr_queue q = (pr_queue p)[i := e]"
    and hex: "pe_hex e = pe_hex (pr_queue p ! i)"
    and map: "pr_entries q = pr_entries p \<or> tracked p i \<and> pr_entries q = jm_delete (pr_entries p) (pe_hex (pr_queue p ! i))"
    and others: "\<And>j. j \<noteq> i \<Longrightarrow> (f' = Some j) = (f = Some j)" and changed: "entry_ok f' q i"
    and used: "pr_used p + entry_bytes e \<le> pr_used q + entry_bytes (pr_queue p ! i)"
    and exact: "pr_closed p \<longrightarrow> pr_closed q" "\<not> pr_closed q \<longrightarrow> pr_used p + entry_bytes e = pr_used q + entry_bytes (pr_queue p ! i)"
  shows "store_ok f' q"
proof -
  have old: "jm_ok (pr_entries p)" "\<And>h j. jm_get (pr_entries p) h = Some j \<Longrightarrow> j < length (pr_queue p) \<and> pe_hex (pr_queue p ! j) = h"
    "\<And>j. j < length (pr_queue p) \<Longrightarrow> entry_ok f p j" "\<And>j. f = Some j \<Longrightarrow> j < length (pr_queue p)"
    "held_bytes p \<le> pr_used p" "\<not> pr_closed p \<longrightarrow> pr_used p = held_bytes p"
    using ok by (auto simp: store_ok_def)
  have hexes: "pe_hex (pr_queue q ! j) = pe_hex (pr_queue p ! j)" for j
    using hex i by (cases "j = i") (simp_all add: q)
  have get: "jm_get (pr_entries q) h = (if pr_entries q = pr_entries p \<or> h \<noteq> pe_hex (pr_queue p ! i) then jm_get (pr_entries p) h else None)" for h
    using map js_map.get_del [OF old(1)] by auto
  have same: "tracked q j = tracked p j" if "j \<noteq> i" for j
    using that map unfolding tracked_def hexes get by auto
  have rest: "entry_ok f' q j" if "j \<noteq> i" "j < length (pr_queue p)" for j
    using old(3) [OF that(2)] others [OF that(1)] same [OF that(1)] that(1) by (simp add: entry_ok_def q Let_def)
  have held: "held_bytes q = held_bytes p - entry_bytes (pr_queue p ! i) + entry_bytes e"
    using i by (simp add: held_bytes_def q sum_entries)
  show ?thesis
    unfolding store_ok_def
  proof (intro conjI allI impI)
    show "jm_ok (pr_entries q)" using map old(1) js_map.invar_del [OF old(1)] by auto
    fix h j assume g: "jm_get (pr_entries q) h = Some j"
    then have "jm_get (pr_entries p) h = Some j" by (simp add: get split: if_splits)
    then show "j < length (pr_queue q)" "pe_hex (pr_queue q ! j) = h" using old(2) [of h j] by (simp_all add: q hexes [unfolded q])
  next
    fix j assume "j < length (pr_queue q)"
    then show "entry_ok f' q j" using rest changed by (cases "j = i") (simp_all add: q)
  next
    fix j assume "f' = Some j"
    then show "j < length (pr_queue q)" using others [of j] old(4) [of j] i by (cases "j = i") (simp_all add: q)
  next
    show "held_bytes q \<le> pr_used q" using held used old(5) by simp
    assume open': "\<not> pr_closed q"
    then have "pr_used p = held_bytes p" using exact(1) old(6) by blast
    then show "pr_used q = held_bytes q" using held exact(2) open' by simp
  qed
qed

lemma store_entry: "store_ok f p \<Longrightarrow> i < length (pr_queue p) \<Longrightarrow> entry_ok f p i"
  by (simp add: store_ok_def)

lemma on_entry_beyond: "length (pr_queue p) \<le> i \<Longrightarrow> on_entry i g p = p"
  by (simp add: on_entry_def list_update_beyond)

lemmas entry_simps = entry_ok_def tracked_def entry_bytes_def Let_def

text \<open>Changes that touch neither the state nor the bytes of an entry.\<close>

lemma store_flag:
  assumes "store_ok f p"
    and "\<And>e. pe_hex (g e) = pe_hex e \<and> pe_state (g e) = pe_state e \<and> pe_chunks (g e) = pe_chunks e \<and> pe_bytes (g e) = pe_bytes e"
  shows "store_ok f (on_entry i g p)"
proof (cases "i < length (pr_queue p)")
  case True
  show ?thesis
    by (rule store_update [OF assms(1) True, where e = "g (pr_queue p ! i)"]) (use assms(2) store_entry [OF assms(1) True] True in \<open>auto simp: entry_simps\<close>)
next
  case False
  then show ?thesis using assms(1) by (simp add: on_entry_beyond)
qed

lemma store_begin:
  assumes "store_ok None p" and "i < length (pr_queue p)" and "pe_state (pr_queue p ! i) = EQueued"
  shows "store_ok (Some i) (on_entry i (\<lambda>e. e\<lparr>pe_state := EFetching\<rparr>) p)"
  by (rule store_update [OF assms(1,2), where e = "(pr_queue p ! i)\<lparr>pe_state := EFetching\<rparr>"]) (use assms store_entry [OF assms(1,2)] in \<open>auto simp: entry_simps\<close>)

lemma store_current: "store_ok (Some i) p \<Longrightarrow> i < length (pr_queue p)"
  by (simp add: store_ok_def)

lemma store_gain:
  assumes "store_ok (Some i) p"
  shows "store_ok (Some i) (gain i cs p)"
  unfolding gain_def
  by (rule store_update [OF assms store_current [OF assms], where e = "(pr_queue p ! i)\<lparr>pe_chunks := pe_chunks (pr_queue p ! i) @ cs,
        pe_bytes := pe_bytes (pr_queue p ! i) + int (length (concat cs))\<rparr>"])
    (use store_current [OF assms] store_entry [OF assms store_current [OF assms]] in \<open>auto simp: entry_simps\<close>)

lemma store_done:
  assumes "store_ok (Some i) p"
  shows "store_ok None (on_entry i (\<lambda>e. e\<lparr>pe_state := EDone\<rparr>) p)" and "tracked p i"
proof -
  note here = store_current [OF assms] store_entry [OF assms store_current [OF assms]]
  show "store_ok None (on_entry i (\<lambda>e. e\<lparr>pe_state := EDone\<rparr>) p)"
    by (rule store_update [OF assms here(1), where e = "(pr_queue p ! i)\<lparr>pe_state := EDone\<rparr>"]) (use here in \<open>auto simp: entry_simps\<close>)
  show "tracked p i" using here by (simp add: entry_ok_def Let_def)
qed

lemma untracked: "store_ok f p \<Longrightarrow> jm_get (jm_delete (pr_entries p) h) h = None"
  by (simp add: store_ok_def js_map.get_del)

lemma store_let_go:
  assumes "store_ok f p" and "tracked p i" and "pe_state (pr_queue p ! i) = EDone"
  shows "store_ok f (let_go i p)"
proof -
  have i: "i < length (pr_queue p)" using assms(1,2) by (auto simp: store_ok_def tracked_def)
  show ?thesis
    unfolding let_go_def
    by (rule store_update [OF assms(1) i, where e = "(pr_queue p ! i)\<lparr>pe_chunks := []\<rparr>"])
      (use assms i untracked [OF assms(1)] store_entry [OF assms(1) i] in \<open>auto simp: entry_simps\<close>)
qed

lemma store_drop:
  assumes "store_ok (Some i) p" and "st = EAborted \<or> st = EError"
  shows "store_ok None (untrack i (drop_bytes i st p))" and "st = EError \<Longrightarrow> store_ok None (drop_bytes i st p)"
proof -
  note here = store_current [OF assms(1)] store_entry [OF assms(1) store_current [OF assms(1)]]
  show "store_ok None (untrack i (drop_bytes i st p))"
    unfolding drop_bytes_def
    by (rule store_update [OF assms(1) here(1), where e = "(pr_queue p ! i)\<lparr>pe_chunks := [], pe_state := st\<rparr>"])
      (use assms here untracked [OF assms(1)] in \<open>auto simp: entry_simps\<close>)
  show "store_ok None (drop_bytes i st p)" if "st = EError"
    unfolding drop_bytes_def
    by (rule store_update [OF assms(1) here(1), where e = "(pr_queue p ! i)\<lparr>pe_chunks := [], pe_state := st\<rparr>"])
      (use that here in \<open>auto simp: entry_simps\<close>)
qed

lemma store_untrack:
  assumes "store_ok f p" and "tracked p i" and "pe_state (pr_queue p ! i) = EError"
  shows "store_ok f (untrack i p)"
proof -
  have i: "i < length (pr_queue p)" using assms(1,2) by (auto simp: store_ok_def tracked_def)
  show ?thesis
    by (rule store_update [OF assms(1) i, where e = "pr_queue p ! i"])
      (use assms i untracked [OF assms(1)] store_entry [OF assms(1) i] in \<open>auto simp: entry_simps\<close>)
qed

subsection \<open>Every event keeps it\<close>

lemma gain_fields [simp]:
  "pr_stage (gain i cs p) = pr_stage p" "pr_running (gain i cs p) = pr_running p" "pr_closed (gain i cs p) = pr_closed p"
  "pr_entries (gain i cs p) = pr_entries p" "length (pr_queue (gain i cs p)) = length (pr_queue p)"
  "j \<noteq> i \<Longrightarrow> pr_queue (gain i cs p) ! j = pr_queue p ! j"
  by (simp_all add: gain_def)

lemma fetched_fields [simp]:
  "pr_stage (fetched i p) = FOver" "pr_running (fetched i p) = pr_running p" "pr_closed (fetched i p) = pr_closed p"
  "length (pr_queue (fetched i p)) = length (pr_queue p)" "j \<noteq> i \<Longrightarrow> pr_queue (fetched i p) ! j = pr_queue p ! j"
  by (simp_all add: fetched_def let_go_def Let_def)

lemma loop_top_fields [simp]:
  "stage_entry (pr_stage (loop_top i h p)) = Some i" "pr_stage (loop_top i h p) \<noteq> FIdle" "pr_running (loop_top i h p) = pr_running p"
  "pr_closed (loop_top i h p) = pr_closed p" "pr_queue (loop_top i h p) = pr_queue p" "store_ok f (loop_top i h p) = store_ok f p"
  by (simp_all add: loop_top_def)

lemma store_fetched:
  assumes "store_ok (Some i) p"
  shows "store_ok None (fetched i p)"
proof -
  let ?q = "on_entry i (\<lambda>e. e\<lparr>pe_state := EDone\<rparr>) p"
  have i: "i < length (pr_queue p)" by (rule store_current [OF assms])
  have "store_ok None ?q" "tracked ?q i" "pe_state (pr_queue ?q ! i) = EDone"
    using store_done [OF assms] i by (simp_all add: tracked_def)
  then show ?thesis
    unfolding fetched_def Let_def by (simp add: store_flag store_let_go)
qed

lemma fetch_start_ok:
  assumes "store_ok None p" and "i < length (pr_queue p)" and "pe_state (pr_queue p ! i) = EQueued"
  shows "store_ok (stage_entry (pr_stage (fetch_start i p))) (fetch_start i p)" and "pr_stage (fetch_start i p) \<noteq> FIdle"
    and "pr_running (fetch_start i p) = pr_running p"
proof -
  have "store_ok (Some i) (on_entry i (\<lambda>e. e\<lparr>pe_state := EFetching\<rparr>) p)" by (rule store_begin [OF assms])
  then show "store_ok (stage_entry (pr_stage (fetch_start i p))) (fetch_start i p)"
    unfolding fetch_start_def Let_def
    by (auto simp: store_fetched store_gain split: prod.split sum.split option.split)
qed (simp_all add: fetch_start_def Let_def split: prod.split sum.split option.split)

lemma kick_starts:
  assumes "kick p = q" and "q \<noteq> p"
  shows "\<exists>i < length (pr_queue p). eligible p (pr_queue p ! i) \<and> \<not> pr_running p \<and> q = fetch_start i (p\<lparr>pr_running := True\<rparr>)"
  using assms by (auto simp: kick_def find_Some_iff split: if_splits option.splits)

lemma kick_ok:
  assumes "pr_ok p"
  shows "pr_ok (kick p)"
proof (cases "kick p = p")
  case True
  with assms show ?thesis by simp
next
  case False
  then obtain i where i: "i < length (pr_queue p)" "eligible p (pr_queue p ! i)" "\<not> pr_running p"
    "kick p = fetch_start i (p\<lparr>pr_running := True\<rparr>)" using kick_starts by blast
  then have "store_ok None (p\<lparr>pr_running := True\<rparr>)" using assms by (auto simp: pr_ok_def)
  then show ?thesis
    using fetch_start_ok [of "p\<lparr>pr_running := True\<rparr>" i] i by (simp add: pr_ok_def eligible_def)
qed

lemma add_entry_ok:
  assumes "store_ok f p"
  shows "store_ok f (add_entry row bid p)"
proof (cases "jm_get (pr_entries p) (hex_str bid)")
  case None
  have ok: "jm_ok (pr_entries p)" using assms by (simp add: store_ok_def)
  have get: "jm_get (pr_entries (add_entry row bid p)) = (jm_get (pr_entries p))(hex_str bid \<mapsto> length (pr_queue p))"
    using js_map.get_put [OF ok] None by (simp add: add_entry_def Let_def)
  have map: "jm_get (pr_entries p) h = Some j \<Longrightarrow> j < length (pr_queue p) \<and> pe_hex (pr_queue p ! j) = h" for h j
    using assms by (simp add: store_ok_def)
  have "entry_ok f (add_entry row bid p) j" if "j < length (pr_queue p)" for j
  proof -
    have "tracked (add_entry row bid p) j = tracked p j"
      using that None map [of "hex_str bid" j] unfolding tracked_def get by (auto simp: add_entry_def Let_def nth_append)
    then show ?thesis using that store_entry [OF assms that] None by (simp add: entry_ok_def add_entry_def nth_append Let_def)
  qed
  moreover have "f \<noteq> Some (length (pr_queue p))" using assms by (auto simp: store_ok_def)
  then have "entry_ok f (add_entry row bid p) (length (pr_queue p))"
    using None get by (auto simp: entry_simps) (simp_all add: add_entry_def Let_def)
  ultimately show ?thesis
    using assms None get map js_map.invar_put [OF ok]
    by (auto simp: store_ok_def less_Suc_eq nth_append held_bytes_def add_entry_def Let_def entry_bytes_def split: if_splits dest: map)
qed (use assms in \<open>simp add: add_entry_def Let_def\<close>)

lemma add_row_fields [simp]:
  "pr_stage (add_row row ids p) = pr_stage p" "pr_running (add_row row ids p) = pr_running p"
proof -
  have "pr_stage (fold (add_entry row) ids p) = pr_stage p \<and> pr_running (fold (add_entry row) ids p) = pr_running p"
    by (induction ids arbitrary: p) (simp_all add: add_entry_def Let_def)
  then show "pr_stage (add_row row ids p) = pr_stage p" "pr_running (add_row row ids p) = pr_running p"
    by (simp_all add: add_row_def)
qed

lemma add_row_ok: "store_ok f p \<Longrightarrow> store_ok f (add_row row ids p)"
proof -
  have "store_ok f p \<Longrightarrow> store_ok f (fold (add_entry row) ids p)"
    by (induction ids arbitrary: p) (simp_all add: add_entry_ok)
  then show "store_ok f p \<Longrightarrow> store_ok f (add_row row ids p)" by (simp add: add_row_def)
qed

lemma close_entry_ok:
  assumes "store_ok f p" and "pr_closed p" and "tracked p i"
  shows "store_ok f (close_entry i p)" and "tracked p j \<Longrightarrow> j \<noteq> i \<Longrightarrow> tracked (close_entry i p) j"
proof -
  have i: "i < length (pr_queue p)" using assms(1,3) by (auto simp: store_ok_def tracked_def)
  show "store_ok f (close_entry i p)"
  proof (cases "pe_state (pr_queue p ! i) = EQueued \<or> pe_state (pr_queue p ! i) = EDone \<and> \<not> pe_claimed (pr_queue p ! i)")
    case True
    then show ?thesis
      unfolding close_entry_def Let_def if_P [OF True]
      by (intro store_update [OF assms(1) i, where e = "(pr_queue p ! i)\<lparr>pe_state := EAborted, pe_chunks := []\<rparr>"])
        (use assms i untracked [OF assms(1)] store_entry [OF assms(1) i] in \<open>auto simp: entry_simps\<close>)
  qed (use assms(1) in \<open>auto simp: close_entry_def Let_def\<close>)
  have ok: "jm_ok (pr_entries p)" using assms(1) by (simp add: store_ok_def)
  show "tracked (close_entry i p) j" if "tracked p j" "j \<noteq> i"
    using that assms(3) i by (auto simp: close_entry_def tracked_def Let_def js_map.get_del [OF ok] nth_list_update)
qed

lemma close_entry_fields [simp]:
  "pr_closed (close_entry i p) = pr_closed p" "pr_stage (close_entry i p) = pr_stage p" "pr_running (close_entry i p) = pr_running p"
  "length (pr_queue (close_entry i p)) = length (pr_queue p)" "j \<noteq> i \<Longrightarrow> pr_queue (close_entry i p) ! j = pr_queue p ! j"
  by (simp_all add: close_entry_def Let_def)

lemma close_fold:
  "store_ok f p \<Longrightarrow> pr_closed p \<Longrightarrow> list_all (tracked p) is \<Longrightarrow> distinct is \<Longrightarrow>
     store_ok f (fold close_entry is p) \<and> pr_stage (fold close_entry is p) = pr_stage p
     \<and> pr_running (fold close_entry is p) = pr_running p \<and> pr_closed (fold close_entry is p)
     \<and> length (pr_queue (fold close_entry is p)) = length (pr_queue p)
     \<and> (\<forall>j. j \<notin> set is \<longrightarrow> pr_queue (fold close_entry is p) ! j = pr_queue p ! j)"
proof (induction "is" arbitrary: p)
  case (Cons i "is")
  have "list_all (tracked (close_entry i p)) is"
    using Cons.prems close_entry_ok(2) [of f p i] by (auto simp: list_all_iff)
  with Cons.prems Cons.IH [of "close_entry i p"] close_entry_ok(1) [of f p i] show ?case by simp
qed simp

lemma entries_tracked:
  assumes "store_ok f p"
  shows "list_all (tracked p) (map snd (pr_entries p))" and "distinct (map snd (pr_entries p))"
proof -
  have ok: "distinct (map fst (pr_entries p))" using assms by (simp add: store_ok_def jm_ok_def)
  have hex: "h = pe_hex (pr_queue p ! i)" "tracked p i" if "(h, i) \<in> set (pr_entries p)" for h i
  proof -
    have "jm_get (pr_entries p) h = Some i" using ok that by (simp add: jm_get_def)
    with assms show "h = pe_hex (pr_queue p ! i)" "tracked p i" by (auto simp: store_ok_def tracked_def)
  qed
  then show "list_all (tracked p) (map snd (pr_entries p))" by (auto simp: list_all_iff)
  have "map fst (pr_entries p) = map (\<lambda>i. pe_hex (pr_queue p ! i)) (map snd (pr_entries p))" using hex(1) by auto
  with ok show "distinct (map snd (pr_entries p))" by (metis distinct_map)
qed

lemma close_begin: "store_ok f p \<Longrightarrow> store_ok f (p\<lparr>pr_closed := True\<rparr>)"
  by (simp add: store_ok_def entry_ok_def tracked_def held_bytes_def Let_def)

lemma close_store_ok:
  assumes "store_ok f p"
  shows "store_ok f (close_store p) \<and> pr_stage (close_store p) = pr_stage p \<and> pr_running (close_store p) = pr_running p
    \<and> pr_closed (close_store p) \<and> length (pr_queue (close_store p)) = length (pr_queue p)
    \<and> (\<forall>j. \<not> tracked p j \<longrightarrow> pr_queue (close_store p) ! j = pr_queue p ! j)"
proof -
  have t: "list_all (tracked (p\<lparr>pr_closed := True\<rparr>)) (map snd (pr_entries p))" "\<forall>j \<in> set (map snd (pr_entries p)). tracked p j"
    using entries_tracked [OF assms] by (auto simp: tracked_def list_all_iff)
  have "j \<notin> set (map snd (pr_entries p))" if "\<not> tracked p j" for j using t(2) that by blast
  then show ?thesis
    using close_fold [OF close_begin [OF assms] _ t(1) entries_tracked(2) [OF assms]] unfolding close_store_def
    by (simp del: set_map)
qed

lemma pr_ok_store: "pr_ok p \<Longrightarrow> store_ok (stage_entry (pr_stage p)) p"
  by (simp add: pr_ok_def)

lemma take_entry_ok:
  assumes "pr_ok p"
  shows "pr_ok (snd (take_entry hex p))"
proof (cases "jm_get (pr_entries p) hex")
  case (Some i)
  have i: "tracked p i" using assms Some by (auto simp: pr_ok_def store_ok_def tracked_def)
  let ?p = "on_entry i (\<lambda>e. e\<lparr>pe_claimed := True\<rparr>) p"
  have len: "i < length (pr_queue p)" using assms Some by (auto simp: pr_ok_def store_ok_def)
  have ok: "pr_ok ?p" "tracked ?p i" "pe_state (pr_queue ?p ! i) = pe_state (pr_queue p ! i)"
    using assms i len by (simp_all add: pr_ok_def store_flag tracked_def)
  have "pr_ok (release i ?p)" if "pe_state (pr_queue p ! i) = EDone"
    unfolding release_def
    using ok store_let_go [OF pr_ok_store [OF ok(1)] ok(2)] that by (intro kick_ok) (simp add: pr_ok_def let_go_def)
  moreover have "pr_ok (untrack i ?p)" if "pe_state (pr_queue p ! i) = EError"
    using ok store_untrack [OF pr_ok_store [OF ok(1)] ok(2)] that by (simp add: pr_ok_def)
  moreover have "pr_ok (kick (on_entry i (\<lambda>e. e\<lparr>pe_waited := True\<rparr>) ?p))"
    using ok(1) by (intro kick_ok) (simp add: pr_ok_def store_flag)
  ultimately show ?thesis using Some assms by (simp add: take_entry_def Let_def)
qed (use assms in \<open>simp add: take_entry_def\<close>)

lemma run_slice_ok:
  assumes "pr_ok p" and "pr_stage p = FSlice i h"
  shows "pr_ok (run_slice i h p)"
proof -
  have s: "store_ok (Some i) p" "pr_running p" using assms by (auto simp: pr_ok_def)
  show ?thesis
    using s assms unfolding run_slice_def pr_ok_def Let_def
    by (auto simp: store_gain store_fetched split: prod.split sum.split)
qed

lemma fetch_step_ok:
  assumes "pr_ok p"
  shows "pr_ok (fetch_step p)"
proof (cases "pr_stage p")
  case (FSlice i h)
  with assms show ?thesis by (simp add: fetch_step_def run_slice_ok)
next
  case (FAbandon i h)
  then have "store_ok (Some i) (p\<lparr>pr_session := free_handle h (pr_session p)\<rparr>)" "pr_running p" using assms by (auto simp: pr_ok_def)
  from store_drop(1) [OF this(1), of EAborted] this(2) FAbandon show ?thesis
    by (simp add: fetch_step_def run_abandon_def pr_ok_def drop_bytes_def)
next
  case (FFailed i h e)
  let ?p = "p\<lparr>pr_session := free_handle h (pr_session p)\<rparr>"
  have s: "store_ok (Some i) ?p" and run: "pr_running p" using assms FFailed by (auto simp: pr_ok_def)
  let ?q = "on_entry i (\<lambda>x. x\<lparr>pe_error := Some e\<rparr>) (drop_bytes i EError ?p)"
  have i: "i < length (pr_queue p)" using store_current [OF s] by simp
  have q: "store_ok None ?q" using store_drop(2) [OF s] by (simp add: store_flag)
  have "tracked ?q i" using s i by (auto simp: store_ok_def entry_ok_def tracked_def drop_bytes_def Let_def)
  moreover have "pe_state (pr_queue ?q ! i) = EError" using i by (simp add: drop_bytes_def)
  ultimately have "store_ok None (untrack i ?q)" by (rule store_untrack [OF q])
  then show ?thesis
    using q run FFailed unfolding fetch_step_def run_failed_def Let_def
    by (simp add: pr_ok_def store_flag drop_bytes_def)
next
  case FOver
  then have "pr_ok (p\<lparr>pr_running := False, pr_stage := FIdle\<rparr>)" using assms by (simp add: pr_ok_def)
  then show ?thesis using FOver by (simp add: fetch_step_def kick_ok)
qed (use assms in \<open>simp add: fetch_step_def\<close>)

lemma prefetch_step_ok: "pr_ok p \<Longrightarrow> pr_ok (prefetch_step ev p)"
proof (cases ev)
  case (Advances row)
  assume "pr_ok p"
  then have "pr_ok (p\<lparr>pr_watermark := row + ra_depth (pr_cfg p)\<rparr>)" by (simp add: pr_ok_def)
  then show ?thesis using Advances by (simp add: prefetch_step_def advance_def kick_ok)
next
  case Closes
  assume "pr_ok p"
  then show ?thesis using Closes close_store_ok [OF pr_ok_store] by (simp add: prefetch_step_def pr_ok_def)
qed (simp_all add: prefetch_step_def take_entry_ok fetch_step_ok, simp_all add: pr_ok_def add_row_ok)

interpretation read_ahead: inductive_invariant "\<lambda>p. \<exists>s tx chunk cfg. p = pr_new s tx chunk cfg" "\<lambda>p q. \<exists>ev. q = prefetch_step ev p" pr_ok
proof
  fix p assume "\<exists>s tx chunk cfg. p = pr_new s tx chunk cfg"
  then show "pr_ok p" by (auto simp: pr_ok_def store_ok_def pr_new_def held_bytes_def jm_ok_def jm_get_def)
qed (auto simp: prefetch_step_ok)

lemma run_reaches:
  "reach init (\<lambda>p q. \<exists>ev. q = prefetch_step ev p) p \<Longrightarrow> reach init (\<lambda>p q. \<exists>ev. q = prefetch_step ev p) (prefetch_run evs p)"
  unfolding prefetch_run_def
proof (induction evs arbitrary: p)
  case (Cons ev evs)
  have "reach init (\<lambda>p q. \<exists>ev. q = prefetch_step ev p) (prefetch_step ev p)"
    by (rule reach_step [OF Cons.prems]) blast
  then show ?case using Cons.IH by simp
qed simp

lemma run_ok: "pr_ok (prefetch_run evs (pr_new s tx chunk cfg))"
  by (rule read_ahead.holds [OF run_reaches [OF reach_init]]) blast

text \<open>
  C1. The store's account is exact. After any events, the bytes counted against the budget
  are those held in memory while the store is open, and never fewer afterwards; at most one
  blob is being fetched; and whatever is being fetched or waits to be is still found by its
  id.
\<close>

theorem read_ahead_accounts:
  assumes "p = prefetch_run evs (pr_new s tx chunk cfg)"
  shows "(\<not> pr_closed p \<longrightarrow> pr_used p = held_bytes p) \<and> held_bytes p \<le> pr_used p
    \<and> (\<forall>i < length (pr_queue p). \<forall>j < length (pr_queue p). pe_state (pr_queue p ! i) = EFetching \<and> pe_state (pr_queue p ! j) = EFetching \<longrightarrow> i = j)
    \<and> (\<forall>i < length (pr_queue p). pe_state (pr_queue p ! i) \<in> {EQueued, EFetching} \<longrightarrow> has_entry (pe_hex (pr_queue p ! i)) p)"
proof -
  have "pr_ok p" unfolding assms by (rule run_ok)
  then show ?thesis
    by (auto simp: pr_ok_def store_ok_def entry_ok_def tracked_def has_entry_def Let_def)
qed

lemma read_ahead_accounts_witness:
  "\<exists>p. p = prefetch_run [Adds 0 [[1], [2]], Advances 0]
       (pr_new \<lparr>s_wire = \<lparr>w_in = [], w_out = [], w_sent = [], w_flush_count = 0, w_deferred = 0, w_version = 16, w_inline_size = 0,
          w_inlined = [], w_messages = (\<lambda>_. None)\<rparr>, s_db = 0, s_cache = None, s_stars = None, s_inline = None, s_next = 0\<rparr>
        3 100 \<lparr>ra_columns = None, ra_depth = 1, ra_max_bytes = 65536\<rparr>)
     \<and> held_bytes p \<le> pr_used p"
  using read_ahead_accounts [OF refl] by blast

subsection \<open>A consumer that waits\<close>

lemma fetch_start_other: "j \<noteq> i \<Longrightarrow> pr_queue (fetch_start i p) ! j = pr_queue p ! j"
  by (simp add: fetch_start_def Let_def split: prod.split sum.split option.split)

lemma fetch_start_length: "length (pr_queue (fetch_start i p)) = length (pr_queue p)" "pr_closed (fetch_start i p) = pr_closed p"
  by (simp_all add: fetch_start_def Let_def split: prod.split sum.split option.split)

text \<open>An aborted entry of a closed store is left alone for good.\<close>

definition buried :: "nat \<Rightarrow> prefetch_entry \<Rightarrow> prefetcher \<Rightarrow> bool" where
  "buried i e p = (pr_ok p \<and> pr_closed p \<and> i < length (pr_queue p) \<and> pr_queue p ! i = e \<and> pe_state e = EAborted)"

lemma buried_untracked: "buried i e p \<Longrightarrow> \<not> tracked p i"
  by (auto simp: buried_def pr_ok_def store_ok_def entry_ok_def Let_def)

lemma buried_kick:
  assumes "pr_queue p ! i = e" and "pe_state e = EAborted"
  shows "pr_queue (kick p) ! i = e \<and> length (pr_queue (kick p)) = length (pr_queue p) \<and> pr_closed (kick p) = pr_closed p"
proof (cases "kick p = p")
  case False
  then obtain j where j: "eligible p (pr_queue p ! j)" "kick p = fetch_start j (p\<lparr>pr_running := True\<rparr>)" using kick_starts by blast
  then have "j \<noteq> i" using assms by (auto simp: eligible_def)
  with j(2) assms show ?thesis by (simp add: fetch_start_other fetch_start_length)
qed (use assms in simp)

lemma buried_step:
  assumes "buried i e p"
  shows "buried i e (prefetch_step ev p)"
proof -
  have p: "pr_ok p" "pr_closed p" "i < length (pr_queue p)" "pr_queue p ! i = e" "pe_state e = EAborted" "\<not> tracked p i"
    using assms buried_untracked [OF assms] by (simp_all add: buried_def)
  have other: "j \<noteq> i" if "jm_get (pr_entries p) hex = Some j" for hex j
    using that p(1,6) by (auto simp: pr_ok_def store_ok_def tracked_def)
  have stage: "j \<noteq> i" if "stage_entry (pr_stage p) = Some j" for j
    using that p(1,3,4,5) by (auto simp: pr_ok_def store_ok_def entry_ok_def Let_def)
  have "pr_queue (prefetch_step ev p) ! i = e \<and> length (pr_queue (prefetch_step ev p)) = length (pr_queue p) \<and> pr_closed (prefetch_step ev p)"
  proof (cases ev)
    case (Adds row ids)
    then show ?thesis using p by (simp add: prefetch_step_def add_row_def)
  next
    case (Advances row)
    then show ?thesis using p buried_kick [of "p\<lparr>pr_watermark := row + ra_depth (pr_cfg p)\<rparr>" i e] by (simp add: prefetch_step_def advance_def)
  next
    case (Takes hex)
    show ?thesis
    proof (cases "jm_get (pr_entries p) hex")
      case (Some j)
      let ?p = "on_entry j (\<lambda>e. e\<lparr>pe_claimed := True\<rparr>) p"
      have j: "j \<noteq> i" by (rule other [OF Some])
      show ?thesis
        using j p Takes Some buried_kick [of "let_go j ?p" i e] buried_kick [of "on_entry j (\<lambda>e. e\<lparr>pe_waited := True\<rparr>) ?p" i e]
        by (simp add: prefetch_step_def take_entry_def Let_def release_def let_go_def)
    qed (use p Takes in \<open>simp add: prefetch_step_def take_entry_def\<close>)
  next
    case Closes
    then show ?thesis using p close_store_ok [OF pr_ok_store [OF p(1)]] by (simp add: prefetch_step_def)
  next
    case Proceeds
    show ?thesis
    proof (cases "pr_stage p")
      case (FSlice j h)
      then show ?thesis using p Proceeds stage [of j]
        by (simp add: prefetch_step_def fetch_step_def run_slice_def Let_def split: prod.split sum.split)
    next
      case (FAbandon j h)
      then show ?thesis using p Proceeds stage [of j] by (simp add: prefetch_step_def fetch_step_def run_abandon_def drop_bytes_def)
    next
      case (FFailed j h x)
      then show ?thesis using p Proceeds stage [of j] by (simp add: prefetch_step_def fetch_step_def run_failed_def drop_bytes_def Let_def)
    next
      case FOver
      then show ?thesis using p Proceeds buried_kick [of "p\<lparr>pr_running := False, pr_stage := FIdle\<rparr>" i e]
        by (simp add: prefetch_step_def fetch_step_def)
    qed (use p Proceeds in \<open>simp add: prefetch_step_def fetch_step_def\<close>)
  qed (use p in \<open>simp add: prefetch_step_def\<close>)
  then show ?thesis using p prefetch_step_ok [OF p(1)] by (simp add: buried_def)
qed

lemma buried_run: "buried i e p \<Longrightarrow> buried i e (prefetch_run evs p)"
  unfolding prefetch_run_def by (induction evs arbitrary: p) (simp_all add: buried_step)

lemma close_fold_queued:
  "store_ok f p \<Longrightarrow> pr_closed p \<Longrightarrow> list_all (tracked p) is \<Longrightarrow> distinct is \<Longrightarrow> i \<in> set is \<Longrightarrow> pe_state (pr_queue p ! i) = EQueued \<Longrightarrow>
     pr_queue (fold close_entry is p) ! i = (pr_queue p ! i)\<lparr>pe_state := EAborted, pe_chunks := []\<rparr>"
proof (induction "is" arbitrary: p)
  case (Cons j "is")
  have t: "list_all (tracked (close_entry j p)) is"
    using Cons.prems close_entry_ok(2) [of f p j] by (auto simp: list_all_iff)
  have ok: "store_ok f (close_entry j p)" using Cons.prems close_entry_ok(1) [of f p j] by simp
  show ?case
  proof (cases "i = j")
    case True
    then have i: "i < length (pr_queue p)" "i \<notin> set is" using Cons.prems by (auto simp: store_ok_def tracked_def)
    have "pr_queue (fold close_entry is (close_entry i p)) ! i = pr_queue (close_entry i p) ! i"
      using close_fold [OF ok _ t] Cons.prems True i(2) by simp
    moreover have "pr_queue (close_entry i p) ! i = (pr_queue p ! i)\<lparr>pe_state := EAborted, pe_chunks := []\<rparr>"
      using i Cons.prems(6) by (simp add: close_entry_def Let_def)
    ultimately show ?thesis using True by simp
  next
    case False
    then show ?thesis using Cons.prems Cons.IH [OF ok _ t] by simp
  qed
qed simp

text \<open>
  C1. A close strands a claim. A consumer that asked for a blob while another was being
  fetched waits on a promise; if the store is closed before its turn, the entry is aborted
  with the promise unsettled, and no later event ever settles it.
\<close>

theorem close_strands_a_claim:
  assumes "q = prefetch_run evs (pr_new s tx chunk cfg)" and "take_entry hex q = (Pending i, p)"
    and "pe_state (pr_queue p ! i) = EQueued" and "pe_settled (pr_queue p ! i) = None"
  shows "pe_waited (pr_queue (prefetch_run evs' (close_store p)) ! i) \<and> pe_settled (pr_queue (prefetch_run evs' (close_store p)) ! i) = None
    \<and> pe_state (pr_queue (prefetch_run evs' (close_store p)) ! i) = EAborted"
proof -
  have q: "pr_ok q" unfolding assms(1) by (rule run_ok)
  have p: "pr_ok p" using take_entry_ok [OF q, of hex] assms(2) by simp
  have get: "jm_get (pr_entries q) hex = Some i"
    using assms(2) by (auto simp: take_entry_def Let_def split: option.splits if_splits)
  let ?w = "on_entry i (\<lambda>e. e\<lparr>pe_waited := True\<rparr>) (on_entry i (\<lambda>e. e\<lparr>pe_claimed := True\<rparr>) q)"
  have pw: "p = kick ?w" using assms(2) get by (auto simp: take_entry_def Let_def split: if_splits)
  have iq: "i < length (pr_queue q)" using q get by (auto simp: pr_ok_def store_ok_def)
  have len: "i < length (pr_queue p)" and waited: "pe_waited (pr_queue p ! i)"
  proof -
    have "length (pr_queue p) = length (pr_queue q) \<and> (pr_queue p ! i = pr_queue ?w ! i)"
    proof (cases "p = ?w")
      case False
      then obtain j where j: "p = fetch_start j (?w\<lparr>pr_running := True\<rparr>)" "j < length (pr_queue ?w)" "eligible ?w (pr_queue ?w ! j)"
        using kick_starts [of ?w p] pw by auto
      have "store_ok None (?w\<lparr>pr_running := True\<rparr>)"
        using q kick_starts [of ?w p] pw False by (auto simp: pr_ok_def store_flag)
      then have "pe_state (pr_queue p ! j) \<noteq> EQueued"
        using fetch_start_ok(1) [of "?w\<lparr>pr_running := True\<rparr>" j] j
        by (auto simp: fetch_start_def Let_def fetched_def let_go_def gain_def eligible_def split: prod.splits sum.splits option.splits if_splits)
      then have "j \<noteq> i" using assms(3) by auto
      then show ?thesis by (simp add: j(1) fetch_start_other fetch_start_length)
    qed simp
    then show "i < length (pr_queue p)" "pe_waited (pr_queue p ! i)" using iq by simp_all
  qed
  have store: "store_ok (stage_entry (pr_stage p)) p" using p by (simp add: pr_ok_def)
  have t: "tracked p i" using store len assms(3) by (simp add: store_ok_def entry_ok_def Let_def)
  have here: "i \<in> set (map snd (pr_entries p))"
    using t by (force simp: tracked_def jm_get_def dest: map_of_SomeD)
  let ?c = "p\<lparr>pr_closed := True\<rparr>"
  have tc: "list_all (tracked ?c) (map snd (pr_entries p))"
    using entries_tracked(1) [OF store] by (auto simp: tracked_def list_all_iff)
  let ?e = "(pr_queue p ! i)\<lparr>pe_state := EAborted, pe_chunks := []\<rparr>"
  have "pr_queue (close_store p) ! i = ?e"
    using close_fold_queued [OF close_begin [OF store] _ tc entries_tracked(2) [OF store] here] assms(3) by (simp add: close_store_def)
  then have "buried i ?e (close_store p)"
    using close_store_ok [OF store] p len by (simp add: buried_def pr_ok_def)
  then have "buried i ?e (prefetch_run evs' (close_store p))" by (rule buried_run)
  then show ?thesis using waited assms(4) by (simp add: buried_def)
qed

definition sample_store :: prefetcher where
  "sample_store = pr_new \<lparr>s_wire = \<lparr>w_in = [], w_out = [], w_sent = [], w_flush_count = 0, w_deferred = 0, w_version = 16, w_inline_size = 0,
      w_inlined = [], w_messages = (\<lambda>_. None)\<rparr>, s_db = 0, s_cache = None, s_stars = None, s_inline = None, s_next = 0\<rparr>
    3 100 \<lparr>ra_columns = None, ra_depth = 1, ra_max_bytes = 65536\<rparr>"

lemma close_strands_a_claim_witness:
  "\<exists>p. take_entry (hex_str [2]) (prefetch_run [Adds 0 [[1], [2]], Advances 0] sample_store) = (Pending 1, p)
    \<and> (\<forall>evs. pe_settled (pr_queue (prefetch_run evs (close_store p)) ! 1) = None)"
proof -
  let ?q = "prefetch_run [Adds 0 [[1], [2]], Advances 0] sample_store"
  have hex: "hex_str [1] = ''01''" "hex_str [2] = ''02''" by code_simp+
  obtain p where p: "take_entry (hex_str [2]) ?q = (Pending 1, p)" "pe_state (pr_queue p ! 1) = EQueued" "pe_settled (pr_queue p ! 1) = None"
    by (simp add: sample_store_def pr_new_def prefetch_run_def prefetch_step_def add_row_def add_entry_def hex advance_def kick_def
        jm_get_def jm_set_def fetch_start_def inline_take_def loop_top_def eligible_def on_entry_def take_entry_def Let_def upt_rec)
  show ?thesis
    using p close_strands_a_claim [OF refl p(1) [unfolded sample_store_def] p(2,3)] by blast
qed

end
