(* ===== verification/Spec2Isabelle.thy ===== *)
theory Spec2Isabelle
  imports Param_Buffer Tx_Proto Info Date_Time Zoned_Date Statement_Cache Inline_Cache Pool Named_Params Expand_Star Charsets Blob_Pipeline Options Row_Mapper Session_Runs Attachment_Runs Prepared Script_Runs Executor_Runs Batch_Runs Ciphers Transport Srp Legacy_Auth Handshake Handshake_Runs Blob_Handle Blob_Streams Blob_Handle_Runs Blob_Prefetch Prefetch_Runs
begin

text \<open>
  Verification library of the fast-firebird driver.
\<close>

end
